(* ===== verification/Kud_Prelude.thy ===== *)
theory Kud_Prelude
  imports Main "HOL-Library.Word"
begin

unbundle bit_operations_syntax

text \<open>
  Shared vocabulary of the kudOS development: the fixed-width C types of
  \<^verbatim>\<open>student-distrib/types.h\<close>, byte-addressed memory with the little-endian
  16 and 32 bit accesses of the x86, the two reference functions for block moves and
  block fills against which the assembly routines of \<^verbatim>\<open>lib.c\<close> are proved, and the
  generic lemmas on words, lists and runs that the component theories share.
\<close>

section \<open>Fixed-width integers\<close>

type_synonym u8 = "8 word"
type_synonym u16 = "16 word"
type_synonym u32 = "32 word"

text \<open>\<^verbatim>\<open>NULL\<close> and the value the C code writes as \<open>-1\<close> in a 32-bit result.\<close>

abbreviation NULL32 :: u32 where
  "NULL32 \<equiv> 0"

abbreviation minus_one :: u32 where
  "minus_one \<equiv> 0xFFFFFFFF"

named_theorems word_nat \<open>from words to natural numbers\<close>
named_theorems mem_simps \<open>reading back what was stored\<close>
named_theorems frame_simps \<open>parts of the state an operation leaves alone\<close>

lemma unat_sub32 [word_nat]:
  "unat (a - b :: u32) = (if unat b \<le> unat a then unat a - unat b else unat a + 4294967296 - unat b)"
  by (simp add: unat_sub_if_size word_size)

lemma unat_add32 [word_nat]:
  "unat (a + b :: u32) =
     (if unat a + unat b < 4294967296 then unat a + unat b else unat a + unat b - 4294967296)"
  by (simp add: unat_plus_if_size word_size)

lemma unat_lt32 [intro]: "unat (a :: u32) < 4294967296"
proof -
  have "unat a < 2 ^ LENGTH(32)" by (rule unsigned_less)
  then show ?thesis by simp
qed

lemma unat_of_nat32 [word_nat]: "n < 4294967296 \<Longrightarrow> unat (of_nat n :: u32) = n"
  by (simp add: unat_of_nat)

lemma of_nat32_inj:
  "m < 4294967296 \<Longrightarrow> n < 4294967296 \<Longrightarrow> (of_nat m = (of_nat n :: u32)) = (m = n)"
  by (metis unat_of_nat32)

lemma of_nat_unat32 [simp]: "of_nat (unat (a :: u32)) = a"
  by (simp add: of_nat_unat unsigned_ucast_eq)

lemma u32_split: "(a :: u32) = b + of_nat (unat (a - b))"
  by simp

section \<open>Byte-addressed memory\<close>

type_synonym mem = "u32 \<Rightarrow> u8"

definition load16 :: "mem \<Rightarrow> u32 \<Rightarrow> u16" where
  "load16 m a = ucast (m a) OR push_bit 8 (ucast (m (a + 1)))"

definition store16 :: "mem \<Rightarrow> u32 \<Rightarrow> u16 \<Rightarrow> mem" where
  "store16 m a v = m(a := ucast v, a + 1 := ucast (drop_bit 8 v))"

definition load32 :: "mem \<Rightarrow> u32 \<Rightarrow> u32" where
  "load32 m a = ucast (m a) OR push_bit 8 (ucast (m (a + 1)))
     OR push_bit 16 (ucast (m (a + 2))) OR push_bit 24 (ucast (m (a + 3)))"

definition store32 :: "mem \<Rightarrow> u32 \<Rightarrow> u32 \<Rightarrow> mem" where
  "store32 m a v = m(a := ucast v, a + 1 := ucast (drop_bit 8 v),
     a + 2 := ucast (drop_bit 16 v), a + 3 := ucast (drop_bit 24 v))"

lemma load16_store16_same [mem_simps]: "load16 (store16 m a v) a = v"
  by (rule bit_word_eqI)
    (auto simp: load16_def store16_def bit_or_iff bit_push_bit_iff bit_ucast_iff bit_drop_bit_eq)

lemma load16_store16_other [mem_simps]:
  "a - b \<noteq> 0 \<Longrightarrow> a - b \<noteq> 1 \<Longrightarrow> b - a \<noteq> 1 \<Longrightarrow> load16 (store16 m b v) a = load16 m a"
  by (auto simp: load16_def store16_def)

lemma load_store32 [mem_simps]: "load32 (store32 m a v) a = v"
proof -
  have "a + 1 \<noteq> a" "a + 2 \<noteq> a" "a + 3 \<noteq> a" "a + 2 \<noteq> a + 1" "a + 3 \<noteq> a + 1" "a + 3 \<noteq> a + 2"
    "a \<noteq> a + 1" "a \<noteq> a + 2" "a \<noteq> a + 3" "a + 1 \<noteq> a + 2" "a + 1 \<noteq> a + 3" "a + 2 \<noteq> a + 3" by simp_all
  note ne = this
  show ?thesis
    unfolding load32_def store32_def
  proof (rule bit_word_eqI, goal_cases)
    case (1 n)
    then consider "n < 8" | "8 \<le> n" "n < 16" | "16 \<le> n" "n < 24" | "24 \<le> n" "n < 32" by force
    then show ?case by cases (use ne in \<open>auto simp: bit_simps\<close>)
  qed
qed

lemma byte_of_load32:
  "ucast (load32 m a) = m a"
  "ucast (drop_bit 8 (load32 m a)) = m (a + 1)"
  "ucast (drop_bit 16 (load32 m a)) = m (a + 2)"
  "ucast (drop_bit 24 (load32 m a)) = m (a + 3)"
  by (rule bit_word_eqI;
      auto simp: load32_def bit_or_iff bit_push_bit_iff bit_ucast_iff bit_drop_bit_eq
        dest: bit_imp_le_length)+

lemma byte_of_load16:
  "ucast (load16 m a) = m a"
  "ucast (drop_bit 8 (load16 m a)) = m (a + 1)"
  by (rule bit_word_eqI;
      auto simp: load16_def bit_or_iff bit_push_bit_iff bit_ucast_iff bit_drop_bit_eq
        dest: bit_imp_le_length)+

text \<open>The bytes of a region, as a list: the value a C buffer of that size has.\<close>

definition load_bytes :: "mem \<Rightarrow> u32 \<Rightarrow> nat \<Rightarrow> u8 list" where
  "load_bytes m a n = map (\<lambda>i. m (a + of_nat i)) [0..<n]"

fun store_bytes :: "mem \<Rightarrow> u32 \<Rightarrow> u8 list \<Rightarrow> mem" where
  "store_bytes m a [] = m"
| "store_bytes m a (b # bs) = store_bytes (m(a := b)) (a + 1) bs"

lemma length_load_bytes [simp]: "length (load_bytes m a n) = n"
  by (simp add: load_bytes_def)

lemma nth_load_bytes [simp]: "i < n \<Longrightarrow> load_bytes m a n ! i = m (a + of_nat i)"
  by (simp add: load_bytes_def)

lemma load_bytes_append:
  "load_bytes m a (k + n) = load_bytes m a k @ load_bytes m (a + of_nat k) n"
  by (rule nth_equalityI) (auto simp: nth_append algebra_simps)

lemma load_bytes_0 [simp]: "load_bytes m a 0 = []"
  by (simp add: load_bytes_def)

lemma load_bytes_Suc: "load_bytes m a (Suc n) = m a # load_bytes m (a + 1) n"
  using load_bytes_append [of m a 1 n] by (simp add: load_bytes_def)

section \<open>Reference block move and block fill\<close>

text \<open>
  An address \<open>a\<close> lies in the \<open>n\<close> bytes from \<open>d\<close> when \<open>unat (a - d) < n\<close>;
  the subtraction wraps as the 32-bit address arithmetic does, so the formula also covers
  a region that runs over the top of the address space.
\<close>

definition copied :: "mem \<Rightarrow> u32 \<Rightarrow> u32 \<Rightarrow> nat \<Rightarrow> mem" where
  "copied m d s n = (\<lambda>a. if unat (a - d) < n then m (s + (a - d)) else m a)"

definition filled :: "mem \<Rightarrow> u32 \<Rightarrow> nat \<Rightarrow> (nat \<Rightarrow> u8) \<Rightarrow> mem" where
  "filled m d n f = (\<lambda>a. if unat (a - d) < n then f (unat (a - d)) else m a)"

text \<open>A forward move is safe when the destination does not start inside the source.\<close>

definition forward_ok :: "u32 \<Rightarrow> u32 \<Rightarrow> nat \<Rightarrow> bool" where
  "forward_ok d s n \<longleftrightarrow> d = s \<or> n \<le> unat (d - s)"

lemma forward_ok_mono: "forward_ok d s n \<Longrightarrow> k \<le> n \<Longrightarrow> forward_ok d s k"
  by (auto simp: forward_ok_def)

lemma forward_ok_shift [simp]: "forward_ok (d + x) (s + x) n = forward_ok d s n"
  by (simp add: forward_ok_def)

lemma copied_0 [simp]: "copied m d s 0 = m"
  by (simp add: copied_def)

lemma filled_0 [simp]: "filled m d 0 f = m"
  by (simp add: filled_def)

lemma region_shift:
  assumes "k \<le> unat (a - d :: u32)" and "k < 4294967296"
  shows "unat (a - (d + of_nat k)) = unat (a - d) - k"
proof -
  have "a - (d + of_nat k) = (a - d) - of_nat k" by simp
  then show ?thesis
    using assms unat_sub32 [of "a - d" "of_nat k"] by (simp only: unat_of_nat32) simp
qed

lemma region_before:
  assumes "unat (a - d :: u32) < k" and "k < 4294967296"
  shows "unat (a - (d + of_nat k)) = unat (a - d) + 4294967296 - k"
proof -
  have "a - (d + of_nat k) = (a - d) - of_nat k" by simp
  then show ?thesis
    using assms unat_sub32 [of "a - d" "of_nat k"] by (simp only: unat_of_nat32) simp
qed

lemma copied_append:
  assumes ok: "forward_ok d s (k + n)" and len: "k + n < 4294967296"
  shows "copied (copied m d s k) (d + of_nat k) (s + of_nat k) n = copied m d s (k + n)"
proof
  fix a
  let ?x = "unat (a - d)"
  show "copied (copied m d s k) (d + of_nat k) (s + of_nat k) n a = copied m d s (k + n) a"
  proof (cases "?x < k")
    case True
    with len have "unat (a - (d + of_nat k)) = ?x + 4294967296 - k"
      by (intro region_before) auto
    with len have "\<not> unat (a - (d + of_nat k)) < n" by simp
    with True show ?thesis by (simp only: copied_def if_False if_True trans_less_add1)
  next
    case False
    with len have shift: "unat (a - (d + of_nat k)) = ?x - k"
      by (intro region_shift) auto
    have src: "s + of_nat k + (a - (d + of_nat k)) = s + (a - d)" by simp
    have "k \<le> unat (s + (a - d) - d)" if "?x < k + n"
    proof -
      have "s + (a - d) - d = (a - d) - (d - s)" by simp
      then have "unat (s + (a - d) - d) = (if unat (d - s) \<le> ?x then ?x - unat (d - s)
          else ?x + 4294967296 - unat (d - s))"
        by (simp only: unat_sub32 [of "a - d" "d - s"])
      moreover have "unat (d - s) < 4294967296" by (rule unat_lt32)
      moreover have "unat (d - s) = 0 \<or> k + n \<le> unat (d - s)"
        using ok by (auto simp: forward_ok_def)
      ultimately show ?thesis using that False by auto
    qed
    with False shift src show ?thesis by (auto simp: copied_def)
  qed
qed

lemma copied_Suc:
  assumes "forward_ok d s (Suc n)" and "Suc n < 4294967296"
  shows "copied (m(d := m s)) (d + 1) (s + 1) n = copied m d s (Suc n)"
proof -
  have "m(d := m s) = copied m d s 1"
    by (rule ext) (auto simp: copied_def unat_eq_0)
  with copied_append [of d s 1 n m] assms show ?thesis by simp
qed

lemma filled_append:
  assumes "k + n < 4294967296"
  shows "filled (filled m d k f) (d + of_nat k) n (\<lambda>i. f (k + i)) = filled m d (k + n) f"
proof
  fix a
  let ?x = "unat (a - d)"
  show "filled (filled m d k f) (d + of_nat k) n (\<lambda>i. f (k + i)) a = filled m d (k + n) f a"
  proof (cases "?x < k")
    case True
    with assms have "unat (a - (d + of_nat k)) = ?x + 4294967296 - k"
      by (intro region_before) auto
    with assms have "\<not> unat (a - (d + of_nat k)) < n" by simp
    with True show ?thesis by (simp only: filled_def if_False if_True trans_less_add1)
  next
    case False
    with assms have "unat (a - (d + of_nat k)) = ?x - k"
      by (intro region_shift) auto
    with False show ?thesis by (auto simp: filled_def)
  qed
qed

lemma filled_Suc:
  assumes "Suc n < 4294967296"
  shows "filled (m(d := f 0)) (d + 1) n (\<lambda>i. f (Suc i)) = filled m d (Suc n) f"
proof -
  have "m(d := f 0) = filled m d 1 f"
    by (rule ext) (auto simp: filled_def unat_eq_0)
  with filled_append [of 1 n m d f] assms show ?thesis by simp
qed

lemma filled_cong: "(\<And>i. i < n \<Longrightarrow> f i = g i) \<Longrightarrow> filled m d n f = filled m d n g"
  by (rule ext) (simp add: filled_def)

lemma filled_1: "filled m d (Suc 0) f = m(d := f 0)"
  using filled_Suc [of 0 m d f] by simp

lemma filled_2: "filled m d 2 f = m(d := f 0, d + 1 := f 1)"
  using filled_Suc [of 1 m d f] by (simp add: filled_1 numeral_2_eq_2)

lemma filled_4: "filled m d 4 f = m(d := f 0, d + 1 := f 1, d + 2 := f 2, d + 3 := f 3)"
proof -
  have "filled m d 4 f = filled (m(d := f 0)) (d + 1) 3 (\<lambda>i. f (Suc i))"
    using filled_Suc [of 3 m d f] by simp
  also have "\<dots> = filled (m(d := f 0, d + 1 := f 1)) (d + 1 + 1) 2 (\<lambda>i. f (Suc (Suc i)))"
    using filled_Suc [of 2 "m(d := f 0)" "d + 1" "\<lambda>i. f (Suc i)"] by simp
  also have "\<dots> = m(d := f 0, d + 1 := f 1, d + 2 := f 2, d + 3 := f 3)"
    unfolding filled_2 by (simp add: add.assoc numeral_2_eq_2 numeral_3_eq_3)
  finally show ?thesis .
qed

lemma copied_filled: "copied m d s n = filled m d n (\<lambda>i. m (s + of_nat i))"
  by (rule ext) (simp add: copied_def filled_def)

text \<open>Two regions of the same length have no address in common.\<close>

definition apart :: "u32 \<Rightarrow> u32 \<Rightarrow> nat \<Rightarrow> bool" where
  "apart d s n \<longleftrightarrow> n \<le> unat (d - s) \<and> n \<le> unat (s - d)"

lemma apart_sym: "apart d s n = apart s d n"
  by (auto simp: apart_def)

lemma apart_forward_ok: "apart d s n \<Longrightarrow> forward_ok d s n"
  by (simp add: apart_def forward_ok_def)

lemma apart_not_in:
  assumes "apart d s n" and "unat (a - d) < n"
  shows "\<not> unat (a - s) < n"
proof -
  have eq: "a - s = (a - d) + (d - s)" by simp
  have "d - s \<noteq> 0" using assms by (auto simp: apart_def)
  then have "unat (s - d) = 4294967296 - unat (d - s)"
    using unat_sub32 [of 0 "d - s"] by (auto simp: unat_eq_0)
  with assms have "unat (a - d) + unat (d - s) < 4294967296"
    by (auto simp: apart_def)
  then have "unat (a - s) = unat (a - d) + unat (d - s)"
    unfolding eq by (simp only: unat_add32 if_True)
  with assms show ?thesis by (simp add: apart_def)
qed

lemma load_bytes_cong:
  "(\<And>i. i < n \<Longrightarrow> m (a + of_nat i) = m' (a' + of_nat i)) \<Longrightarrow> load_bytes m a n = load_bytes m' a' n"
  by (rule nth_equalityI) auto

lemma load_bytes_copied:
  "n < 4294967296 \<Longrightarrow> load_bytes (copied m d s n) d n = load_bytes m s n"
  by (rule load_bytes_cong) (simp add: copied_def unat_of_nat32)

lemma load_bytes_copied_apart:
  assumes "apart d a n" and "n < 4294967296"
  shows "load_bytes (copied m d s n) a n = load_bytes m a n"
proof (rule load_bytes_cong)
  fix i assume "i < n"
  with assms have "unat (a + of_nat i - a) < n" by (simp add: unat_of_nat32)
  with apart_not_in [of a d n "a + of_nat i"] assms(1) have "\<not> unat (a + of_nat i - d) < n"
    by (simp add: apart_sym)
  then show "copied m d s n (a + of_nat i) = m (a + of_nat i)"
    by (simp add: copied_def)
qed

lemma store_bytes_filled:
  "length bs < 4294967296 \<Longrightarrow> store_bytes m a bs = filled m a (length bs) (\<lambda>i. bs ! i)"
proof (induction bs arbitrary: m a)
  case (Cons b bs)
  then show ?case using filled_Suc [of "length bs" m a "\<lambda>i. (b # bs) ! i"] by simp
qed simp

lemma store_bytes_append:
  "store_bytes m a (xs @ ys) = store_bytes (store_bytes m a xs) (a + of_nat (length xs)) ys"
  by (induction xs arbitrary: m a) (auto simp: algebra_simps)

lemma load_store_bytes:
  "length bs < 4294967296 \<Longrightarrow> load_bytes (store_bytes m a bs) a (length bs) = bs"
  by (rule nth_equalityI) (auto simp: store_bytes_filled filled_def unat_of_nat32)

lemma store_bytes_outside:
  "length bs < 4294967296 \<Longrightarrow> length bs \<le> unat (x - a) \<Longrightarrow> store_bytes m a bs x = m x"
  by (simp add: store_bytes_filled filled_def)

text \<open>The bytes of a string literal of the source.\<close>

definition bytes :: "string \<Rightarrow> u8 list" where
  "bytes s = map of_char s"

section \<open>Runs and invariants\<close>

text \<open>
  A component whose steps interleave is a relation on its states. An invariant that holds
  in every start state and is kept by every step holds in every state of every run.
\<close>

locale invariant_system =
  fixes start :: "'s \<Rightarrow> bool"
    and step :: "'s \<Rightarrow> 's \<Rightarrow> bool"
    and inv :: "'s \<Rightarrow> bool"
  assumes start_inv: "start s \<Longrightarrow> inv s"
    and step_inv: "step s t \<Longrightarrow> inv s \<Longrightarrow> inv t"
begin

lemma run_inv: "step\<^sup>*\<^sup>* s t \<Longrightarrow> inv s \<Longrightarrow> inv t"
  by (induction rule: rtranclp.induct) (auto intro: step_inv)

lemma reachable_inv: "start s \<Longrightarrow> step\<^sup>*\<^sup>* s t \<Longrightarrow> inv t"
  by (blast intro: run_inv start_inv)

end

end
