(* ===== verification/Kud_Mem.thy ===== *)
theory Kud_Mem
  imports Kud_Prelude
begin

unbundle bit_operations_syntax

text \<open>
  The block routines of \<^verbatim>\<open>student-distrib/lib.c\<close> (memset, memset_word,
  memset_dword, memcpy, memmove), written in inline assembly there and translated
  label by label here: the byte loop up to a 4-byte boundary, the repeated string
  instruction, the remaining bytes. \<open>ecx\<close> and \<open>edx\<close> are natural numbers, since every
  decrement is guarded by a test for zero; addresses are 32-bit words and wrap.
  Each routine is proved equal to the reference move or fill of the prelude, and the
  locale \<open>block_move\<close> states the contract that the clients of a move rely on.
\<close>

section \<open>The routines\<close>

subsection \<open>memset, memset\_word, memset\_dword\<close>

fun rep_stosl :: "nat \<Rightarrow> u32 \<Rightarrow> mem \<Rightarrow> u32 \<Rightarrow> mem \<times> u32" where
  "rep_stosl 0 eax m edi = (m, edi)"
| "rep_stosl (Suc ecx) eax m edi = rep_stosl ecx eax (store32 m edi eax) (edi + 4)"

fun rep_stosw :: "nat \<Rightarrow> u16 \<Rightarrow> mem \<Rightarrow> u32 \<Rightarrow> mem \<times> u32" where
  "rep_stosw 0 ax m edi = (m, edi)"
| "rep_stosw (Suc ecx) ax m edi = rep_stosw ecx ax (store16 m edi ax) (edi + 2)"

fun memset_bottom :: "nat \<Rightarrow> u32 \<Rightarrow> mem \<Rightarrow> u32 \<Rightarrow> mem" where
  "memset_bottom 0 eax m edi = m"
| "memset_bottom (Suc edx) eax m edi = memset_bottom edx eax (m(edi := ucast eax)) (edi + 1)"

definition memset_aligned :: "nat \<Rightarrow> u32 \<Rightarrow> mem \<Rightarrow> u32 \<Rightarrow> mem" where
  "memset_aligned ecx eax m edi =
     (case rep_stosl (ecx div 4) eax m edi of
        (m', edi') \<Rightarrow> memset_bottom (ecx mod 4) eax m' edi')"

fun memset_top :: "nat \<Rightarrow> u32 \<Rightarrow> mem \<Rightarrow> u32 \<Rightarrow> mem" where
  "memset_top 0 eax m edi = m"
| "memset_top (Suc ecx) eax m edi =
     (if edi AND 3 = 0 then memset_aligned (Suc ecx) eax m edi
      else memset_top ecx eax (m(edi := ucast eax)) (edi + 1))"

definition memset :: "mem \<Rightarrow> u32 \<Rightarrow> u32 \<Rightarrow> u32 \<Rightarrow> mem" where
  "memset m s c n =
     (let c = c AND 0xFF in
      memset_top (unat n) (push_bit 24 c OR push_bit 16 c OR push_bit 8 c OR c) m s)"

definition memset_word :: "mem \<Rightarrow> u32 \<Rightarrow> u32 \<Rightarrow> u32 \<Rightarrow> mem" where
  "memset_word m s c n = fst (rep_stosw (unat n) (ucast c) m s)"

definition memset_dword :: "mem \<Rightarrow> u32 \<Rightarrow> u32 \<Rightarrow> u32 \<Rightarrow> mem" where
  "memset_dword m s c n = fst (rep_stosl (unat n) c m s)"

subsection \<open>memcpy and memmove\<close>

fun rep_movsl :: "nat \<Rightarrow> mem \<Rightarrow> u32 \<Rightarrow> u32 \<Rightarrow> mem \<times> u32 \<times> u32" where
  "rep_movsl 0 m edi esi = (m, edi, esi)"
| "rep_movsl (Suc ecx) m edi esi =
     rep_movsl ecx (store32 m edi (load32 m esi)) (edi + 4) (esi + 4)"

fun memcpy_bottom :: "nat \<Rightarrow> mem \<Rightarrow> u32 \<Rightarrow> u32 \<Rightarrow> mem" where
  "memcpy_bottom 0 m edi esi = m"
| "memcpy_bottom (Suc edx) m edi esi = memcpy_bottom edx (m(edi := m esi)) (edi + 1) (esi + 1)"

definition memcpy_aligned :: "nat \<Rightarrow> mem \<Rightarrow> u32 \<Rightarrow> u32 \<Rightarrow> mem" where
  "memcpy_aligned ecx m edi esi =
     (case rep_movsl (ecx div 4) m edi esi of
        (m', edi', esi') \<Rightarrow> memcpy_bottom (ecx mod 4) m' edi' esi')"

fun memcpy_top :: "nat \<Rightarrow> mem \<Rightarrow> u32 \<Rightarrow> u32 \<Rightarrow> mem" where
  "memcpy_top 0 m edi esi = m"
| "memcpy_top (Suc ecx) m edi esi =
     (if edi AND 3 = 0 then memcpy_aligned (Suc ecx) m edi esi
      else memcpy_top ecx (m(edi := m esi)) (edi + 1) (esi + 1))"

definition memcpy :: "mem \<Rightarrow> u32 \<Rightarrow> u32 \<Rightarrow> u32 \<Rightarrow> mem" where
  "memcpy m dest src n = memcpy_top (unat n) m dest src"

text \<open>
  \<^verbatim>\<open>rep movsb\<close> in both directions. memmove leaves the direction flag set after a
  backward move; the flag is the second component of its result.
\<close>

fun rep_movsb_up :: "nat \<Rightarrow> mem \<Rightarrow> u32 \<Rightarrow> u32 \<Rightarrow> mem" where
  "rep_movsb_up 0 m edi esi = m"
| "rep_movsb_up (Suc ecx) m edi esi = rep_movsb_up ecx (m(edi := m esi)) (edi + 1) (esi + 1)"

fun rep_movsb_down :: "nat \<Rightarrow> mem \<Rightarrow> u32 \<Rightarrow> u32 \<Rightarrow> mem" where
  "rep_movsb_down 0 m edi esi = m"
| "rep_movsb_down (Suc ecx) m edi esi = rep_movsb_down ecx (m(edi := m esi)) (edi - 1) (esi - 1)"

definition memmove :: "mem \<Rightarrow> u32 \<Rightarrow> u32 \<Rightarrow> u32 \<Rightarrow> mem \<times> bool" where
  "memmove m dest src n =
     (if src \<ge> dest then (rep_movsb_up (unat n) m dest src, False)
      else (rep_movsb_down (unat n) m (dest + n - 1) (src + n - 1), True))"

section \<open>Fills\<close>

lemma store32_filled: "store32 m d v = filled m d 4 (\<lambda>i. ucast (drop_bit (8 * i) v))"
  by (simp add: store32_def filled_4)

lemma store16_filled: "store16 m d v = filled m d 2 (\<lambda>i. ucast (drop_bit (8 * i) v))"
  by (simp add: store16_def filled_2)

lemma rep_stosl_filled:
  "4 * n < 4294967296 \<Longrightarrow>
   rep_stosl n v m d =
     (filled m d (4 * n) (\<lambda>i. ucast (drop_bit (8 * (i mod 4)) v)), d + of_nat (4 * n))"
proof (induction n arbitrary: m d)
  case 0
  then show ?case by simp
next
  case (Suc n)
  let ?f = "\<lambda>i. ucast (drop_bit (8 * (i mod 4)) v) :: u8"
  have "store32 m d v = filled m d 4 ?f"
    unfolding store32_filled by (rule filled_cong) simp
  moreover have "filled (filled m d 4 ?f) (d + 4) (4 * n) ?f = filled m d (4 + 4 * n) ?f"
    using filled_append [of 4 "4 * n" m d ?f] Suc.prems by simp
  ultimately show ?case using Suc by (simp add: algebra_simps)
qed

lemma rep_stosw_filled:
  "2 * n < 4294967296 \<Longrightarrow>
   rep_stosw n v m d =
     (filled m d (2 * n) (\<lambda>i. ucast (drop_bit (8 * (i mod 2)) v)), d + of_nat (2 * n))"
proof (induction n arbitrary: m d)
  case 0
  then show ?case by simp
next
  case (Suc n)
  let ?f = "\<lambda>i. ucast (drop_bit (8 * (i mod 2)) v) :: u8"
  have "store16 m d v = filled m d 2 ?f"
    unfolding store16_filled by (rule filled_cong) simp
  moreover have "filled (filled m d 2 ?f) (d + 2) (2 * n) ?f = filled m d (2 + 2 * n) ?f"
    using filled_append [of 2 "2 * n" m d ?f] Suc.prems by simp
  ultimately show ?case using Suc by (simp add: algebra_simps)
qed

lemma memset_bottom_filled:
  "n < 4294967296 \<Longrightarrow> memset_bottom n v m d = filled m d n (\<lambda>_. ucast v)"
proof (induction n arbitrary: m d)
  case (Suc n)
  then show ?case using filled_Suc [of n m d "\<lambda>_. ucast v"] by simp
qed simp

text \<open>The byte that memset replicates over its 32-bit pattern.\<close>

lemma low_byte_bits: "bit (c AND 0xFF :: u32) k \<Longrightarrow> k < 8"
proof -
  assume b: "bit (c AND 0xFF) k"
  have "(0xFF :: u32) = mask 8" by (simp add: mask_eq_exp_minus_1)
  with b show ?thesis by (simp only: bit_and_iff bit_mask_iff)
qed

lemma low_byte_ucast: "(ucast (c AND 0xFF :: u32) :: u8) = ucast c"
proof -
  have "(0xFF :: u32) = mask 8" by (simp add: mask_eq_exp_minus_1)
  then have eq: "c AND 0xFF = take_bit 8 c" by (simp only: take_bit_eq_mask)
  show ?thesis unfolding eq by (rule bit_word_eqI) (auto simp: bit_ucast_iff bit_take_bit_iff)
qed

lemma memset_pattern:
  fixes x :: u32
  assumes low: "\<And>k. bit x k \<Longrightarrow> k < 8" and "i < 4"
  shows "ucast (drop_bit (8 * i) (push_bit 24 x OR push_bit 16 x OR push_bit 8 x OR x))
    = (ucast x :: u8)" (is "?l = _")
proof (rule bit_word_eqI)
  fix k assume "k < LENGTH(8)"
  then have k: "k < 8" by simp
  have "i = 0 \<or> i = 1 \<or> i = 2 \<or> i = 3" using assms(2) by auto
  then show "bit ?l k = bit (ucast x :: u8) k"
    using k by (elim disjE)
      (auto simp: bit_or_iff bit_push_bit_iff bit_ucast_iff bit_drop_bit_eq dest: low)
qed

lemma memset_top_filled:
  assumes "\<And>i. i < 4 \<Longrightarrow> ucast (drop_bit (8 * i) v) = b"
  shows "n < 4294967296 \<Longrightarrow> memset_top n v m d = filled m d n (\<lambda>_. b)"
proof (induction n arbitrary: m d)
  case 0
  then show ?case by simp
next
  case (Suc n)
  have low: "ucast v = b" using assms [of 0] by simp
  show ?case
  proof (cases "d AND 3 = 0")
    case False
    with Suc show ?thesis using filled_Suc [of n m d "\<lambda>_. b"] by (simp add: low)
  next
    case True
    let ?q = "4 * (Suc n div 4)" and ?r = "Suc n mod 4"
    have len: "?q + ?r = Suc n" by simp
    have "filled m d ?q (\<lambda>i. ucast (drop_bit (8 * (i mod 4)) v)) = filled m d ?q (\<lambda>_. b)"
      by (rule filled_cong) (simp add: assms)
    moreover have "?q < 4294967296" using Suc.prems len by linarith
    ultimately have "rep_stosl (Suc n div 4) v m d = (filled m d ?q (\<lambda>_. b), d + of_nat ?q)"
      using rep_stosl_filled [of "Suc n div 4" v m d] by simp
    moreover have "?r < 4294967296" using Suc.prems len by linarith
    ultimately have "memset_top (Suc n) v m d =
        filled (filled m d ?q (\<lambda>_. b)) (d + of_nat ?q) ?r (\<lambda>_. b)"
      using True by (simp add: memset_aligned_def memset_bottom_filled low)
    also have "\<dots> = filled m d (?q + ?r) (\<lambda>_. b)"
      by (rule filled_append) (use Suc.prems len in linarith)
    finally show ?thesis by (simp only: len)
  qed
qed

lemma memset_filled: "memset m s c n = filled m s (unat n) (\<lambda>_. ucast c)"
proof -
  let ?x = "c AND 0xFF"
  have "memset m s c n = filled m s (unat n) (\<lambda>_. ucast ?x)"
    unfolding memset_def Let_def
    by (rule memset_top_filled [OF memset_pattern [OF low_byte_bits] unat_lt32])
  then show ?thesis by (simp only: low_byte_ucast)
qed

lemma memset_word_filled:
  "2 * unat n < 4294967296 \<Longrightarrow>
   memset_word m s c n = filled m s (2 * unat n) (\<lambda>i. ucast (drop_bit (8 * (i mod 2)) (ucast c :: u16)))"
  by (simp add: memset_word_def rep_stosw_filled)

lemma memset_dword_filled:
  "4 * unat n < 4294967296 \<Longrightarrow>
   memset_dword m s c n = filled m s (4 * unat n) (\<lambda>i. ucast (drop_bit (8 * (i mod 4)) c))"
  by (simp add: memset_dword_def rep_stosl_filled)

section \<open>Moves\<close>

lemma store32_load32_copied: "store32 m d (load32 m s) = copied m d s 4"
  by (simp add: store32_def copied_filled filled_4 byte_of_load32)

lemma rep_movsl_copied:
  "4 * n < 4294967296 \<Longrightarrow> forward_ok d s (4 * n) \<Longrightarrow>
   rep_movsl n m d s = (copied m d s (4 * n), d + of_nat (4 * n), s + of_nat (4 * n))"
proof (induction n arbitrary: m d s)
  case 0
  then show ?case by simp
next
  case (Suc n)
  have ok: "forward_ok (d + 4) (s + 4) (4 * n)"
    using Suc.prems(2) forward_ok_mono [of d s "4 * Suc n" "4 * n"] by simp
  have "copied (copied m d s 4) (d + 4) (s + 4) (4 * n) = copied m d s (4 + 4 * n)"
    using copied_append [of d s 4 "4 * n" m] Suc.prems by simp
  with ok Suc show ?case by (simp add: store32_load32_copied algebra_simps)
qed

lemma memcpy_bottom_copied:
  "n < 4294967296 \<Longrightarrow> forward_ok d s n \<Longrightarrow> memcpy_bottom n m d s = copied m d s n"
proof (induction n arbitrary: m d s)
  case (Suc n)
  then have "forward_ok (d + 1) (s + 1) n"
    using forward_ok_mono [of d s "Suc n" n] by simp
  with Suc show ?case using copied_Suc [of d s n m] by simp
qed simp

lemma rep_movsb_up_bottom: "rep_movsb_up n m d s = memcpy_bottom n m d s"
  by (induction n arbitrary: m d s) auto

lemma memcpy_top_copied:
  "n < 4294967296 \<Longrightarrow> forward_ok d s n \<Longrightarrow> memcpy_top n m d s = copied m d s n"
proof (induction n arbitrary: m d s)
  case 0
  then show ?case by simp
next
  case (Suc n)
  show ?case
  proof (cases "d AND 3 = 0")
    case False
    from Suc.prems(2) have "forward_ok (d + 1) (s + 1) n"
      using forward_ok_mono [of d s "Suc n" n] by simp
    with False Suc show ?thesis using copied_Suc [of d s n m] by simp
  next
    case True
    let ?q = "4 * (Suc n div 4)" and ?r = "Suc n mod 4"
    have len: "?q + ?r = Suc n" by simp
    have small: "?q < 4294967296" "?r < 4294967296" using Suc.prems(1) len by linarith+
    have ok: "forward_ok d s ?q" "forward_ok d s ?r"
      using Suc.prems(2) len by (auto intro: forward_ok_mono)
    have "memcpy_top (Suc n) m d s =
        memcpy_bottom ?r (copied m d s ?q) (d + of_nat ?q) (s + of_nat ?q)"
      using True rep_movsl_copied [OF small(1) ok(1), of m] by (simp add: memcpy_aligned_def)
    also have "\<dots> = copied (copied m d s ?q) (d + of_nat ?q) (s + of_nat ?q) ?r"
      by (rule memcpy_bottom_copied) (use small ok in simp_all)
    also have "\<dots> = copied m d s (?q + ?r)"
      by (rule copied_append) (use Suc.prems len in simp_all)
    finally show ?thesis by (simp only: len)
  qed
qed

lemma memcpy_copied: "forward_ok d s (unat n) \<Longrightarrow> memcpy m d s n = copied m d s (unat n)"
  by (simp add: memcpy_def memcpy_top_copied unat_lt32)

text \<open>The backward move is safe when the source does not start inside the destination.\<close>

lemma rep_movsb_down_copied:
  "n < 4294967296 \<Longrightarrow> forward_ok s d n \<Longrightarrow>
   rep_movsb_down n m (d + of_nat n - 1) (s + of_nat n - 1) = copied m d s n"
proof (induction n arbitrary: m)
  case 0
  then show ?case by simp
next
  case (Suc n)
  let ?m = "m(d + of_nat n := m (s + of_nat n))"
  have n: "unat (of_nat n :: u32) = n" using Suc.prems by (simp add: unat_of_nat32)
  have "copied ?m d s n a = copied m d s (Suc n) a" for a
  proof -
    have at: "a = d + of_nat n \<longleftrightarrow> unat (a - d) = n"
      using n by (metis add_diff_cancel_left' diff_add_cancel of_nat_unat32 add.commute)
    have "s + (a - d) \<noteq> d + of_nat n" if "unat (a - d) < n"
    proof
      assume "s + (a - d) = d + of_nat n"
      then have "s - d = of_nat n - (a - d)" by (simp add: algebra_simps)
      with that n unat_sub32 [of "of_nat n" "a - d"] have "unat (s - d) = n - unat (a - d)"
        by (simp only:) simp
      with that Suc.prems(2) show False by (auto simp: forward_ok_def)
    qed
    with at show ?thesis by (auto simp: copied_def less_Suc_eq)
  qed
  then have "copied ?m d s n = copied m d s (Suc n)" by (rule ext)
  moreover have "rep_movsb_down n ?m (d + of_nat n - 1) (s + of_nat n - 1) = copied ?m d s n"
    using Suc.prems by (intro Suc.IH) (auto intro: forward_ok_mono)
  ultimately show ?case by (simp add: algebra_simps)
qed

lemma memmove_copied:
  assumes "unat s + unat n \<le> 4294967296" and "unat d + unat n \<le> 4294967296"
  shows "fst (memmove m d s n) = copied m d s (unat n)"
proof (cases "s \<ge> d")
  case True
  then have "unat d \<le> unat s" by (simp add: word_le_nat_alt)
  then have "forward_ok d s (unat n)"
    using assms by (auto simp: forward_ok_def unat_sub32 dest: word_unat_eq_iff [THEN iffD2])
  with True show ?thesis
    by (simp add: memmove_def rep_movsb_up_bottom memcpy_bottom_copied unat_lt32)
next
  case False
  then have "unat s < unat d" by (simp add: word_le_nat_alt)
  then have "forward_ok s d (unat n)"
    using assms by (auto simp: forward_ok_def unat_sub32)
  with False rep_movsb_down_copied [of "unat n" s d m] show ?thesis
    by (simp add: memmove_def unat_lt32)
qed

section \<open>The contract of a block move\<close>

text \<open>
  What the rest of the kernel relies on when it calls a routine that moves \<open>n\<close> bytes:
  under the routine's side condition the destination holds the old contents of the source
  and nothing else changes. The terminal driver saves and restores whole screen pages with
  it; \<open>exchange_back\<close> is the argument that a page put away and fetched again is intact.
\<close>

locale block_move =
  fixes move :: "mem \<Rightarrow> u32 \<Rightarrow> u32 \<Rightarrow> u32 \<Rightarrow> mem"
    and safe :: "u32 \<Rightarrow> u32 \<Rightarrow> u32 \<Rightarrow> bool"
  assumes move_copied: "safe d s n \<Longrightarrow> move m d s n = copied m d s (unat n)"
begin

lemma move_bytes: "safe d s n \<Longrightarrow> load_bytes (move m d s n) d (unat n) = load_bytes m s (unat n)"
  by (simp add: move_copied load_bytes_copied unat_lt32)

lemma move_frame: "safe d s n \<Longrightarrow> unat n \<le> unat (a - d) \<Longrightarrow> move m d s n a = m a"
  by (simp add: move_copied copied_def)

lemma move_other_region:
  "safe d s n \<Longrightarrow> apart d a (unat n) \<Longrightarrow>
   load_bytes (move m d s n) a (unat n) = load_bytes m a (unat n)"
  by (simp add: move_copied load_bytes_copied_apart unat_lt32)

lemma exchange:
  fixes m :: mem
  assumes "safe p v n" "safe v q n" "apart p v (unat n)" "apart p q (unat n)" "apart v q (unat n)"
  defines "m' \<equiv> move (move m p v n) v q n"
  shows "load_bytes m' v (unat n) = load_bytes m q (unat n)"
    and "load_bytes m' p (unat n) = load_bytes m v (unat n)"
    and "load_bytes m' q (unat n) = load_bytes m q (unat n)"
proof -
  have vp: "apart v p (unat n)" using assms(3) by (simp add: apart_sym)
  show "load_bytes m' v (unat n) = load_bytes m q (unat n)"
    using assms by (simp add: move_bytes move_other_region)
  show "load_bytes m' p (unat n) = load_bytes m v (unat n)"
    using assms vp by (simp add: move_bytes move_other_region)
  show "load_bytes m' q (unat n) = load_bytes m q (unat n)"
    using assms by (simp add: move_other_region)
qed

lemma exchange_back:
  fixes m :: mem
  assumes "safe p v n" "safe v q n" "safe q v n" "safe v p n"
    and "apart p v (unat n)" "apart p q (unat n)" "apart v q (unat n)"
  defines "m1 \<equiv> move (move m p v n) v q n"
  shows "load_bytes (move (move m1 q v n) v p n) v (unat n) = load_bytes m v (unat n)"
    and "load_bytes (move (move m1 q v n) v p n) q (unat n) = load_bytes m q (unat n)"
proof -
  have ap: "apart q v (unat n)" "apart q p (unat n)" "apart v p (unat n)"
    using assms(5-7) by (simp_all add: apart_sym)
  note away = exchange [OF assms(1,2,5,6,7), of m, folded m1_def]
  note fetch = exchange [OF assms(3,4) ap(1,2,3), of m1]
  show "load_bytes (move (move m1 q v n) v p n) v (unat n) = load_bytes m v (unat n)"
    by (simp only: fetch(1) away(2))
  show "load_bytes (move (move m1 q v n) v p n) q (unat n) = load_bytes m q (unat n)"
    by (simp only: fetch(2) away(1))
qed

end

interpretation cpy: block_move memcpy "\<lambda>d s n. forward_ok d s (unat n)"
  by unfold_locales (rule memcpy_copied)

interpretation mov: block_move "\<lambda>m d s n. fst (memmove m d s n)"
    "\<lambda>d s n. unat s + unat n \<le> 4294967296 \<and> unat d + unat n \<le> 4294967296"
  by unfold_locales (simp add: memmove_copied)

section \<open>Properties\<close>

text \<open>
  C36: memcpy, whatever the alignment of its arguments, leaves in the destination the
  bytes the source had and changes no other byte, provided the destination does not start
  inside the source.
\<close>

theorem memcpy_moves:
  assumes "forward_ok dest src (unat n)"
  shows "load_bytes (memcpy m dest src n) dest (unat n) = load_bytes m src (unat n)
    \<and> (\<forall>a. unat n \<le> unat (a - dest) \<longrightarrow> memcpy m dest src n a = m a)"
  using assms by (simp add: cpy.move_bytes cpy.move_frame)

theorem memcpy_moves_witness:
  "load_bytes (memcpy (\<lambda>a. ucast a) 0x1003 0x2001 11) 0x1003 11 = [1, 2, 3, 4, 5, 6, 7, 8, 9, 10, 11]
   \<and> memcpy (\<lambda>a. ucast a) 0x1003 0x2001 11 0x100E = 0x0E"
proof -
  have ok: "forward_ok 0x1003 0x2001 (unat (11 :: u32))" by (simp add: forward_ok_def)
  have "load_bytes (\<lambda>a. ucast a) 0x2001 11 = [1, 2, 3, 4, 5, 6, 7, 8, 9, 10, 11 :: u8]" by code_simp
  with memcpy_moves [OF ok, of "\<lambda>a. ucast a"] show ?thesis by simp
qed

text \<open>
  Memmove is correct for every overlap of source and destination: as long as neither
  region wraps around the address space the destination ends with the bytes the source had
  before the call and every other byte is kept. The direction flag is set on return exactly
  when the source lies below the destination.
\<close>

theorem memmove_moves:
  assumes "unat src + unat n \<le> 2 ^ 32" and "unat dest + unat n \<le> 2 ^ 32"
  shows "load_bytes (fst (memmove m dest src n)) dest (unat n) = load_bytes m src (unat n)
    \<and> (\<forall>a. unat n \<le> unat (a - dest) \<longrightarrow> fst (memmove m dest src n) a = m a)
    \<and> (snd (memmove m dest src n) \<longleftrightarrow> src < dest)"
  using assms by (simp add: mov.move_bytes mov.move_frame) (auto simp: memmove_def)

theorem memmove_moves_witness:
  "load_bytes (fst (memmove (\<lambda>a. ucast a) 0x1003 0x1001 5)) 0x1003 5 = [1, 2, 3, 4, 5]
   \<and> load_bytes (fst (memmove (\<lambda>a. ucast a) 0x1001 0x1003 5)) 0x1001 5 = [3, 4, 5, 6, 7]"
proof -
  have "load_bytes (\<lambda>a. ucast a) 0x1001 5 = [1, 2, 3, 4, 5 :: u8]"
    "load_bytes (\<lambda>a. ucast a) 0x1003 5 = [3, 4, 5, 6, 7 :: u8]" by code_simp+
  with memmove_moves [where src = "0x1001" and n = 5 and dest = "0x1003" and m = "\<lambda>a. ucast a"]
    memmove_moves [where src = "0x1003" and n = 5 and dest = "0x1001" and m = "\<lambda>a. ucast a"]
  show ?thesis by simp
qed

text \<open>
  Memset writes the low byte of its argument to exactly the \<open>n\<close> bytes from \<open>s\<close>, for
  every alignment and length, the address arithmetic wrapping at 32 bits.
\<close>

theorem memset_fills:
  "memset m s c n = (\<lambda>a. if unat (a - s) < unat n then ucast c else m a)"
  by (simp add: memset_filled filled_def)

text \<open>
  Memset\_word and memset\_dword count 16-bit and 32-bit units: \<open>n\<close> units from \<open>s\<close> hold
  the (low half of the) value, byte by byte in little-endian order, and nothing else changes.
\<close>

theorem memset_units_fill:
  assumes "4 * unat n < 2 ^ 32"
  shows "memset_word m s c n =
      (\<lambda>a. if unat (a - s) < 2 * unat n then ucast (drop_bit (8 * (unat (a - s) mod 2)) (ucast c :: u16)) else m a)
    \<and> memset_dword m s c n =
      (\<lambda>a. if unat (a - s) < 4 * unat n then ucast (drop_bit (8 * (unat (a - s) mod 4)) c) else m a)"
  using assms by (simp add: memset_word_filled memset_dword_filled filled_def)

theorem memset_units_fill_witness:
  "memset_word (\<lambda>_. 0) 0xB8000 0x0720 3 0xB8005 = 0x07
   \<and> memset_word (\<lambda>_. 0) 0xB8000 0x0720 3 0xB8006 = 0
   \<and> memset_dword (\<lambda>_. 0) 0xB8000 0x12345678 1 0xB8003 = 0x12"
  using memset_units_fill [where n = 3 and m = "\<lambda>_. 0" and s = "0xB8000" and c = "0x0720"]
    memset_units_fill [where n = 1 and m = "\<lambda>_. 0" and s = "0xB8000" and c = "0x12345678"]
  by simp

end
