(* ===== verification/Kud_Ports.thy ===== *)
theory Kud_Ports
  imports Kud_Prelude
begin

unbundle bit_operations_syntax

text \<open>
  Port input and output (\<^verbatim>\<open>inb\<close>, \<^verbatim>\<open>outb\<close>, \<^verbatim>\<open>cli\<close>, \<^verbatim>\<open>sti\<close> of
  \<^verbatim>\<open>student-distrib/lib.h\<close>) and the 8259 driver \<^verbatim>\<open>student-distrib/i8259.c\<close>.
  The hardware is not part of the repository: the state records the port accesses made so
  far (newest first), and the field \<open>dev\<close> gives the byte the devices answer a read with,
  as a function of that history. What the drivers rely on is stated as a hypothesis on
  \<open>dev\<close>: the predicate \<open>pic_device\<close> says that a read of a mask register returns the
  byte last written to it.
\<close>

section \<open>Port access\<close>

datatype io_event = Out u16 u8 | In u16 u8

record io_state =
  iolog :: "io_event list"
  dev :: "io_event list \<Rightarrow> u16 \<Rightarrow> u8"
  iflag :: bool

definition outb :: "u32 \<Rightarrow> u16 \<Rightarrow> 'a io_state_scheme \<Rightarrow> 'a io_state_scheme" where
  "outb data port s = s\<lparr>iolog := Out port (ucast data) # iolog s\<rparr>"

definition inb :: "u16 \<Rightarrow> 'a io_state_scheme \<Rightarrow> u32 \<times> 'a io_state_scheme" where
  "inb port s =
     (let b = dev s (iolog s) port in (ucast b, s\<lparr>iolog := In port b # iolog s\<rparr>))"

definition cli :: "'a io_state_scheme \<Rightarrow> 'a io_state_scheme" where
  "cli s = s\<lparr>iflag := False\<rparr>"

definition sti :: "'a io_state_scheme \<Rightarrow> 'a io_state_scheme" where
  "sti s = s\<lparr>iflag := True\<rparr>"

text \<open>The byte last written to a port.\<close>

fun last_out :: "u16 \<Rightarrow> io_event list \<Rightarrow> u8" where
  "last_out p [] = 0"
| "last_out p (Out q b # es) = (if q = p then b else last_out p es)"
| "last_out p (In q b # es) = last_out p es"

section \<open>The 8259 driver\<close>

record pic_state = io_state +
  master_mask :: u8
  slave_mask :: u8

definition MASTER_8259_PORT :: u16 where "MASTER_8259_PORT = 0x20"
definition SLAVE_8259_PORT :: u16 where "SLAVE_8259_PORT = 0xA0"
definition MASTER_DATA :: u16 where "MASTER_DATA = MASTER_8259_PORT + 1"
definition SLAVE_DATA :: u16 where "SLAVE_DATA = SLAVE_8259_PORT + 1"

lemmas pic_ports = MASTER_8259_PORT_def SLAVE_8259_PORT_def MASTER_DATA_def SLAVE_DATA_def

definition i8259_init :: "'a pic_state_scheme \<Rightarrow> 'a pic_state_scheme" where
  "i8259_init s =
     outb 0xFF SLAVE_DATA (outb 0xFB MASTER_DATA
       (outb 0x01 SLAVE_DATA (outb 0x01 MASTER_DATA
         (outb 0x02 SLAVE_DATA (outb 0x04 MASTER_DATA
           (outb 0x28 SLAVE_DATA (outb 0x20 MASTER_DATA
             (outb 0x11 SLAVE_8259_PORT (outb 0x11 MASTER_8259_PORT s)))))))))"

definition enable_irq :: "u32 \<Rightarrow> 'a pic_state_scheme \<Rightarrow> 'a pic_state_scheme" where
  "enable_irq irq_num s =
     (if irq_num < 8
      then let (v, s) = inb MASTER_DATA s;
               s = s\<lparr>master_mask := ucast (v AND NOT (push_bit (unat irq_num) 1))\<rparr>
           in outb (ucast (master_mask s)) MASTER_DATA s
      else let irq_num = irq_num - 8;
               (v, s) = inb SLAVE_DATA s;
               s = s\<lparr>slave_mask := ucast (v AND NOT (push_bit (unat irq_num) 1))\<rparr>
           in outb (ucast (slave_mask s)) SLAVE_DATA s)"

definition disable_irq :: "u32 \<Rightarrow> 'a pic_state_scheme \<Rightarrow> 'a pic_state_scheme" where
  "disable_irq irq_num s =
     (if irq_num < 8
      then let (v, s) = inb MASTER_DATA s;
               s = s\<lparr>master_mask := ucast (v OR push_bit (unat irq_num) 1)\<rparr>
           in outb (ucast (master_mask s)) MASTER_DATA s
      else let irq_num = irq_num - 8;
               (v, s) = inb SLAVE_DATA s;
               s = s\<lparr>slave_mask := ucast (v OR push_bit (unat irq_num) 1)\<rparr>
           in outb (ucast (slave_mask s)) SLAVE_DATA s)"

definition send_eoi :: "u32 \<Rightarrow> 'a pic_state_scheme \<Rightarrow> 'a pic_state_scheme" where
  "send_eoi irq_num s =
     (if irq_num \<ge> 8
      then outb (0x60 OR 2) MASTER_8259_PORT (outb (0x60 OR (irq_num - 8)) SLAVE_8259_PORT s)
      else outb (0x60 OR irq_num) MASTER_8259_PORT s)"

section \<open>Interrupt masks\<close>

definition irq_masked :: "'a io_state_scheme \<Rightarrow> nat \<Rightarrow> bool" where
  "irq_masked s n \<longleftrightarrow>
     (if n < 8 then bit (last_out MASTER_DATA (iolog s)) n
      else bit (last_out SLAVE_DATA (iolog s)) (n - 8))"

definition pic_device :: "(io_event list \<Rightarrow> u16 \<Rightarrow> u8) \<Rightarrow> bool" where
  "pic_device d \<longleftrightarrow> (\<forall>es. d es MASTER_DATA = last_out MASTER_DATA es
                       \<and> d es SLAVE_DATA = last_out SLAVE_DATA es)"

lemma outb_simps [simp]:
  "iolog (outb d p s) = Out p (ucast d) # iolog s" "dev (outb d p s) = dev s"
  "iflag (outb d p s) = iflag s"
  by (simp_all add: outb_def)

lemma pic_port_distinct [simp]:
  "MASTER_DATA \<noteq> SLAVE_DATA" "SLAVE_DATA \<noteq> MASTER_DATA"
  "MASTER_8259_PORT \<noteq> MASTER_DATA" "MASTER_8259_PORT \<noteq> SLAVE_DATA"
  "SLAVE_8259_PORT \<noteq> MASTER_DATA" "SLAVE_8259_PORT \<noteq> SLAVE_DATA"
  by (simp_all add: pic_ports)

lemma bit_clear_byte:
  "n < 8 \<Longrightarrow> k < 8 \<Longrightarrow>
   bit (ucast (ucast (ucast (ucast b AND NOT (2 ^ k) :: u32) :: u8) :: u32) :: u8) n
     = (bit (b :: u8) n \<and> n \<noteq> k)"
  by (auto simp: bit_ucast_iff bit_and_iff bit_not_iff bit_exp_iff)

lemma bit_set_byte:
  "n < 8 \<Longrightarrow> k < 8 \<Longrightarrow>
   bit (ucast (ucast (ucast (ucast b OR 2 ^ k :: u32) :: u8) :: u32) :: u8) n
     = (bit (b :: u8) n \<or> n = k)"
  by (auto simp: bit_ucast_iff bit_or_iff bit_exp_iff)

lemma of_nat_irq: "k < 16 \<Longrightarrow> (of_nat k < (8 :: u32)) = (k < 8)"
  by (simp add: word_less_nat_alt unat_of_nat32)

lemma unat_irq_slave: "8 \<le> k \<Longrightarrow> k < 16 \<Longrightarrow> unat (of_nat k - 8 :: u32) = k - 8"
  by (simp add: unat_sub32 unat_of_nat32)

lemma dev_irq [simp]:
  "dev (enable_irq n s) = dev s" "dev (disable_irq n s) = dev s" "dev (send_eoi n s) = dev s"
  by (simp_all add: enable_irq_def disable_irq_def send_eoi_def inb_def Let_def)

lemma enable_irq_masked:
  assumes "pic_device (dev s)" and "k < 16" and "n < 16"
  shows "irq_masked (enable_irq (of_nat k) s) n \<longleftrightarrow> irq_masked s n \<and> n \<noteq> k"
  using assms
  by (auto simp: irq_masked_def enable_irq_def inb_def Let_def pic_device_def of_nat_irq
      unat_irq_slave unat_of_nat32 bit_clear_byte)

lemma disable_irq_masked:
  assumes "pic_device (dev s)" and "k < 16" and "n < 16"
  shows "irq_masked (disable_irq (of_nat k) s) n \<longleftrightarrow> irq_masked s n \<or> n = k"
  using assms
  by (auto simp: irq_masked_def disable_irq_def inb_def Let_def pic_device_def of_nat_irq
      unat_irq_slave unat_of_nat32 bit_set_byte)

lemma send_eoi_masked [simp]: "irq_masked (send_eoi k s) n = irq_masked s n"
  by (simp add: irq_masked_def send_eoi_def)

lemma i8259_init_masked: "n < 16 \<Longrightarrow> irq_masked (i8259_init s) n \<longleftrightarrow> n \<noteq> 2"
proof -
  assume "n < 16"
  moreover have "\<forall>n \<in> set [0..<8]. bit (0xFB :: u8) n \<longleftrightarrow> n \<noteq> 2" by code_simp
  moreover have "\<forall>n \<in> set [0..<8]. bit (0xFF :: u8) n" by code_simp
  ultimately show ?thesis by (auto simp: irq_masked_def i8259_init_def)
qed

section \<open>The contract of an interrupt controller\<close>

text \<open>
  What a driver relies on when it guards a section of code by masking its own interrupt:
  only that interrupt's mask changes, and it is open again afterwards.
\<close>

locale irq_controller =
  fixes enable disable :: "nat \<Rightarrow> 's \<Rightarrow> 's"
    and masked :: "'s \<Rightarrow> nat \<Rightarrow> bool"
    and ready :: "'s \<Rightarrow> bool"
  assumes enable_masked: "ready s \<Longrightarrow> k < 16 \<Longrightarrow> n < 16 \<Longrightarrow> masked (enable k s) n \<longleftrightarrow> masked s n \<and> n \<noteq> k"
    and disable_masked: "ready s \<Longrightarrow> k < 16 \<Longrightarrow> n < 16 \<Longrightarrow> masked (disable k s) n \<longleftrightarrow> masked s n \<or> n = k"
    and ready_enable: "ready s \<Longrightarrow> ready (enable k s)"
    and ready_disable: "ready s \<Longrightarrow> ready (disable k s)"
begin

lemma guarded_section:
  assumes "ready s" and "k < 16" and "n < 16"
    and keeps: "\<And>s n. masked (f s) n = masked s n" "\<And>s. ready s \<Longrightarrow> ready (f s)"
  shows "masked (enable k (f (disable k s))) n \<longleftrightarrow> masked s n \<and> n \<noteq> k"
    and "masked (f (disable k s)) k"
  using assms by (auto simp: enable_masked disable_masked ready_disable)

lemma enable_disable_other:
  "ready s \<Longrightarrow> k < 16 \<Longrightarrow> n < 16 \<Longrightarrow> n \<noteq> k \<Longrightarrow>
   masked (enable k s) n = masked (disable k s) n"
  by (simp add: enable_masked disable_masked)

end

interpretation pic: irq_controller "\<lambda>k. enable_irq (of_nat k)" "\<lambda>k. disable_irq (of_nat k)"
    irq_masked "\<lambda>s. pic_device (dev s)"
  by unfold_locales (simp_all add: enable_irq_masked disable_irq_masked)

text \<open>A device that answers as the hypothesis asks, for the witnesses.\<close>

definition mask_readback :: "io_event list \<Rightarrow> u16 \<Rightarrow> u8" where
  "mask_readback es p = last_out p es"

lemma pic_device_mask_readback: "pic_device mask_readback"
  by (simp add: pic_device_def mask_readback_def)

section \<open>Properties\<close>

text \<open>
  Enable\_irq opens and disable\_irq closes the line they are given, for all sixteen lines
  of the two chips, and neither changes the mask of any other line, provided the mask
  registers read back what was written.
\<close>

theorem irq_mask_exact:
  assumes "pic_device (dev s)" and "k < 16" and "n < 16"
  shows "(irq_masked (enable_irq (of_nat k) s) n \<longleftrightarrow> irq_masked s n \<and> n \<noteq> k)
    \<and> (irq_masked (disable_irq (of_nat k) s) n \<longleftrightarrow> irq_masked s n \<or> n = k)"
  using assms by (simp add: pic.enable_masked pic.disable_masked)

theorem irq_mask_exact_witness:
  "irq_masked (enable_irq 9 \<lparr>iolog = [Out SLAVE_DATA 0xFF], dev = mask_readback, iflag = False,
       master_mask = 0, slave_mask = 0\<rparr>) 10
   \<and> \<not> irq_masked (enable_irq 9 \<lparr>iolog = [Out SLAVE_DATA 0xFF], dev = mask_readback, iflag = False,
       master_mask = 0, slave_mask = 0\<rparr>) 9"
proof -
  define s :: pic_state where
    "s = \<lparr>iolog = [Out SLAVE_DATA 0xFF], dev = mask_readback, iflag = False, master_mask = 0, slave_mask = 0\<rparr>"
  have d: "pic_device (dev s)" by (simp add: s_def pic_device_mask_readback)
  have "bit (0xFF :: u8) 2" by code_simp
  then have "irq_masked s 10" by (simp add: s_def irq_masked_def)
  with irq_mask_exact [OF d, of 9 10] irq_mask_exact [OF d, of 9 9] show ?thesis
    by (simp add: s_def)
qed

text \<open>
  After i8259\_init every line is masked except line 2, to which the second chip is
  wired, and the chips have been sent the initialisation words in the order they require:
  the four control words of each chip after its first one.
\<close>

theorem i8259_init_masks:
  "(\<forall>n < 16. irq_masked (i8259_init s) n \<longleftrightarrow> n \<noteq> 2)
   \<and> (\<exists>new. iolog (i8259_init s) = new @ iolog s
        \<and> [e \<leftarrow> rev new. \<exists>b. e = Out MASTER_8259_PORT b \<or> e = Out MASTER_DATA b] =
            [Out 0x20 0x11, Out 0x21 0x20, Out 0x21 0x04, Out 0x21 0x01, Out 0x21 0xFB]
        \<and> [e \<leftarrow> rev new. \<exists>b. e = Out SLAVE_8259_PORT b \<or> e = Out SLAVE_DATA b] =
            [Out 0xA0 0x11, Out 0xA1 0x28, Out 0xA1 0x02, Out 0xA1 0x01, Out 0xA1 0xFF])"
proof -
  have "iolog (i8259_init s) =
      [Out 0xA1 0xFF, Out 0x21 0xFB, Out 0xA1 0x01, Out 0x21 0x01, Out 0xA1 0x02, Out 0x21 0x04,
       Out 0xA1 0x28, Out 0x21 0x20, Out 0xA0 0x11, Out 0x20 0x11] @ iolog s"
    by (simp add: i8259_init_def pic_ports)
  then show ?thesis
    by (intro conjI exI) (auto simp: i8259_init_masked pic_ports)
qed

theorem i8259_init_masks_witness:
  "irq_masked (i8259_init \<lparr>iolog = [], dev = mask_readback, iflag = False, master_mask = 0, slave_mask = 0\<rparr>) 1"
  using i8259_init_masks [of "\<lparr>iolog = [], dev = mask_readback, iflag = False, master_mask = 0, slave_mask = 0\<rparr>"]
  by simp

end
