(* ===== verification/Kud_Ops.thy ===== *)
theory Kud_Ops
  imports Kud_Ports
begin

text \<open>
  The driver tables of \<^verbatim>\<open>student-distrib/filesystem.h\<close>: \<^verbatim>\<open>file_op_ptr_t\<close>, four
  function pointers, and the five tables the kernel keeps. A function pointer is the name
  of the function it points to, or null. The initialisers \<^verbatim>\<open>fs_init\<close>,
  \<^verbatim>\<open>rtc_init\<close> and \<^verbatim>\<open>terminal_init\<close> fill the tables.
\<close>

datatype driver_fn =
    Fn_null
  | Fn_open_file | Fn_close_file | Fn_read_file | Fn_write_file
  | Fn_rtc_open | Fn_rtc_close | Fn_rtc_read | Fn_rtc_write
  | Fn_terminal_open | Fn_terminal_close | Fn_terminal_read | Fn_terminal_write

record file_op_ptr =
  openptr :: driver_fn
  closeptr :: driver_fn
  readptr :: driver_fn
  writeptr :: driver_fn

definition null_ops :: file_op_ptr where
  "null_ops = \<lparr>openptr = Fn_null, closeptr = Fn_null, readptr = Fn_null, writeptr = Fn_null\<rparr>"

record ops_state = pic_state +
  file_ops :: file_op_ptr
  rtc_ops :: file_op_ptr
  terminal_ops :: file_op_ptr
  stdin_ops :: file_op_ptr
  stdout_ops :: file_op_ptr

text \<open>A \<^verbatim>\<open>file_op_ptr_t*\<close>: null, or the address of one of the tables.\<close>

datatype ops_ref = Ops_null | Ops_file | Ops_rtc | Ops_terminal | Ops_stdin | Ops_stdout

fun ops_of :: "'a ops_state_scheme \<Rightarrow> ops_ref \<Rightarrow> file_op_ptr option" where
  "ops_of s Ops_null = None"
| "ops_of s Ops_file = Some (file_ops s)"
| "ops_of s Ops_rtc = Some (rtc_ops s)"
| "ops_of s Ops_terminal = Some (terminal_ops s)"
| "ops_of s Ops_stdin = Some (stdin_ops s)"
| "ops_of s Ops_stdout = Some (stdout_ops s)"

text \<open>The tables as the three initialisers leave them.\<close>

definition ops_ready :: "'a ops_state_scheme \<Rightarrow> bool" where
  "ops_ready s \<longleftrightarrow>
     file_ops s = \<lparr>openptr = Fn_open_file, closeptr = Fn_close_file,
                   readptr = Fn_read_file, writeptr = Fn_write_file\<rparr>
   \<and> rtc_ops s = \<lparr>openptr = Fn_rtc_open, closeptr = Fn_rtc_close,
                  readptr = Fn_rtc_read, writeptr = Fn_rtc_write\<rparr>
   \<and> stdin_ops s = \<lparr>openptr = Fn_terminal_open, closeptr = Fn_terminal_close,
                    readptr = Fn_terminal_read, writeptr = Fn_null\<rparr>
   \<and> stdout_ops s = \<lparr>openptr = Fn_terminal_open, closeptr = Fn_terminal_close,
                     readptr = Fn_null, writeptr = Fn_terminal_write\<rparr>"

end
