(* ===== verification/Kud_Rtc.thy ===== *)
theory Kud_Rtc
  imports Kud_Ops
begin

unbundle bit_operations_syntax

text \<open>
  The real-time clock driver \<^verbatim>\<open>student-distrib/rtc.c\<close>. The first part translates the
  functions; \<open>rtc_read\<close> busy-waits for the interrupt handler, so it takes the number of
  RTC interrupts that arrive while it waits and is \<open>None\<close> while it still spins. The second
  part splits \<open>rtc_read\<close> into the atomic accesses to the two volatile flags and lets the
  handler run between any two of them: a step relation over which the synchronisation
  is proved, including the window in which a tick is carried over into the next read.
\<close>

record rtc_state = ops_state +
  rtc_sync_flag :: int
  rtc_read_flag :: int

definition RTC_ADDRESS :: u16 where "RTC_ADDRESS = 0x70"
definition RTC_DATA :: u16 where "RTC_DATA = 0x71"

definition rtc_init :: "'a rtc_state_scheme \<Rightarrow> 'a rtc_state_scheme" where
  "rtc_init s =
     (let s = s\<lparr>rtc_sync_flag := 0, rtc_read_flag := 0\<rparr>;
          s = outb 0x8B RTC_ADDRESS s;
          (v, s) = inb RTC_DATA s; saveB = ucast v :: u8;
          s = outb 0x8B RTC_ADDRESS s;
          s = outb (ucast saveB OR 0x40) RTC_DATA s
      in s\<lparr>rtc_ops := \<lparr>openptr = Fn_rtc_open, closeptr = Fn_rtc_close,
                       readptr = Fn_rtc_read, writeptr = Fn_rtc_write\<rparr>\<rparr>)"

definition rtc_handler :: "'a rtc_state_scheme \<Rightarrow> 'a rtc_state_scheme" where
  "rtc_handler s =
     (let s = send_eoi 8 s;
          s = (if rtc_read_flag s \<noteq> 0 then s\<lparr>rtc_sync_flag := 1\<rparr> else s);
          s = outb 0x0C RTC_ADDRESS s;
          (v, s) = inb RTC_DATA s
      in s)"

definition rtc_open :: "u32 \<Rightarrow> 'a rtc_state_scheme \<Rightarrow> u32 \<times> 'a rtc_state_scheme" where
  "rtc_open filename s =
     (let s = outb 0x0A RTC_ADDRESS s;
          (v, s) = inb RTC_DATA s; saveA = ucast v :: u8;
          s = outb 0x0A RTC_ADDRESS s;
          s = outb (ucast saveA OR 0x0F) RTC_DATA s
      in (0, s))"

definition rtc_close :: "u32 \<Rightarrow> 'a rtc_state_scheme \<Rightarrow> u32 \<times> 'a rtc_state_scheme" where
  "rtc_close fd s = (0, s)"

fun rtc_wait :: "nat \<Rightarrow> 'a rtc_state_scheme \<Rightarrow> 'a rtc_state_scheme option" where
  "rtc_wait 0 s = (if rtc_sync_flag s \<noteq> 0 then Some s else None)"
| "rtc_wait (Suc ticks) s =
     (if rtc_sync_flag s \<noteq> 0 then Some s else rtc_wait ticks (rtc_handler s))"

definition rtc_read :: "nat \<Rightarrow> u32 \<Rightarrow> u32 \<Rightarrow> int \<Rightarrow> 'a rtc_state_scheme \<Rightarrow> (u32 \<times> 'a rtc_state_scheme) option" where
  "rtc_read ticks fd buf nbytes s =
     (case rtc_wait ticks (s\<lparr>rtc_read_flag := 1\<rparr>) of
        None \<Rightarrow> None
      | Some s \<Rightarrow> Some (0, s\<lparr>rtc_sync_flag := 0, rtc_read_flag := 0\<rparr>))"

definition rtc_rate :: "u32 \<Rightarrow> u8" where
  "rtc_rate new_freq =
     (if new_freq \<le> 1024 \<and> new_freq > 512 then 0x06
      else if new_freq \<le> 512 \<and> new_freq > 256 then 0x07
      else if new_freq \<le> 256 \<and> new_freq > 128 then 0x08
      else if new_freq \<le> 128 \<and> new_freq > 64 then 0x09
      else if new_freq \<le> 64 \<and> new_freq > 32 then 0x0A
      else if new_freq \<le> 32 \<and> new_freq > 16 then 0x0B
      else if new_freq \<le> 16 \<and> new_freq > 8 then 0x0C
      else if new_freq \<le> 8 \<and> new_freq > 4 then 0x0D
      else if new_freq \<le> 4 \<and> new_freq > 2 then 0x0E
      else 0x0F)"

definition rtc_set_rate :: "u8 \<Rightarrow> 'a rtc_state_scheme \<Rightarrow> 'a rtc_state_scheme" where
  "rtc_set_rate rtc_freq s =
     (let s = outb 0x8A RTC_ADDRESS s;
          (v, s) = inb RTC_DATA s; saveA = ucast v :: u8;
          s = outb 0x8A RTC_ADDRESS s
      in outb (ucast ((saveA AND 0xF0) OR rtc_freq)) RTC_DATA s)"

definition rtc_write :: "mem \<Rightarrow> u32 \<Rightarrow> u32 \<Rightarrow> int \<Rightarrow> 'a rtc_state_scheme \<Rightarrow> u32 \<times> 'a rtc_state_scheme" where
  "rtc_write m fd buf nbytes s =
     (let new_freq = load32 m buf in
      if new_freq > 1024 then (minus_one, s)
      else let rtc_freq = rtc_rate new_freq;
               s = disable_irq 8 s;
               s = rtc_set_rate rtc_freq s;
               s = enable_irq 8 s
           in (0, s))"

section \<open>Programming the rate\<close>

text \<open>The frequency the clock runs at for a rate code, by the chip's documentation.\<close>

definition rtc_hz :: "u8 \<Rightarrow> nat" where
  "rtc_hz r = 32768 div 2 ^ (unat r - 1)"

lemma rtc_rate_hz:
  assumes "f \<le> 1024"
  shows "unat f \<le> rtc_hz (rtc_rate f)" and "rtc_hz (rtc_rate f) = 2 \<or> rtc_hz (rtc_rate f) < 2 * unat f"
    and "2 \<le> rtc_hz (rtc_rate f)" "rtc_hz (rtc_rate f) \<le> 1024"
  using assms by (auto simp: rtc_rate_def rtc_hz_def word_le_nat_alt word_less_nat_alt)

text \<open>
  The clock's registers are reached through an index port and a data port. \<open>rtc_reg\<close>
  is the value last written to register \<open>r\<close>; bit 7 of the index only masks the NMI.
  \<open>rtc_device\<close> is the hypothesis that a read of the data port returns the selected
  register.
\<close>

fun rtc_reg :: "u8 \<Rightarrow> io_event list \<Rightarrow> u8" where
  "rtc_reg r [] = 0"
| "rtc_reg r (Out p b # es) =
     (if p = 0x71 \<and> last_out 0x70 es AND 0x7F = r then b else rtc_reg r es)"
| "rtc_reg r (In p b # es) = rtc_reg r es"

definition rtc_device :: "(io_event list \<Rightarrow> u16 \<Rightarrow> u8) \<Rightarrow> bool" where
  "rtc_device d \<longleftrightarrow> (\<forall>es. d es 0x71 = rtc_reg (last_out 0x70 es AND 0x7F) es)"

lemma rtc_set_rate_masked: "irq_masked (rtc_set_rate r s) n = irq_masked s n"
  by (simp add: rtc_set_rate_def irq_masked_def inb_def Let_def RTC_ADDRESS_def RTC_DATA_def pic_ports)

lemma rtc_set_rate_dev [simp]: "dev (rtc_set_rate r s) = dev s"
  by (simp add: rtc_set_rate_def inb_def Let_def)

lemma rtc_reg_irq [simp]:
  "rtc_reg r (iolog (enable_irq n s)) = rtc_reg r (iolog s)"
  "rtc_reg r (iolog (disable_irq n s)) = rtc_reg r (iolog s)"
  by (simp_all add: enable_irq_def disable_irq_def inb_def Let_def pic_ports)

lemma rtc_set_rate_reg:
  assumes "rtc_device (dev s)" and "r AND 0xF0 = 0"
  shows "rtc_reg 0x0A (iolog (rtc_set_rate r s)) = (rtc_reg 0x0A (iolog s) AND 0xF0) OR r"
proof -
  have "(ucast (ucast b :: u32) :: u8) = b" for b :: u8
    by (rule bit_word_eqI) (simp add: bit_ucast_iff)
  with assms show ?thesis
    by (simp add: rtc_set_rate_def inb_def Let_def RTC_ADDRESS_def RTC_DATA_def rtc_device_def)
qed

lemma rtc_rate_low: "rtc_rate f AND 0xF0 = 0"
  by (simp add: rtc_rate_def)

section \<open>Waiting for a tick\<close>

lemma rtc_handler_flags:
  "rtc_read_flag (rtc_handler s) = rtc_read_flag s"
  "rtc_sync_flag (rtc_handler s) = (if rtc_read_flag s \<noteq> 0 then 1 else rtc_sync_flag s)"
  by (simp_all add: rtc_handler_def send_eoi_def inb_def outb_def Let_def)

lemma rtc_wait_Suc_returns:
  "rtc_read_flag s \<noteq> 0 \<Longrightarrow> \<exists>t. rtc_wait (Suc n) s = Some t"
  by (cases n) (simp_all add: rtc_handler_flags)

datatype rtc_pc = R_idle | R_wait | R_clear | R_reset

text \<open>
  \<open>ticks\<close> counts the interrupts since the current read announced itself and
  \<open>carried\<close> says whether the sync flag was already set then: both are observers that
  no step reads.
\<close>

record rtc_conf =
  pc :: rtc_pc
  rs :: rtc_state
  ticks :: nat
  carried :: bool

inductive rtc_step :: "rtc_conf \<Rightarrow> rtc_conf \<Rightarrow> bool" where
  announce: "pc c = R_idle \<Longrightarrow>
     rtc_step c (c\<lparr>pc := R_wait, rs := (rs c)\<lparr>rtc_read_flag := 1\<rparr>,
                   ticks := 0, carried := (rtc_sync_flag (rs c) \<noteq> 0)\<rparr>)"
| spin: "pc c = R_wait \<Longrightarrow> rtc_sync_flag (rs c) = 0 \<Longrightarrow> rtc_step c c"
| leave: "pc c = R_wait \<Longrightarrow> rtc_sync_flag (rs c) \<noteq> 0 \<Longrightarrow> rtc_step c (c\<lparr>pc := R_clear\<rparr>)"
| clear_sync: "pc c = R_clear \<Longrightarrow>
     rtc_step c (c\<lparr>pc := R_reset, rs := (rs c)\<lparr>rtc_sync_flag := 0\<rparr>\<rparr>)"
| clear_read: "pc c = R_reset \<Longrightarrow>
     rtc_step c (c\<lparr>pc := R_idle, rs := (rs c)\<lparr>rtc_read_flag := 0\<rparr>\<rparr>)"
| tick: "rtc_step c (c\<lparr>rs := rtc_handler (rs c), ticks := Suc (ticks c)\<rparr>)"

inductive_cases rtc_stepE: "rtc_step c c'"

definition rtc_start :: "rtc_conf \<Rightarrow> bool" where
  "rtc_start c \<longleftrightarrow> pc c = R_idle \<and> rtc_sync_flag (rs c) = 0 \<and> rtc_read_flag (rs c) = 0"

definition rtc_inv :: "rtc_conf \<Rightarrow> bool" where
  "rtc_inv c \<longleftrightarrow>
     (rtc_read_flag (rs c) = 0 \<longleftrightarrow> pc c = R_idle)
   \<and> (pc c = R_wait \<longrightarrow> (rtc_sync_flag (rs c) \<noteq> 0 \<longleftrightarrow> 0 < ticks c \<or> carried c))
   \<and> (pc c = R_clear \<or> pc c = R_reset \<longrightarrow> 0 < ticks c \<or> carried c)"

interpretation rtc: invariant_system rtc_start rtc_step rtc_inv
proof unfold_locales
  show "rtc_inv c" if "rtc_start c" for c
    using that by (simp add: rtc_start_def rtc_inv_def)
  show "rtc_inv d" if "rtc_step c d" "rtc_inv c" for c d
    using that by (elim rtc_stepE) (auto simp: rtc_inv_def rtc_handler_flags)
qed

text \<open>The same system when no tick falls between the two resets at the end of a read.\<close>

definition rtc_quiet_step :: "rtc_conf \<Rightarrow> rtc_conf \<Rightarrow> bool" where
  "rtc_quiet_step c d \<longleftrightarrow> rtc_step c d \<and> (pc c = R_reset \<longrightarrow> ticks d = ticks c)"

definition rtc_quiet_inv :: "rtc_conf \<Rightarrow> bool" where
  "rtc_quiet_inv c \<longleftrightarrow> rtc_inv c \<and> \<not> (pc c \<noteq> R_idle \<and> carried c)
     \<and> (pc c = R_idle \<or> pc c = R_reset \<longrightarrow> rtc_sync_flag (rs c) = 0)"

interpretation rtcq: invariant_system rtc_start rtc_quiet_step rtc_quiet_inv
proof unfold_locales
  show "rtc_quiet_inv c" if "rtc_start c" for c
    using that rtc.start_inv [of c] by (simp add: rtc_start_def rtc_quiet_inv_def)
  show "rtc_quiet_inv d" if "rtc_quiet_step c d" "rtc_quiet_inv c" for c d
  proof -
    from that have inv: "rtc_inv d" and st: "rtc_step c d"
      by (auto simp: rtc_quiet_step_def rtc_quiet_inv_def intro: rtc.step_inv)
    from st show ?thesis
      using inv that
      by (elim rtc_stepE) (auto simp: rtc_quiet_step_def rtc_quiet_inv_def rtc_inv_def rtc_handler_flags)
  qed
qed

section \<open>Properties\<close>

text \<open>The chip and the interrupt controller answering reads as the hypotheses ask.\<close>

definition rtc_readback :: "io_event list \<Rightarrow> u16 \<Rightarrow> u8" where
  "rtc_readback es p = (if p = 0x71 then rtc_reg (last_out 0x70 es AND 0x7F) es else last_out p es)"

definition rtc_state0 :: rtc_state where
  "rtc_state0 = \<lparr>iolog = [], dev = rtc_readback, iflag = False, master_mask = 0, slave_mask = 0,
     file_ops = null_ops, rtc_ops = null_ops, terminal_ops = null_ops, stdin_ops = null_ops,
     stdout_ops = null_ops, rtc_sync_flag = 0, rtc_read_flag = 0\<rparr>"

lemma rtc_readback_devices: "pic_device rtc_readback" "rtc_device rtc_readback"
  by (simp_all add: pic_device_def rtc_device_def rtc_readback_def pic_ports)



text \<open>
  A read of the clock returns 0 as soon as one interrupt arrives while it waits, with
  both flags cleared and, if it started with the sync flag clear, never without an interrupt.
\<close>

theorem rtc_read_waits:
  "(\<exists>s'. rtc_read (Suc n) fd buf nbytes s = Some (0, s') \<and> rtc_sync_flag s' = 0 \<and> rtc_read_flag s' = 0)
   \<and> (rtc_read 0 fd buf nbytes s = None \<longleftrightarrow> rtc_sync_flag s = 0)"
proof -
  obtain t where "rtc_wait (Suc n) (s\<lparr>rtc_read_flag := 1\<rparr>) = Some t"
    using rtc_wait_Suc_returns [of "s\<lparr>rtc_read_flag := 1\<rparr>" n] by auto
  then show ?thesis by (simp add: rtc_read_def)
qed

text \<open>
  C32: no wake-up is lost, whatever the interleaving of the reader and the interrupt handler:
  in every reachable state a waiting reader sees the sync flag set exactly if an interrupt has
  come since it announced itself or the flag was already set then; and while no tick falls
  between the two resets at the end of a read, every read that leaves its loop has waited for
  an interrupt of its own.
\<close>

theorem rtc_no_lost_wakeup:
  assumes "rtc_start c0"
  shows "(rtc_step\<^sup>*\<^sup>* c0 c \<longrightarrow> pc c = R_wait \<longrightarrow>
       (rtc_sync_flag (rs c) \<noteq> 0 \<longleftrightarrow> 0 < ticks c \<or> carried c))
    \<and> (rtc_quiet_step\<^sup>*\<^sup>* c0 c \<longrightarrow> pc c = R_clear \<or> pc c = R_reset \<longrightarrow> 0 < ticks c)"
  using rtc.reachable_inv [OF assms, of c] rtcq.reachable_inv [OF assms, of c]
  by (auto simp: rtc_inv_def rtc_quiet_inv_def)

theorem rtc_no_lost_wakeup_witness:
  "rtc_sync_flag (rtc_handler (rtc_state0\<lparr>rtc_read_flag := 1\<rparr>)) \<noteq> 0"
proof -
  define c0 where "c0 = \<lparr>pc = R_idle, rs = rtc_state0, ticks = 0, carried = False\<rparr>"
  have "rtc_start c0" by (simp add: c0_def rtc_start_def rtc_state0_def)
  note P = rtc_no_lost_wakeup [OF this]
  let ?c1 = "c0\<lparr>pc := R_wait, rs := (rs c0)\<lparr>rtc_read_flag := 1\<rparr>, ticks := 0,
      carried := (rtc_sync_flag (rs c0) \<noteq> 0)\<rparr>"
  let ?c2 = "?c1\<lparr>rs := rtc_handler (rs ?c1), ticks := Suc (ticks ?c1)\<rparr>"
  have "rtc_step c0 ?c1" by (rule rtc_step.announce) (simp add: c0_def)
  moreover have "rtc_step ?c1 ?c2" by (rule rtc_step.tick)
  ultimately have "rtc_step\<^sup>*\<^sup>* c0 ?c2" by (meson rtranclp.intros)
  with P [of ?c2] show ?thesis by (simp add: c0_def)
qed

text \<open>
  The window is real: a tick between the reset of the sync flag and the reset of the read
  flag makes the next read return without any interrupt of its own.
\<close>

theorem rtc_read_carry_reachable:
  "\<exists>c0 c. rtc_start c0 \<and> rtc_step\<^sup>*\<^sup>* c0 c \<and> pc c = R_clear \<and> ticks c = 0"
proof -
  define c0 where "c0 = \<lparr>pc = R_idle, rs = rtc_state0, ticks = 0, carried = False\<rparr>"
  let ?c1 = "c0\<lparr>pc := R_wait, rs := (rs c0)\<lparr>rtc_read_flag := 1\<rparr>, ticks := 0,
      carried := (rtc_sync_flag (rs c0) \<noteq> 0)\<rparr>"
  let ?c2 = "?c1\<lparr>rs := rtc_handler (rs ?c1), ticks := Suc (ticks ?c1)\<rparr>"
  let ?c3 = "?c2\<lparr>pc := R_clear\<rparr>"
  let ?c4 = "?c3\<lparr>pc := R_reset, rs := (rs ?c3)\<lparr>rtc_sync_flag := 0\<rparr>\<rparr>"
  let ?c5 = "?c4\<lparr>rs := rtc_handler (rs ?c4), ticks := Suc (ticks ?c4)\<rparr>"
  let ?c6 = "?c5\<lparr>pc := R_idle, rs := (rs ?c5)\<lparr>rtc_read_flag := 0\<rparr>\<rparr>"
  let ?c7 = "?c6\<lparr>pc := R_wait, rs := (rs ?c6)\<lparr>rtc_read_flag := 1\<rparr>, ticks := 0,
      carried := (rtc_sync_flag (rs ?c6) \<noteq> 0)\<rparr>"
  let ?c8 = "?c7\<lparr>pc := R_clear\<rparr>"
  have "rtc_start c0" by (simp add: c0_def rtc_start_def rtc_state0_def)
  moreover have "pc ?c8 = R_clear" "ticks ?c8 = 0" by simp_all
  moreover have steps: "rtc_step c0 ?c1" "rtc_step ?c1 ?c2" "rtc_step ?c2 ?c3" "rtc_step ?c3 ?c4"
      "rtc_step ?c4 ?c5" "rtc_step ?c5 ?c6" "rtc_step ?c6 ?c7" "rtc_step ?c7 ?c8"
    by (rule rtc_step.announce rtc_step.tick rtc_step.leave rtc_step.clear_sync rtc_step.clear_read;
        simp add: c0_def rtc_handler_flags)+
  have "rtc_step\<^sup>*\<^sup>* c0 ?c8"
    by (rule steps [THEN converse_rtranclp_into_rtranclp [where r = rtc_step]] rtranclp.rtrancl_refl)+
  ultimately show ?thesis by blast
qed

end
