(* ===== verification/Kud_Terminal.thy ===== *)
theory Kud_Terminal
  imports Kud_Mem Kud_Rtc
begin

unbundle bit_operations_syntax

text \<open>
  The terminal driver \<^verbatim>\<open>student-distrib/terminal.c\<close> (all of it but
  \<^verbatim>\<open>switch_terminal\<close>, which starts processes) and \<^verbatim>\<open>keyboard_init\<close>. Video memory is
  part of the byte memory \<open>mem\<close>; a screen cell is the 16-bit value the driver writes. The
  arrays indexed by the terminal number are lists of three elements. \<^verbatim>\<open>int\<close> cursors are
  integers: the invariant below bounds them by the screen size, so no operation on them
  can overflow; \<^verbatim>\<open>buffer_len\<close> changes only by guarded steps between 0 and 128.
\<close>

section \<open>State\<close>

record terminal_t =
  top_process_id :: u32
  num_process :: u32

record term_state = rtc_state +
  mem :: mem
  terminal_ptr :: u32
  terminal_buffer :: "u8 list list"
  buffer_len :: "nat list"
  csr_x :: "int list"
  csr_y :: "int list"
  line_y :: "int list"
  line_beginning :: "int list"
  curr_terminal :: nat
  attrib :: u32
  terminal_info :: "terminal_t list"
  terminal_memory :: "u32 list"
  enter_flag :: int
  ctrl_flag :: int
  cap_flag :: int
  alt_flag :: int

definition HEIGHT :: nat where "HEIGHT = 25"
definition WIDTH :: nat where "WIDTH = 80"
definition VIDEO_MEM :: u32 where "VIDEO_MEM = 0xB8000"
definition BUFF_LEN :: nat where "BUFF_LEN = 128"
definition MAX_TERMINALS :: nat where "MAX_TERMINALS = 3"
definition TERMINAL_MEM_1 :: u32 where "TERMINAL_MEM_1 = 0x1000"
definition TERMINAL_MEM_2 :: u32 where "TERMINAL_MEM_2 = 0x2000"
definition TERMINAL_MEM_3 :: u32 where "TERMINAL_MEM_3 = 0x3000"

lemmas term_consts = HEIGHT_def WIDTH_def VIDEO_MEM_def BUFF_LEN_def MAX_TERMINALS_def
  TERMINAL_MEM_1_def TERMINAL_MEM_2_def TERMINAL_MEM_3_def

text \<open>The entries of the current terminal.\<close>

abbreviation cx :: "'a term_state_scheme \<Rightarrow> int" where
  "cx s \<equiv> csr_x s ! curr_terminal s"

abbreviation cy :: "'a term_state_scheme \<Rightarrow> int" where
  "cy s \<equiv> csr_y s ! curr_terminal s"

abbreviation set_cx :: "int \<Rightarrow> 'a term_state_scheme \<Rightarrow> 'a term_state_scheme" where
  "set_cx v s \<equiv> s\<lparr>csr_x := (csr_x s)[curr_terminal s := v]\<rparr>"

abbreviation set_cy :: "int \<Rightarrow> 'a term_state_scheme \<Rightarrow> 'a term_state_scheme" where
  "set_cy v s \<equiv> s\<lparr>csr_y := (csr_y s)[curr_terminal s := v]\<rparr>"

abbreviation set_ly :: "int \<Rightarrow> 'a term_state_scheme \<Rightarrow> 'a term_state_scheme" where
  "set_ly v s \<equiv> s\<lparr>line_y := (line_y s)[curr_terminal s := v]\<rparr>"

abbreviation set_lb :: "int \<Rightarrow> 'a term_state_scheme \<Rightarrow> 'a term_state_scheme" where
  "set_lb v s \<equiv> s\<lparr>line_beginning := (line_beginning s)[curr_terminal s := v]\<rparr>"

abbreviation blen :: "'a term_state_scheme \<Rightarrow> nat" where
  "blen s \<equiv> buffer_len s ! curr_terminal s"

abbreviation tbuf :: "'a term_state_scheme \<Rightarrow> u8 list" where
  "tbuf s \<equiv> terminal_buffer s ! curr_terminal s"

section \<open>The operations\<close>

definition move_csr :: "'a term_state_scheme \<Rightarrow> 'a term_state_scheme" where
  "move_csr s =
     (let cursor_location = of_int (cy s * int WIDTH + cx s) :: u32;
          s = outb 14 0x3D4 s;
          s = outb (drop_bit 8 cursor_location) 0x3D5 s;
          s = outb 15 0x3D4 s
      in outb cursor_location 0x3D5 s)"

text \<open>The text the screen is cleared with.\<close>

definition blank :: "'a term_state_scheme \<Rightarrow> u32" where
  "blank s = 0x20 OR push_bit 8 (attrib s)"

definition scroll_cell :: "u32 \<Rightarrow> nat \<Rightarrow> nat \<Rightarrow> mem \<Rightarrow> mem" where
  "scroll_cell tp i j m =
     store16 m (tp + 2 * of_nat (i * WIDTH + j)) (load16 m (tp + 2 * of_nat ((i + 1) * WIDTH + j)))"

definition scroll_rows :: "u32 \<Rightarrow> mem \<Rightarrow> mem" where
  "scroll_rows tp m = fold (\<lambda>i. fold (scroll_cell tp i) [0..<WIDTH]) [0..<HEIGHT - 1] m"

definition scroll_last :: "u32 \<Rightarrow> u16 \<Rightarrow> mem \<Rightarrow> mem" where
  "scroll_last tp b m =
     fold (\<lambda>j m. store16 m (tp + 2 * of_nat ((HEIGHT - 1) * WIDTH + j)) b) [0..<WIDTH] m"

definition scroll :: "'a term_state_scheme \<Rightarrow> 'a term_state_scheme" where
  "scroll s =
     (let b = blank s;
          s = cli s;
          s = (if cy s \<ge> int HEIGHT
               then let s = s\<lparr>mem := scroll_rows (terminal_ptr s) (mem s)\<rparr>;
                        s = s\<lparr>mem := scroll_last (terminal_ptr s) (ucast b) (mem s)\<rparr>;
                        s = set_cy (int HEIGHT - 1) s;
                        s = set_ly (cy s - 1) s
                    in set_cx 0 s
               else s)
      in sti s)"

definition clear_buffer :: "'a term_state_scheme \<Rightarrow> 'a term_state_scheme" where
  "clear_buffer s =
     (let s = s\<lparr>terminal_buffer := (terminal_buffer s)
                  [curr_terminal s := fold (\<lambda>i b. b[i := 0]) [0..<BUFF_LEN] (tbuf s)]\<rparr>
      in s\<lparr>buffer_len := (buffer_len s)[curr_terminal s := 0]\<rparr>)"

definition new_line :: "bool \<Rightarrow> 'a term_state_scheme \<Rightarrow> 'a term_state_scheme" where
  "new_line reset_buffer s =
     (let s = set_cy (cy s + 1) s;
          s = set_cx 0 s;
          s = scroll s;
          s = move_csr s;
          s = set_ly (cy s) s
      in if reset_buffer then clear_buffer s else s)"

definition add_to_buffer :: "u8 \<Rightarrow> 'a term_state_scheme \<Rightarrow> 'a term_state_scheme" where
  "add_to_buffer c s =
     (if blen s < BUFF_LEN
      then let s = s\<lparr>terminal_buffer := (terminal_buffer s)[curr_terminal s := (tbuf s)[blen s := c]]\<rparr>
           in s\<lparr>buffer_len := (buffer_len s)[curr_terminal s := blen s + 1]\<rparr>
      else s)"

definition clear_screen :: "'a term_state_scheme \<Rightarrow> 'a term_state_scheme" where
  "clear_screen s =
     (let b = blank s;
          s = s\<lparr>mem := fold (\<lambda>i m. memset_word m (terminal_ptr s + 2 * of_nat (i * WIDTH)) b (of_nat WIDTH))
                          [0..<HEIGHT] (mem s)\<rparr>;
          s = clear_buffer s;
          s = set_cx 0 s;
          s = set_cy 0 s;
          s = set_ly 0 s
      in move_csr s)"

text \<open>What putch does after the character is handled: wrap at the edge, scroll, move the cursor.\<close>

definition putch_end :: "'a term_state_scheme \<Rightarrow> 'a term_state_scheme" where
  "putch_end s =
     (let s = (if cx s \<ge> int WIDTH then let s = set_cx 0 s in set_cy (cy s + 1) s else s);
          s = scroll s
      in move_csr s)"

definition putch :: "u8 \<Rightarrow> 'a term_state_scheme \<Rightarrow> 'a term_state_scheme" where
  "putch c s =
     (let att = push_bit 8 (attrib s) in
      if c = 10 then putch_end (new_line True s)
      else if c = 8 then putch_end (if cx s \<noteq> 0 then set_cx (cx s - 1) s else s)
      else if c \<ge> 32 then
        if cy s * int WIDTH + cx s \<ge> 0x1000 then s
        else let wher = terminal_ptr s + 2 * of_int (cy s * int WIDTH + cx s) in
             if wher \<ge> VIDEO_MEM + 0x1000 \<or> wher < VIDEO_MEM then s
             else let s = s\<lparr>mem := store16 (mem s) wher (ucast (ucast c OR att))\<rparr>
                  in putch_end (set_cx (cx s + 1) s)
      else if c = 0 then s
      else putch_end s)"

section \<open>putch and the input buffer\<close>

text \<open>Every operation reads and writes the entries of the current terminal only.\<close>

lemma move_csr_simps [simp, frame_simps]:
  "mem (move_csr s) = mem s" "terminal_ptr (move_csr s) = terminal_ptr s"
  "terminal_buffer (move_csr s) = terminal_buffer s" "buffer_len (move_csr s) = buffer_len s"
  "csr_x (move_csr s) = csr_x s" "csr_y (move_csr s) = csr_y s" "line_y (move_csr s) = line_y s"
  "line_beginning (move_csr s) = line_beginning s" "curr_terminal (move_csr s) = curr_terminal s"
  "attrib (move_csr s) = attrib s" "terminal_info (move_csr s) = terminal_info s"
  "terminal_memory (move_csr s) = terminal_memory s" "enter_flag (move_csr s) = enter_flag s"
  by (simp_all add: move_csr_def outb_def Let_def)

lemma cli_sti_simps [simp, frame_simps]:
  "mem (cli s) = mem s" "terminal_ptr (cli s) = terminal_ptr s"
  "terminal_buffer (cli s) = terminal_buffer s" "buffer_len (cli s) = buffer_len s"
  "csr_x (cli s) = csr_x s" "csr_y (cli s) = csr_y s" "line_y (cli s) = line_y s"
  "line_beginning (cli s) = line_beginning s" "curr_terminal (cli s) = curr_terminal s"
  "attrib (cli s) = attrib s" "terminal_info (cli s) = terminal_info s"
  "terminal_memory (cli s) = terminal_memory s" "enter_flag (cli s) = enter_flag s"
  "mem (sti s) = mem s" "terminal_ptr (sti s) = terminal_ptr s"
  "terminal_buffer (sti s) = terminal_buffer s" "buffer_len (sti s) = buffer_len s"
  "csr_x (sti s) = csr_x s" "csr_y (sti s) = csr_y s" "line_y (sti s) = line_y s"
  "line_beginning (sti s) = line_beginning s" "curr_terminal (sti s) = curr_terminal s"
  "attrib (sti s) = attrib s" "terminal_info (sti s) = terminal_info s"
  "terminal_memory (sti s) = terminal_memory s" "enter_flag (sti s) = enter_flag s"
  by (simp_all add: cli_def sti_def)

lemma scroll_simps [simp, frame_simps]:
  "terminal_ptr (scroll s) = terminal_ptr s"
  "terminal_buffer (scroll s) = terminal_buffer s" "buffer_len (scroll s) = buffer_len s"
  "line_beginning (scroll s) = line_beginning s" "curr_terminal (scroll s) = curr_terminal s"
  "attrib (scroll s) = attrib s" "terminal_info (scroll s) = terminal_info s"
  "terminal_memory (scroll s) = terminal_memory s" "enter_flag (scroll s) = enter_flag s"
  by (simp_all add: scroll_def Let_def)

lemma putch_end_simps [simp, frame_simps]:
  "terminal_ptr (putch_end s) = terminal_ptr s"
  "terminal_buffer (putch_end s) = terminal_buffer s" "buffer_len (putch_end s) = buffer_len s"
  "line_beginning (putch_end s) = line_beginning s" "curr_terminal (putch_end s) = curr_terminal s"
  "attrib (putch_end s) = attrib s" "terminal_info (putch_end s) = terminal_info s"
  "terminal_memory (putch_end s) = terminal_memory s" "enter_flag (putch_end s) = enter_flag s"
  by (simp_all add: putch_end_def Let_def)

lemma clear_buffer_simps [simp, frame_simps]:
  "mem (clear_buffer s) = mem s" "terminal_ptr (clear_buffer s) = terminal_ptr s"
  "csr_x (clear_buffer s) = csr_x s" "csr_y (clear_buffer s) = csr_y s"
  "line_y (clear_buffer s) = line_y s" "line_beginning (clear_buffer s) = line_beginning s"
  "curr_terminal (clear_buffer s) = curr_terminal s" "attrib (clear_buffer s) = attrib s"
  "terminal_info (clear_buffer s) = terminal_info s"
  "terminal_memory (clear_buffer s) = terminal_memory s" "enter_flag (clear_buffer s) = enter_flag s"
  "buffer_len (clear_buffer s) = (buffer_len s)[curr_terminal s := 0]"
  by (simp_all add: clear_buffer_def Let_def)

lemma new_line_simps [simp, frame_simps]:
  "terminal_ptr (new_line b s) = terminal_ptr s"
  "line_beginning (new_line b s) = line_beginning s" "curr_terminal (new_line b s) = curr_terminal s"
  "attrib (new_line b s) = attrib s" "terminal_info (new_line b s) = terminal_info s"
  "terminal_memory (new_line b s) = terminal_memory s" "enter_flag (new_line b s) = enter_flag s"
  "buffer_len (new_line b s) = (if b then (buffer_len s)[curr_terminal s := 0] else buffer_len s)"
  by (simp_all add: new_line_def Let_def)

lemma putch_simps [simp, frame_simps]:
  "terminal_ptr (putch c s) = terminal_ptr s"
  "line_beginning (putch c s) = line_beginning s" "curr_terminal (putch c s) = curr_terminal s"
  "attrib (putch c s) = attrib s" "terminal_info (putch c s) = terminal_info s"
  "terminal_memory (putch c s) = terminal_memory s" "enter_flag (putch c s) = enter_flag s"
  "buffer_len (putch c s) = (if c = 10 then (buffer_len s)[curr_terminal s := 0] else buffer_len s)"
  by (simp_all add: putch_def Let_def)

lemma blen_putch: "blen (putch c s) \<le> blen s"
  by (cases "curr_terminal s < length (buffer_len s)") (simp_all add: list_update_beyond)

section \<open>The buffer on the screen\<close>

function print_buffer_loop :: "nat \<Rightarrow> 'a term_state_scheme \<Rightarrow> 'a term_state_scheme" where
  "print_buffer_loop i s =
     (if i < blen s then print_buffer_loop (i + 1) (putch (tbuf s ! i) s) else s)"
  by pat_completeness auto
termination
proof (relation "measure (\<lambda>(i, s). blen s - i)")
  fix i and s :: "'a term_state_scheme"
  assume "i < blen s"
  with blen_putch [of "tbuf s ! i" s]
  show "((i + 1, putch (tbuf s ! i) s), i, s) \<in> measure (\<lambda>(i, s). blen s - i)" by auto
qed simp

declare print_buffer_loop.simps [simp del]

definition print_buffer :: "'a term_state_scheme \<Rightarrow> 'a term_state_scheme" where
  "print_buffer s =
     (let s = set_cy (line_y s ! curr_terminal s) s;
          s = set_cx (line_beginning s ! curr_terminal s) s
      in print_buffer_loop 0 s)"

definition backspace :: "'a term_state_scheme \<Rightarrow> 'a term_state_scheme" where
  "backspace s =
     (if blen s > 0
      then let s = s\<lparr>terminal_buffer := (terminal_buffer s)[curr_terminal s := (tbuf s)[blen s - 1 := 32]]\<rparr>;
               s = print_buffer s;
               s = s\<lparr>buffer_len := (buffer_len s)[curr_terminal s := blen s - 1]\<rparr>
           in move_csr s
      else s)"

section \<open>The driver's file operations\<close>

fun terminal_write_loop :: "nat \<Rightarrow> u32 \<Rightarrow> 'a term_state_scheme \<Rightarrow> 'a term_state_scheme" where
  "terminal_write_loop 0 p s = s"
| "terminal_write_loop (Suc n) p s = terminal_write_loop n (p + 1) (putch (mem s p) s)"

definition terminal_write :: "u32 \<Rightarrow> u32 \<Rightarrow> int \<Rightarrow> 'a term_state_scheme \<Rightarrow> u32 \<times> 'a term_state_scheme" where
  "terminal_write fd buf count s =
     (if buf = NULL32 then (minus_one, s)
      else let s = terminal_write_loop (nat count) buf s;
               s = set_lb (cx s) s;
               s = set_ly (cy s) s;
               s = move_csr s
           in (of_nat (nat count), s))"

text \<open>
  The loop that fills the reader's buffer. Its test reads \<^verbatim>\<open>terminal_buffer[t][128]\<close> before
  it tests the index; the outcome of the test does not depend on that value.
\<close>

function terminal_read_loop :: "nat \<Rightarrow> int \<Rightarrow> u8 list \<Rightarrow> u32 \<Rightarrow> mem \<Rightarrow> nat \<times> mem" where
  "terminal_read_loop i count tb buf m =
     (if int i < count \<and> i < BUFF_LEN \<and> tb ! i \<noteq> 0 \<and> tb ! i \<noteq> 10
      then terminal_read_loop (i + 1) count tb buf (m(buf + of_nat i := tb ! i))
      else (i, m))"
  by pat_completeness auto
termination
  by (relation "measure (\<lambda>(i, count, tb, buf, m). BUFF_LEN - i)") auto

declare terminal_read_loop.simps [simp del]

text \<open>\<open>None\<close>: the call spins on \<^verbatim>\<open>enter_flag\<close> and has not changed anything yet.\<close>

definition terminal_read :: "u32 \<Rightarrow> u32 \<Rightarrow> int \<Rightarrow> 'a term_state_scheme \<Rightarrow> (u32 \<times> 'a term_state_scheme) option" where
  "terminal_read fd buf count s =
     (if enter_flag s = 0 then None
      else let (i, m) = terminal_read_loop 0 count (tbuf s) buf (mem s);
               s = s\<lparr>mem := m(buf + of_nat i := 10)\<rparr>;
               s = new_line True s;
               s = s\<lparr>enter_flag := 0\<rparr>
           in Some (of_nat (i + 1), s))"

definition terminal_close :: "u32 \<Rightarrow> 'a term_state_scheme \<Rightarrow> u32 \<times> 'a term_state_scheme" where
  "terminal_close fd s = (0, s)"

definition terminal_init :: "'a term_state_scheme \<Rightarrow> 'a term_state_scheme" where
  "terminal_init s =
     s\<lparr>terminal_ops := \<lparr>openptr = Fn_terminal_open, closeptr = Fn_terminal_close,
                        readptr = Fn_terminal_read, writeptr = Fn_terminal_write\<rparr>,
       stdin_ops := \<lparr>openptr = Fn_terminal_open, closeptr = Fn_terminal_close,
                     readptr = Fn_terminal_read, writeptr = Fn_null\<rparr>,
       stdout_ops := \<lparr>openptr = Fn_terminal_open, closeptr = Fn_terminal_close,
                      readptr = Fn_null, writeptr = Fn_terminal_write\<rparr>,
       terminal_info := fold (\<lambda>i ti. ti[i := \<lparr>top_process_id = 0, num_process = 0\<rparr>])
                          [0..<MAX_TERMINALS] (terminal_info s)\<rparr>"

definition keyboard_init :: "'a term_state_scheme \<Rightarrow> 'a term_state_scheme" where
  "keyboard_init s =
     (let s = s\<lparr>enter_flag := 0\<rparr>;
          s = enable_irq 1 s
      in s\<lparr>ctrl_flag := 0, cap_flag := 0, alt_flag := 0\<rparr>)"

definition terminal_open :: "u32 \<Rightarrow> 'a term_state_scheme \<Rightarrow> u32 \<times> 'a term_state_scheme" where
  "terminal_open filename s =
     (let s = s\<lparr>attrib := 0x0F\<rparr>;
          s = keyboard_init s;
          s = s\<lparr>terminal_ptr := VIDEO_MEM, curr_terminal := 0\<rparr>;
          s = s\<lparr>terminal_memory := (terminal_memory s)
                  [0 := TERMINAL_MEM_1, 1 := TERMINAL_MEM_2, 2 := TERMINAL_MEM_3]\<rparr>;
          s = fold (\<lambda>i s. s\<lparr>line_beginning := (line_beginning s)[i := 0], csr_x := (csr_x s)[i := 0],
                           csr_y := (csr_y s)[i := 0], line_y := (line_y s)[i := 0]\<rparr>)
                [0..<MAX_TERMINALS] s;
          s = clear_screen s;
          b = blank s;
          s = s\<lparr>mem := memset_word (mem s) TERMINAL_MEM_2 b (0x1000 div 2)\<rparr>;
          s = s\<lparr>mem := memset_word (mem s) TERMINAL_MEM_3 b (0x1000 div 2)\<rparr>
      in (0, s))"

section \<open>Scrolling\<close>

lemma fold_upt_add: "fold (\<lambda>j. f (n + j)) [0..<w] m = fold f [n..<n + w] m"
  by (induction w) simp_all

lemma fold_rows: "fold (\<lambda>i. fold (\<lambda>j. f (i * w + j)) [0..<w]) [0..<h] m = fold f [0..<h * w] m"
proof (induction h)
  case (Suc h)
  have "[0..<Suc h * w] = [0..<h * w] @ [h * w..<h * w + w]"
    using upt_add_eq_append [of 0 "h * w" w] by (simp add: add.commute)
  with Suc show ?case using fold_upt_add [of f "h * w" w] by simp
qed simp

text \<open>A screen cell, by its index, row times 80 plus column.\<close>

definition cell :: "mem \<Rightarrow> u32 \<Rightarrow> nat \<Rightarrow> u16" where
  "cell m tp k = load16 m (tp + 2 * of_nat k)"

lemma store16_load16_copied: "store16 m d (load16 m s) = copied m d s 2"
  by (simp add: store16_def copied_filled filled_2 byte_of_load16)

lemma fold_shift_copied:
  assumes "n \<le> 2000"
  shows "fold (\<lambda>k m. store16 m (tp + 2 * of_nat k) (load16 m (tp + 2 * of_nat (k + 80)))) [0..<n] m
    = copied m tp (tp + 160) (2 * n)"
  using assms
proof (induction n)
  case (Suc n)
  let ?m = "copied m tp (tp + 160) (2 * n)"
  have "forward_ok tp (tp + 160) (2 * n + 2)"
    using Suc.prems by (simp add: forward_ok_def unat_sub32)
  then have "copied ?m (tp + of_nat (2 * n)) (tp + 160 + of_nat (2 * n)) 2 = copied m tp (tp + 160) (2 * n + 2)"
    by (rule copied_append) (use Suc.prems in simp)
  moreover have "store16 ?m (tp + 2 * of_nat n) (load16 ?m (tp + 2 * of_nat (n + 80)))
      = copied ?m (tp + of_nat (2 * n)) (tp + 160 + of_nat (2 * n)) 2"
    unfolding store16_load16_copied by (simp add: algebra_simps)
  ultimately show ?case using Suc by simp
qed simp

lemma scroll_rows_copied: "scroll_rows tp m = copied m tp (tp + 160) 3840"
proof -
  let ?f = "\<lambda>k m. store16 m (tp + 2 * of_nat k) (load16 m (tp + 2 * of_nat (k + 80)))"
  have "scroll_cell tp i = (\<lambda>j. ?f (i * 80 + j))" for i
    by (intro ext) (simp add: scroll_cell_def WIDTH_def algebra_simps)
  then have "scroll_rows tp m = fold (\<lambda>i. fold (\<lambda>j. ?f (i * 80 + j)) [0..<80]) [0..<24] m"
    by (simp add: scroll_rows_def term_consts)
  also have "\<dots> = fold ?f [0..<24 * 80] m" by (rule fold_rows)
  also have "\<dots> = copied m tp (tp + 160) (2 * (24 * 80))" by (rule fold_shift_copied) simp
  finally show ?thesis by simp
qed

lemma fold_store16_filled:
  assumes "n \<le> 2000"
  shows "fold (\<lambda>j m. store16 m (d + 2 * of_nat j) b) [0..<n] m
    = filled m d (2 * n) (\<lambda>i. ucast (drop_bit (8 * (i mod 2)) b))"
  using assms
proof (induction n)
  case (Suc n)
  let ?f = "\<lambda>i. ucast (drop_bit (8 * (i mod 2)) b) :: u8"
  let ?m = "filled m d (2 * n) ?f"
  have "store16 ?m (d + of_nat (2 * n)) b = filled ?m (d + of_nat (2 * n)) 2 (\<lambda>i. ?f (2 * n + i))"
    unfolding store16_filled by (rule filled_cong) simp
  also have "\<dots> = filled m d (2 * n + 2) ?f"
    by (rule filled_append) (use Suc.prems in simp)
  finally show ?case using Suc by simp
qed simp

lemma scroll_last_filled:
  "scroll_last tp b m = filled m (tp + 3840) 160 (\<lambda>i. ucast (drop_bit (8 * (i mod 2)) b))"
  using fold_store16_filled [of 80 "tp + 3840" b m]
  by (simp add: scroll_last_def term_consts algebra_simps)

lemma cell_filled:
  assumes "\<And>i. i < 2 * n \<Longrightarrow> f i = ucast (drop_bit (8 * (i mod 2)) b)" and "k < n" and "2 * n < 4294967296"
  shows "cell (filled m tp (2 * n) f) tp k = b"
proof -
  have "unat (2 * of_nat k :: u32) = 2 * k"
    using unat_of_nat32 [of "2 * k"] assms by simp
  moreover have "unat (2 * of_nat k + 1 :: u32) = 2 * k + 1"
    using unat_of_nat32 [of "2 * k + 1"] assms by (simp add: algebra_simps)
  ultimately have "load16 (filled m tp (2 * n) f) (tp + 2 * of_nat k) = ucast (f (2 * k)) OR push_bit 8 (ucast (f (2 * k + 1)))"
    using assms(2) by (simp add: load16_def filled_def add.assoc)
  also have "\<dots> = b"
    using assms(1) [of "2 * k"] assms(1) [of "2 * k + 1"] assms(2)
    by (intro bit_word_eqI) (auto simp: bit_or_iff bit_push_bit_iff bit_ucast_iff bit_drop_bit_eq)
  finally show ?thesis by (simp add: cell_def)
qed

section \<open>The well-formedness invariant\<close>

definition term_base :: "'a term_state_scheme \<Rightarrow> bool" where
  "term_base s \<longleftrightarrow> curr_terminal s < 3 \<and> terminal_ptr s = VIDEO_MEM
     \<and> length (csr_x s) = 3 \<and> length (csr_y s) = 3 \<and> length (line_y s) = 3
     \<and> length (line_beginning s) = 3 \<and> length (buffer_len s) = 3 \<and> length (terminal_buffer s) = 3
     \<and> list_all (\<lambda>y. 0 \<le> y \<and> y < 25) (line_y s) \<and> list_all (\<lambda>x. 0 \<le> x \<and> x < 80) (line_beginning s)
     \<and> list_all (\<lambda>n. n \<le> 128) (buffer_len s) \<and> list_all (\<lambda>b. length b = 128) (terminal_buffer s)"

definition term_ok :: "'a term_state_scheme \<Rightarrow> bool" where
  "term_ok s \<longleftrightarrow> term_base s
     \<and> list_all (\<lambda>x. 0 \<le> x \<and> x < 80) (csr_x s) \<and> list_all (\<lambda>y. 0 \<le> y \<and> y < 25) (csr_y s)"

text \<open>
  Inside an operation the current cursor may stand one column right of the screen, or one
  row below it before the scroll that follows.
\<close>

definition term_edge :: "'a term_state_scheme \<Rightarrow> bool" where
  "term_edge s \<longleftrightarrow> term_base s \<and> 0 \<le> cx s \<and> cx s \<le> 80
     \<and> list_all (\<lambda>x. 0 \<le> x \<and> x < 80) ((csr_x s)[curr_terminal s := 0])
     \<and> list_all (\<lambda>y. 0 \<le> y \<and> y < 25) (csr_y s)"

definition term_below :: "'a term_state_scheme \<Rightarrow> bool" where
  "term_below s \<longleftrightarrow> term_base s \<and> 0 \<le> cy s \<and> cy s \<le> 25
     \<and> list_all (\<lambda>x. 0 \<le> x \<and> x < 80) (csr_x s)
     \<and> list_all (\<lambda>y. 0 \<le> y \<and> y < 25) ((csr_y s)[curr_terminal s := 0])"

lemmas term_defs = term_base_def term_ok_def term_edge_def term_below_def

lemma list_all_update: "list_all P xs \<Longrightarrow> P v \<Longrightarrow> list_all P (xs[i := v])"
  by (auto simp: list_all_iff dest: set_update_subset_insert [THEN subsetD])

lemma list_all_replace: "list_all P (xs[i := u]) \<Longrightarrow> P v \<Longrightarrow> list_all P (xs[i := v])"
  using list_all_update [of P "xs[i := u]" v i] by simp

lemma list_all_restore: "list_all P (xs[i := u]) \<Longrightarrow> P (xs ! i) \<Longrightarrow> list_all P xs"
  using list_all_replace [of P xs i u "xs ! i"] by simp

lemma list_all_nthD: "list_all P xs \<Longrightarrow> i < length xs \<Longrightarrow> P (xs ! i)"
  by (simp add: list_all_length)

lemma term_ok_bounds:
  assumes "term_ok s"
  shows "0 \<le> cx s" "cx s < 80" "0 \<le> cy s" "cy s < 25" "blen s \<le> 128" "length (tbuf s) = 128"
    and "0 \<le> line_y s ! curr_terminal s" "line_y s ! curr_terminal s < 25"
    and "0 \<le> line_beginning s ! curr_terminal s" "line_beginning s ! curr_terminal s < 80"
    and "curr_terminal s < 3"
  using assms
    list_all_nthD [of "\<lambda>x. 0 \<le> x \<and> x < 80" "csr_x s" "curr_terminal s"]
    list_all_nthD [of "\<lambda>x. 0 \<le> x \<and> x < 25" "csr_y s" "curr_terminal s"]
    list_all_nthD [of "\<lambda>x. 0 \<le> x \<and> x < 25" "line_y s" "curr_terminal s"]
    list_all_nthD [of "\<lambda>x. 0 \<le> x \<and> x < 80" "line_beginning s" "curr_terminal s"]
    list_all_nthD [of "\<lambda>n. n \<le> 128" "buffer_len s" "curr_terminal s"]
    list_all_nthD [of "\<lambda>b. length b = 128" "terminal_buffer s" "curr_terminal s"]
  by (simp_all add: term_ok_def term_base_def)

lemma term_ok_edge: "term_ok s \<Longrightarrow> term_edge s"
  using term_ok_bounds [of s] by (simp add: term_edge_def term_ok_def list_all_update)

lemma move_csr_ok [simp]: "term_ok (move_csr s) = term_ok s"
  by (simp add: term_defs)

lemma scroll_ok:
  assumes "term_below s"
  shows "term_ok (scroll s)"
proof (cases "cy s < 25")
  case True
  have "list_all (\<lambda>y. 0 \<le> y \<and> y < 25) (csr_y s)"
    by (rule list_all_restore [where i = "curr_terminal s" and u = 0])
      (use assms True in \<open>simp_all add: term_below_def\<close>)
  with True assms show ?thesis by (simp add: scroll_def term_consts Let_def term_defs)
next
  case False
  with assms show ?thesis
    by (simp add: scroll_def term_consts Let_def term_defs list_all_update
        list_all_replace [where u = 0])
qed

lemma fold_zero_length [simp]: "length (fold (\<lambda>i b. b[i := v]) is b) = length b"
  by (induction "is" arbitrary: b) auto

lemma fold_zero_list:
  "n \<le> length b \<Longrightarrow> fold (\<lambda>i b. b[i := v]) [0..<n] b = replicate n v @ drop n b"
proof (induction n)
  case (Suc n)
  then have "(replicate n v @ drop n b)[n := v] = replicate (Suc n) v @ drop (Suc n) b"
    by (simp add: list_update_append Cons_nth_drop_Suc [symmetric] replicate_append_same [symmetric])
  with Suc show ?case by simp
qed simp

lemma clear_buffer_ok: "term_ok s \<Longrightarrow> term_ok (clear_buffer s)"
  using term_ok_bounds(6) [of s]
  by (simp add: term_ok_def term_base_def clear_buffer_def Let_def list_all_update)

lemma tbuf_clear_buffer: "term_ok s \<Longrightarrow> tbuf (clear_buffer s) = replicate 128 0"
  using term_ok_bounds(6,11) [of s] fold_zero_list [of 128 "tbuf s" 0]
  by (simp add: clear_buffer_def Let_def BUFF_LEN_def term_ok_def term_base_def)

lemma set_ly_cy_ok: "term_ok s \<Longrightarrow> term_ok (set_ly (cy s) s)"
  using term_ok_bounds [of s] by (simp add: term_ok_def term_base_def list_all_update)

lemma new_line_ok:
  assumes "term_ok s"
  shows "term_ok (new_line b s)"
proof -
  let ?t = "set_cx 0 (set_cy (cy s + 1) s)"
  have "term_below ?t"
    using assms term_ok_bounds [OF assms] by (simp add: term_below_def term_ok_def term_base_def list_all_update)
  then have "term_ok (move_csr (scroll ?t))" by (simp add: scroll_ok)
  then have "term_ok (set_ly (cy (move_csr (scroll ?t))) (move_csr (scroll ?t)))" by (rule set_ly_cy_ok)
  then show ?thesis by (simp add: new_line_def Let_def clear_buffer_ok)
qed

lemma putch_end_ok:
  assumes "term_edge s"
  shows "term_ok (putch_end s)"
proof (cases "cx s = 80")
  case True
  with assms have "0 \<le> cy s" "cy s < 25"
    using list_all_nthD [of "\<lambda>y. 0 \<le> y \<and> y < 25" "csr_y s" "curr_terminal s"]
    by (auto simp: term_edge_def term_base_def)
  with assms have "term_below (set_cy (cy s + 1) (set_cx 0 s))"
    by (simp add: term_edge_def term_below_def term_base_def list_all_update)
  with True show ?thesis by (simp add: putch_end_def Let_def WIDTH_def scroll_ok)
next
  case False
  have "list_all (\<lambda>x. 0 \<le> x \<and> x < 80) (csr_x s)"
    by (rule list_all_restore [where i = "curr_terminal s" and u = 0])
      (use assms False in \<open>auto simp: term_edge_def\<close>)
  moreover from assms have "0 \<le> cy s" "cy s \<le> 25"
    using list_all_nthD [of "\<lambda>y. 0 \<le> y \<and> y < 25" "csr_y s" "curr_terminal s"]
    by (auto simp: term_edge_def term_base_def)
  ultimately have "term_below s"
    using assms by (simp add: term_edge_def term_below_def list_all_update)
  with False assms show ?thesis by (simp add: putch_end_def Let_def WIDTH_def term_edge_def scroll_ok)
qed

lemma putch_ok:
  assumes "term_ok s"
  shows "term_ok (putch c s)"
proof -
  note b = term_ok_bounds [OF assms]
  have "term_edge (if cx s \<noteq> 0 then set_cx (cx s - 1) s else s)"
    using assms b by (auto simp: term_ok_edge term_edge_def term_ok_def term_base_def list_all_update)
  moreover have "term_edge (s\<lparr>mem := m, csr_x := (csr_x s)[curr_terminal s := cx s + 1]\<rparr>)" for m
    using assms b by (auto simp: term_edge_def term_ok_def term_base_def list_all_update)
  moreover have "term_edge (new_line True s)" using assms by (intro term_ok_edge new_line_ok)
  ultimately show ?thesis
    using assms by (simp add: putch_def Let_def putch_end_ok term_ok_edge)
qed

lemma print_buffer_loop_ok: "term_ok s \<Longrightarrow> term_ok (print_buffer_loop i s)"
proof (induction i s rule: print_buffer_loop.induct)
  case (1 i s)
  then show ?case by (subst print_buffer_loop.simps) (simp add: putch_ok)
qed

lemma print_buffer_ok: "term_ok s \<Longrightarrow> term_ok (print_buffer s)"
  unfolding print_buffer_def Let_def using term_ok_bounds [of s]
  by (intro print_buffer_loop_ok) (simp add: term_ok_def term_base_def list_all_update)

lemma print_buffer_loop_simps [simp, frame_simps]:
  "curr_terminal (print_buffer_loop i s) = curr_terminal s"
  "terminal_ptr (print_buffer_loop i s) = terminal_ptr s"
  "enter_flag (print_buffer_loop i s) = enter_flag s"
  "terminal_info (print_buffer_loop i s) = terminal_info s"
  "terminal_memory (print_buffer_loop i s) = terminal_memory s"
  by (induction i s rule: print_buffer_loop.induct; subst print_buffer_loop.simps; simp)+

lemma print_buffer_simps [simp, frame_simps]:
  "curr_terminal (print_buffer s) = curr_terminal s"
  "terminal_ptr (print_buffer s) = terminal_ptr s"
  "enter_flag (print_buffer s) = enter_flag s"
  "terminal_info (print_buffer s) = terminal_info s"
  "terminal_memory (print_buffer s) = terminal_memory s"
  by (simp_all add: print_buffer_def Let_def)

lemma set_blen_ok: "term_ok s \<Longrightarrow> n \<le> 128 \<Longrightarrow> term_ok (s\<lparr>buffer_len := (buffer_len s)[i := n]\<rparr>)"
  by (simp add: term_ok_def term_base_def list_all_update)

lemma set_line_ok: "term_ok s \<Longrightarrow> term_ok (set_ly (cy s) (set_lb (cx s) s))"
  using term_ok_bounds [of s] by (simp add: term_ok_def term_base_def list_all_update)

lemma backspace_ok:
  assumes "term_ok s"
  shows "term_ok (backspace s)"
proof -
  let ?t = "print_buffer (s\<lparr>terminal_buffer := (terminal_buffer s)[curr_terminal s := (tbuf s)[blen s - 1 := 32]]\<rparr>)"
  have "term_ok ?t"
    using assms term_ok_bounds [OF assms]
    by (intro print_buffer_ok) (simp add: term_ok_def term_base_def list_all_update)
  then have "term_ok (?t\<lparr>buffer_len := (buffer_len ?t)[curr_terminal ?t := blen ?t - 1]\<rparr>)"
    using term_ok_bounds(5) [of ?t] by (intro set_blen_ok) auto
  with assms show ?thesis by (simp add: backspace_def Let_def)
qed

lemma add_to_buffer_ok: "term_ok s \<Longrightarrow> term_ok (add_to_buffer c s)"
  using term_ok_bounds [of s]
  by (simp add: add_to_buffer_def Let_def BUFF_LEN_def term_ok_def term_base_def list_all_update)

lemma clear_screen_ok: "term_ok s \<Longrightarrow> term_ok (clear_screen s)"
  using term_ok_bounds(6) [of s]
  by (simp add: clear_screen_def clear_buffer_def Let_def term_ok_def term_base_def list_all_update)

lemma terminal_write_loop_ok: "term_ok s \<Longrightarrow> term_ok (terminal_write_loop n p s)"
  by (induction n arbitrary: p s) (simp_all add: putch_ok)

lemma terminal_write_loop_simps [simp, frame_simps]:
  "curr_terminal (terminal_write_loop n p s) = curr_terminal s"
  "terminal_ptr (terminal_write_loop n p s) = terminal_ptr s"
  "enter_flag (terminal_write_loop n p s) = enter_flag s"
  "terminal_info (terminal_write_loop n p s) = terminal_info s"
  "terminal_memory (terminal_write_loop n p s) = terminal_memory s"
  by (induction n arbitrary: p s) simp_all

lemma terminal_write_ok:
  assumes "term_ok s"
  shows "term_ok (snd (terminal_write fd buf n s))"
proof -
  let ?t = "terminal_write_loop (nat n) buf s"
  have "term_ok ?t" by (rule terminal_write_loop_ok [OF assms])
  then have "term_ok (set_ly (cy ?t) (set_lb (cx ?t) ?t))" by (rule set_line_ok)
  with assms show ?thesis by (simp add: terminal_write_def Let_def)
qed

lemma terminal_read_ok:
  "term_ok s \<Longrightarrow> terminal_read fd buf n s = Some (r, s') \<Longrightarrow> term_ok s'"
proof -
  assume ok: "term_ok s" and r: "terminal_read fd buf n s = Some (r, s')"
  then obtain m where "s' = (new_line True (s\<lparr>mem := m\<rparr>))\<lparr>enter_flag := 0\<rparr>"
    by (auto simp: terminal_read_def Let_def split: if_splits prod.splits)
  moreover from ok have "term_ok (new_line True (s\<lparr>mem := m\<rparr>))"
    by (intro new_line_ok) (simp add: term_ok_def term_base_def)
  ultimately show "term_ok s'" by (simp add: term_ok_def term_base_def)
qed

section \<open>What an operation leaves alone\<close>

text \<open>
  Everything but the screen and the entries of the current terminal: the memory outside the
  4000 bytes of text, the cursors and the input of the other terminals, the process table of
  the terminals and the pages their screens are kept in.
\<close>

definition leaves :: "'a term_state_scheme \<Rightarrow> 'a term_state_scheme \<Rightarrow> bool" where
  "leaves s s' \<longleftrightarrow> curr_terminal s' = curr_terminal s \<and> terminal_ptr s' = terminal_ptr s
     \<and> terminal_info s' = terminal_info s \<and> terminal_memory s' = terminal_memory s
     \<and> attrib s' = attrib s
     \<and> (\<forall>t. t \<noteq> curr_terminal s \<longrightarrow>
          csr_x s' ! t = csr_x s ! t \<and> csr_y s' ! t = csr_y s ! t \<and> line_y s' ! t = line_y s ! t
        \<and> line_beginning s' ! t = line_beginning s ! t \<and> buffer_len s' ! t = buffer_len s ! t
        \<and> terminal_buffer s' ! t = terminal_buffer s ! t)
     \<and> (\<forall>a. 4000 \<le> unat (a - VIDEO_MEM) \<longrightarrow> mem s' a = mem s a)"

lemma leaves_refl: "leaves s s"
  by (simp add: leaves_def)

lemma leaves_trans [trans]: "leaves s t \<Longrightarrow> leaves t u \<Longrightarrow> leaves s u"
  by (simp add: leaves_def)

lemma scroll_mem:
  "mem (scroll s) = (if cy s \<ge> 25
     then filled (copied (mem s) (terminal_ptr s) (terminal_ptr s + 160) 3840) (terminal_ptr s + 3840) 160
            (\<lambda>i. ucast (drop_bit (8 * (i mod 2)) (ucast (blank s) :: u16)))
     else mem s)"
  by (simp add: scroll_def Let_def term_consts scroll_rows_copied scroll_last_filled)

lemma scroll_outside:
  assumes "4000 \<le> unat (a - terminal_ptr s)"
  shows "mem (scroll s) a = mem s a"
proof -
  have "unat (a - (terminal_ptr s + of_nat 3840)) = unat (a - terminal_ptr s) - 3840"
    by (rule region_shift) (use assms in auto)
  with assms show ?thesis by (auto simp: scroll_mem filled_def copied_def)
qed

lemma scroll_leaves: "terminal_ptr s = VIDEO_MEM \<Longrightarrow> leaves s (scroll s)"
  using scroll_outside [of _ s] by (simp add: leaves_def scroll_def Let_def)

lemma term_ok_ptr: "term_ok s \<Longrightarrow> terminal_ptr s = VIDEO_MEM"
  by (simp add: term_ok_def term_base_def)

lemma new_line_leaves:
  assumes "terminal_ptr s = VIDEO_MEM"
  shows "leaves s (new_line b s)"
proof -
  let ?t = "set_cx 0 (set_cy (cy s + 1) s)"
  have "leaves s ?t" by (simp add: leaves_def)
  also have "leaves ?t (scroll ?t)" using assms by (intro scroll_leaves) simp
  also have "leaves (scroll ?t) (new_line b s)"
    by (simp add: leaves_def new_line_def Let_def clear_buffer_def)
  finally show ?thesis .
qed

lemma putch_end_leaves:
  assumes "terminal_ptr s = VIDEO_MEM"
  shows "leaves s (putch_end s)"
proof -
  let ?t = "if cx s \<ge> int WIDTH then set_cy (cy s + 1) (set_cx 0 s) else s"
  have "leaves s ?t" by (simp add: leaves_def)
  also have "leaves ?t (scroll ?t)" using assms by (intro scroll_leaves) simp
  also have "leaves (scroll ?t) (putch_end s)" by (simp add: leaves_def putch_end_def Let_def)
  finally show ?thesis .
qed

lemma screen_address:
  assumes "0 \<le> k" and "k < 2000" and "4000 \<le> unat (a - VIDEO_MEM)"
  shows "a \<noteq> VIDEO_MEM + 2 * of_int k" and "a \<noteq> VIDEO_MEM + 2 * of_int k + 1"
proof -
  have "unat (2 * of_int k :: u32) = 2 * nat k"
    using unat_of_nat32 [of "2 * nat k"] assms by simp
  moreover have "unat (2 * of_int k + 1 :: u32) = 2 * nat k + 1"
    using unat_of_nat32 [of "2 * nat k + 1"] assms by (simp add: algebra_simps)
  ultimately show "a \<noteq> VIDEO_MEM + 2 * of_int k" "a \<noteq> VIDEO_MEM + 2 * of_int k + 1"
    using assms by (auto simp: add.assoc)
qed

text \<open>In a well-formed state the range checks of putch always pass: a printable character is written.\<close>

abbreviation glyph :: "u8 \<Rightarrow> 'a term_state_scheme \<Rightarrow> u16" where
  "glyph c s \<equiv> ucast (ucast c OR push_bit 8 (attrib s))"

lemma putch_printable:
  assumes "term_ok s" and "c \<ge> 32"
  shows "putch c s = putch_end (set_cx (cx s + 1)
    (s\<lparr>mem := store16 (mem s) (VIDEO_MEM + 2 * of_int (cy s * 80 + cx s)) (glyph c s)\<rparr>))"
proof -
  let ?k = "cy s * 80 + cx s"
  have k: "0 \<le> ?k" "?k < 2000" using term_ok_bounds [OF assms(1)] by auto
  have u: "unat (2 * of_int ?k :: u32) = 2 * nat ?k"
    using unat_of_nat32 [of "2 * nat ?k"] k by simp
  have v: "unat VIDEO_MEM = 753664" by (simp add: VIDEO_MEM_def)
  have "unat (VIDEO_MEM + 2 * of_int ?k) = 753664 + 2 * nat ?k"
    unfolding unat_add32 u v using k by simp
  moreover have "unat (VIDEO_MEM + 0x1000) = 757760" by (simp add: VIDEO_MEM_def)
  ultimately have "\<not> VIDEO_MEM + 0x1000 \<le> VIDEO_MEM + 2 * of_int ?k" "\<not> VIDEO_MEM + 2 * of_int ?k < VIDEO_MEM"
    using k v by (simp_all only: word_le_nat_alt word_less_nat_alt)
  moreover have "c \<noteq> 10" "c \<noteq> 8" using assms(2) by (auto simp: word_le_nat_alt)
  ultimately show ?thesis
    using assms(2) k by (simp only: putch_def Let_def WIDTH_def term_ok_ptr [OF assms(1)] if_False) simp
qed

lemma putch_cases:
  assumes "term_ok s"
  obtains "c = 10" "putch c s = putch_end (new_line True s)"
  | "c = 8" "putch c s = putch_end (if cx s \<noteq> 0 then set_cx (cx s - 1) s else s)"
  | "c \<ge> 32" "putch c s = putch_end (set_cx (cx s + 1)
      (s\<lparr>mem := store16 (mem s) (VIDEO_MEM + 2 * of_int (cy s * 80 + cx s)) (glyph c s)\<rparr>))"
  | "c = 0" "putch c s = s"
  | "c < 32" "c \<noteq> 0" "c \<noteq> 8" "c \<noteq> 10" "putch c s = putch_end s"
proof (cases "c \<ge> 32")
  case True
  with that(3) putch_printable [OF assms] show ?thesis by blast
next
  case False
  then have "c < 32" by (simp only: not_le)
  moreover have "putch 10 s = putch_end (new_line True s)" "putch 0 s = s"
    "putch 8 s = putch_end (if cx s \<noteq> 0 then set_cx (cx s - 1) s else s)"
    by (simp_all add: putch_def)
  moreover have "putch c s = putch_end s" if "c \<noteq> 0" "c \<noteq> 8" "c \<noteq> 10"
    using that False by (simp only: putch_def Let_def if_False)
  ultimately show ?thesis using that(1,2,4,5) by blast
qed

lemma putch_leaves:
  assumes "term_ok s"
  shows "leaves s (putch c s)"
proof -
  let ?k = "cy s * 80 + cx s"
  note ptr = term_ok_ptr [OF assms]
  have k: "0 \<le> ?k" "?k < 2000" using term_ok_bounds [OF assms] by auto
  let ?w = "\<lambda>v. set_cx (cx s + 1) (s\<lparr>mem := store16 (mem s) (VIDEO_MEM + 2 * of_int ?k) v\<rparr>)"
  have w: "leaves s (?w v)" for v
    using screen_address [OF k] by (simp add: leaves_def store16_def)
  have "leaves (?w v) (putch_end (?w v))" for v by (rule putch_end_leaves) (simp add: ptr)
  with w have "leaves s (putch_end (?w v))" for v by (blast intro: leaves_trans)
  note printed = this
  have moved: "leaves s (putch_end (set_cx v s))" for v
  proof -
    have "leaves s (set_cx v s)" by (simp add: leaves_def)
    moreover have "leaves (set_cx v s) (putch_end (set_cx v s))" by (rule putch_end_leaves) (simp add: ptr)
    ultimately show ?thesis by (rule leaves_trans)
  qed
  show ?thesis
  proof (cases c rule: putch_cases [OF assms])
    case 1
    then show ?thesis
      using putch_end_leaves [of "new_line True s"] new_line_leaves [of s True] ptr
      by (auto intro: leaves_trans)
  next
    case 2
    then show ?thesis using moved putch_end_leaves [OF ptr] by simp
  next
    case 3
    then show ?thesis using printed by simp
  qed (use putch_end_leaves [OF ptr] in \<open>auto simp: leaves_refl\<close>)
qed

lemma print_buffer_loop_leaves: "term_ok s \<Longrightarrow> leaves s (print_buffer_loop i s)"
proof (induction i s rule: print_buffer_loop.induct)
  case (1 i s)
  then show ?case
    by (subst print_buffer_loop.simps) (auto simp: putch_ok leaves_refl intro: leaves_trans putch_leaves)
qed

lemma print_buffer_leaves:
  assumes "term_ok s"
  shows "leaves s (print_buffer s)"
proof -
  let ?t = "set_cx (line_beginning s ! curr_terminal s) (set_cy (line_y s ! curr_terminal s) s)"
  have "term_ok ?t"
    using assms term_ok_bounds [OF assms] by (simp add: term_ok_def term_base_def list_all_update)
  then have "leaves ?t (print_buffer_loop 0 ?t)" by (rule print_buffer_loop_leaves)
  moreover have "leaves s ?t" by (simp add: leaves_def)
  ultimately show ?thesis by (simp add: print_buffer_def Let_def leaves_trans)
qed

lemma terminal_write_loop_leaves: "term_ok s \<Longrightarrow> leaves s (terminal_write_loop n p s)"
proof (induction n arbitrary: p s)
  case (Suc n)
  then have "leaves (putch (mem s p) s) (terminal_write_loop n (p + 1) (putch (mem s p) s))"
    by (simp add: putch_ok)
  with putch_leaves [OF Suc.prems, of "mem s p"] show ?case by (simp add: leaves_trans)
qed (simp add: leaves_refl)

lemma terminal_write_leaves:
  assumes "term_ok s"
  shows "leaves s (snd (terminal_write fd buf n s))"
proof -
  let ?t = "terminal_write_loop (nat n) buf s"
  have "leaves ?t (move_csr (set_ly (cy ?t) (set_lb (cx ?t) ?t)))" by (simp add: leaves_def)
  with terminal_write_loop_leaves [OF assms, of "nat n" buf]
  have "leaves s (move_csr (set_ly (cy ?t) (set_lb (cx ?t) ?t)))" by (rule leaves_trans)
  then show ?thesis by (simp add: terminal_write_def Let_def leaves_refl)
qed

section \<open>Text on the screen\<close>

lemma cell_bytes:
  "cell m tp k = ucast (m (tp + of_nat (2 * k))) OR push_bit 8 (ucast (m (tp + of_nat (2 * k + 1))))"
  by (simp add: cell_def load16_def algebra_simps)

lemma scroll_byte:
  assumes "cy s \<ge> 25" and "j < 4000"
  shows "mem (scroll s) (terminal_ptr s + of_nat j) =
    (if j < 3840 then mem s (terminal_ptr s + of_nat (j + 160))
     else ucast (drop_bit (8 * (j mod 2)) (ucast (blank s) :: u16)))"
proof -
  let ?a = "terminal_ptr s + of_nat j"
  have j: "unat (?a - terminal_ptr s) = j" using assms(2) by (simp add: unat_of_nat32)
  show ?thesis
  proof (cases "j < 3840")
    case True
    have "unat (?a - (terminal_ptr s + of_nat 3840)) = unat (?a - terminal_ptr s) + 4294967296 - 3840"
      by (rule region_before) (use True in \<open>simp_all only: j\<close>)
    with True j have "\<not> unat (?a - (terminal_ptr s + 3840)) < 160" by simp
    moreover have "terminal_ptr s + 160 + (?a - terminal_ptr s) = terminal_ptr s + of_nat (j + 160)"
      by (simp add: algebra_simps)
    ultimately show ?thesis
      using True assms(1) j by (simp only: scroll_mem if_True filled_def copied_def if_False)
  next
    case False
    have "unat (?a - (terminal_ptr s + of_nat 3840)) = unat (?a - terminal_ptr s) - 3840"
      by (rule region_shift) (use False in \<open>simp_all only: j\<close>)
    then have u: "unat (?a - (terminal_ptr s + 3840)) = j - 3840" using j by simp
    have "(j - 3840) mod 2 = j mod 2" using False by presburger
    moreover have "j - 3840 < 160" using assms(2) by linarith
    ultimately show ?thesis
      using False assms(1) by (simp only: scroll_mem if_True filled_def u if_False)
  qed
qed

lemma u16_bytes: "ucast (ucast b :: u8) OR push_bit 8 (ucast (ucast (drop_bit 8 b) :: u8)) = (b :: u16)"
  by (rule bit_word_eqI) (auto simp: bit_or_iff bit_push_bit_iff bit_ucast_iff bit_drop_bit_eq)

lemma cell_store:
  assumes "i < 2000" and "k < 2000"
  shows "cell (store16 m (VIDEO_MEM + 2 * of_nat i) v) VIDEO_MEM k =
    (if k = i then v else cell m VIDEO_MEM k)"
proof (cases "k = i")
  case False
  have "unat (2 * of_nat k :: u32) = 2 * k" "unat (2 * of_nat i :: u32) = 2 * i"
    using unat_of_nat32 [of "2 * k"] unat_of_nat32 [of "2 * i"] assms by simp_all
  then have "unat (2 * of_nat k - 2 * of_nat i :: u32) \<noteq> 0 \<and> unat (2 * of_nat k - 2 * of_nat i :: u32) \<noteq> 1"
    "unat (2 * of_nat i - 2 * of_nat k :: u32) \<noteq> 1"
    using False assms by (auto simp: unat_sub32)
  then have "(2 * of_nat k - 2 * of_nat i :: u32) \<noteq> 0" "(2 * of_nat k - 2 * of_nat i :: u32) \<noteq> 1"
    "(2 * of_nat i - 2 * of_nat k :: u32) \<noteq> 1" by auto
  with False show ?thesis unfolding cell_def by (subst load16_store16_other) simp_all
qed (simp add: cell_def load16_store16_same)

lemma putch_in_row:
  fixes s :: "'a term_state_scheme"
  assumes ok: "term_ok s" and c: "c \<ge> 32" and room: "cx s + 1 < 80"
  defines "k \<equiv> nat (cy s * 80 + cx s)"
  shows "mem (putch c s) = store16 (mem s) (VIDEO_MEM + 2 * of_nat k) (glyph c s)"
    and "cx (putch c s) = cx s + 1" "cy (putch c s) = cy s" "attrib (putch c s) = attrib s"
proof -
  note b = term_ok_bounds [OF ok]
  have "(of_int (cy s * 80 + cx s) :: u32) = of_nat k"
    using b by (simp add: k_def)
  moreover have "length (csr_x s) = 3" using ok by (simp add: term_ok_def term_base_def)
  ultimately show "mem (putch c s) = store16 (mem s) (VIDEO_MEM + 2 * of_nat k) (glyph c s)"
    "cx (putch c s) = cx s + 1" "cy (putch c s) = cy s" "attrib (putch c s) = attrib s"
    using b room by (simp_all add: putch_printable [OF ok c] putch_end_def Let_def WIDTH_def
        scroll_def HEIGHT_def)
qed

lemma terminal_write_loop_row:
  assumes "term_ok s" and "cx s + int n < 80"
    and "\<And>i. i < n \<Longrightarrow> mem s (p + of_nat i) \<ge> 32 \<and> 4000 \<le> unat (p + of_nat i - VIDEO_MEM)"
    and "k < 2000"
  shows "cell (mem (terminal_write_loop n p s)) VIDEO_MEM k =
      (let k0 = nat (cy s * 80 + cx s) in
       if k0 \<le> k \<and> k < k0 + n then glyph (mem s (p + of_nat (k - k0))) s else cell (mem s) VIDEO_MEM k)
    \<and> cx (terminal_write_loop n p s) = cx s + int n \<and> cy (terminal_write_loop n p s) = cy s"
  using assms
proof (induction n arbitrary: p s)
  case (Suc n)
  let ?s = "putch (mem s p) s"
  let ?k0 = "nat (cy s * 80 + cx s)"
  note b = term_ok_bounds [OF Suc.prems(1)]
  have c: "mem s p \<ge> 32" using Suc.prems(3) [of 0] by simp
  have "cx s + 1 < 80" using Suc.prems(2) by simp
  note step = putch_in_row [OF Suc.prems(1) c this]
  have ok: "term_ok ?s" by (rule putch_ok [OF Suc.prems(1)])
  have same: "mem ?s (p + 1 + of_nat i) = mem s (p + of_nat (Suc i))" if "i < n" for i
  proof -
    have "mem ?s (p + of_nat (Suc i)) = mem s (p + of_nat (Suc i))"
      using putch_leaves [OF Suc.prems(1), of "mem s p"] Suc.prems(3) [of "Suc i"] that
      by (simp add: leaves_def del: of_nat_Suc)
    then show ?thesis by (simp add: algebra_simps)
  qed
  have pre: "mem ?s (p + 1 + of_nat i) \<ge> 32 \<and> 4000 \<le> unat (p + 1 + of_nat i - VIDEO_MEM)" if "i < n" for i
    using Suc.prems(3) [of "Suc i"] same [OF that] that by (simp add: algebra_simps)
  have IH: "cell (mem (terminal_write_loop n (p + 1) ?s)) VIDEO_MEM k =
      (let k0 = nat (cy ?s * 80 + cx ?s) in
       if k0 \<le> k \<and> k < k0 + n then glyph (mem ?s (p + 1 + of_nat (k - k0))) ?s else cell (mem ?s) VIDEO_MEM k)
    \<and> cx (terminal_write_loop n (p + 1) ?s) = cx ?s + int n \<and> cy (terminal_write_loop n (p + 1) ?s) = cy ?s"
    by (rule Suc.IH [OF ok _ pre Suc.prems(4)]) (use Suc.prems(2) step in simp_all)
  have k0: "nat (cy ?s * 80 + cx ?s) = Suc ?k0" "?k0 < 2000" using b step by simp_all
  have "cell (mem ?s) VIDEO_MEM k = (if k = ?k0 then glyph (mem s p) s else cell (mem s) VIDEO_MEM k)"
    unfolding step(1) by (rule cell_store [OF k0(2) Suc.prems(4)])
  moreover have "mem ?s (p + 1 + of_nat (k - Suc ?k0)) = mem s (p + of_nat (k - ?k0))"
    if "Suc ?k0 \<le> k" "k < Suc ?k0 + n"
    using same [of "k - Suc ?k0"] that by (simp add: Suc_diff_Suc)
  ultimately show ?case using IH step unfolding k0 Let_def by auto
qed (auto simp: Let_def)

section \<open>The line a reader gets\<close>

definition input_line :: "u8 list \<Rightarrow> u8 list" where
  "input_line tb = takeWhile (\<lambda>c. c \<noteq> 0 \<and> c \<noteq> 10) tb"

lemma length_input_line: "length (input_line tb) \<le> length tb"
  by (simp add: input_line_def length_takeWhile_le)

lemma input_line_nth:
  "i < length (input_line tb) \<Longrightarrow> tb ! i = input_line tb ! i \<and> tb ! i \<noteq> 0 \<and> tb ! i \<noteq> 10"
  using takeWhile_nth [of i "\<lambda>c. c \<noteq> 0 \<and> c \<noteq> 10" tb] nth_mem [of i "input_line tb"]
  by (auto simp: input_line_def dest: set_takeWhileD)

lemma input_line_stop:
  "length (input_line tb) < length tb \<Longrightarrow>
   tb ! length (input_line tb) = 0 \<or> tb ! length (input_line tb) = 10"
  using nth_length_takeWhile [of "\<lambda>c. c \<noteq> 0 \<and> c \<noteq> 10" tb] by (auto simp: input_line_def)

lemma terminal_read_loop_line:
  assumes "length tb = 128" and "i \<le> n" and n: "n = min (nat count) (length (input_line tb))"
  shows "terminal_read_loop i count tb buf (store_bytes m buf (take i (input_line tb)))
    = (n, store_bytes m buf (take n (input_line tb)))"
  using assms(2)
proof (induction "n - i" arbitrary: i)
  case 0
  then have i: "i = n" by simp
  have le: "length (input_line tb) \<le> 128" using length_input_line [of tb] assms(1) by simp
  have "\<not> (int n < count \<and> n < 128 \<and> tb ! n \<noteq> 0 \<and> tb ! n \<noteq> 10)"
    using input_line_stop [of tb] assms(1) le n by (auto simp: min_def split: if_splits)
  with i show ?case by (subst terminal_read_loop.simps) (simp only: BUFF_LEN_def if_False)
next
  case (Suc d)
  then have i: "i < n" by simp
  then have len: "i < length (input_line tb)" using n by simp
  note nth = input_line_nth [OF len]
  have "store_bytes m buf (take (Suc i) (input_line tb)) =
      (store_bytes m buf (take i (input_line tb)))(buf + of_nat i := tb ! i)"
    using len nth by (simp add: take_Suc_conv_app_nth store_bytes_append)
  moreover have "terminal_read_loop (i + 1) count tb buf (store_bytes m buf (take (Suc i) (input_line tb)))
      = (n, store_bytes m buf (take n (input_line tb)))"
    using Suc(1) [of "Suc i"] Suc(2) i by simp
  moreover have "int i < count" "i < 128" using i n len length_input_line [of tb] assms(1) by auto
  ultimately show ?case using nth
    by (subst terminal_read_loop.simps) (auto simp: BUFF_LEN_def)
qed

lemma terminal_read_eq:
  fixes s :: "'a term_state_scheme" and count :: int
  assumes "term_ok s" and "enter_flag s \<noteq> 0"
  defines "n \<equiv> min (nat count) (length (input_line (tbuf s)))"
  shows "terminal_read fd buf count s = Some (of_nat (n + 1),
    (new_line True (s\<lparr>mem := store_bytes (mem s) buf (take n (input_line (tbuf s)) @ [10])\<rparr>))\<lparr>enter_flag := 0\<rparr>)"
proof -
  have "terminal_read_loop 0 count (tbuf s) buf (mem s)
      = (n, store_bytes (mem s) buf (take n (input_line (tbuf s))))"
    using terminal_read_loop_line [of "tbuf s" 0 n count buf "mem s"] term_ok_bounds(6) [OF assms(1)]
    by (simp add: n_def)
  moreover have "length (take n (input_line (tbuf s))) = n" by (simp add: n_def)
  ultimately show ?thesis
    using assms(2) by (simp add: terminal_read_def Let_def store_bytes_append)
qed

lemma tbuf_new_line: "term_ok s \<Longrightarrow> tbuf (new_line True s) = replicate 128 0"
proof -
  assume ok: "term_ok s"
  let ?t = "set_ly (cy (move_csr (scroll (set_cx 0 (set_cy (cy s + 1) s)))))
     (move_csr (scroll (set_cx 0 (set_cy (cy s + 1) s))))"
  have "term_below (set_cx 0 (set_cy (cy s + 1) s))"
    using ok term_ok_bounds [OF ok] by (simp add: term_below_def term_ok_def term_base_def list_all_update)
  then have "term_ok (move_csr (scroll (set_cx 0 (set_cy (cy s + 1) s))))" by (simp add: scroll_ok)
  then have "tbuf (clear_buffer ?t) = replicate 128 0" by (intro tbuf_clear_buffer set_ly_cy_ok)
  moreover have "new_line True s = clear_buffer ?t" by (simp add: new_line_def Let_def)
  ultimately show ?thesis by simp
qed

section \<open>Properties\<close>

text \<open>A terminal with the prompt at row 3 and a line typed, for the witnesses.\<close>

definition term_state0 :: term_state where
  "term_state0 = \<lparr>iolog = [], dev = rtc_readback, iflag = True, master_mask = 0, slave_mask = 0,
     file_ops = null_ops, rtc_ops = null_ops, terminal_ops = null_ops, stdin_ops = null_ops,
     stdout_ops = null_ops, rtc_sync_flag = 0, rtc_read_flag = 0, mem = (\<lambda>_. 65),
     terminal_ptr = VIDEO_MEM,
     terminal_buffer = [[108, 115, 10] @ replicate 125 0, replicate 128 0, replicate 128 0],
     buffer_len = [3, 0, 0], csr_x = [2, 0, 0], csr_y = [3, 0, 0], line_y = [3, 0, 0],
     line_beginning = [0, 0, 0], curr_terminal = 0, attrib = 0x0F,
     terminal_info = replicate 3 \<lparr>top_process_id = 0, num_process = 0\<rparr>,
     terminal_memory = [0x1000, 0x2000, 0x3000], enter_flag = 1, ctrl_flag = 0, cap_flag = 0, alt_flag = 0\<rparr>"

lemma user_buffer_off_screen: "i < 4194304 \<Longrightarrow> 4000 \<le> unat (0x8048000 + of_nat i - VIDEO_MEM)"
proof -
  assume i: "i < 4194304"
  have eq: "0x8048000 + of_nat i - VIDEO_MEM = 133758976 + of_nat i" by (simp add: VIDEO_MEM_def)
  show ?thesis unfolding eq using i by (simp add: unat_add32 unat_of_nat32)
qed

lemma term_state0_ok: "term_ok term_state0"
  by (simp add: term_state0_def term_ok_def term_base_def)



text \<open>
  C26: terminal\_write changes no byte outside the 4000 bytes of the screen, and no cursor,
  prompt position or input of a terminal other than the current one, whatever bytes it is
  given and however many.
\<close>

theorem terminal_write_isolated:
  assumes "term_ok s" and "s' = snd (terminal_write fd buf n s)"
  shows "(\<forall>a. 4000 \<le> unat (a - VIDEO_MEM) \<longrightarrow> mem s' a = mem s a)
    \<and> (\<forall>t. t \<noteq> curr_terminal s \<longrightarrow> csr_x s' ! t = csr_x s ! t \<and> csr_y s' ! t = csr_y s ! t
         \<and> line_y s' ! t = line_y s ! t \<and> line_beginning s' ! t = line_beginning s ! t
         \<and> buffer_len s' ! t = buffer_len s ! t \<and> terminal_buffer s' ! t = terminal_buffer s ! t)
    \<and> curr_terminal s' = curr_terminal s \<and> terminal_info s' = terminal_info s"
  using terminal_write_leaves [OF assms(1), of fd buf n] assms(2) by (simp add: leaves_def)

theorem terminal_write_isolated_witness:
  "mem (snd (terminal_write 1 0x8048000 4000 term_state0)) 0x1000 = 65
   \<and> csr_y (snd (terminal_write 1 0x8048000 4000 term_state0)) ! 1 = 0"
proof -
  have "4000 \<le> unat (0x1000 - VIDEO_MEM)" by (simp add: VIDEO_MEM_def)
  then show ?thesis
    using terminal_write_isolated [OF term_state0_ok refl, of 1 "0x8048000" 4000]
    by (simp add: term_state0_def)
qed

text \<open>
  When the cursor has run below the last row, scroll moves every row up by one, clears
  the last row with the current colour, keeps the memory outside the screen and puts the
  cursor at the start of the last row; with the cursor on the screen it changes nothing of
  the screen and the cursor.
\<close>

theorem scroll_shifts_rows:
  assumes "curr_terminal s < length (csr_x s)" and "curr_terminal s < length (csr_y s)"
  shows "(cy s \<ge> 25 \<longrightarrow>
      (\<forall>k < 2000. cell (mem (scroll s)) (terminal_ptr s) k =
         (if k < 1920 then cell (mem s) (terminal_ptr s) (k + 80) else ucast (blank s)))
      \<and> (\<forall>a. 4000 \<le> unat (a - terminal_ptr s) \<longrightarrow> mem (scroll s) a = mem s a)
      \<and> cx (scroll s) = 0 \<and> cy (scroll s) = 24)
    \<and> (cy s < 25 \<longrightarrow> mem (scroll s) = mem s \<and> csr_x (scroll s) = csr_x s \<and> csr_y (scroll s) = csr_y s)"
proof -
  have "cell (mem (scroll s)) (terminal_ptr s) k =
      (if k < 1920 then cell (mem s) (terminal_ptr s) (k + 80) else ucast (blank s))"
    if "cy s \<ge> 25" "k < 2000" for k
  proof (cases "k < 1920")
    case True
    with that scroll_byte [of s "2 * k"] scroll_byte [of s "2 * k + 1"] show ?thesis
      unfolding cell_bytes by (simp add: algebra_simps)
  next
    case False
    have "mem (scroll s) (terminal_ptr s + of_nat (2 * k)) = ucast (ucast (blank s) :: u16)"
      "mem (scroll s) (terminal_ptr s + of_nat (2 * k + 1)) = ucast (drop_bit 8 (ucast (blank s) :: u16))"
      using that False scroll_byte [of s "2 * k"] scroll_byte [of s "2 * k + 1"] by simp_all
    with False show ?thesis unfolding cell_bytes by (simp only: u16_bytes if_False)
  qed
  moreover have "cx (scroll s) = 0 \<and> cy (scroll s) = 24" if "cy s \<ge> 25"
    using that assms by (simp add: scroll_def Let_def HEIGHT_def)
  moreover have "mem (scroll s) = mem s \<and> csr_x (scroll s) = csr_x s \<and> csr_y (scroll s) = csr_y s"
    if "cy s < 25" using that by (simp add: scroll_def Let_def HEIGHT_def)
  ultimately show ?thesis using scroll_outside by blast
qed

theorem scroll_shifts_rows_witness:
  "cell (mem (scroll (set_cy 25 term_state0))) VIDEO_MEM 1999 = 0x0F20"
proof -
  let ?s = "set_cy 25 term_state0"
  have "blank ?s = 0x0F20" by (simp add: blank_def term_state0_def)
  moreover have "curr_terminal ?s < length (csr_x ?s)" "curr_terminal ?s < length (csr_y ?s)"
      "25 \<le> cy ?s" "terminal_ptr ?s = VIDEO_MEM"
    by (simp_all add: term_state0_def)
  ultimately show ?thesis using scroll_shifts_rows [of ?s] by auto
qed

text \<open>
  Writing printable text that fits on the current row puts its characters, in order and
  in the current colour, into the cells from the cursor on, leaves every other cell, moves
  the cursor behind the text and returns the number of characters.
\<close>

theorem terminal_write_text:
  assumes "term_ok s" and "buf \<noteq> 0" and "cx s + int n < 80" and "k < 2000"
    and "\<forall>i < n. mem s (buf + of_nat i) \<ge> 32 \<and> 4000 \<le> unat (buf + of_nat i - VIDEO_MEM)"
    and "k0 = nat (cy s * 80 + cx s)"
  shows "\<exists>s'. terminal_write fd buf (int n) s = (of_nat n, s')
    \<and> cell (mem s') VIDEO_MEM k =
        (if k0 \<le> k \<and> k < k0 + n then ucast (ucast (mem s (buf + of_nat (k - k0))) OR push_bit 8 (attrib s))
         else cell (mem s) VIDEO_MEM k)
    \<and> cx s' = cx s + int n \<and> cy s' = cy s"
  using terminal_write_loop_row [of s n buf k] assms by (simp add: terminal_write_def Let_def)

theorem terminal_write_text_witness:
  "\<exists>s'. terminal_write 1 0x8048000 5 term_state0 = (5, s') \<and> cell (mem s') VIDEO_MEM 244 = 0x0F41
    \<and> cx s' = 7"
proof -
  have "\<forall>i < 5. mem term_state0 (0x8048000 + of_nat i) \<ge> 32
      \<and> 4000 \<le> unat (0x8048000 + of_nat i - VIDEO_MEM)"
    using user_buffer_off_screen by (simp add: term_state0_def)
  from terminal_write_text [OF term_state0_ok _ _ _ this, of 244 242 1] show ?thesis
    by (auto simp: term_state0_def)
qed

lemma terminal_read_run:
  assumes "term_ok s" and "line = input_line (tbuf s)" and "n = min (nat count) (length line)"
    and "\<forall>i \<le> n. 4000 \<le> unat (buf + of_nat i - VIDEO_MEM)" and "enter_flag s \<noteq> 0"
  shows "\<exists>s'. terminal_read fd buf count s = Some (of_nat (n + 1), s')
    \<and> load_bytes (mem s') buf (n + 1) = take n line @ [10]
    \<and> tbuf s' = replicate 128 0 \<and> blen s' = 0 \<and> enter_flag s' = 0 \<and> term_ok s'"
proof -
  let ?bs = "take n line @ [10]"
  let ?t = "s\<lparr>mem := store_bytes (mem s) buf ?bs\<rparr>"
  let ?u = "(new_line True ?t)\<lparr>enter_flag := 0\<rparr>"
  have ok: "term_ok ?t" using assms(1) by (simp add: term_ok_def term_base_def)
  have len: "length ?bs = n + 1" using assms(3) by simp
  have "length line \<le> 128"
    using length_input_line [of "tbuf s"] term_ok_bounds(6) [OF assms(1)] assms(2) by simp
  then have small: "length ?bs < 4294967296" using len assms(3) by simp
  have "load_bytes (mem ?u) buf (n + 1) = load_bytes (store_bytes (mem s) buf ?bs) buf (n + 1)"
    using new_line_leaves [of ?t True] term_ok_ptr [OF ok] assms(4)
    by (intro load_bytes_cong) (simp add: leaves_def)
  then have "load_bytes (mem ?u) buf (n + 1) = ?bs"
    using load_store_bytes [OF small, of "mem s" buf] len by simp
  moreover have "tbuf ?u = replicate 128 0" using tbuf_new_line [OF ok] by simp
  moreover have "blen ?u = 0" using assms(1) by (simp add: term_ok_def term_base_def)
  moreover have "term_ok ?u" using new_line_ok [OF ok, of True] by (simp add: term_ok_def term_base_def)
  moreover have "terminal_read fd buf count s = Some (of_nat (n + 1), ?u)"
    using terminal_read_eq [OF assms(1,5), of fd buf count] assms(2,3) by simp
  ultimately show ?thesis by simp
qed

text \<open>
  A read of the terminal that finds a line returns it: the characters typed before the
  newline, at most as many as asked for, followed by a newline; the count returned includes
  it. The input is empty and the enter flag clear afterwards. Without a line it waits.
\<close>

theorem terminal_read_line:
  assumes "term_ok s" and "line = input_line (tbuf s)" and "n = min (nat count) (length line)"
    and "\<forall>i \<le> n. 4000 \<le> unat (buf + of_nat i - VIDEO_MEM)"
  shows "(enter_flag s = 0 \<longrightarrow> terminal_read fd buf count s = None)
    \<and> (enter_flag s \<noteq> 0 \<longrightarrow> (\<exists>s'. terminal_read fd buf count s = Some (of_nat (n + 1), s')
         \<and> load_bytes (mem s') buf (n + 1) = take n line @ [10]
         \<and> tbuf s' = replicate 128 0 \<and> blen s' = 0 \<and> enter_flag s' = 0 \<and> term_ok s'))"
  using terminal_read_run [OF assms, of fd] by (auto simp: terminal_read_def)

theorem terminal_read_line_witness:
  "\<exists>s'. terminal_read 0 0x8048000 128 term_state0 = Some (3, s')
    \<and> load_bytes (mem s') 0x8048000 3 = [108, 115, 10]"
proof -
  have line: "input_line (tbuf term_state0) = [108, 115]"
    by (simp add: term_state0_def input_line_def)
  have "\<forall>i \<le> 2. 4000 \<le> unat (0x8048000 + of_nat i - VIDEO_MEM)"
    using user_buffer_off_screen by simp
  moreover have "enter_flag term_state0 \<noteq> 0" by (simp add: term_state0_def)
  ultimately show ?thesis
    using terminal_read_line [OF term_state0_ok refl, of 2 128 "0x8048000" 0] by (auto simp: line)
qed

end
