(* ===== verification/Kud_Pcb.thy ===== *)
theory Kud_Pcb
  imports Kud_Terminal
begin

unbundle bit_operations_syntax

text \<open>
  Process control blocks, \<^verbatim>\<open>student-distrib/pcb.c\<close> and \<^verbatim>\<open>pcb.h\<close>. The array
  \<^verbatim>\<open>pcbs\<close> is a list of seven records; a \<^verbatim>\<open>pcb_t*\<close> is an index into it, and
  \<^verbatim>\<open>current_pcb\<close> is \<open>None\<close> while it is null. The two character arrays of a block are
  reached through pointers by the string routines, so they live in the byte memory, at the
  offsets the compiler gives them inside the block (\<open>pcbs_at\<close> and \<open>ops_at\<close> are the
  addresses the linker gives the array and the driver tables). The other fields are only
  accessed by name and are record fields.
\<close>

section \<open>State\<close>

record fs_descriptor =
  fd_ops :: ops_ref
  inode_ptr :: u32
  file_position :: u32
  flags :: int

record pcb =
  file_array :: "fs_descriptor list"
  program_id :: u32
  parent_id :: u32
  address :: u32
  esp :: u32
  ebp :: u32
  last_eip :: u32
  esp0 :: u8
  process_terminal :: int

record pcb_state = term_state +
  pcbs :: "pcb list"
  current_pcb :: "nat option"
  process_number :: u32
  pcbs_at :: u32
  ops_at :: "ops_ref \<Rightarrow> u32"

definition MAX_PROCESSES :: nat where "MAX_PROCESSES = 7"
definition FD_MIN_IDX :: nat where "FD_MIN_IDX = 2"
definition FD_MAX_IDX :: nat where "FD_MAX_IDX = 7"
definition KERNEL_STACK_OFFSET :: u32 where "KERNEL_STACK_OFFSET = 0x2000"
definition KERNEL_STACK :: u32 where "KERNEL_STACK = 0x00800000"
definition FD_SIZE :: nat where "FD_SIZE = 618"

text \<open>The layout of a block: 128 bytes of descriptors, six words, a byte, the two strings.\<close>

definition SIZEOF_PCB :: nat where "SIZEOF_PCB = 416"

definition pcb_at :: "'a pcb_state_scheme \<Rightarrow> nat \<Rightarrow> u32" where
  "pcb_at s i = pcbs_at s + of_nat (SIZEOF_PCB * i)"

definition cmd_name :: "'a pcb_state_scheme \<Rightarrow> nat \<Rightarrow> u32" where
  "cmd_name s i = pcb_at s i + 153"

definition cmd_args :: "'a pcb_state_scheme \<Rightarrow> nat \<Rightarrow> u32" where
  "cmd_args s i = pcb_at s i + 281"

definition le32 :: "u32 \<Rightarrow> u8 list" where
  "le32 v = [ucast v, ucast (drop_bit 8 v), ucast (drop_bit 16 v), ucast (drop_bit 24 v)]"

definition fd_image :: "'a pcb_state_scheme \<Rightarrow> fs_descriptor \<Rightarrow> u8 list" where
  "fd_image s d = le32 (ops_at s (fd_ops d)) @ le32 (inode_ptr d) @ le32 (file_position d)
     @ le32 (of_int (flags d))"

definition pcb_image :: "'a pcb_state_scheme \<Rightarrow> nat \<Rightarrow> u8 list" where
  "pcb_image s i =
     (let p = pcbs s ! i in
      concat (map (fd_image s) (file_array p)) @ le32 (program_id p) @ le32 (parent_id p)
      @ le32 (address p) @ le32 (esp p) @ le32 (ebp p) @ le32 (last_eip p) @ [esp0 p]
      @ load_bytes (mem s) (pcb_at s i + 153) 259 @ le32 (of_int (process_terminal p)))"

section \<open>The operations\<close>

definition upd_pcb :: "nat \<Rightarrow> (pcb \<Rightarrow> pcb) \<Rightarrow> 'a pcb_state_scheme \<Rightarrow> 'a pcb_state_scheme" where
  "upd_pcb i f s = s\<lparr>pcbs := (pcbs s)[i := f (pcbs s ! i)]\<rparr>"

definition set_fd :: "nat \<Rightarrow> fs_descriptor \<Rightarrow> pcb \<Rightarrow> pcb" where
  "set_fd fd d p = p\<lparr>file_array := (file_array p)[fd := d]\<rparr>"

fun find_free_pcb_from :: "pcb list \<Rightarrow> nat \<Rightarrow> u32" where
  "find_free_pcb_from [] i = minus_one"
| "find_free_pcb_from (p # ps) i = (if program_id p = 0 then of_nat i else find_free_pcb_from ps (i + 1))"

definition find_free_pcb :: "'a pcb_state_scheme \<Rightarrow> u32" where
  "find_free_pcb s = find_free_pcb_from (tl (pcbs s)) 1"

definition get_new_pcb :: "'a pcb_state_scheme \<Rightarrow> u32" where
  "get_new_pcb s = find_free_pcb s"

definition get_cur_pcb :: "'a pcb_state_scheme \<Rightarrow> nat option" where
  "get_cur_pcb s = current_pcb s"

definition get_kernel_stack_ptr :: "u32 \<Rightarrow> u32" where
  "get_kernel_stack_ptr pid = KERNEL_STACK - (pid - 1) * KERNEL_STACK_OFFSET"

partial_function (option) get_top_pcb_from :: "pcb list \<Rightarrow> nat \<Rightarrow> nat option" where
  "get_top_pcb_from ps i =
     (if \<not> i < length ps then None
      else if parent_id (ps ! i) \<noteq> 0 then get_top_pcb_from ps (unat (parent_id (ps ! i)))
      else Some i)"

definition get_top_pcb :: "'a pcb_state_scheme \<Rightarrow> nat option" where
  "get_top_pcb s = (case get_cur_pcb s of None \<Rightarrow> None | Some i \<Rightarrow> get_top_pcb_from (pcbs s) i)"

text \<open>
  The copy of the block to \<^verbatim>\<open>(uint32_t*)address - KERNEL_STACK_OFFSET\<close>: the subtraction
  counts words, so the target is 0x8000 bytes below the stack top, and \<^verbatim>\<open>FD_SIZE\<close> is
  larger than the block, so the bytes of the following block are copied too.
\<close>

definition pcb_raw :: "'a pcb_state_scheme \<Rightarrow> nat \<Rightarrow> u8 list" where
  "pcb_raw s i = take FD_SIZE (concat (map (pcb_image s) [i..<MAX_PROCESSES])
     @ load_bytes (mem s) (pcb_at s MAX_PROCESSES) FD_SIZE)"

definition pcb_init :: "nat \<Rightarrow> 'a pcb_state_scheme \<Rightarrow> int \<times> 'a pcb_state_scheme" where
  "pcb_init i s =
     (let s = upd_pcb i (set_fd 0 \<lparr>fd_ops = Ops_stdin, inode_ptr = 0, file_position = 0, flags = 1\<rparr>) s;
          s = upd_pcb i (set_fd 1 \<lparr>fd_ops = Ops_stdout, inode_ptr = 0, file_position = 0, flags = 1\<rparr>) s;
          id = find_free_pcb s;
          s = upd_pcb i (\<lambda>p. p\<lparr>program_id := id, last_eip := 0\<rparr>) s;
          t = curr_terminal s;
          s = upd_pcb i (\<lambda>p. p\<lparr>process_terminal := int t\<rparr>) s;
          s = s\<lparr>terminal_info := (terminal_info s)
                  [t := \<lparr>top_process_id = id, num_process = num_process (terminal_info s ! t) + 1\<rparr>]\<rparr>;
          a = get_kernel_stack_ptr id;
          s = upd_pcb i (\<lambda>p. p\<lparr>address := a, esp := a, ebp := a, esp0 := ucast a, parent_id := 0\<rparr>) s;
          s = s\<lparr>mem := store_bytes (mem s) (a - 4 * KERNEL_STACK_OFFSET) (pcb_raw s i)\<rparr>;
          s = s\<lparr>current_pcb := Some i\<rparr>
      in (0, s))"

definition pcb_destroy :: "nat \<Rightarrow> 'a pcb_state_scheme \<Rightarrow> int \<times> 'a pcb_state_scheme" where
  "pcb_destroy i s =
     (let parent = parent_id (pcbs s ! i);
          t = curr_terminal s;
          s = s\<lparr>process_number := process_number s - 1\<rparr>;
          s = s\<lparr>terminal_info := (terminal_info s)
                  [t := \<lparr>top_process_id = parent, num_process = num_process (terminal_info s ! t) - 1\<rparr>]\<rparr>;
          s = s\<lparr>current_pcb := Some (unat parent)\<rparr>;
          s = upd_pcb i (\<lambda>p. p\<lparr>process_terminal := - 1, program_id := 0, parent_id := 0, address := 0,
                              esp := 0, ebp := 0, esp0 := 0\<rparr>) s
      in (0, s))"

definition remove_fd :: "nat \<Rightarrow> u8 \<Rightarrow> 'a pcb_state_scheme \<Rightarrow> int \<times> 'a pcb_state_scheme" where
  "remove_fd i fd s =
     (if unat fd < FD_MIN_IDX then (- 1, s)
      else if unat fd > FD_MAX_IDX then (- 1, s)
      else (0, upd_pcb i (\<lambda>p. set_fd (unat fd) ((file_array p ! unat fd)\<lparr>fd_ops := Ops_null\<rparr>) p) s))"

fun find_free_fd_from :: "fs_descriptor list \<Rightarrow> nat \<Rightarrow> int" where
  "find_free_fd_from [] i = - 1"
| "find_free_fd_from (d # ds) i = (if fd_ops d = Ops_null then int i else find_free_fd_from ds (i + 1))"

definition find_free_fd :: "nat \<Rightarrow> 'a pcb_state_scheme \<Rightarrow> int" where
  "find_free_fd i s =
     find_free_fd_from (drop FD_MIN_IDX (take (FD_MAX_IDX + 1) (file_array (pcbs s ! i)))) FD_MIN_IDX"

end
