(* ===== verification/Kud_String.thy ===== *)
theory Kud_String
  imports Kud_Mem
begin

unbundle bit_operations_syntax

text \<open>
  The string routines of \<^verbatim>\<open>student-distrib/lib.c\<close>: strlen, strrev, strncmp, strcpy,
  strncpy and itoa, on byte memory. A loop that stops at a terminator runs for ever on
  memory without one; such loops are \<^theory_text>\<open>partial_function (option)\<close>, and
  \<open>None\<close> is "no defined result". The lemmas show that they return on every
  NUL-terminated string, and what they return.
\<close>

section \<open>Strings in memory\<close>

definition cstring :: "mem \<Rightarrow> u32 \<Rightarrow> u8 list \<Rightarrow> bool" where
  "cstring m s xs \<longleftrightarrow> load_bytes m s (length xs) = xs \<and> 0 \<notin> set xs
     \<and> m (s + of_nat (length xs)) = 0 \<and> length xs < 4294967296"

text \<open>The characters before a terminator among the first \<open>n\<close> bytes.\<close>

definition strn :: "mem \<Rightarrow> u32 \<Rightarrow> nat \<Rightarrow> u8 list" where
  "strn m s n = takeWhile (\<lambda>c. c \<noteq> 0) (load_bytes m s n)"

lemma strn_0 [simp]: "strn m s 0 = []"
  by (simp add: strn_def)

lemma strn_Suc:
  "strn m s (Suc n) = (if m s = 0 then [] else m s # strn m (s + 1) n)"
  by (simp add: strn_def load_bytes_Suc)

lemma length_strn_le: "length (strn m s n) \<le> n"
  unfolding strn_def using length_takeWhile_le [of _ "load_bytes m s n"] by simp

lemma cstring_nth: "cstring m s xs \<Longrightarrow> i < length xs \<Longrightarrow> m (s + of_nat i) = xs ! i"
  unfolding cstring_def by (metis nth_load_bytes)

lemma cstring_nonzero: "cstring m s xs \<Longrightarrow> i < length xs \<Longrightarrow> m (s + of_nat i) \<noteq> 0"
  by (metis cstring_def cstring_nth nth_mem)

lemma cstring_end: "cstring m s xs \<Longrightarrow> m (s + of_nat (length xs)) = 0"
  by (simp add: cstring_def)

lemma cstring_Cons:
  "cstring m s (x # xs) \<longleftrightarrow> m s = x \<and> x \<noteq> 0 \<and> cstring m (s + 1) xs \<and> Suc (length xs) < 4294967296"
  by (auto simp: cstring_def load_bytes_Suc algebra_simps)

lemma cstring_Nil: "cstring m s [] \<longleftrightarrow> m s = 0"
  by (simp add: cstring_def)

lemma strn_cstring: "cstring m s xs \<Longrightarrow> strn m s n = take n xs"
proof (induction xs arbitrary: s n)
  case Nil
  then show ?case by (cases n) (simp_all add: cstring_Nil strn_Suc)
next
  case (Cons x xs)
  then show ?case by (cases n) (auto simp: cstring_Cons strn_Suc)
qed

lemma cstringI:
  assumes "\<And>i. i < length xs \<Longrightarrow> m (s + of_nat i) = xs ! i" and "0 \<notin> set xs"
    and "m (s + of_nat (length xs)) = 0" and "length xs < 4294967296"
  shows "cstring m s xs"
  unfolding cstring_def using assms by (auto intro: nth_equalityI)

lemma cstring_cong:
  assumes "\<And>k. k \<le> length xs \<Longrightarrow> m' (s + of_nat k) = m (s + of_nat k)"
  shows "cstring m' s xs = cstring m s xs"
proof -
  have "load_bytes m' s (length xs) = load_bytes m s (length xs)"
    by (rule load_bytes_cong) (simp add: assms)
  moreover have "m' (s + of_nat (length xs)) = m (s + of_nat (length xs))"
    by (simp add: assms)
  ultimately show ?thesis by (simp add: cstring_def)
qed

section \<open>strlen\<close>

partial_function (option) strlen_loop :: "mem \<Rightarrow> u32 \<Rightarrow> u32 \<Rightarrow> u32 option" where
  "strlen_loop m s len = (if m (s + len) \<noteq> 0 then strlen_loop m s (len + 1) else Some len)"

definition strlen :: "mem \<Rightarrow> u32 \<Rightarrow> u32 option" where
  "strlen m s = strlen_loop m s 0"

lemma strlen_loop_cstring:
  "cstring m (s + len) xs \<Longrightarrow> strlen_loop m s len = Some (len + of_nat (length xs))"
proof (induction xs arbitrary: len)
  case Nil
  then show ?case by (subst strlen_loop.simps) (simp add: cstring_Nil)
next
  case (Cons x xs)
  then have "strlen_loop m s (len + 1) = Some (len + 1 + of_nat (length xs))"
    by (intro Cons.IH) (simp add: cstring_Cons algebra_simps)
  with Cons.prems show ?case
    by (subst strlen_loop.simps) (simp add: cstring_Cons algebra_simps)
qed

lemma strlen_cstring: "cstring m s xs \<Longrightarrow> strlen m s = Some (of_nat (length xs))"
  using strlen_loop_cstring [of m s 0 xs] by (simp add: strlen_def)

section \<open>strncmp, strcpy, strncpy\<close>

text \<open>
  \<^verbatim>\<open>int8_t\<close> is \<^verbatim>\<open>char\<close>, signed on this target, so the difference is taken
  between signed bytes. The first argument counts the bytes still to compare.
\<close>

fun strncmp_loop :: "nat \<Rightarrow> mem \<Rightarrow> u32 \<Rightarrow> u32 \<Rightarrow> int" where
  "strncmp_loop 0 m s1 s2 = 0"
| "strncmp_loop (Suc k) m s1 s2 =
     (if m s1 \<noteq> m s2 \<or> m s1 = 0 then sint (m s1) - sint (m s2)
      else strncmp_loop k m (s1 + 1) (s2 + 1))"

definition strncmp :: "mem \<Rightarrow> u32 \<Rightarrow> u32 \<Rightarrow> u32 \<Rightarrow> int" where
  "strncmp m s1 s2 n = strncmp_loop (unat n) m s1 s2"

lemma strncmp_loop_eq_0: "strncmp_loop n m s1 s2 = 0 \<longleftrightarrow> strn m s1 n = strn m s2 n"
proof (induction n arbitrary: s1 s2)
  case (Suc n)
  have "sint (m s1) - sint (m s2) = 0 \<longleftrightarrow> m s1 = m s2" by (auto dest: signed_word_eqI)
  with Suc show ?case by (auto simp: strn_Suc)
qed simp

partial_function (option) strcpy_loop :: "mem \<Rightarrow> u32 \<Rightarrow> u32 \<Rightarrow> u32 \<Rightarrow> mem option" where
  "strcpy_loop m dest src i =
     (if m (src + i) \<noteq> 0 then strcpy_loop (m(dest + i := m (src + i))) dest src (i + 1)
      else Some (m(dest + i := 0)))"

definition strcpy :: "mem \<Rightarrow> u32 \<Rightarrow> u32 \<Rightarrow> mem option" where
  "strcpy m dest src = strcpy_loop m dest src 0"

lemma strcpy_loop_copied:
  "cstring m (src + i) xs \<Longrightarrow> forward_ok dest src (Suc (length xs)) \<Longrightarrow> Suc (length xs) < 4294967296 \<Longrightarrow>
   strcpy_loop m dest src i = Some (copied m (dest + i) (src + i) (Suc (length xs)))"
proof (induction xs arbitrary: m i)
  case Nil
  then show ?case
    by (subst strcpy_loop.simps) (simp add: cstring_Nil copied_filled filled_1)
next
  case (Cons x xs)
  let ?m = "m(dest + i := m (src + i))"
  have ok: "forward_ok (dest + i) (src + i) (Suc (length (x # xs)))" using Cons.prems(2) by simp
  have "?m (src + (i + 1) + of_nat k) = m (src + (i + 1) + of_nat k)" if "k \<le> length xs" for k
  proof -
    have "unat (of_nat (Suc k) :: u32) = Suc k"
      by (rule unat_of_nat32) (use Cons.prems(3) that in simp)
    with Cons.prems(2) that have "dest - src \<noteq> of_nat (Suc k)"
      by (auto simp: forward_ok_def simp del: of_nat_Suc)
    then show ?thesis by (auto simp: algebra_simps)
  qed
  then have "cstring ?m (src + (i + 1)) xs = cstring m (src + (i + 1)) xs"
    by (rule cstring_cong)
  then have "cstring ?m (src + (i + 1)) xs"
    using Cons.prems(1) by (simp add: cstring_Cons add.assoc)
  then have "strcpy_loop ?m dest src (i + 1) =
      Some (copied ?m (dest + (i + 1)) (src + (i + 1)) (Suc (length xs)))"
    by (rule Cons.IH) (use Cons.prems in \<open>auto intro: forward_ok_mono\<close>)
  moreover have "copied ?m (dest + i + 1) (src + i + 1) (Suc (length xs))
      = copied m (dest + i) (src + i) (Suc (length (x # xs)))"
    using copied_Suc [OF ok] Cons.prems(3) by simp
  ultimately show ?case
    using Cons.prems(1) by (subst strcpy_loop.simps) (simp add: cstring_Cons add.assoc)
qed

fun strncpy_fill :: "nat \<Rightarrow> mem \<Rightarrow> u32 \<Rightarrow> mem" where
  "strncpy_fill 0 m dest = m"
| "strncpy_fill (Suc k) m dest = strncpy_fill k (m(dest := 0)) (dest + 1)"

text \<open>
  The copying loop reads \<^verbatim>\<open>src[i]\<close> before it tests \<^verbatim>\<open>i < n\<close>; once the count is used
  up the result no longer depends on that byte.
\<close>

fun strncpy_loop :: "nat \<Rightarrow> mem \<Rightarrow> u32 \<Rightarrow> u32 \<Rightarrow> mem" where
  "strncpy_loop 0 m dest src = m"
| "strncpy_loop (Suc k) m dest src =
     (if m src \<noteq> 0 then strncpy_loop k (m(dest := m src)) (dest + 1) (src + 1)
      else strncpy_fill (Suc k) m dest)"

definition strncpy :: "mem \<Rightarrow> u32 \<Rightarrow> u32 \<Rightarrow> u32 \<Rightarrow> mem" where
  "strncpy m dest src n = strncpy_loop (unat n) m dest src"

lemma strncpy_fill_filled: "n < 4294967296 \<Longrightarrow> strncpy_fill n m d = filled m d n (\<lambda>_. 0)"
proof (induction n arbitrary: m d)
  case (Suc n)
  then show ?case using filled_Suc [of n m d "\<lambda>_. 0"] by simp
qed simp


lemma strncpy_loop_filled:
  "n < 4294967296 \<Longrightarrow> forward_ok d s n \<Longrightarrow>
   strncpy_loop n m d s = filled m d n (\<lambda>i. if i < length (strn m s n) then strn m s n ! i else 0)"
proof (induction n arbitrary: m d s)
  case 0
  then show ?case by simp
next
  case (Suc n)
  show ?case
  proof (cases "m s = 0")
    case True
    with Suc.prems show ?thesis
      by (simp add: strn_Suc filled_Suc [symmetric] strncpy_fill_filled)
  next
    case False
    let ?m = "m(d := m s)"
    have "?m (s + 1 + of_nat k) = m (s + 1 + of_nat k)" if "k < n" for k
    proof -
      have "unat (of_nat (Suc k) :: u32) = Suc k"
        by (rule unat_of_nat32) (use Suc.prems(1) that in simp)
      with Suc.prems(2) that have "d - s \<noteq> of_nat (Suc k)"
        by (auto simp: forward_ok_def simp del: of_nat_Suc)
      then show ?thesis by (auto simp: algebra_simps)
    qed
    then have "load_bytes ?m (s + 1) n = load_bytes m (s + 1) n"
      by (rule load_bytes_cong)
    then have str: "strn ?m (s + 1) n = strn m (s + 1) n" by (simp only: strn_def)
    have "forward_ok (d + 1) (s + 1) n"
      using Suc.prems(2) by (auto intro: forward_ok_mono)
    then have "strncpy_loop n ?m (d + 1) (s + 1) =
       filled ?m (d + 1) n (\<lambda>i. if i < length (strn ?m (s + 1) n) then strn ?m (s + 1) n ! i else 0)"
      by (rule Suc.IH [rotated]) (use Suc.prems(1) in simp)
    with False have "strncpy_loop (Suc n) m d s =
       filled ?m (d + 1) n (\<lambda>i. if i < length (strn m (s + 1) n) then strn m (s + 1) n ! i else 0)"
      unfolding str by simp
    also have "\<dots> = filled m d (Suc n)
        (\<lambda>i. if i < length (strn m s (Suc n)) then strn m s (Suc n) ! i else 0)"
      using False Suc.prems(1) by (subst filled_Suc [symmetric])
        (auto simp: strn_Suc intro: filled_cong)
    finally show ?thesis .
  qed
qed

section \<open>strrev\<close>

text \<open>\<open>beg\<close> and \<open>end\<close> are \<^verbatim>\<open>int32_t\<close>; for the empty string \<open>end\<close> is \<open>-1\<close>.\<close>

function strrev_loop :: "mem \<Rightarrow> u32 \<Rightarrow> int \<Rightarrow> int \<Rightarrow> mem" where
  "strrev_loop m s b e =
     (if b < e
      then let tmp = m (s + of_int e) in
           strrev_loop (m(s + of_int e := m (s + of_int b), s + of_int b := tmp)) s (b + 1) (e - 1)
      else m)"
  by pat_completeness auto
termination
  by (relation "measure (\<lambda>(m, s, b, e). nat (e - b))") auto

declare strrev_loop.simps [simp del]

definition strrev :: "mem \<Rightarrow> u32 \<Rightarrow> mem option" where
  "strrev m s = (case strlen m s of None \<Rightarrow> None
     | Some len \<Rightarrow> Some (strrev_loop m s 0 (sint (len - 1))))"

lemma of_int32_inj:
  "0 \<le> i \<Longrightarrow> i < 4294967296 \<Longrightarrow> 0 \<le> j \<Longrightarrow> j < 4294967296 \<Longrightarrow>
   ((of_int i :: u32) = of_int j) = (i = j)"
  using of_nat32_inj [of "nat i" "nat j"] by (auto simp: nat_eq_iff)

text \<open>The loop mirrors the bytes at offsets \<open>b\<close> to \<open>e\<close> and touches no others.\<close>

lemma strrev_loop_at:
  "0 \<le> b \<Longrightarrow> e < 2147483648 \<Longrightarrow> 0 \<le> i \<Longrightarrow> i < 4294967296 \<Longrightarrow>
   strrev_loop m s b e (s + of_int i) =
     (if b \<le> i \<and> i \<le> e then m (s + of_int (b + e - i)) else m (s + of_int i))"
proof (induction m s b e arbitrary: i rule: strrev_loop.induct)
  case (1 m s b e)
  show ?case
  proof (cases "b < e")
    case False
    then have "m (s + of_int (b + e - i)) = m (s + of_int i)" if "b \<le> i \<and> i \<le> e"
      using that by (subgoal_tac "b + e - i = i") (simp only:, linarith)
    with False show ?thesis by (simp only: strrev_loop.simps [of m s b e] if_False) metis
  next
    case True
    let ?m = "m(s + of_int e := m (s + of_int b), s + of_int b := m (s + of_int e))"
    have "strrev_loop m s b e (s + of_int i) = strrev_loop ?m s (b + 1) (e - 1) (s + of_int i)"
      using True by (simp add: strrev_loop.simps [of m s b e])
    also have "\<dots> = (if b + 1 \<le> i \<and> i \<le> e - 1
        then ?m (s + of_int (b + 1 + (e - 1) - i)) else ?m (s + of_int i))"
      by (rule "1.IH" [OF True refl]) (use True "1.prems" in auto)
    also have "b + 1 + (e - 1) - i = b + e - i" by simp
    also have "(if b + 1 \<le> i \<and> i \<le> e - 1 then ?m (s + of_int (b + e - i)) else ?m (s + of_int i))
        = (if b \<le> i \<and> i \<le> e then m (s + of_int (b + e - i)) else m (s + of_int i))"
      using True "1.prems" by (auto simp: of_int32_inj simp del: of_int_add of_int_diff)
    finally show ?thesis .
  qed
qed

lemma strrev_loop_nat:
  assumes "n < 2147483648" and "k < 4294967296"
  shows "strrev_loop m s 0 (int n - 1) (s + of_nat k) =
     (if k < n then m (s + of_nat (n - 1 - k)) else m (s + of_nat k))"
proof (cases "k < n")
  case True
  then have "0 + (int n - 1) - int k = int (n - 1 - k)" by simp
  with True show ?thesis
    using strrev_loop_at [of 0 "int n - 1" "int k" m s] assms
    by (simp only: of_int_of_nat_eq) simp
next
  case False
  then show ?thesis
    using strrev_loop_at [of 0 "int n - 1" "int k" m s] assms by simp
qed

lemma strrev_cstring:
  assumes "cstring m s xs" and "length xs < 2147483648"
  shows "\<exists>m'. strrev m s = Some m' \<and> cstring m' s (rev xs)
    \<and> (\<forall>a. length xs \<le> unat (a - s) \<longrightarrow> m' a = m a)"
proof -
  let ?n = "length xs"
  let ?m = "strrev_loop m s 0 (int ?n - 1)"
  have "sint (of_nat ?n - 1 :: u32) = int ?n - 1"
  proof (cases ?n)
    case (Suc k)
    with assms(2) show ?thesis
      by (simp add: signed_of_nat signed_take_bit_int_eq_self)
  qed simp
  then have "strrev m s = Some ?m"
    by (simp add: strrev_def strlen_cstring [OF assms(1)])
  moreover have "?m a = m a" if "?n \<le> unat (a - s)" for a
    using strrev_loop_nat [OF assms(2) unat_lt32 [of "a - s"], of m s] that by simp
  moreover have "cstring ?m s (rev xs)"
    using assms cstring_nth [OF assms(1)]
    by (intro cstringI)
       (auto simp: strrev_loop_nat rev_nth cstring_end [OF assms(1)] cstring_def simp del: of_nat_diff)
  ultimately show ?thesis by blast
qed

section \<open>itoa\<close>

definition itoa_lookup :: "u8 list" where
  "itoa_lookup = bytes ''0123456789ABCDEFGHIJKLMNOPQRSTUVWXYZ'' @ [0]"

text \<open>
  \<^verbatim>\<open>newval % radix\<close> and \<^verbatim>\<open>newval /= radix\<close> are unsigned. A zero radix is a divide
  error, a digit beyond the table an out-of-range read: both are \<open>None\<close>, as is the
  loop that never ends for radix 1.
\<close>

partial_function (option) itoa_loop :: "mem \<Rightarrow> u32 \<Rightarrow> u32 \<Rightarrow> u32 \<Rightarrow> (mem \<times> u32) option" where
  "itoa_loop m newval newbuf radix =
     (if newval > 0
      then if radix = 0 \<or> unat (newval mod radix) \<ge> length itoa_lookup then None
           else itoa_loop (m(newbuf := itoa_lookup ! unat (newval mod radix)))
                  (newval div radix) (newbuf + 1) radix
      else Some (m, newbuf))"

definition itoa :: "mem \<Rightarrow> u32 \<Rightarrow> u32 \<Rightarrow> u32 \<Rightarrow> mem option" where
  "itoa m val buf radix =
     (if val = 0 then Some (m(buf := 48, buf + 1 := 0))
      else case itoa_loop m val buf radix of
             None \<Rightarrow> None
           | Some (m', newbuf) \<Rightarrow> strrev (m'(newbuf := 0)) buf)"

text \<open>The digits, least significant first, and the number a numeral denotes.\<close>

fun ldigits :: "nat \<Rightarrow> nat \<Rightarrow> nat list" where
  "ldigits r v = (if v = 0 \<or> r < 2 then [] else v mod r # ldigits r (v div r))"

declare ldigits.simps [simp del]

definition digit_val :: "u8 \<Rightarrow> nat" where
  "digit_val c = (if unat c < 65 then unat c - 48 else unat c - 55)"

definition numeral_val :: "nat \<Rightarrow> u8 list \<Rightarrow> nat" where
  "numeral_val r xs = foldl (\<lambda>acc c. acc * r + digit_val c) 0 xs"

lemma itoa_lookup_all:
  "list_all (\<lambda>d. digit_val (itoa_lookup ! d) = d \<and> itoa_lookup ! d \<noteq> 0) [0..<36]"
  by code_simp

lemma itoa_lookup_digit: "d < 36 \<Longrightarrow> digit_val (itoa_lookup ! d) = d \<and> itoa_lookup ! d \<noteq> 0"
  using itoa_lookup_all by (auto simp: list_all_iff)

lemma length_itoa_lookup [simp]: "length itoa_lookup = 37"
  by (simp add: itoa_lookup_def bytes_def)


lemma ldigits_0 [simp]: "ldigits r 0 = []"
  by (simp add: ldigits.simps)

lemma ldigits_pos: "2 \<le> r \<Longrightarrow> 0 < v \<Longrightarrow> ldigits r v = v mod r # ldigits r (v div r)"
  by (simp add: ldigits.simps [of r v])

lemma ldigits_val: "2 \<le> r \<Longrightarrow> foldr (\<lambda>d acc. acc * r + d) (ldigits r v) 0 = v"
proof (induction r v rule: ldigits.induct)
  case (1 r v)
  then show ?case by (cases "v = 0") (auto simp: ldigits_pos)
qed

lemma ldigits_less: "2 \<le> r \<Longrightarrow> d \<in> set (ldigits r v) \<Longrightarrow> d < r"
proof (induction r v rule: ldigits.induct)
  case (1 r v)
  then show ?case by (cases "v = 0") (auto simp: ldigits_pos)
qed

lemma ldigits_last: "2 \<le> r \<Longrightarrow> 0 < v \<Longrightarrow> ldigits r v \<noteq> [] \<and> last (ldigits r v) \<noteq> 0"
proof (induction r v rule: ldigits.induct)
  case (1 r v)
  show ?case
  proof (cases "v div r = 0")
    case True
    with 1 show ?thesis by (auto simp: ldigits_pos div_eq_0_iff)
  next
    case False
    with 1 have "ldigits r (v div r) \<noteq> [] \<and> last (ldigits r (v div r)) \<noteq> 0" by simp
    with 1 show ?thesis by (simp add: ldigits_pos [of r v])
  qed
qed

lemma ldigits_length: "2 \<le> r \<Longrightarrow> v < 2 ^ k \<Longrightarrow> length (ldigits r v) \<le> k"
proof (induction k arbitrary: v)
  case (Suc k)
  show ?case
  proof (cases "v = 0")
    case False
    have "v div r \<le> v div 2" using Suc.prems by (intro div_le_mono2) auto
    also have "\<dots> < 2 ^ k" using Suc.prems by auto
    finally have "length (ldigits r (v div r)) \<le> k" using Suc by simp
    with False Suc.prems show ?thesis by (simp add: ldigits_pos)
  qed simp
qed simp

lemma itoa_loop_digits:
  assumes "2 \<le> unat radix" and "unat radix \<le> 36"
  shows "itoa_loop m v p radix =
     (let ds = map ((!) itoa_lookup) (ldigits (unat radix) (unat v)) in
      Some (store_bytes m p ds, p + of_nat (length ds)))"
proof (induction "unat v" arbitrary: m v p rule: less_induct)
  case less
  show ?case
  proof (cases "v = 0")
    case True
    then show ?thesis by (subst itoa_loop.simps) simp
  next
    case False
    then have pos: "0 < unat v" by (simp add: unat_gt_0)
    have parts: "unat (v div radix) = unat v div unat radix" "unat (v mod radix) = unat v mod unat radix"
      by (simp_all add: unat_div unat_mod)
    have "unat (v div radix) < unat v" using assms pos parts by simp
    note IH = less [OF this]
    have "unat v mod unat radix < unat radix" using assms(1) by (intro mod_less_divisor) simp
    with assms parts have "unat (v mod radix) < 37" by linarith
    moreover have "radix \<noteq> 0" using assms by auto
    ultimately show ?thesis
      using assms pos False by (subst itoa_loop.simps)
        (simp add: IH parts ldigits_pos Let_def word_gt_0 algebra_simps)
  qed
qed

lemma itoa_digits:
  fixes v radix buf :: u32 and m :: mem
  assumes "2 \<le> unat radix" and "unat radix \<le> 36"
  defines "ds \<equiv> (if v = 0 then [0] else rev (ldigits (unat radix) (unat v)))"
  shows "\<exists>m'. itoa m v buf radix = Some m' \<and> cstring m' buf (map ((!) itoa_lookup) ds)
    \<and> (\<forall>a. 33 \<le> unat (a - buf) \<longrightarrow> m' a = m a)"
proof (cases "v = 0")
  case True
  have "itoa_lookup ! 0 = 48" by code_simp
  with True have "cstring (m(buf := 48, buf + 1 := 0)) buf (map ((!) itoa_lookup) ds)"
    by (simp add: ds_def cstring_Cons cstring_Nil)
  with True show ?thesis by (auto simp: itoa_def)
next
  case False
  let ?r = "unat radix"
  let ?xs = "map ((!) itoa_lookup) (ldigits ?r (unat v))"
  let ?m = "store_bytes m buf ?xs"
  let ?m' = "?m(buf + of_nat (length ?xs) := 0)"
  have len: "length ?xs \<le> 32"
    using ldigits_length [OF assms(1), of "unat v" 32] unat_lt32 [of v] by simp
  have nz: "0 \<notin> set ?xs"
    using itoa_lookup_digit ldigits_less [OF assms(1)] assms(2) by fastforce
  have "?m (buf + of_nat i) = ?xs ! i" if "i < length ?xs" for i
    using that len load_store_bytes [of ?xs m buf] nth_load_bytes [of i "length ?xs" ?m buf] by simp
  then have cs: "cstring ?m' buf ?xs"
    using nz len by (intro cstringI) (auto simp: of_nat32_inj)
  have short: "length ?xs < 2147483648" using len by simp
  obtain m' where m': "strrev ?m' buf = Some m'" "cstring m' buf (rev ?xs)"
      "\<forall>a. length ?xs \<le> unat (a - buf) \<longrightarrow> m' a = ?m' a"
    using strrev_cstring [OF cs short] by blast
  have "m' a = m a" if a: "33 \<le> unat (a - buf)" for a
  proof -
    from a len have "a \<noteq> buf + of_nat (length ?xs)" by (auto simp: unat_of_nat32)
    with a len m'(3) show ?thesis by (simp add: store_bytes_outside)
  qed
  moreover have "itoa m v buf radix = Some m'"
    using False m'(1) by (simp add: itoa_def itoa_loop_digits [OF assms(1,2)] Let_def)
  moreover have "cstring m' buf (map ((!) itoa_lookup) ds)"
    using False m'(2) by (simp add: ds_def rev_map)
  ultimately show ?thesis by blast
qed

section \<open>Properties\<close>

lemma numeral_val_rev: "numeral_val r (rev xs) = foldr (\<lambda>c acc. acc * r + digit_val c) xs 0"
  by (simp add: numeral_val_def foldl_conv_foldr)

lemma numeral_val_digits:
  assumes "\<forall>d\<in>set ds. d < 36"
  shows "numeral_val r (rev (map ((!) itoa_lookup) ds)) = foldr (\<lambda>d acc. acc * r + d) ds 0"
  unfolding numeral_val_rev using assms by (induction ds) (auto simp: itoa_lookup_digit)

text \<open>
  C35: for every value and every radix from 2 to 36, itoa returns, and what it leaves in the
  buffer is the terminated numeral of the value: reading the numeral in that radix gives the
  value back, it has no leading zero, at most 32 digits, and no byte beyond the buffer's 33
  changes.
\<close>

theorem itoa_roundtrip:
  assumes "2 \<le> unat radix" and "unat radix \<le> 36"
  shows "\<exists>m' xs. itoa m val buf radix = Some m' \<and> cstring m' buf xs
    \<and> numeral_val (unat radix) xs = unat val \<and> length xs \<le> 32
    \<and> (val \<noteq> 0 \<longrightarrow> hd xs \<noteq> 48) \<and> (\<forall>a. 33 \<le> unat (a - buf) \<longrightarrow> m' a = m a)"
proof -
  let ?ls = "ldigits (unat radix) (unat val)"
  let ?ds = "if val = 0 then [0] else rev ?ls"
  have small: "\<forall>d\<in>set ?ls. d < 36" using ldigits_less [OF assms(1)] assms(2) by fastforce
  have zero: "itoa_lookup ! 0 = 48" by code_simp
  have "numeral_val (unat radix) (map ((!) itoa_lookup) ?ds) = unat val"
    using numeral_val_digits [OF small, of "unat radix"] ldigits_val [OF assms(1), of "unat val"] zero
    by (simp add: rev_map numeral_val_def digit_val_def)
  moreover have "length ?ds \<le> 32"
    using ldigits_length [OF assms(1), of "unat val" 32] unat_lt32 [of val] by simp
  moreover have "hd (map ((!) itoa_lookup) ?ds) \<noteq> 48" if "val \<noteq> 0"
  proof -
    have "0 < unat val" using that by (simp add: unat_gt_0)
    then have ne: "?ls \<noteq> []" and last0: "last ?ls \<noteq> 0" using ldigits_last [OF assms(1)] by auto
    then have "last ?ls < 36" using small by simp
    then have "digit_val (itoa_lookup ! last ?ls) = last ?ls" using itoa_lookup_digit by blast
    with last0 have "itoa_lookup ! last ?ls \<noteq> 48" by (auto simp: digit_val_def)
    with ne that show ?thesis by (simp add: hd_map hd_rev)
  qed
  moreover obtain m' where "itoa m val buf radix = Some m'"
      "cstring m' buf (map ((!) itoa_lookup) ?ds)" "\<forall>a. 33 \<le> unat (a - buf) \<longrightarrow> m' a = m a"
    using itoa_digits [OF assms, of m val buf] by blast
  ultimately show ?thesis by (metis length_map)
qed

theorem itoa_roundtrip_witness:
  "\<exists>m' xs. itoa (\<lambda>_. 7) 391 0x8000 10 = Some m' \<and> cstring m' 0x8000 xs \<and> numeral_val 10 xs = 391"
proof -
  have "2 \<le> unat (10 :: u32)" "unat (10 :: u32) \<le> 36" by simp_all
  from itoa_roundtrip [OF this, of "\<lambda>_. 7" 391 "0x8000"] show ?thesis by (simp only: unat_numeral) auto
qed

text \<open>
  Strncmp returns zero exactly when the two strings agree up to the first terminator or
  up to \<open>n\<close> characters, whichever comes first.
\<close>

theorem strncmp_zero_iff:
  "strncmp m s1 s2 n = 0 \<longleftrightarrow> strn m s1 (unat n) = strn m s2 (unat n)"
  by (simp add: strncmp_def strncmp_loop_eq_0)

text \<open>
  On a NUL-terminated source that the destination does not start inside, strcpy
  returns; the destination is then the same string, strlen returns its length, and no byte
  outside the string and its terminator changes.
\<close>

theorem strcpy_copies:
  assumes "cstring m src xs" and "forward_ok dest src (Suc (length xs))" and "Suc (length xs) < 2 ^ 32"
  shows "\<exists>m'. strcpy m dest src = Some m' \<and> cstring m' dest xs
    \<and> strlen m' dest = Some (of_nat (length xs))
    \<and> (\<forall>a. Suc (length xs) \<le> unat (a - dest) \<longrightarrow> m' a = m a)"
proof -
  let ?m = "copied m dest src (Suc (length xs))"
  have at: "?m (dest + of_nat i) = m (src + of_nat i)" if "i \<le> length xs" for i
    using that assms(3) by (simp add: copied_def unat_of_nat32)
  have "cstring ?m dest xs"
  proof (rule cstringI)
    show "?m (dest + of_nat i) = xs ! i" if "i < length xs" for i
      using that at [of i] cstring_nth [OF assms(1) that] by simp
    show "?m (dest + of_nat (length xs)) = 0" using at cstring_end [OF assms(1)] by simp
    show "0 \<notin> set xs" "length xs < 4294967296" using assms(1) unfolding cstring_def by blast+
  qed
  moreover have "strcpy m dest src = Some ?m"
    using strcpy_loop_copied [of m src 0 xs dest] assms by (simp add: strcpy_def)
  moreover have "\<forall>a. Suc (length xs) \<le> unat (a - dest) \<longrightarrow> ?m a = m a" by (simp add: copied_def)
  ultimately show ?thesis using strlen_cstring [of ?m dest xs] by blast
qed

theorem strcpy_copies_witness:
  "\<exists>m'. strcpy (store_bytes (\<lambda>_. 0) 0x100 (bytes ''shell'')) 0x200 0x100 = Some m'
    \<and> strlen m' 0x200 = Some 5"
proof -
  have "cstring (store_bytes (\<lambda>_. 0) 0x100 (bytes ''shell'')) 0x100 (bytes ''shell'')"
    by (simp add: bytes_def cstring_Cons cstring_Nil)
  moreover have "forward_ok 0x200 0x100 (Suc (length (bytes ''shell'')))"
    by (simp add: forward_ok_def bytes_def)
  moreover have "Suc (length (bytes ''shell'')) < 2 ^ 32" by (simp add: bytes_def)
  ultimately have "\<exists>m'. strcpy (store_bytes (\<lambda>_. 0) 0x100 (bytes ''shell'')) 0x200 0x100 = Some m'
      \<and> strlen m' 0x200 = Some (of_nat (length (bytes ''shell'')))"
    using strcpy_copies by blast
  then show ?thesis by (simp add: bytes_def)
qed

text \<open>
  Strncpy writes exactly \<open>n\<close> bytes: the characters of the source up to its terminator,
  truncated at \<open>n\<close>, padded with zeros.
\<close>

theorem strncpy_pads:
  assumes "forward_ok dest src (unat n)"
  shows "load_bytes (strncpy m dest src n) dest (unat n)
      = strn m src (unat n) @ replicate (unat n - length (strn m src (unat n))) 0
    \<and> (\<forall>a. unat n \<le> unat (a - dest) \<longrightarrow> strncpy m dest src n a = m a)"
proof -
  let ?l = "strn m src (unat n)"
  have eq: "strncpy m dest src n = filled m dest (unat n) (\<lambda>i. if i < length ?l then ?l ! i else 0)"
    unfolding strncpy_def by (rule strncpy_loop_filled [OF unat_lt32 assms])
  have "load_bytes (strncpy m dest src n) dest (unat n) = ?l @ replicate (unat n - length ?l) 0"
  proof (rule nth_equalityI)
    show "length (load_bytes (strncpy m dest src n) dest (unat n))
        = length (?l @ replicate (unat n - length ?l) 0)"
      using length_strn_le [of m src "unat n"] by simp
    fix i assume "i < length (load_bytes (strncpy m dest src n) dest (unat n))"
    then have i: "i < unat n" by simp
    then have "unat (of_nat i :: u32) = i" using unat_lt32 [of n] by (intro unat_of_nat32) linarith
    with i show "load_bytes (strncpy m dest src n) dest (unat n) ! i
        = (?l @ replicate (unat n - length ?l) 0) ! i"
      by (simp add: eq filled_def nth_append)
  qed
  moreover have "\<forall>a. unat n \<le> unat (a - dest) \<longrightarrow> strncpy m dest src n a = m a"
    by (simp add: eq filled_def)
  ultimately show ?thesis by blast
qed

theorem strncpy_pads_witness:
  "load_bytes (strncpy (store_bytes (\<lambda>_. 9) 0x100 [102, 105, 0]) 0x200 0x100 4) 0x200 4 = [102, 105, 0, 0]"
proof -
  have "forward_ok 0x200 0x100 (unat (4 :: u32))" by (simp add: forward_ok_def)
  moreover have "strn (store_bytes (\<lambda>_. 9) 0x100 [102, 105, 0]) 0x100 4 = [102, 105 :: u8]" by code_simp
  moreover have "replicate 2 (0 :: u8) = [0, 0]" by code_simp
  ultimately show ?thesis
    using strncpy_pads [of "0x200" "0x100" 4 "store_bytes (\<lambda>_. 9) 0x100 [102, 105, 0]"] by simp
qed

text \<open>
  Strrev reverses a NUL-terminated string in place and changes nothing outside it.
\<close>

theorem strrev_reverses:
  assumes "cstring m s xs" and "length xs < 2 ^ 31"
  shows "\<exists>m'. strrev m s = Some m' \<and> cstring m' s (rev xs)
    \<and> (\<forall>a. length xs \<le> unat (a - s) \<longrightarrow> m' a = m a)"
  using strrev_cstring [OF assms(1)] assms(2) by simp

theorem strrev_reverses_witness:
  "\<exists>m'. strrev (store_bytes (\<lambda>_. 0) 0x100 [1, 2, 3]) 0x100 = Some m' \<and> cstring m' 0x100 [3, 2, 1]"
proof -
  have "cstring (store_bytes (\<lambda>_. 0) 0x100 [1, 2, 3]) 0x100 [1, 2, 3]"
    by (simp add: cstring_Cons cstring_Nil)
  from strrev_reverses [OF this] show ?thesis by auto
qed

end
