(* ===== verification/Kud_FS.thy ===== *)
theory Kud_FS
  imports Kud_Pcb Kud_String
begin

unbundle bit_operations_syntax

text \<open>
  The read-only file system \<^verbatim>\<open>student-distrib/filesystem.c\<close>. The image is a multiboot
  module: bytes in memory from \<^verbatim>\<open>fs_start\<close> on, reached through the C structures laid over
  it. The accessors below are the addresses and loads those structures stand for: the boot
  block (counts at 0, 4, 8; 64-byte directory entries from 64), one 4 kB inode per file
  (length, then block numbers), the data blocks behind the inodes.
\<close>

section \<open>State and layout\<close>

record dentry_t =
  fname :: "u8 list"
  ftype :: u32
  inode :: u32
  reserved :: "u8 list"

record fs_state = pcb_state +
  fs_start :: u32
  bootblock :: u32
  inodes_array :: u32
  data_array :: u32
  dentry :: dentry_t

abbreviation BLOCK_SIZE :: u32 where "BLOCK_SIZE \<equiv> 4096"
definition MAX_FNAME_LENGTH :: u32 where "MAX_FNAME_LENGTH = 32"
definition IMAGE_START :: u32 where "IMAGE_START = 0x8048000"
definition FILE_TYPE_RTC :: u32 where "FILE_TYPE_RTC = 0"
definition FILE_TYPE_DIR :: u32 where "FILE_TYPE_DIR = 1"
definition FILE_TYPE_REG :: u32 where "FILE_TYPE_REG = 2"

definition num_dir_entries :: "'a fs_state_scheme \<Rightarrow> u32" where
  "num_dir_entries s = load32 (mem s) (bootblock s)"

definition num_inodes :: "'a fs_state_scheme \<Rightarrow> u32" where
  "num_inodes s = load32 (mem s) (bootblock s + 4)"

definition dir_entry :: "'a fs_state_scheme \<Rightarrow> u32 \<Rightarrow> u32" where
  "dir_entry s i = bootblock s + 64 + 64 * i"

definition load_dentry :: "mem \<Rightarrow> u32 \<Rightarrow> dentry_t" where
  "load_dentry m a = \<lparr>fname = load_bytes m a 32, ftype = load32 m (a + 32), inode = load32 m (a + 36),
     reserved = load_bytes m (a + 40) 24\<rparr>"

definition inode_at :: "'a fs_state_scheme \<Rightarrow> u32 \<Rightarrow> u32" where
  "inode_at s k = inodes_array s + 4096 * k"

definition inode_length :: "'a fs_state_scheme \<Rightarrow> u32 \<Rightarrow> mem \<Rightarrow> u32" where
  "inode_length s k m = load32 m (inode_at s k)"

definition inode_block :: "'a fs_state_scheme \<Rightarrow> u32 \<Rightarrow> u32 \<Rightarrow> mem \<Rightarrow> u32" where
  "inode_block s k i m = load32 m (inode_at s k + 4 + 4 * i)"

definition data_block :: "'a fs_state_scheme \<Rightarrow> u32 \<Rightarrow> u32" where
  "data_block s n = data_array s + 4096 * n"

section \<open>Directory entries\<close>

definition fs_init :: "'a fs_state_scheme \<Rightarrow> 'a fs_state_scheme" where
  "fs_init s =
     (let s = s\<lparr>bootblock := fs_start s\<rparr>;
          s = s\<lparr>inodes_array := bootblock s + 4096\<rparr>;
          s = s\<lparr>data_array := inodes_array s + 4096 * num_inodes s\<rparr>
      in s\<lparr>file_ops := \<lparr>openptr = Fn_open_file, closeptr = Fn_close_file,
                        readptr = Fn_read_file, writeptr = Fn_write_file\<rparr>\<rparr>)"

definition read_dentry_by_index :: "'a fs_state_scheme \<Rightarrow> u32 \<Rightarrow> int \<times> dentry_t" where
  "read_dentry_by_index s index = (0, load_dentry (mem s) (dir_entry s index))"

text \<open>The loop over the entries; the last entry that matches is the one delivered.\<close>

fun find_dentry :: "'a fs_state_scheme \<Rightarrow> u32 \<Rightarrow> nat list \<Rightarrow> dentry_t \<Rightarrow> bool \<times> dentry_t" where
  "find_dentry s name [] d = (False, d)"
| "find_dentry s name (i # is) d =
     (if strncmp (mem s) name (dir_entry s (of_nat i)) MAX_FNAME_LENGTH = 0
      then let (found, d') = find_dentry s name is (load_dentry (mem s) (dir_entry s (of_nat i)))
           in (True, d')
      else find_dentry s name is d)"

definition read_dentry_by_name :: "'a fs_state_scheme \<Rightarrow> u32 \<Rightarrow> dentry_t \<Rightarrow> int \<times> dentry_t" where
  "read_dentry_by_name s name d =
     (let (found, d') = find_dentry s name [0..<unat (num_dir_entries s)] d
      in if \<not> found then (- 1, d') else (0, d'))"

section \<open>File contents\<close>

definition count_blocks :: "u32 \<Rightarrow> u32 \<Rightarrow> int" where
  "count_blocks offset len =
     fold (\<lambda>a n. if (of_nat a - 1 :: u32) mod BLOCK_SIZE = 0 then n + 1 else n)
       [unat offset..<unat (offset + len)] 0"

function read_blocks :: "'a fs_state_scheme \<Rightarrow> u32 \<Rightarrow> int \<Rightarrow> int \<Rightarrow> mem \<Rightarrow> u32 \<Rightarrow> int \<Rightarrow> mem \<times> u32 \<times> int" where
  "read_blocks s k i n m buf_curr bytes_read =
     (if i < n - 1
      then let datablock_number = inode_block s k (of_int i) m;
               m = memcpy m buf_curr (data_block s datablock_number) BLOCK_SIZE
           in read_blocks s k (i + 1) n m (buf_curr + BLOCK_SIZE) (bytes_read + 4096)
      else (m, buf_curr, bytes_read))"
  by pat_completeness auto
termination
  by (relation "measure (\<lambda>(s, k, i, n, m, buf_curr, bytes_read). nat (n - 1 - i))") auto

declare read_blocks.simps [simp del]

definition read_data :: "'a fs_state_scheme \<Rightarrow> u32 \<Rightarrow> u32 \<Rightarrow> u32 \<Rightarrow> u32 \<Rightarrow> int \<times> mem" where
  "read_data s k offset buf len =
     (let m = mem s;
          bytes_left = 4096 - int (unat (offset mod BLOCK_SIZE));
          datablock_start = int (unat (offset div BLOCK_SIZE));
          datablock_start = (if offset > 0 \<and> offset mod BLOCK_SIZE = 0 then datablock_start - 1
                             else datablock_start)
      in if offset + len > inode_length s k m then (- 1, m)
         else let num_data_blocks = count_blocks offset len;
                  (m, buf_curr, datablock_start, num_data_blocks, bytes_read) =
                    (if bytes_left \<noteq> 4096
                     then let datablock_number = inode_block s k (of_int datablock_start) m
                          in (memcpy m buf (data_block s datablock_number + offset) (of_int bytes_left),
                              buf + of_int bytes_left, datablock_start + 1, num_data_blocks - 1, bytes_left)
                     else (m, buf, datablock_start, num_data_blocks, 0));
                  (m, buf_curr, bytes_read) =
                    read_blocks s k datablock_start num_data_blocks m buf_curr bytes_read;
                  bytes_left = (offset + len) mod BLOCK_SIZE;
                  datablock_number = inode_block s k (of_int (datablock_start + num_data_blocks - 1)) m;
                  m = memcpy m buf_curr (data_block s datablock_number) bytes_left
              in (bytes_read + 4096, m))"

text \<open>The descriptor of the current process that a file operation works on.\<close>

definition cur_fd :: "'a pcb_state_scheme \<Rightarrow> nat \<Rightarrow> fs_descriptor" where
  "cur_fd s fd = file_array (pcbs s ! the (current_pcb s)) ! fd"

definition set_cur_fd :: "nat \<Rightarrow> fs_descriptor \<Rightarrow> 'a pcb_state_scheme \<Rightarrow> 'a pcb_state_scheme" where
  "set_cur_fd fd d s = upd_pcb (the (current_pcb s)) (set_fd fd d) s"

fun read_one_loop :: "nat \<Rightarrow> u32 \<Rightarrow> u32 \<Rightarrow> u32 \<Rightarrow> u32 \<Rightarrow> u32 \<Rightarrow> u32 \<Rightarrow> nat \<Rightarrow> 'a fs_state_scheme
    \<Rightarrow> u32 \<times> 'a fs_state_scheme" where
  "read_one_loop 0 buf offset cur_offset datablock_number f_size bytes_read fd s = (bytes_read, s)"
| "read_one_loop (Suc n) buf offset cur_offset datablock_number f_size bytes_read fd s =
     (if offset < f_size
      then let s = s\<lparr>mem := memcpy (mem s) buf (data_block s datablock_number + cur_offset) 1\<rparr>;
               d = cur_fd s fd;
               s = set_cur_fd fd (d\<lparr>file_position := file_position d + 1\<rparr>) s;
               cur_offset = cur_offset + 1
           in if cur_offset mod BLOCK_SIZE = 0
              then read_one_loop n (buf + 1) (offset + 1) 0 (datablock_number + 1) f_size (bytes_read + 1) fd s
              else read_one_loop n (buf + 1) (offset + 1) cur_offset datablock_number f_size (bytes_read + 1) fd s
      else (bytes_read, s))"

definition read_data_one :: "nat \<Rightarrow> u32 \<Rightarrow> u32 \<Rightarrow> 'a fs_state_scheme \<Rightarrow> u32 \<times> 'a fs_state_scheme" where
  "read_data_one fd buf n_bytes s =
     (let offset = file_position (cur_fd s fd);
          k = (inode_ptr (cur_fd s fd) - bootblock s) div BLOCK_SIZE - 1;
          cur_datablock = offset div BLOCK_SIZE;
          datablock_number = inode_block s k cur_datablock (mem s);
          f_size = inode_length s k (mem s);
          cur_offset = offset mod BLOCK_SIZE
      in read_one_loop (unat n_bytes) buf offset cur_offset datablock_number f_size 0 fd s)"

text \<open>
  The image of a program is read into a variable-length array on the kernel stack (its
  address \<open>vla\<close> is the compiler's) and copied from there to the program's page.
\<close>

definition copy_file_image :: "u32 \<Rightarrow> dentry_t \<Rightarrow> u32 \<Rightarrow> 'a fs_state_scheme \<Rightarrow> u32 \<times> 'a fs_state_scheme" where
  "copy_file_image vla d0 name s =
     (let dentry_curr = snd (read_dentry_by_name s name d0);
          fsize = inode_length s (inode dentry_curr) (mem s);
          s = s\<lparr>mem := snd (read_data s (inode dentry_curr) 0 vla fsize)\<rparr>;
          s = s\<lparr>mem := memcpy (mem s) IMAGE_START vla fsize\<rparr>
      in (0, s))"

section \<open>The file operations\<close>

definition read_dir :: "nat \<Rightarrow> u32 \<Rightarrow> int \<Rightarrow> 'a fs_state_scheme \<Rightarrow> (u32 \<times> 'a fs_state_scheme) option" where
  "read_dir fd buf nbytes s =
     (if file_position (cur_fd s fd) < num_dir_entries s
      then let name = dir_entry s (file_position (cur_fd s fd)) in
           case strlen (mem s) name of
             None \<Rightarrow> None
           | Some name_length \<Rightarrow>
               let s = s\<lparr>mem := memcpy (mem s) buf name name_length\<rparr>;
                   d = cur_fd s fd
               in Some (name_length, set_cur_fd fd (d\<lparr>file_position := file_position d + 1\<rparr>) s)
      else Some (0, s))"

definition write_dir :: u32 where
  "write_dir = minus_one"

definition read_file :: "nat \<Rightarrow> u32 \<Rightarrow> int \<Rightarrow> 'a fs_state_scheme \<Rightarrow> (u32 \<times> 'a fs_state_scheme) option" where
  "read_file fd buf nbytes s =
     (if inode_ptr (cur_fd s fd) = NULL32 then read_dir fd buf nbytes s
      else Some (read_data_one fd buf (of_int nbytes) s))"

definition write_file :: "nat \<Rightarrow> u32 \<Rightarrow> int \<Rightarrow> u32" where
  "write_file fd buf nbytes = minus_one"

text \<open>
  \<^verbatim>\<open>dentry.fname == NULL\<close> compares the address of an array and is never true. A directory
  entry of any other type is not entered into the table, but its index is returned.
\<close>

definition open_file :: "u32 \<Rightarrow> 'a fs_state_scheme \<Rightarrow> u32 \<times> 'a fs_state_scheme" where
  "open_file name s =
     (let (check_file, d) = read_dentry_by_name s name (dentry s);
          s = s\<lparr>dentry := d\<rparr>
      in if check_file = - 1 then (minus_one, s)
         else let fd = of_int (find_free_fd (the (current_pcb s)) s) :: u32 in
              if fd = minus_one then (minus_one, s)
              else if ftype (dentry s) = FILE_TYPE_RTC
              then (fd, set_cur_fd (unat fd) \<lparr>fd_ops = Ops_rtc, inode_ptr = 0, file_position = 0, flags = 1\<rparr> s)
              else if ftype (dentry s) = FILE_TYPE_DIR
              then (fd, set_cur_fd (unat fd) \<lparr>fd_ops = Ops_file, inode_ptr = 0, file_position = 0, flags = 1\<rparr> s)
              else if ftype (dentry s) = FILE_TYPE_REG
              then (fd, set_cur_fd (unat fd) \<lparr>fd_ops = Ops_file, inode_ptr = inode_at s (inode (dentry s)),
                                             file_position = 0, flags = 1\<rparr> s)
              else (fd, s))"

definition close_file :: "nat \<Rightarrow> 'a fs_state_scheme \<Rightarrow> u32 \<times> 'a fs_state_scheme" where
  "close_file fd s =
     (0, set_cur_fd fd \<lparr>fd_ops = Ops_null, inode_ptr = 0, file_position = 0, flags = 0\<rparr> s)"

definition close_dir :: u32 where
  "close_dir = 0"

section \<open>Looking up a name\<close>

definition name_matches :: "'a fs_state_scheme \<Rightarrow> u32 \<Rightarrow> nat \<Rightarrow> bool" where
  "name_matches s name i \<longleftrightarrow> strn (mem s) name 32 = strn (mem s) (dir_entry s (of_nat i)) 32"

lemma strncmp_matches:
  "strncmp (mem s) name (dir_entry s (of_nat i)) MAX_FNAME_LENGTH = 0 \<longleftrightarrow> name_matches s name i"
  by (simp add: strncmp_def MAX_FNAME_LENGTH_def strncmp_loop_eq_0 name_matches_def)

lemma find_dentry_last:
  "find_dentry s name is d =
     (let ms = filter (name_matches s name) is in
      (ms \<noteq> [], if ms = [] then d else load_dentry (mem s) (dir_entry s (of_nat (last ms)))))"
  by (induction "is" arbitrary: d) (auto simp: strncmp_matches Let_def)

lemma read_dentry_by_name_eq:
  "read_dentry_by_name s name d =
     (let ms = filter (name_matches s name) [0..<unat (num_dir_entries s)] in
      if ms = [] then (- 1, d) else (0, load_dentry (mem s) (dir_entry s (of_nat (last ms)))))"
  by (simp add: read_dentry_by_name_def find_dentry_last Let_def)

lemma last_filter_upt:
  assumes "i < n" and "P i" and "\<And>j. i < j \<Longrightarrow> j < n \<Longrightarrow> \<not> P j"
  shows "filter P [0..<n] \<noteq> [] \<and> last (filter P [0..<n]) = i"
proof -
  have "[0..<n] = [0..<i] @ i # [Suc i..<n]"
    using assms(1) by (metis less_imp_add_positive upt_add_eq_append upt_conv_Cons zero_le less_add_same_cancel1)
  moreover have "filter P [Suc i..<n] = []" using assms(3) by (auto simp: filter_empty_conv)
  ultimately show ?thesis using assms(2) by simp
qed

section \<open>The contents of a file\<close>

definition file_addr :: "'a fs_state_scheme \<Rightarrow> u32 \<Rightarrow> nat \<Rightarrow> u32" where
  "file_addr s k j = data_block s (inode_block s k (of_nat (j div 4096)) (mem s)) + of_nat (j mod 4096)"

definition file_byte :: "'a fs_state_scheme \<Rightarrow> u32 \<Rightarrow> nat \<Rightarrow> u8" where
  "file_byte s k j = mem s (file_addr s k j)"

text \<open>The buffer touches neither the inode nor the first \<open>l\<close> bytes of the file.\<close>

definition off_image :: "'a fs_state_scheme \<Rightarrow> u32 \<Rightarrow> nat \<Rightarrow> u32 \<Rightarrow> nat \<Rightarrow> bool" where
  "off_image s k l buf n \<longleftrightarrow>
     (\<forall>i < 4096. n \<le> unat (inode_at s k + of_nat i - buf)) \<and> (\<forall>j < l. n \<le> unat (file_addr s k j - buf))"

lemma block_test:
  assumes "a < 4294967296"
  shows "(of_nat a - 1 :: u32) mod 4096 = 0 \<longleftrightarrow> a mod 4096 = 1"
proof -
  let ?x = "of_nat a - 1 :: u32"
  have x: "unat ?x = (if a = 0 then 4294967295 else a - 1)"
    using assms by (simp add: unat_sub32 unat_of_nat32)
  have "unat (?x mod 4096) = unat ?x mod 4096" by (simp add: unat_mod)
  then have "?x mod 4096 = 0 \<longleftrightarrow> unat ?x mod 4096 = 0" by (metis unat_eq_0)
  also have "\<dots> \<longleftrightarrow> a mod 4096 = 1"
  proof (cases a)
    case (Suc b)
    have "b mod 4096 = 0 \<longleftrightarrow> Suc b mod 4096 = 1" by (simp add: mod_Suc)
    with Suc show ?thesis unfolding x by simp
  next
    case 0
    with x show ?thesis by simp
  qed
  finally show ?thesis .
qed

lemma blocks_Suc: "(Suc n + 4094) div 4096 = (n + 4094) div 4096 + (if n mod 4096 = 1 then 1 else 0 :: nat)"
proof -
  let ?r = "n mod 4096"
  have "Suc (n + 4094) mod 4096 = (?r + 4095) mod 4096"
    using mod_add_left_eq [of n 4096 4095] by (simp add: add.commute [of n])
  also have "\<dots> = (if ?r = 0 then 4095 else ?r - 1)"
  proof (cases "?r = 0")
    case False
    then have "?r + 4095 = (?r - 1) + 4096" by simp
    moreover have "?r - 1 < 4096" by (simp add: less_imp_diff_less)
    ultimately show ?thesis using False by (simp only: mod_add_self2 mod_less if_False)
  qed simp
  also have "\<dots> = 0 \<longleftrightarrow> ?r = 1" by auto
  finally have "Suc (n + 4094) mod 4096 = 0 \<longleftrightarrow> n mod 4096 = 1" .
  then show ?thesis by (simp only: add_Suc div_Suc) simp
qed

lemma count_blocks_fold:
  "n < 4294967296 \<Longrightarrow>
   fold (\<lambda>a c. if (of_nat a - 1 :: u32) mod 4096 = 0 then c + 1 else c) [0..<n] 0 = int ((n + 4094) div 4096)"
proof (induction n)
  case (Suc n)
  then have n: "n < 4294967296" by simp
  show ?case
    using Suc.IH [OF n] block_test [OF n]
    by (simp only: blocks_Suc upt_Suc if_True fold_append comp_def fold.simps id_apply) simp
qed simp

lemma count_blocks_0: "count_blocks 0 len = int ((unat len + 4094) div 4096)"
  unfolding count_blocks_def using count_blocks_fold [OF unat_lt32 [of len]] by simp

lemma off_image_mono: "off_image s k l buf n \<Longrightarrow> l' \<le> l \<Longrightarrow> n' \<le> n \<Longrightarrow> off_image s k l' buf n'"
  unfolding off_image_def by (meson le_trans less_le_trans)

lemma load32_off:
  assumes "off_image s k l buf n" and "o4 + 3 < 4096"
  shows "load32 (filled m buf n f) (inode_at s k + of_nat o4) = load32 m (inode_at s k + of_nat o4)"
proof -
  have "filled m buf n f (inode_at s k + of_nat o4 + of_nat j) = m (inode_at s k + of_nat o4 + of_nat j)"
    if "j < 4" for j
  proof -
    have "o4 + j < 4096" using that assms(2) by linarith
    then have "n \<le> unat (inode_at s k + of_nat (o4 + j) - buf)"
      using assms(1) unfolding off_image_def by blast
    then show ?thesis by (simp add: filled_def add.assoc)
  qed
  from this [of 0] this [of 1] this [of 2] this [of 3] show ?thesis by (simp add: load32_def)
qed

text \<open>One step of the copy: \<open>c\<close> bytes of the block that holds file offset \<open>4096 * i\<close>.\<close>

lemma copy_block:
  assumes off: "off_image s k l buf n" and c: "4096 * i + c \<le> n" "4096 * i + c \<le> l" "c \<le> 4096"
    and i: "i < 1023"
  defines "M \<equiv> filled (mem s) buf (4096 * i) (file_byte s k)"
  shows "memcpy M (buf + of_nat (4096 * i)) (data_block s (inode_block s k (of_nat i) M)) (of_nat c)
    = filled (mem s) buf (4096 * i + c) (file_byte s k)"
proof -
  let ?d = "buf + of_nat (4096 * i)"
  let ?b = "data_block s (inode_block s k (of_nat i) (mem s))"
  have blk: "inode_block s k (of_nat i) M = inode_block s k (of_nat i) (mem s)"
  proof -
    have "off_image s k l buf (4096 * i)" using off c by (auto intro: off_image_mono)
    then have "load32 M (inode_at s k + of_nat (4 + 4 * i)) = load32 (mem s) (inode_at s k + of_nat (4 + 4 * i))"
      unfolding M_def by (rule load32_off) (use i in simp)
    then show ?thesis by (simp add: inode_block_def add.assoc)
  qed
  have addr: "file_addr s k (4096 * i + x) = ?b + of_nat x" if "x < c" for x
    using that c by (simp add: file_addr_def)
  have away: "n \<le> unat (?b + of_nat x - buf)" if "x < c" for x
    using off addr [OF that] that c unfolding off_image_def by (metis add_less_cancel_left less_le_trans)
  have small: "4096 * i + c < 4294967296" using i c by simp
  have uc: "unat (of_nat c :: u32) = c" using small by (intro unat_of_nat32) linarith
  have ok: "forward_ok ?d ?b c"
  proof (rule ccontr)
    assume "\<not> forward_ok ?d ?b c"
    then have x: "unat (?d - ?b) < c" by (simp add: forward_ok_def)
    then have "n \<le> unat (?b + of_nat (unat (?d - ?b)) - buf)" by (rule away)
    moreover have "?b + of_nat (unat (?d - ?b)) - buf = of_nat (4096 * i)" by simp
    ultimately have "n \<le> 4096 * i" using small by (simp only: unat_of_nat32)
    with c x show False by simp
  qed
  have src: "M (?b + of_nat x) = file_byte s k (4096 * i + x)" if "x < c" for x
    using away [OF that] addr [OF that] c by (simp add: M_def filled_def file_byte_def)
  have "memcpy M ?d ?b (of_nat c) = copied M ?d ?b c" using memcpy_copied [of ?d ?b "of_nat c" M] ok uc by simp
  also have "\<dots> = filled M ?d c (\<lambda>x. file_byte s k (4096 * i + x))"
    unfolding copied_filled by (rule filled_cong) (rule src)
  also have "\<dots> = filled (mem s) buf (4096 * i + c) (file_byte s k)"
    unfolding M_def by (rule filled_append [OF small])
  finally show ?thesis by (simp only: blk)
qed

lemma read_blocks_filled:
  assumes off: "off_image s k l buf n" and q: "4096 * q \<le> n" "4096 * q \<le> l" "q \<le> 1023"
  shows "i \<le> q \<Longrightarrow> read_blocks s k (int i) (int q + 1) (filled (mem s) buf (4096 * i) (file_byte s k))
      (buf + of_nat (4096 * i)) b
    = (filled (mem s) buf (4096 * q) (file_byte s k), buf + of_nat (4096 * q), b + int (4096 * (q - i)))"
proof (induction "q - i" arbitrary: i b)
  case 0
  then show ?case by (subst read_blocks.simps) simp
next
  case (Suc x)
  then have i: "i < q" by simp
  let ?M = "filled (mem s) buf (4096 * i) (file_byte s k)"
  have "memcpy ?M (buf + of_nat (4096 * i)) (data_block s (inode_block s k (of_nat i) ?M)) 4096
      = filled (mem s) buf (4096 * (i + 1)) (file_byte s k)"
    using copy_block [OF off, of i 4096] i q by (simp add: algebra_simps)
  moreover have "read_blocks s k (int (i + 1)) (int q + 1) (filled (mem s) buf (4096 * (i + 1)) (file_byte s k))
      (buf + of_nat (4096 * (i + 1))) (b + 4096)
    = (filled (mem s) buf (4096 * q) (file_byte s k), buf + of_nat (4096 * q), b + 4096 + int (4096 * (q - (i + 1))))"
    by (rule Suc.hyps(1)) (use Suc i in simp_all)
  ultimately show ?case using i
    by (subst read_blocks.simps) (simp add: Let_def algebra_simps)
qed

lemma blocks_tail:
  assumes "2 \<le> r" and "r < 4096"
  shows "(4096 * q + r + 4094) div 4096 = q + (1 :: nat)"
proof -
  obtain t where t: "r = 2 + t" using le_Suc_ex [OF assms(1)] by blast
  then have "4096 * q + r + 4094 = t + 4096 * (q + 1)" by simp
  moreover have "t < 4096" using t assms(2) by simp
  ultimately show ?thesis by (simp only: div_mult_self2)
qed

lemma read_data_prefix:
  assumes fits: "unat len \<le> unat (inode_length s k (mem s))" and max: "unat len \<le> 1023 * 4096"
    and tail: "2 \<le> unat len mod 4096" and off: "off_image s k (unat len) buf (unat len)"
  shows "read_data s k 0 buf len =
    (4096 * int (unat len div 4096 + 1), filled (mem s) buf (unat len) (file_byte s k))"
proof -
  let ?q = "unat len div 4096" and ?r = "unat len mod 4096"
  have len: "4096 * ?q + ?r = unat len" by simp
  have q: "4096 * ?q \<le> unat len" "?q < 1023" using len max tail by linarith+
  have "(unat len + 4094) div 4096 = ?q + 1"
    using blocks_tail [OF tail, of ?q] len by simp
  then have blocks: "count_blocks 0 len = int ?q + 1" by (simp add: count_blocks_0)
  have "unat (len mod 4096) = ?r" by (simp add: unat_mod)
  then have r: "len mod 4096 = of_nat ?r" by (metis of_nat_unat32)
  have "read_blocks s k 0 (int ?q + 1) (mem s) buf 0
      = (filled (mem s) buf (4096 * ?q) (file_byte s k), buf + of_nat (4096 * ?q), int (4096 * ?q))"
    using read_blocks_filled [OF off q(1) q(1), of 0 0] q by simp
  moreover have "memcpy (filled (mem s) buf (4096 * ?q) (file_byte s k)) (buf + of_nat (4096 * ?q))
      (data_block s (inode_block s k (of_nat ?q) (filled (mem s) buf (4096 * ?q) (file_byte s k)))) (of_nat ?r)
     = filled (mem s) buf (unat len) (file_byte s k)"
    using copy_block [OF off, of ?q ?r] q len by simp
  moreover have "\<not> inode_length s k (mem s) < len" using fits by (simp add: word_less_nat_alt)
  ultimately show ?thesis
    by (simp add: read_data_def Let_def blocks r)
qed

section \<open>Reading through a descriptor\<close>

lemma memcpy_1: "memcpy m d s 1 = m(d := m s)"
proof -
  have "forward_ok d s (unat (1 :: u32))"
    by (auto simp: forward_ok_def Suc_le_eq unat_gt_0)
  then show ?thesis using memcpy_copied [of d s 1 m] by (simp add: copied_filled filled_1)
qed

definition fd_ready :: "'a pcb_state_scheme \<Rightarrow> nat \<Rightarrow> bool" where
  "fd_ready s fd \<longleftrightarrow> (\<exists>c. current_pcb s = Some c \<and> c < length (pcbs s) \<and> fd < length (file_array (pcbs s ! c)))"

definition advanced :: "nat \<Rightarrow> nat \<Rightarrow> 'a pcb_state_scheme \<Rightarrow> pcb list" where
  "advanced fd n s = (pcbs s)[the (current_pcb s) := set_fd fd
     ((cur_fd s fd)\<lparr>file_position := file_position (cur_fd s fd) + of_nat n\<rparr>) (pcbs s ! the (current_pcb s))]"

lemma advanced_0: "fd_ready s fd \<Longrightarrow> advanced fd 0 s = pcbs s"
  by (auto simp: advanced_def fd_ready_def set_fd_def cur_fd_def)

lemma advanced_step:
  assumes "fd_ready s fd" and "pcbs s' = advanced fd 1 s" and "current_pcb s' = current_pcb s"
  shows "fd_ready s' fd" and "advanced fd n s' = advanced fd (Suc n) s"
  using assms by (auto simp: advanced_def fd_ready_def set_fd_def cur_fd_def algebra_simps)

lemma div_mod_step:
  "Suc n mod 4096 = 0 \<Longrightarrow> Suc n div 4096 = Suc (n div 4096)"
  "Suc n mod 4096 \<noteq> 0 \<Longrightarrow> Suc n div 4096 = n div 4096 \<and> Suc n mod 4096 = Suc (n mod 4096)"
  by (auto simp: div_Suc mod_Suc)

lemma cur_offset_test:
  fixes cur :: u32
  assumes "cur = of_nat (n mod 4096)"
  shows "(cur + 1) mod 4096 = 0 \<longleftrightarrow> Suc n mod 4096 = 0"
proof -
  have lt: "n mod 4096 < 4096" by simp
  have "unat (cur + 1) = n mod 4096 + 1"
    using lt unat_of_nat32 [of "n mod 4096 + 1"] assms by (simp add: add.commute)
  then have "unat ((cur + 1) mod 4096) = (n mod 4096 + 1) mod 4096" by (simp add: unat_mod)
  also have "\<dots> = Suc n mod 4096" using mod_add_left_eq [of n 4096 1] by simp
  finally show ?thesis by (metis unat_eq_0)
qed

text \<open>How the position inside the file moves on: the next byte of the block, or the next block.\<close>

definition next_offset :: "nat \<Rightarrow> u32 \<Rightarrow> u32" where
  "next_offset n cur = (if Suc n mod 4096 = 0 then 0 else cur + 1)"

definition next_block :: "nat \<Rightarrow> u32 \<Rightarrow> u32" where
  "next_block n dbn = (if Suc n mod 4096 = 0 then dbn + 1 else dbn)"

lemma next_offset_mod: "cur = of_nat (n mod 4096) \<Longrightarrow> next_offset n cur = of_nat (Suc n mod 4096)"
  using div_mod_step(2) [of n] by (auto simp: next_offset_def)

lemma next_block_div:
  assumes "Suc n \<le> j"
  shows "next_block n dbn + of_nat (j div 4096 - Suc n div 4096) = dbn + of_nat (j div 4096 - n div 4096)"
proof (cases "Suc n mod 4096 = 0")
  case True
  then have w: "Suc n div 4096 = Suc (n div 4096)" by (rule div_mod_step)
  have "Suc n div 4096 \<le> j div 4096" using assms by (rule div_le_mono)
  then have "j div 4096 - n div 4096 = Suc (j div 4096 - Suc n div 4096)" using w by linarith
  then show ?thesis using True by (simp add: next_block_def)
next
  case False
  then show ?thesis using div_mod_step(2) [of n] by (simp add: next_block_def)
qed

definition copied_byte :: "u32 \<Rightarrow> u32 \<Rightarrow> nat \<Rightarrow> 'a fs_state_scheme \<Rightarrow> 'a fs_state_scheme" where
  "copied_byte buf a fd s = s\<lparr>mem := (mem s)(buf := mem s a), pcbs := advanced fd 1 s\<rparr>"

lemma read_one_loop_step:
  assumes "offset < f_size" and "cur = of_nat (unat offset mod 4096)"
  shows "read_one_loop (Suc n) buf offset cur dbn f_size b fd s =
    read_one_loop n (buf + 1) (offset + 1) (next_offset (unat offset) cur) (next_block (unat offset) dbn)
      f_size (b + 1) fd (copied_byte buf (data_block s dbn + cur) fd s)"
  using assms(1) cur_offset_test [OF assms(2)]
  by (simp add: Let_def memcpy_1 next_offset_def next_block_def copied_byte_def set_cur_fd_def
      upd_pcb_def cur_fd_def advanced_def)

lemma past_first:
  fixes a buf :: u32
  assumes "Suc c \<le> unat (a - buf)"
  shows "a \<noteq> buf" and "c \<le> unat (a - (buf + 1))"
proof -
  show "a \<noteq> buf" using assms by auto
  have "unat (a - (buf + of_nat 1)) = unat (a - buf) - 1" by (rule region_shift) (use assms in auto)
  with assms show "c \<le> unat (a - (buf + 1))" by simp
qed

lemma filled_from_step:
  assumes "Suc c < 4294967296" and "\<And>i. i < c \<Longrightarrow> src (Suc i) \<noteq> buf"
  shows "filled (m(buf := m (src 0))) (buf + 1) c (\<lambda>i. (m(buf := m (src 0))) (src (Suc i)))
    = filled m buf (Suc c) (\<lambda>i. m (src i))"
proof -
  have "filled (m(buf := m (src 0))) (buf + 1) c (\<lambda>i. (m(buf := m (src 0))) (src (Suc i)))
      = filled (m(buf := m (src 0))) (buf + 1) c (\<lambda>i. m (src (Suc i)))"
    by (rule filled_cong) (simp add: assms(2))
  also have "\<dots> = filled m buf (Suc c) (\<lambda>i. m (src i))"
    using filled_Suc [OF assms(1), of m buf "\<lambda>i. m (src i)"] by simp
  finally show ?thesis .
qed

lemma read_one_loop_eq:
  fixes addr :: "nat \<Rightarrow> u32" and s :: "'a fs_state_scheme"
  assumes "cnt = min n (unat f_size - unat offset)" and "cur = of_nat (unat offset mod 4096)"
    and "\<And>j. unat offset \<le> j \<Longrightarrow> j < unat offset + cnt \<Longrightarrow>
      data_block s (dbn + of_nat (j div 4096 - unat offset div 4096)) + of_nat (j mod 4096) = addr j"
    and "\<And>j. unat offset \<le> j \<Longrightarrow> j < unat offset + cnt \<Longrightarrow> cnt \<le> unat (addr j - buf)"
    and "fd_ready s fd"
  shows "read_one_loop n buf offset cur dbn f_size b fd s =
    (b + of_nat cnt, s\<lparr>mem := filled (mem s) buf cnt (\<lambda>i. mem s (addr (unat offset + i))),
                       pcbs := advanced fd cnt s\<rparr>)"
  using assms
proof (induction n arbitrary: buf offset cur dbn b s cnt)
  case 0
  then show ?case by (simp add: advanced_0)
next
  case (Suc n)
  let ?o = "unat offset"
  show ?case
  proof (cases "offset < f_size")
    case False
    then have "cnt = 0" using Suc.prems(1) by (simp add: word_less_nat_alt)
    with False Suc.prems(5) show ?thesis by (simp add: advanced_0)
  next
    case True
    then have less: "?o < unat f_size" by (simp add: word_less_nat_alt)
    then have o1: "unat (offset + 1) = Suc ?o" using unat_lt32 [of f_size] by (simp add: unat_add32)
    define c where "c = min n (unat f_size - Suc ?o)"
    have cnt: "cnt = Suc c" using Suc.prems(1) less unfolding c_def by auto
    have small: "Suc c < 4294967296" using less unat_lt32 [of f_size] unfolding c_def by linarith
    have first: "data_block s dbn + cur = addr ?o" using Suc.prems(3) [of ?o] Suc.prems(2) cnt by simp
    define t where "t = copied_byte buf (addr ?o) fd s"
    have t: "mem t = (mem s)(buf := mem s (addr ?o))" "pcbs t = advanced fd 1 s" "current_pcb t = current_pcb s"
      "data_block t = data_block s" by (simp_all add: t_def copied_byte_def fun_eq_iff data_block_def)
    have far: "Suc c \<le> unat (addr j - buf)" if "?o \<le> j" "j < ?o + Suc c" for j
      using Suc.prems(4) [of j] that cnt by simp
    have "read_one_loop n (buf + 1) (offset + 1) (next_offset ?o cur) (next_block ?o dbn) f_size (b + 1) fd t =
      (b + 1 + of_nat c, t\<lparr>mem := filled (mem t) (buf + 1) c (\<lambda>i. mem t (addr (unat (offset + 1) + i))),
                           pcbs := advanced fd c t\<rparr>)"
    proof (rule Suc.IH)
      show "c = min n (unat f_size - unat (offset + 1))" by (simp add: c_def o1)
      show "next_offset ?o cur = of_nat (unat (offset + 1) mod 4096)"
        unfolding o1 by (rule next_offset_mod [OF Suc.prems(2)])
      show "data_block t (next_block ?o dbn + of_nat (j div 4096 - unat (offset + 1) div 4096))
          + of_nat (j mod 4096) = addr j" if "unat (offset + 1) \<le> j" "j < unat (offset + 1) + c" for j
        using that Suc.prems(3) [of j] cnt unfolding o1 t by (simp only: next_block_div)
      show "c \<le> unat (addr j - (buf + 1))" if "unat (offset + 1) \<le> j" "j < unat (offset + 1) + c" for j
        using that far [of j] by (intro past_first(2)) (simp add: o1)
      show "fd_ready t fd" by (rule advanced_step(1) [OF Suc.prems(5) t(2,3)])
    qed
    moreover have "advanced fd c t = advanced fd cnt s"
      using advanced_step(2) [OF Suc.prems(5) t(2,3)] by (simp add: cnt)
    moreover have "filled (mem t) (buf + 1) c (\<lambda>i. mem t (addr (Suc ?o + i)))
        = filled (mem s) buf cnt (\<lambda>i. mem s (addr (?o + i)))"
      using filled_from_step [OF small, of "\<lambda>i. addr (?o + i)" buf "mem s"] past_first(1) [OF far]
      by (simp add: t cnt)
    ultimately show ?thesis
      unfolding read_one_loop_step [OF True Suc.prems(2)] first t_def [symmetric]
      by (simp add: o1 cnt t_def copied_byte_def add.assoc)
  qed
qed

text \<open>
  The driver advances from block to block by adding one to the block number, which is right
  for files whose blocks lie next to each other.
\<close>

definition contiguous :: "'a fs_state_scheme \<Rightarrow> u32 \<Rightarrow> nat \<Rightarrow> bool" where
  "contiguous s k l \<longleftrightarrow> (\<forall>i. 4096 * i < l \<longrightarrow>
     inode_block s k (of_nat i) (mem s) = inode_block s k 0 (mem s) + of_nat i)"

lemma contiguous_one: "l \<le> 4096 \<Longrightarrow> contiguous s k l"
  unfolding contiguous_def
proof (intro allI impI)
  fix i :: nat
  assume "l \<le> 4096" "4096 * i < l"
  then have "i = 0" by linarith
  then show "inode_block s k (of_nat i) (mem s) = inode_block s k 0 (mem s) + of_nat i" by simp
qed

lemma contiguous_addr:
  assumes "contiguous s k l" and "n \<le> j" and "j < l"
  shows "data_block s (inode_block s k (of_nat (n div 4096)) (mem s) + of_nat (j div 4096 - n div 4096))
    + of_nat (j mod 4096) = file_addr s k j"
proof -
  have "4096 * (j div 4096) \<le> j" by simp
  moreover have "n div 4096 \<le> j div 4096" using assms(2) by (rule div_le_mono)
  ultimately have "4096 * (j div 4096) < l" "4096 * (n div 4096) < l" using assms(3) by linarith+
  then have "inode_block s k (of_nat (j div 4096)) (mem s) = inode_block s k 0 (mem s) + of_nat (j div 4096)"
    "inode_block s k (of_nat (n div 4096)) (mem s) = inode_block s k 0 (mem s) + of_nat (n div 4096)"
    using assms(1) unfolding contiguous_def by blast+
  moreover have "(of_nat (j div 4096) :: u32) = of_nat (n div 4096) + of_nat (j div 4096 - n div 4096)"
    using \<open>n div 4096 \<le> j div 4096\<close> by simp
  ultimately show ?thesis by (simp add: file_addr_def add.assoc)
qed

text \<open>The inode number is computed back from the descriptor's pointer.\<close>

lemma inode_number:
  fixes s :: "'a fs_state_scheme"
  assumes "inodes_array s = bootblock s + 4096" and "unat k < 1048575"
  shows "(inode_at s k - bootblock s) div 4096 - 1 = k"
proof -
  have "inode_at s k - bootblock s = of_nat (4096 * (unat k + 1))"
    using assms(1) by (simp add: inode_at_def algebra_simps)
  moreover have "unat (of_nat (4096 * (unat k + 1)) :: u32) = 4096 * (unat k + 1)"
    using assms(2) by (intro unat_of_nat32) simp
  ultimately have "unat ((inode_at s k - bootblock s) div 4096) = unat k + 1"
    by (simp add: unat_div)
  then have "(inode_at s k - bootblock s) div 4096 = of_nat (unat k + 1)" by (metis of_nat_unat32)
  then show ?thesis by simp
qed

definition opened :: "'a fs_state_scheme \<Rightarrow> nat \<Rightarrow> u32 \<Rightarrow> bool" where
  "opened s fd k \<longleftrightarrow> fd_ready s fd \<and> inode_ptr (cur_fd s fd) = inode_at s k
     \<and> inodes_array s = bootblock s + 4096 \<and> unat k < 1048575"

lemma read_data_one_eq:
  fixes s :: "'a fs_state_scheme" and n k :: u32 and fd :: nat
  defines "p \<equiv> unat (file_position (cur_fd s fd))"
  defines "cnt \<equiv> min (unat n) (unat (inode_length s k (mem s)) - p)"
  assumes "opened s fd k" and "contiguous s k (unat (inode_length s k (mem s)))"
    and "\<And>j. j < unat (inode_length s k (mem s)) \<Longrightarrow> cnt \<le> unat (file_addr s k j - buf)"
  shows "read_data_one fd buf n s = (of_nat cnt,
    s\<lparr>mem := filled (mem s) buf cnt (\<lambda>i. file_byte s k (p + i)), pcbs := advanced fd cnt s\<rparr>)"
proof -
  let ?off = "file_position (cur_fd s fd)"
  have k: "(inode_ptr (cur_fd s fd) - bootblock s) div 4096 - 1 = k"
    using assms(3) inode_number [of s k] by (simp add: opened_def)
  have "of_nat (unat (?off div 4096)) = ?off div 4096" by simp
  then have d: "of_nat (p div 4096) = ?off div 4096" by (simp add: p_def unat_div)
  have "of_nat (unat (?off mod 4096)) = ?off mod 4096" by simp
  then have c: "?off mod 4096 = of_nat (unat ?off mod 4096)" by (simp only: unat_mod unat_numeral) simp
  have "read_one_loop (unat n) buf ?off (?off mod 4096) (inode_block s k (?off div 4096) (mem s))
      (inode_length s k (mem s)) 0 fd s = (0 + of_nat cnt,
      s\<lparr>mem := filled (mem s) buf cnt (\<lambda>i. mem s (file_addr s k (unat ?off + i))), pcbs := advanced fd cnt s\<rparr>)"
  proof (rule read_one_loop_eq [OF _ c])
    show "cnt = min (unat n) (unat (inode_length s k (mem s)) - unat ?off)" by (simp add: cnt_def p_def)
    show "fd_ready s fd" using assms(3) by (simp add: opened_def)
    fix j assume j: "unat ?off \<le> j" "j < unat ?off + cnt"
    then have l: "j < unat (inode_length s k (mem s))" by (simp add: cnt_def p_def)
    show "cnt \<le> unat (file_addr s k j - buf)" by (rule assms(5) [OF l])
    show "data_block s (inode_block s k (?off div 4096) (mem s) + of_nat (j div 4096 - unat ?off div 4096))
        + of_nat (j mod 4096) = file_addr s k j"
      using contiguous_addr [OF assms(4) j(1) l] d by (simp add: p_def)
  qed
  then show ?thesis by (simp add: read_data_one_def Let_def k p_def file_byte_def)
qed

section \<open>Descriptors\<close>

lemma find_free_fd_from_spec:
  "find_free_fd_from ds i = (if \<forall>d\<in>set ds. fd_ops d \<noteq> Ops_null then - 1
     else int (i + length (takeWhile (\<lambda>d. fd_ops d \<noteq> Ops_null) ds)))"
  by (induction ds arbitrary: i) auto

text \<open>The lowest free descriptor from 2 to 7, or -1.\<close>

lemma find_free_fd_cases:
  assumes "length (file_array (pcbs s ! i)) = 8"
  obtains "find_free_fd i s = - 1" "\<forall>fd. 2 \<le> fd \<and> fd < 8 \<longrightarrow> fd_ops (file_array (pcbs s ! i) ! fd) \<noteq> Ops_null"
  | fd where "find_free_fd i s = int fd" "2 \<le> fd" "fd < 8" "fd_ops (file_array (pcbs s ! i) ! fd) = Ops_null"
      "\<forall>e. 2 \<le> e \<and> e < fd \<longrightarrow> fd_ops (file_array (pcbs s ! i) ! e) \<noteq> Ops_null"
proof -
  let ?fa = "file_array (pcbs s ! i)"
  let ?P = "\<lambda>d. fd_ops d \<noteq> Ops_null"
  let ?ds = "drop 2 ?fa"
  let ?k = "length (takeWhile ?P ?ds)"
  have eq: "find_free_fd i s = (if \<forall>d\<in>set ?ds. ?P d then - 1 else int (2 + ?k))"
    using assms by (simp add: find_free_fd_def FD_MIN_IDX_def FD_MAX_IDX_def find_free_fd_from_spec)
  have at: "?ds ! e = ?fa ! (2 + e)" if "e < 6" for e using that assms by simp
  have at2: "?ds ! (e - 2) = ?fa ! e" if "2 \<le> e" "e < 8" for e
    using at [of "e - 2"] that by (simp only: le_add_diff_inverse)
  show thesis
  proof (cases "\<forall>d\<in>set ?ds. ?P d")
    case True
    have "?P (?fa ! fd)" if "2 \<le> fd \<and> fd < 8" for fd
    proof -
      have "?ds ! (fd - 2) \<in> set ?ds" by (rule nth_mem) (use that assms in auto)
      with True at2 [of fd] that show ?thesis by auto
    qed
    with that(1) eq True show thesis by auto
  next
    case False
    then have "takeWhile ?P ?ds \<noteq> ?ds" by (metis set_takeWhileD)
    then have "?k \<noteq> length ?ds" by (metis takeWhile_eq_take take_all order_refl)
    then have k: "?k < 6" using length_takeWhile_le [of ?P ?ds] assms by simp
    show thesis
    proof (rule that(2))
      show "find_free_fd i s = int (2 + ?k)" using eq False by (simp only: if_False)
      show "fd_ops (?fa ! (2 + ?k)) = Ops_null"
        using nth_length_takeWhile [of ?P ?ds] k at [OF k] assms by simp
      show "\<forall>e. 2 \<le> e \<and> e < 2 + ?k \<longrightarrow> ?P (?fa ! e)"
      proof (intro allI impI)
        fix e assume e: "2 \<le> e \<and> e < 2 + ?k"
        then have "e - 2 < ?k" by linarith
        then have "?P (?ds ! (e - 2))"
          by (metis (mono_tags, lifting) nth_mem set_takeWhileD takeWhile_nth)
        with at2 [of e] e k show "?P (?fa ! e)" by simp
      qed
    qed (use k in simp_all)
  qed
qed

lemma load_bytes_filled:
  "n < 4294967296 \<Longrightarrow> load_bytes (filled m d n f) d n = map f [0..<n]"
  by (rule nth_equalityI) (simp_all add: filled_def unat_of_nat32)

lemma filled_outside: "n \<le> unat (a - d) \<Longrightarrow> filled m d n f a = m a"
  by (simp add: filled_def)

lemma open_regular:
  assumes d: "read_dentry_by_name s name (dentry s) = (0, e)" and "ftype e = FILE_TYPE_REG"
    and c: "current_pcb s = Some c" "c < length (pcbs s)" "length (file_array (pcbs s ! c)) = 8"
    and fd: "find_free_fd c s = int fd" "fd < 8"
  shows "open_file name s = (of_nat fd, set_cur_fd fd \<lparr>fd_ops = Ops_file, inode_ptr = inode_at s (inode e),
    file_position = 0, flags = 1\<rparr> (s\<lparr>dentry := e\<rparr>))"
proof -
  have u: "unat (of_nat fd :: u32) = fd" using fd(2) by (simp add: unat_of_nat32)
  then have "(of_nat fd :: u32) \<noteq> 0xFFFFFFFF" using fd(2) by auto
  moreover have "find_free_fd c (s\<lparr>dentry := e\<rparr>) = int fd"
    using fd(1) by (simp add: find_free_fd_def)
  ultimately show ?thesis
    using assms(2) c(1) u by (simp add: open_file_def d FILE_TYPE_REG_def FILE_TYPE_RTC_def
        FILE_TYPE_DIR_def inode_at_def)
qed

lemma cur_fd_set_cur_fd:
  assumes "current_pcb s = Some c" "c < length (pcbs s)" "fd < length (file_array (pcbs s ! c))"
  shows "cur_fd (set_cur_fd fd d s) fd = d" and "fd_ready (set_cur_fd fd d s) fd"
  using assms by (simp_all add: cur_fd_def set_cur_fd_def upd_pcb_def set_fd_def fd_ready_def)

lemma set_cur_fd_simps [simp]:
  "mem (set_cur_fd fd d s) = mem s" "current_pcb (set_cur_fd fd d s) = current_pcb s"
  "bootblock (set_cur_fd fd d t) = bootblock t" "inodes_array (set_cur_fd fd d t) = inodes_array t"
  "data_array (set_cur_fd fd d t) = data_array t"
  by (simp_all add: set_cur_fd_def upd_pcb_def)

lemma image_same:
  assumes "mem t = mem s" "inodes_array t = inodes_array s" "data_array t = data_array s"
  shows "inode_at t = inode_at s" "inode_length t = inode_length s" "inode_block t = inode_block s"
    "file_addr t = file_addr s" "file_byte t = file_byte s" "contiguous t = contiguous s"
proof -
  show a: "inode_at t = inode_at s" by (simp add: fun_eq_iff inode_at_def assms)
  show "inode_length t = inode_length s" by (simp add: fun_eq_iff inode_length_def a)
  show b: "inode_block t = inode_block s" by (simp add: fun_eq_iff inode_block_def a)
  show c: "file_addr t = file_addr s" by (simp add: fun_eq_iff file_addr_def data_block_def b assms)
  show "file_byte t = file_byte s" by (simp add: fun_eq_iff file_byte_def c assms)
  show "contiguous t = contiguous s" by (simp add: fun_eq_iff contiguous_def b assms)
qed

section \<open>Properties\<close>

text \<open>
  A small image for the witnesses: the directory itself and a five-byte file \<open>f\<close>, the
  string \<open>f\<close> a caller might pass, and a process with its first two descriptors in use.
\<close>

definition image0 :: mem where
  "image0 = (\<lambda>_. 0)(0x500000 := 2, 0x500004 := 1, 0x500040 := 46, 0x500060 := 1, 0x500080 := 102,
     0x5000A0 := 2, 0x501000 := 5, 0x502000 := 104, 0x502001 := 101, 0x502002 := 108,
     0x502003 := 108, 0x502004 := 111, 0x700000 := 102)"

definition null_fd :: fs_descriptor where
  "null_fd = \<lparr>fd_ops = Ops_null, inode_ptr = 0, file_position = 0, flags = 0\<rparr>"

definition pcb0 :: pcb where
  "pcb0 = \<lparr>file_array = replicate 8 null_fd, program_id = 0, parent_id = 0, address = 0, esp = 0,
     ebp = 0, last_eip = 0, esp0 = 0, process_terminal = 0\<rparr>"

definition fs_state0 :: fs_state where
  "fs_state0 = \<lparr>iolog = [], dev = rtc_readback, iflag = True, master_mask = 0, slave_mask = 0,
     file_ops = null_ops, rtc_ops = null_ops, terminal_ops = null_ops, stdin_ops = null_ops,
     stdout_ops = null_ops, rtc_sync_flag = 0, rtc_read_flag = 0, mem = image0,
     terminal_ptr = VIDEO_MEM, terminal_buffer = replicate 3 (replicate 128 0),
     buffer_len = [0, 0, 0], csr_x = [0, 0, 0], csr_y = [0, 0, 0], line_y = [0, 0, 0],
     line_beginning = [0, 0, 0], curr_terminal = 0, attrib = 0x0F,
     terminal_info = replicate 3 \<lparr>top_process_id = 0, num_process = 0\<rparr>,
     terminal_memory = [0x1000, 0x2000, 0x3000], enter_flag = 0, ctrl_flag = 0, cap_flag = 0, alt_flag = 0,
     pcbs = [pcb0, pcb0\<lparr>program_id := 1, file_array := [null_fd\<lparr>fd_ops := Ops_stdin, flags := 1\<rparr>,
       null_fd\<lparr>fd_ops := Ops_stdout, flags := 1\<rparr>, null_fd\<lparr>fd_ops := Ops_file, flags := 1\<rparr>,
       null_fd, null_fd, null_fd, null_fd, null_fd]\<rparr>, pcb0, pcb0, pcb0, pcb0, pcb0],
     current_pcb = Some 1, process_number = 1, pcbs_at = 0x450000, ops_at = (\<lambda>_. 0),
     fs_start = 0x500000, bootblock = 0x500000, inodes_array = 0x501000, data_array = 0x502000,
     dentry = load_dentry (\<lambda>_. 0) 0\<rparr>"

lemma fs_state0_image:
  "num_dir_entries fs_state0 = 2" "inode_length fs_state0 0 image0 = 5"
  "inode_block fs_state0 0 0 image0 = 0" "inode_at fs_state0 0 = 0x501000"
  "data_block fs_state0 0 = 0x502000" "dir_entry fs_state0 0 = 0x500040" "dir_entry fs_state0 1 = 0x500080"
  "mem fs_state0 = image0"
  by (simp_all add: fs_state0_def num_dir_entries_def inode_length_def inode_block_def inode_at_def
      data_block_def dir_entry_def load32_def image0_def)

lemma fs_state0_addr: "j < 5 \<Longrightarrow> file_addr fs_state0 0 j = 0x502000 + of_nat j"
  by (simp add: file_addr_def fs_state0_image)

lemma below_buffer:
  fixes a :: u32
  assumes "unat a + i < unat b" and "i < 4096" and "unat b - unat a < 4294967296 - 4096"
  shows "4096 \<le> unat (a + of_nat i - b)"
proof -
  have "unat (a + of_nat i) = unat a + i"
    using assms unat_lt32 [of b] by (simp add: unat_add32 unat_of_nat32)
  with assms show ?thesis by (simp add: unat_sub32)
qed

lemma fs_state0_off: "off_image fs_state0 0 5 0x600000 5"
  unfolding off_image_def
proof (intro conjI allI impI)
  fix i :: nat assume "i < 4096"
  then show "5 \<le> unat (inode_at fs_state0 0 + of_nat i - 0x600000)"
    using below_buffer [of "0x501000" i "0x600000"] by (simp add: fs_state0_image)
next
  fix j :: nat assume "j < 5"
  then show "5 \<le> unat (file_addr fs_state0 0 j - 0x600000)"
    using below_buffer [of "0x502000" j "0x600000"] by (simp add: fs_state0_addr)
qed

text \<open>
  A name lookup fails exactly when no directory entry has that name (compared up to 32
  characters), and delivers the last entry that has it; in a directory without duplicate names
  that is the entry.
\<close>

theorem read_dentry_by_name_finds:
  assumes "n = unat (num_dir_entries s)"
  shows "(fst (read_dentry_by_name s name d) = - 1 \<longleftrightarrow> (\<forall>i < n. \<not> name_matches s name i))
    \<and> (\<forall>i < n. name_matches s name i \<and> (\<forall>j < n. i < j \<longrightarrow> \<not> name_matches s name j) \<longrightarrow>
         read_dentry_by_name s name d = (0, load_dentry (mem s) (dir_entry s (of_nat i))))"
proof -
  have "fst (read_dentry_by_name s name d) = - 1 \<longleftrightarrow> (\<forall>i < n. \<not> name_matches s name i)"
    by (auto simp: read_dentry_by_name_eq Let_def filter_empty_conv assms)
  moreover have "read_dentry_by_name s name d = (0, load_dentry (mem s) (dir_entry s (of_nat i)))"
    if "i < n" "name_matches s name i" "\<forall>j < n. i < j \<longrightarrow> \<not> name_matches s name j" for i
  proof -
    have "filter (name_matches s name) [0..<n] \<noteq> [] \<and> last (filter (name_matches s name) [0..<n]) = i"
      by (rule last_filter_upt) (use that in auto)
    then show ?thesis by (simp add: read_dentry_by_name_eq assms)
  qed
  ultimately show ?thesis by blast
qed

theorem read_dentry_by_name_finds_witness:
  "read_dentry_by_name fs_state0 0x700000 (dentry fs_state0) = (0, load_dentry image0 0x500080)"
proof -
  have "name_matches fs_state0 0x700000 1" "\<not> name_matches fs_state0 0x700000 0"
    by (simp_all add: name_matches_def fs_state0_image) (code_simp+)
  moreover have n: "2 = unat (num_dir_entries fs_state0)" by (simp add: fs_state0_image)
  ultimately show ?thesis
    using read_dentry_by_name_finds [OF n, of "0x700000" "dentry fs_state0"]
    by (auto simp: fs_state0_image less_Suc_eq numeral_2_eq_2)
qed

text \<open>
  Read\_data from the start of a file, for a length whose last block holds at least two
  bytes, fills the buffer with the file's first bytes, block by block through the inode, and
  changes nothing else; the value returned is the length rounded up to whole blocks.
\<close>

theorem read_data_reads:
  assumes "unat len \<le> unat (inode_length s k (mem s))" and "unat len \<le> 1023 * 4096"
    and "2 \<le> unat len mod 4096" and "off_image s k (unat len) buf (unat len)"
  shows "\<exists>m. read_data s k 0 buf len = (4096 * int (unat len div 4096 + 1), m)
    \<and> load_bytes m buf (unat len) = map (file_byte s k) [0..<unat len]
    \<and> (\<forall>a. unat len \<le> unat (a - buf) \<longrightarrow> m a = mem s a)"
  using read_data_prefix [OF assms] by (simp add: load_bytes_filled unat_lt32 filled_outside)

theorem read_data_reads_witness:
  "\<exists>m. read_data fs_state0 0 0 0x600000 5 = (4096, m)
     \<and> load_bytes m 0x600000 5 = map (file_byte fs_state0 0) [0..<5]"
  using read_data_reads [of 5 fs_state0 0 "0x600000"] fs_state0_off by (auto simp: fs_state0_image)

text \<open>
  C40: for a length that is a whole number of blocks read\_data returns the full count but has
  not copied the last block: the last 4096 bytes of the buffer are what they were before.
\<close>

theorem read_data_drops_last_block:
  assumes "unat len = 4096 * (q + 1)" and "unat len \<le> unat (inode_length s k (mem s))" and "q < 1023"
    and "off_image s k (unat len) buf (unat len)"
  shows "read_data s k 0 buf len = (int (unat len), filled (mem s) buf (4096 * q) (file_byte s k))"
proof -
  have q: "4096 * q \<le> unat len" "q \<le> 1023" using assms by simp_all
  have "(unat len + 4094) div 4096 = q + 1" unfolding assms(1) by simp
  then have blocks: "count_blocks 0 len = int q + 1" by (simp add: count_blocks_0)
  have "unat (len mod 4096) = unat len mod 4096" by (simp add: unat_mod)
  then have "unat (len mod 4096) = 0" unfolding assms(1) by simp
  then have r: "len mod 4096 = 0" by (simp only: unat_eq_0)
  have "read_blocks s k 0 (int q + 1) (mem s) buf 0
      = (filled (mem s) buf (4096 * q) (file_byte s k), buf + of_nat (4096 * q), int (4096 * q))"
    using read_blocks_filled [OF assms(4) q(1) q(1,2), of 0 0] by simp
  moreover have "\<not> inode_length s k (mem s) < len" using assms(2) by (simp add: word_less_nat_alt)
  ultimately show ?thesis
    using assms(1) by (simp add: read_data_def Let_def blocks r memcpy_def)
qed

theorem read_data_drops_last_block_witness:
  "read_data (fs_state0\<lparr>mem := image0(0x501001 := 0x10)\<rparr>) 0 0 0x600000 4096
     = (4096, image0(0x501001 := 0x10))"
proof -
  let ?s = "fs_state0\<lparr>mem := image0(0x501001 := 0x10)\<rparr>"
  have img: "inode_at ?s 0 = 0x501000" "unat (inode_length ?s 0 (mem ?s)) = 4101"
    "inode_block ?s 0 0 (mem ?s) = 0" "data_block ?s 0 = 0x502000"
    by (simp_all add: fs_state0_def inode_at_def inode_length_def inode_block_def data_block_def
        load32_def image0_def)
  have "file_addr ?s 0 j = 0x502000 + of_nat j" if "j < 4096" for j
    using that img by (simp add: file_addr_def)
  then have "off_image ?s 0 4096 0x600000 4096"
    using below_buffer [of "0x501000" _ "0x600000"] below_buffer [of "0x502000" _ "0x600000"]
    by (simp add: off_image_def img)
  then show ?thesis using read_data_drops_last_block [of 4096 0 ?s 0 "0x600000"] img by simp
qed

text \<open>
  Reading an open regular file whose blocks are contiguous delivers the bytes from the
  descriptor's position on, up to the number asked for or to the end of the file, returns how
  many, moves the position behind them, and changes no other byte of memory.
\<close>

theorem read_file_sequential:
  assumes "opened s fd k" and "inode_at s k \<noteq> 0"
    and "fsize = unat (inode_length s k (mem s))" and "contiguous s k fsize"
    and "p = unat (file_position (cur_fd s fd))" and "cnt = min (unat (of_int n :: u32)) (fsize - p)"
    and "\<forall>j < fsize. cnt \<le> unat (file_addr s k j - buf)"
  shows "\<exists>s'. read_file fd buf n s = Some (of_nat cnt, s')
    \<and> load_bytes (mem s') buf cnt = map (\<lambda>i. file_byte s k (p + i)) [0..<cnt]
    \<and> (\<forall>a. cnt \<le> unat (a - buf) \<longrightarrow> mem s' a = mem s a)
    \<and> unat (file_position (cur_fd s' fd)) = p + cnt"
proof -
  have eq: "read_data_one fd buf (of_int n) s = (of_nat cnt,
      s\<lparr>mem := filled (mem s) buf cnt (\<lambda>i. file_byte s k (p + i)), pcbs := advanced fd cnt s\<rparr>)"
    using read_data_one_eq [of s fd k "of_int n" buf] assms by simp
  have small: "cnt < 4294967296" using assms(6) unat_lt32 [of "of_int n"] by linarith
  have "p + cnt < 4294967296"
    using assms(3,5,6) unat_lt32 [of "inode_length s k (mem s)"] unat_lt32 [of "file_position (cur_fd s fd)"]
    by linarith
  then have "unat (file_position (cur_fd s fd) + of_nat cnt) = p + cnt"
    using small by (simp add: unat_add32 unat_of_nat32 assms(5))
  moreover have "cur_fd (s\<lparr>mem := m, pcbs := advanced fd cnt s\<rparr>) fd
      = (cur_fd s fd)\<lparr>file_position := file_position (cur_fd s fd) + of_nat cnt\<rparr>" for m
    using assms(1) by (auto simp: opened_def fd_ready_def cur_fd_def advanced_def set_fd_def)
  ultimately show ?thesis
    using assms(1,2) eq small
    by (simp add: read_file_def opened_def load_bytes_filled filled_outside)
qed

theorem read_file_sequential_witness:
  "\<exists>s'. read_file 2 0x600000 100 (set_cur_fd 2 \<lparr>fd_ops = Ops_file, inode_ptr = 0x501000,
       file_position = 1, flags = 1\<rparr> fs_state0) = Some (4, s')
     \<and> unat (file_position (cur_fd s' 2)) = 5"
proof -
  let ?d = "\<lparr>fd_ops = Ops_file, inode_ptr = 0x501000, file_position = 1, flags = 1\<rparr>"
  let ?s = "set_cur_fd 2 ?d fs_state0"
  have c: "cur_fd ?s 2 = ?d" "fd_ready ?s 2"
    by (rule cur_fd_set_cur_fd [where c = 1]; simp add: fs_state0_def)+
  have same: "inode_at ?s = inode_at fs_state0" "inode_length ?s = inode_length fs_state0"
    "file_addr ?s = file_addr fs_state0" "contiguous ?s = contiguous fs_state0"
    by (rule image_same; simp)+
  have op: "opened ?s 2 0" using c by (simp add: opened_def same fs_state0_image) (simp add: fs_state0_def)
  have ct: "contiguous ?s 0 5" by (rule contiguous_one) simp
  have off: "\<forall>j < 5. 4 \<le> unat (file_addr ?s 0 j - 0x600000)"
    unfolding same using fs_state0_off by (auto simp: off_image_def)
  have ne: "inode_at ?s 0 \<noteq> 0" and sz: "5 = unat (inode_length ?s 0 (mem ?s))"
    by (simp_all add: same fs_state0_image)
  have p: "1 = unat (file_position (cur_fd ?s 2))" and n: "4 = min (unat (of_int 100 :: u32)) (5 - 1)"
    by (simp_all add: c)
  obtain s' where "read_file 2 0x600000 100 ?s = Some (of_nat 4, s')"
      "unat (file_position (cur_fd s' 2)) = 1 + 4"
    using read_file_sequential [OF op ne sz ct p n off] by blast
  then show ?thesis by (intro exI [of _ s']) simp
qed



text \<open>
  Reading a directory delivers one name per call, in the order of the entries: the name
  at the descriptor's position, without its terminator, and the position moves to the next
  entry; past the last entry a read returns 0 and changes nothing.
\<close>

theorem read_dir_lists:
  assumes "fd_ready s fd" and "inode_ptr (cur_fd s fd) = 0" and "p = file_position (cur_fd s fd)"
    and "cstring (mem s) (dir_entry s p) nm" and "forward_ok buf (dir_entry s p) (length nm)"
  shows "(p < num_dir_entries s \<longrightarrow> (\<exists>s'. read_file fd buf n s = Some (of_nat (length nm), s')
       \<and> load_bytes (mem s') buf (length nm) = nm \<and> file_position (cur_fd s' fd) = p + 1))
    \<and> (\<not> p < num_dir_entries s \<longrightarrow> read_file fd buf n s = Some (0, s))"
proof -
  have small: "length nm < 4294967296" using assms(4) by (simp only: cstring_def)
  then have u: "unat (of_nat (length nm) :: u32) = length nm" by (rule unat_of_nat32)
  let ?m = "memcpy (mem s) buf (dir_entry s p) (of_nat (length nm))"
  have "load_bytes ?m buf (length nm) = load_bytes (mem s) (dir_entry s p) (length nm)"
    using cpy.move_bytes [of buf "dir_entry s p" "of_nat (length nm)" "mem s"] assms(5) by (simp add: u)
  also have "\<dots> = nm" using assms(4) unfolding cstring_def by blast
  finally have copied: "load_bytes ?m buf (length nm) = nm" .
  have pos: "file_position (cur_fd (set_cur_fd fd (d\<lparr>file_position := p + 1\<rparr>) (s\<lparr>mem := m\<rparr>)) fd) = p + 1" for d m
    using assms(1) cur_fd_set_cur_fd(1) [of "s\<lparr>mem := m\<rparr>" _ fd] by (auto simp: fd_ready_def)
  have "cur_fd (s\<lparr>mem := m\<rparr>) fd = cur_fd s fd" for m by (simp add: cur_fd_def)
  with copied pos show ?thesis
    using assms(2,3) strlen_cstring [OF assms(4)]
    by (simp add: read_file_def read_dir_def Let_def)
qed

theorem read_dir_lists_witness:
  "\<exists>s'. read_file 2 0x600000 32 (set_cur_fd 2 \<lparr>fd_ops = Ops_file, inode_ptr = 0, file_position = 1,
       flags = 1\<rparr> fs_state0) = Some (1, s') \<and> load_bytes (mem s') 0x600000 1 = [102]"
proof -
  let ?d = "\<lparr>fd_ops = Ops_file, inode_ptr = 0, file_position = 1, flags = 1\<rparr>"
  let ?s = "set_cur_fd 2 ?d fs_state0"
  have c: "cur_fd ?s 2 = ?d" "fd_ready ?s 2"
    by (rule cur_fd_set_cur_fd [where c = 1]; simp add: fs_state0_def)+
  have e: "dir_entry ?s 1 = 0x500080" "num_dir_entries ?s = 2"
    using fs_state0_image by (simp_all add: dir_entry_def num_dir_entries_def)
  moreover have "cstring (mem ?s) 0x500080 [102]"
    by (simp add: fs_state0_image cstring_Cons cstring_Nil) (simp add: image0_def)
  moreover have "forward_ok 0x600000 0x500080 (length [102 :: u8])" by (simp add: forward_ok_def)
  ultimately show ?thesis
    using read_dir_lists [of ?s 2 1 "[102]" "0x600000" 32] by (auto simp: c)
qed

end
