(* ===== verification/Kud_Paging.thy ===== *)
theory Kud_Paging
  imports Kud_FS
begin

unbundle bit_operations_syntax

text \<open>
  Paging, \<^verbatim>\<open>student-distrib/paging.c\<close> and \<^verbatim>\<open>pagingasm.S\<close>. The page directories and
  tables are lists of 32-bit entries; \<open>translate\<close> is what the processor does with them.
  The memory \<open>mem\<close> of the state is what the kernel sees through the directory that is
  loaded. Below 8 MB every directory maps addresses to themselves; the 4 MB program page at
  0x8000000 shows the frame of the loaded directory, and the frames of the others are kept in
  \<open>upages\<close>. \<open>loadPageDirectory\<close> exchanges the window accordingly, and \<open>phys\<close> is the physical
  memory behind both: the refinement lemmas show that loading a directory changes no physical
  byte and that the view agrees with the translation through the tables.
\<close>

section \<open>State\<close>

record page_state = fs_state +
  page_directories :: "u32 list list"
  page_table :: "u32 list"
  page_table_vidmap :: "u32 list"
  page_table_at :: u32
  page_table_vidmap_at :: u32
  cr3 :: nat
  paging_on :: bool
  upages :: "nat \<Rightarrow> mem"

definition ATTRIBUTE_0 :: u32 where "ATTRIBUTE_0 = 0x6"
definition ATTRIBUTE_1 :: u32 where "ATTRIBUTE_1 = 0x7"
definition KERNEL_PAGE :: u32 where "KERNEL_PAGE = 0x00400183"
definition USER_PAGE_8MB :: u32 where "USER_PAGE_8MB = 0x00800087"
definition fourMB :: u32 where "fourMB = 0x400000"
definition VIDMAP :: u32 where "VIDMAP = 0x084B8000"
definition VIDMAP_OFFSET :: nat where "VIDMAP_OFFSET = 0x21"
definition PROGRAM_OFFSET :: nat where "PROGRAM_OFFSET = 0x20"
definition VIDEO_OFFSET :: nat where "VIDEO_OFFSET = 0"
definition KERNEL_OFFSET :: nat where "KERNEL_OFFSET = 1"
definition ENTRIES :: nat where "ENTRIES = 1024"
definition MAX_TASKS :: nat where "MAX_TASKS = 6"

lemmas page_consts = ATTRIBUTE_0_def ATTRIBUTE_1_def KERNEL_PAGE_def USER_PAGE_8MB_def fourMB_def
  VIDMAP_def VIDMAP_OFFSET_def PROGRAM_OFFSET_def VIDEO_OFFSET_def KERNEL_OFFSET_def ENTRIES_def MAX_TASKS_def

section \<open>The operations\<close>

definition in_window :: "u32 \<Rightarrow> bool" where
  "in_window a \<longleftrightarrow> drop_bit 22 a = 0x20"

definition loadPageDirectory :: "nat \<Rightarrow> 'a page_state_scheme \<Rightarrow> 'a page_state_scheme" where
  "loadPageDirectory i s =
     (let up = (upages s)(cr3 s := mem s) in
      s\<lparr>cr3 := i, mem := (\<lambda>a. if in_window a then up i a else mem s a), upages := up\<rparr>)"

definition enablePaging :: "'a page_state_scheme \<Rightarrow> 'a page_state_scheme" where
  "enablePaging s = s\<lparr>paging_on := True\<rparr>"

definition upd_pd :: "nat \<Rightarrow> (u32 list \<Rightarrow> u32 list) \<Rightarrow> 'a page_state_scheme \<Rightarrow> 'a page_state_scheme" where
  "upd_pd i f s = s\<lparr>page_directories := (page_directories s)[i := f (page_directories s ! i)]\<rparr>"

definition paging_init :: "'a page_state_scheme \<Rightarrow> 'a page_state_scheme" where
  "paging_init s =
     (let s = upd_pd 0 (fold (\<lambda>i pd. pd[i := ATTRIBUTE_0]) [0..<ENTRIES]) s;
          s = s\<lparr>page_table := fold (\<lambda>j pt. pt[j := (if of_nat j * 0x1000 = VIDEO_MEM
                                                   then (of_nat j * 0x1000) OR ATTRIBUTE_1
                                                   else (of_nat j * 0x1000) OR ATTRIBUTE_1)])
                                [0..<ENTRIES] (page_table s)\<rparr>;
          s = upd_pd 0 (\<lambda>pd. pd[VIDEO_OFFSET := page_table_at s OR ATTRIBUTE_1]) s;
          s = upd_pd 0 (\<lambda>pd. pd[KERNEL_OFFSET := KERNEL_PAGE]) s;
          s = loadPageDirectory 0 s
      in enablePaging s)"

text \<open>
  The bound test lets the index 6 pass, one beyond the array of six directories; writing there
  is out of bounds and has no defined result (\<open>None\<close>).
\<close>

definition new_task_pd :: "u32 \<Rightarrow> 'a page_state_scheme \<Rightarrow> (u32 \<times> 'a page_state_scheme) option" where
  "new_task_pd pid s =
     (if unat pid > MAX_TASKS then Some (minus_one, s)
      else if unat pid \<ge> MAX_TASKS then None
      else let i = unat pid;
               s = upd_pd i (fold (\<lambda>i pd. pd[i := ATTRIBUTE_0]) [0..<ENTRIES]) s;
               s = upd_pd i (\<lambda>pd. pd[VIDEO_OFFSET := page_table_at s OR ATTRIBUTE_1]) s;
               s = upd_pd i (\<lambda>pd. pd[KERNEL_OFFSET := KERNEL_PAGE]) s;
               s = upd_pd i (\<lambda>pd. pd[PROGRAM_OFFSET := USER_PAGE_8MB + pid * fourMB]) s;
               s = loadPageDirectory i s
           in Some (0, s))"

definition create_vidmap :: "'a page_state_scheme \<Rightarrow> (int \<times> 'a page_state_scheme) option" where
  "create_vidmap s =
     (let s = s\<lparr>page_table_vidmap := fold (\<lambda>j pt. pt[j := (if of_nat j * 0x1000 = VIDEO_MEM
                                                          then VIDEO_MEM OR ATTRIBUTE_1
                                                          else VIDEO_MEM OR ATTRIBUTE_0)])
                                       [0..<ENTRIES] (page_table_vidmap s)\<rparr>;
          i = unat (program_id (pcbs s ! the (current_pcb s)) - 1)
      in if i \<ge> MAX_TASKS then None
         else Some (0, upd_pd i (\<lambda>pd. pd[VIDMAP_OFFSET := page_table_vidmap_at s OR ATTRIBUTE_1]) s))"

section \<open>What the processor does with the tables\<close>

text \<open>
  The present bit is bit 0, the user bit is bit 2, bit 7 of a directory entry selects a 4 MB
  page. The result is the physical address and whether user code may use it.
\<close>

definition page_table_of :: "'a page_state_scheme \<Rightarrow> u32 \<Rightarrow> u32 list option" where
  "page_table_of s base =
     (if base = page_table_at s then Some (page_table s)
      else if base = page_table_vidmap_at s then Some (page_table_vidmap s) else None)"

definition translate :: "'a page_state_scheme \<Rightarrow> nat \<Rightarrow> u32 \<Rightarrow> (u32 \<times> bool) option" where
  "translate s i a =
     (let pde = page_directories s ! i ! unat (drop_bit 22 a) in
      if \<not> bit pde 0 then None
      else if bit pde 7 then Some ((pde AND NOT (mask 22)) OR (a AND mask 22), bit pde 2)
      else case page_table_of s (pde AND NOT (mask 12)) of
             None \<Rightarrow> None
           | Some pt \<Rightarrow>
               let pte = pt ! unat (drop_bit 12 a AND mask 10) in
               if \<not> bit pte 0 then None
               else Some ((pte AND NOT (mask 12)) OR (a AND mask 12), bit pde 2 \<and> bit pte 2))"

text \<open>The tables as initialised: directories of 1024 entries, aligned tables.\<close>

definition tables_ok :: "'a page_state_scheme \<Rightarrow> bool" where
  "tables_ok s \<longleftrightarrow> length (page_directories s) = 6 \<and> (\<forall>pd \<in> set (page_directories s). length pd = 1024)
     \<and> length (page_table_vidmap s) = 1024
     \<and> page_table s = map (\<lambda>j. (of_nat j * 0x1000) OR 7) [0..<1024]
     \<and> page_table_at s AND mask 12 = 0 \<and> page_table_vidmap_at s AND mask 12 = 0
     \<and> page_table_at s \<noteq> page_table_vidmap_at s"

text \<open>The directory of task \<open>i\<close> after it has been set up.\<close>

definition task_pd :: "'a page_state_scheme \<Rightarrow> nat \<Rightarrow> u32 list" where
  "task_pd s i = (replicate 1024 6)[0 := page_table_at s OR 7, 1 := 0x00400183,
     0x20 := 0x00800087 + of_nat i * 0x400000]"

lemma fold_list_map:
  "n \<le> length b \<Longrightarrow> fold (\<lambda>j b. b[j := f j]) [0..<n] b = map f [0..<n] @ drop n b"
proof (induction n)
  case (Suc n)
  then have "(map f [0..<n] @ drop n b)[n := f n] = map f [0..<Suc n] @ drop (Suc n) b"
    by (simp add: list_update_append Cons_nth_drop_Suc [symmetric])
  with Suc show ?case by simp
qed simp

lemma loadPageDirectory_simps [simp]:
  "page_directories (loadPageDirectory i s) = page_directories s"
  "page_table (loadPageDirectory i s) = page_table s"
  "page_table_vidmap (loadPageDirectory i s) = page_table_vidmap s"
  "page_table_at (loadPageDirectory i s) = page_table_at s"
  "page_table_vidmap_at (loadPageDirectory i s) = page_table_vidmap_at s"
  "cr3 (loadPageDirectory i s) = i" "pcbs (loadPageDirectory i s) = pcbs s"
  "current_pcb (loadPageDirectory i s) = current_pcb s"
  "terminal_info (loadPageDirectory i s) = terminal_info s"
  "process_number (loadPageDirectory i s) = process_number s"
  "curr_terminal (loadPageDirectory i s) = curr_terminal s"
  by (simp_all add: loadPageDirectory_def Let_def)

lemma new_task_pd_eq:
  assumes "tables_ok s" and "unat pid < 6"
  shows "new_task_pd pid s = Some (0, loadPageDirectory (unat pid)
    (s\<lparr>page_directories := (page_directories s)[unat pid := task_pd s (unat pid)]\<rparr>))"
proof -
  let ?pd = "page_directories s ! unat pid"
  have len: "unat pid < length (page_directories s)" using assms by (simp add: tables_ok_def)
  then have "?pd \<in> set (page_directories s)" by (rule nth_mem)
  then have "length ?pd = 1024" using assms(1) by (simp add: tables_ok_def)
  then have "fold (\<lambda>i pd. pd[i := ATTRIBUTE_0]) [0..<1024] ?pd = replicate 1024 6"
    using fold_list_map [of 1024 ?pd "\<lambda>_. ATTRIBUTE_0"] by (simp add: map_replicate_const ATTRIBUTE_0_def)
  with assms(2) len show ?thesis
    by (simp add: new_task_pd_def Let_def upd_pd_def page_consts task_pd_def)
qed

section \<open>Translation\<close>

lemma bit_7: "bit (7 :: u32) n \<longleftrightarrow> n < 3"
proof -
  have e: "(7 :: u32) = mask 3" by (simp add: mask_eq_exp_minus_1)
  show ?thesis unfolding e bit_mask_iff by auto
qed

lemma bit_7_int: "bit (7 :: int) n \<Longrightarrow> n < 3"
proof -
  have e: "(7 :: int) = mask 3" by (simp add: mask_eq_exp_minus_1)
  show "bit (7 :: int) n \<Longrightarrow> n < 3" unfolding e bit_mask_iff by simp
qed

lemma word_join: "push_bit n (drop_bit n a) OR (a AND mask n) = (a :: u32)"
  by (rule bit_word_eqI) (auto simp: bit_or_iff bit_push_bit_iff bit_drop_bit_eq bit_and_iff bit_mask_iff)

lemma aligned_bits: "a AND mask 12 = (0 :: u32) \<Longrightarrow> n < 12 \<Longrightarrow> \<not> bit a n"
proof -
  assume a: "a AND mask 12 = (0 :: u32)" and n: "n < 12"
  have "bit (a AND mask 12) n = bit a n" using n by (simp add: bit_and_iff bit_mask_iff)
  then show ?thesis unfolding a by simp
qed

lemma aligned_attr: "a AND mask 12 = (0 :: u32) \<Longrightarrow> (a OR 7) AND NOT (mask 12) = a"
  by (rule bit_word_eqI) (auto simp: bit_and_iff bit_or_iff bit_not_iff bit_mask_iff dest: aligned_bits bit_7_int)

lemma page_entry_address:
  assumes "drop_bit 22 a = (0 :: u32)"
  shows "((drop_bit 12 a AND mask 10) * 0x1000 OR 7) AND NOT (mask 12) OR (a AND mask 12) = a"
proof -
  have p: "x * 0x1000 = push_bit 12 x" for x :: u32 by (simp add: push_bit_eq_mult)
  have hi: "\<not> bit a n" if "22 \<le> n" for n
  proof -
    have "bit (drop_bit 22 a) (n - 22) = bit a n" using that by (simp add: bit_drop_bit_eq)
    then show ?thesis unfolding assms by simp
  qed
  show ?thesis unfolding p
  proof (rule bit_word_eqI)
    fix n assume "n < LENGTH(32)"
    then show "bit ((push_bit 12 (drop_bit 12 a AND mask 10) OR 7) AND NOT (mask 12) OR (a AND mask 12)) n = bit a n"
      using hi [of n] by (cases "n < 12"; cases "n < 22")
        (auto simp: bit_and_iff bit_or_iff bit_not_iff bit_mask_iff bit_push_bit_iff bit_drop_bit_eq
          dest: bit_7_int)
  qed
qed

text \<open>What a task's directory maps, entry by entry; entry 0x21 is for the mapped video page.\<close>

definition task_mapped :: "'a page_state_scheme \<Rightarrow> nat \<Rightarrow> bool" where
  "task_mapped s i \<longleftrightarrow> (let pd = page_directories s ! i in
     pd ! 0 = page_table_at s OR 7 \<and> pd ! 1 = 0x00400183 \<and> pd ! 0x20 = 0x00800087 + of_nat i * 0x400000
     \<and> (pd ! 0x21 = 6 \<or> pd ! 0x21 = page_table_vidmap_at s OR 7)
     \<and> (\<forall>k < 1024. k \<notin> {0, 1, 0x20, 0x21} \<longrightarrow> pd ! k = 6))"

lemma task_mapped_new:
  assumes "page_directories s ! i = task_pd s i"
  shows "task_mapped s i"
  unfolding task_mapped_def Let_def assms by (simp add: task_pd_def nth_list_update)

lemma translate_low:
  assumes "tables_ok s" and "task_mapped s i" and "drop_bit 22 a = 0"
  shows "translate s i a = Some (a, True)"
proof -
  let ?t = "page_table_at s OR 7"
  have al: "page_table_at s AND mask 12 = 0" using assms(1) by (simp add: tables_ok_def)
  let ?j = "unat (drop_bit 12 a AND mask 10)"
  have j: "?j < 1024"
  proof -
    have "unat (take_bit 10 (drop_bit 12 a)) < 2 ^ 10"
      unfolding unsigned_take_bit_eq by (rule take_bit_nat_less_exp)
    then show ?thesis by (simp add: take_bit_eq_mask)
  qed
  then have pte: "page_table s ! ?j = (drop_bit 12 a AND mask 10) * 0x1000 OR 7"
    using assms(1) by (simp add: tables_ok_def)
  have "bit ?t 0" "bit ?t 2" "\<not> bit ?t 7" "bit (page_table s ! ?j) 0" "bit (page_table s ! ?j) 2"
    using aligned_bits [OF al, of 7] unfolding pte by (simp_all add: bit_or_iff bit_7)
  moreover have "page_table_of s (?t AND NOT (mask 12)) = Some (page_table s)"
    by (simp add: aligned_attr [OF al] page_table_of_def)
  moreover have "page_directories s ! i ! 0 = ?t" using assms(2) by (simp add: task_mapped_def Let_def)
  ultimately show ?thesis
    using assms(3) page_entry_address [OF assms(3)] by (simp add: translate_def pte)
qed

lemma translate_kernel:
  assumes "task_mapped s i" and "drop_bit 22 a = 1"
  shows "translate s i a = Some (a, False)"
proof -
  have "bit (0x00400183 :: u32) 0" "bit (0x00400183 :: u32) 7" "\<not> bit (0x00400183 :: u32) 2"
    "(0x00400183 :: u32) AND NOT (mask 22) = push_bit 22 1" by code_simp+
  with assms word_join [of 22 a] show ?thesis
    by (simp add: translate_def task_mapped_def Let_def)
qed

lemma user_entry:
  assumes "i < 6"
  shows "bit (0x00800087 + of_nat i * 0x400000 :: u32) 0" "bit (0x00800087 + of_nat i * 0x400000 :: u32) 7"
    "bit (0x00800087 + of_nat i * 0x400000 :: u32) 2"
    "(0x00800087 + of_nat i * 0x400000 :: u32) AND NOT (mask 22) = push_bit 22 (of_nat (i + 2))"
proof -
  have "list_all (\<lambda>i. bit (0x00800087 + of_nat i * 0x400000 :: u32) 0 \<and> bit (0x00800087 + of_nat i * 0x400000 :: u32) 7
      \<and> bit (0x00800087 + of_nat i * 0x400000 :: u32) 2
      \<and> (0x00800087 + of_nat i * 0x400000 :: u32) AND NOT (mask 22) = push_bit 22 (of_nat (i + 2))) [0..<6]"
    by code_simp
  with assms show "bit (0x00800087 + of_nat i * 0x400000 :: u32) 0" "bit (0x00800087 + of_nat i * 0x400000 :: u32) 7"
    "bit (0x00800087 + of_nat i * 0x400000 :: u32) 2"
    "(0x00800087 + of_nat i * 0x400000 :: u32) AND NOT (mask 22) = push_bit 22 (of_nat (i + 2))"
    by (auto simp: list_all_iff)
qed

lemma translate_user:
  assumes "task_mapped s i" and "i < 6" and "drop_bit 22 a = 0x20"
  shows "translate s i a = Some (push_bit 22 (of_nat (i + 2)) OR (a AND mask 22), True)"
  using assms user_entry [OF assms(2)] by (simp add: translate_def task_mapped_def Let_def)

lemma unat_page_index: "unat (drop_bit 22 (a :: u32)) = unat a div 4194304"
  by (subst unat_drop_bit_eq) (simp add: drop_bit_eq_div)

lemma page_index_less: "unat (drop_bit 22 (a :: u32)) < 1024"
  unfolding unat_page_index using unat_lt32 [of a] by (intro less_mult_imp_div_less) simp

lemma translate_other:
  assumes "task_mapped s i" and "unat (drop_bit 22 a) \<notin> {0, 1, 0x20, 0x21}"
  shows "translate s i a = None"
proof -
  from page_index_less [of a] assms have "page_directories s ! i ! unat (drop_bit 22 a) = 6"
    by (simp add: task_mapped_def Let_def)
  moreover have "\<not> bit (6 :: u32) 0" by simp
  ultimately show ?thesis by (simp add: translate_def)
qed

lemma push_or_add: "push_bit 22 y OR (a AND mask 22) = push_bit 22 y + (a AND mask 22 :: u32)"
proof -
  have "push_bit 22 y AND (a AND mask 22) = 0"
    by (rule bit_word_eqI) (auto simp: bit_and_iff bit_push_bit_iff bit_mask_iff)
  then show ?thesis by (simp add: disjunctive_add_eq_or)
qed

lemma user_physical:
  assumes "drop_bit 22 a = (0x20 :: u32)"
  shows "push_bit 22 x OR (a AND mask 22) = a - 0x8000000 + x * 0x400000"
proof -
  have low: "push_bit 22 0x20 = (0x8000000 :: u32)" by simp
  have "a = push_bit 22 0x20 + (a AND mask 22)"
    using word_join [of 22 a] push_or_add [of "0x20" a] unfolding assms by simp
  then have "a AND mask 22 = a - 0x8000000" by (metis add_diff_cancel_left' low)
  then show ?thesis unfolding push_or_add by (simp add: push_bit_eq_mult)
qed

lemma page_index_eq:
  "drop_bit 22 (a :: u32) = 0 \<longleftrightarrow> unat a div 4194304 = 0"
  "drop_bit 22 (a :: u32) = 1 \<longleftrightarrow> unat a div 4194304 = 1"
  "drop_bit 22 (a :: u32) = 0x20 \<longleftrightarrow> unat a div 4194304 = 0x20"
  "drop_bit 22 (a :: u32) = 0x21 \<longleftrightarrow> unat a div 4194304 = 0x21"
  unfolding unat_page_index [symmetric] by (auto simp: word_unat_eq_iff)

section \<open>Physical memory\<close>

definition phys :: "'a page_state_scheme \<Rightarrow> u32 \<Rightarrow> u8 option" where
  "phys s p =
     (let f = unat (drop_bit 22 p) in
      if f < 2 then Some (mem s p)
      else if f < 8 then Some ((if f - 2 = cr3 s then mem s else upages s (f - 2)) (0x8000000 OR (p AND mask 22)))
      else None)"

lemma window_address: "drop_bit 22 (0x8000000 OR (p AND mask 22)) = (0x20 :: u32)"
proof (rule bit_word_eqI)
  have e: "(0x8000000 :: u32) = push_bit 22 0x20" by simp
  fix n assume "n < LENGTH(32)"
  show "bit (drop_bit 22 (0x8000000 OR (p AND mask 22))) n = bit (0x20 :: u32) n"
    unfolding e by (auto simp: bit_drop_bit_eq bit_or_iff bit_and_iff bit_mask_iff bit_push_bit_iff)
qed

lemma phys_loadPageDirectory: "phys (loadPageDirectory i s) p = phys s p"
proof -
  have "in_window (0x8000000 OR (p AND mask 22))" unfolding in_window_def by (rule window_address)
  moreover have "\<not> in_window p" if "unat (drop_bit 22 p) < 2" using that by (auto simp: in_window_def)
  ultimately show ?thesis by (simp add: phys_def loadPageDirectory_def Let_def)
qed

lemma user_frame:
  assumes "i < 6"
  shows "unat (drop_bit 22 (push_bit 22 (of_nat (i + 2)) OR (a AND mask 22) :: u32)) = i + 2"
proof -
  let ?p = "push_bit 22 (of_nat (i + 2)) OR (a AND mask 22) :: u32"
  have "list_all (\<lambda>i. of_nat (i + 2) AND mask 10 = (of_nat (i + 2) :: u32)) [0..<6]" by code_simp
  then have small: "of_nat (i + 2) AND mask 10 = (of_nat (i + 2) :: u32)"
    using assms by (simp add: list_all_iff)
  have "drop_bit 22 ?p = of_nat (i + 2) AND mask 10"
    by (rule bit_word_eqI) (auto simp: bit_drop_bit_eq bit_or_iff bit_and_iff bit_mask_iff bit_push_bit_iff)
  moreover have "unat (of_nat (i + 2) :: u32) = i + 2"
    by (rule unat_of_nat32) (use assms in simp)
  ultimately show ?thesis by (simp only: small)
qed

lemma phys_of_window:
  assumes "i < 6" and "drop_bit 22 a = 0x20" and "cr3 s = i"
  shows "phys s (push_bit 22 (of_nat (i + 2)) OR (a AND mask 22)) = Some (mem s a)"
proof -
  let ?p = "push_bit 22 (of_nat (i + 2)) OR (a AND mask 22) :: u32"
  have "?p AND mask 22 = a AND mask 22"
    by (rule bit_word_eqI) (auto simp: bit_or_iff bit_and_iff bit_mask_iff bit_push_bit_iff)
  moreover have "0x8000000 OR (a AND mask 22) = a" using word_join [of 22 a] unfolding assms(2) by simp
  ultimately show ?thesis using assms(1,3) user_frame [OF assms(1), of a] by (simp add: phys_def)
qed

lemma vidmap_entry:
  assumes "j < 1024"
  shows "of_nat j * 0x1000 = (0xB8000 :: u32) \<longleftrightarrow> j = 0xB8"
proof -
  have "unat (of_nat j * 0x1000 :: u32) = j * 4096"
    using unat_of_nat32 [of "j * 4096"] assms by simp
  moreover have "unat (0xB8000 :: u32) = 0xB8 * 4096" by simp
  ultimately show ?thesis by (metis mult_right_cancel word_unat_eq_iff zero_neq_numeral)
qed

lemma translate_vidmap:
  assumes "tables_ok s" and "page_directories s ! i ! 0x21 = page_table_vidmap_at s OR 7"
    and "page_table_vidmap s = map (\<lambda>j. if of_nat j * 0x1000 = VIDEO_MEM then VIDEO_MEM OR ATTRIBUTE_1
          else VIDEO_MEM OR ATTRIBUTE_0) [0..<1024]"
    and "drop_bit 22 a = 0x21"
  shows "translate s i a = (if unat (drop_bit 12 a AND mask 10) = 0xB8
    then Some (VIDEO_MEM OR (a AND mask 12), True) else None)"
proof -
  let ?t = "page_table_vidmap_at s OR 7"
  let ?j = "unat (drop_bit 12 a AND mask 10)"
  have al: "page_table_vidmap_at s AND mask 12 = 0" using assms(1) by (simp add: tables_ok_def)
  have "unat (take_bit 10 (drop_bit 12 a)) < 2 ^ 10"
    unfolding unsigned_take_bit_eq by (rule take_bit_nat_less_exp)
  then have j: "?j < 1024" by (simp add: take_bit_eq_mask)
  have pte: "page_table_vidmap s ! ?j = (if ?j = 0xB8 then 0xB8007 else 0xB8006)"
    using vidmap_entry [OF j] j by (simp add: assms(3) VIDEO_MEM_def ATTRIBUTE_1_def ATTRIBUTE_0_def)
  have b: "bit ?t 0" "bit ?t 2" "\<not> bit ?t 7"
    using aligned_bits [OF al, of 7] by (simp_all add: bit_or_iff bit_7)
  have "page_table_of s (?t AND NOT (mask 12)) = Some (page_table_vidmap s)"
    using assms(1) by (auto simp: aligned_attr [OF al] page_table_of_def tables_ok_def)
  moreover have "bit (0xB8007 :: u32) 0" "bit (0xB8007 :: u32) 2" "\<not> bit (0xB8006 :: u32) 0"
    "(0xB8007 :: u32) AND NOT (mask 12) = 0xB8000" by code_simp+
  moreover have "unat (drop_bit 22 a) = 0x21" by (simp add: assms(4))
  ultimately show ?thesis
    using b pte assms(2) by (cases "?j = 0xB8") (simp_all add: translate_def VIDEO_MEM_def)
qed

section \<open>Properties\<close>

text \<open>Two tasks set up, for the witnesses.\<close>

definition page_state0 :: page_state where
  "page_state0 = fs_state.extend fs_state0 (page_state.fields
     ([(replicate 1024 6)[0 := 0x480007, 1 := 0x00400183, 0x20 := 0x00800087],
       (replicate 1024 6)[0 := 0x480007, 1 := 0x00400183, 0x20 := 0x00C00087]] @ replicate 4 (replicate 1024 6))
     (map (\<lambda>j. (of_nat j * 0x1000) OR 7) [0..<1024]) (replicate 1024 6) 0x480000 0x481000 0 True (\<lambda>_ _. 0))"

lemma page_state0_simps [simp]:
  "page_table_at page_state0 = 0x480000" "page_table_vidmap_at page_state0 = 0x481000"
  "cr3 page_state0 = 0" "pcbs page_state0 = pcbs fs_state0" "current_pcb page_state0 = Some 1"
  by (simp_all add: page_state0_def fs_state.defs page_state.defs) (simp_all add: fs_state0_def)

lemma page_state0_ok: "tables_ok page_state0"
proof -
  have "(0x480000 :: u32) AND mask 12 = 0" "(0x481000 :: u32) AND mask 12 = 0" by code_simp+
  then show ?thesis
    by (simp add: tables_ok_def) (simp add: page_state0_def fs_state.defs page_state.defs)
qed

lemma page_state0_tasks: "task_mapped page_state0 0" "task_mapped page_state0 1"
proof -
  have "page_directories page_state0 ! 0 = task_pd page_state0 0"
    "page_directories page_state0 ! 1 = task_pd page_state0 1"
    by (simp_all add: task_pd_def) (simp_all add: page_state0_def fs_state.defs page_state.defs)
  then show "task_mapped page_state0 0" "task_mapped page_state0 1" by (simp_all add: task_mapped_new)
qed

lemma page_index_0x8048000: "unat (0x8048000 :: u32) div 0x400000 = 0x20"
  by simp

text \<open>
  Setting up the address space of a new task: the low 4 MB and the kernel's 4 MB map to
  themselves, the kernel's closed to user code; the program page at 0x8000000 maps to the
  task's own 4 MB frame behind the kernel; every other address is unmapped.
\<close>

theorem new_task_address_space:
  assumes "tables_ok s" and "unat pid < 6"
  shows "\<exists>s'. new_task_pd pid s = Some (0, s') \<and> cr3 s' = unat pid \<and> (\<forall>a. translate s' (unat pid) a =
      (if unat a div 0x400000 = 0 then Some (a, True)
       else if unat a div 0x400000 = 1 then Some (a, False)
       else if unat a div 0x400000 = 0x20 then Some (a - 0x8000000 + (pid + 2) * 0x400000, True)
       else None))"
proof -
  let ?i = "unat pid"
  let ?s = "s\<lparr>page_directories := (page_directories s)[?i := task_pd s ?i]\<rparr>"
  let ?t = "loadPageDirectory ?i ?s"
  have len: "?i < length (page_directories s)" using assms by (simp add: tables_ok_def)
  have "length (task_pd s ?i) = 1024" by (simp add: task_pd_def)
  then have ok: "tables_ok ?t"
    using assms(1) by (auto simp: tables_ok_def dest!: set_update_subset_insert [THEN subsetD])
  have "page_directories ?t ! ?i = task_pd ?t ?i" using len by (simp add: task_pd_def)
  then have map: "task_mapped ?t ?i" by (rule task_mapped_new)
  have none: "translate ?t ?i a = None" if "unat (drop_bit 22 a) = 0x21" for a
  proof -
    have "page_directories ?t ! ?i ! 0x21 = 6" using len by (simp add: task_pd_def nth_list_update)
    then show ?thesis using that by (simp add: translate_def)
  qed
  have "translate ?t ?i a = (if unat a div 0x400000 = 0 then Some (a, True)
       else if unat a div 0x400000 = 1 then Some (a, False)
       else if unat a div 0x400000 = 0x20 then Some (a - 0x8000000 + (pid + 2) * 0x400000, True)
       else None)" for a
    using translate_low [OF ok map, of a] translate_kernel [OF map, of a] translate_user [OF map assms(2), of a]
      translate_other [OF map, of a] none [of a] user_physical [of a "pid + 2"] page_index_eq [of a]
    by (auto simp: unat_page_index add.commute)
  with new_task_pd_eq [OF assms] show ?thesis by (intro exI [of _ ?t]) simp
qed

theorem new_task_address_space_witness:
  "\<exists>s'. new_task_pd 2 page_state0 = Some (0, s') \<and> translate s' 2 0x8048000 = Some (0x1048000, True)
     \<and> translate s' 2 0x9000000 = None"
  using new_task_address_space [OF page_state0_ok, of 2] by fastforce





text \<open>
  After create\_vidmap the page at 0x84B8000 of the calling task is the text page of the
  screen, open to user code, and the rest of that 4 MB region stays unmapped.
\<close>

theorem vidmap_maps_screen:
  assumes "tables_ok s" and "program_id (pcbs s ! the (current_pcb s)) = of_nat (i + 1)" and "i < 6"
  shows "\<exists>s'. create_vidmap s = Some (0, s') \<and> tables_ok s'
    \<and> (\<forall>a. unat a div 0x400000 = 0x21 \<longrightarrow> translate s' i a = (if unat (drop_bit 12 a AND mask 10) = 0xB8
         then Some (VIDEO_MEM OR (a AND mask 12), True) else None))"
proof -
  let ?f = "\<lambda>j. if of_nat j * 0x1000 = VIDEO_MEM then VIDEO_MEM OR ATTRIBUTE_1 else VIDEO_MEM OR ATTRIBUTE_0"
  let ?s = "s\<lparr>page_table_vidmap := map ?f [0..<1024], page_directories := (page_directories s)
      [i := (page_directories s ! i)[0x21 := page_table_vidmap_at s OR 7]]\<rparr>"
  have i: "unat (of_nat (i + 1) - 1 :: u32) = i" using assms(3) by (simp add: unat_of_nat32)
  have vt: "fold (\<lambda>j pt. pt[j := ?f j]) [0..<1024] (page_table_vidmap s) = map ?f [0..<1024]"
    using fold_list_map [of 1024 "page_table_vidmap s" ?f] assms(1) by (simp add: tables_ok_def)
  have s': "create_vidmap s = Some (0, ?s)"
    using i vt assms(3) by (simp add: assms(2) create_vidmap_def Let_def upd_pd_def ENTRIES_def VIDMAP_OFFSET_def
        ATTRIBUTE_1_def MAX_TASKS_def)
  have "i < length (page_directories s)" using assms(1,3) by (simp add: tables_ok_def)
  moreover have "length (page_directories s ! i) = 1024"
    using assms(1) nth_mem [OF calculation] by (simp add: tables_ok_def)
  ultimately have ok: "tables_ok ?s" "page_directories ?s ! i ! 0x21 = page_table_vidmap_at ?s OR 7"
    "page_table_vidmap ?s = map ?f [0..<1024]"
    using assms(1) by (auto simp: tables_ok_def dest!: set_update_subset_insert [THEN subsetD])
  show ?thesis
    using s' ok(1) translate_vidmap [OF ok] page_index_eq(4) by blast
qed

theorem vidmap_maps_screen_witness:
  "\<exists>s'. create_vidmap page_state0 = Some (0, s') \<and> translate s' 0 0x84B8010 = Some (0xB8010, True)"
proof -
  have id: "program_id (pcbs page_state0 ! the (current_pcb page_state0)) = of_nat (0 + 1)"
    by (simp add: fs_state0_def)
  have n: "unat (drop_bit 12 0x84B8010 AND mask 10 :: u32) = 0xB8" "VIDEO_MEM OR (0x84B8010 AND mask 12) = 0xB8010"
    by code_simp+
  have "unat (0x84B8010 :: u32) div 0x400000 = 0x21" by simp
  with vidmap_maps_screen [OF page_state0_ok id] n obtain s' where
    "create_vidmap page_state0 = Some (0, s')" "translate s' 0 0x84B8010 = Some (0xB8010, True)" by (metis zero_less_numeral)
  then show ?thesis by blast
qed

end
