(* ===== verification/Kud_Printf.thy ===== *)
theory Kud_Printf
  imports Kud_Terminal Kud_String
begin

unbundle bit_operations_syntax

text \<open>
  Formatted output, \<^verbatim>\<open>printf\<close>, \<^verbatim>\<open>puts\<close>, \<^verbatim>\<open>clear\<close> and \<^verbatim>\<open>putc\<close> of
  \<^verbatim>\<open>student-distrib/lib.c\<close>. The format string and the arguments are read from memory
  (\<open>esp\<close> walks over the arguments on the stack, \<open>conv\<close> is the address of the local
  conversion buffer); characters go to the terminal through \<open>putch\<close>. A format that ends in
  a percent sign makes the loop run past its terminator, as the source does.
\<close>

section \<open>The functions\<close>

partial_function (option) puts_loop :: "u32 \<Rightarrow> u32 \<Rightarrow> 'a term_state_scheme \<Rightarrow> (u32 \<times> 'a term_state_scheme) option" where
  "puts_loop str index s =
     (if mem s (str + index) \<noteq> 0 then puts_loop str (index + 1) (putch (mem s (str + index)) s)
      else Some (index, s))"

definition puts :: "u32 \<Rightarrow> 'a term_state_scheme \<Rightarrow> (u32 \<times> 'a term_state_scheme) option" where
  "puts str s = puts_loop str 0 s"

text \<open>Convert into the buffer, then print from the buffer.\<close>

definition puts_mem :: "mem option \<Rightarrow> u32 \<Rightarrow> 'a term_state_scheme \<Rightarrow> 'a term_state_scheme option" where
  "puts_mem r str s = (case r of None \<Rightarrow> None
     | Some m \<Rightarrow> (case puts str (s\<lparr>mem := m\<rparr>) of None \<Rightarrow> None | Some (n, s') \<Rightarrow> Some s'))"

fun pad_zeros :: "nat \<Rightarrow> u32 \<Rightarrow> u32 \<Rightarrow> mem \<Rightarrow> mem" where
  "pad_zeros 0 conv i m = m"
| "pad_zeros (Suc n) conv i m = pad_zeros n conv (i + 1) (m(conv + i := 48))"

definition print_hex :: "u32 \<Rightarrow> u32 \<Rightarrow> bool \<Rightarrow> 'a term_state_scheme \<Rightarrow> 'a term_state_scheme option" where
  "print_hex conv v alternate s =
     (if \<not> alternate then puts_mem (itoa (mem s) v conv 16) conv s
      else case itoa (mem s) v (conv + 8) 16 of
             None \<Rightarrow> None
           | Some m \<Rightarrow>
               (case strlen m (conv + 8) of
                  None \<Rightarrow> None
                | Some starting_index \<Rightarrow>
                    puts_mem (Some (pad_zeros (nat (8 - sint starting_index)) conv starting_index m))
                      (conv + starting_index) s))"

definition print_unsigned :: "u32 \<Rightarrow> u32 \<Rightarrow> 'a term_state_scheme \<Rightarrow> 'a term_state_scheme option" where
  "print_unsigned conv v s = puts_mem (itoa (mem s) v conv 10) conv s"

definition print_signed :: "u32 \<Rightarrow> u32 \<Rightarrow> 'a term_state_scheme \<Rightarrow> 'a term_state_scheme option" where
  "print_signed conv v s =
     (if sint v < 0 then puts_mem (itoa ((mem s)(conv := 45)) (- v) (conv + 1) 10) conv s
      else puts_mem (itoa (mem s) v conv 10) conv s)"

text \<open>One conversion; the result is the position of its last character and the next argument.\<close>

partial_function (option) printf_conv ::
  "u32 \<Rightarrow> u32 \<Rightarrow> u32 \<Rightarrow> bool \<Rightarrow> 'a term_state_scheme \<Rightarrow> (u32 \<times> u32 \<times> 'a term_state_scheme) option" where
  "printf_conv conv buf esp alternate s =
     (let c = mem s buf; arg = load32 (mem s) esp in
      if c = 37 then Some (buf, esp, putch 37 s)
      else if c = 35 then printf_conv conv (buf + 1) esp True s
      else if c = 120 then map_option (\<lambda>s. (buf, esp + 4, s)) (print_hex conv arg alternate s)
      else if c = 117 then map_option (\<lambda>s. (buf, esp + 4, s)) (print_unsigned conv arg s)
      else if c = 100 then map_option (\<lambda>s. (buf, esp + 4, s)) (print_signed conv arg s)
      else if c = 99 then Some (buf, esp + 4, putch (ucast arg) s)
      else if c = 115 then map_option (\<lambda>(n, s). (buf, esp + 4, s)) (puts arg s)
      else Some (buf, esp, s))"

partial_function (option) printf_loop ::
  "u32 \<Rightarrow> u32 \<Rightarrow> u32 \<Rightarrow> 'a term_state_scheme \<Rightarrow> (u32 \<times> 'a term_state_scheme) option" where
  "printf_loop conv buf esp s =
     (if mem s buf = 0 then Some (buf, s)
      else if mem s buf = 37
      then (case printf_conv conv (buf + 1) esp False s of
              None \<Rightarrow> None
            | Some (buf', esp', s') \<Rightarrow> printf_loop conv (buf' + 1) esp' s')
      else printf_loop conv (buf + 1) esp (putch (mem s buf) s))"

definition printf :: "u32 \<Rightarrow> u32 \<Rightarrow> u32 \<Rightarrow> 'a term_state_scheme \<Rightarrow> (u32 \<times> 'a term_state_scheme) option" where
  "printf conv format args s =
     (case printf_loop conv format args s of None \<Rightarrow> None | Some (buf, s') \<Rightarrow> Some (buf - format, s'))"

text \<open>
  \<^verbatim>\<open>clear\<close> and \<^verbatim>\<open>putc\<close> write to video memory directly, with a cursor of their own
  (the pair), which the rest of the kernel no longer uses.
\<close>

definition ATTRIB :: u8 where "ATTRIB = 0x07"

definition clear_video :: "mem \<Rightarrow> mem" where
  "clear_video m = fold (\<lambda>i m. m(VIDEO_MEM + 2 * of_nat i := 32, VIDEO_MEM + 2 * of_nat i + 1 := ATTRIB))
     [0..<HEIGHT * WIDTH] m"

definition putc :: "u8 \<Rightarrow> int \<times> int \<times> mem \<Rightarrow> int \<times> int \<times> mem" where
  "putc c = (\<lambda>(screen_x, screen_y, m).
     if c = 10 \<or> c = 13 then (0, screen_y + 1, m)
     else let k = 2 * of_int (80 * screen_y + screen_x) :: u32;
              m = m(VIDEO_MEM + k := c, VIDEO_MEM + k + 1 := ATTRIB);
              screen_x = (screen_x + 1) mod 80
          in (screen_x, (screen_y + screen_x div 80) mod 25, m))"

section \<open>Text without conversions\<close>

text \<open>Text outside the screen is not changed by printing.\<close>

definition text_at :: "'a term_state_scheme \<Rightarrow> u32 \<Rightarrow> u8 list \<Rightarrow> bool" where
  "text_at s a xs \<longleftrightarrow> cstring (mem s) a xs \<and> (\<forall>i \<le> length xs. 4000 \<le> unat (a + of_nat i - VIDEO_MEM))"

lemma text_at_Cons:
  assumes "text_at s a (x # xs)"
  shows "mem s a = x" "x \<noteq> 0" "text_at s (a + 1) xs"
proof -
  show "mem s a = x" "x \<noteq> 0" using assms by (simp_all add: text_at_def cstring_Cons)
  have "4000 \<le> unat (a + 1 + of_nat i - VIDEO_MEM)" if "i \<le> length xs" for i
  proof -
    have "4000 \<le> unat (a + of_nat (Suc i) - VIDEO_MEM)"
      using assms that unfolding text_at_def by (metis Suc_le_mono length_Cons)
    then show ?thesis by (simp add: algebra_simps)
  qed
  with assms show "text_at s (a + 1) xs" by (simp add: text_at_def cstring_Cons)
qed

lemma text_at_leaves:
  assumes "text_at s a xs" and "leaves s t"
  shows "text_at t a xs"
proof -
  have "mem t (a + of_nat i) = mem s (a + of_nat i)" if "i \<le> length xs" for i
    using assms that by (simp add: text_at_def leaves_def)
  then have "cstring (mem t) a xs = cstring (mem s) a xs" by (rule cstring_cong)
  with assms(1) show ?thesis by (simp add: text_at_def)
qed

lemma text_at_putch: "term_ok s \<Longrightarrow> text_at s a xs \<Longrightarrow> text_at (putch c s) a xs"
  by (rule text_at_leaves [OF _ putch_leaves])

lemma puts_loop_text:
  "term_ok s \<Longrightarrow> text_at s (str + index) xs \<Longrightarrow>
   puts_loop str index s = Some (index + of_nat (length xs), fold putch xs s)"
proof (induction xs arbitrary: index s)
  case Nil
  then show ?case by (subst puts_loop.simps) (simp add: text_at_def cstring_Nil)
next
  case (Cons x xs)
  note t = text_at_Cons [OF Cons.prems(2)]
  have "text_at (putch x s) (str + (index + 1)) xs"
    using text_at_putch [OF Cons.prems(1) t(3), of x] by (simp add: add.assoc)
  then have "puts_loop str (index + 1) (putch x s) = Some (index + 1 + of_nat (length xs), fold putch xs (putch x s))"
    by (rule Cons.IH [OF putch_ok [OF Cons.prems(1)]])
  with t show ?case by (subst puts_loop.simps) (simp add: algebra_simps)
qed

lemma printf_loop_text:
  "term_ok s \<Longrightarrow> text_at s buf xs \<Longrightarrow> 37 \<notin> set xs \<Longrightarrow>
   printf_loop conv buf esp s = Some (buf + of_nat (length xs), fold putch xs s)"
proof (induction xs arbitrary: buf s)
  case Nil
  then show ?case by (subst printf_loop.simps) (simp add: text_at_def cstring_Nil)
next
  case (Cons x xs)
  note t = text_at_Cons [OF Cons.prems(2)]
  have "text_at (putch x s) (buf + 1) xs" by (rule text_at_putch [OF Cons.prems(1) t(3)])
  then have "printf_loop conv (buf + 1) esp (putch x s) = Some (buf + 1 + of_nat (length xs), fold putch xs (putch x s))"
    by (rule Cons.IH [OF putch_ok [OF Cons.prems(1)]]) (use Cons.prems(3) in simp)
  with t Cons.prems(3) show ?case by (subst printf_loop.simps) (simp add: algebra_simps)
qed

section \<open>Properties\<close>

text \<open>
  Printing text without conversions prints exactly its characters, in order, through the
  terminal, and returns their number.
\<close>

theorem printf_prints_text:
  assumes "term_ok s" and "text_at s fmt xs" and "37 \<notin> set xs"
  shows "printf conv fmt esp s = Some (of_nat (length xs), fold putch xs s)"
  by (simp add: printf_def printf_loop_text [OF assms])

theorem printf_prints_text_witness:
  "printf 0 0x8048000 0 (term_state0\<lparr>mem := store_bytes (\<lambda>_. 0) 0x8048000 [111, 107]\<rparr>)
    = Some (2, putch 107 (putch 111 (term_state0\<lparr>mem := store_bytes (\<lambda>_. 0) 0x8048000 [111, 107]\<rparr>)))"
proof -
  let ?s = "term_state0\<lparr>mem := store_bytes (\<lambda>_. 0) 0x8048000 [111, 107]\<rparr>"
  have "term_ok ?s" using term_state0_ok by (simp add: term_ok_def term_base_def)
  moreover have "text_at ?s 0x8048000 [111, 107]"
    using user_buffer_off_screen by (simp add: text_at_def cstring_Cons cstring_Nil)
  ultimately show ?thesis using printf_prints_text [of ?s "0x8048000" "[111, 107]" 0 0] by simp
qed

end
