(* ===== verification/Kud_Syscall.thy ===== *)
theory Kud_Syscall
  imports Kud_Paging Kud_Printf
begin

unbundle bit_operations_syntax

text \<open>
  The system calls, \<^verbatim>\<open>student-distrib/syscall.c\<close> and the dispatcher of
  \<^verbatim>\<open>syscall_asm.S\<close>. A call can end in more ways than by returning: \<^verbatim>\<open>execute\<close> enters
  the new program, \<^verbatim>\<open>halt\<close> resumes the parent's \<^verbatim>\<open>execute\<close>, a read may have to wait
  for an interrupt, and an access out of range or through a null function pointer has no
  defined continuation. \<open>outcome\<close> has a constructor for each.
\<close>

section \<open>State and outcomes\<close>

datatype 's outcome =
    Returns u32 's
  | Enters u32 's
  | Resumes 's
  | Waits 's
  | Faults

text \<open>
  The task state segment, the two stack registers, and what the compiler and the linker
  decide: the addresses of the local buffers of \<^verbatim>\<open>check_executable\<close> and
  \<^verbatim>\<open>copy_file_image\<close>, of the string literal \<open>shell\<close>, the contents of an uninitialised
  local, and what a descriptor access out of range finds (a value, or a page fault).
\<close>

record sys_state = page_state +
  tss_esp0 :: u32
  tss_ss0 :: u32
  reg_esp :: u32
  reg_ebp :: u32
  elf_header_at :: u32
  image_buf_at :: u32
  shell_at :: u32
  dentry_junk :: dentry_t
  oob_flags :: "int \<Rightarrow> int option"

definition PAGE_VIRT_ADDR :: u32 where "PAGE_VIRT_ADDR = 0x8000000"
definition PAGE_SIZE_4MB :: u32 where "PAGE_SIZE_4MB = 0x400000"
definition ELF_HEADER_SIZE :: u32 where "ELF_HEADER_SIZE = 52"
definition KERNEL_DS :: u32 where "KERNEL_DS = 0x0018"

abbreviation cur :: "'a pcb_state_scheme \<Rightarrow> nat" where
  "cur s \<equiv> the (current_pcb s)"

text \<open>A message of the kernel: printf of a literal without conversions.\<close>

definition kprint :: "string \<Rightarrow> 'a term_state_scheme \<Rightarrow> 'a term_state_scheme" where
  "kprint str s = fold putch (bytes str) s"

section \<open>File calls\<close>

definition fd_flags :: "'a sys_state_scheme \<Rightarrow> int \<Rightarrow> int option" where
  "fd_flags s fd = (if 0 \<le> fd \<and> fd < 8 then Some (flags (cur_fd s (nat fd))) else oob_flags s fd)"

definition call_read :: "nat \<Rightarrow> driver_fn \<Rightarrow> nat \<Rightarrow> u32 \<Rightarrow> int \<Rightarrow> 'a sys_state_scheme \<Rightarrow> 'a sys_state_scheme outcome" where
  "call_read irqs f fd buf nbytes s =
     (case f of
        Fn_read_file \<Rightarrow> (case read_file fd buf nbytes s of None \<Rightarrow> Faults | Some (r, s) \<Rightarrow> Returns r s)
      | Fn_rtc_read \<Rightarrow> (case rtc_read irqs (of_nat fd) buf nbytes s of None \<Rightarrow> Waits s | Some (r, s) \<Rightarrow> Returns r s)
      | Fn_terminal_read \<Rightarrow>
          (case terminal_read (of_nat fd) buf nbytes s of None \<Rightarrow> Waits s | Some (r, s) \<Rightarrow> Returns r s)
      | _ \<Rightarrow> Faults)"

definition call_write :: "driver_fn \<Rightarrow> nat \<Rightarrow> u32 \<Rightarrow> int \<Rightarrow> 'a sys_state_scheme \<Rightarrow> 'a sys_state_scheme outcome" where
  "call_write f fd buf nbytes s =
     (case f of
        Fn_write_file \<Rightarrow> Returns (write_file fd buf nbytes) s
      | Fn_rtc_write \<Rightarrow> (case rtc_write (mem s) (of_nat fd) buf nbytes s of (r, s) \<Rightarrow> Returns r s)
      | Fn_terminal_write \<Rightarrow> (case terminal_write (of_nat fd) buf nbytes s of (r, s) \<Rightarrow> Returns r s)
      | _ \<Rightarrow> Faults)"

definition call_close :: "driver_fn \<Rightarrow> nat \<Rightarrow> 'a sys_state_scheme \<Rightarrow> 'a sys_state_scheme outcome" where
  "call_close f fd s =
     (case f of
        Fn_close_file \<Rightarrow> (case close_file fd s of (r, s) \<Rightarrow> Returns r s)
      | Fn_rtc_close \<Rightarrow> (case rtc_close (of_nat fd) s of (r, s) \<Rightarrow> Returns r s)
      | Fn_terminal_close \<Rightarrow> (case terminal_close (of_nat fd) s of (r, s) \<Rightarrow> Returns r s)
      | _ \<Rightarrow> Faults)"

definition sys_read :: "nat \<Rightarrow> int \<Rightarrow> u32 \<Rightarrow> int \<Rightarrow> 'a sys_state_scheme \<Rightarrow> 'a sys_state_scheme outcome" where
  "sys_read irqs fd buf nbytes s =
     (case fd_flags s fd of None \<Rightarrow> Faults
      | Some fl \<Rightarrow>
          if fl = 0 then Returns minus_one s
          else if buf = NULL32 then Returns minus_one s
          else if fd > int FD_MAX_IDX then Returns minus_one s
          else if fd < 0 then Returns minus_one s
          else if fd = 1 then Returns minus_one s
          else case ops_of s (fd_ops (cur_fd s (nat fd))) of
                 None \<Rightarrow> Faults
               | Some ops \<Rightarrow> call_read irqs (readptr ops) (nat fd) buf nbytes s)"

definition sys_write :: "int \<Rightarrow> u32 \<Rightarrow> int \<Rightarrow> 'a sys_state_scheme \<Rightarrow> 'a sys_state_scheme outcome" where
  "sys_write fd buf nbytes s =
     (case fd_flags s fd of None \<Rightarrow> Faults
      | Some fl \<Rightarrow>
          if fl = 0 then Returns minus_one s
          else if buf = NULL32 then Returns minus_one s
          else if fd > int FD_MAX_IDX then Returns minus_one s
          else if fd \<le> 0 then Returns minus_one s
          else let p = unat (program_id (pcbs s ! cur s)) in
               if p \<ge> MAX_PROCESSES then Faults
               else case ops_of s (fd_ops (file_array (pcbs s ! p) ! nat fd)) of
                      None \<Rightarrow> Faults
                    | Some ops \<Rightarrow> call_write (writeptr ops) (nat fd) buf nbytes s)"

definition sys_open :: "u32 \<Rightarrow> 'a sys_state_scheme \<Rightarrow> 'a sys_state_scheme outcome" where
  "sys_open filename s = (case open_file filename s of (r, s) \<Rightarrow> Returns r s)"

definition sys_close :: "int \<Rightarrow> 'a sys_state_scheme \<Rightarrow> 'a sys_state_scheme outcome" where
  "sys_close fd s =
     (case fd_flags s fd of None \<Rightarrow> Faults
      | Some fl \<Rightarrow>
          if fl = 0 then Returns minus_one s
          else if fd < int FD_MIN_IDX then Returns minus_one s
          else if fd > int FD_MAX_IDX then Returns minus_one s
          else let pcb_ptr = cur s in
               if flags (file_array (pcbs s ! pcb_ptr) ! nat fd) = 0 then Returns minus_one s
               else let s = set_cur_fd (nat fd) ((cur_fd s (nat fd))\<lparr>flags := 0\<rparr>) s in
                    case ops_of s (fd_ops (file_array (pcbs s ! pcb_ptr) ! nat fd)) of
                      None \<Rightarrow> Faults
                    | Some ops \<Rightarrow>
                        (case call_close (closeptr ops) (nat fd) s of
                           Returns r s \<Rightarrow> Returns 0 (snd (remove_fd pcb_ptr (of_int fd) s))
                         | _ \<Rightarrow> Faults))"

section \<open>Arguments and video memory\<close>

definition getargs :: "u32 \<Rightarrow> int \<Rightarrow> 'a sys_state_scheme \<Rightarrow> 'a sys_state_scheme outcome" where
  "getargs buf nbytes s =
     (if buf = NULL32 then Returns minus_one s
      else let s = s\<lparr>mem := memcpy (mem s) buf (cmd_args s (cur s)) (of_int nbytes)\<rparr>;
               s = s\<lparr>mem := (mem s)(buf + of_int nbytes := 0)\<rparr>
           in Returns 0 s)"

definition vidmap :: "u32 \<Rightarrow> 'a sys_state_scheme \<Rightarrow> 'a sys_state_scheme outcome" where
  "vidmap screen_start s =
     (if screen_start = NULL32 then Returns minus_one s
      else if screen_start < PAGE_VIRT_ADDR \<or> screen_start > PAGE_VIRT_ADDR + PAGE_SIZE_4MB
      then Returns minus_one s
      else case create_vidmap s of
             None \<Rightarrow> Faults
           | Some (r, s) \<Rightarrow> Returns 0 (s\<lparr>mem := store32 (mem s) screen_start VIDMAP\<rparr>))"

definition set_handler :: "int \<Rightarrow> u32 \<Rightarrow> u32" where
  "set_handler signum handler_address = minus_one"

definition sigreturn :: u32 where
  "sigreturn = minus_one"

section \<open>Commands and executables\<close>

partial_function (option) copy_name :: "mem \<Rightarrow> u32 \<Rightarrow> u32 \<Rightarrow> u32 \<Rightarrow> (mem \<times> u32) option" where
  "copy_name m command exec_name i =
     (if m (command + i) \<noteq> 32 \<and> m (command + i) \<noteq> 0
      then copy_name (m(exec_name + i := m (command + i))) command exec_name (i + 1)
      else Some (m, i))"

partial_function (option) skip_spaces :: "mem \<Rightarrow> u32 \<Rightarrow> u32 \<Rightarrow> u32 option" where
  "skip_spaces m command i = (if m (command + i) = 32 then skip_spaces m command (i + 1) else Some i)"

partial_function (option) copy_args :: "mem \<Rightarrow> u32 \<Rightarrow> u32 \<Rightarrow> u32 \<Rightarrow> u32 \<Rightarrow> (mem \<times> u32) option" where
  "copy_args m command exec_args i j =
     (if m (command + i) \<noteq> 0
      then copy_args (m(exec_args + j := m (command + i))) command exec_args (i + 1) (j + 1)
      else Some (m, j))"

definition split_command :: "mem \<Rightarrow> u32 \<Rightarrow> u32 \<Rightarrow> u32 \<Rightarrow> mem option" where
  "split_command m command exec_name exec_args =
     (case copy_name m command exec_name 0 of None \<Rightarrow> None
      | Some (m, i) \<Rightarrow>
          let m = m(exec_name + i := 0) in
          (case skip_spaces m command i of None \<Rightarrow> None
           | Some i \<Rightarrow>
               (case copy_args m command exec_args i 0 of None \<Rightarrow> None
                | Some (m, j) \<Rightarrow> Some (m(exec_args + j := 0)))))"

definition check_command :: "u32 \<Rightarrow> u32 \<Rightarrow> u32 \<Rightarrow> 'a sys_state_scheme \<Rightarrow> (int \<times> 'a sys_state_scheme) option" where
  "check_command command exec_name exec_args s =
     (if command = NULL32 then Some (- 1, kprint ''Command cannot be empty!'' s)
      else if mem s command = 32 then Some (- 1, s)
      else case split_command (mem s) command exec_name exec_args of
             None \<Rightarrow> None
           | Some m \<Rightarrow> Some (0, s\<lparr>mem := m\<rparr>))"

text \<open>The result, the entry point, and the state after the header was read.\<close>

definition check_executable :: "u32 \<Rightarrow> 'a sys_state_scheme \<Rightarrow> int \<times> u32 \<times> 'a sys_state_scheme" where
  "check_executable exec_name s =
     (case read_dentry_by_name s exec_name (dentry_junk s) of (found, d) \<Rightarrow>
        if found = - 1 then (- 1, 0, s)
        else if inode d = 0 then (- 1, 0, s)
        else let h = elf_header_at s;
                 s = s\<lparr>mem := snd (read_data s (inode d) 0 h ELF_HEADER_SIZE)\<rparr>;
                 entry = load32 (mem s) (h + 24)
             in if \<not> (mem s h = 0x7F \<and> mem s (h + 1) = 69 \<and> mem s (h + 2) = 76 \<and> mem s (h + 3) = 70)
                then (- 1, 0, s)
                else if entry < PAGE_VIRT_ADDR \<or> entry > PAGE_VIRT_ADDR + PAGE_SIZE_4MB then (- 1, 0, s)
                else (0, entry, s))"

section \<open>execute and halt\<close>

text \<open>The part of execute after the checks: a page directory, the image, the switch.\<close>

definition start_program :: "nat \<Rightarrow> u32 \<Rightarrow> 'a sys_state_scheme \<Rightarrow> 'a sys_state_scheme outcome" where
  "start_program i entry s =
     (case new_task_pd (program_id (pcbs s ! i) - 1) s of
        None \<Rightarrow> Faults
      | Some (r, s) \<Rightarrow>
          let s = snd (copy_file_image (image_buf_at s) (dentry_junk s) (cmd_name s i) s);
              s = upd_pcb i (\<lambda>p. p\<lparr>esp := reg_esp s, ebp := reg_ebp s\<rparr>) s;
              s = s\<lparr>tss_ss0 := KERNEL_DS, tss_esp0 := address (pcbs s ! i)\<rparr>
          in Enters entry s)"

text \<open>
  The new block gets its parent: the block that was current, unless there was none or it is
  the unused block 0.
\<close>

definition link_parent :: "nat option \<Rightarrow> nat \<Rightarrow> 'a pcb_state_scheme \<Rightarrow> 'a pcb_state_scheme" where
  "link_parent c i s =
     (let s = (case c of None \<Rightarrow> s
               | Some p \<Rightarrow> upd_pcb i (\<lambda>b. b\<lparr>parent_id := program_id (pcbs s ! p)\<rparr>) s)
      in if c = Some 0 then upd_pcb i (\<lambda>b. b\<lparr>parent_id := 0\<rparr>) s else s)"

definition execute :: "u32 \<Rightarrow> 'a sys_state_scheme \<Rightarrow> 'a sys_state_scheme outcome" where
  "execute command s =
     (let s = cli (send_eoi 1 s) in
      if process_number s + 1 \<ge> of_nat MAX_PROCESSES
      then Returns 0 (kprint (''you can'' @ [CHR 0x27] @ ''t run any more processes!'' @ [CHR 0x0A]) s)
      else let s = s\<lparr>process_number := process_number s + 1\<rparr>;
               new_pcb = get_new_pcb s;
               cur_pcb = get_cur_pcb s
           in if new_pcb \<ge> of_nat MAX_PROCESSES then Faults
              else let i = unat new_pcb;
                       s = link_parent cur_pcb i (snd (pcb_init i s))
                   in case check_command command (cmd_name s i) (cmd_args s i) s of
                        None \<Rightarrow> Faults
                      | Some (ok, s) \<Rightarrow>
                          if ok \<noteq> 0 then Returns minus_one (snd (pcb_destroy i s))
                          else (case check_executable (cmd_name s i) s of (ok, entry, s) \<Rightarrow>
                                  if ok < 0 then Returns minus_one (snd (pcb_destroy i s))
                                  else start_program i entry s))"

fun close_all :: "nat list \<Rightarrow> 'a sys_state_scheme \<Rightarrow> 'a sys_state_scheme option" where
  "close_all [] s = Some s"
| "close_all (fd # fds) s =
     (case sys_close (int fd) s of Returns r s \<Rightarrow> close_all fds s | _ \<Rightarrow> None)"

definition halt_last :: "'a sys_state_scheme \<Rightarrow> 'a sys_state_scheme outcome" where
  "halt_last s =
     (let s = s\<lparr>reg_esp := esp (pcbs s ! cur s)\<rparr>;
          s = s\<lparr>reg_ebp := ebp (pcbs s ! cur s)\<rparr>
      in case close_all [0..<FD_MAX_IDX + 1] s of
           None \<Rightarrow> Faults
         | Some s \<Rightarrow>
             let s = snd (pcb_destroy (cur s) s);
                 s = s\<lparr>tss_esp0 := address (pcbs s ! cur s)\<rparr>;
                 id = program_id (pcbs s ! cur s)
             in if id = 0 \<or> unat id > MAX_TASKS then Faults
                else Resumes (loadPageDirectory (unat (id - 1)) s))"

definition halt :: "u8 \<Rightarrow> 'a sys_state_scheme \<Rightarrow> 'a sys_state_scheme outcome" where
  "halt status s =
     (if num_process (terminal_info s ! curr_terminal s) - 1 \<le> 0
      then (case close_all [0..<FD_MAX_IDX + 1] s of
              None \<Rightarrow> Faults
            | Some s \<Rightarrow>
                let s = snd (pcb_destroy (cur s) s) in
                (case execute (shell_at s) s of
                   Returns r s \<Rightarrow> halt_last s
                 | out \<Rightarrow> out))
      else halt_last s)"

section \<open>The dispatcher\<close>

text \<open>
  The call number is compared with 10, but the table has eight entries: calls 9 and 10 jump
  through whatever follows the table.
\<close>

definition syscall_handler :: "nat \<Rightarrow> u32 \<Rightarrow> u32 \<Rightarrow> u32 \<Rightarrow> u32 \<Rightarrow> 'a sys_state_scheme \<Rightarrow> 'a sys_state_scheme outcome" where
  "syscall_handler irqs eax ebx ecx edx s =
     (if eax > 10 \<or> sint eax \<le> 0 then Returns minus_one s
      else if eax = 1 then halt (ucast ebx) s
      else if eax = 2 then execute ebx s
      else if eax = 3 then sys_read irqs (sint ebx) ecx (sint edx) s
      else if eax = 4 then sys_write (sint ebx) ecx (sint edx) s
      else if eax = 5 then sys_open ebx s
      else if eax = 6 then sys_close (sint ebx) s
      else if eax = 7 then getargs ebx (sint ecx) s
      else if eax = 8 then vidmap ebx s
      else Faults)"

end
