(* ===== verification/Kud_Files.thy ===== *)
theory Kud_Files
  imports Kud_Syscall
begin

unbundle bit_operations_syntax

text \<open>
  The file system calls \<^verbatim>\<open>read\<close>, \<^verbatim>\<open>write\<close>, \<^verbatim>\<open>open\<close> and \<^verbatim>\<open>close\<close> of
  \<^verbatim>\<open>syscall.c\<close>, seen from the process that makes them: the descriptor table of a process
  stays well formed, so that no call ever goes through a null or a wrong driver table, and
  no call changes which processes there are. The drivers are reached through function
  pointers; the contract each of them has to meet is the locale \<open>file_call\<close>.
\<close>

section \<open>What a call may not change\<close>

text \<open>The processes: who they are, who started them, and the counts per terminal.\<close>

definition procs :: "'a pcb_state_scheme \<Rightarrow> (u32 \<times> u32) list \<times> nat option \<times> u32 \<times> terminal_t list \<times> nat" where
  "procs s = (map (\<lambda>p. (program_id p, parent_id p)) (pcbs s), current_pcb s, process_number s,
     terminal_info s, curr_terminal s)"

text \<open>The descriptor tables, the current process and the driver tables.\<close>

definition tables :: "'a pcb_state_scheme \<Rightarrow> fs_descriptor list list \<times> nat option \<times> file_op_ptr list" where
  "tables s = (map file_array (pcbs s), current_pcb s, [file_ops s, rtc_ops s, stdin_ops s, stdout_ops s])"

definition kern :: "'a pcb_state_scheme \<Rightarrow> pcb list \<times> nat option \<times> u32 \<times> terminal_t list \<times> nat \<times> file_op_ptr list" where
  "kern s = (pcbs s, current_pcb s, process_number s, terminal_info s, curr_terminal s,
     [file_ops s, rtc_ops s, stdin_ops s, stdout_ops s])"

lemma kern_procs: "kern s' = kern s \<Longrightarrow> procs s' = procs s"
  by (simp add: kern_def procs_def)

lemma kern_tables: "kern s' = kern s \<Longrightarrow> tables s' = tables s"
  by (simp add: kern_def tables_def)

named_theorems kern_simps \<open>operations that leave processes and tables alone\<close>

lemma kern_ports [kern_simps, simp]:
  "kern (outb d p s) = kern s" "kern (snd (inb p s)) = kern s" "kern (cli s) = kern s"
  "kern (sti s) = kern s" "kern (send_eoi k s) = kern s" "kern (enable_irq k s) = kern s"
  "kern (disable_irq k s) = kern s"
  by (simp_all add: kern_def outb_def inb_def cli_def sti_def send_eoi_def enable_irq_def
      disable_irq_def Let_def)

lemma kern_mem [kern_simps, simp]: "kern (s\<lparr>mem := m\<rparr>) = kern s"
  by (simp add: kern_def)

lemma kern_terminal [kern_simps, simp]:
  "kern (move_csr s) = kern s" "kern (scroll s) = kern s" "kern (clear_buffer s) = kern s"
  "kern (add_to_buffer c s) = kern s"
  by (simp_all add: kern_def move_csr_def scroll_def clear_buffer_def add_to_buffer_def outb_def
      cli_def sti_def Let_def)

lemma kern_cells [kern_simps, simp]:
  "kern (s\<lparr>csr_x := a\<rparr>) = kern s" "kern (s\<lparr>csr_y := a\<rparr>) = kern s" "kern (s\<lparr>line_y := a\<rparr>) = kern s"
  "kern (s\<lparr>line_beginning := a\<rparr>) = kern s" "kern (s\<lparr>enter_flag := v\<rparr>) = kern s"
  "kern (s\<lparr>terminal_buffer := tb\<rparr>) = kern s" "kern (s\<lparr>buffer_len := bl\<rparr>) = kern s"
  by (simp_all add: kern_def)

lemma kern_new_line [kern_simps, simp]: "kern (new_line b s) = kern s"
  by (simp add: new_line_def Let_def)

lemma kern_putch_end [kern_simps, simp]: "kern (putch_end s) = kern s"
  by (simp add: putch_end_def Let_def)

lemma kern_putch [kern_simps, simp]: "kern (putch c s) = kern s"
  by (simp add: putch_def Let_def)

lemma kern_fold_putch [kern_simps, simp]: "kern (fold putch cs s) = kern s"
  by (induction cs arbitrary: s) simp_all

lemma kern_kprint [kern_simps, simp]: "kern (kprint str s) = kern s"
  by (simp add: kprint_def)

lemma kern_terminal_write_loop: "kern (terminal_write_loop n p s) = kern s"
  by (induction n arbitrary: p s) simp_all

lemma kern_terminal_write: "terminal_write fd buf n s = (r, s') \<Longrightarrow> kern s' = kern s"
  by (auto simp: terminal_write_def Let_def kern_terminal_write_loop split: if_splits)

lemma kern_terminal_read: "terminal_read fd buf n s = Some (r, s') \<Longrightarrow> kern s' = kern s"
  by (auto simp: terminal_read_def Let_def split: if_splits prod.splits)

lemma kern_rtc [kern_simps, simp]:
  "kern (rtc_handler s) = kern s" "kern (s\<lparr>rtc_read_flag := v\<rparr>) = kern s"
  "kern (s\<lparr>rtc_sync_flag := v\<rparr>) = kern s"
  by (simp_all add: kern_def rtc_handler_def send_eoi_def outb_def inb_def Let_def)

lemma kern_rtc_wait: "rtc_wait n s = Some s' \<Longrightarrow> kern s' = kern s"
  by (induction n arbitrary: s) (auto split: if_splits)

lemma kern_rtc_read: "rtc_read n fd buf k s = Some (r, s') \<Longrightarrow> kern s' = kern s"
  using kern_rtc_wait [of n "s\<lparr>rtc_read_flag := 1\<rparr>"] by (auto simp: rtc_read_def split: option.splits)

lemma kern_rtc_write: "rtc_write m fd buf k s = (r, s') \<Longrightarrow> kern s' = kern s"
  by (auto simp: rtc_write_def rtc_set_rate_def inb_def kern_def outb_def enable_irq_def disable_irq_def
      Let_def split: if_splits)

section \<open>Well-formed descriptor tables\<close>

definition slot_ok :: "nat \<Rightarrow> fs_descriptor \<Rightarrow> bool" where
  "slot_ok fd d \<longleftrightarrow>
     (if fd = 0 then flags d = 0 \<or> fd_ops d = Ops_stdin
      else if fd = 1 then flags d = 0 \<or> fd_ops d = Ops_stdout
      else (flags d = 0 \<longleftrightarrow> fd_ops d = Ops_null) \<and> fd_ops d \<in> {Ops_null, Ops_file, Ops_rtc})"

definition table_ok :: "fs_descriptor list \<Rightarrow> bool" where
  "table_ok fa \<longleftrightarrow> length fa = 8 \<and> (\<forall>fd < 8. slot_ok fd (fa ! fd))"

text \<open>
  The state a process makes its calls in: every table is well formed, the initialisers have
  filled the driver tables, and the current block is its own \<^verbatim>\<open>pcbs[program_id]\<close>.
\<close>

definition files_ok :: "'a pcb_state_scheme \<Rightarrow> bool" where
  "files_ok s \<longleftrightarrow> ops_ready s \<and> length (pcbs s) = MAX_PROCESSES \<and> (\<forall>p \<in> set (pcbs s). table_ok (file_array p))
     \<and> (\<exists>c < MAX_PROCESSES. current_pcb s = Some c \<and> program_id (pcbs s ! c) = of_nat c)"

lemma files_ok_cong:
  assumes "tables s' = tables s" and "procs s' = procs s"
  shows "files_ok s' = files_ok s"
proof -
  have eq: "map file_array (pcbs s') = map file_array (pcbs s)"
    "map (\<lambda>p. (program_id p, parent_id p)) (pcbs s') = map (\<lambda>p. (program_id p, parent_id p)) (pcbs s)"
    and c: "current_pcb s' = current_pcb s" and o: "ops_ready s' = ops_ready s"
    using assms by (simp_all add: tables_def procs_def ops_ready_def)
  have len: "length (pcbs s') = length (pcbs s)" using map_eq_imp_length_eq [OF eq(1)] .
  have "(\<forall>p \<in> set (pcbs s'). table_ok (file_array p)) = (\<forall>p \<in> set (pcbs s). table_ok (file_array p))"
    using arg_cong [OF eq(1), of "\<lambda>l. \<forall>x \<in> set l. table_ok x"] by simp
  moreover have "program_id (pcbs s' ! i) = program_id (pcbs s ! i)" if "i < length (pcbs s)" for i
    using arg_cong [OF eq(2), of "\<lambda>l. fst (l ! i)"] that len by simp
  ultimately show ?thesis by (auto simp: files_ok_def o len c)
qed

lemma files_ok_kern: "kern s' = kern s \<Longrightarrow> files_ok s \<Longrightarrow> files_ok s' \<and> procs s' = procs s"
  using files_ok_cong kern_tables kern_procs by metis

lemma files_okD:
  assumes "files_ok s"
  obtains c where "current_pcb s = Some c" "c < 7" "length (pcbs s) = 7" "ops_ready s"
    "program_id (pcbs s ! c) = of_nat c" "table_ok (file_array (pcbs s ! c))"
    "length (file_array (pcbs s ! c)) = 8"
proof -
  obtain c where c: "current_pcb s = Some c" "c < 7" "length (pcbs s) = 7" "ops_ready s"
      "program_id (pcbs s ! c) = of_nat c" and all: "\<forall>p \<in> set (pcbs s). table_ok (file_array p)"
    using assms by (auto simp: files_ok_def MAX_PROCESSES_def)
  have "table_ok (file_array (pcbs s ! c))" using all c(2,3) by simp
  with c show thesis by (intro that) (auto simp: table_ok_def)
qed

text \<open>Replacing one descriptor of the current process by a well-formed one.\<close>

lemma nth_update_view:
  assumes "\<And>x. f (g x) = f x"
  shows "f (xs[i := g (xs ! i)] ! j) = f (xs ! j)"
  using assms by (cases "i = j"; cases "i < length xs") (simp_all add: list_update_beyond)

lemma procs_set_cur_fd [simp]: "procs (set_cur_fd fd d s) = procs s"
proof -
  have "map (\<lambda>p. (program_id p, parent_id p)) ((pcbs s)[i := set_fd fd d (pcbs s ! i)])
      = map (\<lambda>p. (program_id p, parent_id p)) (pcbs s)" for i
    by (rule nth_equalityI) (simp_all add: set_fd_def nth_update_view [where f = program_id]
        nth_update_view [where f = parent_id])
  then show ?thesis by (simp add: procs_def set_cur_fd_def upd_pcb_def)
qed

lemma ops_ready_set_cur_fd [simp]: "ops_ready (set_cur_fd fd d s) = ops_ready s"
  by (simp add: ops_ready_def set_cur_fd_def upd_pcb_def)

lemma program_id_set_cur_fd [simp]: "program_id (pcbs (set_cur_fd fd d s) ! i) = program_id (pcbs s ! i)"
  by (simp add: set_cur_fd_def upd_pcb_def set_fd_def nth_update_view [where f = program_id])

lemma files_ok_set_cur_fd:
  assumes "files_ok s" and "fd < 8" and "slot_ok fd d"
  shows "files_ok (set_cur_fd fd d s)"
proof -
  obtain c where c: "current_pcb s = Some c" "c < 7" "length (pcbs s) = 7"
      "table_ok (file_array (pcbs s ! c))"
    using files_okD [OF assms(1)] .
  have "table_ok ((file_array (pcbs s ! c))[fd := d])"
    using c(4) assms(2,3) by (auto simp: table_ok_def nth_list_update)
  then have "\<forall>p \<in> set (pcbs (set_cur_fd fd d s)). table_ok (file_array p)"
    using assms(1) c by (auto simp: set_cur_fd_def upd_pcb_def set_fd_def files_ok_def
        dest!: set_update_subset_insert [THEN subsetD])
  moreover have "length (pcbs (set_cur_fd fd d s)) = length (pcbs s)"
    by (simp add: set_cur_fd_def upd_pcb_def)
  ultimately show ?thesis using assms(1) by (auto simp: files_ok_def)
qed

section \<open>The contract of a call\<close>

primrec good :: "('s \<Rightarrow> bool) \<Rightarrow> 's outcome \<Rightarrow> bool" where
  "good P (Returns r s) = P s"
| "good P (Enters e s) = P s"
| "good P (Resumes s) = P s"
| "good P (Waits s) = P s"
| "good P Faults = False"

text \<open>
  A call meets the contract when from every well-formed state it reaches a defined outcome,
  in a state that is well formed again and has the same processes. The second parameter is
  what a call demands of its own arguments and of the memory.
\<close>

locale file_call =
  fixes call :: "'i \<Rightarrow> 'a sys_state_scheme \<Rightarrow> 'a sys_state_scheme outcome"
    and pre :: "'i \<Rightarrow> 'a sys_state_scheme \<Rightarrow> bool"
  assumes call_good: "files_ok s \<Longrightarrow> pre i s \<Longrightarrow> good (\<lambda>s'. files_ok s' \<and> procs s' = procs s) (call i s)"
begin

lemma not_faults: "files_ok s \<Longrightarrow> pre i s \<Longrightarrow> call i s \<noteq> Faults"
  using call_good [of s i] by auto

lemma returns_ok:
  "files_ok s \<Longrightarrow> pre i s \<Longrightarrow> call i s = Returns r s' \<Longrightarrow> files_ok s' \<and> procs s' = procs s"
  using call_good [of s i] by simp

end

definition live :: "'a term_state_scheme \<Rightarrow> bool" where
  "live s \<longleftrightarrow> (\<exists>z. mem s z = 0)"

lemma strlen_live:
  assumes "m z = 0"
  shows "\<exists>n. strlen m a = Some n"
proof -
  let ?P = "\<lambda>k. m (a + of_nat k) = 0"
  have p: "?P (unat (z - a))" using assms by simp
  define k where "k = (LEAST k. ?P k)"
  have k: "?P k" unfolding k_def by (rule LeastI [of ?P, OF p])
  have le: "k \<le> unat (z - a)" unfolding k_def by (rule Least_le [of ?P, OF p])
  have nz: "\<not> ?P j" if "j < k" for j using not_less_Least [of j ?P] that unfolding k_def by blast
  have "cstring m a (load_bytes m a k)"
    using k nz le unat_lt32 [of "z - a"] by (intro cstringI) (auto simp: in_set_conv_nth)
  then show ?thesis by (blast dest: strlen_cstring)
qed

lemma slot_ok_position [simp]: "slot_ok fd (d\<lparr>file_position := v\<rparr>) = slot_ok fd d"
  by (simp add: slot_ok_def)

lemma slot_ok_cur:
  assumes "files_ok s" and "fd < 8"
  shows "slot_ok fd (cur_fd s fd)"
  using files_okD [OF assms(1)] assms(2) by (metis cur_fd_def option.sel table_ok_def)

lemma files_ok_mem [simp]: "files_ok (s\<lparr>mem := m\<rparr>) = files_ok s" "procs (s\<lparr>mem := m\<rparr>) = procs s"
  by (simp_all add: files_ok_def ops_ready_def procs_def)

lemma files_ok_step:
  "files_ok s \<Longrightarrow> fd < 8 \<Longrightarrow> files_ok (set_cur_fd fd ((cur_fd s fd)\<lparr>file_position := v\<rparr>) s)"
  by (intro files_ok_set_cur_fd) (simp_all add: slot_ok_cur)

lemma cur_fd_mem [simp]: "cur_fd (s\<lparr>mem := m\<rparr>) fd = cur_fd s fd"
  by (simp add: cur_fd_def)

lemma read_one_loop_ok:
  "files_ok s \<Longrightarrow> fd < 8 \<Longrightarrow> read_one_loop n buf off co dbn sz b fd s = (r, s') \<Longrightarrow>
   files_ok s' \<and> procs s' = procs s"
proof (induction n arbitrary: buf off co dbn b s)
  case (Suc n)
  let ?t = "set_cur_fd fd ((cur_fd s fd)\<lparr>file_position := file_position (cur_fd s fd) + 1\<rparr>)
    (s\<lparr>mem := memcpy (mem s) buf (data_block s dbn + co) 1\<rparr>)"
  have t: "files_ok ?t" "procs ?t = procs s"
    using files_ok_step [of "s\<lparr>mem := m\<rparr>" for m] Suc.prems by simp_all
  show ?case
    using Suc.IH [OF t(1) Suc.prems(2)] Suc.prems t by (auto simp: Let_def split: if_splits)
qed simp

lemma read_file_ok:
  assumes "files_ok s" and "fd < 8" and "live s"
  obtains r s' where "read_file fd buf n s = Some (r, s')" "files_ok s'" "procs s' = procs s"
proof (cases "inode_ptr (cur_fd s fd) = NULL32")
  case True
  obtain k where "strlen (mem s) (dir_entry s (file_position (cur_fd s fd))) = Some k"
    using assms(3) strlen_live unfolding live_def by metis
  then show thesis
    using True assms files_ok_step [of "s\<lparr>mem := m\<rparr>" for m]
    by (intro that [of "fst (the (read_file fd buf n s))" "snd (the (read_file fd buf n s))"])
       (simp_all add: read_file_def read_dir_def Let_def)
next
  case False
  obtain r s' where rs: "read_data_one fd buf (of_int n) s = (r, s')" by fastforce
  then have "files_ok s' \<and> procs s' = procs s"
    using read_one_loop_ok [OF assms(1,2)] by (simp add: read_data_one_def Let_def)
  with rs False show thesis by (intro that [of r s']) (simp_all add: read_file_def)
qed

lemma call_read_ok:
  assumes "files_ok s" and "fd < 8" and "live s" and "f \<in> {Fn_read_file, Fn_rtc_read, Fn_terminal_read}"
  shows "good (\<lambda>s'. files_ok s' \<and> procs s' = procs s) (call_read irqs f fd buf n s)"
proof -
  consider "f = Fn_read_file" | "f = Fn_rtc_read" | "f = Fn_terminal_read" using assms(4) by blast
  then show ?thesis
  proof cases
    case 1
    obtain r s' where "read_file fd buf n s = Some (r, s')" "files_ok s'" "procs s' = procs s"
      using read_file_ok [OF assms(1-3)] .
    with 1 show ?thesis by (simp add: call_read_def)
  next
    case 2
    show ?thesis
    proof (cases "rtc_read irqs (of_nat fd) buf n s")
      case (Some x)
      then obtain r t where "rtc_read irqs (of_nat fd) buf n s = Some (r, t)" by (cases x) simp
      with 2 files_ok_kern [OF kern_rtc_read assms(1), of irqs "of_nat fd" buf n r t] show ?thesis
        by (simp add: call_read_def)
    qed (use 2 assms(1) in \<open>simp add: call_read_def\<close>)
  next
    case 3
    show ?thesis
    proof (cases "terminal_read (of_nat fd) buf n s")
      case (Some x)
      then obtain r t where "terminal_read (of_nat fd) buf n s = Some (r, t)" by (cases x) simp
      with 3 files_ok_kern [OF kern_terminal_read assms(1), of "of_nat fd" buf n r t] show ?thesis
        by (simp add: call_read_def)
    qed (use 3 assms(1) in \<open>simp add: call_read_def\<close>)
  qed
qed

lemma call_write_ok:
  assumes "files_ok s" and "f \<in> {Fn_write_file, Fn_rtc_write, Fn_terminal_write}"
  shows "good (\<lambda>s'. files_ok s' \<and> procs s' = procs s) (call_write f fd buf n s)"
proof -
  have "files_ok t \<and> procs t = procs s" if "rtc_write (mem s) (of_nat fd) buf n s = (q, t)" for q t
    by (rule files_ok_kern [OF kern_rtc_write [OF that] assms(1)])
  moreover have "files_ok t \<and> procs t = procs s" if "terminal_write (of_nat fd) buf n s = (q, t)" for q t
    by (rule files_ok_kern [OF kern_terminal_write [OF that] assms(1)])
  ultimately show ?thesis
    using assms by (auto simp: call_write_def split: prod.splits)
qed

section \<open>The calls meet the contract\<close>

lemma open_slot:
  assumes "slot_ok fd d" and "flags d \<noteq> 0"
  shows "fd = 0 \<Longrightarrow> fd_ops d = Ops_stdin" and "fd = 1 \<Longrightarrow> fd_ops d = Ops_stdout"
    and "2 \<le> fd \<Longrightarrow> fd_ops d = Ops_file \<or> fd_ops d = Ops_rtc"
  using assms by (auto simp: slot_ok_def)

lemma sys_read_ok:
  assumes "files_ok s" and "fd_flags s fd \<noteq> None" and "live s"
  shows "good (\<lambda>s'. files_ok s' \<and> procs s' = procs s) (sys_read irqs fd buf n s)"
proof (cases "0 \<le> fd \<and> fd < 8 \<and> fd \<noteq> 1 \<and> flags (cur_fd s (nat fd)) \<noteq> 0 \<and> buf \<noteq> NULL32")
  case True
  let ?d = "cur_fd s (nat fd)"
  have fd: "nat fd < 8" using True by (simp add: nat_less_iff)
  have ready: "ops_ready s" using assms(1) by (simp add: files_ok_def)
  have "nat fd = 0 \<or> 2 \<le> nat fd" using True by linarith
  then have "\<exists>ops. ops_of s (fd_ops ?d) = Some ops \<and> readptr ops \<in> {Fn_read_file, Fn_rtc_read, Fn_terminal_read}"
    using open_slot [OF slot_ok_cur [OF assms(1) fd]] True ready by (auto simp: ops_ready_def)
  then obtain ops where ops: "ops_of s (fd_ops ?d) = Some ops"
      "readptr ops \<in> {Fn_read_file, Fn_rtc_read, Fn_terminal_read}" by blast
  then have "sys_read irqs fd buf n s = call_read irqs (readptr ops) (nat fd) buf n s"
    using True by (simp add: sys_read_def fd_flags_def FD_MAX_IDX_def)
  then show ?thesis using call_read_ok [OF assms(1) fd assms(3) ops(2)] by simp
next
  case False
  then have "sys_read irqs fd buf n s = Returns minus_one s"
    using assms(2) by (auto simp: sys_read_def fd_flags_def FD_MAX_IDX_def split: option.splits if_splits)
  then show ?thesis using assms(1) by simp
qed

lemma sys_write_ok:
  assumes "files_ok s" and "fd_flags s fd \<noteq> None"
  shows "good (\<lambda>s'. files_ok s' \<and> procs s' = procs s) (sys_write fd buf n s)"
proof (cases "0 < fd \<and> fd < 8 \<and> flags (cur_fd s (nat fd)) \<noteq> 0 \<and> buf \<noteq> NULL32")
  case True
  let ?d = "cur_fd s (nat fd)"
  have fd: "nat fd < 8" using True by (simp add: nat_less_iff)
  have ready: "ops_ready s" using assms(1) by (simp add: files_ok_def)
  obtain c where c: "current_pcb s = Some c" "c < 7" "program_id (pcbs s ! c) = of_nat c"
    using files_okD [OF assms(1)] .
  then have p: "unat (program_id (pcbs s ! cur s)) = c" by (simp add: unat_of_nat32)
  have "nat fd = 1 \<or> 2 \<le> nat fd" using True by linarith
  then have "\<exists>ops. ops_of s (fd_ops ?d) = Some ops \<and> writeptr ops \<in> {Fn_write_file, Fn_rtc_write, Fn_terminal_write}"
    using open_slot [OF slot_ok_cur [OF assms(1) fd]] True ready by (auto simp: ops_ready_def)
  then obtain ops where ops: "ops_of s (fd_ops ?d) = Some ops"
      "writeptr ops \<in> {Fn_write_file, Fn_rtc_write, Fn_terminal_write}" by blast
  then have "sys_write fd buf n s = call_write (writeptr ops) (nat fd) buf n s"
    using True c p by (simp add: sys_write_def fd_flags_def FD_MAX_IDX_def MAX_PROCESSES_def cur_fd_def Let_def)
  then show ?thesis using call_write_ok [OF assms(1) ops(2)] by simp
next
  case False
  then have "sys_write fd buf n s = Returns minus_one s"
    using assms(2) by (auto simp: sys_write_def fd_flags_def FD_MAX_IDX_def split: option.splits if_splits)
  then show ?thesis using assms(1) by simp
qed

lemma set_cur_fd_twice [simp]: "set_cur_fd fd d (set_cur_fd fd e s) = set_cur_fd fd d s"
proof (cases "the (current_pcb s) < length (pcbs s)")
  case True
  then show ?thesis by (simp add: set_cur_fd_def upd_pcb_def set_fd_def)
qed (simp add: set_cur_fd_def upd_pcb_def list_update_beyond)

lemma remove_fd_cur:
  assumes "current_pcb s = Some c" and "2 \<le> fd" and "fd < 8"
  shows "snd (remove_fd c (of_nat fd) s) = set_cur_fd fd ((cur_fd s fd)\<lparr>fd_ops := Ops_null\<rparr>) s"
proof -
  have "unat (of_nat fd :: u8) = fd" using assms(3) by (simp add: unat_of_nat)
  then show ?thesis
    using assms by (simp add: remove_fd_def FD_MIN_IDX_def FD_MAX_IDX_def set_cur_fd_def upd_pcb_def
        set_fd_def cur_fd_def)
qed

lemma cur_fd_set_same:
  assumes "files_ok s" and "fd < 8"
  shows "cur_fd (set_cur_fd fd d s) fd = d"
proof -
  obtain c where c: "current_pcb s = Some c" "c < 7" "length (pcbs s) = 7"
      "length (file_array (pcbs s ! c)) = 8"
    using files_okD [OF assms(1)] .
  show ?thesis by (rule cur_fd_set_cur_fd(1) [OF c(1)]) (use c assms(2) in simp_all)
qed

text \<open>Closing an open descriptor leaves it free and touches nothing else.\<close>

lemma sys_close_frees:
  assumes "files_ok s" and "2 \<le> fd" and "fd < 8" and "flags (cur_fd s fd) \<noteq> 0"
  shows "\<exists>d. fd_ops d = Ops_null \<and> flags d = 0 \<and> sys_close (int fd) s = Returns 0 (set_cur_fd fd d s)"
proof -
  obtain c where c: "current_pcb s = Some c" "c < 7" "length (pcbs s) = 7" "ops_ready s"
      "length (file_array (pcbs s ! c)) = 8"
    using files_okD [OF assms(1)] .
  let ?e = "(cur_fd s fd)\<lparr>flags := 0\<rparr>"
  let ?s = "set_cur_fd fd ?e s"
  have cur: "file_array (pcbs ?s ! c) ! fd = ?e" "current_pcb ?s = Some c"
    using cur_fd_set_same [OF assms(1,3), of ?e] c by (simp_all add: cur_fd_def)
  have fd: "fd_flags s (int fd) = Some (flags (cur_fd s fd))" using assms(3) by (simp add: fd_flags_def)
  have flag: "flags (file_array (pcbs s ! c) ! fd) \<noteq> 0" using assms(4) c by (simp add: cur_fd_def)
  have ready: "ops_ready ?s" using c(4) by simp
  have unfold: "sys_close (int fd) s = (case ops_of ?s (fd_ops ?e) of None \<Rightarrow> Faults
      | Some ops \<Rightarrow> (case call_close (closeptr ops) (nat (int fd)) ?s of
          Returns r s \<Rightarrow> Returns 0 (snd (remove_fd c (of_int (int fd)) s)) | _ \<Rightarrow> Faults))"
    using assms(2-4) c(1) cur flag fd
    by (simp add: sys_close_def FD_MIN_IDX_def FD_MAX_IDX_def Let_def)
  have "fd_ops (cur_fd s fd) = Ops_file \<or> fd_ops (cur_fd s fd) = Ops_rtc"
    by (rule open_slot(3) [OF slot_ok_cur [OF assms(1,3)] assms(4,2)])
  then show ?thesis
  proof
    assume f: "fd_ops (cur_fd s fd) = Ops_file"
    have "sys_close (int fd) s = Returns 0 (set_cur_fd fd null_fd s)"
      using ready f c(1) assms(2,3) unfolding unfold
      by (simp add: ops_ready_def call_close_def close_file_def remove_fd_cur [where c = c]
          cur_fd_set_same [OF assms(1)] null_fd_def)
    then show ?thesis by (intro exI [of _ null_fd]) (simp add: null_fd_def)
  next
    assume f: "fd_ops (cur_fd s fd) = Ops_rtc"
    have "sys_close (int fd) s = Returns 0 (set_cur_fd fd (?e\<lparr>fd_ops := Ops_null\<rparr>) s)"
      using ready f c(1) assms(2,3) unfolding unfold
      by (simp add: ops_ready_def call_close_def rtc_close_def remove_fd_cur [where c = c]
          cur_fd_set_same [OF assms(1)])
    then show ?thesis by (intro exI [of _ "?e\<lparr>fd_ops := Ops_null\<rparr>"]) simp
  qed
qed

lemma sys_close_error:
  assumes "fd_flags s fd = Some fl" and "fl = 0 \<or> fd < 2 \<or> 7 < fd"
  shows "sys_close fd s = Returns minus_one s"
  using assms by (auto simp: sys_close_def FD_MIN_IDX_def FD_MAX_IDX_def)

lemma sys_close_ok:
  assumes "files_ok s" and "fd_flags s fd \<noteq> None"
  shows "good (\<lambda>s'. files_ok s' \<and> procs s' = procs s) (sys_close fd s)"
proof (cases "2 \<le> fd \<and> fd < 8 \<and> flags (cur_fd s (nat fd)) \<noteq> 0")
  case True
  then have fd: "2 \<le> nat fd" "nat fd < 8" "int (nat fd) = fd" by auto
  obtain d where "fd_ops d = Ops_null" "flags d = 0" "sys_close fd s = Returns 0 (set_cur_fd (nat fd) d s)"
    using sys_close_frees [OF assms(1) fd(1,2)] True fd(3) by auto
  then show ?thesis using files_ok_set_cur_fd [OF assms(1) fd(2), of d] fd(1) by (simp add: slot_ok_def)
next
  case False
  then have "sys_close fd s = Returns minus_one s"
    using assms(2) by (auto simp: fd_flags_def intro!: sys_close_error split: if_splits)
  then show ?thesis using assms(1) by simp
qed

lemma dentry_simps [simp]:
  "files_ok (s\<lparr>dentry := e\<rparr>) = files_ok s" "procs (s\<lparr>dentry := e\<rparr>) = procs s"
  "cur_fd (s\<lparr>dentry := e\<rparr>) fd = cur_fd s fd" "find_free_fd i (s\<lparr>dentry := e\<rparr>) = find_free_fd i s"
  by (simp_all add: files_ok_def ops_ready_def procs_def cur_fd_def find_free_fd_def)

text \<open>The ways \<^verbatim>\<open>open\<close> ends: refused, a descriptor filled in, or (for a directory entry of
  an unknown type) a descriptor number that was not filled in.\<close>

lemma open_file_cases:
  assumes "files_ok s"
  obtains (refused) e where "open_file name s = (minus_one, s\<lparr>dentry := e\<rparr>)"
      "fst (read_dentry_by_name s name (dentry s)) = - 1
       \<or> (\<forall>fd. 2 \<le> fd \<and> fd < 8 \<longrightarrow> fd_ops (cur_fd s fd) \<noteq> Ops_null)"
  | (filled) e fd d where "open_file name s = (of_nat fd, set_cur_fd fd d (s\<lparr>dentry := e\<rparr>))" "2 \<le> fd" "fd < 8"
      "read_dentry_by_name s name (dentry s) = (0, e)" "fd_ops (cur_fd s fd) = Ops_null"
      "\<forall>g. 2 \<le> g \<and> g < fd \<longrightarrow> fd_ops (cur_fd s g) \<noteq> Ops_null" "flags d = 1" "fd_ops d \<in> {Ops_file, Ops_rtc}"
  | (unknown) e fd where "open_file name s = (of_nat fd, s\<lparr>dentry := e\<rparr>)" "2 \<le> fd" "fd < 8"
      "read_dentry_by_name s name (dentry s) = (0, e)" "ftype e \<notin> {FILE_TYPE_RTC, FILE_TYPE_DIR, FILE_TYPE_REG}"
      "fd_ops (cur_fd s fd) = Ops_null"
proof -
  obtain c where c: "current_pcb s = Some c" "length (file_array (pcbs s ! c)) = 8"
    using files_okD [OF assms] .
  obtain chk e where e: "read_dentry_by_name s name (dentry s) = (chk, e)" by fastforce
  have chk: "chk = - 1 \<or> chk = 0" using e by (auto simp: read_dentry_by_name_eq Let_def split: if_splits)
  have cf: "file_array (pcbs s ! c) ! g = cur_fd s g" for g using c(1) by (simp add: cur_fd_def)
  show thesis
  proof (cases "chk = - 1")
    case True
    with e show thesis by (intro refused [of e]) (simp_all add: open_file_def)
  next
    case False
    with chk e have e: "read_dentry_by_name s name (dentry s) = (0, e)" by simp
    show thesis
    proof (cases rule: find_free_fd_cases [OF c(2)])
      case 1
      with e c(1) cf show thesis by (intro refused [of e]) (simp_all add: open_file_def)
    next
      case (2 fd)
      then have u: "unat (of_nat fd :: u32) = fd" "(of_nat fd :: u32) \<noteq> minus_one"
        by (auto simp: unat_of_nat32 dest: arg_cong [where f = unat])
      have eq: "open_file name s = (of_nat fd,
          if ftype e \<in> {FILE_TYPE_RTC, FILE_TYPE_DIR, FILE_TYPE_REG}
          then set_cur_fd fd \<lparr>fd_ops = (if ftype e = FILE_TYPE_RTC then Ops_rtc else Ops_file),
            inode_ptr = (if ftype e = FILE_TYPE_REG then inode_at s (inode e) else 0),
            file_position = 0, flags = 1\<rparr> (s\<lparr>dentry := e\<rparr>) else s\<lparr>dentry := e\<rparr>)"
        using e 2 u c(1) by (simp add: open_file_def Let_def inode_at_def FILE_TYPE_RTC_def FILE_TYPE_DIR_def
            FILE_TYPE_REG_def)
      show thesis
      proof (cases "ftype e \<in> {FILE_TYPE_RTC, FILE_TYPE_DIR, FILE_TYPE_REG}")
        case True
        with eq 2 e cf show thesis
          by (intro filled [of fd "\<lparr>fd_ops = (if ftype e = FILE_TYPE_RTC then Ops_rtc else Ops_file),
            inode_ptr = (if ftype e = FILE_TYPE_REG then inode_at s (inode e) else 0),
            file_position = 0, flags = 1\<rparr>" e]) simp_all
      next
        case False
        with eq 2 e cf show thesis by (intro unknown [of fd e]) simp_all
      qed
    qed
  qed
qed

lemma sys_open_ok:
  assumes "files_ok s"
  shows "good (\<lambda>s'. files_ok s' \<and> procs s' = procs s) (sys_open name s)"
proof (cases rule: open_file_cases [OF assms, of name])
  case filled: (2 e fd d)
  have "slot_ok fd d" using filled(2,7,8) by (auto simp: slot_ok_def)
  then have "files_ok (set_cur_fd fd d (s\<lparr>dentry := e\<rparr>))"
    using assms filled(3) by (intro files_ok_set_cur_fd) simp_all
  then show ?thesis using filled(1) by (simp add: sys_open_def)
qed (use assms in \<open>simp_all add: sys_open_def\<close>)

text \<open>The four calls, with their arguments as one value.\<close>

datatype file_request = Read nat int u32 int | Write int u32 int | Open u32 | Close int

primrec file_request_call :: "file_request \<Rightarrow> 'a sys_state_scheme \<Rightarrow> 'a sys_state_scheme outcome" where
  "file_request_call (Read irqs fd buf n) s = sys_read irqs fd buf n s"
| "file_request_call (Write fd buf n) s = sys_write fd buf n s"
| "file_request_call (Open name) s = sys_open name s"
| "file_request_call (Close fd) s = sys_close fd s"

text \<open>
  What the calls rely on: a descriptor number out of range must at least be readable memory
  behind the table, and a directory read stops at a zero byte somewhere.
\<close>

primrec request_pre :: "file_request \<Rightarrow> 'a sys_state_scheme \<Rightarrow> bool" where
  "request_pre (Read irqs fd buf n) s = (fd_flags s fd \<noteq> None \<and> live s)"
| "request_pre (Write fd buf n) s = (fd_flags s fd \<noteq> None)"
| "request_pre (Open name) s = True"
| "request_pre (Close fd) s = (fd_flags s fd \<noteq> None)"

interpretation fcall: file_call file_request_call request_pre
proof
  fix s :: "'a sys_state_scheme" and i
  assume "files_ok s" and "request_pre i s"
  then show "good (\<lambda>s'. files_ok s' \<and> procs s' = procs s) (file_request_call i s)"
    by (cases i) (simp_all add: sys_read_ok sys_write_ok sys_open_ok sys_close_ok)
qed

interpretation closing: file_call "\<lambda>fd. sys_close (int fd)" "\<lambda>fd s. fd < 8"
  by unfold_locales (auto simp: fd_flags_def intro!: sys_close_ok)

section \<open>Closing everything\<close>

lemma cur_fd_set_other:
  "g \<noteq> fd \<Longrightarrow> cur_fd (set_cur_fd fd d s) g = cur_fd s g"
  by (cases "the (current_pcb s) < length (pcbs s)")
    (simp_all add: cur_fd_def set_cur_fd_def upd_pcb_def set_fd_def list_update_beyond)

text \<open>Everything of the process blocks but the descriptor tables.\<close>

definition blocks :: "'a pcb_state_scheme \<Rightarrow> pcb list" where
  "blocks s = map (\<lambda>p. p\<lparr>file_array := []\<rparr>) (pcbs s)"

lemma blocks_set_cur_fd [simp]: "blocks (set_cur_fd fd d s) = blocks s"
proof -
  have "(set_fd fd d p)\<lparr>file_array := []\<rparr> = p\<lparr>file_array := []\<rparr>" for p :: pcb by (simp add: set_fd_def)
  then show ?thesis
    unfolding blocks_def set_cur_fd_def upd_pcb_def
    by (intro nth_equalityI) (simp_all add: nth_update_view [where f = "\<lambda>p. p\<lparr>file_array := []\<rparr>" and g = "set_fd fd d"])
qed

lemma set_cur_fd_pcbs: "set_cur_fd fd d s = s\<lparr>pcbs := pcbs (set_cur_fd fd d s)\<rparr>"
  by (simp add: set_cur_fd_def upd_pcb_def)

lemma sys_close_result:
  assumes "files_ok s" and "fd < 8"
  obtains r s' where "sys_close (int fd) s = Returns r s'" "files_ok s'" "procs s' = procs s"
    "2 \<le> fd \<Longrightarrow> flags (cur_fd s' fd) = 0" "\<forall>g. g \<noteq> fd \<longrightarrow> cur_fd s' g = cur_fd s g"
    "s' = s\<lparr>pcbs := pcbs s'\<rparr>" "blocks s' = blocks s" "r = (if 2 \<le> fd \<and> flags (cur_fd s fd) \<noteq> 0 then 0 else minus_one)"
proof (cases "2 \<le> fd \<and> flags (cur_fd s fd) \<noteq> 0")
  case True
  then obtain d where d: "fd_ops d = Ops_null" "flags d = 0" "sys_close (int fd) s = Returns 0 (set_cur_fd fd d s)"
    using sys_close_frees [OF assms(1) _ assms(2)] by blast
  with True show thesis
    using closing.returns_ok [OF assms d(3)] cur_fd_set_same [OF assms] cur_fd_set_other
    by (intro that [OF d(3)]) (auto intro: set_cur_fd_pcbs)
next
  case False
  then have "sys_close (int fd) s = Returns minus_one s"
    using assms(2) by (intro sys_close_error [of _ _ "flags (cur_fd s fd)"]) (auto simp: fd_flags_def)
  then show thesis by (rule that) (use assms False in auto)
qed

lemma close_all_ok:
  assumes "files_ok s" and "\<forall>fd \<in> set fds. fd < 8" and "distinct fds"
  shows "\<exists>s'. close_all fds s = Some s' \<and> files_ok s' \<and> procs s' = procs s \<and> s' = s\<lparr>pcbs := pcbs s'\<rparr> \<and> blocks s' = blocks s
    \<and> (\<forall>fd \<in> set fds. 2 \<le> fd \<longrightarrow> flags (cur_fd s' fd) = 0) \<and> (\<forall>g. g \<notin> set fds \<longrightarrow> cur_fd s' g = cur_fd s g)"
  using assms
proof (induction fds arbitrary: s)
  case (Cons fd fds)
  obtain r s1 where s1: "sys_close (int fd) s = Returns r s1" "files_ok s1" "procs s1 = procs s"
    "2 \<le> fd \<Longrightarrow> flags (cur_fd s1 fd) = 0" "\<forall>g. g \<noteq> fd \<longrightarrow> cur_fd s1 g = cur_fd s g"
    "s1 = s\<lparr>pcbs := pcbs s1\<rparr>" "blocks s1 = blocks s"
    using sys_close_result [OF Cons.prems(1), of fd] Cons.prems(2) by (metis list.set_intros(1))
  obtain s2 where s2: "close_all fds s1 = Some s2" "files_ok s2" "procs s2 = procs s1"
    "s2 = s1\<lparr>pcbs := pcbs s2\<rparr>" "blocks s2 = blocks s1"
    "\<forall>fd \<in> set fds. 2 \<le> fd \<longrightarrow> flags (cur_fd s2 fd) = 0" "\<forall>g. g \<notin> set fds \<longrightarrow> cur_fd s2 g = cur_fd s1 g"
    using Cons.IH [OF s1(2)] Cons.prems(2,3) by auto
  have "close_all (fd # fds) s = Some s2" using s1(1) s2(1) by simp
  moreover have "s2 = s\<lparr>pcbs := pcbs s2\<rparr>"
    using s1(6) s2(4) by (metis pcb_state.update_convs(1) pcb_state.surjective)
  ultimately show ?case using s1(2-5,7) s2(2,3,5-) Cons.prems(3) by (intro exI [of _ s2]) auto
qed simp

section \<open>Sequences of calls\<close>

definition file_step :: "'a sys_state_scheme \<Rightarrow> 'a sys_state_scheme \<Rightarrow> bool" where
  "file_step s s' \<longleftrightarrow> (\<exists>q r. request_pre q s \<and> file_request_call q s = Returns r s')"

interpretation fseq: invariant_system "\<lambda>s. files_ok s \<and> procs s = procs s0" file_step
    "\<lambda>s. files_ok s \<and> procs s = procs s0" for s0
  by unfold_locales (auto simp: file_step_def dest: fcall.returns_ok)

lemma find_dentry_cong:
  assumes "mem t = mem s" and "bootblock t = bootblock s"
    and "read_dentry_by_name s name d = (0, e)"
  shows "read_dentry_by_name t name d' = (0, e)"
proof -
  have "name_matches t name = name_matches s name" "dir_entry t = dir_entry s"
    "num_dir_entries t = num_dir_entries s"
    by (rule ext, simp add: name_matches_def dir_entry_def assms(1,2),
        rule ext, simp add: dir_entry_def assms(2), simp add: num_dir_entries_def assms(1,2))
  with assms(1,3) show ?thesis by (auto simp: read_dentry_by_name_eq Let_def split: if_splits)
qed

text \<open>Opening a known kind of file takes the lowest free descriptor.\<close>

lemma open_takes_lowest:
  assumes "files_ok s" and "read_dentry_by_name s name (dentry s) = (0, e)"
    and "ftype e \<in> {FILE_TYPE_RTC, FILE_TYPE_DIR, FILE_TYPE_REG}"
    and "2 \<le> fd" and "fd < 8" and "fd_ops (cur_fd s fd) = Ops_null"
    and "\<forall>g. 2 \<le> g \<and> g < fd \<longrightarrow> fd_ops (cur_fd s g) \<noteq> Ops_null"
  shows "\<exists>d. open_file name s = (of_nat fd, set_cur_fd fd d (s\<lparr>dentry := e\<rparr>)) \<and> flags d = 1
    \<and> fd_ops d \<in> {Ops_file, Ops_rtc}"
proof (cases rule: open_file_cases [OF assms(1), of name])
  case (1 e')
  then show ?thesis using assms(2,4-6) by auto
next
  case (2 e' fd' d)
  then have "fd' = fd" using assms(4-7) by (metis linorder_neqE_nat)
  with 2 assms(2) show ?thesis by auto
next
  case (3 e' fd')
  with assms(2,3) show ?thesis by simp
qed

section \<open>Properties\<close>

definition sys_state0 :: sys_state where
  "sys_state0 = (page_state.extend page_state0 (sys_state.fields 0 0 0 0 0x7E0000 0x7D0000 0x460000
       (load_dentry (\<lambda>_. 0) 0) (\<lambda>_. None)))
     \<lparr>file_ops := \<lparr>openptr = Fn_open_file, closeptr = Fn_close_file, readptr = Fn_read_file, writeptr = Fn_write_file\<rparr>,
      rtc_ops := \<lparr>openptr = Fn_rtc_open, closeptr = Fn_rtc_close, readptr = Fn_rtc_read, writeptr = Fn_rtc_write\<rparr>,
      stdin_ops := \<lparr>openptr = Fn_terminal_open, closeptr = Fn_terminal_close, readptr = Fn_terminal_read,
        writeptr = Fn_null\<rparr>,
      stdout_ops := \<lparr>openptr = Fn_terminal_open, closeptr = Fn_terminal_close, readptr = Fn_null,
        writeptr = Fn_terminal_write\<rparr>\<rparr>"

lemma sys_state0_simps [simp]:
  "pcbs sys_state0 = pcbs fs_state0" "current_pcb sys_state0 = Some 1" "ops_ready sys_state0"
  "mem sys_state0 = image0" "bootblock sys_state0 = 0x500000" "inodes_array sys_state0 = 0x501000"
  "dentry sys_state0 = dentry fs_state0" "curr_terminal sys_state0 = 0" "process_number sys_state0 = 1"
  by (simp_all add: sys_state0_def page_state.defs sys_state.defs page_state0_def fs_state.defs ops_ready_def)
     (simp_all add: fs_state0_def)

lemma sys_state0_fds:
  "cur_fd sys_state0 2 = null_fd\<lparr>fd_ops := Ops_file, flags := 1\<rparr>" "cur_fd sys_state0 3 = null_fd"
  by (simp_all add: cur_fd_def fs_state0_def)

lemma less_8_cases: "(fd :: nat) < 8 \<longleftrightarrow> fd \<in> {0, 1, 2, 3, 4, 5, 6, 7}"
  by auto

lemma sys_state0_ok: "files_ok sys_state0"
proof -
  have "table_ok (file_array p)" if "p \<in> set (pcbs fs_state0)" for p
    using that by (auto simp: fs_state0_def pcb0_def table_ok_def less_8_cases slot_ok_def null_fd_def)
  moreover have "length (pcbs fs_state0) = 7" "program_id (pcbs fs_state0 ! 1) = 1"
    by (simp_all add: fs_state0_def)
  ultimately show ?thesis by (auto simp: files_ok_def MAX_PROCESSES_def intro: exI [of _ 1])
qed



text \<open>
  A request that names no open descriptor, or the wrong direction of the standard ones,
  or no buffer, is answered with -1 and changes nothing; with all six descriptors in use open
  is answered with -1 and leaves every table as it is.
\<close>

theorem file_call_errors:
  assumes "files_ok s" and "fd_flags s fd = Some fl"
  shows "(fl = 0 \<or> buf = NULL32 \<or> fd < 0 \<or> 7 < fd \<or> fd = 1 \<longrightarrow> sys_read irqs fd buf n s = Returns minus_one s)
    \<and> (fl = 0 \<or> buf = NULL32 \<or> fd \<le> 0 \<or> 7 < fd \<longrightarrow> sys_write fd buf n s = Returns minus_one s)
    \<and> (fl = 0 \<or> fd < 2 \<or> 7 < fd \<longrightarrow> sys_close fd s = Returns minus_one s)
    \<and> ((\<forall>g. 2 \<le> g \<and> g < 8 \<longrightarrow> fd_ops (cur_fd s g) \<noteq> Ops_null) \<longrightarrow>
         (\<exists>e. sys_open name s = Returns minus_one (s\<lparr>dentry := e\<rparr>)))"
proof (intro conjI impI)
  assume "fl = 0 \<or> buf = NULL32 \<or> fd < 0 \<or> 7 < fd \<or> fd = 1"
  then show "sys_read irqs fd buf n s = Returns minus_one s"
    using assms(2) by (auto simp: sys_read_def FD_MAX_IDX_def)
next
  assume "fl = 0 \<or> buf = NULL32 \<or> fd \<le> 0 \<or> 7 < fd"
  then show "sys_write fd buf n s = Returns minus_one s"
    using assms(2) by (auto simp: sys_write_def FD_MAX_IDX_def)
next
  assume "fl = 0 \<or> fd < 2 \<or> 7 < fd"
  then show "sys_close fd s = Returns minus_one s" by (rule sys_close_error [OF assms(2)])
next
  assume full: "\<forall>g. 2 \<le> g \<and> g < 8 \<longrightarrow> fd_ops (cur_fd s g) \<noteq> Ops_null"
  show "\<exists>e. sys_open name s = Returns minus_one (s\<lparr>dentry := e\<rparr>)"
  proof (cases rule: open_file_cases [OF assms(1), of name])
    case (1 e)
    then show ?thesis by (intro exI [of _ e]) (simp add: sys_open_def)
  next
    case (2 e fd d)
    then show ?thesis using full by blast
  next
    case (3 e fd)
    then show ?thesis using full by blast
  qed
qed

theorem file_call_errors_witness:
  "sys_read 5 1 0x600000 10 sys_state0 = Returns minus_one sys_state0
   \<and> sys_write 0 0x600000 10 sys_state0 = Returns minus_one sys_state0
   \<and> sys_close 3 sys_state0 = Returns minus_one sys_state0"
proof -
  have "fd_flags sys_state0 1 = Some 1" "fd_flags sys_state0 0 = Some 1" "fd_flags sys_state0 3 = Some 0"
    by (simp_all add: fd_flags_def cur_fd_def) (simp_all add: fs_state0_def null_fd_def)
  note f = this
  show ?thesis
    using file_call_errors [OF sys_state0_ok f(1), of "0x600000" 5 10]
      file_call_errors [OF sys_state0_ok f(2), of "0x600000" 5 10]
      file_call_errors [OF sys_state0_ok f(3)] by simp
qed

text \<open>
  C31: opening a file and closing it again gives the descriptor back: every other descriptor,
  the memory and the processes are as before, the descriptor is free, and the next open of the
  same name returns the same number.
\<close>

theorem open_close_roundtrip:
  assumes "files_ok s" and "read_dentry_by_name s name (dentry s) = (0, e)"
    and "ftype e \<in> {FILE_TYPE_RTC, FILE_TYPE_DIR, FILE_TYPE_REG}"
    and "2 \<le> fd" and "fd < 8" and "fd_ops (cur_fd s fd) = Ops_null"
    and "\<forall>g. 2 \<le> g \<and> g < fd \<longrightarrow> fd_ops (cur_fd s g) \<noteq> Ops_null"
  shows "\<exists>s1 s2 s3. sys_open name s = Returns (of_nat fd) s1 \<and> flags (cur_fd s1 fd) = 1
    \<and> sys_close (int fd) s1 = Returns 0 s2
    \<and> fd_ops (cur_fd s2 fd) = Ops_null \<and> flags (cur_fd s2 fd) = 0 \<and> (\<forall>g. g \<noteq> fd \<longrightarrow> cur_fd s2 g = cur_fd s g)
    \<and> mem s2 = mem s \<and> procs s2 = procs s \<and> sys_open name s2 = Returns (of_nat fd) s3"
proof -
  obtain d where d: "open_file name s = (of_nat fd, set_cur_fd fd d (s\<lparr>dentry := e\<rparr>))" "flags d = 1"
      "fd_ops d \<in> {Ops_file, Ops_rtc}"
    using open_takes_lowest [OF assms] by blast
  let ?s1 = "set_cur_fd fd d (s\<lparr>dentry := e\<rparr>)"
  have "slot_ok fd d" using d assms(4) by (auto simp: slot_ok_def)
  then have ok1: "files_ok ?s1" using assms(1,5) by (intro files_ok_set_cur_fd) simp_all
  have f1: "flags (cur_fd ?s1 fd) = 1" using cur_fd_set_same [of "s\<lparr>dentry := e\<rparr>" fd d] assms(1,5) d(2) by simp
  obtain d2 where d2: "fd_ops d2 = Ops_null" "flags d2 = 0" "sys_close (int fd) ?s1 = Returns 0 (set_cur_fd fd d2 ?s1)"
    using sys_close_frees [OF ok1 assms(4,5)] f1 by auto
  let ?s2 = "set_cur_fd fd d2 (s\<lparr>dentry := e\<rparr>)"
  have ok2: "files_ok ?s2" using closing.returns_ok [OF ok1 assms(5) d2(3)] by simp
  have c2: "cur_fd ?s2 fd = d2" using cur_fd_set_same [of "s\<lparr>dentry := e\<rparr>" fd d2] assms(1,5) by simp
  have o2: "cur_fd ?s2 g = cur_fd s g" if "g \<noteq> fd" for g by (simp add: cur_fd_set_other [OF that])
  have "read_dentry_by_name ?s2 name (dentry ?s2) = (0, e)"
    by (rule find_dentry_cong [OF _ _ assms(2)]) simp_all
  moreover have "fd_ops (cur_fd ?s2 fd) = Ops_null" using c2 d2 by simp
  moreover have "\<forall>g. 2 \<le> g \<and> g < fd \<longrightarrow> fd_ops (cur_fd ?s2 g) \<noteq> Ops_null" using o2 assms(7) by simp
  ultimately obtain d3 where "open_file name ?s2 = (of_nat fd, set_cur_fd fd d3 (?s2\<lparr>dentry := e\<rparr>))"
    using open_takes_lowest [OF ok2 _ assms(3-5)] by blast
  then have "sys_open name ?s2 = Returns (of_nat fd) (set_cur_fd fd d3 (?s2\<lparr>dentry := e\<rparr>))"
    by (simp add: sys_open_def)
  moreover have "sys_open name s = Returns (of_nat fd) ?s1" using d(1) by (simp add: sys_open_def)
  ultimately show ?thesis using f1 d2 c2 o2
    by (intro exI [of _ ?s1] exI [of _ ?s2] exI [of _ "set_cur_fd fd d3 (?s2\<lparr>dentry := e\<rparr>)"]) simp
qed

theorem open_close_roundtrip_witness:
  "\<exists>s1 s2. sys_open 0x700000 sys_state0 = Returns 3 s1 \<and> sys_close 3 s1 = Returns 0 s2
     \<and> cur_fd s2 2 = cur_fd sys_state0 2"
proof -
  let ?e = "load_dentry image0 0x500080"
  have m: "name_matches fs_state0 0x700000 1" by (simp add: name_matches_def fs_state0_image) code_simp
  have "[0..<2] = [0, 1 :: nat]" by (simp add: upt_rec)
  with m have d0: "read_dentry_by_name fs_state0 0x700000 (dentry fs_state0) = (0, ?e)"
    by (simp add: read_dentry_by_name_eq fs_state0_image)
  have "bootblock fs_state0 = 0x500000" by (simp add: fs_state0_def)
  then have d: "read_dentry_by_name sys_state0 0x700000 (dentry sys_state0) = (0, ?e)"
    using d0 by (intro find_dentry_cong [OF _ _ d0]) (simp_all add: fs_state0_image)
  have e: "ftype ?e \<in> {FILE_TYPE_RTC, FILE_TYPE_DIR, FILE_TYPE_REG}"
    by (simp add: load_dentry_def load32_def image0_def FILE_TYPE_REG_def)
  have used: "\<forall>g. 2 \<le> g \<and> g < 3 \<longrightarrow> fd_ops (cur_fd sys_state0 g) \<noteq> Ops_null"
    by (auto simp: sys_state0_fds dest!: le_antisym [of 2, simplified] less_Suc_eq_le [THEN iffD1])
  show ?thesis
    using open_close_roundtrip [OF sys_state0_ok d e, of 3] used by (auto simp: sys_state0_fds null_fd_def)
qed

end
