(* ===== verification/Kud_Command.thy ===== *)
theory Kud_Command
  imports Kud_Files
begin

unbundle bit_operations_syntax

text \<open>
  Command lines and program files: \<^verbatim>\<open>check_command\<close>, \<^verbatim>\<open>check_executable\<close> and
  \<^verbatim>\<open>getargs\<close> of \<^verbatim>\<open>syscall.c\<close>. A command line is a name, spaces, and the rest; the
  three loops of \<^verbatim>\<open>check_command\<close> split it into two strings inside the process block, and
  \<^verbatim>\<open>getargs\<close> hands the second one back to the program.
\<close>

section \<open>Regions\<close>

text \<open>None of the \<open>n\<close> bytes from \<open>c\<close> lies in the \<open>k\<close> bytes from \<open>e\<close>.\<close>

definition clear_of :: "u32 \<Rightarrow> nat \<Rightarrow> u32 \<Rightarrow> nat \<Rightarrow> bool" where
  "clear_of c n e k \<longleftrightarrow> (\<forall>j < n. k \<le> unat (c + of_nat j - e))"

lemma clear_of_tail:
  assumes "clear_of c (Suc n) e (Suc k)"
  shows "clear_of (c + 1) n (e + 1) k"
  unfolding clear_of_def
proof (intro allI impI)
  fix j assume "j < n"
  with assms have "Suc k \<le> unat (c + of_nat (Suc j) - e)" unfolding clear_of_def by blast
  then have "k \<le> unat (c + of_nat (Suc j) - (e + 1))" by (rule past_first(2))
  then show "k \<le> unat (c + 1 + of_nat j - (e + 1))" by (simp add: algebra_simps)
qed

lemma clear_of_mono: "clear_of c n e k \<Longrightarrow> n' \<le> n \<Longrightarrow> k' \<le> k \<Longrightarrow> clear_of c n' e k'"
  unfolding clear_of_def by (meson le_trans less_le_trans)

lemma clear_of_shift:
  assumes "clear_of c n e k" and "l \<le> n"
  shows "clear_of (c + of_nat l) (n - l) e k"
  unfolding clear_of_def
proof (intro allI impI)
  fix j assume "j < n - l"
  then have "l + j < n" by simp
  then show "k \<le> unat (c + of_nat l + of_nat j - e)"
    using assms(1) unfolding clear_of_def by (metis add.assoc of_nat_add)
qed

lemma clear_of_store:
  assumes "clear_of c n e (length xs)" and "j < n" and "length xs < 4294967296"
  shows "store_bytes m e xs (c + of_nat j) = m (c + of_nat j)"
  using assms by (intro store_bytes_outside) (simp_all add: clear_of_def)

lemma cstring_store_clear:
  assumes "cstring m c ys" and "clear_of c (Suc (length ys)) e (length xs)" and "length xs < 4294967296"
  shows "cstring (store_bytes m e xs) c ys"
proof -
  have "cstring (store_bytes m e xs) c ys = cstring m c ys"
    by (rule cstring_cong) (use assms in \<open>simp add: clear_of_store [where n = "Suc (length ys)"]\<close>)
  with assms(1) show ?thesis by simp
qed

lemma cstring_store:
  assumes "0 \<notin> set xs" and "Suc (length xs) < 4294967296"
  shows "cstring (store_bytes m e (xs @ [0])) e xs"
proof -
  have at: "store_bytes m e (xs @ [0]) (e + of_nat i) = (xs @ [0]) ! i" if "i \<le> length xs" for i
    using that assms(2) by (simp add: store_bytes_filled filled_def unat_of_nat32)
  show ?thesis
    by (rule cstringI) (use at [of "length xs"] assms in \<open>auto simp: at nth_append\<close>)
qed

lemma clear_forward:
  assumes "clear_of s n d n"
  shows "forward_ok d s n"
proof (rule ccontr)
  assume "\<not> forward_ok d s n"
  then have j: "unat (d - s) < n" by (simp add: forward_ok_def)
  then have "n \<le> unat (s + of_nat (unat (d - s)) - d)" using assms unfolding clear_of_def by blast
  with j show False by simp
qed

section \<open>The loops\<close>

lemma copy_name_run:
  "load_bytes m (command + i) (length xs) = xs \<Longrightarrow> 0 \<notin> set xs \<Longrightarrow> 32 \<notin> set xs \<Longrightarrow>
   m (command + i + of_nat (length xs)) \<in> {0, 32} \<Longrightarrow>
   clear_of (command + i) (Suc (length xs)) (exec_name + i) (length xs) \<Longrightarrow>
   copy_name m command exec_name i = Some (store_bytes m (exec_name + i) xs, i + of_nat (length xs))"
proof (induction xs arbitrary: m i)
  case Nil
  then show ?case by (subst copy_name.simps) auto
next
  case (Cons x xs)
  let ?m = "m(exec_name + i := x)"
  have x: "m (command + i) = x" "x \<noteq> 0" "x \<noteq> 32" and xs: "load_bytes m (command + i + 1) (length xs) = xs"
    using Cons.prems(1-3) by (auto simp: load_bytes_Suc)
  have same: "?m (command + i + of_nat j) = m (command + i + of_nat j)" if "j \<le> Suc (length xs)" for j
  proof -
    have "Suc (length xs) \<le> unat (command + i + of_nat j - (exec_name + i))"
      using Cons.prems(5) that unfolding clear_of_def by (metis length_Cons less_Suc_eq_le)
    then have "command + i + of_nat j \<noteq> exec_name + i" by (rule past_first(1))
    then show ?thesis by simp
  qed
  have "copy_name ?m command exec_name (i + 1)
      = Some (store_bytes ?m (exec_name + (i + 1)) xs, i + 1 + of_nat (length xs))"
  proof (rule Cons.IH)
    have "load_bytes ?m (command + (i + 1)) (length xs) = load_bytes m (command + i + 1) (length xs)"
      by (rule load_bytes_cong) (use same [of "Suc _"] in \<open>simp add: algebra_simps\<close>)
    then show "load_bytes ?m (command + (i + 1)) (length xs) = xs" using xs by simp
    show "?m (command + (i + 1) + of_nat (length xs)) \<in> {0, 32}"
      using same [of "Suc (length xs)"] Cons.prems(4) by (simp add: algebra_simps)
    show "clear_of (command + (i + 1)) (Suc (length xs)) (exec_name + (i + 1)) (length xs)"
      using clear_of_tail [of "command + i" "Suc (length xs)" "exec_name + i" "length xs"] Cons.prems(5)
      by (simp add: add.assoc)
  qed (use Cons.prems in simp_all)
  with x show ?case by (subst copy_name.simps) (simp add: algebra_simps)
qed

lemma skip_spaces_run:
  "(\<And>j. j < k \<Longrightarrow> m (command + i + of_nat j) = 32) \<Longrightarrow> m (command + i + of_nat k) \<noteq> 32 \<Longrightarrow>
   skip_spaces m command i = Some (i + of_nat k)"
proof (induction k arbitrary: i)
  case 0
  then show ?case by (subst skip_spaces.simps) simp
next
  case (Suc k)
  have "skip_spaces m command (i + 1) = Some (i + 1 + of_nat k)"
    by (rule Suc.IH) (use Suc.prems(1) [of "Suc _"] Suc.prems(2) in \<open>simp_all add: algebra_simps\<close>)
  with Suc.prems(1) [of 0] show ?case by (subst skip_spaces.simps) (simp add: algebra_simps)
qed

lemma copy_args_run:
  "cstring m (command + i) xs \<Longrightarrow> clear_of (command + i) (Suc (length xs)) (exec_args + j) (length xs) \<Longrightarrow>
   copy_args m command exec_args i j = Some (store_bytes m (exec_args + j) xs, j + of_nat (length xs))"
proof (induction xs arbitrary: m i j)
  case Nil
  then show ?case by (subst copy_args.simps) (simp add: cstring_Nil)
next
  case (Cons x xs)
  let ?m = "m(exec_args + j := x)"
  have x: "m (command + i) = x" "x \<noteq> 0" "cstring m (command + (i + 1)) xs"
    using Cons.prems(1) by (simp_all add: cstring_Cons add.assoc)
  have same: "?m (command + (i + 1) + of_nat k) = m (command + (i + 1) + of_nat k)" if "k \<le> length xs" for k
  proof -
    have "Suc (length xs) \<le> unat (command + i + of_nat (Suc k) - (exec_args + j))"
      using Cons.prems(2) that unfolding clear_of_def by (metis length_Cons less_Suc_eq_le Suc_le_mono)
    then have "command + i + of_nat (Suc k) \<noteq> exec_args + j" by (rule past_first(1))
    then show ?thesis by (simp add: algebra_simps)
  qed
  have "copy_args ?m command exec_args (i + 1) (j + 1)
      = Some (store_bytes ?m (exec_args + (j + 1)) xs, j + 1 + of_nat (length xs))"
  proof (rule Cons.IH)
    have "cstring ?m (command + (i + 1)) xs = cstring m (command + (i + 1)) xs"
      by (rule cstring_cong) (rule same)
    then show "cstring ?m (command + (i + 1)) xs" using x(3) by simp
    show "clear_of (command + (i + 1)) (Suc (length xs)) (exec_args + (j + 1)) (length xs)"
      using clear_of_tail [of "command + i" "Suc (length xs)" "exec_args + j" "length xs"] Cons.prems(2)
      by (simp add: add.assoc)
  qed
  with x show ?case by (subst copy_args.simps) (simp add: algebra_simps)
qed

section \<open>Splitting a command line\<close>

lemma cstring_suffix: "cstring m s (xs @ ys) \<Longrightarrow> cstring m (s + of_nat (length xs)) ys"
proof (induction xs arbitrary: s)
  case (Cons x xs)
  then have "cstring m (s + 1 + of_nat (length xs)) ys" by (intro Cons.IH) (simp add: cstring_Cons)
  then show ?case by (simp add: add.assoc)
qed simp

lemma cstring_at:
  "cstring m s (xs @ ys) \<Longrightarrow> m (s + of_nat (length xs)) = (if ys = [] then 0 else hd ys)"
  using cstring_suffix [of m s xs ys] by (cases ys) (auto simp: cstring_Nil cstring_Cons)

lemma cstring_prefix: "cstring m s (xs @ ys) \<Longrightarrow> load_bytes m s (length xs) = xs \<and> 0 \<notin> set xs"
proof (intro conjI nth_equalityI)
  assume c: "cstring m s (xs @ ys)"
  then show "0 \<notin> set xs" by (simp add: cstring_def)
  fix i assume "i < length (load_bytes m s (length xs))"
  then show "load_bytes m s (length xs) ! i = xs ! i" using cstring_nth [OF c, of i] by (simp add: nth_append)
qed simp

lemma split_command_run:
  assumes cmd: "cstring m command (name @ replicate k 32 @ args)" and name: "32 \<notin> set name"
    and args: "args = [] \<or> 0 < k \<and> hd args \<noteq> 32"
    and c1: "clear_of command (Suc (length name + k + length args)) exec_name (Suc (length name))"
    and c2: "clear_of command (Suc (length name + k + length args)) exec_args (Suc (length args))"
    and small: "length name + k + length args < 4294967294"
  shows "split_command m command exec_name exec_args
    = Some (store_bytes (store_bytes m exec_name (name @ [0])) exec_args (args @ [0]))"
proof -
  let ?all = "name @ replicate k 32 @ args" and ?n = "length name"
  let ?m1 = "store_bytes m exec_name (name @ [0])"
  have len: "length ?all = ?n + k + length args" by simp
  have "m (command + of_nat ?n) \<in> {0, 32}" using cstring_at [OF cmd] args by (cases k) auto
  then have run1: "copy_name m command exec_name 0 = Some (store_bytes m exec_name name, of_nat ?n)"
    using copy_name_run [of m command 0 name exec_name] cstring_prefix [OF cmd] name
      clear_of_mono [OF c1, of "Suc ?n" ?n] by simp
  have m1: "(store_bytes m exec_name name)(exec_name + of_nat ?n := 0) = ?m1"
    by (simp add: store_bytes_append)
  have cmd1: "cstring ?m1 command ?all"
    using cstring_store_clear [OF cmd, of exec_name "name @ [0]"] c1 small unfolding len by simp
  have sp: "?m1 (command + of_nat ?n + of_nat j) = 32" if "j < k" for j
    using cstring_nth [OF cmd1, of "?n + j"] that by (simp add: nth_append add.assoc)
  have "cstring ?m1 command ((name @ replicate k 32) @ args)" using cmd1 by simp
  note suf = cstring_suffix [OF this] and nxt = cstring_at [OF this]
  have "?m1 (command + of_nat ?n + of_nat k) \<noteq> 32" using nxt args by (auto simp: add.assoc)
  then have run2: "skip_spaces ?m1 command (of_nat ?n) = Some (of_nat ?n + of_nat k)"
    using skip_spaces_run [of k ?m1 command "of_nat ?n"] sp by simp
  have e: "Suc (?n + k + length args) - (?n + k) = Suc (length args)" by simp
  have "clear_of (command + of_nat (?n + k)) (Suc (length args)) exec_args (Suc (length args))"
    using clear_of_shift [OF c2, of "?n + k"] unfolding e by simp
  then have "clear_of (command + of_nat (?n + k)) (Suc (length args)) exec_args (length args)"
    by (rule clear_of_mono) simp_all
  then have "clear_of (command + (of_nat ?n + of_nat k)) (Suc (length args)) (exec_args + 0) (length args)" by simp
  then have run3: "copy_args ?m1 command exec_args (of_nat ?n + of_nat k) 0
      = Some (store_bytes ?m1 exec_args args, of_nat (length args))"
    using copy_args_run [of ?m1 command "of_nat ?n + of_nat k" args exec_args 0] suf by (simp add: add.assoc)
  show ?thesis
    unfolding split_command_def run1 option.case prod.case Let_def m1 run2 run3
    by (simp only: store_bytes_append [of ?m1 exec_args args] store_bytes.simps)
qed

section \<open>Program files\<close>

text \<open>The entry point and the test an ELF file has to pass, read off the file's bytes.\<close>

definition elf_entry :: "'a fs_state_scheme \<Rightarrow> u32 \<Rightarrow> u32" where
  "elf_entry s k = load32 (\<lambda>a. file_byte s k (unat a)) 24"

definition elf_ok :: "'a fs_state_scheme \<Rightarrow> u32 \<Rightarrow> bool" where
  "elf_ok s k \<longleftrightarrow> map (file_byte s k) [0..<4] = [0x7F, 69, 76, 70]
     \<and> 0x8000000 \<le> elf_entry s k \<and> elf_entry s k \<le> 0x8400000"

lemma filled_at: "i < n \<Longrightarrow> i < 4294967296 \<Longrightarrow> filled m d n f (d + of_nat i) = f i"
  by (simp add: filled_def unat_of_nat32)

lemma header_read:
  assumes "52 \<le> unat (inode_length s k (mem s))" and "off_image s k 52 h 52"
  shows "snd (read_data s k 0 h ELF_HEADER_SIZE) = filled (mem s) h 52 (file_byte s k)"
proof -
  have u: "unat ELF_HEADER_SIZE = 52" by (simp add: ELF_HEADER_SIZE_def)
  show ?thesis using read_data_prefix [of ELF_HEADER_SIZE s k h] assms by (simp add: u)
qed

lemma check_executable_found:
  assumes d: "read_dentry_by_name s nm (dentry_junk s) = (0, e)" and k: "inode e \<noteq> 0"
    and len: "52 \<le> unat (inode_length s (inode e) (mem s))"
    and off: "off_image s (inode e) 52 (elf_header_at s) 52"
  shows "check_executable nm s =
    (let s' = s\<lparr>mem := filled (mem s) (elf_header_at s) 52 (file_byte s (inode e))\<rparr> in
     if elf_ok s (inode e) then (0, elf_entry s (inode e), s') else (- 1, 0, s'))"
proof -
  let ?h = "elf_header_at s" and ?f = "file_byte s (inode e)"
  let ?m = "filled (mem s) ?h 52 ?f"
  have at: "?m (?h + of_nat i) = ?f i" if "i < 52" for i using that by (simp add: filled_at)
  have bytes: "?m ?h = ?f 0" "?m (?h + 1) = ?f 1" "?m (?h + 2) = ?f 2" "?m (?h + 3) = ?f 3"
    using at [of 0] at [of 1] at [of 2] at [of 3] by simp_all
  have "load32 ?m (?h + 24) = elf_entry s (inode e)"
    using at [of 24] at [of 25] at [of 26] at [of 27] by (simp add: load32_def elf_entry_def add.assoc)
  moreover have "[0..<4] = [0, 1, 2, 3 :: nat]" by (simp add: upt_rec)
  ultimately show ?thesis
    using bytes k unfolding check_executable_def d prod.case header_read [OF len off] Let_def
    by (auto simp: elf_ok_def PAGE_VIRT_ADDR_def PAGE_SIZE_4MB_def linorder_not_le)
qed

section \<open>The arguments\<close>

lemma getargs_run:
  assumes "cstring (mem s) (cmd_args s (cur s)) args" and "buf \<noteq> 0" and "0 \<le> n" and "n < 2 ^ 31"
    and "clear_of (cmd_args s (cur s)) (nat n) buf (nat n)"
  obtains m where "getargs buf n s = Returns 0 (s\<lparr>mem := m\<rparr>)" "cstring m buf (take (nat n) args)"
    "\<And>a. nat n < unat (a - buf) \<Longrightarrow> m a = mem s a"
proof -
  let ?src = "cmd_args s (cur s)" and ?k = "nat n"
  let ?m = "copied (mem s) buf ?src ?k"
  let ?m' = "?m(buf + of_nat ?k := 0)"
  have k: "?k < 2147483648" using assms(3,4) by simp
  then have u: "unat (of_int n :: u32) = ?k" "(of_int n :: u32) = of_nat ?k"
    using assms(3) unat_of_nat32 [of ?k] by simp_all
  have mc: "memcpy (mem s) buf ?src (of_int n) = ?m"
    using memcpy_copied [of buf ?src "of_int n" "mem s"] clear_forward [OF assms(5)] u(1) by simp
  have at: "?m' (buf + of_nat i) = mem s (?src + of_nat i)" if "i < ?k" for i
    using that k of_nat32_inj [of i ?k] by (simp add: copied_def unat_of_nat32)
  have "cstring ?m' buf (take ?k args)"
  proof (rule cstringI)
    show "?m' (buf + of_nat i) = take ?k args ! i" if "i < length (take ?k args)" for i
      using that at [of i] cstring_nth [OF assms(1), of i] by simp
    show "?m' (buf + of_nat (length (take ?k args))) = 0"
      using at [of "length args"] cstring_end [OF assms(1)] by (cases "length args < ?k") simp_all
  qed (use k assms(1) set_take_subset [of ?k args] in \<open>auto simp: cstring_def\<close>)
  moreover have "?m' a = mem s a" if "?k < unat (a - buf)" for a
    using that k by (auto simp: copied_def unat_of_nat32)
  moreover have "getargs buf n s = Returns 0 (s\<lparr>mem := ?m'\<rparr>)" using assms(2) mc u(2) by (simp add: getargs_def)
  ultimately show thesis by (intro that)
qed

section \<open>Properties\<close>

text \<open>
  check\_command ends on every terminated command line of the form name, spaces, arguments,
  and leaves the name and the arguments as terminated strings in the two buffers, changing
  nothing else; no command and a command that starts with a space are refused.
\<close>

theorem check_command_splits:
  assumes "cstring (mem s) command (name @ replicate k 32 @ args)" and "command \<noteq> 0"
    and "32 \<notin> set name" and "name \<noteq> [] \<or> k = 0" and "args = [] \<or> 0 < k \<and> hd args \<noteq> 32"
    and "clear_of command (Suc (length name + k + length args)) exec_name (Suc (length name))"
    and "clear_of command (Suc (length name + k + length args)) exec_args (Suc (length args))"
    and "clear_of exec_name (Suc (length name)) exec_args (Suc (length args))"
    and "length name + k + length args < 4294967294"
  shows "\<exists>s'. check_command command exec_name exec_args s = Some (0, s') \<and> s' = s\<lparr>mem := mem s'\<rparr>
    \<and> cstring (mem s') exec_name name \<and> cstring (mem s') exec_args args
    \<and> (\<forall>a. length name < unat (a - exec_name) \<and> length args < unat (a - exec_args) \<longrightarrow> mem s' a = mem s a)"
proof -
  let ?m1 = "store_bytes (mem s) exec_name (name @ [0])"
  let ?m2 = "store_bytes ?m1 exec_args (args @ [0])"
  have zs: "0 \<notin> set name" "0 \<notin> set args" using assms(1) by (auto simp: cstring_def)
  have first: "mem s command \<noteq> 32"
    using cstring_at [of "mem s" command "[]"] assms(1,3-5) by (cases name) auto
  have run: "split_command (mem s) command exec_name exec_args = Some ?m2"
    by (rule split_command_run [OF assms(1,3,5,6,7,9)])
  have n1: "cstring ?m1 exec_name name" by (rule cstring_store [OF zs(1)]) (use assms(9) in simp)
  have n2: "cstring ?m2 exec_name name"
    using cstring_store_clear [OF n1, of exec_args "args @ [0]"] assms(8,9) by simp
  have a2: "cstring ?m2 exec_args args" by (rule cstring_store [OF zs(2)]) (use assms(9) in simp)
  have "?m2 a = mem s a" if "length name < unat (a - exec_name)" "length args < unat (a - exec_args)" for a
    using that assms(9) by (simp add: store_bytes_outside)
  with run first assms(2) n2 a2 show ?thesis
    by (intro exI [of _ "s\<lparr>mem := ?m2\<rparr>"]) (simp add: check_command_def)
qed

text \<open>
  A file found by name, with an inode other than 0 and at least a whole header, is accepted
  exactly when it begins with the ELF magic and its entry point lies in the program page; the
  entry point delivered is the one of the file.
\<close>

theorem check_executable_accepts:
  assumes "read_dentry_by_name s nm (dentry_junk s) = (0, e)" and "inode e \<noteq> 0"
    and "52 \<le> unat (inode_length s (inode e) (mem s))"
    and "off_image s (inode e) 52 (elf_header_at s) 52"
  shows "fst (check_executable nm s) = (if elf_ok s (inode e) then 0 else - 1)
    \<and> (elf_ok s (inode e) \<longrightarrow> fst (snd (check_executable nm s)) = elf_entry s (inode e))
    \<and> (\<forall>a. 52 \<le> unat (a - elf_header_at s) \<longrightarrow> mem (snd (snd (check_executable nm s))) a = mem s a)"
  using check_executable_found [OF assms] by (simp add: Let_def filled_outside)

text \<open>
  A program asking for its arguments gets as many characters of the argument string as it
  has room for, terminated; a null buffer is refused.
\<close>

theorem getargs_delivers:
  assumes "cstring (mem s) (cmd_args s (cur s)) args" and "buf \<noteq> 0" and "0 \<le> n" and "n < 2 ^ 31"
    and "clear_of (cmd_args s (cur s)) (nat n) buf (nat n)"
  shows "\<exists>s'. getargs buf n s = Returns 0 s' \<and> cstring (mem s') buf (take (nat n) args)
    \<and> (\<forall>a. nat n < unat (a - buf) \<longrightarrow> mem s' a = mem s a) \<and> getargs 0 n s = Returns minus_one s"
proof -
  obtain m where "getargs buf n s = Returns 0 (s\<lparr>mem := m\<rparr>)" "cstring m buf (take (nat n) args)"
    "\<And>a. nat n < unat (a - buf) \<Longrightarrow> m a = mem s a"
    using getargs_run [OF assms] by blast
  then show ?thesis by (intro exI [of _ "s\<lparr>mem := m\<rparr>"]) (simp add: getargs_def)
qed

text \<open>
  A second image for the witnesses: file \<open>f\<close> has inode 1 and holds a program header whose
  entry point is 0x8048000.
\<close>

definition image1 :: mem where
  "image1 = image0(0x500004 := 2, 0x5000A4 := 1, 0x502000 := 60, 0x502001 := 0, 0x502002 := 0,
     0x502003 := 0, 0x502004 := 0, 0x503000 := 0x7F, 0x503001 := 69, 0x503002 := 76, 0x503003 := 70,
     0x503019 := 0x80, 0x50301A := 4, 0x50301B := 8)"

definition sys_state1 :: sys_state where
  "sys_state1 = sys_state0\<lparr>mem := image1, data_array := 0x503000\<rparr>"

lemma sys_state0_places [simp]:
  "elf_header_at sys_state0 = 0x7E0000" "pcbs_at sys_state0 = 0x450000" "image_buf_at sys_state0 = 0x7D0000"
  "shell_at sys_state0 = 0x460000" "dentry_junk sys_state0 = load_dentry (\<lambda>_. 0) 0"
  by (simp_all add: sys_state0_def page_state.defs sys_state.defs page_state0_def fs_state.defs)
     (simp_all add: fs_state0_def)

lemma clear_of_2: "clear_of c 2 e k \<longleftrightarrow> k \<le> unat (c - e) \<and> k \<le> unat (c + 1 - e)"
  by (auto simp: clear_of_def less_2_cases_iff)

theorem check_command_splits_witness:
  "\<exists>s'. check_command 0x700000 0x450139 0x4501B9 sys_state0 = Some (0, s') \<and> cstring (mem s') 0x450139 [102]"
proof -
  have c: "cstring (mem sys_state0) 0x700000 ([102] @ replicate 0 32 @ [])"
    by (simp add: cstring_Cons cstring_Nil) (simp add: image0_def)
  have "clear_of 0x700000 2 0x450139 2" "clear_of 0x700000 2 0x4501B9 1" "clear_of 0x450139 2 0x4501B9 1"
    by (simp_all add: clear_of_2)
  then show ?thesis
    using check_command_splits [OF c, of "0x450139" "0x4501B9"] by (auto simp: numeral_2_eq_2 [symmetric])
qed

lemma sys_state1_file:
  "read_dentry_by_name sys_state1 0x700000 (dentry_junk sys_state1) = (0, load_dentry image1 0x500080)"
  "inode (load_dentry image1 0x500080) = 1" "unat (inode_length sys_state1 1 (mem sys_state1)) = 60"
  "j < 4096 \<Longrightarrow> file_addr sys_state1 1 j = 0x503000 + of_nat j" "inode_at sys_state1 1 = 0x502000"
proof -
  have fs: "dir_entry sys_state1 0 = 0x500040" "dir_entry sys_state1 1 = 0x500080" "num_dir_entries sys_state1 = 2"
    by (simp_all add: sys_state1_def dir_entry_def num_dir_entries_def load32_def)
       (simp_all add: image1_def image0_def)
  have m: "name_matches sys_state1 0x700000 1"
    by (simp add: name_matches_def fs) (simp add: sys_state1_def, code_simp)
  have "[0..<2] = [0, 1 :: nat]" by (simp add: upt_rec)
  with m fs show "read_dentry_by_name sys_state1 0x700000 (dentry_junk sys_state1) = (0, load_dentry image1 0x500080)"
    by (simp add: read_dentry_by_name_eq) (simp add: sys_state1_def)
  show "inode (load_dentry image1 0x500080) = 1"
    by (simp add: load_dentry_def load32_def image1_def image0_def)
  show at: "inode_at sys_state1 1 = 0x502000" by (simp add: inode_at_def sys_state1_def)
  show "unat (inode_length sys_state1 1 (mem sys_state1)) = 60"
    unfolding inode_length_def at by (simp add: load32_def sys_state1_def image1_def)
  have "inode_block sys_state1 1 0 (mem sys_state1) = 0"
    unfolding inode_block_def at by (simp add: load32_def sys_state1_def image1_def image0_def)
  then show "file_addr sys_state1 1 j = 0x503000 + of_nat j" if "j < 4096"
    using that by (simp add: file_addr_def data_block_def) (simp add: sys_state1_def)
qed

lemma sys_state1_off: "off_image sys_state1 1 52 0x7E0000 52"
  unfolding off_image_def sys_state1_file(5)
proof (intro conjI allI impI)
  fix i :: nat assume "i < 4096"
  then show "52 \<le> unat (0x502000 + of_nat i - 0x7E0000 :: u32)"
    using below_buffer [of "0x502000" i "0x7E0000"] by simp
next
  fix j :: nat assume "j < 52"
  then show "52 \<le> unat (file_addr sys_state1 1 j - 0x7E0000)"
    using below_buffer [of "0x503000" j "0x7E0000"] by (simp add: sys_state1_file(4))
qed

lemma sys_state1_elf: "elf_ok sys_state1 1" "elf_entry sys_state1 1 = 0x8048000"
proof -
  have b: "file_byte sys_state1 1 j = image1 (0x503000 + of_nat j)" if "j < 4096" for j
    using sys_state1_file(4) [OF that] by (simp add: file_byte_def) (simp add: sys_state1_def)
  show e: "elf_entry sys_state1 1 = 0x8048000"
    by (simp add: elf_entry_def load32_def b) (simp add: image1_def image0_def)
  have "[0..<4] = [0, 1, 2, 3 :: nat]" by (simp add: upt_rec)
  then show "elf_ok sys_state1 1" by (simp add: elf_ok_def e b) (simp add: image1_def)
qed

theorem check_executable_accepts_witness:
  "fst (check_executable 0x700000 sys_state1) = 0 \<and> fst (snd (check_executable 0x700000 sys_state1)) = 0x8048000"
proof -
  have h: "elf_header_at sys_state1 = 0x7E0000" by (simp add: sys_state1_def)
  show ?thesis
    using check_executable_accepts [OF sys_state1_file(1)] sys_state1_file(2,3) sys_state1_off sys_state1_elf
    by (simp add: h)
qed

theorem getargs_delivers_witness:
  "\<exists>s'. getargs 0x8000100 10 (sys_state0\<lparr>mem := image0(0x4502B9 := 97)\<rparr>) = Returns 0 s' \<and> cstring (mem s') 0x8000100 [97]"
proof -
  let ?s = "sys_state0\<lparr>mem := image0(0x4502B9 := 97)\<rparr>"
  have a: "cmd_args ?s (cur ?s) = 0x4502B9" by (simp add: cmd_args_def pcb_at_def SIZEOF_PCB_def)
  have c: "cstring (mem ?s) (cmd_args ?s (cur ?s)) [97]"
    unfolding a by (simp add: cstring_Cons cstring_Nil) (simp add: image0_def)
  have "clear_of 0x4502B9 10 0x8000100 10"
    unfolding clear_of_def
  proof (intro allI impI)
    fix j :: nat assume "j < 10"
    then show "10 \<le> unat (0x4502B9 + of_nat j - 0x8000100 :: u32)"
      using below_buffer [of "0x4502B9" j "0x8000100"] by simp
  qed
  then have cl: "clear_of (cmd_args ?s (cur ?s)) (nat 10) 0x8000100 (nat 10)" unfolding a by simp
  show ?thesis using getargs_delivers [OF c _ _ _ cl] by auto
qed

end
