(* ===== verification/Kud_Process.thy ===== *)
theory Kud_Process
  imports Kud_Command
begin

unbundle bit_operations_syntax

text \<open>
  Processes: \<^verbatim>\<open>execute\<close> and \<^verbatim>\<open>halt\<close> of \<^verbatim>\<open>syscall.c\<close> with the bookkeeping of
  \<^verbatim>\<open>pcb.c\<close> against their abstract specification. Each terminal runs a stack of processes:
  the newest one runs, the one below it waits for it. \<^verbatim>\<open>execute\<close> pushes a process,
  \<^verbatim>\<open>halt\<close> pops one; a failed \<^verbatim>\<open>execute\<close> changes nothing. The kernel represents the
  stacks by the program numbers and parent numbers of the blocks, a counter, and the top and
  the depth per terminal; \<open>runs\<close> is the relation between the two.
\<close>

section \<open>Stacks of processes\<close>

fun topmost :: "nat list \<Rightarrow> nat" where
  "topmost [] = 0"
| "topmost (p # ps) = p"

definition push :: "nat \<Rightarrow> nat \<Rightarrow> nat list list \<Rightarrow> nat list list" where
  "push t p st = st[t := p # st ! t]"

definition pop :: "nat \<Rightarrow> nat list list \<Rightarrow> nat list list" where
  "pop t st = st[t := tl (st ! t)]"

fun linked :: "(nat \<Rightarrow> u32) \<Rightarrow> nat list \<Rightarrow> bool" where
  "linked par [] = True"
| "linked par (p # ps) = (par p = of_nat (topmost ps) \<and> linked par ps)"

definition runs :: "'a pcb_state_scheme \<Rightarrow> nat list list \<Rightarrow> bool" where
  "runs s st \<longleftrightarrow> length st = 3 \<and> curr_terminal s < 3 \<and> length (terminal_info s) = 3 \<and> length (pcbs s) = 7
     \<and> distinct (concat st) \<and> set (concat st) \<subseteq> {1..<7}
     \<and> process_number s = of_nat (length (concat st))
     \<and> (\<forall>i < 7. program_id (pcbs s ! i) = (if i \<in> set (concat st) then of_nat i else 0))
     \<and> (\<forall>t < 3. terminal_info s ! t = \<lparr>top_process_id = of_nat (topmost (st ! t)), num_process = of_nat (length (st ! t))\<rparr>)
     \<and> (\<forall>t < 3. linked (\<lambda>i. parent_id (pcbs s ! i)) (st ! t)) \<and> parent_id (pcbs s ! 0) = 0
     \<and> (if st ! curr_terminal s = [] then current_pcb s = None \<or> current_pcb s = Some 0
        else current_pcb s = Some (hd (st ! curr_terminal s)))"

lemma linked_cong: "(\<And>i. i \<in> set ps \<Longrightarrow> par' i = par i) \<Longrightarrow> linked par' ps = linked par ps"
  by (induction ps) auto

lemma less_3_cases: "(t :: nat) < 3 \<longleftrightarrow> t = 0 \<or> t = 1 \<or> t = 2"
  by auto

lemma three_lists:
  assumes "length st = 3"
  obtains a b c where "st = [a, b, c]"
  using assms by (auto simp: numeral_3_eq_3 length_Suc_conv)

lemma push_concat:
  assumes "length st = 3" and "t < 3"
  shows "set (concat (push t p st)) = insert p (set (concat st))"
    and "distinct (concat (push t p st)) \<longleftrightarrow> p \<notin> set (concat st) \<and> distinct (concat st)"
    and "length (concat (push t p st)) = Suc (length (concat st))"
proof -
  obtain a b c where st: "st = [a, b, c]" using three_lists [OF assms(1)] .
  show "set (concat (push t p st)) = insert p (set (concat st))"
    "distinct (concat (push t p st)) \<longleftrightarrow> p \<notin> set (concat st) \<and> distinct (concat st)"
    "length (concat (push t p st)) = Suc (length (concat st))"
    using assms(2) by (auto simp: st push_def less_3_cases)
qed

lemma push_pop: "t < length st \<Longrightarrow> st ! t = p # ps \<Longrightarrow> push t p (pop t st) = st"
  by (simp add: push_def pop_def list_update_same_conv)

lemma length_push [simp]: "length (push t p st) = length st" "length (pop t st) = length st"
  by (simp_all add: push_def pop_def)

lemma runs_length: "runs s st \<Longrightarrow> length (concat st) \<le> 6"
proof -
  assume "runs s st"
  then have d: "distinct (concat st)" "set (concat st) \<subseteq> {1..<7}" by (simp_all add: runs_def)
  then have "length (concat st) = card (set (concat st))" by (simp only: distinct_card)
  also have "\<dots> \<le> card {1..<7 :: nat}" by (rule card_mono [OF _ d(2)]) simp
  finally show ?thesis by simp
qed

lemma runs_cong:
  assumes "procs s' = procs s"
  shows "runs s' st = runs s st"
proof -
  have eq: "map (\<lambda>p. (program_id p, parent_id p)) (pcbs s') = map (\<lambda>p. (program_id p, parent_id p)) (pcbs s)"
    and f: "current_pcb s' = current_pcb s" "process_number s' = process_number s"
      "terminal_info s' = terminal_info s" "curr_terminal s' = curr_terminal s"
    using assms by (simp_all add: procs_def)
  have len: "length (pcbs s') = length (pcbs s)" using map_eq_imp_length_eq [OF eq] .
  have id: "program_id (pcbs s' ! i) = program_id (pcbs s ! i)" "parent_id (pcbs s' ! i) = parent_id (pcbs s ! i)"
    if "i < length (pcbs s)" for i
    using arg_cong [OF eq, of "\<lambda>l. l ! i"] that len by simp_all
  have lk: "linked (\<lambda>i. parent_id (pcbs s' ! i)) ps = linked (\<lambda>i. parent_id (pcbs s ! i)) ps"
    if "set ps \<subseteq> {1..<7}" "length (pcbs s) = 7" for ps
    by (rule linked_cong) (use that id in auto)
  have "set (st ! t) \<subseteq> set (concat st)" if "t < length st" for t using that by (force simp: set_concat)
  then have lk3: "(\<forall>t < 3. linked (\<lambda>i. parent_id (pcbs s' ! i)) (st ! t)) = (\<forall>t < 3. linked (\<lambda>i. parent_id (pcbs s ! i)) (st ! t))"
    if "length st = 3" "set (concat st) \<subseteq> {1..<7}" "length (pcbs s) = 7"
    using that lk by (metis subset_trans)
  show ?thesis
  proof (cases "length st = 3 \<and> set (concat st) \<subseteq> {1..<7} \<and> length (pcbs s) = 7")
    case True
    then have "(\<forall>i < 7. program_id (pcbs s' ! i) = (if i \<in> set (concat st) then of_nat i else 0))
      = (\<forall>i < 7. program_id (pcbs s ! i) = (if i \<in> set (concat st) then of_nat i else 0))"
      using id by metis
    moreover have "parent_id (pcbs s' ! 0) = parent_id (pcbs s ! 0)" using True id(2) [of 0] by simp
    ultimately show ?thesis using True lk3 unfolding runs_def f len by simp
  next
    case False
    then show ?thesis unfolding runs_def len by auto
  qed
qed

section \<open>Finding a free block\<close>

lemma find_free_pcb_from_spec:
  assumes "j < length ps" and "program_id (ps ! j) = 0" and "\<And>k. k < j \<Longrightarrow> program_id (ps ! k) \<noteq> 0"
  shows "find_free_pcb_from ps i = of_nat (i + j)"
  using assms
proof (induction ps arbitrary: i j)
  case (Cons p ps)
  show ?case
  proof (cases j)
    case 0
    with Cons.prems show ?thesis by simp
  next
    case (Suc k)
    have "program_id p \<noteq> 0" using Cons.prems(3) [of 0] Suc by simp
    moreover have "find_free_pcb_from ps (Suc i) = of_nat (Suc i + k)"
    proof (rule Cons.IH)
      show "program_id (ps ! l) \<noteq> 0" if "l < k" for l using Cons.prems(3) [of "Suc l"] that Suc by simp
    qed (use Cons.prems(1,2) Suc in simp_all)
    ultimately show ?thesis using Suc by simp
  qed
qed simp

lemma find_free_pcb_least:
  assumes "length (pcbs s) = 7" and "1 \<le> i" and "i < 7" and "program_id (pcbs s ! i) = 0"
    and "\<And>k. 1 \<le> k \<Longrightarrow> k < i \<Longrightarrow> program_id (pcbs s ! k) \<noteq> 0"
  shows "find_free_pcb s = of_nat i"
proof -
  have tl: "tl (pcbs s) ! k = pcbs s ! Suc k" if "k < 6" for k using that assms(1) by (simp add: nth_tl)
  have "find_free_pcb_from (tl (pcbs s)) 1 = of_nat (1 + (i - 1))"
  proof (rule find_free_pcb_from_spec)
    show "program_id (tl (pcbs s) ! (i - 1)) = 0" using tl [of "i - 1"] assms(2-4) by simp
    show "program_id (tl (pcbs s) ! k) \<noteq> 0" if "k < i - 1" for k
      using tl [of k] assms(3,5) that by simp
  qed (use assms in simp)
  then show ?thesis using assms(2) by (simp add: find_free_pcb_def)
qed

text \<open>While fewer than six processes run there is a free block; the lowest one is taken.\<close>

lemma runs_free:
  assumes "runs s st" and "length (concat st) < 6"
  obtains i where "1 \<le> i" "i < 7" "i \<notin> set (concat st)" "find_free_pcb s = of_nat i"
proof -
  have r: "distinct (concat st)" "set (concat st) \<subseteq> {1..<7}" "length (pcbs s) = 7"
    "\<And>i. i < 7 \<Longrightarrow> program_id (pcbs s ! i) = (if i \<in> set (concat st) then of_nat i else 0)"
    using assms(1) unfolding runs_def by blast+
  have "card (set (concat st)) < card {1..<7 :: nat}" using assms(2) distinct_card [OF r(1)] by simp
  then have "\<not> {1..<7} \<subseteq> set (concat st)" by (metis card_mono finite_set linorder_not_le)
  then obtain j where j: "j \<in> {1..<7}" "j \<notin> set (concat st)" by blast
  let ?P = "\<lambda>i. 1 \<le> i \<and> i \<notin> set (concat st)"
  define i where "i = (LEAST i. ?P i)"
  have i: "?P i" unfolding i_def by (rule LeastI [of ?P j]) (use j in auto)
  have le: "i \<le> j" unfolding i_def by (rule Least_le) (use j in auto)
  have below: "k \<in> set (concat st)" if "1 \<le> k" "k < i" for k
    using not_less_Least [of k ?P] that unfolding i_def by blast
  have "find_free_pcb s = of_nat i"
  proof (rule find_free_pcb_least [OF r(3)])
    show "program_id (pcbs s ! i) = 0" using r(4) [of i] i le j by auto
    show "program_id (pcbs s ! k) \<noteq> 0" if "1 \<le> k" "k < i" for k
      using r(4) [of k] below [OF that] that le j of_nat32_inj [of k 0] by auto
  qed (use i le j in auto)
  with i le j show thesis by (intro that) auto
qed

section \<open>Starting and ending a process\<close>

lemma find_free_pcb_from_cong:
  "map program_id ps' = map program_id ps \<Longrightarrow> find_free_pcb_from ps' i = find_free_pcb_from ps i"
proof (induction ps arbitrary: ps' i)
  case (Cons p ps)
  then obtain q qs where q: "ps' = q # qs" "program_id q = program_id p" "map program_id qs = map program_id ps"
    by (auto simp: map_eq_Cons_conv)
  then show ?case using Cons.IH [OF q(3), of "i + 1"] by (simp only: find_free_pcb_from.simps)
qed simp

lemma find_free_pcb_cong:
  "map program_id (pcbs s') = map program_id (pcbs s) \<Longrightarrow> find_free_pcb s' = find_free_pcb s"
  unfolding find_free_pcb_def by (rule find_free_pcb_from_cong) (metis map_tl)

lemma map_program_id_set_fd:
  "map program_id (pcbs (upd_pcb i (set_fd fd d) s)) = map program_id (pcbs s)"
  by (rule nth_equalityI) (simp_all add: upd_pcb_def set_fd_def nth_update_view [where f = program_id])

lemma upd_pcb_other [simp]: "j \<noteq> i \<Longrightarrow> pcbs (upd_pcb i f s) ! j = pcbs s ! j"
  by (simp add: upd_pcb_def)

lemma upd_pcb_same: "i < length (pcbs s) \<Longrightarrow> pcbs (upd_pcb i f s) ! i = f (pcbs s ! i)"
  by (simp add: upd_pcb_def)

lemma upd_pcb_simps [simp]:
  "length (pcbs (upd_pcb i f s)) = length (pcbs s)" "current_pcb (upd_pcb i f s) = current_pcb s"
  "process_number (upd_pcb i f s) = process_number s" "terminal_info (upd_pcb i f s) = terminal_info s"
  "curr_terminal (upd_pcb i f s) = curr_terminal s" "mem (upd_pcb i f s) = mem s"
  "file_ops (upd_pcb i f s) = file_ops s" "rtc_ops (upd_pcb i f s) = rtc_ops s"
  "stdin_ops (upd_pcb i f s) = stdin_ops s" "stdout_ops (upd_pcb i f s) = stdout_ops s"
  by (simp_all add: upd_pcb_def)

definition std_fds :: "fs_descriptor list \<Rightarrow> fs_descriptor list" where
  "std_fds fa = fa[0 := \<lparr>fd_ops = Ops_stdin, inode_ptr = 0, file_position = 0, flags = 1\<rparr>,
     1 := \<lparr>fd_ops = Ops_stdout, inode_ptr = 0, file_position = 0, flags = 1\<rparr>]"

lemma pcb_init_effect:
  assumes "i < length (pcbs s)" and "find_free_pcb s = of_nat i"
  defines "s' \<equiv> snd (pcb_init i s)"
  shows "current_pcb s' = Some i" "process_number s' = process_number s" "curr_terminal s' = curr_terminal s"
    "terminal_info s' = (terminal_info s)[curr_terminal s := \<lparr>top_process_id = of_nat i,
       num_process = num_process (terminal_info s ! curr_terminal s) + 1\<rparr>]"
    "length (pcbs s') = length (pcbs s)" "\<And>j. j \<noteq> i \<Longrightarrow> pcbs s' ! j = pcbs s ! j"
    "program_id (pcbs s' ! i) = of_nat i" "parent_id (pcbs s' ! i) = 0"
    "file_array (pcbs s' ! i) = std_fds (file_array (pcbs s ! i))"
    "address (pcbs s' ! i) = get_kernel_stack_ptr (of_nat i)" "ops_ready s' = ops_ready s"
proof -
  have id: "find_free_pcb (upd_pcb i (set_fd k b) (upd_pcb i (set_fd l a) s)) = of_nat i" for k l a b
    unfolding assms(2) [symmetric] by (rule find_free_pcb_cong) (simp add: map_program_id_set_fd)
  note simps = s'_def pcb_init_def Let_def id
  show "current_pcb s' = Some i" "process_number s' = process_number s" "curr_terminal s' = curr_terminal s"
    "terminal_info s' = (terminal_info s)[curr_terminal s := \<lparr>top_process_id = of_nat i,
       num_process = num_process (terminal_info s ! curr_terminal s) + 1\<rparr>]"
    "length (pcbs s') = length (pcbs s)" "ops_ready s' = ops_ready s"
    by (simp_all add: simps ops_ready_def)
  show "pcbs s' ! j = pcbs s ! j" if "j \<noteq> i" for j
    using that by (simp add: simps upd_pcb_def)
  show "program_id (pcbs s' ! i) = of_nat i" "parent_id (pcbs s' ! i) = 0"
    "file_array (pcbs s' ! i) = std_fds (file_array (pcbs s ! i))"
    "address (pcbs s' ! i) = get_kernel_stack_ptr (of_nat i)"
    using assms(1) by (simp_all add: simps) (simp_all add: upd_pcb_def set_fd_def std_fds_def)
qed

lemma link_parent_effect:
  assumes "i < length (pcbs s)"
  shows "current_pcb (link_parent c i s) = current_pcb s" "process_number (link_parent c i s) = process_number s"
    "curr_terminal (link_parent c i s) = curr_terminal s" "terminal_info (link_parent c i s) = terminal_info s"
    "length (pcbs (link_parent c i s)) = length (pcbs s)"
    "\<And>j. j \<noteq> i \<Longrightarrow> pcbs (link_parent c i s) ! j = pcbs s ! j"
    "program_id (pcbs (link_parent c i s) ! i) = program_id (pcbs s ! i)"
    "file_array (pcbs (link_parent c i s) ! i) = file_array (pcbs s ! i)"
    "address (pcbs (link_parent c i s) ! i) = address (pcbs s ! i)"
    "parent_id (pcbs (link_parent c i s) ! i) = (case c of None \<Rightarrow> parent_id (pcbs s ! i)
       | Some p \<Rightarrow> if p = 0 then 0 else program_id (pcbs s ! p))"
    "ops_ready (link_parent c i s) = ops_ready s"
  using assms by (simp_all add: link_parent_def Let_def upd_pcb_same ops_ready_def split: option.split)

text \<open>The block of the new process, as execute has it after naming the parent.\<close>

definition spawned :: "nat \<Rightarrow> 'a pcb_state_scheme \<Rightarrow> 'a pcb_state_scheme" where
  "spawned i s = link_parent (current_pcb s) i (snd (pcb_init i (s\<lparr>process_number := process_number s + 1\<rparr>)))"

lemma spawned_effect:
  assumes "runs s st" and "1 \<le> i" and "i < 7" and "find_free_pcb s = of_nat i"
  shows "current_pcb (spawned i s) = Some i" "process_number (spawned i s) = process_number s + 1"
    "curr_terminal (spawned i s) = curr_terminal s"
    "terminal_info (spawned i s) = (terminal_info s)[curr_terminal s := \<lparr>top_process_id = of_nat i,
       num_process = num_process (terminal_info s ! curr_terminal s) + 1\<rparr>]"
    "length (pcbs (spawned i s)) = 7" "\<And>j. j \<noteq> i \<Longrightarrow> pcbs (spawned i s) ! j = pcbs s ! j"
    "program_id (pcbs (spawned i s) ! i) = of_nat i"
    "parent_id (pcbs (spawned i s) ! i) = (case current_pcb s of None \<Rightarrow> 0
       | Some p \<Rightarrow> if p = 0 then 0 else if p = i then of_nat i else program_id (pcbs s ! p))"
    "file_array (pcbs (spawned i s) ! i) = std_fds (file_array (pcbs s ! i))"
    "address (pcbs (spawned i s) ! i) = get_kernel_stack_ptr (of_nat i)" "ops_ready (spawned i s) = ops_ready s"
proof -
  let ?s = "s\<lparr>process_number := process_number s + 1\<rparr>"
  have len: "length (pcbs s) = 7" using assms(1) by (simp add: runs_def)
  have i: "i < length (pcbs ?s)" "find_free_pcb ?s = of_nat i"
    using len assms by (simp_all add: find_free_pcb_def)
  have r: "ops_ready ?s = ops_ready s" by (simp add: ops_ready_def)
  note e = pcb_init_effect [OF i]
  have i': "i < length (pcbs (snd (pcb_init i ?s)))" unfolding e(5) by (rule i(1))
  note l = link_parent_effect [OF i', where c = "current_pcb s", folded spawned_def]
  show "current_pcb (spawned i s) = Some i" "process_number (spawned i s) = process_number s + 1"
    "curr_terminal (spawned i s) = curr_terminal s"
    "terminal_info (spawned i s) = (terminal_info s)[curr_terminal s := \<lparr>top_process_id = of_nat i,
       num_process = num_process (terminal_info s ! curr_terminal s) + 1\<rparr>]"
    "length (pcbs (spawned i s)) = 7" "program_id (pcbs (spawned i s) ! i) = of_nat i"
    "file_array (pcbs (spawned i s) ! i) = std_fds (file_array (pcbs s ! i))"
    "address (pcbs (spawned i s) ! i) = get_kernel_stack_ptr (of_nat i)" "ops_ready (spawned i s) = ops_ready s"
    unfolding l e r by (simp_all add: len)
  show "pcbs (spawned i s) ! j = pcbs s ! j" if "j \<noteq> i" for j using l(6) e(6) that by simp
  show "parent_id (pcbs (spawned i s) ! i) = (case current_pcb s of None \<Rightarrow> 0
       | Some p \<Rightarrow> if p = 0 then 0 else if p = i then of_nat i else program_id (pcbs s ! p))"
    unfolding l(10) using e(6-8) by (simp split: option.split)
qed

lemma set_nth_concat: "t < length st \<Longrightarrow> set (st ! t) \<subseteq> set (concat st)"
  by (force simp: set_concat)

lemma runsD:
  assumes "runs s st"
  shows "length st = 3" "curr_terminal s < 3" "length (terminal_info s) = 3" "length (pcbs s) = 7"
    "distinct (concat st)" "set (concat st) \<subseteq> {1..<7}" "process_number s = of_nat (length (concat st))"
    "\<And>i. i < 7 \<Longrightarrow> program_id (pcbs s ! i) = (if i \<in> set (concat st) then of_nat i else 0)"
    "\<And>t. t < 3 \<Longrightarrow> terminal_info s ! t = \<lparr>top_process_id = of_nat (topmost (st ! t)), num_process = of_nat (length (st ! t))\<rparr>"
    "\<And>t. t < 3 \<Longrightarrow> linked (\<lambda>i. parent_id (pcbs s ! i)) (st ! t)"
    "\<And>t. t < 3 \<Longrightarrow> set (st ! t) \<subseteq> set (concat st)" "parent_id (pcbs s ! 0) = 0"
  using assms set_nth_concat [of _ st] unfolding runs_def by simp_all

lemma runs_current:
  assumes "runs s st"
  shows "st ! curr_terminal s = [] \<Longrightarrow> current_pcb s = None \<or> current_pcb s = Some 0"
    and "st ! curr_terminal s = p # ps \<Longrightarrow> current_pcb s = Some p"
    and "st ! curr_terminal s = p # ps \<Longrightarrow> 1 \<le> p \<and> p < 7 \<and> program_id (pcbs s ! p) = of_nat p"
proof -
  show "st ! curr_terminal s = [] \<Longrightarrow> current_pcb s = None \<or> current_pcb s = Some 0"
    "st ! curr_terminal s = p # ps \<Longrightarrow> current_pcb s = Some p"
    using assms by (auto simp: runs_def)
  assume "st ! curr_terminal s = p # ps"
  then have "p \<in> set (concat st)" using runsD(11) [OF assms runsD(2) [OF assms]] by auto
  moreover then have "p \<in> {1..<7}" using runsD(6) [OF assms] by blast
  ultimately show "1 \<le> p \<and> p < 7 \<and> program_id (pcbs s ! p) = of_nat p" using runsD(8) [OF assms, of p] by auto
qed

lemma runsI:
  assumes "length st = 3" "curr_terminal s < 3" "length (terminal_info s) = 3" "length (pcbs s) = 7"
    "distinct (concat st)" "set (concat st) \<subseteq> {1..<7}" "process_number s = of_nat (length (concat st))"
    "\<And>i. i < 7 \<Longrightarrow> program_id (pcbs s ! i) = (if i \<in> set (concat st) then of_nat i else 0)"
    "\<And>t. t < 3 \<Longrightarrow> terminal_info s ! t = \<lparr>top_process_id = of_nat (topmost (st ! t)), num_process = of_nat (length (st ! t))\<rparr>"
    "\<And>t. t < 3 \<Longrightarrow> linked (\<lambda>i. parent_id (pcbs s ! i)) (st ! t)" "parent_id (pcbs s ! 0) = 0"
    "current_pcb s = Some (topmost (st ! curr_terminal s))"
  shows "runs s st"
  unfolding runs_def using assms by (cases "st ! curr_terminal s") simp_all

lemma spawned_parent:
  assumes "runs s st" and "1 \<le> i" and "i < 7" and "i \<notin> set (concat st)" and "find_free_pcb s = of_nat i"
  shows "parent_id (pcbs (spawned i s) ! i) = of_nat (topmost (st ! curr_terminal s))"
proof (cases "st ! curr_terminal s")
  case Nil
  then show ?thesis
    using spawned_effect(8) [OF assms(1-3,5)] runs_current(1) [OF assms(1)] by auto
next
  case (Cons p ps)
  have "p \<noteq> i" using assms(4) Cons runsD(11) [OF assms(1) runsD(2) [OF assms(1)]] by auto
  then show ?thesis
    using spawned_effect(8) [OF assms(1-3,5)] runs_current(2,3) [OF assms(1) Cons] Cons by auto
qed

lemma spawned_runs:
  assumes "runs s st" and "1 \<le> i" and "i < 7" and "i \<notin> set (concat st)" and "find_free_pcb s = of_nat i"
  shows "runs (spawned i s) (push (curr_terminal s) i st)"
proof -
  let ?t = "curr_terminal s" and ?st = "push (curr_terminal s) i st"
  note r = runsD [OF assms(1)] and e = spawned_effect [OF assms(1-3,5)]
  note pc = push_concat [OF r(1,2), of i]
  have at: "?st ! t = (if t = ?t then i # st ! ?t else st ! t)" if "t < 3" for t
    using that r(1,2) by (simp add: push_def nth_list_update)
  have ids: "program_id (pcbs (spawned i s) ! j) = (if j \<in> set (concat ?st) then of_nat j else 0)" if "j < 7" for j
    using r(8) [OF that] e(6) [of j] e(7) unfolding pc(1) by (cases "j = i") auto
  have info: "terminal_info (spawned i s) ! t = \<lparr>top_process_id = of_nat (topmost (?st ! t)), num_process = of_nat (length (?st ! t))\<rparr>"
    if "t < 3" for t
    using at [OF that] that r(3) r(9) [OF that] unfolding e(4) by (auto simp: nth_list_update)
  have old: "linked (\<lambda>j. parent_id (pcbs (spawned i s) ! j)) (st ! t)" if "t < 3" for t
  proof -
    have "linked (\<lambda>j. parent_id (pcbs (spawned i s) ! j)) (st ! t) = linked (\<lambda>j. parent_id (pcbs s ! j)) (st ! t)"
      by (rule linked_cong) (use e(6) r(11) [OF that] assms(4) in \<open>metis subsetD\<close>)
    then show ?thesis using r(10) [OF that] by simp
  qed
  have "linked (\<lambda>j. parent_id (pcbs (spawned i s) ! j)) (?st ! t)" if "t < 3" for t
    using at [OF that] old [OF that] spawned_parent [OF assms] by auto
  note lk = this
  show ?thesis
  proof (rule runsI)
    show "length ?st = 3" using r(1) by simp
    show "curr_terminal (spawned i s) < 3" "length (terminal_info (spawned i s)) = 3"
      "length (pcbs (spawned i s)) = 7" using r(2,3) e(3-5) by simp_all
    show "distinct (concat ?st)" "set (concat ?st) \<subseteq> {1..<7}" using pc(1,2) r(5,6) assms(2-4) by auto
    show "process_number (spawned i s) = of_nat (length (concat ?st))" using e(2) r(7) pc(3) by simp
    show "current_pcb (spawned i s) = Some (topmost (?st ! curr_terminal (spawned i s)))"
      using e(1,3) at [OF r(2)] by simp
    show "parent_id (pcbs (spawned i s) ! 0) = 0" using e(6) [of 0] r(12) assms(2) by simp
  qed (use ids info lk in blast)+
qed

lemma pcb_destroy_effect:
  assumes "p < length (pcbs s)"
  defines "s' \<equiv> snd (pcb_destroy p s)"
  shows "current_pcb s' = Some (unat (parent_id (pcbs s ! p)))" "process_number s' = process_number s - 1"
    "curr_terminal s' = curr_terminal s"
    "terminal_info s' = (terminal_info s)[curr_terminal s := \<lparr>top_process_id = parent_id (pcbs s ! p),
       num_process = num_process (terminal_info s ! curr_terminal s) - 1\<rparr>]"
    "length (pcbs s') = length (pcbs s)" "\<And>j. j \<noteq> p \<Longrightarrow> pcbs s' ! j = pcbs s ! j"
    "program_id (pcbs s' ! p) = 0" "file_array (pcbs s' ! p) = file_array (pcbs s ! p)"
    "ops_ready s' = ops_ready s" "mem s' = mem s"
  using assms(1) by (simp_all add: s'_def pcb_destroy_def Let_def upd_pcb_same ops_ready_def)

lemma top_bound: "set ps \<subseteq> {1..<7} \<Longrightarrow> topmost ps < 7"
  by (cases ps) auto

lemma destroyed_runs:
  assumes "runs s st" and "st ! curr_terminal s = p # ps"
  shows "runs (snd (pcb_destroy p s)) (pop (curr_terminal s) st)"
    and "current_pcb (snd (pcb_destroy p s)) = Some (topmost ps)"
proof -
  let ?t = "curr_terminal s" and ?s = "snd (pcb_destroy p s)" and ?st = "pop (curr_terminal s) st"
  note r = runsD [OF assms(1)]
  have len: "length ?st = 3" using r(1) by simp
  have pp: "push ?t p ?st = st" by (rule push_pop) (use assms(2) r(1,2) in simp_all)
  note pc = push_concat [OF len r(2), of p, unfolded pp]
  have at: "?st ! t = (if t = ?t then ps else st ! t)" if "t < 3" for t
    using that r(1,2) assms(2) by (simp add: pop_def nth_list_update)
  have p: "p < 7" "p \<notin> set (concat ?st)" "distinct (concat ?st)" "set (concat ?st) \<subseteq> {1..<7}"
    using runs_current(3) [OF assms] r(5,6) pc by auto
  note e = pcb_destroy_effect [of p s, unfolded r(4), OF p(1)]
  have lk: "parent_id (pcbs s ! p) = of_nat (topmost ps)" using r(10) [OF r(2)] assms(2) by simp
  have "set ps \<subseteq> {1..<7}" using r(6) r(11) [OF r(2)] assms(2) by auto
  then have tp: "topmost ps < 7" by (rule top_bound)
  then show cp: "current_pcb ?s = Some (topmost ps)" using e(1) lk by (simp add: unat_of_nat32)
  have ids: "program_id (pcbs ?s ! j) = (if j \<in> set (concat ?st) then of_nat j else 0)" if "j < 7" for j
    using r(8) [OF that] e(6) [of j] e(7) p(2) unfolding pc(1) by (cases "j = p") auto
  have info: "terminal_info ?s ! t = \<lparr>top_process_id = of_nat (topmost (?st ! t)), num_process = of_nat (length (?st ! t))\<rparr>"
    if "t < 3" for t
    using at [OF that] that r(3) r(9) [OF that] assms(2) lk unfolding e(4) by (auto simp: nth_list_update)
  have "linked (\<lambda>j. parent_id (pcbs ?s ! j)) (?st ! t)" if "t < 3" for t
  proof -
    have in_st: "set (?st ! t) \<subseteq> set (concat ?st)" using that len set_nth_concat by metis
    have "linked (\<lambda>j. parent_id (pcbs s ! j)) (?st ! t)" using at [OF that] r(10) [OF that] assms(2) by auto
    moreover have "linked (\<lambda>j. parent_id (pcbs ?s ! j)) (?st ! t) = linked (\<lambda>j. parent_id (pcbs s ! j)) (?st ! t)"
      by (rule linked_cong) (use e(6) in_st p(2) in \<open>metis subsetD\<close>)
    ultimately show ?thesis by simp
  qed
  note lk' = this
  show "runs ?s ?st"
  proof (rule runsI)
    show "curr_terminal ?s < 3" "length (terminal_info ?s) = 3" "length (pcbs ?s) = 7"
      using r(2,3,4) e(3-5) by simp_all
    show "process_number ?s = of_nat (length (concat ?st))" using e(2) r(7) pc(3) by simp
    show "current_pcb ?s = Some (topmost (?st ! curr_terminal ?s))" using cp e(3) at [OF r(2)] by simp
    show "parent_id (pcbs ?s ! 0) = 0" using e(6) [of 0] r(12) runs_current(3) [OF assms] by simp
  qed (use len ids info lk' p(3,4) in blast)+
qed

section \<open>execute\<close>

definition fds_ok :: "'a pcb_state_scheme \<Rightarrow> bool" where
  "fds_ok s \<longleftrightarrow> ops_ready s \<and> length (pcbs s) = 7 \<and> (\<forall>i < 7. table_ok (file_array (pcbs s ! i)))"

lemma fds_ok_kern: "kern s' = kern s \<Longrightarrow> fds_ok s' = fds_ok s"
  by (simp add: fds_ok_def kern_def ops_ready_def)

lemma runs_kern: "kern s' = kern s \<Longrightarrow> runs s' st = runs s st"
  by (intro runs_cong kern_procs)

lemma kern_eqD:
  assumes "kern s' = kern s"
  shows "pcbs s' = pcbs s" "current_pcb s' = current_pcb s" "process_number s' = process_number s"
    "terminal_info s' = terminal_info s" "curr_terminal s' = curr_terminal s"
  using assms by (simp_all add: kern_def)

lemma table_ok_std: "table_ok fa \<Longrightarrow> table_ok (std_fds fa)"
  by (auto simp: table_ok_def std_fds_def nth_list_update slot_ok_def)

lemma spawned_fds:
  assumes "runs s st" and "1 \<le> i" and "i < 7" and "find_free_pcb s = of_nat i" and "fds_ok s"
  shows "fds_ok (spawned i s)"
proof -
  note e = spawned_effect [OF assms(1-4)]
  have "table_ok (file_array (pcbs (spawned i s) ! j))" if "j < 7" for j
    using e(6) [of j] e(9) assms(5) that table_ok_std by (cases "j = i") (simp_all add: fds_ok_def)
  then show ?thesis using e(5,11) assms(5) by (simp add: fds_ok_def)
qed

lemma destroyed_fds:
  assumes "fds_ok s" and "p < 7"
  shows "fds_ok (snd (pcb_destroy p s))"
proof -
  have len: "length (pcbs s) = 7" using assms(1) by (simp add: fds_ok_def)
  note e = pcb_destroy_effect [of p s, unfolded len, OF assms(2)]
  have "table_ok (file_array (pcbs (snd (pcb_destroy p s)) ! j))" if "j < 7" for j
    using e(6) [of j] e(8) assms(1) that by (cases "j = p") (simp_all add: fds_ok_def)
  then show ?thesis using e(5,9) assms(1) len by (simp add: fds_ok_def)
qed

lemma kern_page [simp]: "kern (loadPageDirectory k s) = kern s" "kern (upd_pd k f s) = kern s"
  by (simp_all add: kern_def loadPageDirectory_def upd_pd_def Let_def)

lemma kern_new_task_pd: "new_task_pd k s = Some (r, s') \<Longrightarrow> kern s' = kern s"
  by (auto simp: new_task_pd_def Let_def split: if_splits)

lemma kern_copy_file_image [simp]: "kern (snd (copy_file_image v d name s)) = kern s"
  by (simp add: copy_file_image_def Let_def)

lemma kern_check_command: "check_command c nm ar s = Some (r, s') \<Longrightarrow> kern s' = kern s"
  by (auto simp: check_command_def split: if_splits option.splits)

lemma kern_check_executable: "check_executable nm s = (r, e, s') \<Longrightarrow> kern s' = kern s"
  by (auto simp: check_executable_def Let_def split: if_splits prod.splits)

lemma procs_stack_regs [simp]:
  "procs (upd_pcb i (\<lambda>p. p\<lparr>esp := a, ebp := b\<rparr>) s) = procs s"
  "fds_ok (upd_pcb i (\<lambda>p. p\<lparr>esp := a, ebp := b\<rparr>) s) = fds_ok s"
proof -
  have "map (\<lambda>p. (program_id p, parent_id p)) ((pcbs s)[i := (pcbs s ! i)\<lparr>esp := a, ebp := b\<rparr>])
      = map (\<lambda>p. (program_id p, parent_id p)) (pcbs s)"
    by (rule nth_equalityI)
      (simp_all add: nth_update_view [where f = program_id and g = "\<lambda>p. p\<lparr>esp := a, ebp := b\<rparr>"]
        nth_update_view [where f = parent_id and g = "\<lambda>p. p\<lparr>esp := a, ebp := b\<rparr>"])
  then show "procs (upd_pcb i (\<lambda>p. p\<lparr>esp := a, ebp := b\<rparr>) s) = procs s"
    by (simp add: procs_def upd_pcb_def)
  show "fds_ok (upd_pcb i (\<lambda>p. p\<lparr>esp := a, ebp := b\<rparr>) s) = fds_ok s"
    by (simp add: fds_ok_def ops_ready_def upd_pcb_def
        nth_update_view [where f = file_array and g = "\<lambda>p. p\<lparr>esp := a, ebp := b\<rparr>"])
qed

lemma start_program_enters:
  assumes "program_id (pcbs s ! i) = of_nat i" and "1 \<le> i" and "i < 7"
  obtains s' where "start_program i entry s = Enters entry s'" "procs s' = procs s" "fds_ok s' = fds_ok s"
    "tss_ss0 s' = KERNEL_DS" "tss_esp0 s' = address (pcbs s ! i)" "cr3 s' = i - 1"
proof -
  have u: "unat (of_nat i - 1 :: u32) = i - 1"
    using assms(2,3) by (simp add: unat_sub32 unat_of_nat32)
  have "i - 1 < 6" using assms(2,3) by simp
  then have "\<exists>s1. new_task_pd (of_nat i - 1) s = Some (0, s1) \<and> cr3 s1 = i - 1"
    using u by (simp add: new_task_pd_def Let_def MAX_TASKS_def loadPageDirectory_def)
  then obtain s1 where s1: "new_task_pd (of_nat i - 1) s = Some (0, s1)" "cr3 s1 = i - 1" by blast
  have k1: "kern s1 = kern s" by (rule kern_new_task_pd [OF s1(1)])
  define s2 where "s2 = snd (copy_file_image (image_buf_at s1) (dentry_junk s1) (cmd_name s1 i) s1)"
  have k2: "kern s2 = kern s" using k1 by (simp add: s2_def)
  have c2: "cr3 s2 = i - 1" using s1(2) by (simp add: s2_def copy_file_image_def Let_def)
  define s3 where "s3 = upd_pcb i (\<lambda>p. p\<lparr>esp := reg_esp s2, ebp := reg_ebp s2\<rparr>) s2"
  define s4 where "s4 = s3\<lparr>tss_ss0 := KERNEL_DS, tss_esp0 := address (pcbs s3 ! i)\<rparr>"
  have "procs s4 = procs s3" "fds_ok s4 = fds_ok s3"
    by (simp_all add: s4_def procs_def fds_ok_def ops_ready_def)
  then have p: "procs s4 = procs s" "fds_ok s4 = fds_ok s"
    using kern_procs [OF k2] fds_ok_kern [OF k2] by (simp_all add: s3_def)
  have "address (pcbs s3 ! i) = address (pcbs s ! i)"
    using kern_eqD(1) [OF k2] by (simp add: s3_def upd_pcb_def
        nth_update_view [where f = address and g = "\<lambda>p. p\<lparr>esp := reg_esp s2, ebp := reg_ebp s2\<rparr>"])
  then have t: "tss_ss0 s4 = KERNEL_DS" "tss_esp0 s4 = address (pcbs s ! i)" "cr3 s4 = i - 1"
    using c2 by (simp_all add: s4_def s3_def upd_pcb_def)
  have "start_program i entry s = Enters entry s4"
    by (simp add: start_program_def assms(1) s1(1) Let_def s2_def s3_def s4_def)
  then show thesis by (rule that [OF _ p t])
qed

lemma pop_push: "t < length st \<Longrightarrow> pop t (push t p st) = st"
  by (simp add: push_def pop_def)

lemma process_limit:
  assumes "runs s st"
  shows "(process_number s + 1 \<ge> of_nat MAX_PROCESSES) = (6 \<le> length (concat st))"
proof -
  have n: "length (concat st) \<le> 6" by (rule runs_length [OF assms])
  have "process_number s + 1 = of_nat (length (concat st) + 1)" using runsD(7) [OF assms] by simp
  then have "unat (process_number s + 1) = length (concat st) + 1"
    using n by (simp only: unat_of_nat32)
  then show ?thesis by (simp add: word_le_nat_alt MAX_PROCESSES_def unat_of_nat32)
qed

text \<open>Destroying the block of a process that could not be started undoes the start.\<close>

lemma undo_spawn:
  assumes "runs s1 (push t i st)" and "fds_ok s1" and "curr_terminal s1 = t" and "kern s2 = kern s1"
    and "length st = 3" and "t < 3" and "i < 7"
  shows "runs (snd (pcb_destroy i s2)) st" "fds_ok (snd (pcb_destroy i s2))"
    "curr_terminal (snd (pcb_destroy i s2)) = t" "current_pcb (snd (pcb_destroy i s2)) \<noteq> None"
proof -
  have s2: "runs s2 (push t i st)" "fds_ok s2" "curr_terminal s2 = t"
    using assms(1-3) runs_kern [OF assms(4)] fds_ok_kern [OF assms(4)] kern_eqD(5) [OF assms(4)] by simp_all
  have hd: "push t i st ! curr_terminal s2 = i # st ! t"
    using s2(3) assms(5,6) by (simp add: push_def)
  have "i < length (pcbs s2)" using assms(7) runsD(4) [OF s2(1)] by simp
  from pcb_destroy_effect(1,3) [OF this] destroyed_runs(1) [OF s2(1) hd] destroyed_fds [OF s2(2) assms(7)]
  show "runs (snd (pcb_destroy i s2)) st" "fds_ok (snd (pcb_destroy i s2))"
    "curr_terminal (snd (pcb_destroy i s2)) = t" "current_pcb (snd (pcb_destroy i s2)) \<noteq> None"
    using s2(3) assms(5,6) by (simp_all add: pop_push)
qed

lemma pcbs_at_upd [simp]: "pcbs_at (upd_pcb i f s) = pcbs_at s"
  by (simp add: upd_pcb_def)

lemma pcbs_at_spawned: "pcbs_at (spawned i s) = pcbs_at s"
  by (simp add: spawned_def link_parent_def pcb_init_def Let_def split: option.split)

lemma cmd_spawned: "cmd_name (spawned i s) j = cmd_name s j" "cmd_args (spawned i s) j = cmd_args s j"
  by (simp_all add: cmd_name_def cmd_args_def pcb_at_def pcbs_at_spawned)

lemma cmd_ports: "cmd_name (cli (send_eoi k s)) j = cmd_name s j" "cmd_args (cli (send_eoi k s)) j = cmd_args s j"
  by (simp_all add: cmd_name_def cmd_args_def pcb_at_def cli_def send_eoi_def outb_def)

lemma execute_unfold:
  assumes "runs s st" and "length (concat st) < 6" and "find_free_pcb s = of_nat i" and "i < 7"
    and "s = cli (send_eoi 1 s0)"
  shows "execute command s0 = (case check_command command (cmd_name s0 i) (cmd_args s0 i) (spawned i s) of
      None \<Rightarrow> Faults
    | Some (ok, s2) \<Rightarrow> if ok \<noteq> 0 then Returns minus_one (snd (pcb_destroy i s2))
        else (case check_executable (cmd_name s2 i) s2 of (ok, entry, s3) \<Rightarrow>
           if ok < 0 then Returns minus_one (snd (pcb_destroy i s3)) else start_program i entry s3))"
proof -
  have u: "unat (of_nat i :: u32) = i" "\<not> (of_nat MAX_PROCESSES :: u32) \<le> of_nat i"
    using assms(4) by (simp_all add: word_le_nat_alt unat_of_nat32 MAX_PROCESSES_def)
  have lim: "\<not> of_nat MAX_PROCESSES \<le> process_number s + 1" using process_limit [OF assms(1)] assms(2) by simp
  have new: "get_new_pcb (s\<lparr>process_number := process_number s + 1\<rparr>) = of_nat i"
    using assms(3) by (simp add: get_new_pcb_def find_free_pcb_def)
  have cur: "get_cur_pcb (s\<lparr>process_number := process_number s + 1\<rparr>) = current_pcb s"
    by (simp add: get_cur_pcb_def)
  have nm: "cmd_name (spawned i s) i = cmd_name s0 i" "cmd_args (spawned i s) i = cmd_args s0 i"
    unfolding cmd_spawned assms(5) cmd_ports by simp_all
  show ?thesis
    unfolding execute_def assms(5) [symmetric] Let_def new cur u(1) spawned_def [symmetric] nm
    using lim u(2) by simp
qed

text \<open>
  The three ways execute can end: refused, in a state with the same processes; entered, with a
  new process on top of the current terminal's stack; or it never leaves the loop that splits
  the command, because the command has no end.
\<close>

lemma execute_cases:
  assumes "runs s st" and "fds_ok s"
  obtains (refused) r s' where "execute command s = Returns r s'" "runs s' st" "fds_ok s'"
      "curr_terminal s' = curr_terminal s" "current_pcb s \<noteq> None \<Longrightarrow> current_pcb s' \<noteq> None"
  | (entered) i entry s' where "execute command s = Enters entry s'" "1 \<le> i" "i < 7" "i \<notin> set (concat st)"
      "runs s' (push (curr_terminal s) i st)" "fds_ok s'" "curr_terminal s' = curr_terminal s"
      "tss_esp0 s' = get_kernel_stack_ptr (of_nat i)" "cr3 s' = i - 1"
  | (endless) i where "execute command s = Faults" "1 \<le> i" "i < 7" "length (concat st) < 6"
      "check_command command (cmd_name s i) (cmd_args s i) (spawned i (cli (send_eoi 1 s))) = None"
proof -
  let ?s = "cli (send_eoi 1 s)" and ?t = "curr_terminal s"
  have k: "kern ?s = kern s" by simp
  have r: "runs ?s st" and f: "fds_ok ?s" and ct: "curr_terminal ?s = ?t"
    using assms runs_kern [OF k] fds_ok_kern [OF k] kern_eqD(5) [OF k] by simp_all
  note st = runsD(1,2) [OF assms(1)]
  show thesis
  proof (cases "6 \<le> length (concat st)")
    case True
    let ?u = "kprint (''you can'' @ [CHR 0x27] @ ''t run any more processes!'' @ [CHR 0x0A]) ?s"
    have ku: "kern ?u = kern ?s" by simp
    have "execute command s = Returns 0 ?u" using process_limit [OF r] True by (simp add: execute_def Let_def)
    then show thesis
      by (rule refused) (use r f ct runs_kern [OF ku] fds_ok_kern [OF ku] kern_eqD(2,5) [OF ku] kern_eqD(2) [OF k] in simp_all)
  next
    case False
    obtain i where i: "1 \<le> i" "i < 7" "i \<notin> set (concat st)" "find_free_pcb ?s = of_nat i"
      using runs_free [OF r] False by auto
    define s1 where "s1 = spawned i ?s"
    note e = spawned_effect [OF r i(1,2,4)]
    have s1: "runs s1 (push ?t i st)" "fds_ok s1" "curr_terminal s1 = ?t"
      using spawned_runs [OF r i] spawned_fds [OF r i(1,2,4) f] e(3) ct by (simp_all add: s1_def)
    note gone = undo_spawn [OF s1 _ st i(2)]
    have lt: "length (concat st) < 6" using False by simp
    note ex = execute_unfold [OF r lt i(4,2) refl, of command, folded s1_def]
    show thesis
    proof (cases "check_command command (cmd_name s i) (cmd_args s i) s1")
      case None
      then show thesis using i lt ex by (intro endless [of i]) (simp_all add: s1_def)
    next
      case (Some x)
      then obtain ok s2 where c: "check_command command (cmd_name s i) (cmd_args s i) s1 = Some (ok, s2)"
        by (cases x) simp
      have k2: "kern s2 = kern s1" by (rule kern_check_command [OF c])
      obtain ok' entry s3 where x: "check_executable (cmd_name s2 i) s2 = (ok', entry, s3)"
        by (metis prod_cases3)
      have k3: "kern s3 = kern s1" using kern_check_executable [OF x] k2 by simp
      show thesis
      proof (cases "ok \<noteq> 0 \<or> ok' < 0")
        case True
        then have "execute command s = Returns minus_one (snd (pcb_destroy i (if ok \<noteq> 0 then s2 else s3)))"
          using ex c x by auto
        then show thesis by (rule refused) (use gone [OF k2] gone [OF k3] in auto)
      next
        case False
        have p3: "pcbs s3 = pcbs s1" and ct3: "curr_terminal s3 = ?t" using kern_eqD [OF k3] s1(3) by simp_all
        have id: "program_id (pcbs s3 ! i) = of_nat i" using e(7) p3 by (simp add: s1_def)
        obtain s4 where s4: "start_program i entry s3 = Enters entry s4" "procs s4 = procs s3" "fds_ok s4 = fds_ok s3"
            "tss_esp0 s4 = address (pcbs s3 ! i)" "cr3 s4 = i - 1"
          using start_program_enters [OF id i(1,2)] by metis
        have "execute command s = Enters entry s4" using False ex c x s4(1) by simp
        moreover have "runs s4 (push ?t i st)" using runs_cong [OF s4(2)] runs_kern [OF k3] s1(1) by simp
        moreover have "fds_ok s4" using s4(3) fds_ok_kern [OF k3] s1(2) by simp
        moreover have "curr_terminal s4 = ?t" using s4(2) ct3 by (simp add: procs_def)
        moreover have "tss_esp0 s4 = get_kernel_stack_ptr (of_nat i)" using s4(4) p3 e(10) by (simp add: s1_def)
        ultimately show thesis using i(1-3) s4(5) by (intro entered [of entry s4 i])
      qed
    qed
  qed
qed

section \<open>halt\<close>

lemma files_ok_runs:
  assumes "runs s st" and "fds_ok s" and "current_pcb s \<noteq> None"
  shows "files_ok s"
proof -
  have tabs: "\<forall>p \<in> set (pcbs s). table_ok (file_array p)"
    using assms(2) by (auto simp: fds_ok_def in_set_conv_nth)
  have "\<exists>c < 7. current_pcb s = Some c \<and> program_id (pcbs s ! c) = of_nat c"
  proof (cases "st ! curr_terminal s")
    case Nil
    then have "current_pcb s = Some 0" using runs_current(1) [OF assms(1)] assms(3) by blast
    moreover have "program_id (pcbs s ! 0) = 0" using runsD(6) [OF assms(1)] runsD(8) [OF assms(1), of 0] by auto
    ultimately show ?thesis by auto
  next
    case (Cons p ps)
    then show ?thesis using runs_current(2,3) [OF assms(1) Cons] by auto
  qed
  then show ?thesis using assms(2) tabs by (auto simp: files_ok_def fds_ok_def MAX_PROCESSES_def)
qed

lemma blocks_nth:
  assumes "blocks s' = blocks s" and "i < length (pcbs s)"
  shows "address (pcbs s' ! i) = address (pcbs s ! i)" "esp (pcbs s' ! i) = esp (pcbs s ! i)"
    "ebp (pcbs s' ! i) = ebp (pcbs s ! i)"
proof -
  have len: "length (pcbs s') = length (pcbs s)" using assms(1) by (metis blocks_def length_map)
  have "(pcbs s' ! i)\<lparr>file_array := []\<rparr> = (pcbs s ! i)\<lparr>file_array := []\<rparr>"
    using arg_cong [OF assms(1), of "\<lambda>l. l ! i"] assms(2) len by (simp add: blocks_def)
  then have "f ((pcbs s' ! i)\<lparr>file_array := []\<rparr>) = f ((pcbs s ! i)\<lparr>file_array := []\<rparr>)" for f :: "pcb \<Rightarrow> u32"
    by simp
  from this [of address] this [of esp] this [of ebp]
  show "address (pcbs s' ! i) = address (pcbs s ! i)" "esp (pcbs s' ! i) = esp (pcbs s ! i)"
    "ebp (pcbs s' ! i) = ebp (pcbs s ! i)" by simp_all
qed

lemma fds_ok_files: "files_ok s \<Longrightarrow> fds_ok s"
  by (simp add: files_ok_def fds_ok_def MAX_PROCESSES_def)

text \<open>Both halves of halt begin like this: all descriptors closed, then the block destroyed.\<close>

lemma close_and_destroy:
  assumes "runs s st" and "fds_ok s" and "st ! curr_terminal s = p # ps"
  obtains s1 where "close_all [0..<FD_MAX_IDX + 1] s = Some s1" "s1 = s\<lparr>pcbs := pcbs s1\<rparr>" "blocks s1 = blocks s"
    "runs (snd (pcb_destroy p s1)) (pop (curr_terminal s) st)" "fds_ok (snd (pcb_destroy p s1))"
    "current_pcb (snd (pcb_destroy p s1)) = Some (topmost ps)" "cur s1 = p" "runs s1 st"
    "curr_terminal (snd (pcb_destroy p s1)) = curr_terminal s"
    "\<forall>fd. 2 \<le> fd \<and> fd < 8 \<longrightarrow> flags (file_array (pcbs (snd (pcb_destroy p s1)) ! p) ! fd) = 0"
proof -
  have cp: "current_pcb s = Some p" and p: "p < 7" using runs_current(2,3) [OF assms(1,3)] by auto
  have ok: "files_ok s" using files_ok_runs [OF assms(1,2)] cp by simp
  have "\<forall>fd \<in> set [0..<FD_MAX_IDX + 1]. fd < 8" "distinct [0..<FD_MAX_IDX + 1]" by (auto simp: FD_MAX_IDX_def)
  from close_all_ok [OF ok this] obtain s1 where s1: "close_all [0..<FD_MAX_IDX + 1] s = Some s1" "files_ok s1"
      "procs s1 = procs s" "s1 = s\<lparr>pcbs := pcbs s1\<rparr>" "blocks s1 = blocks s"
      "\<forall>fd \<in> set [0..<FD_MAX_IDX + 1]. 2 \<le> fd \<longrightarrow> flags (cur_fd s1 fd) = 0"
    by blast
  have r1: "runs s1 st" using runs_cong [OF s1(3)] assms(1) by simp
  have ct: "curr_terminal s1 = curr_terminal s" and cp1: "current_pcb s1 = Some p"
    using s1(3) cp by (simp_all add: procs_def)
  have hd: "st ! curr_terminal s1 = p # ps" using ct assms(3) by simp
  have "p < length (pcbs s1)" using p runsD(4) [OF r1] by simp
  note e = pcb_destroy_effect [OF this]
  have "\<forall>fd. 2 \<le> fd \<and> fd < 8 \<longrightarrow> flags (file_array (pcbs (snd (pcb_destroy p s1)) ! p) ! fd) = 0"
    using s1(6) cp1 unfolding e(8) by (auto simp: cur_fd_def FD_MAX_IDX_def)
  with destroyed_runs [OF r1 hd, unfolded ct] destroyed_fds [OF fds_ok_files [OF s1(2)] p] s1(1,4,5) cp1 r1 e(3) ct
  show thesis by (intro that) auto
qed

lemma halt_last_resumes:
  assumes "runs s st" and "fds_ok s" and "st ! curr_terminal s = p # q # ps"
  shows "\<exists>s'. halt_last s = Resumes s' \<and> runs s' (pop (curr_terminal s) st) \<and> fds_ok s' \<and> current_pcb s' = Some q
    \<and> reg_esp s' = esp (pcbs s ! p) \<and> reg_ebp s' = ebp (pcbs s ! p) \<and> tss_esp0 s' = address (pcbs s ! q)
    \<and> cr3 s' = q - 1 \<and> (\<forall>fd. 2 \<le> fd \<and> fd < 8 \<longrightarrow> flags (file_array (pcbs s' ! p) ! fd) = 0)"
proof -
  define s0 where "s0 = s\<lparr>reg_esp := esp (pcbs s ! p), reg_ebp := ebp (pcbs s ! p)\<rparr>"
  have k0: "kern s0 = kern s" by (simp add: s0_def kern_def)
  have s0: "runs s0 st" "fds_ok s0" "st ! curr_terminal s0 = p # q # ps" "curr_terminal s0 = curr_terminal s"
    using assms runs_kern [OF k0] fds_ok_kern [OF k0] kern_eqD(5) [OF k0] by simp_all
  obtain s1 where s1: "close_all [0..<FD_MAX_IDX + 1] s0 = Some s1" "s1 = s0\<lparr>pcbs := pcbs s1\<rparr>" "blocks s1 = blocks s0"
    "runs (snd (pcb_destroy p s1)) (pop (curr_terminal s0) st)" "fds_ok (snd (pcb_destroy p s1))"
    "current_pcb (snd (pcb_destroy p s1)) = Some q" "cur s1 = p" "runs s1 st"
    "\<forall>fd. 2 \<le> fd \<and> fd < 8 \<longrightarrow> flags (file_array (pcbs (snd (pcb_destroy p s1)) ! p) ! fd) = 0"
    using close_and_destroy [OF s0(1-3)] by (metis topmost.simps(2))
  define s2 where "s2 = snd (pcb_destroy p s1)"
  have qin: "q \<in> set (concat (pop (curr_terminal s) st))"
    using assms(3) set_nth_concat [of "curr_terminal s" "pop (curr_terminal s) st"] runsD(1,2) [OF assms(1)]
    by (auto simp: pop_def)
  then have q: "1 \<le> q" "q < 7" using runsD(6) [OF s1(4)] s0(4) by auto
  have idq: "program_id (pcbs s2 ! q) = of_nat q"
    using runsD(8) [OF s1(4) q(2)] qin s0(4) by (simp add: s2_def)
  have cpc: "current_pcb s = Some p" by (rule runs_current(2) [OF assms(1,3)])
  have pq: "p \<noteq> q" using assms(3) runsD(5) [OF assms(1)] runsD(1,2) [OF assms(1)]
    by (metis distinct_concat_iff distinct.simps(2) list.set_intros(1) nth_mem)
  have "q < length (pcbs s0)" using q(2) runsD(4) [OF s0(1)] by simp
  note bn = blocks_nth [OF s1(3) this]
  have "p < length (pcbs s1)" using runs_current(3) [OF assms(1,3)] runsD(4) [OF s1(8)] by auto
  note e = pcb_destroy_effect [OF this]
  have aq: "address (pcbs s2 ! q) = address (pcbs s ! q)" using e(6) [of q] pq bn(1) by (simp add: s2_def s0_def)
  have u: "unat (of_nat q :: u32) = q" "unat (of_nat q - 1 :: u32) = q - 1" "(of_nat q :: u32) \<noteq> 0"
    using q by (auto simp: unat_of_nat32 unat_sub32 dest: arg_cong [where f = unat])
  define s3 where "s3 = loadPageDirectory (q - 1) (s2\<lparr>tss_esp0 := address (pcbs s2 ! q)\<rparr>)"
  have "halt_last s = Resumes s3"
    using s1(1,6,7) idq u q(2) cpc
    by (simp add: halt_last_def Let_def s0_def [symmetric] s2_def [symmetric] s3_def MAX_TASKS_def)
  moreover have "kern s3 = kern s2" by (simp add: s3_def kern_def loadPageDirectory_def Let_def)
  moreover have "reg_esp s2 = reg_esp s0" "reg_ebp s2 = reg_ebp s0"
    unfolding s2_def pcb_destroy_def upd_pcb_def Let_def by (subst s1(2), simp)+
  ultimately show ?thesis
    using s1(4-6,9) s0(4) aq runs_kern [of s3 s2] fds_ok_kern [of s3 s2] kern_eqD(1,2) [of s3 s2]
    by (intro exI [of _ s3]) (simp add: s2_def [symmetric] s3_def s0_def loadPageDirectory_def Let_def)
qed

lemma halt_test:
  assumes "runs s st"
  shows "num_process (terminal_info s ! curr_terminal s) - 1 \<le> 0 \<longleftrightarrow> length (st ! curr_terminal s) = 1"
proof -
  note r = runsD [OF assms]
  have n: "num_process (terminal_info s ! curr_terminal s) = of_nat (length (st ! curr_terminal s))"
    using r(9) [OF r(2)] by simp
  have "distinct (st ! curr_terminal s)" using r(1,2,5) by (metis distinct_concat_iff nth_mem)
  then have "length (st ! curr_terminal s) \<le> 6"
    using card_mono [of "{1..<7 :: nat}" "set (st ! curr_terminal s)"] r(6) r(11) [OF r(2)] distinct_card by force
  then have "(of_nat (length (st ! curr_terminal s)) :: u32) = of_nat 1 \<longleftrightarrow> length (st ! curr_terminal s) = 1"
    by (intro of_nat32_inj) simp_all
  moreover have "(x :: u32) - 1 \<le> 0 \<longleftrightarrow> x = of_nat 1" for x by (simp add: word_le_0_iff)
  ultimately show ?thesis using n by metis
qed

lemma halt_last_no_entry: "halt_last s \<noteq> Enters e s'"
  by (simp add: halt_last_def Let_def split: option.split)

text \<open>The last process of a terminal ends: the shell is started in its place.\<close>

lemma halt_restarts:
  assumes "runs s st" and "fds_ok s" and "st ! curr_terminal s = [p]" and "halt status s = Enters entry s'"
  shows "\<exists>i. 1 \<le> i \<and> i < 7 \<and> runs s' (st[curr_terminal s := [i]]) \<and> fds_ok s' \<and> curr_terminal s' = curr_terminal s"
proof -
  let ?t = "curr_terminal s"
  obtain s1 where s1: "close_all [0..<FD_MAX_IDX + 1] s = Some s1" "cur s1 = p"
    "runs (snd (pcb_destroy p s1)) (pop ?t st)" "fds_ok (snd (pcb_destroy p s1))"
    and ct: "curr_terminal (snd (pcb_destroy p s1)) = ?t"
    using close_and_destroy [OF assms(1-3)] by metis
  let ?s2 = "snd (pcb_destroy p s1)"
  have empty: "push ?t i (pop ?t st) = st[?t := [i]]" for i
    using assms(3) runsD(1,2) [OF assms(1)] by (simp add: push_def pop_def)
  have h: "halt status s = (case execute (shell_at ?s2) ?s2 of Returns r s \<Rightarrow> halt_last s | out \<Rightarrow> out)"
    using halt_test [OF assms(1)] assms(3) s1(1,2) by (simp add: halt_def Let_def)
  show ?thesis
  proof (cases rule: execute_cases [OF s1(3,4), of "shell_at ?s2"])
    case (1 r s'')
    then have "halt_last s'' = Enters entry s'" using h assms(4) by simp
    then show ?thesis using halt_last_no_entry by metis
  next
    case (2 i e s'')
    with h assms(4) ct empty show ?thesis by auto
  next
    case (3 i)
    with h assms(4) show ?thesis by simp
  qed
qed

section \<open>The process at the bottom of the stack\<close>

lemma get_top_pcb_from_last:
  "linked (\<lambda>i. parent_id (ps ! i)) (p # qs) \<Longrightarrow> set (p # qs) \<subseteq> {1..<7} \<Longrightarrow> length ps = 7 \<Longrightarrow>
   get_top_pcb_from ps p = Some (last (p # qs))"
proof (induction qs arbitrary: p)
  case Nil
  then show ?case by (subst get_top_pcb_from.simps) simp
next
  case (Cons q qs)
  then have q: "parent_id (ps ! p) = of_nat q" "p < 7" "1 \<le> q" "q < 7" by auto
  then have u: "unat (of_nat q :: u32) = q" "(of_nat q :: u32) \<noteq> 0"
    by (auto simp: unat_of_nat32 dest: arg_cong [where f = unat])
  have "get_top_pcb_from ps q = Some (last (q # qs))" by (rule Cons.IH) (use Cons.prems in auto)
  with q u Cons.prems(3) show ?case by (subst get_top_pcb_from.simps) simp
qed

section \<open>Properties\<close>

text \<open>The states of the witnesses: process 1 runs on the first terminal; or 1 and 2.\<close>

definition proc_state1 :: sys_state where
  "proc_state1 = sys_state1\<lparr>terminal_info := [\<lparr>top_process_id = 1, num_process = 1\<rparr>,
     \<lparr>top_process_id = 0, num_process = 0\<rparr>, \<lparr>top_process_id = 0, num_process = 0\<rparr>]\<rparr>"

definition proc_state2 :: sys_state where
  "proc_state2 = proc_state1\<lparr>terminal_info := [\<lparr>top_process_id = 2, num_process = 2\<rparr>,
     \<lparr>top_process_id = 0, num_process = 0\<rparr>, \<lparr>top_process_id = 0, num_process = 0\<rparr>], process_number := 2,
     current_pcb := Some 2, pcbs := (pcbs fs_state0)[2 := (pcbs fs_state0 ! 1)\<lparr>program_id := 2, parent_id := 1,
       address := 0x7FE000, esp := 0x7FDF00\<rparr>]\<rparr>"

lemma less_7_cases: "(i :: nat) < 7 \<longleftrightarrow> i \<in> {0, 1, 2, 3, 4, 5, 6}"
  by auto

lemma fs_state0_pcbs:
  "program_id (pcbs fs_state0 ! Suc 0) = 1" "parent_id (pcbs fs_state0 ! Suc 0) = 0" "length (pcbs fs_state0) = 7"
  "parent_id (pcbs fs_state0 ! 0) = 0"
  by (simp_all add: fs_state0_def pcb0_def)

lemma fs_state0_ids: "i < 7 \<Longrightarrow> program_id (pcbs fs_state0 ! i) = (if i = 1 then 1 else 0)"
  by (auto simp: less_7_cases fs_state0_def pcb0_def)

lemma proc_state1_runs: "runs proc_state1 [[1], [], []]"
proof (rule runsI)
  fix i :: nat assume "i < 7"
  then show "program_id (pcbs proc_state1 ! i) = (if i \<in> set (concat [[1], [], []]) then of_nat i else 0)"
    by (simp add: proc_state1_def sys_state1_def fs_state0_ids)
qed (auto simp: proc_state1_def sys_state1_def fs_state0_pcbs less_3_cases)

lemma proc_state2_runs: "runs proc_state2 [[2, 1], [], []]"
proof (rule runsI)
  fix i :: nat assume "i < 7"
  then show "program_id (pcbs proc_state2 ! i) = (if i \<in> set (concat [[2, 1], [], []]) then of_nat i else 0)"
    by (cases "i = 2") (simp_all add: proc_state2_def fs_state0_ids fs_state0_pcbs(3))
qed (auto simp: proc_state2_def proc_state1_def sys_state1_def fs_state0_pcbs less_3_cases)

lemma proc_states_fds: "fds_ok proc_state1" "fds_ok proc_state2"
proof -
  have t: "table_ok (file_array (pcbs fs_state0 ! i))" if "i < 7" for i
    using sys_state0_ok that fs_state0_pcbs(3) by (simp add: files_ok_def)
  have r: "ops_ready proc_state1" "ops_ready proc_state2"
    using sys_state0_simps(3) unfolding proc_state1_def proc_state2_def sys_state1_def ops_ready_def by simp_all
  show "fds_ok proc_state1" using r t by (simp add: fds_ok_def proc_state1_def sys_state1_def fs_state0_pcbs(3))
  show "fds_ok proc_state2" using r t by (simp add: fds_ok_def proc_state2_def fs_state0_pcbs(3) nth_list_update)
qed



text \<open>
  C5: halt refines the pop of a process: the caller's execute is resumed with the stack
  pointers saved for it, the parent current, the parent's kernel stack and page directory in
  place, and every file of the ended process closed. When the last process of a terminal
  ends and the shell is entered in its place, the terminal's stack is that shell alone.
\<close>

theorem halt_refines_pop:
  assumes "runs s st" and "fds_ok s" and "st ! curr_terminal s = p # ps"
  shows "(\<forall>q qs. ps = q # qs \<longrightarrow> (\<exists>s'. halt status s = Resumes s' \<and> runs s' (pop (curr_terminal s) st) \<and> fds_ok s'
      \<and> current_pcb s' = Some q \<and> reg_esp s' = esp (pcbs s ! p) \<and> reg_ebp s' = ebp (pcbs s ! p)
      \<and> tss_esp0 s' = address (pcbs s ! q) \<and> cr3 s' = q - 1
      \<and> (\<forall>fd. 2 \<le> fd \<and> fd < 8 \<longrightarrow> flags (file_array (pcbs s' ! p) ! fd) = 0)))
    \<and> (ps = [] \<longrightarrow> (\<forall>entry s'. halt status s = Enters entry s' \<longrightarrow>
         (\<exists>i. runs s' (st[curr_terminal s := [i]]) \<and> fds_ok s')))"
proof (intro conjI allI impI)
  fix q qs assume "ps = q # qs"
  with assms(3) have st: "st ! curr_terminal s = p # q # qs" by simp
  then have "halt status s = halt_last s" using halt_test [OF assms(1)] by (simp add: halt_def)
  with halt_last_resumes [OF assms(1,2) st]
  show "\<exists>s'. halt status s = Resumes s' \<and> runs s' (pop (curr_terminal s) st) \<and> fds_ok s'
      \<and> current_pcb s' = Some q \<and> reg_esp s' = esp (pcbs s ! p) \<and> reg_ebp s' = ebp (pcbs s ! p)
      \<and> tss_esp0 s' = address (pcbs s ! q) \<and> cr3 s' = q - 1
      \<and> (\<forall>fd. 2 \<le> fd \<and> fd < 8 \<longrightarrow> flags (file_array (pcbs s' ! p) ! fd) = 0)" by simp
next
  fix entry s' assume "ps = []" and h: "halt status s = Enters entry s'"
  with assms(3) have "st ! curr_terminal s = [p]" by simp
  from halt_restarts [OF assms(1,2) this h]
  show "\<exists>i. runs s' (st[curr_terminal s := [i]]) \<and> fds_ok s'" by blast
qed

theorem halt_refines_pop_witness:
  "\<exists>s'. halt 0 proc_state2 = Resumes s' \<and> runs s' [[1], [], []] \<and> current_pcb s' = Some 1 \<and> reg_esp s' = 0x7FDF00"
proof -
  have t: "curr_terminal proc_state2 = 0" by (simp add: proc_state2_def proc_state1_def sys_state1_def)
  have e: "esp (pcbs proc_state2 ! 2) = 0x7FDF00" by (simp add: proc_state2_def fs_state0_pcbs(3))
  have "[[2, 1], [], []] ! curr_terminal proc_state2 = 2 # [1 :: nat]" by (simp add: t)
  note halt_refines_pop [OF proc_state2_runs proc_states_fds(2) this, of 0]
  then obtain s' where "halt 0 proc_state2 = Resumes s'" "runs s' (pop (curr_terminal proc_state2) [[2, 1], [], []])"
      "current_pcb s' = Some 1" "reg_esp s' = esp (pcbs proc_state2 ! 2)"
    by blast
  then show ?thesis unfolding t e by (intro exI [of _ s']) (simp add: pop_def)
qed

text \<open>
  C28: get\_top\_pcb ends for every running process and delivers the block of the process at
  the bottom of the current terminal's stack, the one without a parent.
\<close>

theorem get_top_pcb_bottom:
  assumes "runs s st" and "st ! curr_terminal s \<noteq> []"
  shows "get_top_pcb s = Some (last (st ! curr_terminal s)) \<and> parent_id (pcbs s ! last (st ! curr_terminal s)) = 0"
proof -
  note r = runsD [OF assms(1)]
  obtain p qs where st: "st ! curr_terminal s = p # qs" using assms(2) by (cases "st ! curr_terminal s") auto
  have lk: "linked (\<lambda>i. parent_id (pcbs s ! i)) (p # qs)" using r(10) [OF r(2)] st by simp
  have "set (p # qs) \<subseteq> {1..<7}" using r(6) r(11) [OF r(2)] st by auto
  from get_top_pcb_from_last [OF lk this r(4)] have "get_top_pcb s = Some (last (p # qs))"
    using runs_current(2) [OF assms(1) st] by (simp add: get_top_pcb_def get_cur_pcb_def)
  moreover have "parent_id (pcbs s ! last (p # qs)) = 0"
    using lk by (induction qs arbitrary: p) auto
  ultimately show ?thesis using st by simp
qed

theorem get_top_pcb_bottom_witness: "get_top_pcb proc_state2 = Some 1"
proof -
  have "curr_terminal proc_state2 = 0" by (simp add: proc_state2_def proc_state1_def sys_state1_def)
  then show ?thesis using get_top_pcb_bottom [OF proc_state2_runs] by simp
qed

end
