(* ===== verification/Kud_Keyboard.thy ===== *)
theory Kud_Keyboard
  imports Kud_Process
begin

unbundle bit_operations_syntax

text \<open>
  The keyboard interrupt \<^verbatim>\<open>keyboard.c\<close>, \<^verbatim>\<open>switch_terminal\<close> of \<^verbatim>\<open>terminal.c\<close> and the
  timer \<^verbatim>\<open>scheduler.c\<close> (its handler's body is commented out but for the acknowledgement).
  This is where terminals, processes and paging meet: a function key saves the screen of one
  terminal, restores another's and continues the process on top of that terminal's stack, or
  starts a shell there.
\<close>

section \<open>State and key tables\<close>

text \<open>
  The two key tables have 59 entries, but the handler indexes them with scan codes up to
  0x80. What lies behind the tables is the linker's choice: two functions of the state.
\<close>

record kbd_state = sys_state +
  keys_beyond :: "u8 \<Rightarrow> u8"
  cap_keys_beyond :: "u8 \<Rightarrow> u8"
  term_num :: int
  sched_pcb :: "nat option"

definition keys :: "u8 list" where
  "keys = [0, 0] @ bytes ''1234567890-='' @ [0, 0] @ bytes ''qwertyuiop[]'' @ [10, 0]
     @ bytes (''asdfghjkl;'' @ [CHR 0x27, CHR 0x60]) @ [0] @ bytes ([CHR 0x5C] @ ''zxcvbnm,./'')
     @ [0, 0, 0, 32, 0]"

definition cap_keys :: "u8 list" where
  "cap_keys = [0, 0] @ bytes ''!@#$%^&*()_+'' @ [0, 0] @ bytes ''QWERTYUIOP{}'' @ [10, 0]
     @ bytes (''ASDFGHJKL:'' @ [CHR 0x22] @ ''~'') @ [0] @ bytes ''|ZXCVBNM<>?''
     @ [0, 0, 0, 32, 0]"

definition key_at :: "'a kbd_state_scheme \<Rightarrow> u8 \<Rightarrow> u8" where
  "key_at s sc = (if unat sc < length keys then keys ! unat sc else keys_beyond s sc)"

definition cap_key_at :: "'a kbd_state_scheme \<Rightarrow> u8 \<Rightarrow> u8" where
  "cap_key_at s sc = (if unat sc < length cap_keys then cap_keys ! unat sc else cap_keys_beyond s sc)"

section \<open>Switching terminals\<close>

text \<open>Saving one screen page and fetching the other.\<close>

definition swap_screen :: "nat \<Rightarrow> 'a term_state_scheme \<Rightarrow> 'a term_state_scheme" where
  "swap_screen n s =
     (let s = s\<lparr>mem := memcpy (mem s) (terminal_memory s ! curr_terminal s) (terminal_ptr s) 4096\<rparr>
      in s\<lparr>mem := memcpy (mem s) (terminal_ptr s) (terminal_memory s ! n) 4096\<rparr>)"

definition switch_terminal :: "nat \<Rightarrow> 'a kbd_state_scheme \<Rightarrow> 'a kbd_state_scheme outcome" where
  "switch_terminal terminal_num s =
     (if terminal_num = curr_terminal s then Returns 0 s
      else let s = swap_screen terminal_num s;
               s = s\<lparr>curr_terminal := terminal_num\<rparr>;
               s = move_csr s;
               p = unat (top_process_id (terminal_info s ! curr_terminal s))
           in if p \<ge> MAX_PROCESSES then Faults
              else let s = s\<lparr>current_pcb := Some p\<rparr>;
                       id = program_id (pcbs s ! p)
                   in if id = 0
                      then (case execute (shell_at s) s of Returns r s \<Rightarrow> Returns 0 s | out \<Rightarrow> out)
                      else if unat id > MAX_TASKS then Faults
                      else let s = loadPageDirectory (unat (id - 1)) s
                           in Returns 0 (s\<lparr>tss_esp0 := address (pcbs s ! p)\<rparr>))"

section \<open>The interrupt handlers\<close>

definition not_flag :: "int \<Rightarrow> int" where
  "not_flag v = (if v = 0 then 1 else 0)"

text \<open>The part of the handler for a key press; it may leave through execute or halt.\<close>

definition key_pressed :: "u8 \<Rightarrow> 'a kbd_state_scheme \<Rightarrow> 'a kbd_state_scheme outcome" where
  "key_pressed sc s =
     (if key_at s sc = 10 then Returns 0 ((add_to_buffer 10 s)\<lparr>enter_flag := 1\<rparr>)
      else if sc = 0x0E then Returns 0 (print_buffer (backspace s))
      else if sc = 0x1D then Returns 0 (s\<lparr>ctrl_flag := 1\<rparr>)
      else if sc = 0x38 then Returns 0 (s\<lparr>alt_flag := 1\<rparr>)
      else if alt_flag s = 1 \<and> sc = 0x3B then switch_terminal 0 s
      else if alt_flag s = 1 \<and> sc = 0x3C then switch_terminal 1 s
      else if alt_flag s = 1 \<and> sc = 0x3D then switch_terminal 2 s
      else if ctrl_flag s = 1 \<and> sc = 0x26 then Returns 0 (print_buffer (clear_screen s))
      else if ctrl_flag s = 1 \<and> sc = 0x2E then halt 0 (send_eoi 1 s)
      else if sc = 0x2A \<or> sc = 0x36 then Returns 0 (s\<lparr>cap_flag := not_flag (cap_flag s)\<rparr>)
      else if sc = 0x3A then Returns 0 (s\<lparr>cap_flag := not_flag (cap_flag s)\<rparr>)
      else if cap_flag s \<noteq> 0 then Returns 0 (print_buffer (add_to_buffer (cap_key_at s sc) s))
      else Returns 0 (print_buffer (add_to_buffer (key_at s sc) s)))"

definition key_released :: "u8 \<Rightarrow> 'a term_state_scheme \<Rightarrow> 'a term_state_scheme" where
  "key_released sc s =
     (if sc = 0x9D then s\<lparr>ctrl_flag := 0\<rparr>
      else if sc = 0xAA \<or> sc = 0xB6 then s\<lparr>cap_flag := not_flag (cap_flag s)\<rparr>
      else if sc = 0xB8 then s\<lparr>alt_flag := not_flag (alt_flag s)\<rparr>
      else s)"

definition keyboard_handler :: "'a kbd_state_scheme \<Rightarrow> 'a kbd_state_scheme outcome" where
  "keyboard_handler s =
     (let s = cli s;
          (v, s) = inb 0x60 s;
          scan_code = ucast v :: u8
      in case (if scan_code \<le> 0x80 then key_pressed scan_code s else Returns 0 (key_released scan_code s)) of
           Returns r s \<Rightarrow> Returns 0 (sti (send_eoi 1 s))
         | out \<Rightarrow> out)"

text \<open>
  The high byte of the divisor: the cast binds tighter than the shift, so it is always 0.
\<close>

definition pit_init :: "'a kbd_state_scheme \<Rightarrow> u32 \<times> 'a kbd_state_scheme" where
  "pit_init s =
     (let s = s\<lparr>term_num := 0\<rparr>;
          freq_l = ucast (0x2E9B :: u32) :: u8;
          freq_h = ucast (drop_bit 8 (ucast (ucast (0x2E9B :: u32) :: u8) :: u32)) :: u8;
          s = outb 0x34 0x43 s;
          s = outb (ucast freq_l) 0x40 s;
          s = outb (ucast freq_h) 0x40 s
      in (0, s\<lparr>sched_pcb := None\<rparr>))"

definition pit_handler :: "'a pic_state_scheme \<Rightarrow> 'a pic_state_scheme" where
  "pit_handler s = send_eoi 0 s"

section \<open>A switch and the processes\<close>

lemma kern_swap [simp]: "kern (swap_screen n s) = kern s"
  by (simp add: swap_screen_def Let_def)

lemma moved_runs:
  assumes "runs s st" and "n < 3"
  shows "runs (s\<lparr>curr_terminal := n, current_pcb := Some (topmost (st ! n))\<rparr>) st"
  using runsD [OF assms(1)] assms(2) by (intro runsI) simp_all

text \<open>The state in which switch\_terminal decides between a shell and a process.\<close>

definition switched :: "nat \<Rightarrow> 'a kbd_state_scheme \<Rightarrow> 'a kbd_state_scheme" where
  "switched n s = (move_csr ((swap_screen n s)\<lparr>curr_terminal := n\<rparr>))
     \<lparr>current_pcb := Some (unat (top_process_id (terminal_info s ! n)))\<rparr>"

lemma switched_fields:
  "pcbs (switched n s) = pcbs s" "terminal_info (switched n s) = terminal_info s" "curr_terminal (switched n s) = n"
  "process_number (switched n s) = process_number s" "mem (switched n s) = mem (swap_screen n s)"
  "ops_ready (switched n s) = ops_ready s" "terminal_memory (switched n s) = terminal_memory s"
  "terminal_ptr (switched n s) = terminal_ptr s"
  by (simp_all add: switched_def swap_screen_def Let_def ops_ready_def move_csr_def outb_def)

lemma topmost_info:
  assumes "runs s st" and "n < 3"
  shows "unat (top_process_id (terminal_info s ! n)) = topmost (st ! n)" "topmost (st ! n) < 7"
proof -
  have "set (st ! n) \<subseteq> {1..<7}" using runsD(6) [OF assms(1)] runsD(11) [OF assms] by blast
  then show "topmost (st ! n) < 7" by (rule top_bound)
  then show "unat (top_process_id (terminal_info s ! n)) = topmost (st ! n)"
    using runsD(9) [OF assms] by (simp add: unat_of_nat32)
qed

lemma switched_runs:
  assumes "runs s st" and "n < 3"
  shows "runs (switched n s) st"
proof -
  have eq: "procs (switched n s) = procs (s\<lparr>curr_terminal := n, current_pcb := Some (topmost (st ! n))\<rparr>)"
    using topmost_info(1) [OF assms] by (simp add: procs_def switched_fields) (simp add: switched_def)
  show ?thesis unfolding runs_cong [OF eq] by (rule moved_runs [OF assms])
qed

lemma switched_fds: "fds_ok (switched n s) = fds_ok s"
  by (simp add: fds_ok_def switched_fields)

lemma switch_eq:
  assumes "n \<noteq> curr_terminal s" and "p = unat (top_process_id (terminal_info s ! n))" and "p < 7"
    and "pid = program_id (pcbs s ! p)" and "unat pid \<le> 6"
  shows "switch_terminal n s =
    (if pid = 0 then (case execute (shell_at s) (switched n s) of Returns r s \<Rightarrow> Returns 0 s | out \<Rightarrow> out)
     else Returns 0 ((loadPageDirectory (unat (pid - 1)) (switched n s))\<lparr>tss_esp0 := address (pcbs s ! p)\<rparr>))"
proof -
  define M where "M = move_csr ((swap_screen n s)\<lparr>curr_terminal := n\<rparr>)"
  have M: "terminal_info M = terminal_info s" "curr_terminal M = n" "pcbs M = pcbs s" "shell_at M = shell_at s"
    by (simp_all add: M_def swap_screen_def Let_def move_csr_def outb_def)
  have sw: "M\<lparr>current_pcb := Some p\<rparr> = switched n s" by (simp add: switched_def M_def assms(2))
  have sh: "shell_at (switched n s) = shell_at s" unfolding sw [symmetric] by (simp add: M)
  have pk: "pcbs (loadPageDirectory k (switched n s)) = pcbs s" for k
    by (simp add: loadPageDirectory_def Let_def switched_fields)
  have guards: "\<not> MAX_PROCESSES \<le> p" "\<not> MAX_TASKS < unat pid"
    using assms(3,5) by (simp_all add: MAX_PROCESSES_def MAX_TASKS_def)
  show ?thesis
    unfolding switch_terminal_def Let_def M_def [symmetric] M assms(2) [symmetric] sw sh switched_fields(1) pk
      assms(4) [symmetric]
    using assms(1) guards by simp
qed

lemma switch_unfold:
  assumes "runs s st" and "n < 3" and "n \<noteq> curr_terminal s"
  shows "switch_terminal n s =
    (case st ! n of
       [] \<Rightarrow> (case execute (shell_at s) (switched n s) of Returns r s \<Rightarrow> Returns 0 s | out \<Rightarrow> out)
     | p # ps \<Rightarrow> Returns 0 ((loadPageDirectory (p - 1) (switched n s))\<lparr>tss_esp0 := address (pcbs s ! p)\<rparr>))"
proof -
  let ?p = "topmost (st ! n)"
  note t = topmost_info [OF assms(1,2)]
  have id: "program_id (pcbs s ! ?p) = (if ?p \<in> set (concat st) then of_nat ?p else 0)"
    by (rule runsD(8) [OF assms(1) t(2)])
  show ?thesis
  proof (cases "st ! n")
    case Nil
    then have "program_id (pcbs s ! 0) = 0" using id runsD(6) [OF assms(1)] by auto
    then show ?thesis using switch_eq [OF assms(3) t(1) [symmetric] t(2) refl] Nil by simp
  next
    case (Cons p ps)
    then have "p \<in> set (concat st)" using runsD(11) [OF assms(1,2)] by auto
    then have p: "1 \<le> p" "p < 7" "program_id (pcbs s ! p) = of_nat p"
      using runsD(6) [OF assms(1)] id Cons by auto
    then have u: "unat (of_nat p :: u32) = p" "unat (of_nat p - 1 :: u32) = p - 1" "(of_nat p :: u32) \<noteq> 0"
      by (auto simp: unat_of_nat32 unat_sub32 dest: arg_cong [where f = unat])
    then show ?thesis using switch_eq [OF assms(3) t(1) [symmetric] t(2) refl] Cons p by simp
  qed
qed

lemma switch_cases:
  assumes "runs s st" and "fds_ok s" and "n < 3"
  obtains (resumed) s' where "switch_terminal n s = Returns 0 s'" "runs s' st" "fds_ok s'" "curr_terminal s' = n"
  | (started) i entry s' where "switch_terminal n s = Enters entry s'" "i \<notin> set (concat st)" "st ! n = []"
      "runs s' (push n i st)" "fds_ok s'" "curr_terminal s' = n"
  | (endless) "switch_terminal n s = Faults" "st ! n = []"
proof (cases "n = curr_terminal s")
  case True
  then show thesis using assms by (intro resumed [of s]) (simp_all add: switch_terminal_def)
next
  case False
  note sw = switch_unfold [OF assms(1,3) False]
  have r: "runs (switched n s) st" and f: "fds_ok (switched n s)"
    using switched_runs [OF assms(1,3)] assms(2) by (simp_all add: switched_fds)
  show thesis
  proof (cases "st ! n")
    case Nil
    show thesis
    proof (cases rule: execute_cases [OF r f, of "shell_at s"])
      case (1 x s')
      with Nil sw show thesis by (intro resumed [of s']) (simp_all add: switched_fields)
    next
      case (2 i e s')
      with Nil sw show thesis by (intro started [of e s' i]) (simp_all add: switched_fields)
    next
      case (3 i)
      with Nil sw show thesis by (intro endless) simp_all
    qed
  next
    case (Cons p ps)
    let ?u = "(loadPageDirectory (p - 1) (switched n s))\<lparr>tss_esp0 := address (pcbs s ! p)\<rparr>"
    have k: "kern ?u = kern (switched n s)" by (simp add: kern_def loadPageDirectory_def Let_def)
    show thesis
      by (rule resumed [of ?u]) (use Cons sw r f runs_kern [OF k] fds_ok_kern [OF k] kern_eqD(5) [OF k] in
        \<open>simp_all add: switched_fields\<close>)
  qed
qed

section \<open>A switch and the screens\<close>

definition pages_ok :: "'a term_state_scheme \<Rightarrow> bool" where
  "pages_ok s \<longleftrightarrow> terminal_ptr s = VIDEO_MEM \<and> terminal_memory s = [TERMINAL_MEM_1, TERMINAL_MEM_2, TERMINAL_MEM_3]"

definition screen :: "'a term_state_scheme \<Rightarrow> u8 list" where
  "screen s = load_bytes (mem s) VIDEO_MEM 4096"

definition saved_screen :: "'a term_state_scheme \<Rightarrow> nat \<Rightarrow> u8 list" where
  "saved_screen s t = load_bytes (mem s) (terminal_memory s ! t) 4096"

lemma pages_apart:
  assumes "pages_ok s" and "t < 3"
  shows "apart (terminal_memory s ! t) VIDEO_MEM 4096"
    and "u < 3 \<Longrightarrow> u \<noteq> t \<Longrightarrow> apart (terminal_memory s ! t) (terminal_memory s ! u) 4096"
    and "unat (terminal_memory s ! t) \<le> 0x3000"
  using assms by (auto simp: pages_ok_def less_3_cases term_consts apart_def)

lemma swap_pages:
  assumes "pages_ok s" and "curr_terminal s < 3" and "n < 3" and "n \<noteq> curr_terminal s"
  shows "screen (swap_screen n s) = saved_screen s n"
    and "saved_screen (swap_screen n s) (curr_terminal s) = screen s"
    and "\<And>t. t < 3 \<Longrightarrow> t \<noteq> curr_terminal s \<Longrightarrow> saved_screen (swap_screen n s) t = saved_screen s t"
proof -
  let ?c = "terminal_memory s ! curr_terminal s" and ?q = "terminal_memory s ! n"
  let ?m = "memcpy (memcpy (mem s) ?c VIDEO_MEM 4096) VIDEO_MEM ?q 4096"
  have u: "unat (4096 :: u32) = 4096" by simp
  have ap: "apart ?c VIDEO_MEM 4096" "apart ?c ?q 4096" "apart VIDEO_MEM ?q 4096"
    using pages_apart(1) [OF assms(1,2)] pages_apart(2) [OF assms(1,2), of n] pages_apart(1) [OF assms(1,3)] assms(3,4)
    by (simp_all add: apart_sym)
  have ok: "forward_ok ?c VIDEO_MEM (unat (4096 :: u32))" "forward_ok VIDEO_MEM ?q (unat (4096 :: u32))"
    using ap by (simp_all add: apart_forward_ok)
  note ex = cpy.exchange [OF ok, unfolded u, OF ap, of "mem s"]
  have m: "mem (swap_screen n s) = ?m" "terminal_memory (swap_screen n s) = terminal_memory s"
    using assms(1) by (simp_all add: swap_screen_def Let_def pages_ok_def)
  show "screen (swap_screen n s) = saved_screen s n"
    "saved_screen (swap_screen n s) (curr_terminal s) = screen s"
    using ex(1,2) by (simp_all add: screen_def saved_screen_def m)
  fix t assume t: "t < 3" "t \<noteq> curr_terminal s"
  let ?t = "terminal_memory s ! t"
  have "apart ?c ?t 4096" "apart VIDEO_MEM ?t 4096"
    using pages_apart(2) [OF assms(1,2) t] pages_apart(1) [OF assms(1) t(1)] by (simp_all add: apart_sym)
  then have "load_bytes ?m ?t 4096 = load_bytes (mem s) ?t 4096"
    using cpy.move_other_region [OF ok(1), of ?t "mem s"] cpy.move_other_region [OF ok(2), of ?t "memcpy (mem s) ?c VIDEO_MEM 4096"]
    by simp
  then show "saved_screen (swap_screen n s) t = saved_screen s t" by (simp add: saved_screen_def m)
qed

lemma low_not_window: "unat a < 0x400000 \<Longrightarrow> \<not> in_window a"
proof
  assume "unat a < 0x400000" and "in_window a"
  then have "unat (drop_bit 22 a) = 32" by (simp add: in_window_def)
  moreover have "unat (drop_bit 22 a) = unat a div 4194304" by (rule unat_page_index)
  ultimately show False using \<open>unat a < 0x400000\<close> by simp
qed

lemma load_low:
  assumes "unat d + 4096 \<le> 0x400000"
  shows "load_bytes (mem (loadPageDirectory k s)) d 4096 = load_bytes (mem s) d 4096"
proof (rule load_bytes_cong)
  fix i :: nat assume "i < 4096"
  then have "unat (d + of_nat i) < 0x400000" using assms by (simp add: unat_add32 unat_of_nat32)
  then show "mem (loadPageDirectory k s) (d + of_nat i) = mem s (d + of_nat i)"
    using low_not_window by (simp add: loadPageDirectory_def Let_def)
qed

lemma load_pages [simp]: "terminal_memory (loadPageDirectory k s) = terminal_memory s"
  by (simp add: loadPageDirectory_def Let_def)

text \<open>Switching to a terminal where a process runs.\<close>

lemma switch_to_process:
  assumes "runs s st" and "pages_ok s" and "n < 3" and "n \<noteq> curr_terminal s" and "st ! n = p # ps"
  obtains s' where "switch_terminal n s = Returns 0 s'" "runs s' st" "pages_ok s'" "curr_terminal s' = n"
    "screen s' = saved_screen s n" "saved_screen s' (curr_terminal s) = screen s"
    "\<forall>t < 3. t \<noteq> curr_terminal s \<longrightarrow> saved_screen s' t = saved_screen s t"
    "current_pcb s' = Some p" "cr3 s' = p - 1" "tss_esp0 s' = address (pcbs s ! p)" "pcbs s' = pcbs s"
proof -
  let ?L = "loadPageDirectory (p - 1) (switched n s)"
  let ?u = "?L\<lparr>tss_esp0 := address (pcbs s ! p)\<rparr>"
  have eq: "switch_terminal n s = Returns 0 ?u" using switch_unfold [OF assms(1,3,4)] assms(5) by simp
  have k: "kern ?u = kern (switched n s)" by (simp add: kern_def loadPageDirectory_def Let_def)
  have r: "runs ?u st" using switched_runs [OF assms(1,3)] runs_kern [OF k] by simp
  have f: "terminal_memory ?u = terminal_memory s" "terminal_ptr ?u = terminal_ptr s" "cr3 ?u = p - 1"
    "tss_esp0 ?u = address (pcbs s ! p)" by (simp_all add: loadPageDirectory_def Let_def switched_fields)
  have cp: "current_pcb ?u = Some p"
    using kern_eqD(2) [OF k] topmost_info(1) [OF assms(1,3)] assms(5) by (simp add: switched_def)
  have sc: "screen ?u = screen (swap_screen n s)"
    using load_low [of VIDEO_MEM "p - 1" "switched n s"]
    by (simp add: screen_def switched_fields term_consts)
  have sv: "saved_screen ?u t = saved_screen (swap_screen n s) t" if "t < 3" for t
    using load_low [of "terminal_memory s ! t" "p - 1" "switched n s"] pages_apart(3) [OF assms(2) that]
    by (simp add: saved_screen_def switched_fields) (simp add: swap_screen_def Let_def)
  have ct: "curr_terminal s < 3" by (rule runsD(2) [OF assms(1)])
  note sw = swap_pages [OF assms(2) ct assms(3,4)]
  show thesis
  proof (rule that [OF eq r])
    show "pages_ok ?u" using assms(2) f by (simp add: pages_ok_def)
    show "curr_terminal ?u = n" "pcbs ?u = pcbs s"
      using kern_eqD(1,5) [OF k] by (simp_all add: switched_fields)
    show "screen ?u = saved_screen s n" "saved_screen ?u (curr_terminal s) = screen s"
      "\<forall>t < 3. t \<noteq> curr_terminal s \<longrightarrow> saved_screen ?u t = saved_screen s t"
      using sc sv sw ct by simp_all
  qed (use cp f in simp_all)
qed

section \<open>Typing\<close>

definition kflags :: "'a term_state_scheme \<Rightarrow> int \<times> int \<times> int \<times> int" where
  "kflags s = (ctrl_flag s, cap_flag s, alt_flag s, enter_flag s)"

text \<open>The characters typed so far on the current terminal.\<close>

definition typed :: "'a term_state_scheme \<Rightarrow> u8 list \<Rightarrow> bool" where
  "typed s cs \<longleftrightarrow> blen s = length cs \<and> take (length cs) (tbuf s) = cs"

lemma kflags_ops [simp]:
  "kflags (move_csr s) = kflags s" "kflags (scroll s) = kflags s" "kflags (clear_buffer s) = kflags s"
  "kflags (add_to_buffer c s) = kflags s" "kflags (cli s) = kflags s" "kflags (sti s) = kflags s"
  "kflags (send_eoi k s) = kflags s" "kflags (s\<lparr>csr_x := a\<rparr>) = kflags s" "kflags (s\<lparr>csr_y := a\<rparr>) = kflags s"
  "kflags (s\<lparr>line_y := a\<rparr>) = kflags s" "kflags (s\<lparr>mem := m\<rparr>) = kflags s"
  by (simp_all add: kflags_def move_csr_def scroll_def clear_buffer_def add_to_buffer_def outb_def cli_def
      sti_def send_eoi_def Let_def)

lemma kflags_new_line [simp]: "kflags (new_line b s) = kflags s"
  by (simp add: new_line_def Let_def)

lemma kflags_putch_end [simp]: "kflags (putch_end s) = kflags s"
  by (simp add: putch_end_def Let_def)

lemma kflags_putch [simp]: "kflags (putch c s) = kflags s"
  by (simp add: putch_def Let_def)

lemma buffer_putch: "c \<noteq> 10 \<Longrightarrow> terminal_buffer (putch c s) = terminal_buffer s \<and> buffer_len (putch c s) = buffer_len s"
  by (simp add: putch_def Let_def)

lemma print_buffer_loop_keeps:
  assumes "\<forall>i < blen s. tbuf s ! i \<noteq> 10"
  shows "terminal_buffer (print_buffer_loop i s) = terminal_buffer s
    \<and> buffer_len (print_buffer_loop i s) = buffer_len s \<and> kflags (print_buffer_loop i s) = kflags s
    \<and> curr_terminal (print_buffer_loop i s) = curr_terminal s"
  using assms
proof (induction i s rule: print_buffer_loop.induct)
  case (1 i s)
  show ?case
  proof (cases "i < blen s")
    case True
    then have "tbuf s ! i \<noteq> 10" using "1.prems" by blast
    note b = buffer_putch [OF this, of s]
    with "1.IH" [OF True] "1.prems" True show ?thesis
      by (subst (1 2 3 4) print_buffer_loop.simps) simp
  qed (simp add: print_buffer_loop.simps)
qed

lemma print_buffer_keeps:
  assumes "typed s cs" and "10 \<notin> set cs"
  shows "typed (print_buffer s) cs" "kflags (print_buffer s) = kflags s"
    "curr_terminal (print_buffer s) = curr_terminal s"
proof -
  let ?t = "set_cx (line_beginning s ! curr_terminal s) (set_cy (line_y s ! curr_terminal s) s)"
  have "tbuf s ! i \<noteq> 10" if "i < blen s" for i
    using assms that unfolding typed_def by (metis nth_take nth_mem)
  then have "\<forall>i < blen ?t. tbuf ?t ! i \<noteq> 10" by simp
  note k = print_buffer_loop_keeps [OF this, of 0]
  have "print_buffer s = print_buffer_loop 0 ?t" by (simp add: print_buffer_def Let_def)
  with k assms(1) show "typed (print_buffer s) cs" "kflags (print_buffer s) = kflags s"
    "curr_terminal (print_buffer s) = curr_terminal s" by (simp_all add: typed_def)
qed

lemma add_to_buffer_typed:
  assumes "term_ok s" and "typed s cs" and "length cs < 128"
  shows "typed (add_to_buffer c s) (cs @ [c])" "curr_terminal (add_to_buffer c s) = curr_terminal s"
proof -
  have t: "curr_terminal s < 3" "length (terminal_buffer s) = 3" "length (buffer_len s) = 3" "length (tbuf s) = 128"
    using assms(1) term_ok_bounds(6) [OF assms(1)] by (simp_all add: term_ok_def term_base_def)
  have b: "blen s = length cs" "take (length cs) (tbuf s) = cs" using assms(2) by (simp_all add: typed_def)
  show "typed (add_to_buffer c s) (cs @ [c])"
    using t b assms(3) by (simp add: typed_def add_to_buffer_def BUFF_LEN_def Let_def take_Suc_conv_app_nth)
  show "curr_terminal (add_to_buffer c s) = curr_terminal s" by (simp add: add_to_buffer_def Let_def)
qed

text \<open>A key that stands for a character when no modifier is held.\<close>

definition plain_key :: "u8 \<Rightarrow> bool" where
  "plain_key sc \<longleftrightarrow> unat sc < 59 \<and> 32 \<le> keys ! unat sc"

lemma length_keys [simp]: "length keys = 59" "length cap_keys = 59"
  by (simp_all add: keys_def cap_keys_def bytes_def)

lemma plain_key_not_special:
  assumes "plain_key sc"
  shows "sc \<le> 0x80" "sc \<notin> {0x0E, 0x1D, 0x38, 0x3B, 0x3C, 0x3D, 0x2A, 0x36, 0x3A}" "key_at s sc = keys ! unat sc"
    "keys ! unat sc \<noteq> 10"
proof -
  have k: "keys ! 0x0E = 0" "keys ! 0x1D = 0" "keys ! 0x38 = 0" "keys ! 0x2A = 0" "keys ! 0x36 = 0" "keys ! 0x3A = 0"
    by (code_simp+)
  show "key_at s sc = keys ! unat sc" "keys ! unat sc \<noteq> 10" using assms by (auto simp: plain_key_def key_at_def)
  show "sc \<le> 0x80" using assms by (simp add: plain_key_def word_le_nat_alt)
  show "sc \<notin> {0x0E, 0x1D, 0x38, 0x3B, 0x3C, 0x3D, 0x2A, 0x36, 0x3A}"
    using assms k by (auto simp: plain_key_def)
qed

text \<open>The keyboard controller delivers one scan code per interrupt.\<close>

definition key_press :: "u8 \<Rightarrow> 'a kbd_state_scheme \<Rightarrow> 'a kbd_state_scheme outcome" where
  "key_press sc s = keyboard_handler (s\<lparr>dev := (\<lambda>es p. if p = 0x60 then sc else dev s es p)\<rparr>)"

fun key_presses :: "u8 list \<Rightarrow> 'a kbd_state_scheme \<Rightarrow> 'a kbd_state_scheme outcome" where
  "key_presses [] s = Returns 0 s"
| "key_presses (sc # scs) s = (case key_press sc s of Returns r s \<Rightarrow> key_presses scs s | out \<Rightarrow> out)"

lemma key_presses_append:
  "key_presses (xs @ ys) s = (case key_presses xs s of Returns r s \<Rightarrow> key_presses ys s | out \<Rightarrow> out)"
  by (induction xs arbitrary: s) (simp_all split: outcome.splits)

text \<open>The state the two halves of the handler start from.\<close>

definition scanned :: "u8 \<Rightarrow> 'a kbd_state_scheme \<Rightarrow> 'a kbd_state_scheme" where
  "scanned sc s = (let s = cli (s\<lparr>dev := (\<lambda>es p. if p = 0x60 then sc else dev s es p)\<rparr>) in s\<lparr>iolog := In 0x60 sc # iolog s\<rparr>)"

lemma ucast_byte [simp]: "ucast (ucast (b :: u8) :: u32) = b"
  by (rule bit_word_eqI) (auto simp: bit_unsigned_iff dest: bit_imp_le_length)

lemma key_press_eq:
  "key_press sc s =
     (case (if sc \<le> 0x80 then key_pressed sc (scanned sc s) else Returns 0 (key_released sc (scanned sc s))) of
        Returns r s \<Rightarrow> Returns 0 (sti (send_eoi 1 s)) | out \<Rightarrow> out)"
  by (simp add: key_press_def keyboard_handler_def inb_def scanned_def Let_def cli_def)

text \<open>What the driver of the terminals sees of a state.\<close>

definition term_view :: "'a term_state_scheme \<Rightarrow> _" where
  "term_view s = (mem s, terminal_ptr s, (csr_x s, csr_y s, line_y s, line_beginning s), buffer_len s, terminal_buffer s,
     curr_terminal s, kflags s)"

lemma term_view_ports [simp]:
  "term_view (sti s) = term_view s" "term_view (send_eoi k s) = term_view s" "term_view (scanned sc s) = term_view s"
  by (simp_all add: term_view_def kflags_def sti_def send_eoi_def outb_def scanned_def cli_def Let_def)

lemma term_view_cong:
  assumes "term_view s' = term_view s"
  shows "term_ok s' = term_ok s" "typed s' cs = typed s cs" "kflags s' = kflags s" "curr_terminal s' = curr_terminal s"
    "mem s' = mem s"
  using assms by (simp_all add: term_view_def term_ok_def term_base_def typed_def)

definition typing :: "'a term_state_scheme \<Rightarrow> u8 list \<Rightarrow> bool" where
  "typing s cs \<longleftrightarrow> term_ok s \<and> typed s cs \<and> 10 \<notin> set cs \<and> ctrl_flag s = 0 \<and> cap_flag s = 0"

lemma typing_cong: "term_view s' = term_view s \<Longrightarrow> typing s' cs = typing s cs"
  using term_view_cong [of s' s] by (simp add: typing_def kflags_def)

lemma key_press_plain_eq:
  assumes "typing s cs" and "plain_key sc"
  shows "key_press sc s = Returns 0 (sti (send_eoi 1 (print_buffer (add_to_buffer (keys ! unat sc) (scanned sc s)))))"
proof -
  note p = plain_key_not_special [OF assms(2)]
  have "typing (scanned sc s) cs" using assms(1) typing_cong [of "scanned sc s" s] by simp
  then have "ctrl_flag (scanned sc s) = 0" "cap_flag (scanned sc s) = 0" by (simp_all add: typing_def)
  then show ?thesis using p(1,2,4) p(3) [of "scanned sc s"] by (simp add: key_press_eq key_pressed_def)
qed

lemma key_press_plain:
  assumes "typing s cs" and "plain_key sc" and "length cs < 128"
  shows "\<exists>s'. key_press sc s = Returns 0 s' \<and> typing s' (cs @ [keys ! unat sc]) \<and> curr_terminal s' = curr_terminal s"
proof -
  let ?s = "scanned sc s" and ?c = "keys ! unat sc"
  have p: "?c \<noteq> 10" by (rule plain_key_not_special [OF assms(2)])
  have t: "typing ?s cs" using assms(1) typing_cong [of ?s s] by simp
  then have b: "term_ok ?s" "typed ?s cs" "10 \<notin> set cs" "kflags ?s = (0, 0, alt_flag ?s, enter_flag ?s)"
    by (simp_all add: typing_def kflags_def)
  note a = add_to_buffer_typed [OF b(1,2) assms(3), of ?c]
  have "10 \<notin> set (cs @ [?c])" using b(3) p by simp
  note pr = print_buffer_keeps [OF a(1) this]
  let ?u = "print_buffer (add_to_buffer ?c ?s)"
  have "term_ok ?u" by (intro print_buffer_ok add_to_buffer_ok b(1))
  moreover have "kflags ?u = kflags ?s" using pr(2) by simp
  ultimately have "typing ?u (cs @ [?c])" using pr(1) b(3,4) p by (simp add: typing_def) (simp add: kflags_def)
  then have "typing (sti (send_eoi 1 ?u)) (cs @ [?c])" using typing_cong [of "sti (send_eoi 1 ?u)" ?u] by simp
  moreover have "curr_terminal (sti (send_eoi 1 ?u)) = curr_terminal s"
    using pr(3) a(2) term_view_cong(4) [of "sti (send_eoi 1 ?u)" ?u] term_view_cong(4) [of ?s s] by simp
  ultimately show ?thesis using key_press_plain_eq [OF assms(1,2)] by simp
qed

lemma key_presses_plain:
  assumes "typing s cs" and "list_all plain_key scs" and "length cs + length scs \<le> 128"
  shows "\<exists>s'. key_presses scs s = Returns 0 s' \<and> typing s' (cs @ map (\<lambda>sc. keys ! unat sc) scs)
    \<and> curr_terminal s' = curr_terminal s"
  using assms
proof (induction scs arbitrary: s cs)
  case (Cons sc scs)
  from key_press_plain [of s cs sc] Cons.prems obtain s1 where s1: "key_press sc s = Returns 0 s1"
    "typing s1 (cs @ [keys ! unat sc])" "curr_terminal s1 = curr_terminal s" by auto
  from Cons.IH [OF s1(2)] Cons.prems s1 show ?case by simp
qed simp

lemma key_press_enter_eq:
  "key_press 0x1C s = Returns 0 (sti (send_eoi 1 ((add_to_buffer 10 (scanned 0x1C s))\<lparr>enter_flag := 1\<rparr>)))"
proof -
  have "keys ! 28 = 10" by code_simp
  then show ?thesis by (simp add: key_press_eq key_pressed_def key_at_def)
qed

lemma key_press_enter:
  assumes "typing s cs" and "length cs < 128"
  shows "\<exists>s'. key_press 0x1C s = Returns 0 s' \<and> term_ok s' \<and> typed s' (cs @ [10]) \<and> enter_flag s' = 1
    \<and> curr_terminal s' = curr_terminal s"
proof -
  let ?s = "scanned 0x1C s"
  have t: "term_ok ?s" "typed ?s cs" using assms(1) term_view_cong [of ?s s] by (simp_all add: typing_def)
  note a = add_to_buffer_typed [OF t assms(2), of 10] add_to_buffer_ok [OF t(1), of 10]
  let ?u = "(add_to_buffer 10 ?s)\<lparr>enter_flag := 1\<rparr>"
  have u: "term_ok ?u" "typed ?u (cs @ [10])" "curr_terminal ?u = curr_terminal s" "kflags ?u = (ctrl_flag ?u, cap_flag ?u, alt_flag ?u, 1)"
    using a term_view_cong(4) [of ?s s] by (simp_all add: term_ok_def term_base_def typed_def kflags_def)
  note v = term_view_cong [of "sti (send_eoi 1 ?u)" ?u]
  have "enter_flag (sti (send_eoi 1 ?u)) = 1" using v(3) u(4) by (simp add: kflags_def)
  then show ?thesis using u v by (simp add: key_press_enter_eq)
qed

lemma typed_input_line:
  assumes "list_all plain_key scs" and "typed s (map (\<lambda>sc. keys ! unat sc) scs @ [10])"
  shows "input_line (tbuf s) = map (\<lambda>sc. keys ! unat sc) scs"
proof -
  let ?line = "map (\<lambda>sc. keys ! unat sc) scs"
  have plain: "c \<noteq> 0 \<and> c \<noteq> 10" if "c \<in> set ?line" for c using that assms(1) by (auto simp: plain_key_def list_all_iff)
  have "tbuf s = (?line @ [10]) @ drop (length ?line + 1) (tbuf s)"
    using assms(2) append_take_drop_id [of "length ?line + 1" "tbuf s"] by (simp add: typed_def)
  then have "input_line (tbuf s) = input_line (?line @ 10 # drop (length ?line + 1) (tbuf s))" by simp
  also have "\<dots> = ?line" unfolding input_line_def using plain by (subst takeWhile_append2) simp_all
  finally show ?thesis .
qed

section \<open>Properties\<close>

text \<open>
  C10: a line typed on the keyboard is the line a program reads: the interrupts of the keys of
  up to 127 plain characters and of enter leave a terminal from which terminal\_read delivers
  exactly those characters (at most as many as asked for) and a newline.
\<close>

theorem typed_line_is_read:
  assumes "typing s []" and "list_all plain_key scs" and "length scs \<le> 127"
    and "line = map (\<lambda>sc. keys ! unat sc) scs" and "n = min (nat count) (length line)"
    and "\<forall>i \<le> n. 4000 \<le> unat (buf + of_nat i - VIDEO_MEM)"
  shows "\<exists>s' s''. key_presses (scs @ [0x1C]) s = Returns 0 s' \<and> terminal_read fd buf count s' = Some (of_nat (n + 1), s'')
    \<and> load_bytes (mem s'') buf (n + 1) = take n line @ [10] \<and> typed s'' [] \<and> enter_flag s'' = 0 \<and> term_ok s''"
proof -
  obtain s1 where s1: "key_presses scs s = Returns 0 s1" "typing s1 line"
    using key_presses_plain [OF assms(1,2)] assms(3,4) by auto
  obtain s' where s': "key_press 0x1C s1 = Returns 0 s'" "term_ok s'" "typed s' (line @ [10])" "enter_flag s' = 1"
    using key_press_enter [OF s1(2)] assms(3,4) by auto
  have keys: "key_presses (scs @ [0x1C]) s = Returns 0 s'" using s1 s' by (simp add: key_presses_append)
  have "line = input_line (tbuf s')" using typed_input_line [OF assms(2) s'(3) [unfolded assms(4)]] assms(4) by simp
  from terminal_read_run [OF s'(2) this assms(5,6), of fd] s'(4) keys show ?thesis
    by (fastforce simp: typed_def)
qed

text \<open>
  C22: switching to another terminal with a running process and back is the identity on what
  the user and the process see: the screens, shown and saved, the current process, its page
  directory, its kernel stack and the process table are the ones from before.
\<close>

theorem switch_roundtrip:
  assumes "runs s st" and "pages_ok s" and "n < 3" and "n \<noteq> curr_terminal s"
    and "st ! n = p # ps" and "st ! curr_terminal s = q # qs"
  shows "\<exists>s' s''. switch_terminal n s = Returns 0 s' \<and> switch_terminal (curr_terminal s) s' = Returns 0 s''
    \<and> screen s' = saved_screen s n \<and> current_pcb s' = Some p \<and> cr3 s' = p - 1
    \<and> screen s'' = screen s \<and> (\<forall>t < 3. t \<noteq> curr_terminal s \<longrightarrow> saved_screen s'' t = saved_screen s t)
    \<and> curr_terminal s'' = curr_terminal s \<and> current_pcb s'' = current_pcb s \<and> pcbs s'' = pcbs s
    \<and> cr3 s'' = q - 1 \<and> tss_esp0 s'' = address (pcbs s ! q) \<and> runs s'' st"
proof -
  obtain s' where 1: "switch_terminal n s = Returns 0 s'" "runs s' st" "pages_ok s'" "curr_terminal s' = n"
    "screen s' = saved_screen s n" "saved_screen s' (curr_terminal s) = screen s"
    "\<forall>t < 3. t \<noteq> curr_terminal s \<longrightarrow> saved_screen s' t = saved_screen s t"
    "current_pcb s' = Some p" "cr3 s' = p - 1" "pcbs s' = pcbs s"
    by (rule switch_to_process [OF assms(1-5)])
  have c: "curr_terminal s < 3" "curr_terminal s \<noteq> curr_terminal s'" using runsD(2) [OF assms(1)] assms(4) 1(4) by auto
  obtain s'' where 2: "switch_terminal (curr_terminal s) s' = Returns 0 s''" "runs s'' st"
    "curr_terminal s'' = curr_terminal s" "screen s'' = saved_screen s' (curr_terminal s)"
    "saved_screen s'' (curr_terminal s') = screen s'"
    "\<forall>t < 3. t \<noteq> curr_terminal s' \<longrightarrow> saved_screen s'' t = saved_screen s' t"
    "current_pcb s'' = Some q" "cr3 s'' = q - 1" "tss_esp0 s'' = address (pcbs s' ! q)" "pcbs s'' = pcbs s'"
    by (rule switch_to_process [OF 1(2,3) c assms(6)])
  have "saved_screen s'' t = saved_screen s t" if "t < 3" "t \<noteq> curr_terminal s" for t
    using that 1(4,5,7) 2(5,6) by (cases "t = n") auto
  with 1 2 runs_current(2) [OF assms(1,6)] show ?thesis by (intro exI [of _ s'] exI [of _ s'']) simp
qed

text \<open>The states of the witnesses: a process on each of the first two terminals.\<close>

definition kbd_state0 :: kbd_state where
  "kbd_state0 = sys_state.extend proc_state1 (kbd_state.fields (\<lambda>_. 0) (\<lambda>_. 0) 0 None)"

definition kbd_state2 :: kbd_state where
  "kbd_state2 = kbd_state0\<lparr>terminal_info := [\<lparr>top_process_id = 1, num_process = 1\<rparr>,
     \<lparr>top_process_id = 2, num_process = 1\<rparr>, \<lparr>top_process_id = 0, num_process = 0\<rparr>], process_number := 2,
     pcbs := (pcbs fs_state0)[2 := (pcbs fs_state0 ! 1)\<lparr>program_id := 2, parent_id := 0, address := 0x7FE000\<rparr>]\<rparr>"

lemma kbd_state0_kern: "kern kbd_state0 = kern proc_state1" "term_view kbd_state0 = term_view proc_state1"
  by (simp_all add: kbd_state0_def kern_def term_view_def kflags_def sys_state.defs kbd_state.defs)

lemma proc_state1_view: "term_view proc_state1 = term_view (fs_state0\<lparr>mem := image1\<rparr>)"
  by (simp add: proc_state1_def sys_state1_def sys_state0_def page_state0_def page_state.defs sys_state.defs fs_state.defs
      term_view_def kflags_def)

lemma kbd_state0_typing: "typing kbd_state0 []"
proof -
  have "typing (fs_state0\<lparr>mem := image1\<rparr>) []"
    by (simp add: fs_state0_def typing_def typed_def term_ok_def term_base_def list_all_iff)
  then show ?thesis using typing_cong kbd_state0_kern(2) proc_state1_view by metis
qed

lemma kbd_state0_pages: "pages_ok kbd_state0"
  by (simp add: kbd_state0_def proc_state1_def sys_state1_def sys_state0_def page_state0_def page_state.defs
      sys_state.defs fs_state.defs kbd_state.defs pages_ok_def term_consts) (simp add: fs_state0_def term_consts)

lemma kbd_state2_runs: "runs kbd_state2 [[1], [2], []]"
proof (rule runsI)
  fix i :: nat assume "i < 7"
  then show "program_id (pcbs kbd_state2 ! i) = (if i \<in> set (concat [[1], [2], []]) then of_nat i else 0)"
    by (cases "i = 2") (simp_all add: kbd_state2_def fs_state0_ids fs_state0_pcbs(3))
next
  have "current_pcb kbd_state0 = Some 1" "curr_terminal kbd_state0 = 0"
    using kern_eqD(2,5) [OF kbd_state0_kern(1)] by (simp_all add: proc_state1_def sys_state1_def)
  then show "current_pcb kbd_state2 = Some (topmost ([[1], [2], []] ! curr_terminal kbd_state2))" "curr_terminal kbd_state2 < 3"
    by (simp_all add: kbd_state2_def)
qed (auto simp: kbd_state2_def fs_state0_pcbs less_3_cases)

theorem typed_line_is_read_witness:
  "\<exists>s' s''. key_presses [0x26, 0x1F, 0x1C] kbd_state0 = Returns 0 s' \<and> terminal_read 0 0x8048000 128 s' = Some (3, s'')
    \<and> load_bytes (mem s'') 0x8048000 3 = [108, 115, 10]"
proof -
  have k: "keys ! 0x26 = 108" "keys ! 0x1F = 115" by code_simp+
  have b: "\<forall>i \<le> 2. 4000 \<le> unat (0x8048000 + of_nat i - VIDEO_MEM)"
    using user_buffer_off_screen by simp
  have "list_all plain_key [0x26, 0x1F]" "[108, 115] = map (\<lambda>sc. keys ! unat sc) [0x26, 0x1F :: u8]"
    "2 = min (nat 128) (length [108, 115 :: u8])" using k by (simp_all add: plain_key_def)
  from typed_line_is_read [OF kbd_state0_typing this(1) _ this(2,3) b, of 0]
  obtain s' s'' where "key_presses ([0x26, 0x1F] @ [0x1C]) kbd_state0 = Returns 0 s'"
    "terminal_read 0 0x8048000 128 s' = Some (of_nat (2 + 1), s'')"
    "load_bytes (mem s'') 0x8048000 (2 + 1) = take 2 [108, 115] @ [10]" by auto
  then show ?thesis by (intro exI [of _ s'] exI [of _ s'']) simp
qed

theorem switch_roundtrip_witness:
  "\<exists>s' s''. switch_terminal 1 kbd_state2 = Returns 0 s' \<and> current_pcb s' = Some 2
    \<and> switch_terminal 0 s' = Returns 0 s'' \<and> screen s'' = screen kbd_state2 \<and> current_pcb s'' = Some 1"
proof -
  have p: "pages_ok kbd_state2" using kbd_state0_pages by (simp add: kbd_state2_def pages_ok_def)
  have t: "curr_terminal kbd_state2 = 0" "current_pcb kbd_state2 = Some 1"
    using kern_eqD(2,5) [OF kbd_state0_kern(1)] by (simp_all add: kbd_state2_def proc_state1_def sys_state1_def)
  show ?thesis
    using switch_roundtrip [OF kbd_state2_runs p, of 1 2 "[]" 1 "[]"] t by auto
qed

end
