(* ===== verification/Kud_Kernel.thy ===== *)
theory Kud_Kernel
  imports Kud_Keyboard
begin

unbundle bit_operations_syntax

text \<open>
  The kernel as a whole: a machine that is entered by system calls and by the interrupts of
  the keyboard, the timer and the real-time clock. Every entry is one of the handlers of the
  other theories, run to its end; between two entries the kernel is in a state that a run of
  any length keeps well formed.
\<close>

section \<open>Entries\<close>

datatype kernel_event = Call nat u32 u32 u32 u32 | Key u8 | Timer | Clock

primrec handle :: "kernel_event \<Rightarrow> 'a kbd_state_scheme \<Rightarrow> 'a kbd_state_scheme outcome" where
  "handle (Call irqs eax ebx ecx edx) s = syscall_handler irqs eax ebx ecx edx s"
| "handle (Key sc) s = key_press sc s"
| "handle Timer s = Returns 0 (pit_handler s)"
| "handle Clock s = Returns 0 (rtc_handler s)"

text \<open>
  The step relation: an event is handled and the machine goes on in the state the handler
  leaves, in the caller, in the program entered, in the parent resumed, or waiting. That some
  byte of memory is zero is what ends a directory read.
\<close>

inductive kernel_step :: "'a kbd_state_scheme \<Rightarrow> 'a kbd_state_scheme \<Rightarrow> bool" where
  returns: "live s \<Longrightarrow> handle e s = Returns r s' \<Longrightarrow> kernel_step s s'"
| enters: "live s \<Longrightarrow> handle e s = Enters entry s' \<Longrightarrow> kernel_step s s'"
| resumes: "live s \<Longrightarrow> handle e s = Resumes s' \<Longrightarrow> kernel_step s s'"
| waits: "live s \<Longrightarrow> handle e s = Waits s' \<Longrightarrow> kernel_step s s'"

inductive_cases kernel_stepE: "kernel_step s s'"

primrec settled :: "('s \<Rightarrow> bool) \<Rightarrow> 's outcome \<Rightarrow> bool" where
  "settled P (Returns r s) = P s"
| "settled P (Enters e s) = P s"
| "settled P (Resumes s) = P s"
| "settled P (Waits s) = P s"
| "settled P Faults = True"

lemma settled_mono: "settled P out \<Longrightarrow> (\<And>s. P s \<Longrightarrow> Q s) \<Longrightarrow> settled Q out"
  by (cases out) simp_all

lemma good_settled: "good P out \<Longrightarrow> settled P out"
  by (cases out) simp_all

section \<open>The contract of an entry\<close>

definition kernel_ok :: "'a pcb_state_scheme \<Rightarrow> bool" where
  "kernel_ok s \<longleftrightarrow> (\<exists>st. runs s st) \<and> fds_ok s \<and> current_pcb s \<noteq> None"

lemma kernel_okI: "runs s st \<Longrightarrow> fds_ok s \<Longrightarrow> current_pcb s \<noteq> None \<Longrightarrow> kernel_ok s"
  by (auto simp: kernel_ok_def)

lemma kernel_ok_kern: "kern s' = kern s \<Longrightarrow> kernel_ok s' = kernel_ok s"
  using runs_kern [of s' s] fds_ok_kern [of s' s] kern_eqD(2) [of s' s] by (simp add: kernel_ok_def)

lemma kernel_ok_files: "kernel_ok s \<Longrightarrow> files_ok s"
  by (auto simp: kernel_ok_def intro: files_ok_runs)

lemma files_kernel_ok:
  assumes "kernel_ok s" and "files_ok s'" and "procs s' = procs s"
  shows "kernel_ok s'"
  using assms(1) runs_cong [OF assms(3)] fds_ok_files [OF assms(2)] assms(3)
  by (auto simp: kernel_ok_def procs_def)

locale kernel_entry =
  fixes entry :: "'i \<Rightarrow> 'a kbd_state_scheme \<Rightarrow> 'a kbd_state_scheme outcome"
  assumes entry_settled: "kernel_ok s \<Longrightarrow> live s \<Longrightarrow> settled kernel_ok (entry i s)"
begin

lemma entry_keeps:
  "kernel_ok s \<Longrightarrow> live s \<Longrightarrow> entry i s \<in> {Returns r s', Enters r s', Resumes s', Waits s'} \<Longrightarrow> kernel_ok s'"
  using entry_settled [of s i] by auto

end

section \<open>Every entry meets the contract\<close>

lemma request_faults: "fd_flags s fd = None \<Longrightarrow> sys_read irqs fd buf n s = Faults"
  "fd_flags s fd = None \<Longrightarrow> sys_write fd buf n s = Faults" "fd_flags s fd = None \<Longrightarrow> sys_close fd s = Faults"
  by (simp_all add: sys_read_def sys_write_def sys_close_def)

lemma file_request_settled:
  assumes "kernel_ok s" and "live s"
  shows "settled kernel_ok (file_request_call q s)"
proof (cases "request_pre q s")
  case True
  from fcall.call_good [OF kernel_ok_files [OF assms(1)] True]
  have "settled (\<lambda>s'. files_ok s' \<and> procs s' = procs s) (file_request_call q s)" by (rule good_settled)
  then show ?thesis by (rule settled_mono) (use files_kernel_ok [OF assms(1)] in blast)
next
  case False
  then have "file_request_call q s = Faults" using assms(2) by (cases q) (auto simp: request_faults)
  then show ?thesis by simp
qed

lemma execute_settled:
  assumes "kernel_ok s"
  shows "settled kernel_ok (execute command s)"
proof -
  obtain st where st: "runs s st" "fds_ok s" "current_pcb s \<noteq> None" using assms by (auto simp: kernel_ok_def)
  show ?thesis
  proof (cases rule: execute_cases [OF st(1,2), of command])
    case (1 r s')
    then show ?thesis using st(3) by (auto intro: kernel_okI)
  next
    case (2 i e s')
    have "push (curr_terminal s) i st ! curr_terminal s' = i # st ! curr_terminal s"
      using 2(7) runsD(1,2) [OF st(1)] by (simp add: push_def)
    with 2 runs_current(2) [OF 2(5)] show ?thesis by (auto intro: kernel_okI)
  qed simp
qed

text \<open>halt called where no process runs on the shown terminal: there is no parent to resume.\<close>

lemma halt_last_stranded:
  assumes "runs s st" and "fds_ok s" and "st ! curr_terminal s = []" and "current_pcb s = Some 0"
  shows "halt_last s = Faults"
proof -
  define s0 where "s0 = s\<lparr>reg_esp := esp (pcbs s ! 0), reg_ebp := ebp (pcbs s ! 0)\<rparr>"
  have k0: "kern s0 = kern s" by (simp add: s0_def kern_def)
  have s0: "runs s0 st" "fds_ok s0" "current_pcb s0 = Some 0"
    using assms runs_kern [OF k0] fds_ok_kern [OF k0] kern_eqD(2) [OF k0] by simp_all
  have "files_ok s0" using files_ok_runs [OF s0(1,2)] s0(3) by simp
  moreover have "\<forall>fd \<in> set [0..<FD_MAX_IDX + 1]. fd < 8" "distinct [0..<FD_MAX_IDX + 1]"
    by (auto simp: FD_MAX_IDX_def)
  ultimately obtain s1 where s1: "close_all [0..<FD_MAX_IDX + 1] s0 = Some s1" "procs s1 = procs s0"
    using close_all_ok by metis
  have r1: "runs s1 st" and c1: "current_pcb s1 = Some 0"
    using runs_cong [OF s1(2)] s0(1,3) s1(2) by (simp_all add: procs_def)
  have "0 < length (pcbs s1)" using runsD(4) [OF r1] by simp
  note e = pcb_destroy_effect [OF this]
  have "program_id (pcbs (snd (pcb_destroy 0 s1)) ! cur (snd (pcb_destroy 0 s1))) = 0"
    using e(1,7) runsD(12) [OF r1] by simp
  then show ?thesis
    using s1(1) c1 assms(4) by (simp add: halt_last_def Let_def s0_def [symmetric])
qed

lemma halt_settled:
  assumes "kernel_ok s"
  shows "settled kernel_ok (halt status s)"
proof -
  obtain st where st: "runs s st" "fds_ok s" "current_pcb s \<noteq> None" using assms by (auto simp: kernel_ok_def)
  note ht = halt_test [OF st(1)]
  show ?thesis
  proof (cases "st ! curr_terminal s")
    case Nil
    then have "current_pcb s = Some 0" using runs_current(1) [OF st(1)] st(3) by blast
    then show ?thesis using halt_last_stranded [OF st(1,2) Nil] ht Nil by (simp add: halt_def)
  next
    case (Cons p ps)
    note c = this
    show ?thesis
    proof (cases ps)
      case Nil
      obtain s1 where s1: "close_all [0..<FD_MAX_IDX + 1] s = Some s1" "cur s1 = p"
        "runs (snd (pcb_destroy p s1)) (pop (curr_terminal s) st)" "fds_ok (snd (pcb_destroy p s1))"
        "current_pcb (snd (pcb_destroy p s1)) = Some (topmost ps)"
        "curr_terminal (snd (pcb_destroy p s1)) = curr_terminal s"
        using close_and_destroy [OF st(1,2) c] by metis
      let ?d = "snd (pcb_destroy p s1)"
      have d: "kernel_ok ?d" using s1(3-5) by (intro kernel_okI) simp_all
      have h: "halt status s = (case execute (shell_at ?d) ?d of Returns r s \<Rightarrow> halt_last s | out \<Rightarrow> out)"
        using ht c Nil s1(1,2) by (simp add: halt_def Let_def)
      have empty: "pop (curr_terminal s) st ! curr_terminal s = []"
        using c Nil runsD(1,2) [OF st(1)] by (simp add: pop_def)
      show ?thesis
      proof (cases rule: execute_cases [OF s1(3,4), of "shell_at ?d"])
        case (1 r s')
        have "st' ! curr_terminal s' = [] \<Longrightarrow> runs s' st' \<Longrightarrow> current_pcb s' = Some 0" for st'
          using runs_current(1) [of s' st'] 1(5) s1(5) by auto
        then have "halt_last s' = Faults" using halt_last_stranded [OF 1(2,3)] 1(2,4) empty s1(6) by simp
        with h 1(1) show ?thesis by simp
      next
        case (2 i e s')
        with h execute_settled [OF d, of "shell_at ?d"] show ?thesis by simp
      next
        case (3 i)
        with h show ?thesis by simp
      qed
    next
      case (Cons q qs)
      with c have st': "st ! curr_terminal s = p # q # qs" by simp
      obtain s' where "halt_last s = Resumes s'" "runs s' (pop (curr_terminal s) st)" "fds_ok s'" "current_pcb s' = Some q"
        using halt_last_resumes [OF st(1,2) st'] by metis
      then show ?thesis using ht st' by (auto simp: halt_def intro: kernel_okI)
    qed
  qed
qed

lemma kern_print_buffer_loop: "kern (print_buffer_loop i s) = kern s"
proof (induction i s rule: print_buffer_loop.induct)
  case (1 i s)
  then show ?case by (cases "i < blen s") (simp_all add: print_buffer_loop.simps [of i s])
qed

lemma kern_print_buffer [kern_simps, simp]: "kern (print_buffer s) = kern s"
  by (simp add: print_buffer_def Let_def kern_print_buffer_loop)

lemma kern_keys [kern_simps, simp]:
  "kern (backspace s) = kern s" "kern (clear_screen s) = kern s" "kern (scanned sc s) = kern s"
  "kern (key_released sc s) = kern s" "kern (s\<lparr>ctrl_flag := v\<rparr>) = kern s" "kern (s\<lparr>alt_flag := v\<rparr>) = kern s"
  "kern (s\<lparr>cap_flag := v\<rparr>) = kern s"
proof -
  show "kern (scanned sc s) = kern s" by (simp add: scanned_def Let_def kern_def cli_def)
  show f: "kern (s\<lparr>ctrl_flag := v\<rparr>) = kern s" "kern (s\<lparr>alt_flag := v\<rparr>) = kern s" "kern (s\<lparr>cap_flag := v\<rparr>) = kern s"
    by (simp_all add: kern_def)
  show "kern (key_released sc s) = kern s" by (simp add: key_released_def kern_def)
  show "kern (backspace s) = kern s" by (simp add: backspace_def Let_def)
  show "kern (clear_screen s) = kern s" by (simp add: clear_screen_def Let_def)
qed

lemma kernel_ok_mem [simp]: "kernel_ok (s\<lparr>mem := m\<rparr>) = kernel_ok s"
  by (rule kernel_ok_kern) simp

lemma kernel_ok_ops [simp]:
  "kernel_ok (send_eoi k s) = kernel_ok s" "kernel_ok (sti s) = kernel_ok s" "kernel_ok (rtc_handler s) = kernel_ok s"
  "kernel_ok (add_to_buffer c s) = kernel_ok s" "kernel_ok (print_buffer s) = kernel_ok s"
  "kernel_ok (backspace s) = kernel_ok s" "kernel_ok (clear_screen s) = kernel_ok s"
  "kernel_ok (scanned sc s) = kernel_ok s" "kernel_ok (key_released sc s) = kernel_ok s"
  "kernel_ok (s\<lparr>enter_flag := v\<rparr>) = kernel_ok s"
  "kernel_ok (s\<lparr>ctrl_flag := v\<rparr>) = kernel_ok s" "kernel_ok (s\<lparr>alt_flag := v\<rparr>) = kernel_ok s"
  "kernel_ok (s\<lparr>cap_flag := v\<rparr>) = kernel_ok s"
  by (rule kernel_ok_kern, simp)+

lemma switch_settled:
  assumes "kernel_ok s" and "n < 3"
  shows "settled kernel_ok (switch_terminal n s)"
proof (cases "n = curr_terminal s")
  case False
  obtain st where st: "runs s st" "fds_ok s" using assms by (auto simp: kernel_ok_def)
  have sw: "kernel_ok (switched n s)"
    using switched_runs [OF st(1) assms(2)] st(2) by (intro kernel_okI) (simp_all add: switched_fds, simp add: switched_def)
  show ?thesis
  proof (cases "st ! n")
    case Nil
    then show ?thesis
      using execute_settled [OF sw, of "shell_at s"] unfolding switch_unfold [OF st(1) assms(2) False]
      by (cases "execute (shell_at s) (switched n s)") simp_all
  next
    case (Cons p ps)
    let ?u = "(loadPageDirectory (p - 1) (switched n s))\<lparr>tss_esp0 := address (pcbs s ! p)\<rparr>"
    have "kern ?u = kern (switched n s)" by (simp add: kern_def loadPageDirectory_def Let_def)
    then show ?thesis unfolding switch_unfold [OF st(1) assms(2) False] using Cons sw kernel_ok_kern [of ?u "switched n s"] by simp
  qed
qed (use assms(1) in \<open>simp add: switch_terminal_def\<close>)

lemma key_pressed_settled:
  assumes "kernel_ok s"
  shows "settled kernel_ok (key_pressed sc s)"
proof -
  have h: "settled kernel_ok (halt 0 (send_eoi 1 s))" by (rule halt_settled) (simp add: assms)
  have sw: "settled kernel_ok (switch_terminal 0 s)" "settled kernel_ok (switch_terminal 1 s)"
    "settled kernel_ok (switch_terminal 2 s)" by (rule switch_settled [OF assms], simp)+
  show ?thesis unfolding key_pressed_def by (simp add: assms h sw del: One_nat_def)
qed

lemma key_press_settled:
  assumes "kernel_ok s"
  shows "settled kernel_ok (key_press sc s)"
proof -
  define out where "out = (if sc \<le> 0x80 then key_pressed sc (scanned sc s) else Returns 0 (key_released sc (scanned sc s)))"
  have "settled kernel_ok out" using key_pressed_settled [of "scanned sc s" sc] assms by (simp add: out_def)
  then show ?thesis unfolding key_press_eq out_def [symmetric] by (cases out) simp_all
qed

lemma call_settled:
  assumes "kernel_ok s" and "live s"
  shows "settled kernel_ok (syscall_handler irqs eax ebx ecx edx s)"
proof -
  note f = file_request_settled [OF assms]
  have g: "settled kernel_ok (getargs b n s)" for b n
    using assms(1) by (simp add: getargs_def Let_def)
  have "kernel_ok s'" if "create_vidmap s = Some (r, s')" for r s'
    using that assms(1) kernel_ok_kern [of s' s]
    by (auto simp: create_vidmap_def Let_def upd_pd_def kern_def split: if_splits)
  then have v: "settled kernel_ok (vidmap b s)" for b
    using assms(1) by (auto simp: vidmap_def split: option.split)
  show ?thesis
    using f [of "Read irqs (sint ebx) ecx (sint edx)"] f [of "Write (sint ebx) ecx (sint edx)"] f [of "Open ebx"]
      f [of "Close (sint ebx)"] g v halt_settled [OF assms(1)] execute_settled [OF assms(1)] assms(1)
    unfolding syscall_handler_def by (simp split: if_split)
qed

interpretation kernel: kernel_entry handle
proof
  fix s :: "'a kbd_state_scheme" and i
  assume s: "kernel_ok s" "live s"
  show "settled kernel_ok (handle i s)"
    using call_settled [OF s] key_press_settled [OF s(1)] s(1) by (cases i) (simp_all add: pit_handler_def)
qed

lemma kernel_step_ok: "kernel_step s s' \<Longrightarrow> kernel_ok s \<Longrightarrow> kernel_ok s'"
  by (induction rule: kernel_step.induct) (blast intro: kernel.entry_keeps)+

interpretation kernel_run: invariant_system kernel_ok kernel_step kernel_ok
  by unfold_locales (auto intro: kernel_step_ok)

text \<open>
  The dispatcher answers call numbers outside 1 to 10 with -1 and does nothing; the numbers 9
  and 10 pass its test although the table it jumps through has eight entries.
\<close>

lemma dispatcher_guards:
  "sint eax \<le> 0 \<or> 10 < eax \<Longrightarrow> syscall_handler irqs eax ebx ecx edx s = Returns minus_one s"
  "eax = 9 \<or> eax = 10 \<Longrightarrow> syscall_handler irqs eax ebx ecx edx s = Faults"
  by (auto simp: syscall_handler_def)

section \<open>Properties\<close>


text \<open>
  C39: when six processes run and the user switches to a terminal without one, no shell can be
  started: the switch still reports success and leaves the interrupted program running with
  the unused block 0 as the current process, so that its next halt has no parent to return to.
\<close>

theorem switch_strands_process:
  assumes "runs s st" and "fds_ok s" and "length (concat st) = 6" and "n < 3" and "n \<noteq> curr_terminal s"
    and "st ! n = []"
  shows "\<exists>s'. switch_terminal n s = Returns 0 s' \<and> runs s' st \<and> curr_terminal s' = n \<and> current_pcb s' = Some 0
    \<and> halt status s' = Faults"
proof -
  let ?w = "cli (send_eoi 1 (switched n s))"
  let ?u = "kprint (''you can'' @ [CHR 0x27] @ ''t run any more processes!'' @ [CHR 0x0A]) ?w"
  have k: "kern ?u = kern (switched n s)" by simp
  have r: "runs ?u st" "fds_ok ?u" and c: "curr_terminal ?u = n"
    using runs_kern [OF k] fds_ok_kern [OF k] kern_eqD(5) [OF k] switched_runs [OF assms(1,4)] assms(2)
    by (simp_all add: switched_fds switched_fields)
  have p: "current_pcb ?u = Some 0"
    using kern_eqD(2) [OF k] topmost_info(1) [OF assms(1,4)] assms(6) by (simp add: switched_def)
  have "kern ?w = kern (switched n s)" by simp
  then have "runs ?w st" using runs_kern [of ?w "switched n s"] switched_runs [OF assms(1,4)] by simp
  then have "execute (shell_at s) (switched n s) = Returns 0 ?u"
    using process_limit [of ?w st] assms(3) by (simp add: execute_def Let_def)
  then have sw: "switch_terminal n s = Returns 0 ?u" using switch_unfold [OF assms(1,4,5)] assms(6) by simp
  have e: "st ! curr_terminal ?u = []" using c assms(6) by simp
  have "halt status ?u = Faults"
    using halt_test [OF r(1)] halt_last_stranded [OF r e p] e by (simp add: halt_def)
  with sw r c p show ?thesis by blast
qed

lemma kbd_state0_facts: "runs kbd_state0 [[1], [], []]" "fds_ok kbd_state0" "current_pcb kbd_state0 = Some 1" "live kbd_state0"
proof -
  show "runs kbd_state0 [[1], [], []]" "fds_ok kbd_state0"
    using proc_state1_runs proc_states_fds(1) runs_kern [OF kbd_state0_kern(1)] fds_ok_kern [OF kbd_state0_kern(1)] by simp_all
  show "current_pcb kbd_state0 = Some 1"
    using kern_eqD(2) [OF kbd_state0_kern(1)] by (simp add: proc_state1_def sys_state1_def)
  have "mem kbd_state0 = image1"
    using term_view_cong(5) [OF kbd_state0_kern(2)] by (simp add: proc_state1_def sys_state1_def)
  moreover have "image1 0 = 0" by (simp add: image1_def image0_def)
  ultimately show "live kbd_state0" by (auto simp: live_def)
qed


text \<open>Six processes on the first terminal.\<close>

definition kbd_state6 :: kbd_state where
  "kbd_state6 = kbd_state0\<lparr>terminal_info := [\<lparr>top_process_id = 6, num_process = 6\<rparr>,
     \<lparr>top_process_id = 0, num_process = 0\<rparr>, \<lparr>top_process_id = 0, num_process = 0\<rparr>], process_number := 6,
     current_pcb := Some 6,
     pcbs := map (\<lambda>i. (pcbs fs_state0 ! 1)\<lparr>program_id := of_nat i, parent_id := of_nat (i - 1)\<rparr>) [0..<7]\<rparr>"

lemma kbd_state6_facts: "runs kbd_state6 [[6, 5, 4, 3, 2, 1], [], []]" "fds_ok kbd_state6" "curr_terminal kbd_state6 = 0"
proof -
  show c: "curr_terminal kbd_state6 = 0"
    using kern_eqD(5) [OF kbd_state0_kern(1)] by (simp add: kbd_state6_def proc_state1_def sys_state1_def)
  have p: "pcbs kbd_state6 ! i = (pcbs fs_state0 ! 1)\<lparr>program_id := of_nat i, parent_id := of_nat (i - 1)\<rparr>" if "i < 7" for i
    using that by (simp add: kbd_state6_def del: upt_Suc)
  show "runs kbd_state6 [[6, 5, 4, 3, 2, 1], [], []]"
  proof (rule runsI)
    show "program_id (pcbs kbd_state6 ! i) = (if i \<in> set (concat [[6, 5, 4, 3, 2, 1], [], []]) then of_nat i else 0)" if "i < 7" for i
      using that p [OF that] by (auto simp: less_7_cases)
    show "linked (\<lambda>i. parent_id (pcbs kbd_state6 ! i)) ([[6, 5, 4, 3, 2, 1], [], []] ! t)" if "t < 3" for t
      using that by (auto simp: less_3_cases p)
    show "parent_id (pcbs kbd_state6 ! 0) = 0" by (simp add: p)
    show "length (pcbs kbd_state6) = 7" by (simp add: kbd_state6_def)
  qed (use c in \<open>auto simp: kbd_state6_def less_3_cases\<close>)
  have "table_ok (file_array (pcbs fs_state0 ! 1))"
    using sys_state0_ok fs_state0_pcbs(3) nth_mem [of 1 "pcbs fs_state0"] by (simp add: files_ok_def)
  moreover have "ops_ready kbd_state6" using kbd_state0_facts(2) by (simp add: kbd_state6_def fds_ok_def ops_ready_def)
  ultimately show "fds_ok kbd_state6" using p by (simp add: fds_ok_def) (simp add: kbd_state6_def)
qed

theorem switch_strands_process_witness:
  "\<exists>s'. switch_terminal 1 kbd_state6 = Returns 0 s' \<and> current_pcb s' = Some 0 \<and> halt 0 s' = Faults"
  using switch_strands_process [OF kbd_state6_facts(1,2), of 1 0] kbd_state6_facts(3) by auto

end
