(* ===== verification/Kud_Idt.thy ===== *)
theory Kud_Idt
  imports Kud_Kernel
begin

unbundle bit_operations_syntax

text \<open>
  The interrupt descriptor table and the exception handlers, \<^verbatim>\<open>student-distrib/idt.c\<close>, and
  the descriptor formats of \<^verbatim>\<open>x86_desc.h\<close>. Bit fields of one bit are truth values, wider ones
  words of their width. The addresses of the handlers are the linker's choice: a function of
  the state.
\<close>

section \<open>Descriptors\<close>

record idt_desc_t =
  offset_15_00 :: u16
  seg_selector :: u16
  reserved4 :: u8
  reserved3 :: bool
  reserved2 :: bool
  reserved1 :: bool
  gate_size :: bool
  reserved0 :: bool
  gate_dpl :: "2 word"
  present :: bool
  offset_31_16 :: u16

record seg_desc_t =
  seg_lim_15_00 :: u16
  base_15_00 :: u16
  base_23_16 :: u8
  seg_type :: "4 word"
  seg_sys :: bool
  seg_dpl :: "2 word"
  seg_present :: bool
  seg_lim_19_16 :: "4 word"
  avail :: bool
  reserved :: bool
  opsize :: bool
  granularity :: bool
  base_31_24 :: u8

definition SET_IDT_ENTRY :: "idt_desc_t \<Rightarrow> u32 \<Rightarrow> idt_desc_t" where
  "SET_IDT_ENTRY d h = d\<lparr>offset_31_16 := ucast (drop_bit 16 (h AND 0xFFFF0000)), offset_15_00 := ucast (h AND 0xFFFF)\<rparr>"

text \<open>SET\_LDT\_PARAMS and SET\_TSS\_PARAMS have the same text.\<close>

definition SET_SEG_PARAMS :: "seg_desc_t \<Rightarrow> u32 \<Rightarrow> u32 \<Rightarrow> seg_desc_t" where
  "SET_SEG_PARAMS d a lim = d\<lparr>base_31_24 := ucast (drop_bit 24 (a AND 0xFF000000)),
     base_23_16 := ucast (drop_bit 16 (a AND 0x00FF0000)), base_15_00 := ucast (a AND 0x0000FFFF),
     seg_lim_19_16 := ucast (drop_bit 16 (lim AND 0x000F0000)), seg_lim_15_00 := ucast (lim AND 0x0000FFFF)\<rparr>"

section \<open>The table\<close>

datatype handler = Exception nat | Keyboard_wrapper | Rtc_handler | Scheduler_wrapper | Syscall_handler

text \<open>
  \<open>idt_set_junk\<close> is what the uninitialised local descriptor holds on entry; the descriptors of
  the task state segment and the local table in the global table, their places and sizes.
\<close>

record idt_state = kbd_state +
  idt :: "idt_desc_t list"
  handler_at :: "handler \<Rightarrow> u32"
  idt_set_junk :: idt_desc_t
  seg_junk :: seg_desc_t
  ldt_desc_ptr :: seg_desc_t
  tss_desc_ptr :: seg_desc_t
  ldt_at :: u32
  tss_at :: u32
  ldt_size :: u32
  tss_size :: u32
  tss_ldt :: u16
  ldtr :: u16
  task_register :: u16

definition KERNEL_CS :: u16 where "KERNEL_CS = 0x0010"
definition KERNEL_TSS :: u16 where "KERNEL_TSS = 0x0030"
definition KERNEL_LDT :: u16 where "KERNEL_LDT = 0x0038"
definition TSS_SIZE :: u32 where "TSS_SIZE = 104"
definition PIT_PORT :: nat where "PIT_PORT = 0x20"
definition KEYBOARDPORT :: nat where "KEYBOARDPORT = 0x21"
definition RTCPORT :: nat where "RTCPORT = 0x28"
definition SYSCALL_PORT :: nat where "SYSCALL_PORT = 0x80"

lemmas idt_consts = PIT_PORT_def KEYBOARDPORT_def RTCPORT_def SYSCALL_PORT_def KERNEL_CS_def

definition idt_init :: "'a idt_state_scheme \<Rightarrow> 'a idt_state_scheme" where
  "idt_init s =
     (let idt_set = (idt_set_junk s)\<lparr>seg_selector := KERNEL_CS, reserved0 := False, reserved1 := True,
            reserved2 := True, reserved4 := 0, present := True, gate_size := True, gate_dpl := 0\<rparr>;
          (idt_set, s) = fold (\<lambda>i (d, s).
              let d = d\<lparr>reserved3 := True\<rparr>;
                  d = SET_IDT_ENTRY d (handler_at s (Exception i))
              in (d, s\<lparr>idt := (idt s)[i := d]\<rparr>)) [0..<19] (idt_set, s);
          idt_set = idt_set\<lparr>reserved3 := False\<rparr>;
          idt_set = SET_IDT_ENTRY idt_set (handler_at s Keyboard_wrapper);
          s = s\<lparr>idt := (idt s)[KEYBOARDPORT := idt_set]\<rparr>;
          idt_set = SET_IDT_ENTRY idt_set (handler_at s Rtc_handler);
          s = s\<lparr>idt := (idt s)[RTCPORT := idt_set]\<rparr>;
          idt_set = SET_IDT_ENTRY idt_set (handler_at s Scheduler_wrapper);
          s = s\<lparr>idt := (idt s)[PIT_PORT := idt_set]\<rparr>;
          idt_set = idt_set\<lparr>reserved3 := True, gate_dpl := 3\<rparr>;
          idt_set = SET_IDT_ENTRY idt_set (handler_at s Syscall_handler)
      in s\<lparr>idt := (idt s)[SYSCALL_PORT := idt_set]\<rparr>)"

section \<open>Exceptions\<close>

definition exception_text :: "string list" where
  "exception_text =
    [''exception: divide by 0 '' @ [CHR 0x0A],
     ''exception: debug '' @ [CHR 0x0A],
     ''exception:non-maskable interrupt'' @ [CHR 0x0A],
     ''exception: breakpoint'' @ [CHR 0x0A] @ '' '',
     ''exception: overflow '' @ [CHR 0x0A],
     ''exception: bound range exceeded '' @ [CHR 0x0A],
     ''exception: invalid opcode '' @ [CHR 0x0A],
     ''exception: device not available '' @ [CHR 0x0A],
     ''exception: double fault '' @ [CHR 0x0A],
     ''exception: coprocessor segment overrun '' @ [CHR 0x0A],
     ''exception: invalid TSS '' @ [CHR 0x0A],
     ''exception: segment not present '' @ [CHR 0x0A],
     ''exception: stack segement fault '' @ [CHR 0x0A],
     ''general proctection fault'' @ [CHR 0x0A],
     ''exception: page fault  - HEY TA: you look good today!'' @ [CHR 0x0A],
     ''exception: Unknown Interrupt Exception '' @ [CHR 0x0A],
     ''exception:x87 floating point '' @ [CHR 0x0A],
     ''exception: alignment check '' @ [CHR 0x0A],
     ''exception: machine check '' @ [CHR 0x0A]]"

definition skull :: "string list" where
  "skull =
    [''                                     uuuuuuu'' @ [CHR 0x0A],
     ''                                 uu$$$$$$$$$$$uu'' @ [CHR 0x0A],
     ''                              uu$$$$$$$$$$$$$$$$$uu'' @ [CHR 0x0A],
     ''                             u$$$$$$$$$$$$$$$$$$$$$u'' @ [CHR 0x0A],
     ''                            u$$$$$$$$$$$$$$$$$$$$$$$u'' @ [CHR 0x0A],
     ''                           u$$$$$$:   :$$$:   :$$$$$$u'' @ [CHR 0x0A],
     ''                           :$$$$:      u$u       $$$$:'' @ [CHR 0x0A],
     ''                            $$$u       u$u       u$$$'' @ [CHR 0x0A],
     ''                            $$$u      u$$$u      u$$$'' @ [CHR 0x0A],
     ''                             :$$$$uu$$$   $$$uu$$$$:'' @ [CHR 0x0A],
     ''                              :$$$$$$$:   :$$$$$$$:'' @ [CHR 0x0A],
     ''                                u$$$$$$$u$$$$$$$u'' @ [CHR 0x0A],
     ''                                 u$:$:$:$:$:$:$u'' @ [CHR 0x0A],
     ''                      uuu        $$u$ $ $ $ $u$$       uuu'' @ [CHR 0x0A],
     ''                     u$$$$        $$$$$u$u$u$$$       u$$$$'' @ [CHR 0x0A],
     ''                      $$$$$uu      :$$$$$$$$$:     uu$$$$$$'' @ [CHR 0x0A],
     ''                    u$$$$$$$$$$$uu    ::::    uuuu$$$$$$$$$$'' @ [CHR 0x0A],
     ''                    $$$$:::$$$$$$$$$$uuu   uu$$$$$$$$$:::$$$:'' @ [CHR 0x0A],
     ''                     :::      ::$$$$$$$$$$$uu ::$:::'' @ [CHR 0x0A],
     ''                               uuuu $$$$$$$$$$uuu'' @ [CHR 0x0A],
     ''                      u$$$uuu$$$$$$$$$uu ::$$$$$$$$$$$uuu$$$'' @ [CHR 0x0A],
     ''                      $$$$$$$$$$:::           ::$$$$$$$$$$$:'' @ [CHR 0x0A],
     ''                       $$$$:                        :$$$$$:'' @ [CHR 0x0A]]"

definition print_skull :: "'a term_state_scheme \<Rightarrow> 'a term_state_scheme" where
  "print_skull s = fold kprint skull s"

text \<open>
  The state an exception handler spins in: it never leaves the loop behind its messages.
\<close>

definition exception :: "nat \<Rightarrow> 'a term_state_scheme \<Rightarrow> 'a term_state_scheme" where
  "exception n s = print_skull (kprint (exception_text ! n) (cli s))"

section \<open>What the processor reads\<close>

definition gate_offset :: "idt_desc_t \<Rightarrow> u32" where
  "gate_offset d = push_bit 16 (ucast (offset_31_16 d)) OR ucast (offset_15_00 d)"

text \<open>A 32-bit gate: present, size bit set, and the fixed bits of the format.\<close>

definition gate_ok :: "idt_desc_t \<Rightarrow> bool" where
  "gate_ok d \<longleftrightarrow> present d \<and> gate_size d \<and> reserved1 d \<and> reserved2 d \<and> \<not> reserved0 d \<and> reserved4 d = 0"

definition seg_base :: "seg_desc_t \<Rightarrow> u32" where
  "seg_base d = push_bit 24 (ucast (base_31_24 d)) OR push_bit 16 (ucast (base_23_16 d)) OR ucast (base_15_00 d)"

definition seg_limit :: "seg_desc_t \<Rightarrow> u32" where
  "seg_limit d = push_bit 16 (ucast (seg_lim_19_16 d)) OR ucast (seg_lim_15_00 d)"

lemma field_masks:
  "(0xFFFF :: u32) = mask 16" "(0xFFFF0000 :: u32) = push_bit 16 (mask 16)" "(0xFF000000 :: u32) = push_bit 24 (mask 8)"
  "(0x00FF0000 :: u32) = push_bit 16 (mask 8)" "(0x000F0000 :: u32) = push_bit 16 (mask 4)"
  by code_simp+

lemma above: "\<not> n < k \<Longrightarrow> k + (n - k) = (n :: nat)"
  by simp

lemma gate_offset_set: "gate_offset (SET_IDT_ENTRY d h) = h"
  unfolding gate_offset_def SET_IDT_ENTRY_def field_masks
  by (rule bit_word_eqI) (auto simp: bit_simps above not_le)

lemma seg_base_set: "seg_base (SET_SEG_PARAMS d a lim) = a"
  unfolding seg_base_def SET_SEG_PARAMS_def field_masks
proof (rule bit_word_eqI, goal_cases)
  case (1 n)
  then consider "n < 16" | "16 \<le> n" "n < 24" | "24 \<le> n" "n < 32" by force
  then show ?case by cases (auto simp: bit_simps)
qed

lemma seg_limit_set:
  assumes "lim < 0x100000"
  shows "seg_limit (SET_SEG_PARAMS d a lim) = lim"
proof -
  have "take_bit 20 (unat lim) = unat lim" using assms by (simp add: take_bit_nat_eq_self word_less_nat_alt)
  then have "n - 16 < 4" if "bit lim n" for n
    using that bit_take_bit_iff [of 20 "unat lim" n] by (auto simp: bit_simps)
  then show ?thesis
    unfolding seg_limit_def SET_SEG_PARAMS_def field_masks
    by (intro bit_word_eqI) (auto simp: bit_simps above not_le)
qed

section \<open>The table after idt\_init\<close>

definition gate :: "bool \<Rightarrow> 2 word \<Rightarrow> u32 \<Rightarrow> idt_desc_t" where
  "gate trap dpl h = \<lparr>offset_15_00 = ucast (h AND 0xFFFF), seg_selector = KERNEL_CS, reserved4 = 0, reserved3 = trap,
     reserved2 = True, reserved1 = True, gate_size = True, reserved0 = False, gate_dpl = dpl, present = True,
     offset_31_16 = ucast (drop_bit 16 (h AND 0xFFFF0000))\<rparr>"

definition gate_form :: "idt_desc_t \<Rightarrow> bool" where
  "gate_form d \<longleftrightarrow> seg_selector d = KERNEL_CS \<and> gate_ok d \<and> gate_dpl d = 0"

lemma gate_fields [simp]:
  "gate_offset (gate t p h) = h" "gate_ok (gate t p h)" "gate_dpl (gate t p h) = p" "reserved3 (gate t p h) = t"
  "seg_selector (gate t p h) = KERNEL_CS"
  using gate_offset_set [of _ h] by (simp_all add: gate_def gate_ok_def gate_offset_def SET_IDT_ENTRY_def)

lemma gate_form_set:
  "gate_form d \<Longrightarrow> SET_IDT_ENTRY (d\<lparr>reserved3 := t\<rparr>) h = gate t 0 h"
  "gate_form d \<Longrightarrow> SET_IDT_ENTRY (d\<lparr>reserved3 := t, gate_dpl := p\<rparr>) h = gate t p h"
  "SET_IDT_ENTRY (gate t p g) h = gate t p h" "gate_form (gate t 0 h)"
  by (simp_all add: gate_form_def gate_ok_def gate_def SET_IDT_ENTRY_def)

lemma exception_gates:
  "gate_form d \<Longrightarrow> \<exists>d'. gate_form d' \<and>
     fold (\<lambda>i (d, s). let d = d\<lparr>reserved3 := True\<rparr>; d = SET_IDT_ENTRY d (handler_at s (Exception i))
        in (d, s\<lparr>idt := (idt s)[i := d]\<rparr>)) is (d, s)
     = (d', s\<lparr>idt := fold (\<lambda>i t. t[i := gate True 0 (handler_at s (Exception i))]) is (idt s)\<rparr>)"
proof (induction "is" arbitrary: d s)
  case (Cons i "is")
  let ?g = "gate True 0 (handler_at s (Exception i))"
  from Cons.IH [of ?g "s\<lparr>idt := (idt s)[i := ?g]\<rparr>"] Cons.prems show ?case
    by (simp add: gate_form_set Let_def)
qed auto

lemma fold_update_nth:
  "n \<le> length t \<Longrightarrow> fold (\<lambda>i t. t[i := f i]) [0..<n] t ! v = (if v < n then f v else t ! v)
    \<and> length (fold (\<lambda>i t. t[i := f i]) [0..<n] t) = length t"
  by (induction n) (auto simp: nth_list_update)

lemma idt_init_eq:
  "idt_init s = s\<lparr>idt := (fold (\<lambda>i t. t[i := gate True 0 (handler_at s (Exception i))]) [0..<19] (idt s))
     [0x21 := gate False 0 (handler_at s Keyboard_wrapper), 0x28 := gate False 0 (handler_at s Rtc_handler),
      0x20 := gate False 0 (handler_at s Scheduler_wrapper), 0x80 := gate True 3 (handler_at s Syscall_handler)]\<rparr>"
proof -
  define d where "d = (idt_set_junk s)\<lparr>seg_selector := KERNEL_CS, reserved0 := False, reserved1 := True,
    reserved2 := True, reserved4 := 0, present := True, gate_size := True, gate_dpl := 0\<rparr>"
  have "gate_form d" by (simp add: d_def gate_form_def gate_ok_def)
  from exception_gates [OF this, of "[0..<19]" s] obtain d' where d': "gate_form d'"
    "fold (\<lambda>i (d, s). let d = d\<lparr>reserved3 := True\<rparr>; d = SET_IDT_ENTRY d (handler_at s (Exception i))
        in (d, s\<lparr>idt := (idt s)[i := d]\<rparr>)) [0..<19] (d, s)
     = (d', s\<lparr>idt := fold (\<lambda>i t. t[i := gate True 0 (handler_at s (Exception i))]) [0..<19] (idt s)\<rparr>)"
    by blast
  have g: "SET_IDT_ENTRY ((gate t 0 g)\<lparr>reserved3 := True, gate_dpl := 3\<rparr>) h = gate True 3 h" for t g h
    by (rule gate_form_set(2)) (rule gate_form_set(4))
  show ?thesis
    unfolding idt_init_def Let_def d_def [symmetric]
    unfolding d'(2) [unfolded Let_def] prod.case
    by (simp add: gate_form_set d'(1) g idt_consts del: upt_Suc fold_simps)
qed

lemma idt_init_nth:
  assumes "length (idt s) = 256"
  shows "idt (idt_init s) ! v =
    (if v < 19 then gate True 0 (handler_at s (Exception v))
     else if v = 0x20 then gate False 0 (handler_at s Scheduler_wrapper)
     else if v = 0x21 then gate False 0 (handler_at s Keyboard_wrapper)
     else if v = 0x28 then gate False 0 (handler_at s Rtc_handler)
     else if v = 0x80 then gate True 3 (handler_at s Syscall_handler) else idt s ! v)"
proof -
  define t where "t = fold (\<lambda>i t. t[i := gate True 0 (handler_at s (Exception i))]) [0..<19] (idt s)"
  have t: "t ! v = (if v < 19 then gate True 0 (handler_at s (Exception v)) else idt s ! v)" "length t = 256" for v
    using fold_update_nth [of 19 "idt s" "\<lambda>i. gate True 0 (handler_at s (Exception i))" v] assms
    by (simp_all add: t_def del: upt_Suc fold_simps)
  show ?thesis unfolding idt_init_eq t_def [symmetric] by (simp add: nth_list_update t)
qed

section \<open>Printing and the interrupt flag\<close>

lemma iflag_scroll [simp]: "iflag (scroll s)" "iflag (move_csr s) = iflag s"
  by (simp_all add: scroll_def move_csr_def sti_def Let_def)

lemma iflag_newline: "iflag (putch 10 s)"
  by (simp add: putch_def putch_end_def Let_def)

lemma iflag_kprint_line: "iflag (kprint (str @ [CHR 0x0A]) s)"
proof -
  have "bytes (str @ [CHR 0x0A]) = bytes str @ [10]" by (simp add: bytes_def)
  then show ?thesis by (simp add: kprint_def iflag_newline)
qed

lemma skull_last: "\<exists>strs str. skull = strs @ [str @ [CHR 0x0A]]"
proof -
  have "skull = butlast skull @ [last skull]" by (rule append_butlast_last_id [symmetric]) (simp add: skull_def)
  moreover have "last skull = butlast (last skull) @ [CHR 0x0A]" by (simp add: skull_def)
  ultimately show ?thesis by (intro exI [of _ "butlast skull"] exI [of _ "butlast (last skull)"]) (rule trans, auto)
qed

lemma kern_exception: "kern (exception n s) = kern s"
proof -
  have "kern (fold kprint strs u) = kern u" for strs and u :: "'a pcb_state_scheme"
    by (induction strs arbitrary: u) simp_all
  then show ?thesis by (simp add: exception_def print_skull_def)
qed

section \<open>Properties\<close>

text \<open>
  C23: after idt\_init a program can enter the kernel only through the system call vector: among
  the 256 vectors exactly the nineteen exceptions, the three devices and the system call have a
  present gate, each leads to its handler in the kernel's code segment, only the system call's
  may be used from user mode, and only the device interrupts arrive with interrupts disabled.
\<close>

theorem idt_entry_points:
  assumes "length (idt s) = 256" and "\<forall>v < 256. \<not> present (idt s ! v)" and "v < 256"
  shows "(present (idt (idt_init s) ! v) \<longleftrightarrow> v < 19 \<or> v \<in> {0x20, 0x21, 0x28, 0x80})
    \<and> (present (idt (idt_init s) ! v) \<longrightarrow> gate_ok (idt (idt_init s) ! v) \<and> seg_selector (idt (idt_init s) ! v) = KERNEL_CS
         \<and> gate_dpl (idt (idt_init s) ! v) = (if v = 0x80 then 3 else 0)
         \<and> (\<not> reserved3 (idt (idt_init s) ! v) \<longleftrightarrow> v \<in> {0x20, 0x21, 0x28})
         \<and> gate_offset (idt (idt_init s) ! v) = handler_at s (if v < 19 then Exception v
              else if v = 0x20 then Scheduler_wrapper else if v = 0x21 then Keyboard_wrapper
              else if v = 0x28 then Rtc_handler else Syscall_handler))"
proof -
  have "present (gate t p h)" for t p h by (simp add: gate_def)
  then show ?thesis using assms(2,3) by (simp add: idt_init_nth [OF assms(1)])
qed

definition idt_state0 :: idt_state where
  "idt_state0 = kbd_state.extend kbd_state0 (idt_state.fields
     (replicate 256 ((gate False 0 0)\<lparr>present := False\<rparr>))
     (\<lambda>h. case h of Exception n \<Rightarrow> 0x400100 + of_nat n | Keyboard_wrapper \<Rightarrow> 0x400200 | Rtc_handler \<Rightarrow> 0x400300
        | Scheduler_wrapper \<Rightarrow> 0x400400 | Syscall_handler \<Rightarrow> 0x400500)
     (gate True 0 0) (SET_SEG_PARAMS undefined 0 0) (SET_SEG_PARAMS undefined 0 0) (SET_SEG_PARAMS undefined 0 0)
     0x406000 0x406100 31 103 0 0 0)"

theorem idt_entry_points_witness:
  "gate_dpl (idt (idt_init idt_state0) ! 0x80) = 3 \<and> gate_offset (idt (idt_init idt_state0) ! 0x80) = 0x400500
    \<and> \<not> present (idt (idt_init idt_state0) ! 0x81)"
proof -
  have l: "length (idt idt_state0) = 256" and p: "\<forall>v < 256. \<not> present (idt idt_state0 ! v)"
    and h: "handler_at idt_state0 Syscall_handler = 0x400500"
    by (simp_all add: idt_state0_def kbd_state.defs idt_state.defs)
  show ?thesis
    using idt_entry_points [OF l p, of "0x80"] idt_entry_points [OF l p, of "0x81"] h by simp
qed

text \<open>
  An exception handler disables interrupts and then spins for ever, but its own output
  enables them again: every line printed passes through scroll, which ends with sti. The
  machine keeps serving keys and ticks on top of the failed program, whose process and files
  are still in place.
\<close>

theorem exception_spins_interruptible: "iflag (exception n s) \<and> kern (exception n s) = kern s"
proof -
  obtain strs str where sk: "skull = strs @ [str @ [CHR 0x0A]]" using skull_last by blast
  have "iflag (exception n s)" unfolding exception_def print_skull_def sk by (simp add: iflag_kprint_line)
  then show ?thesis by (simp add: kern_exception)
qed

end
