(* ===== verification/Kud_Boot.thy ===== *)
theory Kud_Boot
  imports Kud_Idt
begin

unbundle bit_operations_syntax

text \<open>
  The start of the kernel, \<^verbatim>\<open>entry\<close> of \<^verbatim>\<open>student-distrib/kernel.c\<close>: the report on what the
  boot loader passed, the descriptors, the initialisation of every component in the order of
  the source, the boot screen, the choice of a text colour and the first shell. The function
  is split where it waits for the keyboard.
\<close>

section \<open>Formatted messages\<close>

text \<open>
  The messages with conversions, as the sequence of their pieces; the conversions are the ones
  of \<^verbatim>\<open>printf\<close> and use its local buffer, whose address is part of the state.
\<close>

record boot_state = idt_state +
  conv_at :: u32
  buf12_at :: u32
  inputcolor_at :: u32
  digit_at :: "nat \<Rightarrow> u32"

datatype fmt = Lit string | Hex u32 | Hex8 u32 | Uns u32 | Dec u32 | Str u32

fun kprintf :: "fmt list \<Rightarrow> 'a boot_state_scheme \<Rightarrow> 'a boot_state_scheme option" where
  "kprintf [] s = Some s"
| "kprintf (Lit str # fs) s = kprintf fs (kprint str s)"
| "kprintf (Hex v # fs) s = (case print_hex (conv_at s) v False s of None \<Rightarrow> None | Some s \<Rightarrow> kprintf fs s)"
| "kprintf (Hex8 v # fs) s = (case print_hex (conv_at s) v True s of None \<Rightarrow> None | Some s \<Rightarrow> kprintf fs s)"
| "kprintf (Uns v # fs) s = (case print_unsigned (conv_at s) v s of None \<Rightarrow> None | Some s \<Rightarrow> kprintf fs s)"
| "kprintf (Dec v # fs) s = (case print_signed (conv_at s) v s of None \<Rightarrow> None | Some s \<Rightarrow> kprintf fs s)"
| "kprintf (Str a # fs) s = (case puts a s of None \<Rightarrow> None | Some (n, s) \<Rightarrow> kprintf fs s)"

definition nl :: string where "nl = [CHR 0x0A]"

section \<open>The boot loader's information\<close>

definition mb_flags :: "mem \<Rightarrow> u32 \<Rightarrow> u32" where "mb_flags m mbi = load32 m mbi"
definition mb_mem_lower :: "mem \<Rightarrow> u32 \<Rightarrow> u32" where "mb_mem_lower m mbi = load32 m (mbi + 4)"
definition mb_mem_upper :: "mem \<Rightarrow> u32 \<Rightarrow> u32" where "mb_mem_upper m mbi = load32 m (mbi + 8)"
definition mb_boot_device :: "mem \<Rightarrow> u32 \<Rightarrow> u32" where "mb_boot_device m mbi = load32 m (mbi + 12)"
definition mb_cmdline :: "mem \<Rightarrow> u32 \<Rightarrow> u32" where "mb_cmdline m mbi = load32 m (mbi + 16)"
definition mb_mods_count :: "mem \<Rightarrow> u32 \<Rightarrow> u32" where "mb_mods_count m mbi = load32 m (mbi + 20)"
definition mb_mods_addr :: "mem \<Rightarrow> u32 \<Rightarrow> u32" where "mb_mods_addr m mbi = load32 m (mbi + 24)"
definition mb_elf_sec :: "u32 \<Rightarrow> u32" where "mb_elf_sec mbi = mbi + 28"
definition mb_mmap_length :: "mem \<Rightarrow> u32 \<Rightarrow> u32" where "mb_mmap_length m mbi = load32 m (mbi + 44)"
definition mb_mmap_addr :: "mem \<Rightarrow> u32 \<Rightarrow> u32" where "mb_mmap_addr m mbi = load32 m (mbi + 48)"

definition CHECK_FLAG :: "u32 \<Rightarrow> nat \<Rightarrow> bool" where
  "CHECK_FLAG fl b \<longleftrightarrow> fl AND push_bit b 1 \<noteq> 0"

definition MULTIBOOT_BOOTLOADER_MAGIC :: u32 where "MULTIBOOT_BOOTLOADER_MAGIC = 0x2BADB002"

text \<open>The message behind a test of one flag.\<close>

definition when_flag :: "u32 \<Rightarrow> nat \<Rightarrow> (mem \<Rightarrow> fmt list) \<Rightarrow> 'a boot_state_scheme \<Rightarrow> 'a boot_state_scheme option" where
  "when_flag mbi b fs s = (if CHECK_FLAG (mb_flags (mem s) mbi) b then kprintf (fs (mem s)) s else Some s)"

text \<open>Sixteen bytes of a module, each read after the ones before it are printed; \<^verbatim>\<open>char\<close> is signed.\<close>

fun print_module_bytes :: "nat list \<Rightarrow> u32 \<Rightarrow> 'a boot_state_scheme \<Rightarrow> 'a boot_state_scheme option" where
  "print_module_bytes [] md s = Some s"
| "print_module_bytes (i # is) md s =
     (case kprintf [Lit ''0x'', Hex (scast (mem s (load32 (mem s) md + of_nat i))), Lit '' ''] s of
        None \<Rightarrow> None | Some s \<Rightarrow> print_module_bytes is md s)"

partial_function (option) load_modules :: "u32 \<Rightarrow> u32 \<Rightarrow> u32 \<Rightarrow> 'a boot_state_scheme \<Rightarrow> 'a boot_state_scheme option" where
  "load_modules mbi mod_count md s =
     (if mod_count < mb_mods_count (mem s) mbi
      then (case kprintf [Lit ''Module '', Dec mod_count, Lit '' loaded at address: 0x'', Hex8 (load32 (mem s) md), Lit nl] s of
              None \<Rightarrow> None
            | Some s \<Rightarrow>
                let s = s\<lparr>fs_start := load32 (mem s) md\<rparr> in
                (case kprintf [Lit ''Module '', Dec mod_count, Lit '' ends at address: 0x'', Hex8 (load32 (mem s) (md + 4)),
                               Lit nl, Lit (''First few bytes of module:'' @ nl)] s of
                   None \<Rightarrow> None
                 | Some s \<Rightarrow>
                     (case print_module_bytes [0..<16] md s of
                        None \<Rightarrow> None
                      | Some s \<Rightarrow> load_modules mbi (mod_count + 1) (md + 16) (kprint nl s))))
      else Some s)"

partial_function (option) print_mmap :: "u32 \<Rightarrow> u32 \<Rightarrow> 'a boot_state_scheme \<Rightarrow> 'a boot_state_scheme option" where
  "print_mmap mbi mmap s =
     (if mmap < mb_mmap_addr (mem s) mbi + mb_mmap_length (mem s) mbi
      then (case kprintf [Lit '' size = 0x'', Hex (load32 (mem s) mmap), Lit '',     base_addr = 0x'',
                          Hex8 (load32 (mem s) (mmap + 8)), Hex8 (load32 (mem s) (mmap + 4)),
                          Lit (nl @ ''     type = 0x''), Hex (load32 (mem s) (mmap + 20)), Lit '',  length    = 0x'',
                          Hex8 (load32 (mem s) (mmap + 16)), Hex8 (load32 (mem s) (mmap + 12)), Lit nl] s of
              None \<Rightarrow> None
            | Some s \<Rightarrow> print_mmap mbi (mmap + load32 (mem s) mmap + 4) s)
      else Some s)"

text \<open>
  The report. \<open>Some (False, s)\<close>: the kernel gives up; \<open>None\<close>: a loop over a malformed string or
  memory map does not end.
\<close>

definition report_before_modules :: "u32 \<Rightarrow> 'a boot_state_scheme \<Rightarrow> 'a boot_state_scheme option" where
  "report_before_modules mbi s =
     (case kprintf [Lit ''flags = 0x'', Hex8 (mb_flags (mem s) mbi), Lit nl] s of None \<Rightarrow> None | Some s \<Rightarrow>
      (case when_flag mbi 0 (\<lambda>m. [Lit ''mem_lower = '', Uns (mb_mem_lower m mbi), Lit ''KB, mem_upper = '',
                                   Uns (mb_mem_upper m mbi), Lit (''KB'' @ nl)]) s of None \<Rightarrow> None | Some s \<Rightarrow>
       (case when_flag mbi 1 (\<lambda>m. [Lit ''boot_device = 0x'', Hex8 (mb_boot_device m mbi), Lit nl]) s of
          None \<Rightarrow> None | Some s \<Rightarrow>
          when_flag mbi 2 (\<lambda>m. [Lit ''cmdline = '', Str (mb_cmdline m mbi), Lit nl]) s)))"

definition report_after_modules :: "u32 \<Rightarrow> 'a boot_state_scheme \<Rightarrow> (bool \<times> 'a boot_state_scheme) option" where
  "report_after_modules mbi s =
     (if CHECK_FLAG (mb_flags (mem s) mbi) 4 \<and> CHECK_FLAG (mb_flags (mem s) mbi) 5
      then Some (False, kprint (''Both bits 4 and 5 are set.'' @ nl) s)
      else case when_flag mbi 5 (\<lambda>m. [Lit ''elf_sec: num = '', Uns (load32 m (mb_elf_sec mbi)), Lit '', size = 0x'',
                   Hex8 (load32 m (mb_elf_sec mbi + 4)), Lit '', addr = 0x'', Hex8 (load32 m (mb_elf_sec mbi + 8)),
                   Lit '', shndx = 0x'', Hex8 (load32 m (mb_elf_sec mbi + 12)), Lit nl]) s of
             None \<Rightarrow> None
           | Some s \<Rightarrow>
               if CHECK_FLAG (mb_flags (mem s) mbi) 6
               then (case kprintf [Lit ''mmap_addr = 0x'', Hex8 (mb_mmap_addr (mem s) mbi), Lit '', mmap_length = 0x'',
                                   Hex (mb_mmap_length (mem s) mbi), Lit nl] s of
                       None \<Rightarrow> None
                     | Some s \<Rightarrow> map_option (Pair True) (print_mmap mbi (mb_mmap_addr (mem s) mbi) s))
               else Some (True, s))"

definition boot_report :: "u32 \<Rightarrow> u32 \<Rightarrow> 'a boot_state_scheme \<Rightarrow> (bool \<times> 'a boot_state_scheme) option" where
  "boot_report magic addr s =
     (let s = s\<lparr>mem := clear_video (mem s)\<rparr> in
      if magic \<noteq> MULTIBOOT_BOOTLOADER_MAGIC
      then map_option (Pair False) (kprintf [Lit ''Invalid magic number: 0x'', Hex8 magic, Lit nl] s)
      else case report_before_modules addr s of
             None \<Rightarrow> None
           | Some s \<Rightarrow>
               (case (if CHECK_FLAG (mb_flags (mem s) addr) 3 then load_modules addr 0 (mb_mods_addr (mem s) addr) s
                      else Some s) of
                  None \<Rightarrow> None
                | Some s \<Rightarrow> report_after_modules addr s))"

section \<open>Descriptors and initialisation\<close>

definition boot_descriptors :: "'a idt_state_scheme \<Rightarrow> 'a idt_state_scheme" where
  "boot_descriptors s =
     (let the_ldt_desc = (seg_junk s)\<lparr>granularity := False, opsize := True, reserved := False, avail := False,
            seg_present := True, seg_dpl := 0, seg_sys := False, seg_type := 0x2\<rparr>;
          the_ldt_desc = SET_SEG_PARAMS the_ldt_desc (ldt_at s) (ldt_size s);
          s = s\<lparr>ldt_desc_ptr := the_ldt_desc, ldtr := KERNEL_LDT\<rparr>;
          the_tss_desc = (seg_junk s)\<lparr>granularity := False, opsize := False, reserved := False, avail := False,
            seg_lim_19_16 := ucast (TSS_SIZE AND 0x000F0000), seg_present := True, seg_dpl := 0, seg_sys := False,
            seg_type := 0x9, seg_lim_15_00 := ucast (TSS_SIZE AND 0x0000FFFF)\<rparr>;
          the_tss_desc = SET_SEG_PARAMS the_tss_desc (tss_at s) (tss_size s)
      in s\<lparr>tss_desc_ptr := the_tss_desc, tss_ldt := KERNEL_LDT, tss_ss0 := KERNEL_DS, tss_esp0 := 0x800000,
           task_register := KERNEL_TSS\<rparr>)"

definition kernel_init :: "'a boot_state_scheme \<Rightarrow> 'a boot_state_scheme" where
  "kernel_init s =
     (let s = paging_init s;
          s = idt_init s;
          s = i8259_init s;
          s = fs_init s;
          s = terminal_init s;
          s = rtc_init s;
          s = s\<lparr>mem := store32 (mem s) (buf12_at s) 2\<rparr>;
          s = snd (rtc_write (mem s) 0 (buf12_at s) 0 s);
          s = enable_irq 8 s;
          s = snd (pit_init s);
          s = enable_irq 0 s;
          s = s\<lparr>process_number := 0\<rparr>
      in snd (terminal_open 0 s))"

definition boot_lines :: "string list" where
  "boot_lines =
    [''LOADING '' @ [CHR 0x0A],
     ''                                         ddddd                                 '' @ [CHR 0x0A],
     ''kkkk                                     d:::d     OOOOOOOO        SSSSSSSSSSS '' @ [CHR 0x0A],
     ''k::k                                     d:::d   OO::::::::OO    SS:::::::::::S'' @ [CHR 0x0A],
     ''k::k                                     d:::d OO::::::::::::OO S:::::SS::::::S'' @ [CHR 0x0A],
     ''k::k                                     d::d O:::::::OO:::::::OS:::::S SSSSSSS'' @ [CHR 0x0A],
     ''k::k    kkkkkkkuuuuu    uuuuu    ddddddddd::d O::::::O  O::::::OS:::::S        '' @ [CHR 0x0A],
     ''k::k   k:::::k u:::u    u:::u   d:::::::::::d O:::::O    O:::::OS:::::S        '' @ [CHR 0x0A],
     ''k::k  k:::::k  u:::u    u:::u  d::::::::::::d O:::::O    O:::::O S::::SS       '' @ [CHR 0x0A],
     ''k::k k:::::k   u:::u    u:::u d::::::ddddd::d O:::::O    O:::::O  SS::::SSS    '' @ [CHR 0x0A],
     ''k::k:::::k     u:::u    u:::u d:::::d    d::d O:::::O    O:::::O    SSS::::SS  '' @ [CHR 0x0A],
     ''k::::::::k     u:::u    u:::u d::::d     d::d O:::::O    O:::::O       SS::::S '' @ [CHR 0x0A],
     ''k::::::::k     u:::u    u:::u d::::d     d::d O:::::O    O:::::O        S:::::S'' @ [CHR 0x0A],
     ''k:::k:::::k    u::::uuuu::::u d::::d     d::d O::::::O  O::::::O        S:::::S'' @ [CHR 0x0A],
     ''k::k k:::::k   u:::::::::::::ud:::::ddddd:::ddO:::::::OO:::::::OSSSSSSS S:::::S'' @ [CHR 0x0A],
     ''k::k  k:::::k   u::::::::::::u d:::::::::::::d OO::::::::::::OO S::::::SS:::::S'' @ [CHR 0x0A],
     ''k::k   k:::::k   u::::::::u::u  d::::::::dd::d   OO::::::::OO   S:::::::::::SS '' @ [CHR 0x0A],
     ''kkkk    kkkkkkk   uuuuuuuu uuu  ddddddddd  ddd     OOOOOOOO      SSSSSSSSSSS   '' @ [CHR 0x0A],
     [CHR 0x0A] @ [CHR 0x0A] @ ''Created by Dhruv Kanwal . Sebastian Jaronczyk . Ameer Kashani . Kyle Luhrsen'' @ [CHR 0x0A]]"

definition boot_delay :: nat where "boot_delay = 2000000"
definition boot_height :: nat where "boot_height = 27"

definition boot_screen :: "'a term_state_scheme \<Rightarrow> 'a term_state_scheme" where
  "boot_screen s =
     (let s = clear_screen s;
          s = fold kprint boot_lines s;
          s = fold (\<lambda>i. fold (\<lambda>j s. if j mod boot_delay = 0 then kprint ''=> '' s else s) [0..<boot_delay])
                [0..<boot_height] s;
          s = clear_screen s
      in kprint (''Welcome to kudOS v.5!'' @ nl) s)"

text \<open>Everything up to the question for a colour, on which the kernel waits.\<close>

definition entry_boot :: "u32 \<Rightarrow> u32 \<Rightarrow> 'a boot_state_scheme \<Rightarrow> (bool \<times> 'a boot_state_scheme) option" where
  "entry_boot magic addr s =
     (case boot_report magic addr s of
        None \<Rightarrow> None
      | Some (go, s) \<Rightarrow>
          if \<not> go then Some (False, s)
          else let s = boot_descriptors s;
                   s = kernel_init s;
                   s = boot_screen s;
                   s = sti s;
                   s = kprint (''choose your text color:'' @ nl) s
               in Some (True, kprint (''Press 1:White  2:Red  3:Cyan  4:Yellow  5:Blue  6:Green'' @ nl) s))"

definition colour_of :: "'a boot_state_scheme \<Rightarrow> u32" where
  "colour_of s =
     (let is = (\<lambda>d. strncmp (mem s) (inputcolor_at s) (digit_at s d) 1 = 0) in
      if is 1 then 0x0F else if is 2 then 0x0C else if is 3 then 0x0B else if is 4 then 0x0E
      else if is 5 then 0x09 else if is 6 then 0x0A else 0x0F)"

definition entry_shell :: "'a boot_state_scheme \<Rightarrow> 'a boot_state_scheme outcome" where
  "entry_shell s =
     (case terminal_read 0 (inputcolor_at s) 1 s of
        None \<Rightarrow> Waits s
      | Some (r, s) \<Rightarrow> let s = s\<lparr>attrib := colour_of s\<rparr> in execute (shell_at s) s)"

section \<open>Frames of printing\<close>

text \<open>The sizes of the terminals' arrays, before their contents make sense.\<close>

definition arrays_ok :: "'a term_state_scheme \<Rightarrow> bool" where
  "arrays_ok s \<longleftrightarrow> curr_terminal s < 3 \<and> length (csr_x s) = 3 \<and> length (csr_y s) = 3 \<and> length (line_y s) = 3
     \<and> length (line_beginning s) = 3 \<and> length (buffer_len s) = 3 \<and> length (terminal_buffer s) = 3
     \<and> length (terminal_memory s) = 3
     \<and> list_all (\<lambda>n. n \<le> 128) (buffer_len s) \<and> list_all (\<lambda>b. length b = 128) (terminal_buffer s)"

text \<open>What printing leaves alone: processes, tables, page tables, the interrupt masks.\<close>

definition rest :: "'a page_state_scheme \<Rightarrow> _" where
  "rest s = (kern s, dev s, last_out MASTER_DATA (iolog s), last_out SLAVE_DATA (iolog s), terminal_memory s, terminal_ptr s,
     page_directories s, page_table s, page_table_vidmap s, page_table_at s, page_table_vidmap_at s)"

lemma other_ports [simp]: "0x3D4 \<noteq> MASTER_DATA" "0x3D5 \<noteq> MASTER_DATA" "0x3D4 \<noteq> SLAVE_DATA" "0x3D5 \<noteq> SLAVE_DATA"
  by (simp_all add: pic_ports)

lemma rest_updates [simp]:
  "rest (s\<lparr>mem := m\<rparr>) = rest s" "rest (s\<lparr>csr_x := x\<rparr>) = rest s" "rest (s\<lparr>csr_y := x\<rparr>) = rest s"
  "rest (s\<lparr>line_y := x\<rparr>) = rest s" "rest (s\<lparr>terminal_buffer := tb\<rparr>) = rest s" "rest (s\<lparr>buffer_len := bl\<rparr>) = rest s"
  "rest (cli s) = rest s" "rest (sti s) = rest s"
  by (simp_all add: rest_def kern_def cli_def sti_def)

lemma rest_ops [simp]:
  "rest (move_csr s) = rest s" "rest (scroll s) = rest s" "rest (clear_buffer s) = rest s"
proof -
  show "rest (move_csr s) = rest s"
    by (simp add: rest_def) (simp add: move_csr_def outb_def Let_def)
  show "rest (scroll s) = rest s" by (simp add: scroll_def Let_def)
  show "rest (clear_buffer s) = rest s" by (simp add: clear_buffer_def Let_def)
qed

lemma rest_new_line [simp]: "rest (new_line b s) = rest s"
  by (simp add: new_line_def Let_def)

lemma rest_putch_end [simp]: "rest (putch_end s) = rest s"
  by (simp add: putch_end_def Let_def)

lemma rest_putch [simp]: "rest (putch c s) = rest s"
  by (simp add: putch_def Let_def)

lemma rest_clear_screen [simp]: "rest (clear_screen s) = rest s"
  by (simp add: clear_screen_def Let_def)

lemma arrays_updates [simp]:
  "arrays_ok (s\<lparr>mem := m\<rparr>) = arrays_ok s" "arrays_ok (cli s) = arrays_ok s" "arrays_ok (sti s) = arrays_ok s"
  "arrays_ok (move_csr s) = arrays_ok s" "length x = length (csr_x s) \<Longrightarrow> arrays_ok (s\<lparr>csr_x := x\<rparr>) = arrays_ok s"
  "length x = length (csr_y s) \<Longrightarrow> arrays_ok (s\<lparr>csr_y := x\<rparr>) = arrays_ok s"
  "length x = length (line_y s) \<Longrightarrow> arrays_ok (s\<lparr>line_y := x\<rparr>) = arrays_ok s"
  by (simp_all add: arrays_ok_def)

lemma length_fold_update [simp]: "length (fold (\<lambda>i t. t[i := f i]) is t) = length t"
  by (induction "is" arbitrary: t) simp_all

lemma arrays_clear_buffer: "arrays_ok s \<Longrightarrow> arrays_ok (clear_buffer s)"
  by (auto simp: clear_buffer_def Let_def arrays_ok_def list_all_length nth_list_update)

lemma arrays_scroll [simp]: "arrays_ok (scroll s) = arrays_ok s"
  by (simp add: scroll_def Let_def)

lemma arrays_new_line: "arrays_ok s \<Longrightarrow> arrays_ok (new_line b s)"
  by (simp add: new_line_def Let_def arrays_clear_buffer)

lemma arrays_putch_end [simp]: "arrays_ok (putch_end s) = arrays_ok s"
  by (simp add: putch_end_def Let_def)

lemma arrays_putch: "arrays_ok s \<Longrightarrow> arrays_ok (putch c s)"
  by (simp add: putch_def Let_def arrays_new_line)

text \<open>The effect of a message on the parts above.\<close>

definition frame :: "'a page_state_scheme \<Rightarrow> 'a page_state_scheme \<Rightarrow> bool" where
  "frame s s' \<longleftrightarrow> rest s' = rest s \<and> (arrays_ok s \<longrightarrow> arrays_ok s')"

lemma frame_refl [simp]: "frame s s"
  by (simp add: frame_def)

lemma frame_trans [trans]: "frame s t \<Longrightarrow> frame t u \<Longrightarrow> frame s u"
  by (simp add: frame_def)

lemma frame_ops [simp]: "frame s (putch c s)" "frame s (s\<lparr>mem := m\<rparr>)" "frame s (kprint str s)"
proof -
  show p: "frame s (putch c s)" for c s by (simp add: frame_def arrays_putch)
  have "frame s (fold putch cs s)" for cs
    by (induction cs arbitrary: s) (auto intro: frame_trans [OF p])
  then show "frame s (kprint str s)" by (simp add: kprint_def)
  show "frame s (s\<lparr>mem := m\<rparr>)" by (simp add: frame_def)
qed

lemma puts_loop_frame:
  assumes "puts_loop str i s = Some y"
  shows "frame s (snd y)"
proof (rule puts_loop.raw_induct [where P = "\<lambda>str i s y. frame s (snd y)", OF _ assms], goal_cases)
  case (1 loop str i s y)
  show ?case
  proof (cases "mem s (str + i) = 0")
    case False
    with 1(2) have "loop str (i + 1) (putch (mem s (str + i)) s) = Some y" by simp
    from 1(1) [OF this] show ?thesis by (rule frame_trans [OF frame_ops(1)])
  qed (use 1(2) in auto)
qed

lemma puts_mem_frame:
  assumes "puts_mem r a s = Some s'"
  shows "frame s s'"
proof -
  obtain m n where "puts a (s\<lparr>mem := m\<rparr>) = Some (n, s')"
    using assms by (auto simp: puts_mem_def split: option.splits)
  then show ?thesis using puts_loop_frame [of a 0 "s\<lparr>mem := m\<rparr>"] frame_trans [OF frame_ops(2)] by (auto simp: puts_def)
qed

lemma print_frames:
  "print_hex c v b s = Some s' \<Longrightarrow> frame s s'" "print_unsigned c v s = Some s' \<Longrightarrow> frame s s'"
  "print_signed c v s = Some s' \<Longrightarrow> frame s s'" "puts a s = Some (n, s') \<Longrightarrow> frame s s'"
  using puts_loop_frame [of a 0 s]
  by (auto simp: print_hex_def print_unsigned_def print_signed_def puts_def dest!: puts_mem_frame split: if_splits option.splits)

lemma kprintf_frame: "kprintf fs s = Some s' \<Longrightarrow> frame s s'"
proof (induction fs s rule: kprintf.induct)
  case (2 str fs s)
  then show ?case by (auto intro: frame_trans [OF frame_ops(3)])
qed (auto split: option.splits dest!: print_frames intro: frame_trans)

lemma print_module_bytes_frame: "print_module_bytes is md s = Some s' \<Longrightarrow> frame s s'"
  by (induction "is" arbitrary: s) (auto split: option.splits dest!: kprintf_frame intro: frame_trans simp del: kprintf.simps)

lemma frame_fs_start [simp]: "frame s (s\<lparr>fs_start := v\<rparr>)"
  by (simp add: frame_def rest_def kern_def arrays_ok_def)

lemma load_modules_frame:
  assumes "load_modules mbi n md s = Some s'"
  shows "frame s s'"
proof (rule load_modules.raw_induct [where P = "\<lambda>mbi n md s s'. frame s s'", OF _ assms], goal_cases)
  case (1 loop mbi n md s s')
  show ?case
  proof (cases "n < mb_mods_count (mem s) mbi")
    case True
    then obtain s1 s2 s3 where
      "kprintf [Lit ''Module '', Dec n, Lit '' loaded at address: 0x'', Hex8 (load32 (mem s) md), Lit nl] s = Some s1"
      and 2: "kprintf [Lit ''Module '', Dec n, Lit '' ends at address: 0x'', Hex8 (load32 (mem s1) (md + 4)),
        Lit nl, Lit (''First few bytes of module:'' @ nl)] (s1\<lparr>fs_start := load32 (mem s1) md\<rparr>) = Some s2"
      and 3: "print_module_bytes [0..<16] md s2 = Some s3" and 4: "loop mbi (n + 1) (md + 16) (kprint nl s3) = Some s'"
      using 1(2) by (auto simp: Let_def split: option.splits simp del: kprintf.simps upt_Suc)
    have "frame s s1" by (rule kprintf_frame) fact
    also have "frame s1 (s1\<lparr>fs_start := load32 (mem s1) md\<rparr>)" by simp
    also have "frame \<dots> s2" by (rule kprintf_frame [OF 2])
    also have "frame s2 s3" by (rule print_module_bytes_frame [OF 3])
    also have "frame s3 (kprint nl s3)" by simp
    also have "frame \<dots> s'" by (rule 1(1) [OF 4])
    finally show ?thesis .
  qed (use 1(2) in simp)
qed

lemma print_mmap_frame:
  assumes "print_mmap mbi a s = Some s'"
  shows "frame s s'"
proof (rule print_mmap.raw_induct [where P = "\<lambda>mbi a s s'. frame s s'", OF _ assms], goal_cases)
  case (1 loop mbi a s s')
  then show ?case
    by (auto split: if_splits option.splits dest!: kprintf_frame intro: frame_trans simp del: kprintf.simps)
qed

section \<open>The state of a loaded kernel\<close>

text \<open>
  What holds of the kernel's variables before entry runs: the process blocks are zero, no
  process is current, and the arrays have the sizes they are declared with. The interrupt
  controllers read back their masks.
\<close>

definition static_ok :: "'a page_state_scheme \<Rightarrow> bool" where
  "static_ok s \<longleftrightarrow> arrays_ok s \<and> length (pcbs s) = 7
     \<and> (\<forall>i < 7. program_id (pcbs s ! i) = 0 \<and> parent_id (pcbs s ! i) = 0 \<and> table_ok (file_array (pcbs s ! i)))
     \<and> current_pcb s = None \<and> length (terminal_info s) = 3
     \<and> length (page_directories s) = 6 \<and> (\<forall>pd \<in> set (page_directories s). length pd = 1024)
     \<and> length (page_table s) = 1024 \<and> length (page_table_vidmap s) = 1024
     \<and> page_table_at s AND mask 12 = 0 \<and> page_table_vidmap_at s AND mask 12 = 0
     \<and> page_table_at s \<noteq> page_table_vidmap_at s \<and> pic_device (dev s)"

lemma static_frame: "static_ok s \<Longrightarrow> frame s s' \<Longrightarrow> static_ok s'"
  by (simp add: static_ok_def frame_def rest_def kern_def)

lemma when_flag_frame: "when_flag mbi b fs s = Some s' \<Longrightarrow> frame s s'"
  by (auto simp: when_flag_def dest: kprintf_frame split: if_splits)

lemma report_before_frame: "report_before_modules mbi s = Some s' \<Longrightarrow> frame s s'"
  by (auto simp: report_before_modules_def simp del: kprintf.simps split: option.splits
      dest!: kprintf_frame when_flag_frame intro: frame_trans)

lemma report_after_frame: "report_after_modules mbi s = Some (go, s') \<Longrightarrow> frame s s'"
  by (auto simp: report_after_modules_def simp del: kprintf.simps split: option.splits if_splits
      dest!: kprintf_frame when_flag_frame print_mmap_frame intro: frame_trans)

lemma boot_report_frame:
  assumes "boot_report magic addr s = Some (go, s')"
  shows "frame s s'"
proof -
  define s0 where "s0 = s\<lparr>mem := clear_video (mem s)\<rparr>"
  have "frame s s0" by (simp add: s0_def)
  moreover have "frame s0 s'"
  proof (cases "magic = MULTIBOOT_BOOTLOADER_MAGIC")
    case True
    with assms obtain s1 s2 where "report_before_modules addr s0 = Some s1"
      "(if CHECK_FLAG (mb_flags (mem s1) addr) 3 then load_modules addr 0 (mb_mods_addr (mem s1) addr) s1 else Some s1) = Some s2"
      "report_after_modules addr s2 = Some (go, s')"
      by (auto simp: boot_report_def s0_def Let_def split: option.splits)
    then show ?thesis
      by (auto dest!: report_before_frame report_after_frame load_modules_frame intro: frame_trans split: if_splits)
  next
    case False
    with assms show ?thesis by (auto simp: boot_report_def s0_def [symmetric] Let_def simp del: kprintf.simps dest: kprintf_frame)
  qed
  ultimately show ?thesis by (rule frame_trans)
qed

section \<open>The initialisers\<close>

lemma paging_init_ready:
  assumes "static_ok s"
  shows "tables_ok (paging_init s)" "static_ok (paging_init s)" "pcbs (paging_init s) = pcbs s"
proof -
  let ?f = "\<lambda>j. (of_nat j * 0x1000) OR 7 :: u32"
  let ?t = "paging_init s"
  have pt: "fold (\<lambda>j pt. pt[j := ?f j]) [0..<1024] (page_table s) = map ?f [0..<1024]"
    using fold_list_map [of 1024 "page_table s" ?f] assms by (simp add: static_ok_def)
  have p: "page_table ?t = map ?f [0..<1024]"
    using pt by (simp add: paging_init_def Let_def upd_pd_def enablePaging_def ENTRIES_def ATTRIBUTE_1_def loadPageDirectory_def)
  define pd where "pd = (fold (\<lambda>i pd. pd[i := ATTRIBUTE_0]) [0..<ENTRIES] (page_directories s ! 0))
    [VIDEO_OFFSET := page_table_at s OR ATTRIBUTE_1, KERNEL_OFFSET := KERNEL_PAGE]"
  have "length (page_directories s ! 0) = 1024" using assms by (auto simp: static_ok_def)
  then have pd: "length pd = 1024" "page_directories ?t = (page_directories s)[0 := pd]"
    using assms by (simp_all add: pd_def paging_init_def Let_def upd_pd_def enablePaging_def loadPageDirectory_def static_ok_def)
  have o: "pcbs ?t = pcbs s" "current_pcb ?t = current_pcb s" "terminal_info ?t = terminal_info s" "dev ?t = dev s"
    "page_table_vidmap ?t = page_table_vidmap s" "page_table_at ?t = page_table_at s"
    "page_table_vidmap_at ?t = page_table_vidmap_at s"
    by (simp_all add: paging_init_def Let_def upd_pd_def enablePaging_def loadPageDirectory_def)
  have "arrays_ok ?t = arrays_ok s"
    by (simp add: arrays_ok_def paging_init_def Let_def upd_pd_def enablePaging_def loadPageDirectory_def)
  then show "tables_ok ?t" "static_ok ?t" "pcbs ?t = pcbs s"
    using assms o p pd by (auto simp: tables_ok_def static_ok_def dest!: set_update_subset_insert [THEN subsetD])
qed

text \<open>The state before the clock and the timer are programmed.\<close>

definition devices_off :: "'a boot_state_scheme \<Rightarrow> 'a boot_state_scheme" where
  "devices_off s = rtc_init (terminal_init (fs_init (i8259_init (idt_init (paging_init s)))))"

lemma other_rtc_ports [simp]: "RTC_ADDRESS \<noteq> MASTER_DATA" "RTC_ADDRESS \<noteq> SLAVE_DATA" "RTC_DATA \<noteq> MASTER_DATA" "RTC_DATA \<noteq> SLAVE_DATA"
  by (simp_all add: pic_ports RTC_ADDRESS_def RTC_DATA_def)

lemma devices_off_fields:
  fixes s :: "'a boot_state_scheme"
  defines "t \<equiv> devices_off s" and "p \<equiv> paging_init s"
  shows "pcbs t = pcbs p" "current_pcb t = current_pcb p" "dev t = dev p" "page_directories t = page_directories p"
    "page_table t = page_table p" "page_table_vidmap t = page_table_vidmap p" "page_table_at t = page_table_at p"
    "page_table_vidmap_at t = page_table_vidmap_at p" "arrays_ok t = arrays_ok p" "ops_ready t"
    "length (terminal_info p) = 3 \<Longrightarrow> terminal_info t = replicate 3 \<lparr>top_process_id = 0, num_process = 0\<rparr>"
    "n < 16 \<Longrightarrow> irq_masked t n \<longleftrightarrow> n \<noteq> 2"
proof -
  define i where "i = i8259_init (idt_init p)"
  have t: "t = rtc_init (terminal_init (fs_init i))" by (simp add: t_def i_def p_def devices_off_def)
  have i: "pcbs i = pcbs p" "current_pcb i = current_pcb p" "dev i = dev p" "page_directories i = page_directories p"
    "page_table i = page_table p" "page_table_vidmap i = page_table_vidmap p" "page_table_at i = page_table_at p"
    "page_table_vidmap_at i = page_table_vidmap_at p" "arrays_ok i = arrays_ok p" "terminal_info i = terminal_info p"
    by (simp_all add: i_def idt_init_eq i8259_init_def arrays_ok_def outb_def del: upt_Suc fold_simps)
  show "pcbs t = pcbs p" "current_pcb t = current_pcb p" "dev t = dev p" "page_directories t = page_directories p"
    "page_table t = page_table p" "page_table_vidmap t = page_table_vidmap p" "page_table_at t = page_table_at p"
    "page_table_vidmap_at t = page_table_vidmap_at p" "arrays_ok t = arrays_ok p" "ops_ready t"
    using i by (simp_all add: t rtc_init_def terminal_init_def fs_init_def outb_def inb_def Let_def arrays_ok_def ops_ready_def)
  show "terminal_info t = replicate 3 \<lparr>top_process_id = 0, num_process = 0\<rparr>" if "length (terminal_info p) = 3"
    using that i(10) fold_list_map [of 3 "terminal_info p" "\<lambda>_. \<lparr>top_process_id = 0, num_process = 0\<rparr>"]
    by (simp add: t rtc_init_def terminal_init_def fs_init_def outb_def inb_def Let_def MAX_TERMINALS_def map_replicate_const
        del: upt_Suc fold_simps)
  show "irq_masked t n \<longleftrightarrow> n \<noteq> 2" if "n < 16"
  proof -
    have "irq_masked t n = irq_masked i n"
      by (simp add: t irq_masked_def rtc_init_def terminal_init_def fs_init_def inb_def Let_def)
    then show ?thesis using that i8259_init_masked by (simp add: i_def)
  qed
qed

definition devices_on :: "'a boot_state_scheme \<Rightarrow> 'a boot_state_scheme" where
  "devices_on u = (let s = u\<lparr>mem := store32 (mem u) (buf12_at u) 2\<rparr>;
     s = enable_irq 8 (snd (rtc_write (mem s) 0 (buf12_at s) 0 s))
   in enable_irq 0 (snd (pit_init s)))"

lemma kernel_init_split: "kernel_init s = snd (terminal_open 0 ((devices_on (devices_off s))\<lparr>process_number := 0\<rparr>))"
  by (simp add: kernel_init_def devices_on_def devices_off_def Let_def)

lemma devices_on_fields:
  fixes u :: "'a boot_state_scheme"
  defines "t \<equiv> devices_on u"
  assumes "pic_device (dev u)"
  shows "kern t = kern u" "dev t = dev u" "page_directories t = page_directories u"
    "page_table t = page_table u" "page_table_vidmap t = page_table_vidmap u" "page_table_at t = page_table_at u"
    "page_table_vidmap_at t = page_table_vidmap_at u" "arrays_ok t = arrays_ok u"
    "n < 16 \<Longrightarrow> irq_masked t n \<longleftrightarrow> irq_masked u n \<and> n \<noteq> 8 \<and> n \<noteq> 0"
proof -
  define v where "v = u\<lparr>mem := store32 (mem u) (buf12_at u) 2\<rparr>"
  have w: "snd (rtc_write (mem v) 0 (buf12_at v) 0 v) = enable_irq 8 (rtc_set_rate (rtc_rate 2) (disable_irq 8 v))"
    using load_store32 [of "mem u" "buf12_at u" 2] by (simp add: rtc_write_def Let_def v_def)
  define x where "x = enable_irq 8 (enable_irq 8 (rtc_set_rate (rtc_rate 2) (disable_irq 8 v)))"
  have t: "t = enable_irq 0 (snd (pit_init x))"
    unfolding t_def devices_on_def Let_def v_def [symmetric] w x_def by simp
  note defs = t x_def v_def rtc_set_rate_def pit_init_def enable_irq_def disable_irq_def outb_def inb_def Let_def
  show "kern t = kern u" by (simp add: kern_def defs)
  show "dev t = dev u" "page_directories t = page_directories u"
    "page_table t = page_table u" "page_table_vidmap t = page_table_vidmap u" "page_table_at t = page_table_at u"
    "page_table_vidmap_at t = page_table_vidmap_at u"
    by (simp_all add: defs)
  show "arrays_ok t = arrays_ok u" by (simp add: arrays_ok_def defs)
  have pv: "pic_device (dev v)" using assms by (simp add: v_def)
  have dx: "dev x = dev v" by (simp add: x_def)
  have px: "pic_device (dev (snd (pit_init x)))" using pv dx by (simp add: pit_init_def Let_def)
  have mx: "irq_masked (snd (pit_init x)) n = irq_masked x n" for n
    by (simp add: irq_masked_def pit_init_def Let_def pic_ports)
  show "irq_masked t n \<longleftrightarrow> irq_masked u n \<and> n \<noteq> 8 \<and> n \<noteq> 0" if "n < 16"
  proof -
    let ?y = "enable_irq 8 (rtc_set_rate (rtc_rate 2) (disable_irq 8 v))"
    have g: "irq_masked ?y n \<longleftrightarrow> irq_masked v n \<and> n \<noteq> 8"
      using pic.guarded_section(1) [of v 8 n "rtc_set_rate (rtc_rate 2)"] pv that by (simp add: rtc_set_rate_masked)
    have py: "pic_device (dev ?y)" using pv by simp
    have "irq_masked x n \<longleftrightarrow> irq_masked ?y n \<and> n \<noteq> 8"
      using pic.enable_masked [OF py, of 8 n] that by (simp add: x_def)
    moreover have "irq_masked t n \<longleftrightarrow> irq_masked x n \<and> n \<noteq> 0"
      using pic.enable_masked [OF px, of 0 n] that mx by (simp add: t)
    moreover have "irq_masked v n = irq_masked u n" by (simp add: irq_masked_def v_def)
    ultimately show ?thesis using g by auto
  qed
qed

lemma list_all_three: "length xs = 3 \<Longrightarrow> P a \<Longrightarrow> list_all P (xs[0 := a, Suc 0 := a, 2 := a])"
  by (auto simp: list_all_length nth_list_update less_3_cases)

lemma terminal_open_ready:
  fixes s :: "'a boot_state_scheme" and f :: u32
  defines "t \<equiv> snd (terminal_open f s)"
  assumes "arrays_ok s" and "pic_device (dev s)"
  shows "term_ok t" "pages_ok t" "pcbs t = pcbs s" "current_pcb t = current_pcb s" "process_number t = process_number s"
    "terminal_info t = terminal_info s" "curr_terminal t = 0" "ops_ready t = ops_ready s" "dev t = dev s"
    "page_directories t = page_directories s" "page_table t = page_table s" "page_table_vidmap t = page_table_vidmap s"
    "page_table_at t = page_table_at s" "page_table_vidmap_at t = page_table_vidmap_at s"
    "n < 16 \<Longrightarrow> irq_masked t n \<longleftrightarrow> irq_masked s n \<and> n \<noteq> 1"
proof -
  define k where "k = keyboard_init (s\<lparr>attrib := 0x0F\<rparr>)"
  define q where "q = k\<lparr>terminal_ptr := VIDEO_MEM, curr_terminal := 0,
    terminal_memory := (terminal_memory k)[0 := TERMINAL_MEM_1, 1 := TERMINAL_MEM_2, 2 := TERMINAL_MEM_3],
    line_beginning := (line_beginning k)[0 := 0, Suc 0 := 0, 2 := 0], csr_x := (csr_x k)[0 := 0, Suc 0 := 0, 2 := 0],
    csr_y := (csr_y k)[0 := 0, Suc 0 := 0, 2 := 0], line_y := (line_y k)[0 := 0, Suc 0 := 0, 2 := 0]\<rparr>"
  have "[0..<3] = [0, 1, 2 :: nat]" by (simp add: upt_rec)
  then have t: "\<exists>m. t = (clear_screen q)\<lparr>mem := m\<rparr>"
    by (simp add: t_def terminal_open_def Let_def k_def [symmetric] q_def MAX_TERMINALS_def numeral_2_eq_2) blast
  then obtain m where t: "t = (clear_screen q)\<lparr>mem := m\<rparr>" by blast
  have k: "arrays_ok k" "pcbs k = pcbs s" "current_pcb k = current_pcb s" "process_number k = process_number s"
    "terminal_info k = terminal_info s" "ops_ready k = ops_ready s" "dev k = dev s"
    "page_directories k = page_directories s" "page_table k = page_table s" "page_table_vidmap k = page_table_vidmap s"
    "page_table_at k = page_table_at s" "page_table_vidmap_at k = page_table_vidmap_at s"
    using assms(2) by (simp_all add: k_def keyboard_init_def enable_irq_def inb_def outb_def Let_def arrays_ok_def ops_ready_def)
  have "term_ok q" using k(1) by (simp add: q_def arrays_ok_def term_ok_def term_base_def list_all_three)
  then show "term_ok t" using clear_screen_ok [of q] by (simp add: t term_ok_def term_base_def)
  have r: "rest t = rest q" by (simp add: t)
  have "length (terminal_memory k) = 3" using k(1) by (simp add: arrays_ok_def)
  then have "terminal_memory q = [TERMINAL_MEM_1, TERMINAL_MEM_2, TERMINAL_MEM_3]"
    by (auto simp: q_def less_3_cases intro!: nth_equalityI)
  then show "pages_ok t" using r by (simp add: pages_ok_def rest_def) (simp add: q_def)
  have sq: "kern t = kern q" "dev t = dev q" "page_directories t = page_directories q" "page_table t = page_table q"
    "page_table_vidmap t = page_table_vidmap q" "page_table_at t = page_table_at q"
    "page_table_vidmap_at t = page_table_vidmap_at q" "irq_masked t n = irq_masked q n" for n
    using r by (simp_all add: rest_def irq_masked_def)
  show "pcbs t = pcbs s" "current_pcb t = current_pcb s" "process_number t = process_number s"
    "terminal_info t = terminal_info s" "curr_terminal t = 0" "ops_ready t = ops_ready s"
    using sq(1) k by (simp_all add: kern_def q_def ops_ready_def)
  show "dev t = dev s"
    "page_directories t = page_directories s" "page_table t = page_table s" "page_table_vidmap t = page_table_vidmap s"
    "page_table_at t = page_table_at s" "page_table_vidmap_at t = page_table_vidmap_at s"
    using sq k by (simp_all add: q_def)
  show "irq_masked t n \<longleftrightarrow> irq_masked s n \<and> n \<noteq> 1" if "n < 16"
  proof -
    let ?a = "s\<lparr>attrib := 0x0F, enter_flag := 0\<rparr>"
    have "pic_device (dev ?a)" using assms(3) by simp
    then have "irq_masked (enable_irq (of_nat 1) ?a) n \<longleftrightarrow> irq_masked ?a n \<and> n \<noteq> 1"
      using that by (intro pic.enable_masked) simp_all
    moreover have "irq_masked q n = irq_masked (enable_irq (of_nat 1) ?a) n"
      by (simp add: q_def k_def keyboard_init_def irq_masked_def Let_def)
    ultimately show ?thesis using sq(8) by (simp add: irq_masked_def)
  qed
qed

lemma boot_descriptors_frame: "frame s (boot_descriptors s)"
  by (simp add: frame_def rest_def kern_def arrays_ok_def boot_descriptors_def Let_def)

lemma kernel_init_ready:
  assumes "static_ok s"
  shows "runs (kernel_init s) [[], [], []]" "fds_ok (kernel_init s)" "term_ok (kernel_init s)" "pages_ok (kernel_init s)"
    "tables_ok (kernel_init s)" "current_pcb (kernel_init s) = None"
    "\<And>n. n < 16 \<Longrightarrow> irq_masked (kernel_init s) n \<longleftrightarrow> n \<notin> {0, 1, 2, 8}"
proof -
  define u where "u = devices_off s"
  define v where "v = (devices_on u)\<lparr>process_number := 0\<rparr>"
  note p = paging_init_ready [OF assms]
  have sp: "arrays_ok (paging_init s)" "length (terminal_info (paging_init s)) = 3" "current_pcb (paging_init s) = None"
    "pic_device (dev (paging_init s))" using p(2) by (simp_all add: static_ok_def)
  note a = devices_off_fields [where s = s, folded u_def]
  have du: "pic_device (dev u)" using sp(4) a(3) by simp
  note b = devices_on_fields [OF du]
  have v: "arrays_ok v" "pic_device (dev v)"
    using b(2,8) a(9) sp(1) du by (simp_all add: v_def arrays_ok_def)
  have k: "kernel_init s = snd (terminal_open 0 v)" by (simp add: kernel_init_split u_def v_def)
  note c = terminal_open_ready [OF v, where f = 0, folded k]
  note kd = kern_eqD [OF b(1)]
  have pcbs: "pcbs (kernel_init s) = pcbs s" using c(3) kd(1) a(1) p(3) by (simp add: v_def)
  have st: "length (pcbs s) = 7" "\<And>i. i < 7 \<Longrightarrow> program_id (pcbs s ! i) = 0" "\<And>i. i < 7 \<Longrightarrow> parent_id (pcbs s ! i) = 0"
    "\<And>i. i < 7 \<Longrightarrow> table_ok (file_array (pcbs s ! i))" using assms by (simp_all add: static_ok_def)
  show cp: "current_pcb (kernel_init s) = None" using c(4) kd(2) a(2) sp(3) by (simp add: v_def)
  have ti: "terminal_info (kernel_init s) = replicate 3 \<lparr>top_process_id = 0, num_process = 0\<rparr>"
    using c(6) kd(4) a(11) [OF sp(2)] by (simp add: v_def)
  have pn: "process_number (kernel_init s) = 0" using c(5) by (simp add: v_def)
  show "runs (kernel_init s) [[], [], []]"
    using pcbs st cp ti pn c(7) by (auto simp: runs_def less_3_cases)
  have "ops_ready (kernel_init s)" using c(8) a(10) b(1) by (simp add: v_def kern_def ops_ready_def)
  then show "fds_ok (kernel_init s)" using pcbs st by (simp add: fds_ok_def)
  show "term_ok (kernel_init s)" "pages_ok (kernel_init s)" by (rule c(1), rule c(2))
  show "tables_ok (kernel_init s)"
    using p(1) a(4-8) b(3-7) c(10-14) by (simp add: tables_ok_def v_def)
  show "irq_masked (kernel_init s) n \<longleftrightarrow> n \<notin> {0, 1, 2, 8}" if "n < 16" for n
  proof -
    have "irq_masked v n = irq_masked (devices_on u) n" by (simp add: v_def irq_masked_def)
    then show ?thesis using c(15) [OF that] b(9) [OF that] a(12) [OF that] by auto
  qed
qed

lemma term_ok_kprint: "term_ok s \<Longrightarrow> term_ok (kprint str s)"
proof -
  have "term_ok s \<Longrightarrow> term_ok (fold putch cs s)" for cs by (induction cs arbitrary: s) (simp_all add: putch_ok)
  then show "term_ok s \<Longrightarrow> term_ok (kprint str s)" by (simp add: kprint_def)
qed

lemma fold_keeps: "(\<And>x s. P s \<Longrightarrow> P (f x s)) \<Longrightarrow> P s \<Longrightarrow> P (fold f xs s)"
  by (induction xs arbitrary: s) simp_all

text \<open>The boot screen is only output.\<close>

lemma boot_screen_keeps:
  fixes s :: "'a boot_state_scheme"
  shows "term_ok s \<Longrightarrow> term_ok (boot_screen s)" "rest (boot_screen s) = rest s"
proof -
  let ?bar = "\<lambda>(i :: nat). fold (\<lambda>j s. if j mod boot_delay = 0 then kprint ''=> '' s else s) [0..<boot_delay]"
  have t1: "term_ok u \<Longrightarrow> term_ok (?bar i u)" for i and u :: "'a boot_state_scheme"
    by (rule fold_keeps) (simp_all add: term_ok_kprint)
  have t2: "term_ok u \<Longrightarrow> term_ok (fold ?bar is u)" for "is" and u :: "'a boot_state_scheme"
    by (rule fold_keeps [where P = term_ok]) (simp_all only: t1)
  have t3: "term_ok u \<Longrightarrow> term_ok (fold kprint strs u)" for strs and u :: "'a boot_state_scheme"
    by (rule fold_keeps) (simp_all only: term_ok_kprint)
  show "term_ok (boot_screen s)" if "term_ok s"
    unfolding boot_screen_def Let_def by (intro term_ok_kprint clear_screen_ok t2 t3 that)
  have k: "rest (kprint str u) = rest u" for str and u :: "'a boot_state_scheme"
    using frame_ops(3) [of u str] by (simp add: frame_def)
  have r1: "rest u = rest s \<Longrightarrow> rest (?bar i u) = rest s" for i and u :: "'a boot_state_scheme"
    by (rule fold_keeps) (simp_all add: k)
  have r2: "rest u = rest s \<Longrightarrow> rest (fold ?bar is u) = rest s" for "is" and u :: "'a boot_state_scheme"
    by (rule fold_keeps [where P = "\<lambda>u. rest u = rest s"]) (simp_all only: r1)
  have r3: "rest u = rest s \<Longrightarrow> rest (fold kprint strs u) = rest s" for strs and u :: "'a boot_state_scheme"
    by (rule fold_keeps) (simp_all only: k)
  have "rest (clear_screen s) = rest s" by simp
  from r2 [OF r3 [OF this]] show "rest (boot_screen s) = rest s"
    unfolding boot_screen_def Let_def k rest_clear_screen .
qed

lemma rest_kernel:
  assumes "rest s' = rest s"
  shows "runs s' st = runs s st" "fds_ok s' = fds_ok s" "current_pcb s' = current_pcb s" "pages_ok s' = pages_ok s"
    "tables_ok s' = tables_ok s" "irq_masked s' n = irq_masked s n"
proof -
  have k: "kern s' = kern s" using assms by (simp add: rest_def)
  show "runs s' st = runs s st" "fds_ok s' = fds_ok s" "current_pcb s' = current_pcb s"
    using runs_kern [OF k] fds_ok_kern [OF k] kern_eqD(2) [OF k] by simp_all
  show "pages_ok s' = pages_ok s" "tables_ok s' = tables_ok s" "irq_masked s' n = irq_masked s n"
    using assms by (simp_all add: rest_def pages_ok_def tables_ok_def irq_masked_def)
qed

section \<open>Properties\<close>

text \<open>
  C6: the start of the kernel establishes the invariants of all components at once. From the
  state the loader leaves, the report on the boot information, if it ends, changes none of the
  variables the initialisers rely on, and after them and the boot screen no process runs,
  every process block has a well-formed descriptor table behind initialised driver tables, the
  three terminals are well formed with their pages in place, the page tables are set up, and of
  the sixteen interrupt lines exactly the timer, the keyboard, the cascade and the clock are
  open.
\<close>

theorem boot_establishes_invariants:
  assumes "static_ok s" and "s' = boot_screen (kernel_init (boot_descriptors s))"
  shows "runs s' [[], [], []] \<and> fds_ok s' \<and> term_ok s' \<and> pages_ok s' \<and> tables_ok s'
    \<and> (\<forall>n < 16. irq_masked s' n \<longleftrightarrow> n \<notin> {0, 1, 2, 8})
    \<and> (\<forall>go t. boot_report magic addr s = Some (go, t) \<longrightarrow> static_ok t)"
proof -
  have d: "static_ok (boot_descriptors s)" by (rule static_frame [OF assms(1) boot_descriptors_frame])
  note k = kernel_init_ready [OF d]
  note b = boot_screen_keeps [of "kernel_init (boot_descriptors s)", folded assms(2)]
  note r = rest_kernel [OF b(2)]
  have "static_ok t" if "boot_report magic addr s = Some (go, t)" for go t
    by (rule static_frame [OF assms(1) boot_report_frame [OF that]])
  then show ?thesis using k b(1) r by simp
qed

text \<open>A kernel as loaded.\<close>

definition boot_state0 :: boot_state where
  "boot_state0 = (idt_state.extend idt_state0 (boot_state.fields 0x7F0000 0x7F0100 0x7F0104 (\<lambda>_. 0x460010)))
     \<lparr>pcbs := replicate 7 pcb0, current_pcb := None\<rparr>"

lemma boot_state0_static: "static_ok boot_state0"
proof -
  have a: "arrays_ok boot_state0 = arrays_ok fs_state0" "dev boot_state0 = dev fs_state0"
    "terminal_info boot_state0 = terminal_info proc_state1"
    by (simp_all add: arrays_ok_def boot_state0_def idt_state0_def kbd_state0_def proc_state1_def sys_state1_def sys_state0_def
        page_state0_def fs_state.defs page_state.defs sys_state.defs kbd_state.defs idt_state.defs boot_state.defs)
  have p: "page_directories boot_state0 = page_directories page_state0" "page_table boot_state0 = page_table page_state0"
    "page_table_vidmap boot_state0 = page_table_vidmap page_state0" "page_table_at boot_state0 = page_table_at page_state0"
    "page_table_vidmap_at boot_state0 = page_table_vidmap_at page_state0"
    by (simp_all add: boot_state0_def idt_state0_def kbd_state0_def proc_state1_def sys_state1_def sys_state0_def
        page_state.defs sys_state.defs kbd_state.defs idt_state.defs boot_state.defs)
  have c: "pcbs boot_state0 = replicate 7 pcb0" "current_pcb boot_state0 = None" by (simp_all add: boot_state0_def)
  have z: "program_id pcb0 = 0 \<and> parent_id pcb0 = 0 \<and> table_ok (file_array pcb0)"
    by (auto simp: pcb0_def table_ok_def slot_ok_def less_8_cases null_fd_def)
  have f: "arrays_ok fs_state0" "pic_device (dev fs_state0)"
    by (simp_all add: fs_state0_def arrays_ok_def list_all_iff rtc_readback_devices)
  have "length (terminal_info proc_state1) = 3" by (simp add: proc_state1_def)
  then show ?thesis
    using page_state0_ok z f by (simp add: static_ok_def a p c tables_ok_def)
qed

theorem boot_establishes_invariants_witness:
  "runs (boot_screen (kernel_init (boot_descriptors boot_state0))) [[], [], []]
    \<and> irq_masked (boot_screen (kernel_init (boot_descriptors boot_state0))) 3
    \<and> \<not> irq_masked (boot_screen (kernel_init (boot_descriptors boot_state0))) 8"
  using boot_establishes_invariants [OF boot_state0_static refl] by simp

end
