(* ===== verification/Kud_Display.thy ===== *)
theory Kud_Display
  imports Kud_Files
begin

unbundle bit_operations_syntax

text \<open>
  What a terminal shows as a function of the characters written to it. The display of a state
  is everything the output functions read and write: the cells of the screen, the cursors, the
  input line, and the colour. Printing a character depends on the display alone, so the text
  that several system calls print is the concatenation of what each of them prints, whatever
  the program does to its own memory in between.
\<close>

definition cells :: "'a term_state_scheme \<Rightarrow> u8 list" where
  "cells s = load_bytes (mem s) VIDEO_MEM 4000"

definition display :: "'a term_state_scheme \<Rightarrow> _" where
  "display s = (cells s, csr_x s, csr_y s, terminal_buffer s, buffer_len s, curr_terminal s, attrib s, terminal_ptr s)"

lemma displayD:
  assumes "display s' = display s"
  shows "csr_x s' = csr_x s" "csr_y s' = csr_y s" "terminal_buffer s' = terminal_buffer s"
    "buffer_len s' = buffer_len s" "curr_terminal s' = curr_terminal s" "attrib s' = attrib s"
    "terminal_ptr s' = terminal_ptr s" "cells s' = cells s"
    "j < 4000 \<Longrightarrow> mem s' (VIDEO_MEM + of_nat j) = mem s (VIDEO_MEM + of_nat j)"
proof -
  show c: "csr_x s' = csr_x s" "csr_y s' = csr_y s" "terminal_buffer s' = terminal_buffer s"
    "buffer_len s' = buffer_len s" "curr_terminal s' = curr_terminal s" "attrib s' = attrib s"
    "terminal_ptr s' = terminal_ptr s" "cells s' = cells s"
    using assms by (simp_all add: display_def)
  assume "j < 4000"
  then show "mem s' (VIDEO_MEM + of_nat j) = mem s (VIDEO_MEM + of_nat j)"
    using arg_cong [OF c(8), of "\<lambda>xs. xs ! j"] by (simp add: cells_def)
qed

lemma cells_eqI:
  assumes "\<And>j. j < 4000 \<Longrightarrow> mem s' (VIDEO_MEM + of_nat j) = mem s (VIDEO_MEM + of_nat j)"
  shows "cells s' = cells s"
  unfolding cells_def using assms by (intro load_bytes_cong) blast

lemma cells_simps [simp]:
  "cells (s\<lparr>csr_x := a\<rparr>) = cells s" "cells (s\<lparr>csr_y := a\<rparr>) = cells s" "cells (s\<lparr>line_y := a\<rparr>) = cells s"
  "cells (s\<lparr>line_beginning := a\<rparr>) = cells s" "cells (s\<lparr>terminal_buffer := b\<rparr>) = cells s"
  "cells (s\<lparr>buffer_len := l\<rparr>) = cells s" "cells (move_csr s) = cells s" "cells (clear_buffer s) = cells s"
  by (simp_all add: cells_def)

lemma display_simps [simp]:
  "display (move_csr s) = display s" "display (s\<lparr>line_y := a\<rparr>) = display s" "display (s\<lparr>line_beginning := a\<rparr>) = display s"
  by (simp_all add: display_def)

text \<open>Every output function is a function of the display.\<close>

lemma display_cx: "display s' = display s \<Longrightarrow> display (set_cx v s') = display (set_cx v s)"
  by (simp add: display_def)

lemma display_cy: "display s' = display s \<Longrightarrow> display (set_cy v s') = display (set_cy v s)"
  by (simp add: display_def)

lemma display_clear_buffer:
  assumes "display s' = display s"
  shows "display (clear_buffer s') = display (clear_buffer s)"
proof -
  note d = displayD [OF assms]
  show ?thesis unfolding display_def using d by (simp add: clear_buffer_def Let_def)
qed

lemma display_scroll:
  assumes "display s' = display s" and "terminal_ptr s = VIDEO_MEM"
  shows "display (scroll s') = display (scroll s)"
proof -
  note d = displayD [OF assms(1)]
  have b: "blank s' = blank s" using d by (simp add: blank_def)
  have "cells (scroll s') = cells (scroll s)"
  proof (rule cells_eqI)
    fix j :: nat assume j: "j < 4000"
    show "mem (scroll s') (VIDEO_MEM + of_nat j) = mem (scroll s) (VIDEO_MEM + of_nat j)"
    proof (cases "cy s \<ge> 25")
      case True
      then have "cy s' \<ge> 25" using d by simp
      note scroll_byte [OF this j] scroll_byte [OF True j]
      then show ?thesis using assms(2) d(7) d(9) [of "j + 160"] b by (simp split: if_splits)
    qed (use d j in \<open>simp add: scroll_mem\<close>)
  qed
  then show ?thesis unfolding display_def using d by (simp add: scroll_def Let_def)
qed

lemma display_new_line:
  assumes "display s' = display s" and "terminal_ptr s = VIDEO_MEM"
  shows "display (new_line b s') = display (new_line b s)"
proof -
  let ?f = "\<lambda>s. set_cx 0 (set_cy (cy s + 1) s)"
  have c: "cy s' = cy s" by (simp add: displayD(2,5) [OF assms(1)])
  have "display (set_cy (cy s' + 1) s') = display (set_cy (cy s + 1) s)"
    unfolding c by (rule display_cy [OF assms(1)])
  then have 1: "display (?f s') = display (?f s)" by (rule display_cx)
  have 2: "display (scroll (?f s')) = display (scroll (?f s))" by (rule display_scroll [OF 1]) (use assms(2) in simp)
  let ?g = "\<lambda>s. set_ly (cy (move_csr (scroll (?f s)))) (move_csr (scroll (?f s)))"
  have 3: "display (?g s') = display (?g s)" using 2 by (simp only: display_simps)
  show ?thesis unfolding new_line_def Let_def using 3 display_clear_buffer [OF 3] by (cases b) (simp_all only: if_True if_False)
qed

lemma display_putch_end:
  assumes "display s' = display s" and "terminal_ptr s = VIDEO_MEM"
  shows "display (putch_end s') = display (putch_end s)"
proof -
  let ?f = "\<lambda>s. if cx s \<ge> int WIDTH then let s = set_cx 0 s in set_cy (cy s + 1) s else s"
  note d = displayD(1,2,5) [OF assms(1)]
  have x: "cx s' = cx s" and y: "cy (set_cx 0 s') = cy (set_cx 0 s)" by (simp_all add: d)
  have c: "display (set_cx 0 s') = display (set_cx 0 s)" by (rule display_cx [OF assms(1)])
  have "display (?f s') = display (?f s)"
    unfolding Let_def x y using assms(1) display_cy [OF c, of "cy (set_cx 0 s) + 1"] by (cases "cx s \<ge> int WIDTH") simp_all
  then have "display (scroll (?f s')) = display (scroll (?f s))" by (rule display_scroll) (use assms(2) in \<open>simp add: Let_def\<close>)
  then show ?thesis by (simp add: putch_end_def Let_def)
qed

lemma display_putch:
  assumes "display s' = display s" and "term_ok s" and "term_ok s'"
  shows "display (putch c s') = display (putch c s)"
proof -
  note d = displayD [OF assms(1)] and p = term_ok_ptr [OF assms(2)]
  show ?thesis
  proof (cases rule: putch_cases [OF assms(2), of c])
    case 1
    have "display (new_line True s') = display (new_line True s)" by (rule display_new_line [OF assms(1) p])
    from display_putch_end [OF this] show ?thesis using 1 p by (simp add: putch_def)
  next
    case 2
    have "display (if cx s' \<noteq> 0 then set_cx (cx s' - 1) s' else s') = display (if cx s \<noteq> 0 then set_cx (cx s - 1) s else s)"
      using d assms(1) display_cx [OF assms(1)] by simp
    from display_putch_end [OF this] show ?thesis using 2 p by (simp add: putch_def split: if_splits)
  next
    case 3
    let ?k = "VIDEO_MEM + 2 * of_int (cy s * 80 + cx s)"
    let ?t = "\<lambda>s. s\<lparr>mem := store16 (mem s) ?k (glyph c s)\<rparr>"
    have g: "glyph c s' = glyph c s" using d by simp
    have "display (?t s') = display (?t s)"
      unfolding display_def using d g by (simp add: cells_def store16_def) (rule load_bytes_cong, simp add: d(9))
    then have "display (set_cx (cx s + 1) (?t s')) = display (set_cx (cx s + 1) (?t s))" by (rule display_cx)
    from display_putch_end [OF this] show ?thesis
      using putch_printable [OF assms(3) 3(1)] 3(2) d p by simp
  next
    case 4
    then show ?thesis using assms(1) by (simp add: putch_def)
  next
    case 5
    have "\<not> 32 \<le> c" using 5(1) by simp
    then show ?thesis using 5(2-5) display_putch_end [OF assms(1) p] by (simp add: putch_def)
  qed
qed

section \<open>Printing a string of characters\<close>

definition show_text :: "u8 list \<Rightarrow> 'a term_state_scheme \<Rightarrow> 'a term_state_scheme" where
  "show_text cs s = fold putch cs s"

lemma show_text_simps [simp]:
  "show_text [] s = s" "show_text (c # cs) s = show_text cs (putch c s)"
  "show_text (cs @ ds) s = show_text ds (show_text cs s)"
  by (simp_all add: show_text_def)

lemma show_text_ok: "term_ok s \<Longrightarrow> term_ok (show_text cs s)"
  by (induction cs arbitrary: s) (simp_all add: putch_ok)

lemma show_text_leaves: "term_ok s \<Longrightarrow> leaves s (show_text cs s)"
proof (induction cs arbitrary: s)
  case (Cons c cs)
  from leaves_trans [OF putch_leaves [OF Cons.prems] Cons.IH [OF putch_ok [OF Cons.prems]]] show ?case by simp
qed (simp add: leaves_refl)

lemma display_show_text:
  assumes "display s' = display s" and "term_ok s" and "term_ok s'"
  shows "display (show_text cs s') = display (show_text cs s)"
  using assms
proof (induction cs arbitrary: s s')
  case (Cons c cs)
  from Cons.IH [OF display_putch [OF Cons.prems]] Cons.prems show ?case by (simp add: putch_ok)
qed simp

text \<open>Memory off the screen, the region no output touches.\<close>

definition off_screen :: "u32 \<Rightarrow> nat \<Rightarrow> bool" where
  "off_screen a n \<longleftrightarrow> (\<forall>i < n. 4000 \<le> unat (a + of_nat i - VIDEO_MEM))"

lemma off_screen_Suc: "off_screen a (Suc n) \<Longrightarrow> off_screen (a + 1) n \<and> 4000 \<le> unat (a - VIDEO_MEM)"
proof -
  assume a: "off_screen a (Suc n)"
  have "4000 \<le> unat (a + 1 + of_nat i - VIDEO_MEM)" if "i < n" for i
    using a that by (auto simp: off_screen_def add.assoc dest!: spec [of _ "Suc i"])
  moreover have "4000 \<le> unat (a - VIDEO_MEM)" using a by (auto simp: off_screen_def dest!: spec [of _ 0])
  ultimately show ?thesis by (simp add: off_screen_def)
qed

lemma leaves_off_screen:
  assumes "leaves s s'" and "off_screen a n"
  shows "load_bytes (mem s') a n = load_bytes (mem s) a n"
  by (rule load_bytes_cong) (use assms in \<open>simp add: leaves_def off_screen_def\<close>)

lemma write_loop_shows:
  assumes "term_ok s" and "off_screen p n"
  shows "terminal_write_loop n p s = show_text (load_bytes (mem s) p n) s"
  using assms
proof (induction n arbitrary: p s)
  case (Suc n)
  let ?s = "putch (mem s p) s"
  have o: "off_screen (p + 1) n" using off_screen_Suc [OF Suc.prems(2)] by blast
  have "load_bytes (mem ?s) (p + 1) n = load_bytes (mem s) (p + 1) n"
    by (rule leaves_off_screen [OF putch_leaves [OF Suc.prems(1)] o])
  with Suc.IH [OF putch_ok [OF Suc.prems(1)] o] show ?case by (simp add: load_bytes_Suc)
qed simp

lemma terminal_write_shows:
  assumes "term_ok s" and "off_screen buf n" and "buf \<noteq> 0"
  obtains s' where "terminal_write fd buf (int n) s = (of_nat n, s')" "term_ok s'" "leaves s s'"
    "display s' = display (show_text (load_bytes (mem s) buf n) s)"
proof (rule that)
  let ?s = "snd (terminal_write fd buf (int n) s)"
  show "terminal_write fd buf (int n) s = (of_nat n, ?s)" using assms(3) by (simp add: terminal_write_def Let_def)
  show "term_ok ?s" by (rule terminal_write_ok [OF assms(1)])
  show "leaves s ?s" by (rule terminal_write_leaves [OF assms(1)])
  show "display ?s = display (show_text (load_bytes (mem s) buf n) s)"
    using assms(3) write_loop_shows [OF assms(1,2)] by (simp add: terminal_write_def Let_def)
qed

end
