(* ===== verification/Kud_Support.thy ===== *)
theory Kud_Support
  imports Kud_Display
begin

text \<open>
  The library the user programs are linked with: \<^verbatim>\<open>src/syscalls/ece391support.c\<close> and the
  system call stubs of \<^verbatim>\<open>ece391syscall.S\<close>. The string functions work on the memory the
  program sees; loops that stop at a terminator are \<^theory_text>\<open>partial_function (option)\<close>. The
  first group is proved equal to the kernel's own string functions, on every input.
\<close>

section \<open>The string functions\<close>

partial_function (option) ece391_strlen_loop :: "mem \<Rightarrow> u32 \<Rightarrow> u32 \<Rightarrow> u32 option" where
  "ece391_strlen_loop m s len = (if 0 \<noteq> m s then ece391_strlen_loop m (s + 1) (len + 1) else Some len)"

definition ece391_strlen :: "mem \<Rightarrow> u32 \<Rightarrow> u32 option" where
  "ece391_strlen m s = ece391_strlen_loop m s 0"

partial_function (option) ece391_strcpy :: "mem \<Rightarrow> u32 \<Rightarrow> u32 \<Rightarrow> mem option" where
  "ece391_strcpy m dst src =
     (let m' = m(dst := m src) in if 0 \<noteq> m src then ece391_strcpy m' (dst + 1) (src + 1) else Some m')"

text \<open>\<^verbatim>\<open>uint8_t\<close> is unsigned: the difference is taken between numbers from 0 to 255.\<close>

partial_function (option) ece391_strcmp :: "mem \<Rightarrow> u32 \<Rightarrow> u32 \<Rightarrow> int option" where
  "ece391_strcmp m s1 s2 =
     (if m s1 = m s2 then if m s1 = 0 then Some 0 else ece391_strcmp m (s1 + 1) (s2 + 1)
      else Some (uint (m s1) - uint (m s2)))"

fun ece391_strncmp_loop :: "nat \<Rightarrow> mem \<Rightarrow> u32 \<Rightarrow> u32 \<Rightarrow> int" where
  "ece391_strncmp_loop 0 m s1 s2 = 0"
| "ece391_strncmp_loop (Suc n) m s1 s2 =
     (if m s1 = m s2 then if m s1 = 0 \<or> n = 0 then 0 else ece391_strncmp_loop n m (s1 + 1) (s2 + 1)
      else uint (m s1) - uint (m s2))"

definition ece391_strncmp :: "mem \<Rightarrow> u32 \<Rightarrow> u32 \<Rightarrow> u32 \<Rightarrow> int" where
  "ece391_strncmp m s1 s2 n = (if n = 0 then 0 else ece391_strncmp_loop (unat n) m s1 s2)"

function ece391_strrev_loop :: "mem \<Rightarrow> u32 \<Rightarrow> int \<Rightarrow> int \<Rightarrow> mem" where
  "ece391_strrev_loop m s b e =
     (if b < e
      then let tmp = m (s + of_int e);
               m = m(s + of_int e := m (s + of_int b));
               m = m(s + of_int b := tmp)
           in ece391_strrev_loop m s (b + 1) (e - 1)
      else m)"
  by pat_completeness auto
termination
  by (relation "measure (\<lambda>(m, s, b, e). nat (e - b))") auto

definition ece391_strrev :: "mem \<Rightarrow> u32 \<Rightarrow> mem option" where
  "ece391_strrev m s = (case ece391_strlen m s of None \<Rightarrow> None
     | Some len \<Rightarrow> let e = sint (len - 1) in if e \<le> 0 then Some m else Some (ece391_strrev_loop m s 0 e))"

partial_function (option) ece391_itoa_loop :: "mem \<Rightarrow> u32 \<Rightarrow> u32 \<Rightarrow> u32 \<Rightarrow> (mem \<times> u32) option" where
  "ece391_itoa_loop m newval newbuf radix =
     (if newval > 0
      then if radix = 0 \<or> unat (newval mod radix) \<ge> length itoa_lookup then None
           else ece391_itoa_loop (m(newbuf := itoa_lookup ! unat (newval mod radix)))
                  (newval div radix) (newbuf + 1) radix
      else Some (m, newbuf))"

definition ece391_itoa :: "mem \<Rightarrow> u32 \<Rightarrow> u32 \<Rightarrow> u32 \<Rightarrow> mem option" where
  "ece391_itoa m val buf radix =
     (if val = 0 then Some (m(buf := 48, buf + 1 := 0))
      else case ece391_itoa_loop m val buf radix of
             None \<Rightarrow> None
           | Some (m', newbuf) \<Rightarrow> ece391_strrev (m'(newbuf := 0)) buf)"

section \<open>Equality with the kernel's functions\<close>

lemma strlen_loop_eq: "ece391_strlen_loop m (s + len) len = strlen_loop m s len"
proof -
  have 1: "ece391_strlen_loop m (s + len) len = Some r" if "strlen_loop m s len = Some r" for r
    using that
  proof (rule strlen_loop.raw_induct [where P = "\<lambda>m s len r. ece391_strlen_loop m (s + len) len = Some r", rotated], goal_cases)
    case (1 f m s len r)
    then show ?case by (subst ece391_strlen_loop.simps) (auto simp: add.assoc split: if_splits)
  qed
  have 2: "strlen_loop m (p - len) len = Some r" if "ece391_strlen_loop m p len = Some r" for p r
    using that
  proof (rule ece391_strlen_loop.raw_induct [where P = "\<lambda>m p len r. strlen_loop m (p - len) len = Some r", rotated], goal_cases)
    case (1 f m p len r)
    then show ?case using 1(1) [of m "p + 1" "len + 1" r] by (subst strlen_loop.simps) (simp split: if_splits)
  qed
  show ?thesis using 1 2 [of "s + len"] by (cases "strlen_loop m s len"; cases "ece391_strlen_loop m (s + len) len") auto
qed

lemma strlen_eq: "ece391_strlen m s = strlen m s"
  using strlen_loop_eq [of m s 0] by (simp add: ece391_strlen_def strlen_def)

lemma strcpy_eq: "ece391_strcpy m (dest + i) (src + i) = strcpy_loop m dest src i"
proof -
  have 1: "ece391_strcpy m (dest + i) (src + i) = Some r" if "strcpy_loop m dest src i = Some r" for r
    using that
  proof (rule strcpy_loop.raw_induct [where P = "\<lambda>m d c i r. ece391_strcpy m (d + i) (c + i) = Some r", rotated], goal_cases)
    case (1 f m d c i r)
    then show ?case by (subst ece391_strcpy.simps) (auto simp: add.assoc Let_def split: if_splits)
  qed
  have 2: "\<forall>i. strcpy_loop m (d - i) (c - i) i = Some r" if "ece391_strcpy m d c = Some r" for d c r
    using that
  proof (rule ece391_strcpy.raw_induct [where P = "\<lambda>m d c r. \<forall>i. strcpy_loop m (d - i) (c - i) i = Some r", rotated], goal_cases)
    case (1 f m d c r)
    show ?case
    proof
      fix i
      have "strcpy_loop (m(d := m c)) (d - i) (c - i) (i + 1) = Some r" if "m c \<noteq> 0"
        using 1(1) [of "m(d := m c)" "d + 1" "c + 1" r, THEN spec [of _ "i + 1"]] 1(2) that by (simp add: Let_def)
      then show "strcpy_loop m (d - i) (c - i) i = Some r"
        using 1(2) by (subst strcpy_loop.simps) (simp add: Let_def fun_upd_idem_iff split: if_splits)
    qed
  qed
  have 3: "strcpy_loop m dest src i = Some r" if "ece391_strcpy m (dest + i) (src + i) = Some r" for r
    using spec [OF 2 [OF that], of i] by simp
  show ?thesis
    using 1 3 by (cases "strcpy_loop m dest src i"; cases "ece391_strcpy m (dest + i) (src + i)") auto
qed

lemma strrev_loop_same: "ece391_strrev_loop m s b e = strrev_loop m s b e"
proof (induction m s b e rule: strrev_loop.induct)
  case (1 m s b e)
  note IH = 1 [OF _ refl]
  show ?case
    by (subst ece391_strrev_loop.simps, subst strrev_loop.simps)
       (cases "b < e", simp_all only: IH Let_def if_True if_False simp_thms)
qed

lemma strrev_eq: "ece391_strrev m s = strrev m s"
proof -
  have "strrev_loop m s 0 e = m" if "e \<le> 0" for e using that by (subst strrev_loop.simps) simp
  then show ?thesis
    by (simp add: ece391_strrev_def strrev_def strlen_eq strrev_loop_same Let_def
        del: strrev_loop.simps ece391_strrev_loop.simps split: option.split)
qed

lemma itoa_loop_eq: "ece391_itoa_loop m v p radix = itoa_loop m v p radix"
proof -
  have 1: "ece391_itoa_loop m v p radix = Some r" if "itoa_loop m v p radix = Some r" for r
    using that
  proof (rule itoa_loop.raw_induct [where P = "\<lambda>m v p k r. ece391_itoa_loop m v p k = Some r", rotated], goal_cases)
    case (1 f m v p k r)
    then show ?case by (subst ece391_itoa_loop.simps) (auto split: if_splits)
  qed
  have 2: "itoa_loop m v p radix = Some r" if "ece391_itoa_loop m v p radix = Some r" for r
    using that
  proof (rule ece391_itoa_loop.raw_induct [where P = "\<lambda>m v p k r. itoa_loop m v p k = Some r", rotated], goal_cases)
    case (1 f m v p k r)
    then show ?case by (subst itoa_loop.simps) (auto split: if_splits)
  qed
  show ?thesis using 1 2 by (cases "itoa_loop m v p radix"; cases "ece391_itoa_loop m v p radix") auto
qed

lemma itoa_eq: "ece391_itoa m v buf radix = itoa m v buf radix"
  by (simp add: ece391_itoa_def itoa_def strrev_eq itoa_loop_eq split: option.split)

lemma strncmp_loop_decides: "0 < n \<Longrightarrow> ece391_strncmp_loop n m a b = 0 \<longleftrightarrow> strn m a n = strn m b n"
proof (induction n arbitrary: a b)
  case (Suc n)
  have "uint (m a) - uint (m b) = 0 \<longleftrightarrow> m a = m b" by (simp add: word_uint_eq_iff)
  with Suc show ?case by (cases "n = 0") (auto simp: strn_Suc)
qed simp

text \<open>
  C33: the support library of the user programs computes what the kernel's own string
  functions compute, although it is written differently: length, copy, reversal and conversion
  of numbers have the same result on every memory, including when they do not end, and the
  bounded comparison finds the same strings equal.
\<close>

theorem support_equals_kernel:
  "ece391_strlen m a = strlen m a \<and> ece391_strcpy m a b = strcpy m a b \<and> ece391_strrev m a = strrev m a
   \<and> ece391_itoa m v a radix = itoa m v a radix \<and> (ece391_strncmp m a b n = 0 \<longleftrightarrow> strncmp m a b n = 0)"
proof -
  have "ece391_strncmp m a b n = 0 \<longleftrightarrow> strncmp m a b n = 0"
  proof (cases "n = 0")
    case False
    then have "0 < unat n" by (simp add: unat_gt_0)
    from strncmp_loop_decides [OF this, of m a b] False show ?thesis
      by (simp add: ece391_strncmp_def strncmp_def strncmp_loop_eq_0)
  qed (simp add: ece391_strncmp_def strncmp_def)
  then show ?thesis using strcpy_eq [of m a 0 b] by (simp add: strlen_eq strrev_eq itoa_eq strcpy_def)
qed

end
