(* ===== verification/Kud_Exec.thy ===== *)
theory Kud_Exec
  imports Kud_Process
begin

unbundle bit_operations_syntax

text \<open>
  Running a program from end to end: \<^verbatim>\<open>execute\<close> composed with the directory lookup, the
  check of the header, the new page directory and the copy of the image. The parts are proved
  correct in their own theories; here they meet in one memory, in which each of them must
  leave alone what the next one reads.
\<close>

section \<open>Regions as sets\<close>

definition span :: "u32 \<Rightarrow> nat \<Rightarrow> u32 set" where
  "span a n = {x. unat (x - a) < n}"

lemma span_add [intro]: "i < n \<Longrightarrow> n \<le> 4294967296 \<Longrightarrow> a + of_nat i \<in> span a n"
  by (simp add: span_def unat_of_nat32)

lemma span_mono: "n \<le> n' \<Longrightarrow> span a n \<subseteq> span a n'"
  by (auto simp: span_def)

lemma span_sub:
  assumes "k + n \<le> n'" and "n' \<le> 4294967296"
  shows "span (a + of_nat k) n \<subseteq> span a n'"
proof
  fix x assume "x \<in> span (a + of_nat k) n"
  then obtain y where y: "x = a + of_nat k + y" "unat y < n"
    by (metis (no_types, lifting) add_diff_cancel_left' diff_add_cancel add.commute mem_Collect_eq span_def)
  have "k < 4294967296" using assms y(2) by linarith
  then have "unat (of_nat k + y) = k + unat y" using y(2) assms by (simp add: unat_add32 unat_of_nat32)
  moreover have "x - a = of_nat k + y" by (simp add: y(1))
  ultimately show "x \<in> span a n'" using y(2) assms(1) by (simp add: span_def)
qed

lemma span_apart:
  assumes "n \<le> k" and "k + n' \<le> 4294967296"
  shows "span a n \<inter> span (a + of_nat k) n' = {}"
proof -
  have False if "unat (x - a) < n" "unat (x - (a + of_nat k)) < n'" for x
  proof -
    obtain y where y: "x = a + of_nat k + y" by (metis add.commute diff_add_cancel)
    then have "unat y < n'" "unat (of_nat k + y) < n" using that by (simp_all add: add.assoc)
    moreover then have "unat (of_nat k + y) = k + unat y" using assms by (simp add: unat_add32 unat_of_nat32)
    ultimately show False using assms(1) by simp
  qed
  then show ?thesis by (auto simp: span_def)
qed

lemma span_clear:
  assumes "span c n \<inter> span e k = {}" and "n \<le> 4294967296"
  shows "clear_of c n e k"
  unfolding clear_of_def
proof (intro allI impI)
  fix j assume "j < n"
  then have "c + of_nat j \<in> span c n" using assms(2) by blast
  then have "c + of_nat j \<notin> span e k" using assms(1) by blast
  then show "k \<le> unat (c + of_nat j - e)" by (simp add: span_def)
qed

lemma store_outside_span: "x \<notin> span e (length bs) \<Longrightarrow> length bs < 4294967296 \<Longrightarrow> store_bytes m e bs x = m x"
  by (rule store_bytes_outside) (simp_all add: span_def)

lemma filled_outside_span: "x \<notin> span d n \<Longrightarrow> filled m d n f x = m x"
  by (simp add: filled_def span_def)

text \<open>Two memories with the same bytes in a region.\<close>

definition agree :: "u32 set \<Rightarrow> mem \<Rightarrow> mem \<Rightarrow> bool" where
  "agree A m' m \<longleftrightarrow> (\<forall>x \<in> A. m' x = m x)"

lemma agreeD: "agree A m' m \<Longrightarrow> x \<in> A \<Longrightarrow> m' x = m x"
  by (simp add: agree_def)

lemma agree_sub: "agree A m' m \<Longrightarrow> B \<subseteq> A \<Longrightarrow> agree B m' m"
  by (auto simp: agree_def)

lemma agree_trans: "agree A m2 m1 \<Longrightarrow> agree A m1 m0 \<Longrightarrow> agree A m2 m0"
  by (simp add: agree_def)

lemma cstring_agree:
  assumes "cstring m c xs" and "agree (span c (Suc (length xs))) m' m"
  shows "cstring m' c xs"
proof -
  have "cstring m' c xs = cstring m c xs"
  proof (rule cstring_cong)
    fix k assume "k \<le> length xs"
    then have "c + of_nat k \<in> span c (Suc (length xs))" using assms(1) by (intro span_add) (auto simp: cstring_def)
    then show "m' (c + of_nat k) = m (c + of_nat k)" by (rule agreeD [OF assms(2)])
  qed
  with assms(1) show ?thesis by simp
qed

section \<open>The file system in memory\<close>

text \<open>What a lookup and a read of the first \<open>l\<close> bytes of inode \<open>k\<close> depend on.\<close>

definition disk :: "'a fs_state_scheme \<Rightarrow> u32 \<Rightarrow> nat \<Rightarrow> u32 set" where
  "disk s k l = span (bootblock s) 4096 \<union> span (inode_at s k) 4096 \<union> file_addr s k ` {..<l}"

lemma disk_boot: "span (bootblock s) 4096 \<subseteq> disk s k l"
  by (auto simp: disk_def)

definition same_fs :: "'b fs_state_scheme \<Rightarrow> 'a fs_state_scheme \<Rightarrow> bool" where
  "same_fs s' s \<longleftrightarrow> bootblock s' = bootblock s \<and> inodes_array s' = inodes_array s \<and> data_array s' = data_array s"

text \<open>The last directory entry with the given name.\<close>

definition find_name :: "'a fs_state_scheme \<Rightarrow> u8 list \<Rightarrow> dentry_t option" where
  "find_name s name =
     (let ms = filter (\<lambda>i. strn (mem s) (dir_entry s (of_nat i)) 32 = take 32 name) [0..<unat (num_dir_entries s)]
      in if ms = [] then None else Some (load_dentry (mem s) (dir_entry s (of_nat (last ms)))))"

lemma lookup_name:
  assumes "cstring (mem s) nm name"
  shows "read_dentry_by_name s nm d = (case find_name s name of None \<Rightarrow> (- 1, d) | Some e \<Rightarrow> (0, e))"
proof -
  have "name_matches s nm = (\<lambda>i. strn (mem s) (dir_entry s (of_nat i)) 32 = take 32 name)"
    using strn_cstring [OF assms, of 32] by (auto simp: fun_eq_iff name_matches_def)
  then show ?thesis by (simp add: read_dentry_by_name_eq find_name_def Let_def)
qed

lemma load32_agree: "(\<And>i. i < 4 \<Longrightarrow> m' (a + of_nat i) = m (a + of_nat i)) \<Longrightarrow> load32 m' a = load32 m a"
proof -
  assume e: "\<And>i. i < 4 \<Longrightarrow> m' (a + of_nat i) = m (a + of_nat i)"
  show "load32 m' a = load32 m a"
    using e [of 0] e [of 1] e [of 2] e [of 3] by (simp add: load32_def)
qed

lemma load32_span:
  assumes "agree (span b 4096) m' m" and "a = b + of_nat k" and "k + 4 \<le> 4096"
  shows "load32 m' a = load32 m a"
proof (rule load32_agree)
  fix i :: nat assume "i < 4"
  then have "b + of_nat (k + i) \<in> span b 4096" using assms(3) by (intro span_add) simp_all
  then show "m' (a + of_nat i) = m (a + of_nat i)" using agreeD [OF assms(1)] by (simp add: assms(2) add.assoc)
qed

lemma load_bytes_span:
  assumes "agree (span b 4096) m' m" and "a = b + of_nat k" and "k + n \<le> 4096"
  shows "load_bytes m' a n = load_bytes m a n"
proof (rule load_bytes_cong)
  fix i :: nat assume "i < n"
  then have "b + of_nat (k + i) \<in> span b 4096" using assms(3) by (intro span_add) simp_all
  then show "m' (a + of_nat i) = m (a + of_nat i)" using agreeD [OF assms(1)] by (simp add: assms(2) add.assoc)
qed

lemma find_name_agree:
  assumes "same_fs s' s" and "agree (span (bootblock s) 4096) (mem s') (mem s)"
    and "unat (num_dir_entries s) \<le> 63"
  shows "find_name s' name = find_name s name"
proof -
  have b: "bootblock s' = bootblock s" using assms(1) by (simp add: same_fs_def)
  have n: "num_dir_entries s' = num_dir_entries s"
    using load32_span [OF assms(2), where a = "bootblock s" and k = 0] by (simp add: num_dir_entries_def b)
  have d: "dir_entry s' i = dir_entry s i" for i by (simp add: dir_entry_def b)
  have at: "dir_entry s (of_nat i) = bootblock s + of_nat (64 + 64 * i)" for i
    by (simp add: dir_entry_def algebra_simps)
  have str: "strn (mem s') (dir_entry s (of_nat i)) 32 = strn (mem s) (dir_entry s (of_nat i)) 32" if "i < 63" for i
    using load_bytes_span [OF assms(2) at, where n = 32] that by (simp add: strn_def)
  have ld: "load_dentry (mem s') (dir_entry s (of_nat i)) = load_dentry (mem s) (dir_entry s (of_nat i))" if "i < 63" for i
  proof -
    let ?a = "dir_entry s (of_nat i)"
    have e: "?a + 32 = bootblock s + of_nat (64 + 64 * i + 32)" "?a + 36 = bootblock s + of_nat (64 + 64 * i + 36)"
      "?a + 40 = bootblock s + of_nat (64 + 64 * i + 40)" by (simp_all add: at)
    have "load_bytes (mem s') ?a 32 = load_bytes (mem s) ?a 32"
      by (rule load_bytes_span [OF assms(2) at]) (use that in simp)
    moreover have "load32 (mem s') (?a + 32) = load32 (mem s) (?a + 32)"
      by (rule load32_span [OF assms(2) e(1)]) (use that in simp)
    moreover have "load32 (mem s') (?a + 36) = load32 (mem s) (?a + 36)"
      by (rule load32_span [OF assms(2) e(2)]) (use that in simp)
    moreover have "load_bytes (mem s') (?a + 40) 24 = load_bytes (mem s) (?a + 40) 24"
      by (rule load_bytes_span [OF assms(2) e(3)]) (use that in simp)
    ultimately show ?thesis by (simp only: load_dentry_def)
  qed
  let ?P = "\<lambda>m i. strn m (dir_entry s (of_nat i)) 32 = take 32 name"
  have f: "filter (?P (mem s')) [0..<unat (num_dir_entries s)] = filter (?P (mem s)) [0..<unat (num_dir_entries s)]"
    by (rule filter_cong) (use str assms(3) in auto)
  have "last ms < 63" if "ms = filter (?P (mem s)) [0..<unat (num_dir_entries s)]" "ms \<noteq> []" for ms
  proof -
    have "last ms \<in> set ms" by (rule last_in_set) (rule that(2))
    then show ?thesis using that(1) assms(3) by auto
  qed
  then show ?thesis unfolding find_name_def n d f Let_def by (simp add: ld)
qed

lemma inode_agree:
  assumes "same_fs s' s" and "agree (span (inode_at s k) 4096) (mem s') (mem s)"
  shows "inode_at s' k = inode_at s k" "inode_length s' k (mem s') = inode_length s k (mem s)"
    "n < 1023 \<Longrightarrow> inode_block s' k (of_nat n) (mem s') = inode_block s k (of_nat n) (mem s)"
    "j < 1023 * 4096 \<Longrightarrow> file_addr s' k j = file_addr s k j"
proof -
  show at: "inode_at s' k = inode_at s k" using assms(1) by (simp add: same_fs_def inode_at_def)
  show "inode_length s' k (mem s') = inode_length s k (mem s)"
    using load32_span [OF assms(2), where a = "inode_at s k" and k = 0] by (simp add: inode_length_def at)
  have bl: "inode_block s' k (of_nat n) (mem s') = inode_block s k (of_nat n) (mem s)" if "n < 1023" for n
    using load32_span [OF assms(2), where a = "inode_at s k + 4 + 4 * of_nat n" and k = "4 + 4 * n"] that
    by (simp add: inode_block_def at)
  then show "n < 1023 \<Longrightarrow> inode_block s' k (of_nat n) (mem s') = inode_block s k (of_nat n) (mem s)" .
  show "file_addr s' k j = file_addr s k j" if "j < 1023 * 4096"
  proof -
    have "j div 4096 < 1023" using that by auto
    from bl [OF this] show ?thesis using assms(1) by (simp add: file_addr_def data_block_def same_fs_def)
  qed
qed

lemma disk_agree:
  assumes "same_fs s' s" and "agree (disk s k l) (mem s') (mem s)" and "l \<le> 1023 * 4096"
  shows "disk s' k l = disk s k l" "j < l \<Longrightarrow> file_byte s' k j = file_byte s k j"
    "inode_length s' k (mem s') = inode_length s k (mem s)"
proof -
  have a: "agree (span (inode_at s k) 4096) (mem s') (mem s)" by (rule agree_sub [OF assms(2)]) (auto simp: disk_def)
  note i = inode_agree [OF assms(1) a]
  have f: "file_addr s' k j = file_addr s k j" if "j < l" for j using i(4) [of j] that assms(3) by simp
  then show "disk s' k l = disk s k l" using assms(1) i(1) by (auto simp: disk_def same_fs_def image_iff)
  show "file_byte s' k j = file_byte s k j" if "j < l"
    using that f [OF that] agreeD [OF assms(2), of "file_addr s k j"] by (simp add: file_byte_def disk_def)
  show "inode_length s' k (mem s') = inode_length s k (mem s)" by (rule i(2))
qed

lemma disk_off_image:
  assumes "disk s k l \<inter> span buf n = {}" and "l' \<le> l"
  shows "off_image s k l' buf n"
  unfolding off_image_def
proof (intro conjI allI impI)
  fix i :: nat assume "i < 4096"
  then have "inode_at s k + of_nat i \<in> disk s k l" by (auto simp: disk_def)
  then have "inode_at s k + of_nat i \<notin> span buf n" using assms(1) by blast
  then show "n \<le> unat (inode_at s k + of_nat i - buf)" by (simp add: span_def)
next
  fix j assume "j < l'"
  then have "file_addr s k j \<in> disk s k l" using assms(2) by (auto simp: disk_def)
  then have "file_addr s k j \<notin> span buf n" using assms(1) by blast
  then show "n \<le> unat (file_addr s k j - buf)" by (simp add: span_def)
qed

section \<open>The stages of execute\<close>

text \<open>The addresses the compiler and the linker chose, and the file system's place.\<close>

definition places :: "'a sys_state_scheme \<Rightarrow> _" where
  "places s = (elf_header_at s, image_buf_at s, dentry_junk s, pcbs_at s, bootblock s, inodes_array s, data_array s, oob_flags s)"

lemma places_eqD:
  assumes "places s' = places s"
  shows "elf_header_at s' = elf_header_at s" "image_buf_at s' = image_buf_at s" "dentry_junk s' = dentry_junk s"
    "cmd_name s' i = cmd_name s i" "cmd_args s' i = cmd_args s i" "same_fs s' s"
    "oob_flags s' = oob_flags s"
  using assms by (simp_all add: places_def cmd_name_def cmd_args_def pcb_at_def same_fs_def)

lemma places_simps [simp]:
  "places (s\<lparr>mem := m\<rparr>) = places s" "places (cli s) = places s" "places (send_eoi k s) = places s"
  "places (upd_pcb i f s) = places s" "places (loadPageDirectory n s) = places s" "places (upd_pd n g s) = places s"
  by (simp_all add: places_def cli_def send_eoi_def outb_def upd_pcb_def loadPageDirectory_def upd_pd_def Let_def)

text \<open>Where the copy of a new process block goes.\<close>

definition stack_copy_at :: "nat \<Rightarrow> u32" where
  "stack_copy_at i = get_kernel_stack_ptr (of_nat i) - 4 * KERNEL_STACK_OFFSET"

text \<open>Everything execute writes while it prepares program \<open>i\<close> with an image of \<open>l\<close> bytes.\<close>

definition exec_writes :: "'a sys_state_scheme \<Rightarrow> nat \<Rightarrow> nat \<Rightarrow> u32 set" where
  "exec_writes s i l = span (stack_copy_at i) 618 \<union> span (cmd_name s i) 256 \<union> span (elf_header_at s) 52
     \<union> span (image_buf_at s) l"

lemma cmd_args_name: "cmd_args s i = cmd_name s i + of_nat 128"
  by (simp add: cmd_args_def cmd_name_def)

lemma block_strings:
  assumes "length name < 128" and "length args < 128"
  shows "span (cmd_name s i) (Suc (length name)) \<subseteq> span (cmd_name s i) 256"
    "span (cmd_args s i) (Suc (length args)) \<subseteq> span (cmd_name s i) 256"
  using assms span_mono [of "Suc (length name)" 256 "cmd_name s i"] span_sub [of 128 "Suc (length args)" 256 "cmd_name s i"]
  by (simp_all add: cmd_args_name)

lemma agree_store: "length bs < 4294967296 \<Longrightarrow> A \<inter> span e (length bs) = {} \<Longrightarrow> agree A (store_bytes m e bs) m"
  by (auto simp: agree_def intro!: store_outside_span)

lemma agree_filled: "A \<inter> span d n = {} \<Longrightarrow> agree A (filled m d n f) m"
  by (auto simp: agree_def intro!: filled_outside_span)

lemma load32_agree_span: "agree (span a 4) m' m \<Longrightarrow> load32 m' a = load32 m a"
  by (rule load32_agree) (simp add: agree_def span_add)

lemma store32_agree: "agree (- span a 4) (store32 m a v) m"
  by (auto simp: agree_def store32_def span_def)

lemma spawned_mem:
  assumes "find_free_pcb s = of_nat i"
  shows "\<exists>raw. mem (spawned i s) = store_bytes (mem s) (stack_copy_at i) raw \<and> length raw \<le> 618"
    and "places (spawned i s) = places s"
proof -
  let ?s = "s\<lparr>process_number := process_number s + 1\<rparr>"
  have id: "find_free_pcb (upd_pcb i (set_fd k b) (upd_pcb i (set_fd l a) ?s)) = of_nat i" for k l a b
    unfolding assms [symmetric] by (rule find_free_pcb_cong) (simp add: map_program_id_set_fd)
  have "\<exists>raw. mem (snd (pcb_init i ?s)) = store_bytes (mem s) (stack_copy_at i) raw \<and> length raw \<le> 618"
    unfolding pcb_init_def Let_def snd_conv id stack_copy_at_def
    by (simp, rule exI, rule conjI, rule refl, simp add: pcb_raw_def FD_SIZE_def)
  then show "\<exists>raw. mem (spawned i s) = store_bytes (mem s) (stack_copy_at i) raw \<and> length raw \<le> 618"
    by (simp add: spawned_def link_parent_def Let_def split: option.split)
  have "places (snd (pcb_init i ?s)) = places s" by (simp add: pcb_init_def Let_def) (simp add: places_def upd_pcb_def)
  then show "places (spawned i s) = places s" by (simp add: spawned_def link_parent_def Let_def split: option.split)
qed

text \<open>The block is copied, then the command is split into the block's two strings.\<close>

lemma command_stage:
  assumes free: "find_free_pcb s = of_nat i" and cmd: "cstring (mem s) command (name @ replicate k 32 @ args)"
    and nn: "command \<noteq> 0" "name \<noteq> []" "32 \<notin> set name" "args = [] \<or> 0 < k \<and> hd args \<noteq> 32"
    and len: "length name < 128" "length args < 128" "length name + k + length args < 4294967294"
    and apart: "span command (Suc (length name + k + length args)) \<inter> (span (stack_copy_at i) 618 \<union> span (cmd_name s i) 256) = {}"
  obtains s2 where "check_command command (cmd_name s i) (cmd_args s i) (spawned i s) = Some (0, s2)"
    "s2 = (spawned i s)\<lparr>mem := mem s2\<rparr>" "cstring (mem s2) (cmd_name s i) name" "cstring (mem s2) (cmd_args s i) args"
    "\<And>A. A \<inter> (span (stack_copy_at i) 618 \<union> span (cmd_name s i) 256) = {} \<Longrightarrow> agree A (mem s2) (mem s)"
proof -
  let ?s1 = "spawned i s" and ?nm = "cmd_name s i" and ?ar = "cmd_args s i"
  let ?all = "name @ replicate k 32 @ args"
  let ?m2 = "store_bytes (store_bytes (mem ?s1) ?nm (name @ [0])) ?ar (args @ [0])"
  obtain raw where raw: "mem ?s1 = store_bytes (mem s) (stack_copy_at i) raw" "length raw \<le> 618"
    using spawned_mem(1) [OF free] by blast
  have a1: "agree A (mem ?s1) (mem s)" if "A \<inter> span (stack_copy_at i) 618 = {}" for A
    unfolding raw(1) using that raw(2) span_mono [OF raw(2), of "stack_copy_at i"] by (intro agree_store) auto
  have sub: "span ?nm (Suc (length name)) \<subseteq> span ?nm 256" "span ?ar (Suc (length args)) \<subseteq> span ?nm 256"
    by (rule block_strings [OF len(1,2)])+
  have split: "span ?nm (Suc (length name)) \<inter> span ?ar (Suc (length args)) = {}"
    unfolding cmd_args_name by (rule span_apart) (use len(1,2) in simp_all)
  have cmd1: "cstring (mem ?s1) command ?all" by (rule cstring_agree [OF cmd a1]) (use apart in \<open>auto simp: add.assoc\<close>)
  have c: "clear_of command (Suc (length name + k + length args)) ?nm (Suc (length name))"
    "clear_of command (Suc (length name + k + length args)) ?ar (Suc (length args))"
    "clear_of ?nm (Suc (length name)) ?ar (Suc (length args))"
    by (rule span_clear; use apart sub split len in auto)+
  have first: "mem ?s1 command \<noteq> 32" using cstring_at [of "mem ?s1" command "[]" ?all] cmd1 nn(2,3) by (cases name) auto
  have run: "check_command command ?nm ?ar ?s1 = Some (0, ?s1\<lparr>mem := ?m2\<rparr>)"
    using split_command_run [OF cmd1 nn(3,4) c(1,2) len(3)] nn(1) first by (simp add: check_command_def)
  have z: "0 \<notin> set name" "0 \<notin> set args" using cmd by (auto simp: cstring_def)
  show thesis
  proof (rule that [OF run])
    have "cstring (store_bytes (mem ?s1) ?nm (name @ [0])) ?nm name" by (rule cstring_store [OF z(1)]) (use len in simp)
    then show "cstring (mem (?s1\<lparr>mem := ?m2\<rparr>)) ?nm name" using cstring_store_clear [of _ ?nm name ?ar "args @ [0]"] c(3) len by simp
    show "cstring (mem (?s1\<lparr>mem := ?m2\<rparr>)) ?ar args" using cstring_store [OF z(2)] len by simp
    fix A assume A: "A \<inter> (span (stack_copy_at i) 618 \<union> span ?nm 256) = {}"
    have "agree A ?m2 (store_bytes (mem ?s1) ?nm (name @ [0]))" by (rule agree_store) (use A sub len in auto)
    moreover have "agree A (store_bytes (mem ?s1) ?nm (name @ [0])) (mem ?s1)" by (rule agree_store) (use A sub len in auto)
    ultimately show "agree A (mem (?s1\<lparr>mem := ?m2\<rparr>)) (mem s)" using a1 [of A] A by (auto intro: agree_trans)
  qed simp
qed

text \<open>The header is read and checked; only the local header variable changes.\<close>

lemma elf_agree:
  assumes "\<And>j. j < 52 \<Longrightarrow> file_byte s' k j = file_byte s k j"
  shows "elf_entry s' k = elf_entry s k" "elf_ok s' k = elf_ok s k"
proof -
  show e: "elf_entry s' k = elf_entry s k" using assms by (simp add: elf_entry_def load32_def)
  have "map (file_byte s' k) [0..<4] = map (file_byte s k) [0..<4]" using assms by (intro map_cong) simp_all
  then show "elf_ok s' k = elf_ok s k" by (simp only: elf_ok_def e)
qed

lemma header_stage:
  assumes "cstring (mem s) nm name" and "find_name s name = Some e" and "inode e \<noteq> 0" and "elf_ok s (inode e)"
    and "52 \<le> l" and "l = unat (inode_length s (inode e) (mem s))" and "disk s (inode e) l \<inter> span (elf_header_at s) 52 = {}"
  obtains s3 where "check_executable nm s = (0, elf_entry s (inode e), s3)" "s3 = s\<lparr>mem := mem s3\<rparr>"
    "\<And>A. A \<inter> span (elf_header_at s) 52 = {} \<Longrightarrow> agree A (mem s3) (mem s)"
proof -
  let ?s3 = "s\<lparr>mem := filled (mem s) (elf_header_at s) 52 (file_byte s (inode e))\<rparr>"
  have "read_dentry_by_name s nm (dentry_junk s) = (0, e)" using assms(2) by (simp add: lookup_name [OF assms(1)])
  then have "check_executable nm s = (0, elf_entry s (inode e), ?s3)"
    using check_executable_found [of s nm e] disk_off_image [OF assms(7,5)] assms(3-6) by simp
  then show thesis by (rule that) (simp_all add: agree_filled)
qed

text \<open>The page directory is exchanged and the image copied into the program page.\<close>

lemma new_task_pd_agree:
  assumes "new_task_pd pid s = Some (r, s')"
  shows "A \<inter> Collect in_window = {} \<Longrightarrow> agree A (mem s') (mem s)"
    and "places s' = places s"
  using assms by (auto simp: new_task_pd_def Let_def loadPageDirectory_def agree_def upd_pd_def places_def split: if_splits)

lemma image_copied:
  assumes "cstring (mem s) nm name" and "find_name s name = Some e" and "l = unat (inode_length s (inode e) (mem s))"
    and "2 \<le> l mod 4096" and "l \<le> 0x3B8000" and "disk s (inode e) l \<inter> span buf l = {}"
    and "IMAGE_START \<notin> span buf l"
  shows "load_bytes (mem (snd (copy_file_image buf d nm s))) IMAGE_START l = map (file_byte s (inode e)) [0..<l]"
    and "A \<inter> (span buf l \<union> span IMAGE_START l) = {} \<Longrightarrow> agree A (mem (snd (copy_file_image buf d nm s))) (mem s)"
proof -
  let ?f = "file_byte s (inode e)" and ?len = "inode_length s (inode e) (mem s)"
  let ?m = "filled (mem s) buf l ?f"
  have rd: "snd (read_data s (inode e) 0 buf ?len) = ?m"
    using read_data_prefix [of ?len s "inode e" buf] assms(3-5) disk_off_image [OF assms(6)] by simp
  have fwd: "forward_ok IMAGE_START buf l" using assms(7) by (simp add: forward_ok_def span_def)
  have c: "mem (snd (copy_file_image buf d nm s)) = copied ?m IMAGE_START buf l"
    using lookup_name [OF assms(1), of d] assms(2) memcpy_copied [of IMAGE_START buf ?len ?m] fwd assms(3)
    by (simp add: copy_file_image_def Let_def rd)
  have l: "l < 4294967296" using assms(5) by simp
  have "load_bytes ?m buf l = map ?f [0..<l]" by (rule load_bytes_filled [OF l])
  then show "load_bytes (mem (snd (copy_file_image buf d nm s))) IMAGE_START l = map ?f [0..<l]"
    using l by (simp add: c load_bytes_copied)
  assume A: "A \<inter> (span buf l \<union> span IMAGE_START l) = {}"
  then show "agree A (mem (snd (copy_file_image buf d nm s))) (mem s)"
    unfolding c copied_filled by (intro agree_trans [OF agree_filled agree_filled]) auto
qed

lemma image_in_window:
  assumes "x \<in> span IMAGE_START l" and "l \<le> 0x3B8000"
  shows "in_window x"
proof -
  obtain y where y: "x = IMAGE_START + y" by (metis add.commute diff_add_cancel)
  then have "unat y < 0x3B8000" using assms by (simp add: span_def)
  then have "unat x = 0x8048000 + unat y" by (simp add: y IMAGE_START_def unat_add32)
  then have "unat (drop_bit 22 x) = 0x20" using \<open>unat y < 0x3B8000\<close> by (simp add: drop_bit_eq_div unat_div)
  then have "unat (drop_bit 22 x) = unat (0x20 :: u32)" by simp
  then show ?thesis unfolding in_window_def by (simp only: word_unat_eq_iff)
qed

text \<open>
  How the pieces lie in memory: what is read of the file system is written by no stage and does
  not depend on the loaded directory, and neither do the strings in the process block and the
  buffer for the image.
\<close>

definition layout_ok :: "'a sys_state_scheme \<Rightarrow> nat \<Rightarrow> u32 \<Rightarrow> nat \<Rightarrow> bool" where
  "layout_ok s i k l \<longleftrightarrow> disk s k l \<inter> (exec_writes s i l \<union> Collect in_window) = {}
     \<and> span (cmd_name s i) 256 \<inter> (span (elf_header_at s) 52 \<union> span (image_buf_at s) l \<union> Collect in_window) = {}
     \<and> span (image_buf_at s) l \<inter> Collect in_window = {}"

lemma start_stage:
  assumes start: "start_program i entry s = Enters entry' s'" and id: "program_id (pcbs s ! i) = of_nat i"
    and name: "cstring (mem s) (cmd_name s i) name" and args: "cstring (mem s) (cmd_args s i) args"
    and len: "length name < 128" "length args < 128"
    and found: "find_name s name = Some e" "unat (num_dir_entries s) \<le> 63"
    and l: "l = unat (inode_length s (inode e) (mem s))" "2 \<le> l mod 4096" "l \<le> 0x3B8000"
    and lay: "layout_ok s i (inode e) l"
  shows "load_bytes (mem s') IMAGE_START l = map (file_byte s (inode e)) [0..<l]" "cstring (mem s') (cmd_args s i) args"
proof -
  let ?k = "inode e" and ?nm = "cmd_name s i" and ?ar = "cmd_args s i" and ?buf = "image_buf_at s"
  obtain r s4 where s4: "new_task_pd (of_nat i - 1) s = Some (r, s4)"
    using start by (auto simp: start_program_def id split: option.splits)
  note p = places_eqD [OF new_task_pd_agree(2) [OF s4]]
  let ?c = "copy_file_image ?buf (dentry_junk s) ?nm s4"
  have m': "mem s' = mem (snd ?c)"
    using start by (auto simp: start_program_def id s4 Let_def p)
  have lay': "disk s ?k l \<inter> Collect in_window = {}" "disk s ?k l \<inter> span ?buf l = {}" "span ?nm 256 \<inter> Collect in_window = {}"
    "span ?nm 256 \<inter> span ?buf l = {}" "span ?buf l \<inter> Collect in_window = {}"
    using lay by (auto simp: layout_ok_def exec_writes_def)
  have sub: "span ?nm (Suc (length name)) \<subseteq> span ?nm 256" "span ?ar (Suc (length args)) \<subseteq> span ?nm 256"
    by (rule block_strings [OF len])+
  have l': "l \<le> 1023 * 4096" using l(3) by simp
  have d: "agree (disk s ?k l) (mem s4) (mem s)" by (rule new_task_pd_agree(1) [OF s4 lay'(1)])
  note da = disk_agree [OF p(6) d l']
  have f: "find_name s4 name = Some e"
    using find_name_agree [OF p(6) agree_sub [OF d disk_boot] found(2), of name] found(1) by simp
  have n4: "cstring (mem s4) ?nm name"
    by (rule cstring_agree [OF name new_task_pd_agree(1) [OF s4]]) (use sub lay' in auto)
  have a4: "cstring (mem s4) ?ar args"
    by (rule cstring_agree [OF args new_task_pd_agree(1) [OF s4]]) (use sub lay' in auto)
  have st: "span IMAGE_START l \<subseteq> Collect in_window" using image_in_window l(3) by blast
  have "IMAGE_START \<in> span IMAGE_START l" using l(2) by (auto simp: span_def intro: gr0I)
  then have out: "IMAGE_START \<notin> span ?buf l" using st lay'(5) by blast
  have bf: "disk s4 ?k l \<inter> span ?buf l = {}" using da(1) lay'(2) by simp
  have len4: "l = unat (inode_length s4 ?k (mem s4))" using da(3) l(1) by simp
  note ic = image_copied [OF n4 f len4 l(2,3) bf out, where d = "dentry_junk s"]
  show "load_bytes (mem s') IMAGE_START l = map (file_byte s ?k) [0..<l]"
    using ic(1) da(2) by (simp add: m')
  show "cstring (mem s') ?ar args"
    unfolding m' by (rule cstring_agree [OF a4 ic(2)]) (use sub lay' st in blast)
qed

section \<open>Properties\<close>

text \<open>A program file that execute can run: its directory entry and its length.\<close>

definition runnable :: "'a fs_state_scheme \<Rightarrow> u8 list \<Rightarrow> u32 \<Rightarrow> nat \<Rightarrow> bool" where
  "runnable s name k l \<longleftrightarrow> (\<exists>e. find_name s name = Some e \<and> inode e = k) \<and> k \<noteq> 0 \<and> elf_ok s k
     \<and> l = unat (inode_length s k (mem s)) \<and> 52 \<le> l \<and> 2 \<le> l mod 4096 \<and> l \<le> 0x3B8000
     \<and> unat (num_dir_entries s) \<le> 63"

lemma num_dir_entries_agree:
  assumes "same_fs s' s" and "agree (span (bootblock s) 4096) (mem s') (mem s)"
  shows "num_dir_entries s' = num_dir_entries s"
  using load32_span [OF assms(2), where a = "bootblock s" and k = 0] assms(1)
  by (simp add: num_dir_entries_def same_fs_def)

lemma runnable_agree:
  assumes "runnable s name k l" and "same_fs s' s" and "agree (disk s k l) (mem s') (mem s)"
  shows "runnable s' name k l" "elf_entry s' k = elf_entry s k" "disk s' k l = disk s k l"
    "map (file_byte s' k) [0..<l] = map (file_byte s k) [0..<l]"
proof -
  have l: "l \<le> 1023 * 4096" "52 \<le> l" using assms(1) by (simp_all add: runnable_def)
  note d = disk_agree [OF assms(2,3) l(1)]
  have b: "agree (span (bootblock s) 4096) (mem s') (mem s)" by (rule agree_sub [OF assms(3) disk_boot])
  have "find_name s' name = find_name s name"
    using find_name_agree [OF assms(2) b] assms(1) by (simp add: runnable_def)
  moreover have e: "elf_entry s' k = elf_entry s k" "elf_ok s' k = elf_ok s k"
    using elf_agree [of s' k s] d(2) l(2) by simp_all
  ultimately show "runnable s' name k l"
    using assms(1) d(3) num_dir_entries_agree [OF assms(2) b] by (auto simp: runnable_def)
  show "elf_entry s' k = elf_entry s k" "disk s' k l = disk s k l" by (fact e(1), fact d(1))
  show "map (file_byte s' k) [0..<l] = map (file_byte s k) [0..<l]" using d(2) by simp
qed

lemma layout_agree:
  fixes s s' :: "'a sys_state_scheme"
  assumes "layout_ok s i k l" and "places s' = places s" and "disk s' k l = disk s k l"
  shows "layout_ok s' i k l"
  using assms(1,3) places_eqD [OF assms(2)] by (simp add: layout_ok_def exec_writes_def)

text \<open>What the new process block has after the checks.\<close>

lemma spawned_ready:
  assumes "runs s st" and "fds_ok s" and "length (concat st) < 6" and "find_free_pcb s = of_nat i"
    and "kern s3 = kern (spawned i (cli (send_eoi 1 s)))" and "1 \<le> i" and "i < 7"
  shows "program_id (pcbs s3 ! i) = of_nat i" "address (pcbs s3 ! i) = get_kernel_stack_ptr (of_nat i)"
    "runs s3 (push (curr_terminal s) i st)" "fds_ok s3"
proof -
  let ?s = "cli (send_eoi 1 s)"
  have k: "kern ?s = kern s" by simp
  have r: "runs ?s st" "fds_ok ?s" "find_free_pcb ?s = of_nat i" "curr_terminal ?s = curr_terminal s"
    using assms runs_kern [OF k] fds_ok_kern [OF k] kern_eqD(1,5) [OF k] by (simp_all add: find_free_pcb_def)
  obtain j where "j < 7" "j \<notin> set (concat st)" "find_free_pcb s = of_nat j" by (rule runs_free [OF assms(1,3)])
  moreover then have "j = i" using assms(4,7) of_nat32_inj [of j i] by simp
  ultimately have fresh: "i \<notin> set (concat st)" by simp
  note e = spawned_effect [OF r(1) assms(6,7) r(3)]
  show "program_id (pcbs s3 ! i) = of_nat i" "address (pcbs s3 ! i) = get_kernel_stack_ptr (of_nat i)"
    using e(7,10) kern_eqD(1) [OF assms(5)] by simp_all
  show "runs s3 (push (curr_terminal s) i st)" "fds_ok s3"
    using spawned_runs [OF r(1) assms(6,7) fresh r(3)] spawned_fds [OF r(1) assms(6,7) r(3,2)]
      runs_kern [OF assms(5)] fds_ok_kern [OF assms(5)] r(4) by simp_all
qed

text \<open>The two checks succeed and leave the file, the name and the arguments in place.\<close>

lemma checks_stage:
  assumes run: "runs s st" "length (concat st) < 6" and i: "find_free_pcb s = of_nat i" "i < 7"
    and cmd: "cstring (mem s) command (name @ replicate k 32 @ args)" "command \<noteq> 0"
    and split: "name \<noteq> []" "32 \<notin> set name" "args = [] \<or> 0 < k \<and> hd args \<noteq> 32"
    and len: "length name < 128" "length args < 128" "length name + k + length args < 4294967294"
    and apart: "span command (Suc (length name + k + length args)) \<inter> exec_writes s i l = {}"
    and prog: "runnable s name ino l" "layout_ok s i ino l"
  obtains s3 where "execute command s = start_program i (elf_entry s ino) s3" "places s3 = places s"
    "kern s3 = kern (spawned i (cli (send_eoi 1 s)))" "agree (disk s ino l) (mem s3) (mem s)"
    "cstring (mem s3) (cmd_name s i) name" "cstring (mem s3) (cmd_args s i) args"
proof -
  let ?s = "cli (send_eoi 1 s)" and ?W = "span (stack_copy_at i) 618 \<union> span (cmd_name s i) 256"
  have k: "kern ?s = kern s" and pl: "places ?s = places s" by simp_all
  have m: "mem ?s = mem s" by (simp add: cli_def send_eoi_def outb_def)
  have r: "runs ?s st" and free: "find_free_pcb ?s = of_nat i"
    using run runs_kern [OF k] i kern_eqD(1) [OF k] by (simp_all add: find_free_pcb_def)
  note p = places_eqD [OF pl]
  have cmd': "cstring (mem ?s) command (name @ replicate k 32 @ args)" using cmd m by simp
  have ap: "span command (Suc (length name + k + length args)) \<inter> (span (stack_copy_at i) 618 \<union> span (cmd_name ?s i) 256) = {}"
    using apart unfolding p exec_writes_def by auto
  obtain s2 where s2: "check_command command (cmd_name s i) (cmd_args s i) (spawned i ?s) = Some (0, s2)"
    "s2 = (spawned i ?s)\<lparr>mem := mem s2\<rparr>" "cstring (mem s2) (cmd_name s i) name" "cstring (mem s2) (cmd_args s i) args"
    "\<And>A. A \<inter> ?W = {} \<Longrightarrow> agree A (mem s2) (mem s)"
    using command_stage [OF free cmd' cmd(2) split len ap] unfolding p m by blast
  have p2: "places s2 = places s" using spawned_mem(2) [OF free] pl s2(2) by (metis places_simps(1))
  note q2 = places_eqD [OF p2]
  have lay: "disk s ino l \<inter> ?W = {}" "disk s ino l \<inter> span (elf_header_at s) 52 = {}"
      "span (cmd_name s i) 256 \<inter> span (elf_header_at s) 52 = {}"
    using prog(2) by (auto simp: layout_ok_def exec_writes_def)
  have d2: "agree (disk s ino l) (mem s2) (mem s)" by (rule s2(5) [OF lay(1)])
  note f2 = runnable_agree [OF prog(1) q2(6) d2]
  obtain e where e: "find_name s2 name = Some e" "inode e = ino" using f2(1) by (auto simp: runnable_def)
  have ok: "inode e \<noteq> 0" "elf_ok s2 (inode e)" "52 \<le> l" "l = unat (inode_length s2 (inode e) (mem s2))"
    using f2(1) e by (simp_all add: runnable_def)
  have off: "disk s2 (inode e) l \<inter> span (elf_header_at s2) 52 = {}" unfolding e(2) f2(3) q2 by (rule lay(2))
  obtain s3 where s3: "check_executable (cmd_name s i) s2 = (0, elf_entry s2 (inode e), s3)" "s3 = s2\<lparr>mem := mem s3\<rparr>"
    "\<And>A. A \<inter> span (elf_header_at s2) 52 = {} \<Longrightarrow> agree A (mem s3) (mem s2)"
    using header_stage [OF s2(3) e(1) ok off] by blast
  have sub: "span (cmd_name s i) (Suc (length name)) \<subseteq> span (cmd_name s i) 256"
      "span (cmd_args s i) (Suc (length args)) \<subseteq> span (cmd_name s i) 256"
    by (rule block_strings [OF len(1,2)])+
  show thesis
  proof (rule that)
    show "execute command s = start_program i (elf_entry s ino) s3"
      using execute_unfold [OF r run(2) free i(2) refl, of command] s2(1) s3(1) by (simp add: q2 f2(2) e(2))
    show "places s3 = places s" using p2 s3(2) by (metis places_simps(1))
    show "kern s3 = kern (spawned i ?s)"
      using kern_check_command [OF s2(1)] kern_check_executable [OF s3(1)] by simp
    show "agree (disk s ino l) (mem s3) (mem s)" by (rule agree_trans [OF s3(3) d2]) (use lay(2) in \<open>simp add: q2\<close>)
    show "cstring (mem s3) (cmd_name s i) name" "cstring (mem s3) (cmd_args s i) args"
      by (rule cstring_agree [OF s2(3) s3(3)] cstring_agree [OF s2(4) s3(3)]; use sub lay(3) in \<open>auto simp: q2\<close>)+
  qed
qed

lemma execute_loads:
  assumes run: "runs s st" "fds_ok s" "length (concat st) < 6" and i: "find_free_pcb s = of_nat i" "1 \<le> i" "i < 7"
    and cmd: "cstring (mem s) command (name @ replicate k 32 @ args)" "command \<noteq> 0"
    and split: "name \<noteq> []" "32 \<notin> set name" "args = [] \<or> 0 < k \<and> hd args \<noteq> 32"
    and len: "length name < 128" "length args < 128" "length name + k + length args < 4294967294"
    and apart: "span command (Suc (length name + k + length args)) \<inter> exec_writes s i l = {}"
    and prog: "runnable s name ino l" "layout_ok s i ino l"
  shows "\<exists>s'. execute command s = Enters (elf_entry s ino) s' \<and> runs s' (push (curr_terminal s) i st) \<and> fds_ok s'
    \<and> load_bytes (mem s') IMAGE_START l = map (file_byte s ino) [0..<l] \<and> cstring (mem s') (cmd_args s i) args
    \<and> tss_esp0 s' = get_kernel_stack_ptr (of_nat i) \<and> cr3 s' = i - 1"
proof -
  let ?s1 = "spawned i (cli (send_eoi 1 s))"
  obtain s3 where s3: "execute command s = start_program i (elf_entry s ino) s3" "places s3 = places s"
    "kern s3 = kern ?s1" "agree (disk s ino l) (mem s3) (mem s)"
    "cstring (mem s3) (cmd_name s i) name" "cstring (mem s3) (cmd_args s i) args"
    by (rule checks_stage [OF run(1,3) i(1,3) cmd split len apart prog])
  note q = places_eqD [OF s3(2)] and f = runnable_agree [OF prog(1) places_eqD(6) [OF s3(2)] s3(4)]
  note sp = spawned_ready [OF run i(1) s3(3) i(2,3)]
  obtain s' where s': "start_program i (elf_entry s ino) s3 = Enters (elf_entry s ino) s'" "procs s' = procs s3"
      "fds_ok s' = fds_ok s3" "tss_esp0 s' = address (pcbs s3 ! i)" "cr3 s' = i - 1"
    using start_program_enters [OF sp(1) i(2,3)] by metis
  obtain e where e: "find_name s3 name = Some e" "inode e = ino" using f(1) by (auto simp: runnable_def)
  have lay: "layout_ok s3 i (inode e) l" unfolding e(2) by (rule layout_agree [OF prog(2) s3(2) f(3)])
  have "load_bytes (mem s') IMAGE_START l = map (file_byte s3 (inode e)) [0..<l]" "cstring (mem s') (cmd_args s3 i) args"
    by (rule start_stage [OF s'(1) sp(1) _ _ len(1,2) e(1) _ _ _ _ lay];
        use s3(5,6) f(1) e(2) in \<open>auto simp: q runnable_def\<close>)+
  then show ?thesis using s3(1) s' sp runs_cong [OF s'(2)] f(4) by (simp add: q e(2))
qed

text \<open>A command whose name is not in the directory is refused, and the processes are as before.\<close>

lemma execute_missing:
  assumes run: "runs s st" "fds_ok s" "length (concat st) < 6" and i: "find_free_pcb s = of_nat i" "1 \<le> i" "i < 7"
    and cmd: "cstring (mem s) command (name @ replicate k 32 @ args)" "command \<noteq> 0"
    and split: "name \<noteq> []" "32 \<notin> set name" "args = [] \<or> 0 < k \<and> hd args \<noteq> 32"
    and len: "length name < 128" "length args < 128" "length name + k + length args < 4294967294"
    and apart: "span command (Suc (length name + k + length args)) \<inter> (span (stack_copy_at i) 618 \<union> span (cmd_name s i) 256) = {}"
    and boot: "span (bootblock s) 4096 \<inter> (span (stack_copy_at i) 618 \<union> span (cmd_name s i) 256) = {}"
      "unat (num_dir_entries s) \<le> 63" and missing: "find_name s name = None"
  obtains s' m where "execute command s = Returns minus_one s'" "runs s' st" "fds_ok s'"
    "curr_terminal s' = curr_terminal s" "current_pcb s \<noteq> None \<Longrightarrow> current_pcb s' \<noteq> None"
    "s' = snd (pcb_destroy i ((spawned i (cli (send_eoi 1 s)))\<lparr>mem := m\<rparr>))"
    "agree (- (span (stack_copy_at i) 618 \<union> span (cmd_name s i) 256)) m (mem s)"
proof -
  let ?s = "cli (send_eoi 1 s)"
  have k: "kern ?s = kern s" and pl: "places ?s = places s" by simp_all
  have m: "mem ?s = mem s" by (simp add: cli_def send_eoi_def outb_def)
  have r: "runs ?s st" and free: "find_free_pcb ?s = of_nat i"
    using run runs_kern [OF k] i kern_eqD(1) [OF k] by (simp_all add: find_free_pcb_def)
  note p = places_eqD [OF pl]
  have cmd': "cstring (mem ?s) command (name @ replicate k 32 @ args)" using cmd m by simp
  have ap: "span command (Suc (length name + k + length args)) \<inter> (span (stack_copy_at i) 618 \<union> span (cmd_name ?s i) 256) = {}"
    using apart unfolding p .
  obtain s2 where s2: "check_command command (cmd_name s i) (cmd_args s i) (spawned i ?s) = Some (0, s2)"
    "s2 = (spawned i ?s)\<lparr>mem := mem s2\<rparr>" "cstring (mem s2) (cmd_name s i) name"
    "\<And>A. A \<inter> (span (stack_copy_at i) 618 \<union> span (cmd_name s i) 256) = {} \<Longrightarrow> agree A (mem s2) (mem s)"
    using command_stage [OF free cmd' cmd(2) split len ap] unfolding p m by blast
  have p2: "places s2 = places s" using spawned_mem(2) [OF free] pl s2(2) by (metis places_simps(1))
  note q2 = places_eqD [OF p2]
  have "find_name s2 name = None" using find_name_agree [OF q2(6) s2(4) [OF boot(1)] boot(2)] missing by simp
  then have "check_executable (cmd_name s i) s2 = (- 1, 0, s2)"
    by (simp add: check_executable_def lookup_name [OF s2(3)])
  then have x: "execute command s = Returns minus_one (snd (pcb_destroy i s2))"
    using execute_unfold [OF r run(3) free i(3) refl, of command] s2(1) by (simp add: q2)
  show thesis
  proof (cases rule: execute_cases [OF run(1,2), of command])
    case (1 c s')
    have "agree (- (span (stack_copy_at i) 618 \<union> span (cmd_name s i) 256)) (mem s2) (mem s)" by (rule s2(4)) blast
    with 1 x show thesis by (intro that [of s' "mem s2"]) (simp_all flip: s2(2))
  qed (use x in auto)
qed

text \<open>
  C2: running a program works from end to end. With fewer than six processes and a command line
  that names a program file and gives arguments, execute enters the program at the entry point
  of its file: a fresh process is on top of the shown terminal's stack with its own kernel stack
  and page directory, the whole file is in the program page at 0x8048000, byte by byte, and the
  arguments are where getargs looks for them. The file may have any length a program page holds
  but those that leave none or one byte in the last block.
\<close>

theorem execute_runs_program:
  assumes run: "runs s st" "fds_ok s" "length (concat st) < 6" and i: "find_free_pcb s = of_nat i" "1 \<le> i" "i < 7"
    and cmd: "cstring (mem s) command (name @ replicate k 32 @ args)" "command \<noteq> 0"
    and split: "name \<noteq> []" "32 \<notin> set name" "args = [] \<or> 0 < k \<and> hd args \<noteq> 32"
    and len: "length name < 128" "length args < 128" "length name + k + length args < 4294967294"
    and apart: "span command (Suc (length name + k + length args)) \<inter> exec_writes s i l = {}"
    and prog: "runnable s name ino l" "layout_ok s i ino l"
  shows "\<exists>s'. execute command s = Enters (elf_entry s ino) s' \<and> runs s' (push (curr_terminal s) i st) \<and> fds_ok s'
    \<and> load_bytes (mem s') IMAGE_START l = map (file_byte s ino) [0..<l] \<and> cstring (mem s') (cmd_args s i) args
    \<and> tss_esp0 s' = get_kernel_stack_ptr (of_nat i) \<and> cr3 s' = i - 1"
  by (rule execute_loads [OF assms])

text \<open>
  A concrete machine: the shell runs in the first terminal, and the file f of the image is a
  program of 60 bytes.
\<close>

lemma span_below:
  assumes "unat a + n \<le> unat b" and "unat b + n' \<le> 4294967296"
  shows "span a n \<inter> span b n' = {}"
proof -
  have "b = a + of_nat (unat b - unat a)"
    using assms(1) by (simp add: word_unat_eq_iff unat_add32 unat_of_nat32 unat_lt32)
  then show ?thesis using span_apart [of n "unat b - unat a" n' a] assms by simp
qed

lemma span_low:
  assumes "unat a + n \<le> 0x8000000"
  shows "span a n \<inter> Collect in_window = {}"
proof -
  have False if "unat (x - a) < n" "in_window x" for x
  proof -
    obtain y where y: "x = a + y" by (metis add.commute diff_add_cancel)
    then have "unat x = unat a + unat y" "unat y < n" using that(1) assms by (simp_all add: unat_add32)
    then have "unat (drop_bit 22 x) < 32" using assms by (simp add: drop_bit_eq_div unat_div)
    then show False using that(2) by (simp add: in_window_def)
  qed
  then show ?thesis by (auto simp: span_def)
qed

lemma proc_state1_places:
  "cmd_name proc_state1 2 = 0x4503D9" "cmd_args proc_state1 2 = 0x450459" "stack_copy_at 2 = 0x7F6000"
  "elf_header_at proc_state1 = 0x7E0000" "image_buf_at proc_state1 = 0x7D0000" "bootblock proc_state1 = 0x500000"
  by (simp_all add: proc_state1_def sys_state1_def cmd_name_def cmd_args_def pcb_at_def SIZEOF_PCB_def
      stack_copy_at_def get_kernel_stack_ptr_def KERNEL_STACK_def KERNEL_STACK_OFFSET_def)

lemma proc_state1_file:
  "runnable proc_state1 [102] 1 60" "elf_entry proc_state1 1 = 0x8048000"
  "disk proc_state1 1 60 \<subseteq> span 0x500000 4096 \<union> span 0x502000 4096 \<union> span 0x503000 4096"
proof -
  have s: "mem proc_state1 = mem sys_state1" "same_fs proc_state1 sys_state1" by (simp_all add: proc_state1_def same_fs_def)
  have c: "cstring (mem sys_state1) 0x700000 [102]" by (simp add: cstring_Cons cstring_Nil) (simp add: sys_state1_def image1_def image0_def)
  have n: "unat (num_dir_entries sys_state1) \<le> 63"
    by (simp add: num_dir_entries_def load32_def) (simp add: sys_state1_def image1_def image0_def)
  have "find_name sys_state1 [102] = Some (load_dentry image1 0x500080)"
    using lookup_name [OF c, of "dentry_junk sys_state1"] sys_state1_file(1) by (simp split: option.splits)
  then have r: "runnable sys_state1 [102] 1 60"
    using n sys_state1_file(2,3) sys_state1_elf(1) by (simp add: runnable_def)
  have a: "agree (disk sys_state1 1 60) (mem proc_state1) (mem sys_state1)" by (simp add: agree_def s(1))
  note f = runnable_agree [OF r s(2) a]
  show "runnable proc_state1 [102] 1 60" by (rule f(1))
  show "elf_entry proc_state1 1 = 0x8048000" using f(2) sys_state1_elf(2) by simp
  have "file_addr sys_state1 1 ` {..<60} \<subseteq> span 0x503000 4096" by (auto simp: sys_state1_file(4))
  moreover have "bootblock sys_state1 = 0x500000" by (simp add: sys_state1_def)
  ultimately show "disk proc_state1 1 60 \<subseteq> span 0x500000 4096 \<union> span 0x502000 4096 \<union> span 0x503000 4096"
    unfolding f(3) by (auto simp: disk_def sys_state1_file(5))
qed

lemma proc_state1_layout: "layout_ok proc_state1 2 1 60"
proof -
  let ?D = "span 0x500000 4096 \<union> span 0x502000 4096 \<union> span 0x503000 4096 :: u32 set"
  have "span a 4096 \<inter> span b n = {}" if "a \<in> {0x500000, 0x502000, 0x503000}" "b \<in> {0x7F6000, 0x7E0000, 0x7D0000}" "n \<le> 618"
    for a b :: u32 and n using that by (intro span_below) auto
  then have 1: "?D \<inter> (span 0x7F6000 618 \<union> span 0x7E0000 52 \<union> span 0x7D0000 60) = {}"
    by (simp add: Int_Un_distrib Int_Un_distrib2)
  have "span 0x4503D9 256 \<inter> span b n = {}" if "b \<in> {0x500000, 0x502000, 0x503000, 0x7E0000, 0x7D0000}" "n \<le> 4096"
    for b :: u32 and n using that by (intro span_below) auto
  then have 2: "span 0x4503D9 256 \<inter> (?D \<union> span 0x7E0000 52 \<union> span 0x7D0000 60) = {}"
    by (simp add: Int_Un_distrib Int_Un_distrib2)
  have "span b n \<inter> Collect in_window = {}" if "b \<in> {0x500000, 0x502000, 0x503000, 0x4503D9, 0x7D0000}" "n \<le> 4096"
    for b :: u32 and n using that by (intro span_low) auto
  then have 3: "(?D \<union> span 0x4503D9 256 \<union> span 0x7D0000 60) \<inter> Collect in_window = {}"
    by (simp add: Int_Un_distrib Int_Un_distrib2)
  show ?thesis unfolding layout_ok_def exec_writes_def proc_state1_places using 1 2 3 proc_state1_file(3) by blast
qed

theorem execute_runs_program_witness:
  "\<exists>s'. execute 0x700000 proc_state1 = Enters 0x8048000 s' \<and> runs s' [[2, 1], [], []]
     \<and> load_bytes (mem s') IMAGE_START 4 = [0x7F, 69, 76, 70] \<and> cstring (mem s') 0x450459 []"
proof -
  have c: "cstring (mem proc_state1) 0x700000 ([102] @ replicate 0 32 @ [])"
    by (simp add: cstring_Cons cstring_Nil) (simp add: proc_state1_def sys_state1_def image1_def image0_def)
  have i: "find_free_pcb proc_state1 = of_nat 2"
    by (simp add: find_free_pcb_def proc_state1_def sys_state1_def) (simp add: fs_state0_def pcb0_def)
  have "span 0x700000 2 \<inter> span b n = {}" if "b \<in> {0x7F6000, 0x7E0000, 0x7D0000}" "n \<le> 4096"
    for b :: u32 and n using that by (intro span_below) auto
  moreover have "span 0x4503D9 256 \<inter> span 0x700000 2 = ({} :: u32 set)" by (rule span_below) simp_all
  ultimately have a: "span 0x700000 (Suc (length [102 :: u8] + 0 + length ([] :: u8 list))) \<inter> exec_writes proc_state1 2 60 = {}"
    unfolding exec_writes_def proc_state1_places by (simp add: numeral_2_eq_2 [symmetric] Int_Un_distrib) (simp add: Int_commute)
  obtain s' where s': "execute 0x700000 proc_state1 = Enters 0x8048000 s'"
      "runs s' (push (curr_terminal proc_state1) 2 [[1], [], []])"
      "load_bytes (mem s') IMAGE_START 60 = map (file_byte proc_state1 1) [0..<60]" "cstring (mem s') 0x450459 []"
    using execute_runs_program [OF proc_state1_runs proc_states_fds(1) _ i _ _ c _ _ _ _ _ _ _ a proc_state1_file(1) proc_state1_layout]
    by (auto simp: proc_state1_places proc_state1_file(2))
  have t: "curr_terminal proc_state1 = 0" by (simp add: proc_state1_def sys_state1_def)
  have "load_bytes (mem s') IMAGE_START 4 = take 4 (load_bytes (mem s') IMAGE_START 60)"
    using load_bytes_append [of "mem s'" IMAGE_START 4 56] by simp
  also have "\<dots> = map (file_byte proc_state1 1) [0..<4]" by (simp add: s'(3) take_map)
  also have "\<dots> = [0x7F, 69, 76, 70]" using proc_state1_file(1) unfolding runnable_def elf_ok_def by blast
  finally show ?thesis using s'(1,2,4) by (intro exI [of _ s']) (simp add: t push_def)
qed

end
