(* ===== verification/Kud_User.thy ===== *)
theory Kud_User
  imports Kud_Support Kud_Exec
begin

unbundle bit_operations_syntax

text \<open>
  The system calls as a user program sees them: the stubs of \<^verbatim>\<open>ece391syscall.S\<close>, the output
  function of the support library, and what each call does for a program that prints, reads
  its arguments, opens files and reads them. \<open>prints\<close> is the contract of a piece of a program;
  \<open>q\<close> is the number of clock interrupts that arrive while a call waits.
\<close>

section \<open>System calls\<close>

text \<open>
  The stubs load three words from the stack into ebx, ecx and edx whatever the number of the
  arguments; the calls with fewer arguments do not look at the rest, which is 0 here.
\<close>

definition ece391_halt :: "nat \<Rightarrow> u32 \<Rightarrow> 'a sys_state_scheme \<Rightarrow> 'a sys_state_scheme outcome" where
  "ece391_halt q status s = syscall_handler q 1 status 0 0 s"

definition ece391_execute :: "nat \<Rightarrow> u32 \<Rightarrow> 'a sys_state_scheme \<Rightarrow> 'a sys_state_scheme outcome" where
  "ece391_execute q command s = syscall_handler q 2 command 0 0 s"

definition ece391_read :: "nat \<Rightarrow> u32 \<Rightarrow> u32 \<Rightarrow> u32 \<Rightarrow> 'a sys_state_scheme \<Rightarrow> 'a sys_state_scheme outcome" where
  "ece391_read q fd buf nbytes s = syscall_handler q 3 fd buf nbytes s"

definition ece391_write :: "nat \<Rightarrow> u32 \<Rightarrow> u32 \<Rightarrow> u32 \<Rightarrow> 'a sys_state_scheme \<Rightarrow> 'a sys_state_scheme outcome" where
  "ece391_write q fd buf nbytes s = syscall_handler q 4 fd buf nbytes s"

definition ece391_open :: "nat \<Rightarrow> u32 \<Rightarrow> 'a sys_state_scheme \<Rightarrow> 'a sys_state_scheme outcome" where
  "ece391_open q filename s = syscall_handler q 5 filename 0 0 s"

definition ece391_close :: "nat \<Rightarrow> u32 \<Rightarrow> 'a sys_state_scheme \<Rightarrow> 'a sys_state_scheme outcome" where
  "ece391_close q fd s = syscall_handler q 6 fd 0 0 s"

definition ece391_getargs :: "nat \<Rightarrow> u32 \<Rightarrow> u32 \<Rightarrow> 'a sys_state_scheme \<Rightarrow> 'a sys_state_scheme outcome" where
  "ece391_getargs q buf nbytes s = syscall_handler q 7 buf nbytes 0 s"

text \<open>What a program does with the result of a call: nothing when the call does not return.\<close>

fun and_then :: "'s outcome \<Rightarrow> (u32 \<Rightarrow> 's \<Rightarrow> 's outcome) \<Rightarrow> 's outcome" where
  "and_then (Returns r s) k = k r s"
| "and_then (Enters e s) k = Enters e s"
| "and_then (Resumes s) k = Resumes s"
| "and_then (Waits s) k = Waits s"
| "and_then Faults k = Faults"

definition ece391_fdputs :: "nat \<Rightarrow> u32 \<Rightarrow> u32 \<Rightarrow> 'a sys_state_scheme \<Rightarrow> 'a sys_state_scheme outcome" where
  "ece391_fdputs q fd str s =
     (case ece391_strlen (mem s) str of None \<Rightarrow> Faults
      | Some n \<Rightarrow> and_then (ece391_write q fd str n s) (\<lambda>_ s. Returns 0 s))"

text \<open>The start of every program: main, then halt with its result.\<close>

definition u_start :: "nat \<Rightarrow> ('a sys_state_scheme \<Rightarrow> 'a sys_state_scheme outcome) \<Rightarrow> 'a sys_state_scheme \<Rightarrow> 'a sys_state_scheme outcome" where
  "u_start q main s = and_then (main s) (\<lambda>r s. ece391_halt q r s)"

section \<open>What output leaves alone\<close>

lemma sint_of_nat32: "n < 2147483648 \<Longrightarrow> sint (of_nat n :: u32) = int n"
  by (simp add: signed_of_nat signed_take_bit_int_eq_self)

definition ground :: "'a sys_state_scheme \<Rightarrow> _" where
  "ground s = (kern s, places s, dentry s, cr3 s, page_directories s, page_table s, page_table_vidmap s, page_table_at s, page_table_vidmap_at s)"

lemma groundD:
  assumes "ground s' = ground s"
  shows "kern s' = kern s" "places s' = places s" "dentry s' = dentry s" "cr3 s' = cr3 s" "translate s' i a = translate s i a"
proof -
  have "page_table_of s' = page_table_of s" using assms by (intro ext) (simp add: ground_def page_table_of_def)
  then show "translate s' i a = translate s i a" using assms by (simp add: ground_def translate_def Let_def)
qed (use assms in \<open>simp_all add: ground_def\<close>)

lemma ground_updates [simp]:
  "ground (s\<lparr>mem := m\<rparr>) = ground s" "ground (s\<lparr>csr_x := x\<rparr>) = ground s" "ground (s\<lparr>csr_y := x\<rparr>) = ground s"
  "ground (s\<lparr>line_y := x\<rparr>) = ground s" "ground (s\<lparr>line_beginning := x\<rparr>) = ground s"
  "ground (s\<lparr>terminal_buffer := tb\<rparr>) = ground s" "ground (s\<lparr>buffer_len := bl\<rparr>) = ground s"
  "ground (s\<lparr>enter_flag := e\<rparr>) = ground s"
  "ground (cli s) = ground s" "ground (sti s) = ground s"
  by (simp_all add: ground_def places_def kern_def cli_def sti_def)

lemma ground_ops [simp]:
  "ground (move_csr s) = ground s" "ground (scroll s) = ground s" "ground (clear_buffer s) = ground s"
proof -
  show "ground (move_csr s) = ground s" by (simp add: ground_def places_def) (simp add: move_csr_def outb_def Let_def)
  show "ground (scroll s) = ground s" by (simp add: scroll_def Let_def)
  show "ground (clear_buffer s) = ground s" by (simp add: clear_buffer_def Let_def)
qed

lemma ground_new_line [simp]: "ground (new_line b s) = ground s"
  by (simp add: new_line_def Let_def)

lemma ground_putch_end [simp]: "ground (putch_end s) = ground s"
  by (simp add: putch_end_def Let_def)

lemma ground_putch [simp]: "ground (putch c s) = ground s"
  by (simp add: putch_def Let_def)

lemma ground_write_loop [simp]: "ground (terminal_write_loop n p s) = ground s"
  by (induction n arbitrary: p s) simp_all

lemma ground_terminal_write: "terminal_write fd buf n s = (r, s') \<Longrightarrow> ground s' = ground s"
  by (auto simp: terminal_write_def Let_def split: if_splits)

section \<open>A program and its output\<close>

text \<open>The state in which a program makes its calls, with its standard output still open.\<close>

definition user_ok :: "'a sys_state_scheme \<Rightarrow> bool" where
  "user_ok s \<longleftrightarrow> files_ok s \<and> term_ok s \<and> flags (cur_fd s 1) \<noteq> 0"

lemma user_ok_ground:
  assumes "user_ok s" and "ground s' = ground s" and "term_ok s'"
  shows "user_ok s'"
proof -
  note k = groundD(1) [OF assms(2)]
  have "cur_fd s' 1 = cur_fd s 1" using kern_eqD(1,2) [OF k] by (simp add: cur_fd_def)
  then show ?thesis using assms(1,3) files_ok_kern [OF k] by (simp add: user_ok_def)
qed

lemma user_ok_mem: "user_ok s \<Longrightarrow> user_ok (s\<lparr>mem := m\<rparr>)"
  by (rule user_ok_ground) (simp_all add: user_ok_def term_ok_def term_base_def)

text \<open>User memory and the screen.\<close>

abbreviation screen_span :: "u32 set" where
  "screen_span \<equiv> span VIDEO_MEM 4000"

lemma span_off_screen: "span a n \<inter> screen_span = {} \<Longrightarrow> n \<le> 4294967296 \<Longrightarrow> off_screen a n"
  using span_clear [of a n VIDEO_MEM 4000] by (simp add: off_screen_def clear_of_def)

lemma leaves_agree: "leaves s s' \<Longrightarrow> A \<inter> screen_span = {} \<Longrightarrow> agree A (mem s') (mem s)"
  unfolding agree_def
proof
  fix x assume "leaves s s'" and "A \<inter> screen_span = {}" and "x \<in> A"
  then have "x \<notin> screen_span" by blast
  with \<open>leaves s s'\<close> show "mem s' x = mem s x" by (simp add: leaves_def span_def)
qed

lemma display_mem:
  assumes "agree screen_span m (mem s)"
  shows "display (s\<lparr>mem := m\<rparr>) = display s"
proof -
  have "m (VIDEO_MEM + of_nat j) = mem s (VIDEO_MEM + of_nat j)" if "j < 4000" for j
    by (rule agreeD [OF assms]) (use that in auto)
  then have "cells (s\<lparr>mem := m\<rparr>) = cells s" by (intro cells_eqI) simp
  then show ?thesis by (simp add: display_def)
qed

text \<open>
  The contract of a piece of a program: it prints \<open>cs\<close>, may change memory in \<open>B\<close> besides, and
  leaves the processes and the file system in place.
\<close>

definition prints :: "u32 set \<Rightarrow> 'a sys_state_scheme \<Rightarrow> u8 list \<Rightarrow> 'a sys_state_scheme \<Rightarrow> bool" where
  "prints B s cs s' \<longleftrightarrow> user_ok s' \<and> procs s' = procs s \<and> places s' = places s
     \<and> agree (- (screen_span \<union> B)) (mem s') (mem s) \<and> display s' = display (show_text cs s)"

lemma printsD:
  assumes "prints B s cs s'"
  shows "user_ok s'" "procs s' = procs s" "places s' = places s" "display s' = display (show_text cs s)"
    "A \<inter> (screen_span \<union> B) = {} \<Longrightarrow> agree A (mem s') (mem s)"
  using assms by (auto simp: prints_def agree_def)

lemma prints_trans:
  assumes "user_ok s" and "prints B s cs s1" and "prints B s1 ds s2"
  shows "prints B s (cs @ ds) s2"
proof -
  have "term_ok (show_text cs s)" "term_ok s1" using assms(1,2) show_text_ok by (auto simp: user_ok_def prints_def)
  then have "display (show_text ds s1) = display (show_text ds (show_text cs s))"
    using assms(2) by (intro display_show_text) (simp_all add: prints_def)
  then show ?thesis using assms(2,3) by (auto simp: prints_def agree_def)
qed

lemma prints_mono: "prints B s cs s' \<Longrightarrow> B \<subseteq> B' \<Longrightarrow> prints B' s cs s'"
  by (auto simp: prints_def agree_def)

lemma prints_mem:
  assumes "user_ok s" and "agree (- B) m (mem s)" and "B \<inter> screen_span = {}"
  shows "prints B s [] (s\<lparr>mem := m\<rparr>)"
proof -
  have "display (s\<lparr>mem := m\<rparr>) = display s" by (rule display_mem) (use assms in \<open>auto simp: agree_def\<close>)
  then show ?thesis using assms user_ok_mem by (auto simp: prints_def agree_def)
qed

lemma prints_refl: "user_ok s \<Longrightarrow> prints B s [] s"
  by (simp add: prints_def agree_def)

text \<open>The write system call on the standard output.\<close>

lemma write_stdout:
  assumes "user_ok s" and "buf \<noteq> 0" and "n < 2147483648" and "span buf n \<inter> screen_span = {}"
  obtains s' where "ece391_write q 1 buf (of_nat n) s = Returns (of_nat n) s'" "ground s' = ground s"
    "prints {} s (load_bytes (mem s) buf n) s'"
proof -
  have u: "files_ok s" "term_ok s" "flags (cur_fd s 1) \<noteq> 0" using assms(1) by (simp_all add: user_ok_def)
  obtain c where c: "current_pcb s = Some c" "c < 7" "ops_ready s" "program_id (pcbs s ! c) = of_nat c"
      "table_ok (file_array (pcbs s ! c))"
    by (rule files_okD [OF u(1)])
  have cf: "cur_fd s 1 = file_array (pcbs s ! c) ! 1" using c(1) by (simp add: cur_fd_def)
  have "slot_ok 1 (file_array (pcbs s ! c) ! 1)" using c(5) by (simp add: table_ok_def)
  then have o: "fd_ops (file_array (pcbs s ! c) ! 1) = Ops_stdout" using u(3) cf by (simp add: slot_ok_def)
  have off: "off_screen buf n" using span_off_screen [OF assms(4)] assms(3) by simp
  obtain s' where s': "terminal_write 1 buf (int n) s = (of_nat n, s')" "term_ok s'" "leaves s s'"
      "display s' = display (show_text (load_bytes (mem s) buf n) s)"
    by (rule terminal_write_shows [OF u(2) off assms(2)])
  have n: "sint (of_nat n :: u32) = int n" by (rule sint_of_nat32 [OF assms(3)])
  have w: "ece391_write q 1 buf (of_nat n) s = Returns (of_nat n) s'"
    using u(3) assms(2) c o s'(1)
    by (simp add: ece391_write_def syscall_handler_def n sys_write_def fd_flags_def cf unat_of_nat32
        MAX_PROCESSES_def FD_MAX_IDX_def call_write_def ops_ready_def)
  have g: "ground s' = ground s" by (rule ground_terminal_write [OF s'(1)])
  have "prints {} s (load_bytes (mem s) buf n) s'"
    using user_ok_ground [OF assms(1) g s'(2)] groundD(2) [OF g] kern_procs [OF groundD(1) [OF g]] s'(4)
      leaves_agree [OF s'(3), of "- screen_span"] by (simp add: prints_def)
  then show thesis by (rule that [OF w g])
qed

text \<open>A terminated string is printed by fdputs.\<close>

lemma fdputs_stdout:
  assumes "user_ok s" and "str \<noteq> 0" and "cstring (mem s) str cs" and "length cs < 2147483648"
    and "span str (length cs) \<inter> screen_span = {}"
  obtains s' where "ece391_fdputs q 1 str s = Returns 0 s'" "ground s' = ground s" "prints {} s cs s'"
proof -
  have "load_bytes (mem s) str (length cs) = cs" using assms(3) by (simp add: cstring_def)
  then obtain s' where s': "ece391_write q 1 str (of_nat (length cs)) s = Returns (of_nat (length cs)) s'"
      "ground s' = ground s" "prints {} s cs s'"
    using write_stdout [OF assms(1,2,4,5)] by metis
  have "ece391_fdputs q 1 str s = Returns 0 s'"
    by (simp add: ece391_fdputs_def strlen_eq strlen_cstring [OF assms(3)] s'(1))
  then show thesis using s' by (intro that)
qed

section \<open>Reading a file\<close>

text \<open>A regular file that the kernel reads correctly, and a descriptor at position \<open>p\<close> of it.\<close>

definition file_ok :: "'a fs_state_scheme \<Rightarrow> u32 \<Rightarrow> nat \<Rightarrow> bool" where
  "file_ok s k l \<longleftrightarrow> unat (inode_length s k (mem s)) = l \<and> l \<le> 1023 * 4096 \<and> contiguous s k l
     \<and> inode_at s k \<noteq> 0 \<and> inodes_array s = bootblock s + 4096 \<and> unat k < 1048575"

definition at_pos :: "'a fs_state_scheme \<Rightarrow> nat \<Rightarrow> u32 \<Rightarrow> nat \<Rightarrow> bool" where
  "at_pos s fd k p \<longleftrightarrow> 2 \<le> fd \<and> fd < 8 \<and> fd_ready s fd \<and> flags (cur_fd s fd) \<noteq> 0 \<and> fd_ops (cur_fd s fd) = Ops_file
     \<and> inode_ptr (cur_fd s fd) = inode_at s k \<and> unat (file_position (cur_fd s fd)) = p"

lemma file_ok_agree:
  assumes "file_ok s k l" and "same_fs s' s" and "agree (disk s k l) (mem s') (mem s)"
  shows "file_ok s' k l" "disk s' k l = disk s k l" "j < l \<Longrightarrow> file_byte s' k j = file_byte s k j"
proof -
  have l: "l \<le> 1023 * 4096" using assms(1) by (simp add: file_ok_def)
  note d = disk_agree [OF assms(2,3) l]
  have a: "agree (span (inode_at s k) 4096) (mem s') (mem s)" by (rule agree_sub [OF assms(3)]) (auto simp: disk_def)
  note i = inode_agree [OF assms(2) a]
  have "inode_block s' k (of_nat n) (mem s') = inode_block s k (of_nat n) (mem s)" if "4096 * n < l" for n
    by (rule i(3)) (use that l in simp)
  moreover have "inode_block s' k 0 (mem s') = inode_block s k 0 (mem s)" using i(3) [of 0] by simp
  ultimately have "contiguous s' k l = contiguous s k l" by (simp add: contiguous_def)
  then show "file_ok s' k l" using assms(1,2) d(3) i(1) by (simp add: file_ok_def same_fs_def)
  show "disk s' k l = disk s k l" "j < l \<Longrightarrow> file_byte s' k j = file_byte s k j" by (fact d(1), fact d(2))
qed

lemma at_pos_same:
  assumes "at_pos s fd k p" and "kern s' = kern s" and "same_fs s' s"
  shows "at_pos s' fd k p"
proof -
  have "cur_fd s' fd = cur_fd s fd" "fd_ready s' fd = fd_ready s fd"
    using kern_eqD(1,2) [OF assms(2)] by (simp_all add: cur_fd_def fd_ready_def)
  then show ?thesis using assms(1,3) by (simp add: at_pos_def inode_at_def same_fs_def)
qed

text \<open>The read system call: the next bytes of the file are in the buffer, nothing else changed.\<close>

lemma read_regular:
  assumes "user_ok s" and "file_ok s k l" and "at_pos s fd k p" and "buf \<noteq> 0" and "n < 2147483648"
    and "cnt = min n (l - p)" and "span buf n \<inter> disk s k l = {}"
  shows "ece391_read q (of_nat fd) buf (of_nat n) s = Returns (of_nat cnt)
    (s\<lparr>mem := filled (mem s) buf cnt (\<lambda>i. file_byte s k (p + i)), pcbs := advanced fd cnt s\<rparr>)"
proof -
  have f: "2 \<le> fd" "fd < 8" "opened s fd k" "flags (cur_fd s fd) \<noteq> 0" "fd_ops (cur_fd s fd) = Ops_file"
      "p = unat (file_position (cur_fd s fd))" "inode_ptr (cur_fd s fd) \<noteq> 0"
    using assms(2,3) by (simp_all add: at_pos_def opened_def file_ok_def)
  have ct: "contiguous s k l" "l = unat (inode_length s k (mem s))" using assms(2) by (simp_all add: file_ok_def)
  have n: "sint (of_nat n :: u32) = int n" "unat (of_nat n :: u32) = n"
    using assms(5) by (simp_all add: signed_of_nat signed_take_bit_int_eq_self unat_of_nat32)
  have fd: "sint (of_nat fd :: u32) = int fd" using f(2) by (intro sint_of_nat32) simp
  have off: "cnt \<le> unat (file_addr s k j - buf)" if "j < l" for j
  proof -
    have "file_addr s k j \<notin> span buf n" using assms(7) that by (auto simp: disk_def)
    then show ?thesis using assms(6) by (simp add: span_def)
  qed
  have rd: "read_data_one fd buf (of_nat n) s = (of_nat cnt,
      s\<lparr>mem := filled (mem s) buf cnt (\<lambda>i. file_byte s k (p + i)), pcbs := advanced fd cnt s\<rparr>)"
    using read_data_one_eq [OF f(3), of "of_nat n" buf] off ct assms(6) f(6) n(2) by simp
  have "ops_ready s" using assms(1) by (simp add: user_ok_def files_ok_def)
  then show ?thesis
    using f assms(4) rd
    by (simp add: ece391_read_def syscall_handler_def n fd sys_read_def fd_flags_def FD_MAX_IDX_def call_read_def
        ops_ready_def read_file_def)
qed

text \<open>A descriptor that moved on while the buffer was filled.\<close>

lemma moved_prints:
  fixes s :: "'a sys_state_scheme" and v :: u32
  assumes "user_ok s" and "2 \<le> fd" and "fd < 8" and "fd_ready s fd" and "agree (- B) m (mem s)" and "B \<inter> screen_span = {}"
  defines "s' \<equiv> set_cur_fd fd ((cur_fd s fd)\<lparr>file_position := v\<rparr>) (s\<lparr>mem := m\<rparr>)"
  shows "prints B s [] s'" "cur_fd s' fd = (cur_fd s fd)\<lparr>file_position := v\<rparr>" "fd_ready s' fd" "mem s' = m"
proof -
  let ?m = "s\<lparr>mem := m\<rparr>"
  have m: "files_ok ?m" "term_ok s" using assms(1) user_ok_mem [of s m] by (simp_all add: user_ok_def)
  have one: "cur_fd s' 1 = cur_fd s 1" unfolding s'_def using assms(2) by (subst cur_fd_set_other) simp_all
  have ok: "files_ok s'" unfolding s'_def using files_ok_step [OF m(1) assms(3), of v] by simp
  have dm: "display ?m = display s" by (rule display_mem) (use assms(5,6) in \<open>auto simp: agree_def\<close>)
  have pl: "places s' = places s" "procs s' = procs s" by (simp_all add: s'_def) (simp add: places_def set_cur_fd_def upd_pcb_def)
  show mm: "mem s' = m" by (simp add: s'_def set_cur_fd_def upd_pcb_def)
  have t: "term_ok s'" "display s' = display ?m"
    using m(2) by (simp_all add: s'_def term_ok_def term_base_def display_def cells_def set_cur_fd_def upd_pcb_def)
  show "prints B s [] s'" using ok t one pl dm mm assms(1,5) by (auto simp: prints_def user_ok_def agree_def)
  show "cur_fd s' fd = (cur_fd s fd)\<lparr>file_position := v\<rparr>" unfolding s'_def by (rule cur_fd_set_same [OF m(1) assms(3)])
  show "fd_ready s' fd" using assms(4) by (auto simp: s'_def fd_ready_def set_cur_fd_def upd_pcb_def set_fd_def nth_list_update)
qed

text \<open>The state after a read: the same program, further on in the file.\<close>

lemma after_read:
  fixes s :: "'a sys_state_scheme"
  assumes "user_ok s" and "file_ok s k l" and "at_pos s fd k p" and "cnt \<le> l - p"
    and "span buf n \<inter> (disk s k l \<union> screen_span) = {}" and "cnt \<le> n"
  defines "s' \<equiv> s\<lparr>mem := filled (mem s) buf cnt (\<lambda>i. file_byte s k (p + i)), pcbs := advanced fd cnt s\<rparr>"
  shows "prints (span buf n) s [] s'" "file_ok s' k l" "disk s' k l = disk s k l" "at_pos s' fd k (p + cnt)"
    "j < l \<Longrightarrow> file_byte s' k j = file_byte s k j"
proof -
  let ?m = "filled (mem s) buf cnt (\<lambda>i. file_byte s k (p + i))" and ?v = "file_position (cur_fd s fd) + of_nat cnt"
  have fd: "2 \<le> fd" "fd < 8" "fd_ready s fd" using assms(3) by (simp_all add: at_pos_def)
  have pc: "s' = set_cur_fd fd ((cur_fd s fd)\<lparr>file_position := ?v\<rparr>) (s\<lparr>mem := ?m\<rparr>)"
    by (simp add: s'_def advanced_def set_cur_fd_def upd_pcb_def)
  have ag: "agree (- span buf n) ?m (mem s)" by (rule agree_filled) (use span_mono [OF assms(6), of buf] in blast)
  have scr: "span buf n \<inter> screen_span = {}" using assms(5) by blast
  note mv = moved_prints [OF assms(1) fd ag scr, of ?v, folded pc]
  show "prints (span buf n) s [] s'" by (fact mv(1))
  have d: "agree (disk s k l) (mem s') (mem s)" unfolding mv(4) by (rule agree_sub [OF ag]) (use assms(5) in blast)
  note f = file_ok_agree [OF assms(2) places_eqD(6) [OF printsD(3) [OF mv(1)]] d]
  show "file_ok s' k l" "disk s' k l = disk s k l" "j < l \<Longrightarrow> file_byte s' k j = file_byte s k j" by (fact f)+
  have "unat (file_position (cur_fd s fd)) = p" "l < 4294967296" using assms(2,3) by (simp_all add: file_ok_def at_pos_def)
  then have "unat ?v = p + cnt"
    using assms(4) unat_lt32 [of "file_position (cur_fd s fd)"] by (cases "cnt = 0") (simp_all add: unat_add32 unat_of_nat32)
  moreover have "inode_at s' k = inode_at s k" by (simp add: s'_def inode_at_def)
  ultimately show "at_pos s' fd k (p + cnt)" using assms(3) mv(2,3) by (simp add: at_pos_def)
qed

section \<open>Arguments and open files\<close>

lemma small_result: "n < 2147483648 \<Longrightarrow> 0 < n \<Longrightarrow> (of_nat n :: u32) \<noteq> 0 \<and> (of_nat n :: u32) \<noteq> minus_one"
proof -
  assume "n < 2147483648" "0 < n"
  then have "unat (of_nat n :: u32) = n" by (simp add: unat_of_nat32)
  then show ?thesis using \<open>0 < n\<close> \<open>n < 2147483648\<close> by auto
qed

lemma map_upt_shift: "map (\<lambda>i. f (p + i)) [0..<n] = map f [p..<p + n]"
  by (rule nth_equalityI) simp_all

lemma prints_join:
  assumes "user_ok s" and "prints B s cs s1" and "prints B s1 ds s2" and "prints B s2 es s3"
  shows "prints B s (cs @ ds @ es) s3"
  by (rule prints_trans [OF assms(1,2) prints_trans [OF printsD(1) [OF assms(2)] assms(3,4)]])

text \<open>The arguments arrive in the buffer.\<close>

lemma getargs_stage:
  assumes "user_ok s" and "cstring (mem s) (cmd_args s (cur s)) args" and "length args \<le> n" and "n < 2147483648"
    and "buf \<noteq> 0" and "span (cmd_args s (cur s)) n \<inter> span buf n = {}" and "span buf (Suc n) \<inter> screen_span = {}"
  obtains s' where "ece391_getargs q buf (of_nat n) s = Returns 0 s'" "ground s' = ground s" "cstring (mem s') buf args"
    "prints (span buf (Suc n)) s [] s'"
proof -
  have c: "clear_of (cmd_args s (cur s)) (nat (int n)) buf (nat (int n))"
    using span_clear [OF assms(6)] assms(4) by simp
  obtain m where m: "getargs buf (int n) s = Returns 0 (s\<lparr>mem := m\<rparr>)" "cstring m buf (take n args)"
      "\<And>a. n < unat (a - buf) \<Longrightarrow> m a = mem s a"
    using getargs_run [OF assms(2,5) _ _ c] assms(4) by auto
  have "sint (of_nat n :: u32) = int n" by (rule sint_of_nat32 [OF assms(4)])
  then have "ece391_getargs q buf (of_nat n) s = Returns 0 (s\<lparr>mem := m\<rparr>)"
    using m(1) by (simp add: ece391_getargs_def syscall_handler_def)
  moreover have "prints (span buf (Suc n)) s [] (s\<lparr>mem := m\<rparr>)"
    by (rule prints_mem [OF assms(1)]) (use m(3) assms(7) in \<open>auto simp: agree_def span_def not_less_eq\<close>)
  ultimately show thesis using m(2) assms(3) by (intro that) simp_all
qed

text \<open>A name is opened: the lowest free descriptor, or an error.\<close>

definition lowest_free :: "'a pcb_state_scheme \<Rightarrow> nat \<Rightarrow> bool" where
  "lowest_free s fd \<longleftrightarrow> 2 \<le> fd \<and> fd < 8 \<and> fd_ops (cur_fd s fd) = Ops_null
     \<and> (\<forall>g. 2 \<le> g \<and> g < fd \<longrightarrow> fd_ops (cur_fd s g) \<noteq> Ops_null)"

lemma open_entry:
  assumes "user_ok s" and "cstring (mem s) nm name" and "find_name s name = Some e" and "lowest_free s fd"
    and "ftype e = FILE_TYPE_REG \<and> d = \<lparr>fd_ops = Ops_file, inode_ptr = inode_at s (inode e), file_position = 0, flags = 1\<rparr>
      \<or> ftype e = FILE_TYPE_DIR \<and> d = \<lparr>fd_ops = Ops_file, inode_ptr = 0, file_position = 0, flags = 1\<rparr>
      \<or> ftype e = FILE_TYPE_RTC \<and> d = \<lparr>fd_ops = Ops_rtc, inode_ptr = 0, file_position = 0, flags = 1\<rparr>"
  obtains s' where "ece391_open q nm s = Returns (of_nat fd) s'" "prints {} s [] s'" "mem s' = mem s" "fd_ready s' fd"
    "cur_fd s' fd = d"
    "\<forall>g. g \<noteq> fd \<longrightarrow> cur_fd s' g = cur_fd s g"
proof -
  let ?t = "s\<lparr>dentry := e\<rparr>"
  let ?s' = "set_cur_fd fd d ?t"
  have u: "files_ok s" "term_ok s" "flags (cur_fd s 1) \<noteq> 0" using assms(1) by (simp_all add: user_ok_def)
  have fd: "2 \<le> fd" "fd < 8" using assms(4) by (simp_all add: lowest_free_def)
  obtain c where c: "current_pcb s = Some c" "c < 7" "length (pcbs s) = 7" "length (file_array (pcbs s ! c)) = 8"
    by (rule files_okD [OF u(1)])
  have "find_free_fd c s = int fd"
  proof (cases rule: find_free_fd_cases [OF c(4)])
    case 1
    then show ?thesis using assms(4) c(1) by (auto simp: lowest_free_def cur_fd_def)
  next
    case (2 g)
    then have "g = fd" using assms(4) c(1) by (auto simp: lowest_free_def cur_fd_def) (metis linorder_neqE_nat)
    with 2 show ?thesis by simp
  qed
  then have free: "find_free_fd c ?t = int fd" by (simp add: find_free_fd_def)
  have ufd: "unat (of_nat fd :: u32) = fd" using fd(2) by (simp add: unat_of_nat32)
  have ne: "(of_nat fd :: u32) \<noteq> minus_one" using small_result [of fd] fd by simp
  have "read_dentry_by_name s nm (dentry s) = (0, e)" using assms(3) by (simp add: lookup_name [OF assms(2)])
  then have "open_file nm s = (of_nat fd, ?s')"
    using assms(5) c(1) free ufd ne
    by (auto simp: open_file_def Let_def FILE_TYPE_REG_def FILE_TYPE_RTC_def FILE_TYPE_DIR_def inode_at_def)
  then have "ece391_open q nm s = Returns (of_nat fd) ?s'" by (simp add: ece391_open_def syscall_handler_def sys_open_def)
  moreover have t: "files_ok ?t" using u(1) by (simp add: files_ok_def ops_ready_def)
  then have "files_ok ?s'" using fd assms(5) by (intro files_ok_set_cur_fd) (auto simp: slot_ok_def)
  then have "prints {} s [] ?s'"
    using u fd cur_fd_set_other [of 1 fd d ?t]
    by (simp add: prints_def user_ok_def term_ok_def term_base_def agree_def)
       (simp add: set_cur_fd_def upd_pcb_def places_def display_def cells_def procs_def cur_fd_def)
  moreover have "cur_fd ?s' fd = d" by (rule cur_fd_set_same [OF t fd(2)])
  moreover have "\<forall>g. g \<noteq> fd \<longrightarrow> cur_fd ?s' g = cur_fd s g"
    using cur_fd_set_other [of _ fd d ?t] by (simp add: cur_fd_def [of s] cur_fd_def [of ?t])
  moreover have "fd_ready ?s' fd" using c fd(2) by (simp add: fd_ready_def set_cur_fd_def upd_pcb_def set_fd_def)
  ultimately show thesis by (intro that) simp_all
qed

lemma open_stage:
  assumes "user_ok s" and "cstring (mem s) nm name" and "find_name s name = Some e" and "lowest_free s fd"
    and "ftype e = FILE_TYPE_REG \<and> ptr = inode_at s (inode e) \<or> ftype e = FILE_TYPE_DIR \<and> ptr = 0"
  obtains s' where "ece391_open q nm s = Returns (of_nat fd) s'" "prints {} s [] s'" "mem s' = mem s" "fd_ready s' fd"
    "cur_fd s' fd = \<lparr>fd_ops = Ops_file, inode_ptr = ptr, file_position = 0, flags = 1\<rparr>"
    "\<forall>g. g \<noteq> fd \<longrightarrow> cur_fd s' g = cur_fd s g"
  by (rule open_entry [OF assms(1-4), where d = "\<lparr>fd_ops = Ops_file, inode_ptr = ptr, file_position = 0, flags = 1\<rparr>"])
     (use assms(5) in blast, rule that)

lemma open_missing:
  assumes "cstring (mem s) nm name" and "find_name s name = None"
  shows "ece391_open q nm s = Returns minus_one s"
proof -
  have "read_dentry_by_name s nm (dentry s) = (- 1, dentry s)" using assms(2) by (simp add: lookup_name [OF assms(1)])
  then show ?thesis by (simp add: ece391_open_def syscall_handler_def sys_open_def open_file_def)
qed

text \<open>Where the memory of a program that reads a file must lie.\<close>

definition apart_from :: "u32 set \<Rightarrow> 'a fs_state_scheme \<Rightarrow> u32 \<Rightarrow> nat \<Rightarrow> bool" where
  "apart_from B s k l \<longleftrightarrow> B \<inter> (disk s k l \<union> screen_span) = {} \<and> disk s k l \<inter> screen_span = {}"

lemma find_name_prints:
  assumes "prints B s [] s'" and "apart_from B s k l" and "unat (num_dir_entries s) \<le> 63"
  shows "find_name s' name = find_name s name"
proof -
  have "agree (disk s k l) (mem s') (mem s)" by (rule printsD(5) [OF assms(1)]) (use assms(2) in \<open>auto simp: apart_from_def\<close>)
  then show ?thesis by (rule find_name_agree [OF places_eqD(6) [OF printsD(3) [OF assms(1)]] agree_sub [OF _ disk_boot] assms(3)])
qed

lemma file_ok_prints:
  assumes "prints B s cs s'" and "apart_from B s k l" and "file_ok s k l"
  shows "file_ok s' k l" "disk s' k l = disk s k l" "map (file_byte s' k) [0..<l] = map (file_byte s k) [0..<l]"
    "apart_from B s' k l" "inode_at s' k = inode_at s k"
proof -
  have "agree (disk s k l) (mem s') (mem s)" by (rule printsD(5) [OF assms(1)]) (use assms(2) in \<open>auto simp: apart_from_def\<close>)
  note f = file_ok_agree [OF assms(3) places_eqD(6) [OF printsD(3) [OF assms(1)]] this]
  show "file_ok s' k l" "disk s' k l = disk s k l" "map (file_byte s' k) [0..<l] = map (file_byte s k) [0..<l]"
    "apart_from B s' k l" using f assms(2) by (simp_all add: apart_from_def)
  show "inode_at s' k = inode_at s k" using places_eqD(6) [OF printsD(3) [OF assms(1)]] by (simp add: inode_at_def same_fs_def)
qed

lemma lowest_free_ground: "ground s' = ground s \<Longrightarrow> lowest_free s' fd = lowest_free s fd"
proof -
  assume "ground s' = ground s"
  from kern_eqD(1,2) [OF groundD(1) [OF this]] show ?thesis by (simp add: lowest_free_def cur_fd_def)
qed

section \<open>A line from the keyboard\<close>

lemma display_newline:
  assumes "term_ok s"
  shows "display (putch 10 s) = display (new_line True s)"
proof -
  let ?u = "new_line True s"
  have ok: "term_ok ?u" by (rule new_line_ok [OF assms])
  note b = term_ok_bounds [OF ok]
  have "putch_end ?u = move_csr (scroll ?u)" using b by (simp add: putch_end_def Let_def WIDTH_def)
  moreover have "display (scroll ?u) = display ?u"
    using b unfolding display_def by (simp add: scroll_def Let_def cells_def HEIGHT_def)
  ultimately show ?thesis by (simp add: putch_def)
qed

lemma input_line_plain: "0 \<notin> set (input_line tb)" "10 \<notin> set (input_line tb)"
  by (auto simp: input_line_def dest: set_takeWhileD)

lemma read_stdin:
  assumes "user_ok s" and "flags (cur_fd s 0) \<noteq> 0" and "enter_flag s \<noteq> 0" and "line = input_line (tbuf s)"
    and "buf \<noteq> 0" and "length line \<le> n" and "n < 2147483648" and "span buf 129 \<inter> screen_span = {}"
  obtains s' where "ece391_read q 0 buf (of_nat n) s = Returns (of_nat (length line + 1)) s'" "ground s' = ground s"
    "load_bytes (mem s') buf (length line + 1) = line @ [10]" "prints (span buf 129) s [10] s'" "length line \<le> 128"
proof -
  have u: "files_ok s" "term_ok s" using assms(1) by (simp_all add: user_ok_def)
  obtain c where c: "current_pcb s = Some c" "ops_ready s" "table_ok (file_array (pcbs s ! c))"
    by (rule files_okD [OF u(1)])
  have cf: "cur_fd s 0 = file_array (pcbs s ! c) ! 0" using c(1) by (simp add: cur_fd_def)
  have "slot_ok 0 (file_array (pcbs s ! c) ! 0)" using c(3) by (simp add: table_ok_def)
  then have o: "fd_ops (cur_fd s 0) = Ops_stdin" using assms(2) cf by (simp add: slot_ok_def)
  have len: "length line \<le> 128" using length_input_line [of "tbuf s"] term_ok_bounds(6) [OF u(2)] assms(4) by simp
  let ?bs = "line @ [10]"
  let ?t = "s\<lparr>mem := store_bytes (mem s) buf ?bs\<rparr>"
  let ?s' = "(new_line True ?t)\<lparr>enter_flag := 0\<rparr>"
  have mn: "min (nat (int n)) (length line) = length line" using len assms(6) by simp
  have rd: "terminal_read 0 buf (int n) s = Some (of_nat (length line + 1), ?s')"
    using terminal_read_eq [OF u(2) assms(3), of 0 buf "int n"] unfolding assms(4) [symmetric] mn by simp
  have n: "sint (of_nat n :: u32) = int n" by (rule sint_of_nat32 [OF assms(7)])
  have call: "ece391_read q 0 buf (of_nat n) s = Returns (of_nat (length line + 1)) ?s'"
    using assms(2,5) c(2) o rd
    by (simp add: ece391_read_def syscall_handler_def n sys_read_def fd_flags_def FD_MAX_IDX_def call_read_def ops_ready_def)
  have sub: "span buf (length ?bs) \<subseteq> span buf 129" using len by (intro span_mono) simp
  have "prints (span buf 129) s [] ?t"
    by (rule prints_mem [OF assms(1)]) (use agree_store [of ?bs "- span buf 129" buf "mem s"] sub len assms(8) in auto)
  then have t: "user_ok ?t" "display ?t = display s" by (simp_all add: prints_def)
  have ok: "term_ok ?t" "term_ok ?s'" using t(1) new_line_ok [of ?t True] by (auto simp: user_ok_def term_ok_def term_base_def)
  have lv: "leaves ?t (new_line True ?t)" by (rule new_line_leaves [OF term_ok_ptr [OF ok(1)]])
  have "display ?s' = display (new_line True s)"
    using display_new_line [OF t(2) term_ok_ptr [OF u(2)], of True] by (simp add: display_def cells_def)
  then have dp: "display ?s' = display (show_text [10] s)" using display_newline [OF u(2)] by simp
  have "agree (- (screen_span \<union> span buf 129)) (mem ?s') (mem s)"
    using leaves_agree [OF lv, of "- (screen_span \<union> span buf 129)"]
      agree_store [of ?bs "- (screen_span \<union> span buf 129)" buf "mem s"] sub len by (auto simp: agree_def)
  then have pr: "prints (span buf 129) s [10] ?s'"
    using user_ok_ground [OF assms(1) _ ok(2)] dp groundD(2) [of ?s' s] kern_procs [OF groundD(1) [of ?s' s]]
    by (simp add: prints_def)
  have off: "off_screen buf (length ?bs)" using span_off_screen [of buf "length ?bs"] sub assms(8) len by auto
  have "load_bytes (mem ?s') buf (length ?bs) = ?bs"
    using leaves_off_screen [OF lv off] load_store_bytes [of ?bs "mem s" buf] len by simp
  then show thesis using pr len by (intro that [OF call]) simp_all
qed

section \<open>String literals\<close>

text \<open>The literal is in memory, apart from the screen and from what the program writes.\<close>

definition literal :: "(string \<Rightarrow> u32) \<Rightarrow> u32 set \<Rightarrow> 'a term_state_scheme \<Rightarrow> string \<Rightarrow> bool" where
  "literal lit B s str \<longleftrightarrow> lit str \<noteq> 0 \<and> cstring (mem s) (lit str) (bytes str) \<and> length str < 2147483648
     \<and> span (lit str) (Suc (length str)) \<inter> (screen_span \<union> B) = {}"

lemma length_bytes [simp]: "length (bytes str) = length str"
  by (simp add: bytes_def)

lemma literal_prints:
  assumes "literal lit B s str" and "prints B s cs s'"
  shows "literal lit B s' str"
proof -
  have "agree (span (lit str) (Suc (length str))) (mem s') (mem s)"
    by (rule printsD(5) [OF assms(2)]) (use assms(1) in \<open>simp add: literal_def\<close>)
  then show ?thesis using assms(1) cstring_agree [of "mem s" "lit str" "bytes str" "mem s'"] by (simp add: literal_def)
qed

lemma fdputs_literal:
  assumes "user_ok s" and "literal lit B s str"
  obtains s' where "ece391_fdputs q 1 (lit str) s = Returns 0 s'" "ground s' = ground s" "prints {} s (bytes str) s'"
proof -
  have l: "lit str \<noteq> 0" "cstring (mem s) (lit str) (bytes str)" "length (bytes str) < 2147483648"
      "span (lit str) (length (bytes str)) \<inter> screen_span = {}"
    using assms(2) span_mono [of "length str" "Suc (length str)" "lit str"] by (auto simp: literal_def)
  show thesis by (rule fdputs_stdout [OF assms(1) l that])
qed

lemma cstring_prints:
  assumes "cstring (mem s) a cs" and "prints B s ds s'" and "span a (Suc (length cs)) \<inter> (screen_span \<union> B) = {}"
  shows "cstring (mem s') a cs"
  by (rule cstring_agree [OF assms(1) printsD(5) [OF assms(2,3)]])

lemma agree_poke: "a \<in> B \<Longrightarrow> agree (- B) (m(a := v)) m"
  by (auto simp: agree_def)

text \<open>A line read into the buffer and terminated there.\<close>

lemma line_terminated:
  assumes "user_ok s" and "load_bytes (mem s) buf (length line + 1) = line @ [10]" and "0 \<notin> set line"
    and "length line \<le> 128" and "span buf 130 \<inter> screen_span = {}" and "k \<in> {length line, length line + 1}"
  defines "s' \<equiv> s\<lparr>mem := (mem s)(buf + of_nat k := 0)\<rparr>"
  shows "cstring (mem s') buf (take k (line @ [10]))" "prints (span buf 130) s [] s'"
proof -
  let ?m = "(mem s)(buf + of_nat k := 0)"
  have at: "?m (buf + of_nat i) = (line @ [10]) ! i" if "i < k" for i
  proof -
    have i: "i < length line + 1" using that assms(6) by auto
    have "(of_nat i :: u32) \<noteq> of_nat k" using that assms(4,6) of_nat32_inj [of i k] by auto
    then have "?m (buf + of_nat i) = mem s (buf + of_nat i)" by simp
    also have "\<dots> = load_bytes (mem s) buf (length line + 1) ! i" by (simp only: nth_load_bytes [OF i])
    finally show ?thesis by (simp only: assms(2))
  qed
  have k: "length (take k (line @ [10])) = k" using assms(6) by auto
  show "cstring (mem s') buf (take k (line @ [10]))"
  proof (rule cstringI)
    show "mem s' (buf + of_nat i) = take k (line @ [10]) ! i" if "i < length (take k (line @ [10]))" for i
      using at [of i] that nth_take [of i k "line @ [10]"] unfolding k by (simp add: s'_def del: take_append)
    show "mem s' (buf + of_nat (length (take k (line @ [10])))) = 0" unfolding k by (simp add: s'_def)
    show "0 \<notin> set (take k (line @ [10]))" using assms(3) set_take_subset [of k "line @ [10]"] by auto
  qed (use k assms(4,6) in auto)
  show "prints (span buf 130) s [] s'"
    unfolding s'_def by (rule prints_mem [OF assms(1) agree_poke [OF span_add] assms(5)]) (use assms(4,6) in auto)
qed

end
