(* ===== verification/Kud_Programs.thy ===== *)
theory Kud_Programs
  imports Kud_User
begin

unbundle bit_operations_syntax

text \<open>
  The programs of \<^verbatim>\<open>src/syscalls/\<close>. A program is a function on the kernel's state that makes
  its system calls through the dispatcher; it owns no state but its local variables (arguments
  of the functions) and its memory. The address of a local array and the addresses of the
  string literals (\<open>lit\<close>) are the compiler's choice and are parameters.
\<close>

section \<open>The programs\<close>

definition testprint_main :: "nat \<Rightarrow> (string \<Rightarrow> u32) \<Rightarrow> 'a sys_state_scheme \<Rightarrow> 'a sys_state_scheme outcome" where
  "testprint_main q lit s =
     and_then (ece391_fdputs q 1 (lit (''Hello, if this ran, the program was correct. Yay!'' @ [CHR 0x0A])) s)
       (\<lambda>_ s. Returns 0 s)"

text \<open>
  Programs that talk to the user are split where they wait for a line: the read of the second
  part returns when the keyboard interrupt has set the enter flag.
\<close>

definition hello_prompt :: "nat \<Rightarrow> (string \<Rightarrow> u32) \<Rightarrow> 'a sys_state_scheme \<Rightarrow> 'a sys_state_scheme outcome" where
  "hello_prompt q lit s = ece391_fdputs q 1 (lit (''Hi, what'' @ [CHR 0x27] @ ''s your name? '')) s"

definition hello_answer :: "nat \<Rightarrow> (string \<Rightarrow> u32) \<Rightarrow> u32 \<Rightarrow> 'a sys_state_scheme \<Rightarrow> 'a sys_state_scheme outcome" where
  "hello_answer q lit buf s =
     and_then (ece391_read q 0 buf 1023 s) (\<lambda>cnt s.
       if cnt = minus_one
       then and_then (ece391_fdputs q 1 (lit (''Can'' @ [CHR 0x27] @ ''t read name from keyboard.'' @ [CHR 0x0A])) s)
              (\<lambda>_ s. Returns 3 s)
       else let s = s\<lparr>mem := (mem s)(buf + cnt := 0)\<rparr> in
            and_then (ece391_fdputs q 1 (lit ''Hello, '') s) (\<lambda>_ s.
            and_then (ece391_fdputs q 1 buf s) (\<lambda>_ s. Returns 0 s)))"

definition hello_main :: "nat \<Rightarrow> (string \<Rightarrow> u32) \<Rightarrow> u32 \<Rightarrow> 'a sys_state_scheme \<Rightarrow> 'a sys_state_scheme outcome" where
  "hello_main q lit buf s = and_then (hello_prompt q lit s) (\<lambda>_ s. hello_answer q lit buf s)"

partial_function (option) cat_loop :: "nat \<Rightarrow> (string \<Rightarrow> u32) \<Rightarrow> u32 \<Rightarrow> u32 \<Rightarrow> 'a sys_state_scheme
    \<Rightarrow> 'a sys_state_scheme outcome option" where
  "cat_loop q lit fd buf s =
     (case ece391_read q fd buf 1024 s of
        Returns cnt s \<Rightarrow>
          if cnt = 0 then Some (Returns 0 s)
          else if cnt = minus_one
          then Some (and_then (ece391_fdputs q 1 (lit (''file read failed'' @ [CHR 0x0A])) s) (\<lambda>_ s. Returns 3 s))
          else (case ece391_write q 1 buf cnt s of
                  Returns r s \<Rightarrow> if r = minus_one then Some (Returns 3 s) else cat_loop q lit fd buf s
                | out \<Rightarrow> Some out)
      | out \<Rightarrow> Some out)"

definition cat_main :: "nat \<Rightarrow> (string \<Rightarrow> u32) \<Rightarrow> u32 \<Rightarrow> 'a sys_state_scheme \<Rightarrow> 'a sys_state_scheme outcome option" where
  "cat_main q lit buf s =
     (case ece391_getargs q buf 1024 s of
        Returns r s \<Rightarrow>
          if 0 \<noteq> r
          then Some (and_then (ece391_fdputs q 1 (lit (''could not read arguments'' @ [CHR 0x0A])) s) (\<lambda>_ s. Returns 3 s))
          else (case ece391_open q buf s of
                  Returns fd s \<Rightarrow>
                    if fd = minus_one
                    then Some (and_then (ece391_fdputs q 1 (lit (''file not found'' @ [CHR 0x0A])) s) (\<lambda>_ s. Returns 2 s))
                    else cat_loop q lit fd buf s
                | out \<Rightarrow> Some out)
      | out \<Rightarrow> Some out)"

text \<open>The counter: the choice of a limit, and one line per number.\<close>

fun counter_loop :: "nat \<Rightarrow> (string \<Rightarrow> u32) \<Rightarrow> u32 \<Rightarrow> nat \<Rightarrow> u32 \<Rightarrow> 'a sys_state_scheme \<Rightarrow> 'a sys_state_scheme outcome" where
  "counter_loop q lit buf 0 i s = Returns 0 s"
| "counter_loop q lit buf (Suc n) i s =
     (case ece391_itoa (mem s) (i + 1) buf 10 of
        None \<Rightarrow> Faults
      | Some m \<Rightarrow>
          and_then (ece391_fdputs q 1 buf (s\<lparr>mem := m\<rparr>)) (\<lambda>_ s.
          and_then (ece391_fdputs q 1 (lit [CHR 0x0A]) s) (\<lambda>_ s. counter_loop q lit buf n (i + 1) s)))"

definition counter_max :: "u8 \<Rightarrow> nat" where
  "counter_max c = (if c = 48 then 100 else if c = 49 then 10000 else if c = 50 then 100000 else 0)"

definition counter_prompt :: "nat \<Rightarrow> (string \<Rightarrow> u32) \<Rightarrow> 'a sys_state_scheme \<Rightarrow> 'a sys_state_scheme outcome" where
  "counter_prompt q lit s =
     ece391_fdputs q 1 (lit (''Enter the Test Number: (0): 100, (1): 10000, (2): 100000'' @ [CHR 0x0A])) s"

definition counter_answer :: "nat \<Rightarrow> (string \<Rightarrow> u32) \<Rightarrow> u32 \<Rightarrow> 'a sys_state_scheme \<Rightarrow> 'a sys_state_scheme outcome" where
  "counter_answer q lit buf s =
     and_then (ece391_read q 0 buf 1023 s) (\<lambda>cnt s.
       if cnt = minus_one
       then and_then (ece391_fdputs q 1 (lit (''Can'' @ [CHR 0x27] @ ''t read the number from keyboard.'' @ [CHR 0x0A])) s)
              (\<lambda>_ s. Returns 3 s)
       else let s = s\<lparr>mem := (mem s)(buf + cnt := 0)\<rparr> in
            case ece391_strlen (mem s) buf of
              None \<Rightarrow> Faults
            | Some n \<Rightarrow>
                if n > 1 \<or> (n = 1 \<and> (mem s buf < 48 \<or> mem s buf > 50))
                then and_then (ece391_fdputs q 1 (lit (''Wrong Choice!'' @ [CHR 0x0A])) s) (\<lambda>_ s. Returns 0 s)
                else counter_loop q lit buf (counter_max (mem s buf)) 0 s)"

definition counter_main :: "nat \<Rightarrow> (string \<Rightarrow> u32) \<Rightarrow> u32 \<Rightarrow> 'a sys_state_scheme \<Rightarrow> 'a sys_state_scheme outcome" where
  "counter_main q lit buf s = and_then (counter_prompt q lit s) (\<lambda>_ s. counter_answer q lit buf s)"

section \<open>cat\<close>

lemma cat_loop_prints:
  assumes "user_ok s" and "file_ok s k l" and "at_pos s fd k p" and "p \<le> l" and "buf \<noteq> 0"
    and "span buf 1024 \<inter> (disk s k l \<union> screen_span) = {}" and "disk s k l \<inter> screen_span = {}"
  shows "\<exists>s'. cat_loop q lit (of_nat fd) buf s = Some (Returns 0 s')
    \<and> prints (span buf 1024) s (map (file_byte s k) [p..<l]) s'"
  using assms
proof (induction "l - p" arbitrary: s p rule: less_induct)
  case less
  define cnt where "cnt = min 1024 (l - p)"
  let ?s1 = "s\<lparr>mem := filled (mem s) buf cnt (\<lambda>i. file_byte s k (p + i)), pcbs := advanced fd cnt s\<rparr>"
  have off: "span buf 1024 \<inter> disk s k l = {}" "span buf cnt \<subseteq> span buf 1024"
    using less.prems(6) span_mono [of cnt 1024 buf] by (auto simp: cnt_def)
  have rd: "ece391_read q (of_nat fd) buf 1024 s = Returns (of_nat cnt) ?s1"
    using read_regular [OF less.prems(1-3,5) _ _ off(1), of cnt q] by (simp add: cnt_def)
  note a = after_read [OF less.prems(1-3) _ less.prems(6), of cnt]
  show ?case
  proof (cases "p = l")
    case True
    then have "cat_loop q lit (of_nat fd) buf s = Some (Returns 0 ?s1)"
      using rd by (subst cat_loop.simps) (simp add: cnt_def)
    then show ?thesis using a(1) True by (intro exI [of _ ?s1]) (simp add: cnt_def)
  next
    case False
    then have c: "0 < cnt" "cnt < 2147483648" "cnt \<le> l - p" "cnt \<le> 1024" using less.prems(4) by (auto simp: cnt_def)
    note a = a [OF c(3,4)]
    have sc: "span buf cnt \<inter> screen_span = {}" using off(2) less.prems(6) by blast
    obtain s2 where s2: "ece391_write q 1 buf (of_nat cnt) ?s1 = Returns (of_nat cnt) s2" "ground s2 = ground ?s1"
        "prints {} ?s1 (load_bytes (mem ?s1) buf cnt) s2"
      by (rule write_stdout [OF printsD(1) [OF a(1)] less.prems(5) c(2) sc])
    have bs: "load_bytes (mem ?s1) buf cnt = map (file_byte s k) [p..<p + cnt]"
      using c(2) by (simp add: load_bytes_filled map_upt_shift)
    have pl: "places s2 = places ?s1" by (rule groundD(2) [OF s2(2)])
    have "agree (disk ?s1 k l) (mem s2) (mem ?s1)" by (rule printsD(5) [OF s2(3)]) (use less.prems(7) a(3) in simp)
    note f = file_ok_agree [OF a(2) places_eqD(6) [OF pl] this]
    have at: "at_pos s2 fd k (p + cnt)" by (rule at_pos_same [OF a(4) groundD(1) [OF s2(2)] places_eqD(6) [OF pl]])
    have dk: "disk s2 k l = disk s k l" using f(2) a(3) by simp
    obtain s' where s': "cat_loop q lit (of_nat fd) buf s2 = Some (Returns 0 s')"
        "prints (span buf 1024) s2 (map (file_byte s2 k) [p + cnt..<l]) s'"
      using less.hyps [OF _ printsD(1) [OF s2(3)] f(1) at _ less.prems(5)] less.prems(4,6,7) c(1,3) unfolding dk by fastforce
    have tl: "map (file_byte s2 k) [p + cnt..<l] = map (file_byte s k) [p + cnt..<l]" using f(3) a(5) by simp
    have "prints (span buf 1024) s (map (file_byte s k) [p..<p + cnt] @ map (file_byte s k) [p + cnt..<l]) s'"
      using prints_join [OF less.prems(1) a(1) prints_mono [OF s2(3)] s'(2)] unfolding bs tl append_Nil by blast
    moreover have "[p..<p + cnt] @ [p + cnt..<l] = [p..<l]" using c(3) less.prems(4) by (metis le_add1 le_add_diff_inverse upt_add_eq_append nat_add_left_cancel_le)
    moreover have "cat_loop q lit (of_nat fd) buf s = Some (Returns 0 s')"
      using rd s2(1) s'(1) small_result [OF c(2,1)] by (subst cat_loop.simps) simp
    ultimately show ?thesis by (metis map_append)
  qed
qed

lemma cat_prints:
  assumes "user_ok s" and "cstring (mem s) (cmd_args s (cur s)) name" and "length name \<le> 1024" and "buf \<noteq> 0"
    and "span (cmd_args s (cur s)) 1024 \<inter> span buf 1024 = {}"
    and "find_name s name = Some e" and "ftype e = FILE_TYPE_REG" and "unat (num_dir_entries s) \<le> 63"
    and "file_ok s (inode e) l" and "apart_from (span buf 1025) s (inode e) l" and "lowest_free s fd"
  shows "\<exists>s'. cat_main q lit buf s = Some (Returns 0 s') \<and> prints (span buf 1025) s (map (file_byte s (inode e)) [0..<l]) s'"
proof -
  let ?B = "span buf 1025" and ?k = "inode e"
  have sc: "span buf (Suc 1024) \<inter> screen_span = {}" using assms(10) by (auto simp: apart_from_def)
  obtain s1 where s1: "ece391_getargs q buf 1024 s = Returns 0 s1" "ground s1 = ground s" "cstring (mem s1) buf name"
      "prints ?B s [] s1"
    using getargs_stage [OF assms(1,2,3) _ assms(4,5) sc, of q] by auto
  have fn: "find_name s1 name = Some e" using find_name_prints [OF s1(4) assms(10,8)] assms(6) by simp
  note f1 = file_ok_prints [OF s1(4) assms(10,9)]
  have lf: "lowest_free s1 fd" using lowest_free_ground [OF s1(2)] assms(11) by simp
  obtain s2 where s2: "ece391_open q buf s1 = Returns (of_nat fd) s2" "prints {} s1 [] s2" "mem s2 = mem s1" "fd_ready s2 fd"
      "cur_fd s2 fd = \<lparr>fd_ops = Ops_file, inode_ptr = inode_at s1 ?k, file_position = 0, flags = 1\<rparr>"
    using open_stage [OF printsD(1) [OF s1(4)] s1(3) fn lf] assms(7) by blast
  have p2: "prints ?B s1 [] s2" by (rule prints_mono [OF s2(2)]) simp
  note f2 = file_ok_prints [OF p2 f1(4,1)]
  have fd: "2 \<le> fd" "fd < 8" using lf by (simp_all add: lowest_free_def)
  have at: "at_pos s2 fd ?k 0" using fd s2(4,5) f2(5) by (simp add: at_pos_def)
  have off: "span buf 1024 \<inter> (disk s2 ?k l \<union> screen_span) = {}" "disk s2 ?k l \<inter> screen_span = {}"
    using f2(4) span_mono [of 1024 1025 buf] by (auto simp: apart_from_def)
  obtain s' where s': "cat_loop q lit (of_nat fd) buf s2 = Some (Returns 0 s')"
      "prints (span buf 1024) s2 (map (file_byte s2 ?k) [0..<l]) s'"
    using cat_loop_prints [OF printsD(1) [OF s2(2)] f2(1) at _ assms(4) off, of q lit] by auto
  have "prints ?B s ([] @ [] @ map (file_byte s2 ?k) [0..<l]) s'"
    by (rule prints_join [OF assms(1) s1(4) p2 prints_mono [OF s'(2)]]) (rule span_mono, simp)
  then have "prints ?B s (map (file_byte s ?k) [0..<l]) s'" unfolding f2(3) f1(3) by simp
  moreover have "(of_nat fd :: u32) \<noteq> minus_one" using small_result [of fd] fd by simp
  then have "cat_main q lit buf s = Some (Returns 0 s')" using s1(1) s2(1) s'(1) by (simp add: cat_main_def)
  ultimately show ?thesis by blast
qed

lemma cat_misses:
  assumes "user_ok s" and "cstring (mem s) (cmd_args s (cur s)) name" and "length name \<le> 1024" and "buf \<noteq> 0"
    and "span (cmd_args s (cur s)) 1024 \<inter> span buf 1024 = {}" and "span buf 1025 \<inter> screen_span = {}"
    and "find_name s name = None" and "unat (num_dir_entries s) \<le> 63" and "span (bootblock s) 4096 \<inter> (screen_span \<union> span buf 1025) = {}"
    and "literal lit (span buf 1025) s (''file not found'' @ [CHR 0x0A])"
  shows "\<exists>s'. cat_main q lit buf s = Some (Returns 2 s') \<and> prints (span buf 1025) s (bytes (''file not found'' @ [CHR 0x0A])) s'"
proof -
  let ?B = "span buf 1025" and ?m = "''file not found'' @ [CHR 0x0A]"
  have sc: "span buf (Suc 1024) \<inter> screen_span = {}" using assms(6) by simp
  obtain s1 where s1: "ece391_getargs q buf 1024 s = Returns 0 s1" "cstring (mem s1) buf name" "prints ?B s [] s1"
    using getargs_stage [OF assms(1,2,3) _ assms(4,5) sc, of q] by auto
  have "find_name s1 name = None"
    using find_name_agree [OF places_eqD(6) [OF printsD(3) [OF s1(3)]] printsD(5) [OF s1(3) assms(9)] assms(8)] assms(7) by simp
  then have o: "ece391_open q buf s1 = Returns minus_one s1" by (rule open_missing [OF s1(2)])
  obtain s2 where s2: "ece391_fdputs q 1 (lit ?m) s1 = Returns 0 s2" "prints {} s1 (bytes ?m) s2"
    using fdputs_literal [OF printsD(1) [OF s1(3)] literal_prints [OF assms(10) s1(3)]] by blast
  have "prints ?B s ([] @ bytes ?m) s2" by (rule prints_trans [OF assms(1) s1(3) prints_mono [OF s2(2)]]) simp
  moreover have "cat_main q lit buf s = Some (Returns 2 s2)" using s1(1) o s2(1) by (simp add: cat_main_def)
  ultimately show ?thesis by auto
qed

section \<open>Programs that read a line\<close>

text \<open>The first steps of every answer: the line is read, terminated, and the newline shown.\<close>

lemma answer_read:
  assumes "user_ok s" and "flags (cur_fd s 0) \<noteq> 0" and "enter_flag s \<noteq> 0" and "line = input_line (tbuf s)"
    and "buf \<noteq> 0" and "span buf 130 \<inter> screen_span = {}"
  obtains s1 where "ece391_read q 0 buf 1023 s = Returns (of_nat (length line + 1)) s1" "ground s1 = ground s"
    "load_bytes (mem s1) buf (length line + 1) = line @ [10]" "prints (span buf 130) s [10] s1" "length line \<le> 128"
    "0 \<notin> set line" "10 \<notin> set line"
proof -
  have sub: "span buf 129 \<subseteq> span buf 130" by (rule span_mono) simp
  have off: "span buf 129 \<inter> screen_span = {}" using assms(6) sub by blast
  have n: "length line \<le> 128"
    using length_input_line [of "tbuf s"] term_ok_bounds(6) [of s] assms(1,4) by (simp add: user_ok_def)
  obtain s1 where s1: "ece391_read q 0 buf (of_nat 1023) s = Returns (of_nat (length line + 1)) s1" "ground s1 = ground s"
      "load_bytes (mem s1) buf (length line + 1) = line @ [10]" "prints (span buf 129) s [10] s1" "length line \<le> 128"
    by (rule read_stdin [OF assms(1-5) _ _ off, of 1023 q]) (use n in simp_all)
  show thesis
    by (rule that [OF _ s1(2,3) prints_mono [OF s1(4) sub] s1(5)]) (use s1(1) assms(4) input_line_plain in simp_all)
qed

lemma greeting_printed:
  assumes "user_ok s" and "literal lit B s ''Hello, ''" and "buf \<noteq> 0" and "cstring (mem s) buf cs" and "length cs < 2147483648"
    and "span buf (Suc (length cs)) \<inter> screen_span = {}"
  obtains s1 s2 where "ece391_fdputs q 1 (lit ''Hello, '') s = Returns 0 s1" "ece391_fdputs q 1 buf s1 = Returns 0 s2"
    "prints {} s (bytes ''Hello, '' @ cs) s2"
proof -
  obtain s1 where s1: "ece391_fdputs q 1 (lit ''Hello, '') s = Returns 0 s1" "prints {} s (bytes ''Hello, '') s1"
    using fdputs_literal [OF assms(1,2)] by blast
  have c: "cstring (mem s1) buf cs" by (rule cstring_prints [OF assms(4) s1(2)]) (use assms(6) in simp)
  have off: "span buf (length cs) \<inter> screen_span = {}" using assms(6) span_mono [of "length cs" "Suc (length cs)" buf] by auto
  obtain s2 where s2: "ece391_fdputs q 1 buf s1 = Returns 0 s2" "prints {} s1 cs s2"
    using fdputs_stdout [OF printsD(1) [OF s1(2)] assms(3) c assms(5) off] by blast
  show thesis by (rule that [OF s1(1) s2(1) prints_trans [OF assms(1) s1(2) s2(2)]])
qed

lemma hello_prints:
  assumes "user_ok s" and "flags (cur_fd s 0) \<noteq> 0" and "enter_flag s \<noteq> 0" and "line = input_line (tbuf s)"
    and "buf \<noteq> 0" and "span buf 130 \<inter> screen_span = {}" and "literal lit (span buf 130) s ''Hello, ''"
  shows "\<exists>s'. hello_answer q lit buf s = Returns 0 s'
    \<and> prints (span buf 130) s ([10] @ bytes ''Hello, '' @ line @ [10]) s'"
proof -
  let ?B = "span buf 130"
  obtain s1 where s1: "ece391_read q 0 buf 1023 s = Returns (of_nat (length line + 1)) s1" "ground s1 = ground s"
      "load_bytes (mem s1) buf (length line + 1) = line @ [10]" "prints ?B s [10] s1" "length line \<le> 128" "0 \<notin> set line"
    by (rule answer_read [OF assms(1-6)])
  let ?s2 = "s1\<lparr>mem := (mem s1)(buf + of_nat (length line + 1) := 0)\<rparr>"
  have t: "cstring (mem ?s2) buf (take (length line + 1) (line @ [10]))" "prints ?B s1 [] ?s2"
    by (rule line_terminated [OF printsD(1) [OF s1(4)] s1(3,6,5) assms(6)]; simp)+
  have l2: "literal lit ?B ?s2 ''Hello, ''" by (rule literal_prints [OF literal_prints [OF assms(7) s1(4)] t(2)])
  have c2: "cstring (mem ?s2) buf (line @ [10])" using t(1) by simp
  have off: "span buf (Suc (length (line @ [10]))) \<inter> screen_span = {}" "length (line @ [10]) < 2147483648"
    using assms(6) s1(5) span_mono [of "Suc (length (line @ [10]))" 130 buf] by auto
  obtain s3 s4 where s3: "ece391_fdputs q 1 (lit ''Hello, '') ?s2 = Returns 0 s3" and s4: "ece391_fdputs q 1 buf s3 = Returns 0 s4"
      "prints {} ?s2 (bytes ''Hello, '' @ line @ [10]) s4"
    by (rule greeting_printed [OF printsD(1) [OF t(2)] l2 assms(5) c2 off(2,1)])
  have "prints ?B ?s2 (bytes ''Hello, '' @ line @ [10]) s4" by (rule prints_mono [OF s4(2)]) simp
  then have "prints ?B s ([10] @ [] @ bytes ''Hello, '' @ line @ [10]) s4" by (rule prints_join [OF assms(1) s1(4) t(2)])
  moreover have "hello_answer q lit buf s = Returns 0 s4"
    using s1(1,5) s3 s4(1) small_result [of "length line + 1"] by (simp add: hello_answer_def)
  ultimately show ?thesis by (intro exI [of _ s4]) simp
qed

text \<open>The counter sees the newline behind the choice and refuses every line.\<close>

lemma counter_refuses:
  assumes "user_ok s" and "flags (cur_fd s 0) \<noteq> 0" and "enter_flag s \<noteq> 0"
    and "buf \<noteq> 0" and "span buf 130 \<inter> screen_span = {}" and "literal lit (span buf 130) s (''Wrong Choice!'' @ [CHR 0x0A])"
  shows "\<exists>s'. counter_answer q lit buf s = Returns 0 s'
    \<and> prints (span buf 130) s ([10] @ bytes (''Wrong Choice!'' @ [CHR 0x0A])) s'"
proof -
  let ?B = "span buf 130" and ?w = "''Wrong Choice!'' @ [CHR 0x0A]"
  define line where "line = input_line (tbuf s)"
  obtain s1 where s1: "ece391_read q 0 buf 1023 s = Returns (of_nat (length line + 1)) s1" "ground s1 = ground s"
      "load_bytes (mem s1) buf (length line + 1) = line @ [10]" "prints ?B s [10] s1" "length line \<le> 128" "0 \<notin> set line"
    by (rule answer_read [OF assms(1-3) line_def assms(4,5)])
  let ?s2 = "s1\<lparr>mem := (mem s1)(buf + of_nat (length line + 1) := 0)\<rparr>"
  have t: "cstring (mem ?s2) buf (take (length line + 1) (line @ [10]))" "prints ?B s1 [] ?s2"
    by (rule line_terminated [OF printsD(1) [OF s1(4)] s1(3,6,5) assms(5)]; simp)+
  then have c2: "cstring (mem ?s2) buf (line @ [10])" by simp
  have l2: "literal lit ?B ?s2 ?w" by (rule literal_prints [OF literal_prints [OF assms(6) s1(4)] t(2)])
  obtain s3 where s3: "ece391_fdputs q 1 (lit ?w) ?s2 = Returns 0 s3" "prints {} ?s2 (bytes ?w) s3"
    using fdputs_literal [OF printsD(1) [OF t(2)] l2] by blast
  have n: "ece391_strlen (mem ?s2) buf = Some (of_nat (length line + 1))"
    using strlen_cstring [OF c2] by (simp add: strlen_eq)
  have u: "unat (of_nat (length line + 1) :: u32) = length line + 1" using s1(5) by (intro unat_of_nat32) simp
  have "of_nat (length line + 1) > (1 :: u32) \<or> of_nat (length line + 1) = (1 :: u32) \<and> (mem ?s2 buf < 48 \<or> mem ?s2 buf > 50)"
  proof (cases line)
    case Nil
    then show ?thesis using c2 by (simp add: cstring_Cons)
  next
    case (Cons a as)
    then have "(1 :: u32) < of_nat (length line + 1)" unfolding word_less_nat_alt u by simp
    then show ?thesis by blast
  qed
  then have "counter_answer q lit buf s = Returns 0 s3"
    using s1(1,5) n s3(1) small_result [of "length line + 1"] by (auto simp: counter_answer_def Let_def)
  moreover have "prints ?B s ([10] @ [] @ bytes ?w) s3"
    by (rule prints_join [OF assms(1) s1(4) t(2) prints_mono [OF s3(2)]]) simp
  ultimately show ?thesis by auto
qed

text \<open>The counting itself: the decimal numerals, one per line.\<close>

definition decimal :: "nat \<Rightarrow> u8 list" where
  "decimal v = (if v = 0 then [48] else map ((!) itoa_lookup) (rev (ldigits 10 v)))"

lemma decimal_length: "v < 4294967296 \<Longrightarrow> length (decimal v) \<le> 32"
  using ldigits_length [of 10 v 32] by (simp add: decimal_def)

lemma counter_counts:
  assumes "user_ok s" and "buf \<noteq> 0" and "span buf 33 \<inter> screen_span = {}" and "literal lit (span buf 33) s [CHR 0x0A]"
    and "i + n < 4294967296"
  shows "\<exists>s'. counter_loop q lit buf n (of_nat i) s = Returns 0 s'
    \<and> prints (span buf 33) s (concat (map (\<lambda>v. decimal v @ [10]) [Suc i..<Suc (i + n)])) s'"
  using assms
proof (induction n arbitrary: i s)
  case 0
  then show ?case using prints_refl [OF 0(1)] by auto
next
  case (Suc n)
  let ?B = "span buf 33" and ?v = "of_nat i + 1 :: u32" and ?d = "decimal (Suc i)"
  have v: "unat ?v = Suc i" "?v = of_nat (Suc i)" using unat_of_nat32 [of "Suc i"] Suc.prems(5) by (simp_all add: add.commute)
  have "?v \<noteq> 0"
  proof
    assume "?v = 0"
    then have "unat ?v = 0" by (simp only: unat_0)
    then show False using v(1) by simp
  qed
  then obtain m where m: "itoa (mem s) ?v buf 10 = Some m" "cstring m buf ?d" "\<forall>a. 33 \<le> unat (a - buf) \<longrightarrow> m a = mem s a"
    using itoa_digits [of 10 "mem s" ?v buf] v(1) by (auto simp: decimal_def)
  let ?s1 = "s\<lparr>mem := m\<rparr>"
  have p1: "prints ?B s [] ?s1"
    by (rule prints_mem [OF Suc.prems(1) _ Suc.prems(3)]) (use m(3) in \<open>auto simp: agree_def span_def\<close>)
  have len: "length ?d < 2147483648" "span buf (length ?d) \<inter> screen_span = {}"
    using decimal_length [of "Suc i"] Suc.prems(3,5) span_mono [of "length ?d" 33 buf] by auto
  obtain s2 where s2: "ece391_fdputs q 1 buf ?s1 = Returns 0 s2" "prints {} ?s1 ?d s2"
    using fdputs_stdout [OF printsD(1) [OF p1] Suc.prems(2) _ len] m(2) by auto
  have p2: "prints ?B ?s1 ?d s2" by (rule prints_mono [OF s2(2)]) simp
  have l2: "literal lit ?B s2 [CHR 0x0A]" by (rule literal_prints [OF literal_prints [OF Suc.prems(4) p1] p2])
  obtain s3 where s3: "ece391_fdputs q 1 (lit [CHR 0x0A]) s2 = Returns 0 s3" "prints {} s2 (bytes [CHR 0x0A]) s3"
    using fdputs_literal [OF printsD(1) [OF p2] l2] by blast
  have p3: "prints ?B s2 [10] s3" using prints_mono [OF s3(2), of ?B] by (simp add: bytes_def)
  have l3: "literal lit ?B s3 [CHR 0x0A]" by (rule literal_prints [OF l2 p3])
  obtain s' where s': "counter_loop q lit buf n (of_nat (Suc i)) s3 = Returns 0 s'"
      "prints ?B s3 (concat (map (\<lambda>v. decimal v @ [10]) [Suc (Suc i)..<Suc (Suc i + n)])) s'"
    using Suc.IH [OF printsD(1) [OF p3] Suc.prems(2,3) l3, of "Suc i"] Suc.prems(5) by auto
  have "prints ?B s ([] @ ?d @ [10]) s3" by (rule prints_join [OF Suc.prems(1) p1 p2 p3])
  moreover have up: "[Suc i..<Suc (i + Suc n)] = Suc i # [Suc (Suc i)..<Suc (Suc i + n)]" by (subst upt_conv_Cons) simp_all
  ultimately have "prints ?B s (concat (map (\<lambda>v. decimal v @ [10]) [Suc i..<Suc (i + Suc n)])) s'"
    using prints_trans [OF Suc.prems(1) _ s'(2), of "[] @ ?d @ [10]"] unfolding up by (simp del: upt_Suc)
  moreover have "counter_loop q lit buf (Suc n) (of_nat i) s = Returns 0 s'"
    using m(1) s2(1) s3(1) s'(1) by (simp add: itoa_eq v(2)) 
  ultimately show ?case by blast
qed

end
