(* ===== verification/Kud_Shell.thy ===== *)
theory Kud_Shell
  imports Kud_Programs
begin

unbundle bit_operations_syntax

text \<open>
  The shell (\<^verbatim>\<open>src/syscalls/ece391shell.c\<close>): what a round of its loop does with every kind of
  line, down to the program that the kernel enters.
\<close>

section \<open>The shell\<close>

text \<open>
  The shell: the banner, and one round of its loop, from the prompt to the execution of the
  line. The value of the round says whether the loop goes on; when the line names a program,
  the kernel enters it, and the loop is resumed by the program's halt.
\<close>

definition shell_banner :: "nat \<Rightarrow> (string \<Rightarrow> u32) \<Rightarrow> 'a sys_state_scheme \<Rightarrow> 'a sys_state_scheme outcome" where
  "shell_banner q lit s = ece391_fdputs q 1 (lit (''Starting 391 Shell'' @ [CHR 0x0A])) s"

definition shell_prompt :: "nat \<Rightarrow> (string \<Rightarrow> u32) \<Rightarrow> 'a sys_state_scheme \<Rightarrow> 'a sys_state_scheme outcome" where
  "shell_prompt q lit s = ece391_fdputs q 1 (lit ''391OS> '') s"

definition shell_report :: "nat \<Rightarrow> (string \<Rightarrow> u32) \<Rightarrow> u32 \<Rightarrow> 'a sys_state_scheme \<Rightarrow> 'a sys_state_scheme outcome" where
  "shell_report q lit rval s =
     (if rval = minus_one then ece391_fdputs q 1 (lit (''no such command'' @ [CHR 0x0A])) s
      else if rval = 256 then ece391_fdputs q 1 (lit (''program terminated by exception'' @ [CHR 0x0A])) s
      else if rval \<noteq> 0 then ece391_fdputs q 1 (lit (''program terminated abnormally'' @ [CHR 0x0A])) s
      else Returns 0 s)"

datatype 's shell_round = Exits 's | Next "'s outcome" | Fails 's | Stuck "'s outcome"

definition shell_command :: "nat \<Rightarrow> (string \<Rightarrow> u32) \<Rightarrow> u32 \<Rightarrow> 'a sys_state_scheme \<Rightarrow> 'a sys_state_scheme shell_round" where
  "shell_command q lit buf s =
     (case ece391_read q 0 buf 1023 s of
        Returns cnt s \<Rightarrow>
          if cnt = minus_one
          then (case ece391_fdputs q 1 (lit (''read from keyboard failed'' @ [CHR 0x0A])) s of
                  Returns _ s \<Rightarrow> Fails s | out \<Rightarrow> Stuck out)
          else let cnt = (if 0 <s cnt \<and> mem s (buf + cnt - 1) = 10 then cnt - 1 else cnt);
                   s = s\<lparr>mem := (mem s)(buf + cnt := 0)\<rparr>
               in (case ece391_strcmp (mem s) buf (lit ''exit'') of
                     None \<Rightarrow> Stuck Faults
                   | Some d \<Rightarrow>
                       if d = 0 then Exits s
                       else if mem s buf = 0 then Next (Returns 0 s)
                       else Next (and_then (ece391_execute q buf s) (\<lambda>rval s. shell_report q lit rval s)))
      | out \<Rightarrow> Stuck out)"

section \<open>A line at the prompt\<close>

lemma strcmp_decides:
  assumes "cstring m a xs" and "cstring m b ys"
  shows "\<exists>d. ece391_strcmp m a b = Some d \<and> (d = 0 \<longleftrightarrow> xs = ys)"
  using assms
proof (induction xs arbitrary: a b ys)
  case Nil
  show ?case
  proof (cases ys)
    case Nil
    then show ?thesis using Nil.prems by (subst ece391_strcmp.simps) (simp add: cstring_Nil)
  next
    case (Cons y ys')
    then show ?thesis using Nil.prems by (subst ece391_strcmp.simps) (auto simp: cstring_Nil cstring_Cons uint_0_iff)
  qed
next
  case (Cons x xs)
  show ?case
  proof (cases ys)
    case Nil
    then show ?thesis using Cons.prems by (subst ece391_strcmp.simps) (auto simp: cstring_Nil cstring_Cons uint_0_iff)
  next
    case (Cons y ys')
    show ?thesis
    proof (cases "x = y")
      case True
      then show ?thesis using Cons.prems Cons.IH [of "a + 1" "b + 1" ys'] \<open>ys = y # ys'\<close>
        by (subst ece391_strcmp.simps) (simp add: cstring_Cons)
    next
      case False
      then show ?thesis using Cons.prems \<open>ys = y # ys'\<close>
        by (subst ece391_strcmp.simps) (auto simp: cstring_Cons simp flip: word_uint_eq_iff)
    qed
  qed
qed

text \<open>What a round of the shell does with the line that was typed.\<close>

lemma shell_line:
  assumes "user_ok s" and "flags (cur_fd s 0) \<noteq> 0" and "enter_flag s \<noteq> 0" and "line = input_line (tbuf s)"
    and "buf \<noteq> 0" and "span buf 130 \<inter> screen_span = {}" and "literal lit (span buf 130) s ''exit''"
  obtains s2 where "prints (span buf 130) s [10] s2" "ground s2 = ground s" "cstring (mem s2) buf line"
    "length line \<le> 128" "shell_command q lit buf s = (if line = bytes ''exit'' then Exits s2 else if line = [] then Next (Returns 0 s2)
       else Next (and_then (execute buf s2) (\<lambda>rval s. shell_report q lit rval s)))"
proof -
  let ?B = "span buf 130"
  obtain s1 where s1: "ece391_read q 0 buf 1023 s = Returns (of_nat (length line + 1)) s1" "ground s1 = ground s"
      "load_bytes (mem s1) buf (length line + 1) = line @ [10]" "prints ?B s [10] s1" "length line \<le> 128" "0 \<notin> set line"
    by (rule answer_read [OF assms(1-6)])
  let ?s2 = "s1\<lparr>mem := (mem s1)(buf + of_nat (length line) := 0)\<rparr>"
  have t: "cstring (mem ?s2) buf (take (length line) (line @ [10]))" "prints ?B s1 [] ?s2"
    by (rule line_terminated [OF printsD(1) [OF s1(4)] s1(3,6,5) assms(6)]; simp)+
  then have c2: "cstring (mem ?s2) buf line" by simp
  have "literal lit ?B ?s2 ''exit''" by (rule literal_prints [OF literal_prints [OF assms(7) s1(4)] t(2)])
  then obtain d where d: "ece391_strcmp (mem ?s2) buf (lit ''exit'') = Some d" "d = 0 \<longleftrightarrow> line = bytes ''exit''"
    using strcmp_decides [OF c2, of "lit ''exit''" "bytes ''exit''"] by (auto simp: literal_def)
  define e c :: u32 where "e = of_nat (length line)" and "c = of_nat (length line + 1)"
  have c: "c \<noteq> minus_one" "buf + c - 1 = buf + e" "c - 1 = e"
    using small_result [of "length line + 1"] s1(5) by (simp_all add: e_def c_def)
  have last: "mem s1 (buf + e) = 10"
    using arg_cong [OF s1(3), of "\<lambda>xs. xs ! length line"] by (simp add: nth_load_bytes nth_append e_def)
  have "sint c = int (length line + 1)" unfolding c_def using s1(5) by (intro sint_of_nat32) simp
  then have pos: "0 <s c" by (simp add: word_sless_alt)
  have z: "mem ?s2 buf = 0 \<longleftrightarrow> line = []" using c2 by (cases line) (auto simp: cstring_Cons cstring_Nil)
  have "shell_command q lit buf s = (if d = 0 then Exits ?s2 else if mem ?s2 buf = 0 then Next (Returns 0 ?s2)
       else Next (and_then (execute buf ?s2) (\<lambda>rval s. shell_report q lit rval s)))"
    using s1(1) d(1) unfolding e_def [symmetric] c_def [symmetric]
    by (simp add: c last pos shell_command_def Let_def ece391_execute_def syscall_handler_def del: fun_upd_apply)
  note this [unfolded d(2) z]
  moreover have "prints ?B s ([10] @ []) ?s2" by (rule prints_trans [OF assms(1) s1(4) t(2)])
  ultimately show thesis using c2 s1(2,5) by (intro that [of ?s2]) simp_all
qed

section \<open>Programs that are found, and names that are not\<close>

text \<open>
  A round of the shell on a line that names a program: the kernel enters it with its file in
  place and the rest of the line as its arguments.
\<close>

lemma shell_enters:
  assumes prompt: "user_ok s" "flags (cur_fd s 0) \<noteq> 0" "enter_flag s \<noteq> 0" "input_line (tbuf s) = name @ replicate k 32 @ args"
    and mem: "buf \<noteq> 0" "span buf 130 \<inter> screen_span = {}" "literal lit (span buf 130) s ''exit''"
    and run: "runs s st" "fds_ok s" "length (concat st) < 6" and i: "find_free_pcb s = of_nat i" "1 \<le> i" "i < 7"
    and split: "name \<noteq> []" "32 \<notin> set name" "args = [] \<or> 0 < k \<and> hd args \<noteq> 32" "name @ replicate k 32 @ args \<noteq> bytes ''exit''"
    and len: "length name < 128" "length args < 128"
    and apart: "span buf 130 \<inter> exec_writes s i l = {}" "apart_from (span buf 130) s ino l"
    and prog: "runnable s name ino l" "layout_ok s i ino l"
  shows "\<exists>s'. shell_command q lit buf s = Next (Enters (elf_entry s ino) s') \<and> runs s' (push (curr_terminal s) i st) \<and> fds_ok s'
    \<and> load_bytes (mem s') IMAGE_START l = map (file_byte s ino) [0..<l] \<and> cstring (mem s') (cmd_args s i) args"
proof -
  let ?line = "name @ replicate k 32 @ args"
  obtain s2 where s2: "prints (span buf 130) s [10] s2" "ground s2 = ground s" "cstring (mem s2) buf ?line"
      "length ?line \<le> 128" "shell_command q lit buf s = (if ?line = bytes ''exit'' then Exits s2 else if ?line = [] then Next (Returns 0 s2)
         else Next (and_then (execute buf s2) (\<lambda>rval s. shell_report q lit rval s)))"
    by (rule shell_line [OF prompt(1-3) prompt(4) [symmetric] mem])
  note g = groundD [OF s2(2)]
  note p = places_eqD [OF g(2)]
  have r: "runs s2 st" "fds_ok s2" "find_free_pcb s2 = of_nat i" "curr_terminal s2 = curr_terminal s"
    using run i(1) runs_kern [OF g(1)] fds_ok_kern [OF g(1)] kern_eqD(1,5) [OF g(1)] by (simp_all add: find_free_pcb_def)
  have "agree (disk s ino l) (mem s2) (mem s)" by (rule printsD(5) [OF s2(1)]) (use apart(2) in \<open>auto simp: apart_from_def\<close>)
  note f = runnable_agree [OF prog(1) p(6) this]
  have ex: "exec_writes s2 i l = exec_writes s i l" by (simp add: exec_writes_def p)
  have n: "length name + k + length args \<le> 128" using s2(4) by simp
  have "span buf (Suc (length name + k + length args)) \<subseteq> span buf 130" using n by (intro span_mono) simp
  then have ap: "span buf (Suc (length name + k + length args)) \<inter> exec_writes s2 i l = {}" using apart(1) unfolding ex by blast
  have lay: "layout_ok s2 i ino l" by (rule layout_agree [OF prog(2) g(2) f(3)])
  obtain s' where "execute buf s2 = Enters (elf_entry s2 ino) s'" "runs s' (push (curr_terminal s2) i st)" "fds_ok s'"
      "load_bytes (mem s') IMAGE_START l = map (file_byte s2 ino) [0..<l]" "cstring (mem s') (cmd_args s2 i) args"
    using execute_loads [OF r(1,2) run(3) r(3) i(2,3) s2(3) mem(1) split(1-3) len _ ap f(1) lay] n by auto
  then show ?thesis using s2(5) split(1,4) r(4) f(2,4) by (simp add: p)
qed

text \<open>A name that is not in the directory: the shell says so and the processes are as before.\<close>

definition console :: "'a term_state_scheme \<Rightarrow> _" where
  "console s = (csr_x s, csr_y s, line_y s, line_beginning s, buffer_len s, terminal_buffer s, attrib s, terminal_ptr s)"

lemma console_term_ok: "console s' = console s \<Longrightarrow> curr_terminal s' = curr_terminal s \<Longrightarrow> term_ok s' = term_ok s"
  by (simp add: console_def term_ok_def term_base_def)

lemma console_display:
  assumes "console s' = console s" and "curr_terminal s' = curr_terminal s" and "agree screen_span (mem s') (mem s)"
  shows "display s' = display s"
proof -
  have "display (s\<lparr>mem := mem s'\<rparr>) = display s" by (rule display_mem [OF assms(3)])
  then show ?thesis using assms(1,2) by (simp add: display_def console_def cells_def)
qed

lemma console_simps [simp]:
  "console (s\<lparr>mem := m\<rparr>) = console s" "console (s\<lparr>process_number := n\<rparr>) = console s" "console (upd_pcb i f s) = console s"
  "console (s\<lparr>terminal_info := ti\<rparr>) = console s" "console (s\<lparr>current_pcb := c\<rparr>) = console s"
  "console (cli s) = console s" "console (send_eoi irq s) = console s"
  by (simp_all add: console_def upd_pcb_def cli_def send_eoi_def outb_def)

lemma console_spawned [simp]: "console (spawned i s) = console s"
  by (simp add: spawned_def link_parent_def pcb_init_def Let_def split: option.split)

lemma console_destroy [simp]: "console (snd (pcb_destroy i s)) = console s" "mem (snd (pcb_destroy i s)) = mem s"
  by (simp_all add: pcb_destroy_def Let_def)

text \<open>The descriptor table of the process that asked.\<close>

lemma destroyed_table:
  assumes "j \<noteq> i" and "runs s st" and "1 \<le> i" and "i < 7" and "find_free_pcb s = of_nat i"
  shows "pcbs (snd (pcb_destroy i ((spawned i (cli (send_eoi 1 s)))\<lparr>mem := m\<rparr>))) ! j = pcbs s ! j"
proof -
  let ?s = "cli (send_eoi 1 s)"
  have k: "kern ?s = kern s" by simp
  have r: "runs ?s st" and free: "find_free_pcb ?s = of_nat i"
    using assms(2,5) runs_kern [OF k] kern_eqD(1) [OF k] by (simp_all add: find_free_pcb_def)
  have "pcbs (spawned i ?s) ! j = pcbs s ! j"
    using spawned_effect(6) [OF r assms(3,4) free assms(1)] kern_eqD(1) [OF k] by simp
  then show ?thesis using assms(1) by (simp add: pcb_destroy_def Let_def upd_pcb_def)
qed

lemma runs_same_current:
  assumes "runs s st" and "runs s' st" and "curr_terminal s' = curr_terminal s" and "current_pcb s = Some c"
    and "current_pcb s' \<noteq> None"
  shows "current_pcb s' = Some c" "c = 0 \<or> c \<in> set (concat st)"
proof -
  note t = runsD(11) [OF assms(1) runsD(2) [OF assms(1)]]
  note a = runs_current [OF assms(1)] and b = runs_current [OF assms(2)]
  show "current_pcb s' = Some c" "c = 0 \<or> c \<in> set (concat st)"
    using a(1,2) b(1,2) assms(3-5) t by (cases "st ! curr_terminal s"; auto)+
qed

lemma free_not_used:
  assumes "runs s st" and "length (concat st) < 6" and "find_free_pcb s = of_nat i" and "i < 7"
  shows "i \<notin> set (concat st)"
proof -
  obtain j where j: "1 \<le> j" "j < 7" "j \<notin> set (concat st)" "find_free_pcb s = of_nat j" by (rule runs_free [OF assms(1,2)])
  then have "i = j" using assms(3,4) of_nat32_inj [of i j] by simp
  with j(3) show ?thesis by simp
qed

lemma refused_user_ok:
  assumes "user_ok s" and "runs s st" and "runs s' st" and "fds_ok s'" and "curr_terminal s' = curr_terminal s"
    and "current_pcb s \<noteq> None \<Longrightarrow> current_pcb s' \<noteq> None" and "console s' = console s"
    and "length (concat st) < 6" and "find_free_pcb s = of_nat i" and "1 \<le> i" and "i < 7"
    and "s' = snd (pcb_destroy i ((spawned i (cli (send_eoi 1 s)))\<lparr>mem := m\<rparr>))"
  shows "user_ok s'"
proof -
  have u: "files_ok s" "term_ok s" "flags (cur_fd s 1) \<noteq> 0" using assms(1) by (simp_all add: user_ok_def)
  obtain c where c: "current_pcb s = Some c" by (rule files_okD [OF u(1)])
  then have n: "current_pcb s' \<noteq> None" using assms(6) by simp
  note cc = runs_same_current [OF assms(2,3,5) c n]
  have "c \<noteq> i" using cc(2) free_not_used [OF assms(2,8,9,11)] assms(10) by auto
  then have "pcbs s' ! c = pcbs s ! c" unfolding assms(12) by (rule destroyed_table [OF _ assms(2,10,11,9)])
  then have "cur_fd s' 1 = cur_fd s 1" using c cc(1) by (simp add: cur_fd_def)
  then show ?thesis
    using u(2,3) console_term_ok [OF assms(7,5)] files_ok_runs [OF assms(3,4) n] by (simp add: user_ok_def)
qed

lemma shell_refuses:
  assumes prompt: "user_ok s" "flags (cur_fd s 0) \<noteq> 0" "enter_flag s \<noteq> 0" "input_line (tbuf s) = name @ replicate k 32 @ args"
    and mem: "buf \<noteq> 0" "span buf 130 \<inter> screen_span = {}" "literal lit (span buf 130) s ''exit''"
    and run: "runs s st" "fds_ok s" "length (concat st) < 6" and i: "find_free_pcb s = of_nat i" "1 \<le> i" "i < 7"
    and split: "name \<noteq> []" "32 \<notin> set name" "args = [] \<or> 0 < k \<and> hd args \<noteq> 32" "name @ replicate k 32 @ args \<noteq> bytes ''exit''"
    and len: "length name < 128" "length args < 128"
    and W: "W = span (stack_copy_at i) 618 \<union> span (cmd_name s i) 256" "W \<inter> (screen_span \<union> span buf 130) = {}"
    and msg: "literal lit (span buf 130 \<union> W) s (''no such command'' @ [CHR 0x0A])"
    and boot: "span (bootblock s) 4096 \<inter> (screen_span \<union> span buf 130 \<union> W) = {}" "unat (num_dir_entries s) \<le> 63"
    and missing: "find_name s name = None"
  shows "\<exists>s'. shell_command q lit buf s = Next (Returns 0 s') \<and> runs s' st \<and> fds_ok s' \<and> user_ok s'
    \<and> display s' = display (show_text ([10] @ bytes (''no such command'' @ [CHR 0x0A])) s)"
proof -
  let ?line = "name @ replicate k 32 @ args" and ?msg = "''no such command'' @ [CHR 0x0A]"
  obtain s2 where s2: "prints (span buf 130) s [10] s2" "ground s2 = ground s" "cstring (mem s2) buf ?line"
      "length ?line \<le> 128" "shell_command q lit buf s = (if ?line = bytes ''exit'' then Exits s2 else if ?line = [] then Next (Returns 0 s2)
         else Next (and_then (execute buf s2) (\<lambda>rval s. shell_report q lit rval s)))"
    by (rule shell_line [OF prompt(1-3) prompt(4) [symmetric] mem])
  note g = groundD [OF s2(2)]
  note p = places_eqD [OF g(2)]
  have r: "runs s2 st" "fds_ok s2" "find_free_pcb s2 = of_nat i"
    using run i(1) runs_kern [OF g(1)] fds_ok_kern [OF g(1)] kern_eqD(1) [OF g(1)] by (simp_all add: find_free_pcb_def)
  have bb: "bootblock s2 = bootblock s" using p(6) by (simp add: same_fs_def)
  have ag: "agree (span (bootblock s) 4096) (mem s2) (mem s)" by (rule printsD(5) [OF s2(1)]) (use boot(1) in auto)
  have nm: "find_name s2 name = None" "unat (num_dir_entries s2) \<le> 63"
    using find_name_agree [OF p(6) ag boot(2)] num_dir_entries_agree [OF p(6) ag] missing boot(2) by simp_all
  have n: "length name + k + length args \<le> 128" using s2(4) by simp
  have "span buf (Suc (length name + k + length args)) \<subseteq> span buf 130" using n by (intro span_mono) simp
  then have ap: "span buf (Suc (length name + k + length args)) \<inter> (span (stack_copy_at i) 618 \<union> span (cmd_name s2 i) 256) = {}"
      "span (bootblock s2) 4096 \<inter> (span (stack_copy_at i) 618 \<union> span (cmd_name s2 i) 256) = {}"
    using W boot(1) unfolding p bb by blast+
  obtain s3 m where s3: "execute buf s2 = Returns minus_one s3" "runs s3 st" "fds_ok s3" "curr_terminal s3 = curr_terminal s2"
      "current_pcb s2 \<noteq> None \<Longrightarrow> current_pcb s3 \<noteq> None"
      "s3 = snd (pcb_destroy i ((spawned i (cli (send_eoi 1 s2)))\<lparr>mem := m\<rparr>))" "agree (- W) m (mem s2)"
    using execute_missing [OF r(1,2) run(3) r(3) i(2,3) s2(3) mem(1) split(1-3) len _ ap nm(2,1)] n unfolding p W(1) [symmetric] by auto
  have u2: "user_ok s2" by (rule printsD(1) [OF s2(1)])
  have con: "console s3 = console s2" "mem s3 = m" unfolding s3(6) by simp_all
  have u3: "user_ok s3" by (rule refused_user_ok [OF u2 r(1) s3(2-5) con(1) run(3) r(3) i(2,3) s3(6)])
  have d3: "display s3 = display s2" by (rule console_display [OF con(1) s3(4)]) (use con(2) s3(7) W(2) in \<open>auto simp: agree_def\<close>)
  have m2: "literal lit (span buf 130 \<union> W) s2 ?msg" by (rule literal_prints [OF msg prints_mono [OF s2(1)]]) blast
  then have m3: "literal lit (span buf 130 \<union> W) s3 ?msg"
    using cstring_agree [of "mem s2" "lit ?msg" "bytes ?msg" m] s3(7) unfolding literal_def con(2)
    by (auto simp: agree_def)
  obtain s4 where s4: "ece391_fdputs q 1 (lit ?msg) s3 = Returns 0 s4" "ground s4 = ground s3" "prints {} s3 (bytes ?msg) s4"
    by (rule fdputs_literal [OF u3 m3])
  have "display s4 = display (show_text (bytes ?msg) s2)"
    using display_show_text [OF d3] u2 u3 printsD(4) [OF s4(3)] by (simp add: user_ok_def)
  also have "\<dots> = display (show_text (bytes ?msg) (show_text [10] s))"
    by (rule display_show_text [OF printsD(4) [OF s2(1)]]) (use u2 prompt(1) show_text_ok [of s "[10]"] in \<open>auto simp: user_ok_def\<close>)
  finally have "display s4 = display (show_text ([10] @ bytes ?msg) s)" by simp
  moreover have "shell_command q lit buf s = Next (Returns 0 s4)"
    using s2(5) split(1,4) s3(1) s4(1) by (simp add: shell_report_def)
  moreover have "runs s4 st" "fds_ok s4" using s3(2,3) runs_kern [OF groundD(1) [OF s4(2)]] fds_ok_kern [OF groundD(1) [OF s4(2)]] by simp_all
  ultimately show ?thesis using printsD(1) [OF s4(3)] by blast
qed

end
