(* ===== verification/Kud_Dir.thy ===== *)
theory Kud_Dir
  imports Kud_Programs
begin

unbundle bit_operations_syntax

text \<open>
  The programs that read the directory: the listing (\<^verbatim>\<open>src/syscalls/ece391ls.c\<close>) and the
  search (\<^verbatim>\<open>src/syscalls/ece391grep.c\<close>).
\<close>

section \<open>The listing\<close>

partial_function (option) ls_loop :: "nat \<Rightarrow> (string \<Rightarrow> u32) \<Rightarrow> u32 \<Rightarrow> u32 \<Rightarrow> 'a sys_state_scheme
    \<Rightarrow> 'a sys_state_scheme outcome option" where
  "ls_loop q lit fd buf s =
     (case ece391_read q fd buf 32 s of
        Returns cnt s \<Rightarrow>
          if cnt = 0 then Some (Returns 0 s)
          else if cnt = minus_one
          then Some (and_then (ece391_fdputs q 1 (lit (''directory entry read failed'' @ [CHR 0x0A])) s)
                       (\<lambda>_ s. Returns 3 s))
          else let s = s\<lparr>mem := (mem s)(buf + cnt := 10)\<rparr> in
               (case ece391_write q 1 buf (cnt + 1) s of
                  Returns r s \<Rightarrow> if r = minus_one then Some (Returns 3 s) else ls_loop q lit fd buf s
                | out \<Rightarrow> Some out)
      | out \<Rightarrow> Some out)"

definition ls_main :: "nat \<Rightarrow> (string \<Rightarrow> u32) \<Rightarrow> u32 \<Rightarrow> 'a sys_state_scheme \<Rightarrow> 'a sys_state_scheme outcome option" where
  "ls_main q lit buf s =
     (case ece391_open q (lit ''.'') s of
        Returns fd s \<Rightarrow>
          if fd = minus_one
          then Some (and_then (ece391_fdputs q 1 (lit (''directory open failed'' @ [CHR 0x0A])) s) (\<lambda>_ s. Returns 2 s))
          else ls_loop q lit fd buf s
      | out \<Rightarrow> Some out)"

section \<open>Reading the directory\<close>

text \<open>
  The names of the directory as the kernel measures them, up to the first zero byte. A name
  of 32 characters has no terminator, and its length includes the type byte behind it.
\<close>

definition directory :: "'a fs_state_scheme \<Rightarrow> u8 list list \<Rightarrow> bool" where
  "directory s names \<longleftrightarrow> unat (num_dir_entries s) = length names \<and> length names \<le> 63
     \<and> (\<forall>p < length names. cstring (mem s) (dir_entry s (of_nat p)) (names ! p) \<and> names ! p \<noteq> [] \<and> length (names ! p) \<le> 33)"

definition dir_pos :: "'a pcb_state_scheme \<Rightarrow> nat \<Rightarrow> nat \<Rightarrow> bool" where
  "dir_pos s fd p \<longleftrightarrow> 2 \<le> fd \<and> fd < 8 \<and> fd_ready s fd
     \<and> cur_fd s fd = \<lparr>fd_ops = Ops_file, inode_ptr = 0, file_position = of_nat p, flags = 1\<rparr>"

lemma entry_in_boot:
  assumes "p < 63" and "n \<le> 34"
  shows "span (dir_entry s (of_nat p)) n \<subseteq> span (bootblock s) 4096"
proof -
  have "dir_entry s (of_nat p) = bootblock s + of_nat (64 + 64 * p)" by (simp add: dir_entry_def)
  then show ?thesis using span_sub [of "64 + 64 * p" n 4096 "bootblock s"] assms by simp
qed

lemma directory_prints:
  assumes "directory s names" and "prints B s cs s'" and "span (bootblock s) 4096 \<inter> (screen_span \<union> B) = {}"
  shows "directory s' names" "bootblock s' = bootblock s"
proof -
  note f = places_eqD(6) [OF printsD(3) [OF assms(2)]]
  have a: "agree (span (bootblock s) 4096) (mem s') (mem s)" by (rule printsD(5) [OF assms(2,3)])
  show b: "bootblock s' = bootblock s" using f by (simp add: same_fs_def)
  have "cstring (mem s') (dir_entry s (of_nat p)) (names ! p)" if "p < length names" for p
    using assms(1) that entry_in_boot [of p "Suc (length (names ! p))" s]
    by (intro cstring_agree [OF _ agree_sub [OF a]]) (auto simp: directory_def)
  moreover have "dir_entry s' p = dir_entry s p" for p by (simp add: dir_entry_def b)
  ultimately show "directory s' names" using assms(1) num_dir_entries_agree [OF f a] by (simp add: directory_def)
qed

lemma span_forward:
  assumes "span buf n \<inter> span c n = {}"
  shows "forward_ok buf c n"
proof -
  have "buf \<notin> span buf n \<inter> span c n" using assms by simp
  then show ?thesis by (auto simp: forward_ok_def span_def)
qed

lemma read_directory:
  assumes "user_ok s" and "directory s names" and "dir_pos s fd p" and "p < length names" and "buf \<noteq> 0"
    and "span buf 34 \<inter> (span (bootblock s) 4096 \<union> screen_span) = {}"
  obtains s' where "ece391_read q (of_nat fd) buf 32 s = Returns (of_nat (length (names ! p))) s'"
    "prints (span buf 34) s [] s'" "load_bytes (mem s') buf (length (names ! p)) = names ! p" "dir_pos s' fd (Suc p)"
    "\<forall>g. g \<noteq> fd \<longrightarrow> cur_fd s' g = cur_fd s g"
proof -
  let ?nm = "names ! p" and ?e = "dir_entry s (of_nat p)"
  have d: "unat (num_dir_entries s) = length names" "length names \<le> 63" "cstring (mem s) ?e ?nm" "length ?nm \<le> 33"
    using assms(2,4) by (simp_all add: directory_def)
  have f: "2 \<le> fd" "fd < 8" "fd_ready s fd" "cur_fd s fd = \<lparr>fd_ops = Ops_file, inode_ptr = 0, file_position = of_nat p, flags = 1\<rparr>"
    using assms(3) by (simp_all add: dir_pos_def)
  let ?n = "of_nat (length ?nm) :: u32"
  let ?m = "memcpy (mem s) buf ?e ?n"
  have u: "unat ?n = length ?nm" using d(4) by (simp add: unat_of_nat32)
  have sub: "span buf (length ?nm) \<subseteq> span buf 34" using d(4) by (intro span_mono) simp
  have "span ?e (length ?nm) \<subseteq> span (bootblock s) 4096" using assms(4) d(2,4) by (intro entry_in_boot) simp_all
  then have fw: "forward_ok buf ?e (length ?nm)" using sub assms(6) d(4) by (intro span_forward) blast
  have cp: "load_bytes ?m buf (length ?nm) = ?nm"
    using cpy.move_bytes [of buf ?e ?n "mem s"] fw d(3) by (simp add: u cstring_def)
  have ag: "agree (- span buf 34) ?m (mem s)"
    unfolding agree_def using cpy.move_frame [of buf ?e ?n _ "mem s"] fw d(4) by (simp add: u span_def)
  let ?s' = "set_cur_fd fd ((cur_fd s fd)\<lparr>file_position := of_nat (Suc p)\<rparr>) (s\<lparr>mem := ?m\<rparr>)"
  have scr: "span buf 34 \<inter> screen_span = {}" using assms(6) by blast
  note mv = moved_prints [OF assms(1) f(1-3) ag scr, of "of_nat (Suc p)"]
  have pn: "(of_nat p :: u32) < num_dir_entries s" using assms(4) d(1,2) by (simp add: word_less_nat_alt unat_of_nat32)
  have rf: "read_file fd buf 32 s = Some (?n, ?s')"
    using pn strlen_cstring [OF d(3)] by (simp add: read_file_def read_dir_def f(4) Let_def add.commute)
  have sf: "sint (of_nat fd :: u32) = int fd" using f(2) by (intro sint_of_nat32) simp
  have "ops_ready s" using assms(1) by (simp add: user_ok_def files_ok_def)
  then have "ece391_read q (of_nat fd) buf 32 s = Returns ?n ?s'"
    using f assms(5) rf
    by (simp add: ece391_read_def syscall_handler_def sf sys_read_def fd_flags_def FD_MAX_IDX_def call_read_def ops_ready_def)
  moreover have "\<forall>g. g \<noteq> fd \<longrightarrow> cur_fd ?s' g = cur_fd s g"
    using cur_fd_set_other [of _ fd "(cur_fd s fd)\<lparr>file_position := of_nat (Suc p)\<rparr>" "s\<lparr>mem := ?m\<rparr>"] by (simp add: cur_fd_def)
  ultimately show thesis using mv cp f by (intro that) (simp_all add: dir_pos_def)
qed

lemma read_directory_end:
  assumes "user_ok s" and "directory s names" and "dir_pos s fd (length names)" and "buf \<noteq> 0"
  shows "ece391_read q (of_nat fd) buf 32 s = Returns 0 s"
proof -
  have f: "2 \<le> fd" "fd < 8" "cur_fd s fd = \<lparr>fd_ops = Ops_file, inode_ptr = 0, file_position = of_nat (length names), flags = 1\<rparr>"
    using assms(3) by (simp_all add: dir_pos_def)
  have "unat (of_nat (length names) :: u32) = length names" using assms(2) by (simp add: directory_def unat_of_nat32)
  then have "\<not> of_nat (length names) < num_dir_entries s" using assms(2) by (simp add: directory_def word_less_nat_alt)
  then have "read_file fd buf 32 s = Some (0, s)" by (simp add: read_file_def read_dir_def f(3))
  moreover have "sint (of_nat fd :: u32) = int fd" using f(2) by (intro sint_of_nat32) simp
  moreover have "ops_ready s" using assms(1) by (simp add: user_ok_def files_ok_def)
  ultimately show ?thesis using f assms(4)
    by (simp add: ece391_read_def syscall_handler_def sys_read_def fd_flags_def FD_MAX_IDX_def call_read_def ops_ready_def)
qed

section \<open>What the listing prints\<close>

lemma dir_pos_ground: "ground s' = ground s \<Longrightarrow> dir_pos s' fd p = dir_pos s fd p"
proof -
  assume "ground s' = ground s"
  from kern_eqD(1,2) [OF groundD(1) [OF this]] show ?thesis by (simp add: dir_pos_def cur_fd_def fd_ready_def)
qed

lemma load_bytes_snoc:
  assumes "load_bytes m a n = xs" and "n < 4294967296"
  shows "load_bytes (m(a + of_nat n := v)) a (Suc n) = xs @ [v]"
proof -
  have "load_bytes (m(a + of_nat n := v)) a n = load_bytes m a n"
    using assms(2) of_nat32_inj [of _ n] by (intro nth_equalityI) (auto simp: nth_load_bytes)
  moreover have "load_bytes m' a (Suc n) = load_bytes m' a n @ [m' (a + of_nat n)]" for m' by (simp add: load_bytes_def)
  ultimately show ?thesis using assms(1) by simp
qed

lemma ls_loop_lists:
  assumes "user_ok s" and "directory s names" and "dir_pos s fd p" and "p \<le> length names" and "buf \<noteq> 0"
    and "span buf 34 \<inter> (span (bootblock s) 4096 \<union> screen_span) = {}" and "span (bootblock s) 4096 \<inter> screen_span = {}"
  shows "\<exists>s'. ls_loop q lit (of_nat fd) buf s = Some (Returns 0 s')
    \<and> prints (span buf 34) s (concat (map (\<lambda>nm. nm @ [10]) (drop p names))) s'"
  using assms
proof (induction "length names - p" arbitrary: s p)
  case 0
  then have p: "p = length names" by simp
  have "ls_loop q lit (of_nat fd) buf s = Some (Returns 0 s)"
    using read_directory_end [OF 0(2,3) 0(4) [unfolded p] 0(6), of q] by (subst ls_loop.simps) simp
  then show ?case using prints_refl [OF 0(2)] p by auto
next
  case (Suc k)
  note prems = Suc.prems
  have p: "p < length names" using Suc.hyps(2) by simp
  let ?B = "span buf 34" and ?nm = "names ! p"
  obtain s1 where s1: "ece391_read q (of_nat fd) buf 32 s = Returns (of_nat (length ?nm)) s1" "prints ?B s [] s1"
      "load_bytes (mem s1) buf (length ?nm) = ?nm" "dir_pos s1 fd (Suc p)"
    by (rule read_directory [OF prems(1-3) p prems(5,6)])
  have n: "?nm \<noteq> []" "length ?nm \<le> 33" using prems(2) p by (simp_all add: directory_def)
  let ?s2 = "s1\<lparr>mem := (mem s1)(buf + of_nat (length ?nm) := 10)\<rparr>"
  have scr: "?B \<inter> screen_span = {}" using prems(6) by blast
  have s2: "prints ?B s1 [] ?s2"
    by (rule prints_mem [OF printsD(1) [OF s1(2)] agree_poke [OF span_add] scr]) (use n in auto)
  have ld: "load_bytes (mem ?s2) buf (Suc (length ?nm)) = ?nm @ [10]" using load_bytes_snoc [OF s1(3)] n(2) by simp
  have sm: "Suc (length ?nm) < 2147483648" "span buf (Suc (length ?nm)) \<inter> screen_span = {}"
    using n(2) scr span_mono [of "Suc (length ?nm)" 34 buf] by auto
  obtain s3 where s3: "ece391_write q 1 buf (of_nat (Suc (length ?nm))) ?s2 = Returns (of_nat (Suc (length ?nm))) s3"
      "ground s3 = ground ?s2" "prints {} ?s2 (?nm @ [10]) s3"
    using write_stdout [OF printsD(1) [OF s2] prems(5) sm, of q] unfolding ld by blast
  have "prints ?B s ([] @ [] @ ?nm @ [10]) s3" by (rule prints_join [OF prems(1) s1(2) s2 prints_mono [OF s3(3)]]) simp
  then have p3: "prints ?B s (?nm @ [10]) s3" by simp
  have bt: "span (bootblock s) 4096 \<inter> (screen_span \<union> ?B) = {}" using prems(6,7) by blast
  note d3 = directory_prints [OF prems(2) p3 bt]
  have at: "dir_pos s3 fd (Suc p)" using s1(4) dir_pos_ground [OF s3(2)] dir_pos_ground [of ?s2 s1] by simp
  have k: "k = length names - Suc p" using Suc.hyps(2) by simp
  obtain s' where s': "ls_loop q lit (of_nat fd) buf s3 = Some (Returns 0 s')"
      "prints ?B s3 (concat (map (\<lambda>nm. nm @ [10]) (drop (Suc p) names))) s'"
    using Suc.hyps(1) [OF k printsD(1) [OF p3] d3(1) at _ prems(5)] p prems(6,7) unfolding d3(2) by auto
  have "prints ?B s ((?nm @ [10]) @ concat (map (\<lambda>nm. nm @ [10]) (drop (Suc p) names))) s'"
    by (rule prints_trans [OF prems(1) p3 s'(2)])
  then have "prints ?B s (concat (map (\<lambda>nm. nm @ [10]) (drop p names))) s'" using Cons_nth_drop_Suc [OF p] by (metis concat.simps(2) list.simps(9))
  moreover have "(of_nat (length ?nm) :: u32) \<noteq> 0" "(of_nat (length ?nm) :: u32) \<noteq> minus_one"
      "(of_nat (Suc (length ?nm)) :: u32) \<noteq> minus_one"
    using small_result [of "length ?nm"] small_result [of "Suc (length ?nm)"] n by auto
  then have "ls_loop q lit (of_nat fd) buf s = Some (Returns 0 s')"
    using s1(1) s3(1) s'(1) by (subst ls_loop.simps) (simp add: add.commute)
  ultimately show ?case by blast
qed

lemma ls_lists:
  assumes "user_ok s" and "directory s names" and "buf \<noteq> 0"
    and "span buf 34 \<inter> (span (bootblock s) 4096 \<union> screen_span) = {}" and "span (bootblock s) 4096 \<inter> screen_span = {}"
    and "cstring (mem s) (lit ''.'') (bytes ''.'')" and "find_name s (bytes ''.'') = Some e" and "ftype e = FILE_TYPE_DIR"
    and "lowest_free s fd"
  shows "\<exists>s'. ls_main q lit buf s = Some (Returns 0 s') \<and> prints (span buf 34) s (concat (map (\<lambda>nm. nm @ [10]) names)) s'"
proof -
  obtain s1 where s1: "ece391_open q (lit ''.'') s = Returns (of_nat fd) s1" "prints {} s [] s1" "mem s1 = mem s" "fd_ready s1 fd"
      "cur_fd s1 fd = \<lparr>fd_ops = Ops_file, inode_ptr = 0, file_position = 0, flags = 1\<rparr>"
    using open_stage [OF assms(1,6,7,9), of 0 q] assms(8) by blast
  have fd: "2 \<le> fd" "fd < 8" using assms(9) by (simp_all add: lowest_free_def)
  then have at: "dir_pos s1 fd 0" using s1(4,5) by (simp add: dir_pos_def)
  note d = directory_prints [OF assms(2) s1(2)]
  have d1: "directory s1 names" "bootblock s1 = bootblock s" using d assms(5) by simp_all
  obtain s' where s': "ls_loop q lit (of_nat fd) buf s1 = Some (Returns 0 s')"
      "prints (span buf 34) s1 (concat (map (\<lambda>nm. nm @ [10]) (drop 0 names))) s'"
    using ls_loop_lists [OF printsD(1) [OF s1(2)] d1(1) at _ assms(3), of q lit] assms(4,5) unfolding d1(2) by auto
  have "prints (span buf 34) s ([] @ concat (map (\<lambda>nm. nm @ [10]) (drop 0 names))) s'"
    by (rule prints_trans [OF assms(1) prints_mono [OF s1(2)] s'(2)]) simp
  moreover have "(of_nat fd :: u32) \<noteq> minus_one" using small_result [of fd] fd by simp
  ultimately show ?thesis using s1(1) s'(1) by (intro exI [of _ s']) (simp add: ls_main_def)
qed

end
