(* ===== verification/Kud_Syserr.thy ===== *)
theory Kud_Syserr
  imports Kud_Programs
begin

unbundle bit_operations_syntax

text \<open>
  The error tests that come with the system (\<^verbatim>\<open>src/syscalls/ece391syserr.c\<close>): a program of
  eight tests that makes system calls with wrong arguments and checks that every one is
  refused. The local array of a function is at \<open>loc\<close> of the function's name.
\<close>

section \<open>The program\<close>

definition NEG_FD :: u32 where "NEG_FD = - 1073741823"
definition BIG_FD :: u32 where "BIG_FD = 1073741823"
definition BIG_NUM :: u32 where "BIG_NUM = 1073741823"
definition NEG_NUM :: u32 where "NEG_NUM = - 1073741823"

text \<open>The call by number leaves the other registers as they are; 0 here.\<close>

definition call_sys :: "nat \<Rightarrow> u32 \<Rightarrow> 'a sys_state_scheme \<Rightarrow> 'a sys_state_scheme outcome" where
  "call_sys q num s = syscall_handler q num 0 0 0 s"

definition ece391_vidmap :: "nat \<Rightarrow> u32 \<Rightarrow> 'a sys_state_scheme \<Rightarrow> 'a sys_state_scheme outcome" where
  "ece391_vidmap q screen_start s = syscall_handler q 8 screen_start 0 0 s"

text \<open>
  The step all tests are made of: a call that must fail. When it does not, a message is
  printed and the variable \<^verbatim>\<open>fail\<close>, the value returned, becomes 2.
\<close>

definition must_fail :: "nat \<Rightarrow> u32 \<Rightarrow> ('a sys_state_scheme \<Rightarrow> 'a sys_state_scheme outcome) \<Rightarrow> u32
    \<Rightarrow> 'a sys_state_scheme \<Rightarrow> 'a sys_state_scheme outcome" where
  "must_fail q msg call fail s =
     and_then (call s) (\<lambda>r s.
       if minus_one \<noteq> r then and_then (ece391_fdputs q 1 msg s) (\<lambda>_ s. Returns 2 s) else Returns fail s)"

definition verdict :: "nat \<Rightarrow> u32 \<Rightarrow> u32 \<Rightarrow> u32 \<Rightarrow> 'a sys_state_scheme \<Rightarrow> 'a sys_state_scheme outcome" where
  "verdict q fail_msg pass_msg fail s =
     and_then (ece391_fdputs q 1 (if fail \<noteq> 0 then fail_msg else pass_msg) s) (\<lambda>_ s. Returns fail s)"

definition err_neg_fd :: "nat \<Rightarrow> (string \<Rightarrow> u32) \<Rightarrow> (string \<Rightarrow> u32) \<Rightarrow> 'a sys_state_scheme \<Rightarrow> 'a sys_state_scheme outcome" where
  "err_neg_fd q lit loc s =
     (let buf = loc ''err_neg_fd'' in
      and_then (must_fail q (lit (''read fail'' @ [CHR 0x0A])) (ece391_read q NEG_FD buf 31) 0 s) (\<lambda>fail s.
      and_then (must_fail q (lit (''write fail'' @ [CHR 0x0A])) (ece391_write q NEG_FD buf 31) fail s) (\<lambda>fail s.
      and_then (must_fail q (lit (''close fail'' @ [CHR 0x0A])) (ece391_close q NEG_FD) fail s) (\<lambda>fail s.
      verdict q (lit (''err_neg_fd: FAIL'' @ [CHR 0x0A])) (lit (''err_neg_fd: PASS'' @ [CHR 0x0A])) fail s))))"

definition err_big_fd :: "nat \<Rightarrow> (string \<Rightarrow> u32) \<Rightarrow> (string \<Rightarrow> u32) \<Rightarrow> 'a sys_state_scheme \<Rightarrow> 'a sys_state_scheme outcome" where
  "err_big_fd q lit loc s =
     (let buf = loc ''err_big_fd'' in
      and_then (must_fail q (lit (''read fail'' @ [CHR 0x0A])) (ece391_read q BIG_FD buf 31) 0 s) (\<lambda>fail s.
      and_then (must_fail q (lit (''write fail'' @ [CHR 0x0A])) (ece391_write q BIG_FD buf 31) fail s) (\<lambda>fail s.
      and_then (must_fail q (lit (''close fail'' @ [CHR 0x0A])) (ece391_close q BIG_FD) fail s) (\<lambda>fail s.
      verdict q (lit (''err_big_fd: FAIL'' @ [CHR 0x0A])) (lit (''err_big_fd: PASS'' @ [CHR 0x0A])) fail s))))"

text \<open>The loops of the third test: seven opens, counting the refusals, then six closes.\<close>

fun open_lots :: "nat \<Rightarrow> (string \<Rightarrow> u32) \<Rightarrow> nat \<Rightarrow> u32 \<Rightarrow> 'a sys_state_scheme \<Rightarrow> 'a sys_state_scheme outcome" where
  "open_lots q lit 0 cnt s = Returns cnt s"
| "open_lots q lit (Suc n) cnt s =
     and_then (ece391_open q (lit ''.'') s) (\<lambda>r s. open_lots q lit n (if minus_one = r then cnt + 1 else cnt) s)"

fun close_lots :: "nat \<Rightarrow> nat list \<Rightarrow> 'a sys_state_scheme \<Rightarrow> 'a sys_state_scheme outcome" where
  "close_lots q [] s = Returns 0 s"
| "close_lots q (i # is) s = and_then (ece391_close q (of_nat i) s) (\<lambda>_ s. close_lots q is s)"

definition err_open_lots :: "nat \<Rightarrow> (string \<Rightarrow> u32) \<Rightarrow> 'a sys_state_scheme \<Rightarrow> 'a sys_state_scheme outcome" where
  "err_open_lots q lit s =
     and_then (open_lots q lit 7 0 s) (\<lambda>cnt s.
     and_then (close_lots q [2..<8] s) (\<lambda>_ s.
       if cnt = 1
       then and_then (ece391_fdputs q 1 (lit (''err_open_lots: PASS'' @ [CHR 0x0A])) s) (\<lambda>_ s. Returns 0 s)
       else and_then (ece391_fdputs q 1 (lit (''err_open_lots: FAIL'' @ [CHR 0x0A])) s) (\<lambda>_ s. Returns 2 s)))"

definition err_open :: "nat \<Rightarrow> (string \<Rightarrow> u32) \<Rightarrow> 'a sys_state_scheme \<Rightarrow> 'a sys_state_scheme outcome" where
  "err_open q lit s =
     and_then (must_fail q (lit ([CHR 0x27] @ ''helloo'' @ [CHR 0x27] @ '' fail'' @ [CHR 0x0A])) (ece391_open q (lit ''helloo'')) 0 s) (\<lambda>fail s.
     and_then (must_fail q (lit ([CHR 0x27] @ ''shel'' @ [CHR 0x27] @ '' fail'' @ [CHR 0x0A])) (ece391_open q (lit ''shel'')) fail s) (\<lambda>fail s.
     and_then (must_fail q (lit (''empty string fail'' @ [CHR 0x0A])) (ece391_open q (lit '''')) fail s) (\<lambda>fail s.
     verdict q (lit (''err_open: FAIL'' @ [CHR 0x0A])) (lit (''err_open: PASS'' @ [CHR 0x0A])) fail s)))"

text \<open>A call that must fail for each descriptor of a list.\<close>

fun must_fail_all :: "nat \<Rightarrow> u32 \<Rightarrow> (u32 \<Rightarrow> 'a sys_state_scheme \<Rightarrow> 'a sys_state_scheme outcome) \<Rightarrow> nat list \<Rightarrow> u32
    \<Rightarrow> 'a sys_state_scheme \<Rightarrow> 'a sys_state_scheme outcome" where
  "must_fail_all q msg call [] fail s = Returns fail s"
| "must_fail_all q msg call (i # is) fail s =
     and_then (must_fail q msg (call (of_nat i)) fail s) (\<lambda>fail s. must_fail_all q msg call is fail s)"

definition err_unopened :: "nat \<Rightarrow> (string \<Rightarrow> u32) \<Rightarrow> (string \<Rightarrow> u32) \<Rightarrow> 'a sys_state_scheme \<Rightarrow> 'a sys_state_scheme outcome" where
  "err_unopened q lit loc s =
     (let buf = loc ''err_unopened'' in
      and_then (must_fail_all q (lit (''close unopened or invalid fd fail'' @ [CHR 0x0A])) (ece391_close q) [0..<8] 0 s) (\<lambda>fail s.
      and_then (must_fail_all q (lit (''read from unopened fd fail'' @ [CHR 0x0A])) (\<lambda>i. ece391_read q i buf 31) [2..<8] fail s) (\<lambda>fail s.
      and_then (must_fail_all q (lit (''write to unopened fd fail'' @ [CHR 0x0A])) (\<lambda>i. ece391_write q i buf 31) [2..<8] fail s) (\<lambda>fail s.
      verdict q (lit (''err_unopened: FAIL'' @ [CHR 0x0A])) (lit (''err_unopened: PASS'' @ [CHR 0x0A])) fail s))))"

definition err_vidmap :: "nat \<Rightarrow> (string \<Rightarrow> u32) \<Rightarrow> 'a sys_state_scheme \<Rightarrow> 'a sys_state_scheme outcome" where
  "err_vidmap q lit s =
     and_then (must_fail q (lit (''Null pointer fail'' @ [CHR 0x0A])) (ece391_vidmap q 0) 0 s) (\<lambda>fail s.
     and_then (must_fail q (lit (''Kernel pointer fail fail'' @ [CHR 0x0A])) (ece391_vidmap q 0x400000) fail s) (\<lambda>fail s.
     verdict q (lit (''err_vidmap: FAIL'' @ [CHR 0x0A])) (lit (''err_vidmap: PASS'' @ [CHR 0x0A])) fail s))"

definition err_stdin_out :: "nat \<Rightarrow> (string \<Rightarrow> u32) \<Rightarrow> (string \<Rightarrow> u32) \<Rightarrow> 'a sys_state_scheme \<Rightarrow> 'a sys_state_scheme outcome" where
  "err_stdin_out q lit loc s =
     (let buf = loc ''err_stdin_out'' in
      and_then (must_fail q (lit (''write to stdin fail'' @ [CHR 0x0A])) (ece391_write q 0 buf 31) 0 s) (\<lambda>fail s.
      and_then (must_fail q (lit (''read from stdout fail'' @ [CHR 0x0A])) (ece391_read q 1 buf 31) fail s) (\<lambda>fail s.
      verdict q (lit (''err_stdin_out: FAIL'' @ [CHR 0x0A])) (lit (''err_stdin_out: PASS'' @ [CHR 0x0A])) fail s)))"

definition err_syscall_num :: "nat \<Rightarrow> (string \<Rightarrow> u32) \<Rightarrow> 'a sys_state_scheme \<Rightarrow> 'a sys_state_scheme outcome" where
  "err_syscall_num q lit s =
     and_then (must_fail q (lit (''syscall 0 fail'' @ [CHR 0x0A])) (call_sys q BIG_NUM) 0 s) (\<lambda>fail s.
     and_then (must_fail q (lit (''big num syscall fail'' @ [CHR 0x0A])) (call_sys q NEG_NUM) fail s) (\<lambda>fail s.
     and_then (must_fail q (lit (''neg num syscall fail'' @ [CHR 0x0A])) (call_sys q 0) fail s) (\<lambda>fail s.
     verdict q (lit (''err_syscall_num: FAIL'' @ [CHR 0x0A])) (lit (''err_syscall_num: PASS'' @ [CHR 0x0A])) fail s)))"

text \<open>All tests in their order, adding up what they return.\<close>

fun run_tests :: "('a sys_state_scheme \<Rightarrow> 'a sys_state_scheme outcome) list \<Rightarrow> u32 \<Rightarrow> 'a sys_state_scheme \<Rightarrow> 'a sys_state_scheme outcome" where
  "run_tests [] fail s = Returns fail s"
| "run_tests (t # ts) fail s = and_then (t s) (\<lambda>r s. run_tests ts (fail + r) s)"

definition syserr_tests :: "nat \<Rightarrow> (string \<Rightarrow> u32) \<Rightarrow> (string \<Rightarrow> u32)
    \<Rightarrow> ('a sys_state_scheme \<Rightarrow> 'a sys_state_scheme outcome) list" where
  "syserr_tests q lit loc = [err_neg_fd q lit loc, err_big_fd q lit loc, err_open_lots q lit, err_open q lit,
     err_unopened q lit loc, err_vidmap q lit, err_stdin_out q lit loc, err_syscall_num q lit]"

definition syserr_prompt :: "nat \<Rightarrow> (string \<Rightarrow> u32) \<Rightarrow> 'a sys_state_scheme \<Rightarrow> 'a sys_state_scheme outcome" where
  "syserr_prompt q lit s = ece391_fdputs q 1 (lit ''Choose from tests 1-8. 0 to run all: '') s"

definition syserr_answer :: "nat \<Rightarrow> (string \<Rightarrow> u32) \<Rightarrow> (string \<Rightarrow> u32) \<Rightarrow> 'a sys_state_scheme \<Rightarrow> 'a sys_state_scheme outcome" where
  "syserr_answer q lit loc s =
     (let buf = loc ''main'' in
      and_then (ece391_read q 0 buf 127 s) (\<lambda>cnt s.
        if minus_one = cnt
        then and_then (ece391_fdputs q 1 (lit (''Can'' @ [CHR 0x27] @ ''t read test #'' @ [CHR 0x0A])) s) (\<lambda>_ s. Returns 2 s)
        else let select = uint (mem s buf) - 48 in
             if select = 0
             then and_then (run_tests (syserr_tests q lit loc) 0 s)
                    (verdict q (lit ([CHR 0x0A] @ ''Overall Tests: FAIL'' @ [CHR 0x0A]))
                       (lit ([CHR 0x0A] @ ''Overall Tests: PASS'' @ [CHR 0x0A])))
             else if 1 \<le> select \<and> select \<le> 8 then (syserr_tests q lit loc ! (nat select - 1)) s
             else and_then (ece391_fdputs q 1 (lit ''Invalid test number. Choose from tests 1-8 or 0'') s)
                    (\<lambda>_ s. Returns 0 s)))"

definition syserr_main :: "nat \<Rightarrow> (string \<Rightarrow> u32) \<Rightarrow> (string \<Rightarrow> u32) \<Rightarrow> 'a sys_state_scheme \<Rightarrow> 'a sys_state_scheme outcome" where
  "syserr_main q lit loc s = and_then (syserr_prompt q lit s) (\<lambda>_ s. syserr_answer q lit loc s)"

section \<open>What the tests rely on\<close>

text \<open>
  Descriptors 2 to 7 closed. The tests with a descriptor out of range need that the kernel's
  look at the flags of that slot does not fault: \<^verbatim>\<open>file_array\<close> has 16-byte entries, so the
  offset of the entry wraps to 16 for \<^verbatim>\<open>NEG_FD\<close> and to -16 for \<^verbatim>\<open>BIG_FD\<close>, both inside the
  kernel's page.
\<close>

definition fresh :: "'a pcb_state_scheme \<Rightarrow> bool" where
  "fresh s \<longleftrightarrow> (\<forall>g. 2 \<le> g \<and> g < 8 \<longrightarrow> flags (cur_fd s g) = 0)"

definition pass_lines :: "string list" where
  "pass_lines = map (\<lambda>name. name @ '': PASS'' @ [CHR 0x0A]) [''err_neg_fd'', ''err_big_fd'', ''err_open_lots'', ''err_open'',
     ''err_unopened'', ''err_vidmap'', ''err_stdin_out'', ''err_syscall_num'']"

definition suite_lits :: "string list" where
  "suite_lits = [''.'', ''helloo'', ''shel'', '''', [CHR 0x0A] @ ''Overall Tests: PASS'' @ [CHR 0x0A]] @ pass_lines"

definition suite_ok :: "(string \<Rightarrow> u32) \<Rightarrow> u32 set \<Rightarrow> 'a sys_state_scheme \<Rightarrow> bool" where
  "suite_ok lit B s \<longleftrightarrow> user_ok s \<and> fresh s \<and> (\<forall>str \<in> set suite_lits. literal lit B s str)
     \<and> span (bootblock s) 4096 \<inter> (screen_span \<union> B) = {} \<and> unat (num_dir_entries s) \<le> 63
     \<and> (\<exists>e. find_name s (bytes ''.'') = Some e \<and> ftype e = FILE_TYPE_DIR)
     \<and> (\<forall>nm \<in> {''helloo'', ''shel'', ''''}. find_name s (bytes nm) = None)
     \<and> oob_flags s (- 1073741823) \<noteq> None \<and> oob_flags s 1073741823 \<noteq> None"

lemma suite_ok_prints:
  assumes "suite_ok lit B s" and "prints B s cs s'" and "fresh s'"
  shows "suite_ok lit B s'"
proof -
  note f = places_eqD(6,7) [OF printsD(3) [OF assms(2)]]
  have b: "span (bootblock s) 4096 \<inter> (screen_span \<union> B) = {}" "unat (num_dir_entries s) \<le> 63" "bootblock s' = bootblock s"
    using assms(1) f(1) by (simp_all add: suite_ok_def same_fs_def)
  have a: "agree (span (bootblock s) 4096) (mem s') (mem s)" by (rule printsD(5) [OF assms(2) b(1)])
  have "find_name s' nm = find_name s nm" for nm by (rule find_name_agree [OF f(1) a b(2)])
  moreover have "\<forall>str \<in> set suite_lits. literal lit B s' str"
    using assms(1) literal_prints [OF _ assms(2)] by (simp add: suite_ok_def)
  ultimately show ?thesis
    using assms(1,3) printsD(1) [OF assms(2)] num_dir_entries_agree [OF f(1) a] f(2) b(3) by (simp add: suite_ok_def)
qed

text \<open>The contract of a test: it returns 0 and prints that it passed.\<close>

definition passes :: "(string \<Rightarrow> u32) \<Rightarrow> u32 set \<Rightarrow> ('a sys_state_scheme \<Rightarrow> 'a sys_state_scheme outcome)
    \<Rightarrow> string \<Rightarrow> bool" where
  "passes lit B t str \<longleftrightarrow> (\<forall>s. suite_ok lit B s \<longrightarrow> (\<exists>s'. t s = Returns 0 s' \<and> prints B s (bytes str) s' \<and> fresh s'))"

lemma fresh_ground: "ground s' = ground s \<Longrightarrow> fresh s' = fresh s"
proof -
  assume "ground s' = ground s"
  from kern_eqD(1,2) [OF groundD(1) [OF this]] show ?thesis by (simp add: fresh_def cur_fd_def)
qed

lemma puts_pass:
  assumes "suite_ok lit B s" and "str \<in> set suite_lits"
  obtains s' where "ece391_fdputs q 1 (lit str) s = Returns 0 s'" "prints B s (bytes str) s'" "fresh s'"
proof -
  have u: "user_ok s" "fresh s" "literal lit B s str" using assms by (simp_all add: suite_ok_def)
  obtain s' where s': "ece391_fdputs q 1 (lit str) s = Returns 0 s'" "ground s' = ground s" "prints {} s (bytes str) s'"
    by (rule fdputs_literal [OF u(1,3)])
  show thesis by (rule that [OF s'(1) prints_mono [OF s'(3)]]) (use u(2) fresh_ground [OF s'(2)] in simp_all)
qed

lemma passes_verdict:
  fixes t :: "'a sys_state_scheme \<Rightarrow> 'a sys_state_scheme outcome"
  assumes "\<And>s. suite_ok lit B s \<Longrightarrow> t s = verdict q msg (lit str) 0 s" and "str \<in> set suite_lits"
  shows "passes lit B t str"
  unfolding passes_def
proof (intro allI impI)
  fix s :: "'a sys_state_scheme" assume s: "suite_ok lit B s"
  obtain s' where "ece391_fdputs q 1 (lit str) s = Returns 0 s'" "prints B s (bytes str) s'" "fresh s'"
    by (rule puts_pass [OF s assms(2)])
  then show "\<exists>s'. t s = Returns 0 s' \<and> prints B s (bytes str) s' \<and> fresh s'" using assms(1) [OF s] by (simp add: verdict_def)
qed

lemma must_fail_refused: "call s = Returns minus_one s \<Longrightarrow> must_fail q msg call fail s = Returns fail s"
  by (simp add: must_fail_def)

lemma must_fail_all_refused:
  "(\<And>i. i \<in> set is \<Longrightarrow> call (of_nat i) s = Returns minus_one s) \<Longrightarrow> must_fail_all q msg call is fail s = Returns fail s"
  by (induction "is") (simp_all add: must_fail_refused)

section \<open>Calls that are refused\<close>

lemma suite_okD:
  assumes "suite_ok lit B s"
  shows "user_ok s" "fresh s" "str \<in> set suite_lits \<Longrightarrow> literal lit B s str" "oob_flags s (- 1073741823) \<noteq> None"
    "oob_flags s 1073741823 \<noteq> None"
    "nm \<in> {''helloo'', ''shel'', ''''} \<Longrightarrow> find_name s (bytes nm) = None"
  using assms by (auto simp: suite_ok_def)

lemma sint_fds: "sint NEG_FD = - 1073741823" "sint BIG_FD = 1073741823"
  by (simp_all add: NEG_FD_def BIG_FD_def)

lemma refused_out_of_range:
  assumes "oob_flags s (sint fd) \<noteq> None" and "sint fd < 0 \<or> 7 < sint fd"
  shows "ece391_read q fd buf n s = Returns minus_one s" "ece391_write q fd buf n s = Returns minus_one s"
    "ece391_close q fd s = Returns minus_one s"
  using assms by (auto simp: ece391_read_def ece391_write_def ece391_close_def syscall_handler_def sys_read_def sys_write_def
      sys_close_def fd_flags_def FD_MIN_IDX_def FD_MAX_IDX_def)

lemma refused_closed:
  assumes "fresh s" and "2 \<le> i" and "i < 8"
  shows "ece391_read q (of_nat i) buf n s = Returns minus_one s" "ece391_write q (of_nat i) buf n s = Returns minus_one s"
    "ece391_close q (of_nat i) s = Returns minus_one s"
proof -
  have "sint (of_nat i :: u32) = int i" using assms(3) by (intro sint_of_nat32) simp
  then show "ece391_read q (of_nat i) buf n s = Returns minus_one s" "ece391_write q (of_nat i) buf n s = Returns minus_one s"
    "ece391_close q (of_nat i) s = Returns minus_one s"
    using assms by (simp_all add: fresh_def ece391_read_def ece391_write_def ece391_close_def syscall_handler_def sys_read_def
      sys_write_def sys_close_def fd_flags_def)
qed

lemma refused_std:
  "ece391_close q 0 s = Returns minus_one s" "ece391_close q 1 s = Returns minus_one s"
  "ece391_write q 0 buf n s = Returns minus_one s" "ece391_read q 1 buf n s = Returns minus_one s"
  by (simp_all add: ece391_read_def ece391_write_def ece391_close_def syscall_handler_def sys_read_def sys_write_def sys_close_def
      fd_flags_def FD_MIN_IDX_def FD_MAX_IDX_def)

lemma refused_vidmap: "ece391_vidmap q 0 s = Returns minus_one s" "ece391_vidmap q 0x400000 s = Returns minus_one s"
  by (simp_all add: ece391_vidmap_def syscall_handler_def vidmap_def PAGE_VIRT_ADDR_def)

lemma refused_number:
  "call_sys q BIG_NUM s = Returns minus_one s" "call_sys q NEG_NUM s = Returns minus_one s" "call_sys q 0 s = Returns minus_one s"
  by (simp_all add: call_sys_def syscall_handler_def BIG_NUM_def NEG_NUM_def)

lemma refused_name:
  assumes "suite_ok lit B s" and "nm \<in> {''helloo'', ''shel'', ''''}"
  shows "ece391_open q (lit nm) s = Returns minus_one s"
proof -
  have "nm \<in> set suite_lits" using assms(2) by (auto simp: suite_lits_def)
  then have "cstring (mem s) (lit nm) (bytes nm)" using suite_okD(3) [OF assms(1)] by (auto simp: literal_def)
  then show ?thesis by (rule open_missing) (rule suite_okD(6) [OF assms])
qed

section \<open>The tests\<close>

lemma in_suite_lits:
  "name \<in> {''err_neg_fd'', ''err_big_fd'', ''err_open_lots'', ''err_open'', ''err_unopened'', ''err_vidmap'', ''err_stdin_out'',
     ''err_syscall_num''} \<Longrightarrow> name @ '': PASS'' @ [CHR 0x0A] \<in> set suite_lits"
  unfolding suite_lits_def pass_lines_def by auto

lemma neg_fd_passes: "passes lit B (err_neg_fd q lit loc) (''err_neg_fd'' @ '': PASS'' @ [CHR 0x0A])"
proof (rule passes_verdict)
  fix s :: "'a sys_state_scheme" assume "suite_ok lit B s"
  then have "oob_flags s (sint NEG_FD) \<noteq> None" unfolding sint_fds by (rule suite_okD(4))
  note r = refused_out_of_range [OF this]
  show "err_neg_fd q lit loc s = verdict q (lit (''err_neg_fd: FAIL'' @ [CHR 0x0A])) (lit (''err_neg_fd'' @ '': PASS'' @ [CHR 0x0A])) 0 s"
    by (simp add: err_neg_fd_def Let_def must_fail_refused r sint_fds)
qed (rule in_suite_lits, simp)

lemma big_fd_passes: "passes lit B (err_big_fd q lit loc) (''err_big_fd'' @ '': PASS'' @ [CHR 0x0A])"
proof (rule passes_verdict)
  fix s :: "'a sys_state_scheme" assume "suite_ok lit B s"
  then have "oob_flags s (sint BIG_FD) \<noteq> None" unfolding sint_fds by (rule suite_okD(5))
  note r = refused_out_of_range [OF this]
  show "err_big_fd q lit loc s = verdict q (lit (''err_big_fd: FAIL'' @ [CHR 0x0A])) (lit (''err_big_fd'' @ '': PASS'' @ [CHR 0x0A])) 0 s"
    by (simp add: err_big_fd_def Let_def must_fail_refused r sint_fds)
qed (rule in_suite_lits, simp)

lemma open_passes: "passes lit B (err_open q lit) (''err_open'' @ '': PASS'' @ [CHR 0x0A])"
proof (rule passes_verdict)
  fix s :: "'a sys_state_scheme" assume s: "suite_ok lit B s"
  show "err_open q lit s = verdict q (lit (''err_open: FAIL'' @ [CHR 0x0A])) (lit (''err_open'' @ '': PASS'' @ [CHR 0x0A])) 0 s"
    by (simp add: err_open_def must_fail_refused refused_name [OF s])
qed (rule in_suite_lits, simp)

lemma unopened_passes: "passes lit B (err_unopened q lit loc) (''err_unopened'' @ '': PASS'' @ [CHR 0x0A])"
proof (rule passes_verdict)
  fix s :: "'a sys_state_scheme" assume "suite_ok lit B s"
  then have f: "fresh s" by (rule suite_okD(2))
  have c: "ece391_close q (of_nat i) s = Returns minus_one s" if "i \<in> set [0..<8]" for i
  proof -
    have "i < 8" using that by simp
    then consider "i = 0" | "i = 1" | "2 \<le> i" "i < 8" by linarith
    then show ?thesis using refused_closed(3) [OF f] by cases (simp_all add: refused_std)
  qed
  have r: "ece391_read q (of_nat i) buf 31 s = Returns minus_one s" "ece391_write q (of_nat i) buf 31 s = Returns minus_one s"
    if "i \<in> set [2..<8]" for i buf
    using refused_closed(1,2) [OF f, of i] that by auto
  have loops: "must_fail_all q msg (ece391_close q) [0..<8] 0 s = Returns 0 s"
      "must_fail_all q msg (\<lambda>i. ece391_read q i buf 31) [2..<8] 0 s = Returns 0 s"
      "must_fail_all q msg (\<lambda>i. ece391_write q i buf 31) [2..<8] 0 s = Returns 0 s" for msg buf
    by (rule must_fail_all_refused; use c r in blast)+
  show "err_unopened q lit loc s = verdict q (lit (''err_unopened: FAIL'' @ [CHR 0x0A])) (lit (''err_unopened'' @ '': PASS'' @ [CHR 0x0A])) 0 s"
    by (simp add: err_unopened_def Let_def loops del: upt_rec_numeral upt_Suc)
qed (rule in_suite_lits, simp)

lemma vidmap_passes: "passes lit B (err_vidmap q lit) (''err_vidmap'' @ '': PASS'' @ [CHR 0x0A])"
  by (rule passes_verdict [where q = q, OF _ in_suite_lits])
     (simp_all add: err_vidmap_def must_fail_refused refused_vidmap)

lemma stdin_out_passes: "passes lit B (err_stdin_out q lit loc) (''err_stdin_out'' @ '': PASS'' @ [CHR 0x0A])"
  by (rule passes_verdict [where q = q, OF _ in_suite_lits])
     (simp_all add: err_stdin_out_def Let_def must_fail_refused refused_std)

lemma syscall_num_passes: "passes lit B (err_syscall_num q lit) (''err_syscall_num'' @ '': PASS'' @ [CHR 0x0A])"
  by (rule passes_verdict [where q = q, OF _ in_suite_lits])
     (simp_all add: err_syscall_num_def must_fail_refused refused_number)

text \<open>The third test: after the sixth open the table is full, and closing empties it.\<close>

definition opened_upto :: "'a pcb_state_scheme \<Rightarrow> nat \<Rightarrow> bool" where
  "opened_upto s k \<longleftrightarrow> 2 \<le> k \<and> k \<le> 8 \<and> (\<forall>g. 2 \<le> g \<and> g < 8 \<longrightarrow> (flags (cur_fd s g) \<noteq> 0 \<longleftrightarrow> g < k))"

lemma opened_upto_ops:
  assumes "files_ok s" and "opened_upto s k" and "2 \<le> g" and "g < 8"
  shows "fd_ops (cur_fd s g) = Ops_null \<longleftrightarrow> k \<le> g"
  using slot_ok_cur [OF assms(1,4)] assms(2-4) by (auto simp: slot_ok_def opened_upto_def)

lemma find_name_same:
  assumes "same_fs s' s" and "mem s' = mem s"
  shows "find_name s' name = find_name s name"
proof -
  have "dir_entry s' = dir_entry s" using assms(1) by (intro ext) (simp add: dir_entry_def same_fs_def)
  moreover have "num_dir_entries s' = num_dir_entries s" using assms by (simp add: num_dir_entries_def same_fs_def)
  ultimately show ?thesis using assms(2) by (simp add: find_name_def Let_def)
qed

lemma open_full:
  assumes "user_ok s" and "cstring (mem s) nm name" and "find_name s name = Some e" and "opened_upto s 8"
  shows "ece391_open q nm s = Returns minus_one (s\<lparr>dentry := e\<rparr>)" "prints {} s [] (s\<lparr>dentry := e\<rparr>)"
proof -
  have u: "files_ok s" "term_ok s" "flags (cur_fd s 1) \<noteq> 0" using assms(1) by (simp_all add: user_ok_def)
  obtain c where c: "current_pcb s = Some c" "length (file_array (pcbs s ! c)) = 8" by (rule files_okD [OF u(1)])
  have "find_free_fd c s = - 1"
  proof (cases rule: find_free_fd_cases [OF c(2)])
    case 1
    then show ?thesis by simp
  next
    case (2 g)
    then show ?thesis using opened_upto_ops [OF u(1) assms(4), of g] c(1) by (auto simp: cur_fd_def)
  qed
  then have "find_free_fd c (s\<lparr>dentry := e\<rparr>) = - 1" by (simp add: find_free_fd_def)
  moreover have "read_dentry_by_name s nm (dentry s) = (0, e)" using assms(3) by (simp add: lookup_name [OF assms(2)])
  ultimately show "ece391_open q nm s = Returns minus_one (s\<lparr>dentry := e\<rparr>)"
    using c(1) by (simp add: ece391_open_def syscall_handler_def sys_open_def open_file_def Let_def)
  show "prints {} s [] (s\<lparr>dentry := e\<rparr>)"
    using u by (simp add: prints_def user_ok_def agree_def)
       (simp add: places_def display_def cells_def procs_def cur_fd_def files_ok_def ops_ready_def term_ok_def term_base_def)
qed

lemma open_lots_counts:
  assumes "user_ok s" and "cstring (mem s) (lit ''.'') (bytes ''.'')" and "find_name s (bytes ''.'') = Some e"
    and "ftype e = FILE_TYPE_DIR" and "opened_upto s k"
  shows "\<exists>s'. open_lots q lit n cnt s = Returns (cnt + of_nat (n - (8 - k))) s' \<and> prints {} s [] s' \<and> mem s' = mem s
    \<and> opened_upto s' (min 8 (k + n))"
  using assms
proof (induction n arbitrary: s k cnt)
  case 0
  then show ?case using prints_refl [OF 0(1)] by (auto simp: opened_upto_def min_def)
next
  case (Suc n)
  have k: "2 \<le> k" "k \<le> 8" and u: "files_ok s" using Suc.prems(1,5) by (simp_all add: opened_upto_def user_ok_def)
  have step: "\<exists>s'. open_lots q lit (Suc n) cnt s = Returns (cnt + of_nat (Suc n - (8 - k))) s' \<and> prints {} s [] s' \<and> mem s' = mem s
      \<and> opened_upto s' (min 8 (k + Suc n))"
    if s1: "ece391_open q (lit ''.'') s = Returns r s1" "prints {} s [] s1" "mem s1 = mem s" "opened_upto s1 k1"
      and r: "(if minus_one = r then cnt + 1 else cnt) + of_nat (n - (8 - k1)) = cnt + of_nat (Suc n - (8 - k))"
        "min 8 (k1 + n) = min 8 (k + Suc n)" for r s1 k1
  proof -
    have "find_name s1 (bytes ''.'') = Some e"
      using find_name_same [OF places_eqD(6) [OF printsD(3) [OF s1(2)]] s1(3)] Suc.prems(3) by simp
    then obtain s' where "open_lots q lit n (if minus_one = r then cnt + 1 else cnt) s1
          = Returns ((if minus_one = r then cnt + 1 else cnt) + of_nat (n - (8 - k1))) s'"
        "prints {} s1 [] s'" "mem s' = mem s1" "opened_upto s' (min 8 (k1 + n))"
      using Suc.IH [OF printsD(1) [OF s1(2)] _ _ Suc.prems(4) s1(4)] Suc.prems(2) unfolding s1(3) by blast
    then show ?thesis using s1(1,3) r prints_trans [OF Suc.prems(1) s1(2), of "[]" s'] by (intro exI [of _ s']) simp
  qed
  show ?case
  proof (cases "k = 8")
    case True
    note f = open_full [OF Suc.prems(1-3) Suc.prems(5) [unfolded True]]
    have o: "opened_upto (s\<lparr>dentry := e\<rparr>) 8" using Suc.prems(5) True by (simp add: opened_upto_def cur_fd_def)
    show ?thesis by (rule step [OF f(1,2) _ o]) (use True in simp_all)
  next
    case False
    then have k8: "k < 8" using k(2) by simp
    have lf: "lowest_free s k" using opened_upto_ops [OF u Suc.prems(5)] k k8 by (simp add: lowest_free_def)
    obtain s1 where s1: "ece391_open q (lit ''.'') s = Returns (of_nat k) s1" "prints {} s [] s1" "mem s1 = mem s"
        "cur_fd s1 k = \<lparr>fd_ops = Ops_file, inode_ptr = 0, file_position = 0, flags = 1\<rparr>" "\<forall>g. g \<noteq> k \<longrightarrow> cur_fd s1 g = cur_fd s g"
      using open_stage [OF Suc.prems(1-3) lf, of 0 q] Suc.prems(4) by blast
    have o: "opened_upto s1 (Suc k)" using Suc.prems(5) s1(4,5) k k8 unfolding opened_upto_def
      by (auto simp: less_Suc_eq)
    show ?thesis by (rule step [OF s1(1-3) o]) (use k8 k small_result [of k] in auto)
  qed
qed

lemma close_stage:
  assumes "user_ok s" and "2 \<le> fd" and "fd < 8"
  obtains r s' where "ece391_close q (of_nat fd) s = Returns r s'" "prints {} s [] s'" "mem s' = mem s"
    "flags (cur_fd s' fd) = 0" "\<forall>g. g \<noteq> fd \<longrightarrow> cur_fd s' g = cur_fd s g" "flags (cur_fd s fd) \<noteq> 0 \<longrightarrow> r = 0"
proof -
  have u: "files_ok s" "term_ok s" "flags (cur_fd s 1) \<noteq> 0" using assms(1) by (simp_all add: user_ok_def)
  have sf: "sint (of_nat fd :: u32) = int fd" using assms(3) by (intro sint_of_nat32) simp
  show thesis
  proof (rule sys_close_result [OF u(1) assms(3)])
    fix r s'
    assume s': "sys_close (int fd) s = Returns r s'" "files_ok s'" "procs s' = procs s" "2 \<le> fd \<Longrightarrow> flags (cur_fd s' fd) = 0"
      "\<forall>g. g \<noteq> fd \<longrightarrow> cur_fd s' g = cur_fd s g" "s' = s\<lparr>pcbs := pcbs s'\<rparr>"
      "r = (if 2 \<le> fd \<and> flags (cur_fd s fd) \<noteq> 0 then 0 else minus_one)"
    have c: "ece391_close q (of_nat fd) s = Returns r s'" using s'(1) sf by (simp add: ece391_close_def syscall_handler_def)
    define t where "t = s\<lparr>pcbs := pcbs s'\<rparr>"
    have "mem t = mem s" "places t = places s" "display t = display s" "term_ok t"
      using u(2) by (simp_all add: t_def places_def display_def cells_def term_ok_def term_base_def)
    moreover have "t = s'" using s'(6) by (simp add: t_def)
    ultimately have m: "mem s' = mem s" "prints {} s [] s'"
      using s'(2,3,5) u(3) assms(2) by (simp_all add: prints_def user_ok_def agree_def)
    show thesis using s'(7) assms(2) by (intro that [OF c m(2,1) s'(4,5)]) simp_all
  qed
qed

lemma close_lots_frees:
  assumes "user_ok s" and "\<forall>fd \<in> set fds. 2 \<le> fd \<and> fd < 8" and "distinct fds"
  shows "\<exists>s'. close_lots q fds s = Returns 0 s' \<and> prints {} s [] s' \<and> (\<forall>fd \<in> set fds. flags (cur_fd s' fd) = 0)
    \<and> (\<forall>g. g \<notin> set fds \<longrightarrow> cur_fd s' g = cur_fd s g)"
  using assms
proof (induction fds arbitrary: s)
  case Nil
  then show ?case using prints_refl [OF Nil(1)] by auto
next
  case (Cons fd fds)
  have fd: "2 \<le> fd" "fd < 8" using Cons.prems(2) by simp_all
  obtain r s1 where s1: "ece391_close q (of_nat fd) s = Returns r s1" "prints {} s [] s1"
      "flags (cur_fd s1 fd) = 0" "\<forall>g. g \<noteq> fd \<longrightarrow> cur_fd s1 g = cur_fd s g"
    by (rule close_stage [OF Cons.prems(1) fd])
  obtain s' where s': "close_lots q fds s1 = Returns 0 s'" "prints {} s1 [] s'" "\<forall>fd \<in> set fds. flags (cur_fd s' fd) = 0"
      "\<forall>g. g \<notin> set fds \<longrightarrow> cur_fd s' g = cur_fd s1 g"
    using Cons.IH [OF printsD(1) [OF s1(2)]] Cons.prems(2,3) by auto
  have "prints {} s [] s'" using prints_trans [OF Cons.prems(1) s1(2) s'(2)] by simp
  then show ?case using s1 s' Cons.prems(3) by (intro exI [of _ s']) auto
qed

lemma open_lots_passes: "passes lit B (err_open_lots q lit) (''err_open_lots'' @ '': PASS'' @ [CHR 0x0A])"
  unfolding passes_def
proof (intro allI impI)
  fix s :: "'a sys_state_scheme" assume s: "suite_ok lit B s"
  let ?msg = "''err_open_lots'' @ '': PASS'' @ [CHR 0x0A]"
  have m: "?msg \<in> set suite_lits" by (rule in_suite_lits) simp
  have u: "user_ok s" by (rule suite_okD(1) [OF s])
  obtain e where e: "find_name s (bytes ''.'') = Some e" "ftype e = FILE_TYPE_DIR" using s by (auto simp: suite_ok_def)
  have "literal lit B s ''.''" using s by (simp add: suite_ok_def suite_lits_def)
  then have c: "cstring (mem s) (lit ''.'') (bytes ''.'')" by (simp add: literal_def)
  have "opened_upto s 2" using suite_okD(2) [OF s] by (auto simp: opened_upto_def fresh_def)
  then obtain s1 where s1: "open_lots q lit 7 0 s = Returns 1 s1" "prints {} s [] s1"
    using open_lots_counts [where lit = lit and s = s and e = e and k = 2 and q = q and n = 7 and cnt = 0] u c e by auto
  obtain s2 where s2: "close_lots q [2..<8] s1 = Returns 0 s2" "prints {} s1 [] s2" "\<forall>fd \<in> set [2..<8]. flags (cur_fd s2 fd) = 0"
    using close_lots_frees [OF printsD(1) [OF s1(2)], of "[2..<8]" q] by auto
  have f2: "fresh s2" using s2(3) by (simp add: fresh_def del: upt_rec_numeral)
  have p2: "prints B s [] s2" using prints_mono [OF prints_trans [OF u s1(2) s2(2)], of B] by simp
  obtain s3 where s3: "ece391_fdputs q 1 (lit ?msg) s2 = Returns 0 s3" "prints B s2 (bytes ?msg) s3" "fresh s3"
    by (rule puts_pass [OF suite_ok_prints [OF s p2 f2] m])
  have "prints B s (bytes ?msg) s3" using prints_trans [OF u p2 s3(2)] by simp
  moreover have "err_open_lots q lit s = Returns 0 s3" using s1(1) s2(1) s3(1) by (simp add: err_open_lots_def)
  ultimately show "\<exists>s'. err_open_lots q lit s = Returns 0 s' \<and> prints B s (bytes ?msg) s' \<and> fresh s'" using s3(3) by blast
qed

section \<open>The whole suite\<close>

lemma run_tests_pass:
  assumes "list_all2 (passes lit B) ts strs" and "suite_ok lit B s"
  shows "\<exists>s'. run_tests ts fail s = Returns fail s' \<and> prints B s (concat (map bytes strs)) s' \<and> fresh s'"
  using assms
proof (induction ts strs arbitrary: s rule: list_all2_induct)
  case Nil
  then show ?case using prints_refl [OF suite_okD(1) [OF Nil]] suite_okD(2) [OF Nil] by auto
next
  case (Cons t ts str strs)
  obtain s1 where s1: "t s = Returns 0 s1" "prints B s (bytes str) s1" "fresh s1" using Cons by (auto simp: passes_def)
  obtain s' where "run_tests ts fail s1 = Returns fail s'" "prints B s1 (concat (map bytes strs)) s'" "fresh s'"
    using Cons.IH [OF suite_ok_prints [OF Cons.prems s1(2,3)]] by blast
  then show ?case using s1(1) prints_trans [OF suite_okD(1) [OF Cons.prems] s1(2)] by (intro exI [of _ s']) simp
qed

lemma syserr_tests_pass: "list_all2 (passes lit B) (syserr_tests q lit loc) pass_lines"
  using neg_fd_passes [of lit B q loc] big_fd_passes [of lit B q loc] open_lots_passes [of lit B q] open_passes [of lit B q]
    unopened_passes [of lit B q loc] vidmap_passes [of lit B q] stdin_out_passes [of lit B q loc] syscall_num_passes [of lit B q]
  by (simp add: syserr_tests_def pass_lines_def)

lemma syserr_passes:
  assumes "suite_ok lit B s" and "flags (cur_fd s 0) \<noteq> 0" and "enter_flag s \<noteq> 0" and "input_line (tbuf s) = [48]"
    and "loc ''main'' \<noteq> 0" and "span (loc ''main'') 129 \<subseteq> B" and "B \<inter> screen_span = {}"
  shows "\<exists>s'. syserr_answer q lit loc s = Returns 0 s'
    \<and> prints B s ([10] @ concat (map bytes pass_lines) @ bytes ([CHR 0x0A] @ ''Overall Tests: PASS'' @ [CHR 0x0A])) s'"
proof -
  let ?m = "[CHR 0x0A] @ ''Overall Tests: PASS'' @ [CHR 0x0A]" and ?buf = "loc ''main''"
  note u = suite_okD(1) [OF assms(1)]
  have scr: "span ?buf 129 \<inter> screen_span = {}" using assms(6,7) by blast
  obtain s1 where s1: "ece391_read q 0 ?buf (of_nat 127) s = Returns (of_nat (length [48 :: u8] + 1)) s1" "ground s1 = ground s"
      "load_bytes (mem s1) ?buf (length [48 :: u8] + 1) = [48] @ [10]" "prints (span ?buf 129) s [10] s1"
    by (rule read_stdin [OF u assms(2,3) assms(4) [symmetric] assms(5) _ _ scr, of 127 q]) simp_all
  have p1: "prints B s [10] s1" by (rule prints_mono [OF s1(4) assms(6)])
  have k1: "suite_ok lit B s1" using suite_ok_prints [OF assms(1) p1] fresh_ground [OF s1(2)] suite_okD(2) [OF assms(1)] by simp
  obtain s2 where s2: "run_tests (syserr_tests q lit loc) 0 s1 = Returns 0 s2" "prints B s1 (concat (map bytes pass_lines)) s2" "fresh s2"
    using run_tests_pass [OF syserr_tests_pass k1] by blast
  have "?m \<in> set suite_lits" by (simp add: suite_lits_def)
  then obtain s3 where s3: "ece391_fdputs q 1 (lit ?m) s2 = Returns 0 s3" "prints B s2 (bytes ?m) s3"
    by (rule puts_pass [OF suite_ok_prints [OF k1 s2(2,3)]])
  have "mem s1 ?buf = 48" using s1(3) by (simp add: load_bytes_def upt_rec)
  then have "syserr_answer q lit loc s = Returns 0 s3"
    using s1(1) s2(1) s3(1) by (simp add: syserr_answer_def Let_def verdict_def)
  then show ?thesis using prints_join [OF u p1 s2(2) s3(2)] by blast
qed

end
