(* ===== verification/Kud_Userland.thy ===== *)
theory Kud_Userland
  imports Kud_Shell Kud_Dir Kud_Syserr
begin

unbundle bit_operations_syntax

text \<open>
  What the user programs do on the kernel, and a concrete machine on which they do it: the
  shell's process on the first terminal, an image with the directory itself and one program,
  and the string literals one after the other in the program's page.
\<close>

section \<open>Literals in memory\<close>

definition blob :: "string list \<Rightarrow> u8 list" where
  "blob strs = concat (map (\<lambda>str. bytes str @ [0]) strs)"

definition placed :: "u32 \<Rightarrow> string list \<Rightarrow> string \<Rightarrow> u32" where
  "placed a strs str = a + of_nat (length (blob (takeWhile (\<lambda>t. t \<noteq> str) strs)))"

lemma blob_append: "blob (xs @ ys) = blob xs @ blob ys" "blob (str # ys) = (bytes str @ [0]) @ blob ys"
  by (simp_all add: blob_def)

lemma placed_split:
  assumes "str \<in> set strs"
  obtains pre post where "blob strs = pre @ (bytes str @ [0]) @ post" "placed a strs str = a + of_nat (length pre)"
proof -
  let ?pre = "takeWhile (\<lambda>t. t \<noteq> str) strs" and ?rest = "dropWhile (\<lambda>t. t \<noteq> str) strs"
  have r: "?rest \<noteq> []" using assms by (simp add: dropWhile_eq_Nil_conv)
  have "str # tl ?rest = ?rest" using hd_dropWhile [OF r] list.collapse [OF r] by simp
  then have "strs = ?pre @ str # tl ?rest" using takeWhile_dropWhile_id [of "\<lambda>t. t \<noteq> str" strs] by simp
  then have "blob strs = blob (?pre @ str # tl ?rest)" by (rule arg_cong)
  then have "blob strs = blob ?pre @ (bytes str @ [0]) @ blob (tl ?rest)" unfolding blob_append .
  then show thesis by (rule that) (simp add: placed_def)
qed

lemma append_middle: "a @ b @ c = a' @ b' @ c' \<Longrightarrow> length a = length a' \<Longrightarrow> length b = length b' \<Longrightarrow> b = b'"
  by simp

lemma placed_literal:
  assumes "load_bytes (mem s) a (length (blob strs)) = blob strs" and "str \<in> set strs" and "0 \<notin> set (bytes str)"
    and "unat a + length (blob strs) < 4294967296" and "length (blob strs) < 2147483648" and "a \<noteq> 0"
    and "span a (length (blob strs)) \<inter> (screen_span \<union> B) = {}"
  shows "literal (placed a strs) B s str"
proof -
  obtain pre post where p: "blob strs = pre @ (bytes str @ [0]) @ post" "placed a strs str = a + of_nat (length pre)"
    by (rule placed_split [OF assms(2)])
  let ?k = "length pre" and ?n = "length str"
  have len: "length (blob strs) = ?k + (Suc ?n + length post)" using p(1) by simp
  have "load_bytes (mem s) a ?k @ load_bytes (mem s) (a + of_nat ?k) (Suc ?n) @ load_bytes (mem s) (a + of_nat ?k + of_nat (Suc ?n)) (length post)
      = pre @ (bytes str @ [0]) @ post"
    using assms(1) unfolding len load_bytes_append unfolding p(1) .
  then have "load_bytes (mem s) (a + of_nat ?k) (Suc ?n) = bytes str @ [0]" by (rule append_middle) simp_all
  then have c: "load_bytes (mem s) (a + of_nat ?k) ?n = bytes str" "mem s (a + of_nat ?k + of_nat ?n) = 0"
    by (simp_all add: load_bytes_def)
  have "unat (a + of_nat ?k) = unat a + ?k" using assms(4) len by (simp add: unat_add32 unat_of_nat32)
  moreover have "0 < unat a" using assms(6) by (simp add: unat_gt_0)
  ultimately have nz: "a + of_nat ?k \<noteq> 0" by (metis add_gr_0 less_irrefl unat_0)
  have "span (a + of_nat ?k) (Suc ?n) \<subseteq> span a (length (blob strs))" using len assms(5) by (intro span_sub) simp_all
  then show ?thesis using c nz len assms(3,5,7) unfolding literal_def p(2) by (auto simp: cstring_def)
qed

section \<open>A machine\<close>

definition machine_literals :: "string list" where
  "machine_literals = suite_lits @ [''exit'', ''Hello, '', ''Wrong Choice!'' @ [CHR 0x0A], ''no such command'' @ [CHR 0x0A],
     ''file not found'' @ [CHR 0x0A], [CHR 0x0A], '':'', ''rtc'', ''Installing signal handlers'' @ [CHR 0x0A], ''failure'' @ [CHR 0x0A]]"

definition machine_lit :: "string \<Rightarrow> u32" where
  "machine_lit = placed 0x8200000 machine_literals"

text \<open>A line has been typed and entered; the arguments of the process are \<open>args\<close>.\<close>

definition machine :: "u8 list \<Rightarrow> u8 list \<Rightarrow> sys_state" where
  "machine line args = proc_state1\<lparr>
     mem := store_bytes (store_bytes image1 0x4502B9 (args @ [0])) 0x8200000 (blob machine_literals),
     pcbs := (pcbs fs_state0)[1 := (pcbs fs_state0 ! 1)\<lparr>file_array := [null_fd\<lparr>fd_ops := Ops_stdin, flags := 1\<rparr>,
       null_fd\<lparr>fd_ops := Ops_stdout, flags := 1\<rparr>, null_fd, null_fd, null_fd, null_fd, null_fd, null_fd]\<rparr>],
     terminal_buffer := [take 128 (line @ 10 # replicate 128 0), replicate 128 0, replicate 128 0],
     buffer_len := [min 128 (length line + 1), 0, 0], enter_flag := 1, oob_flags := (\<lambda>_. Some 0)\<rparr>"

lemma blob_length: "length (blob machine_literals) \<le> 512"
  by code_simp

lemma machine_plain: "str \<in> set machine_literals \<Longrightarrow> 0 \<notin> set (bytes str)"
proof -
  have "list_all (\<lambda>str. 0 \<notin> set (bytes str)) machine_literals" by code_simp
  then show "str \<in> set machine_literals \<Longrightarrow> 0 \<notin> set (bytes str)" by (simp add: list_all_iff)
qed

lemma machine_fields:
  "bootblock (machine line args) = 0x500000" "inodes_array (machine line args) = 0x501000" "data_array (machine line args) = 0x503000"
  "current_pcb (machine line args) = Some 1" "curr_terminal (machine line args) = 0" "enter_flag (machine line args) = 1"
  "cmd_args (machine line args) 1 = 0x4502B9" "oob_flags (machine line args) = (\<lambda>_. Some 0)" "ops_ready (machine line args)"
  "elf_header_at (machine line args) = 0x7E0000" "image_buf_at (machine line args) = 0x7D0000"
  "cmd_name (machine line args) 2 = 0x4503D9" "cmd_args (machine line args) 2 = 0x450459"
  by (simp_all add: machine_def proc_state1_def sys_state1_def cmd_args_def cmd_name_def pcb_at_def SIZEOF_PCB_def ops_ready_def)
     (use sys_state0_simps(3) in \<open>simp add: ops_ready_def\<close>)

lemma machine_pcbs:
  "length (pcbs (machine line args)) = 7" "i \<noteq> 1 \<Longrightarrow> pcbs (machine line args) ! i = pcbs fs_state0 ! i"
  "pcbs (machine line args) ! 1 = (pcbs fs_state0 ! 1)\<lparr>file_array := [null_fd\<lparr>fd_ops := Ops_stdin, flags := 1\<rparr>,
     null_fd\<lparr>fd_ops := Ops_stdout, flags := 1\<rparr>, null_fd, null_fd, null_fd, null_fd, null_fd, null_fd]\<rparr>"
  using fs_state0_pcbs(3) by (simp_all add: machine_def)

lemma machine_fd:
  "cur_fd (machine line args) 0 = null_fd\<lparr>fd_ops := Ops_stdin, flags := 1\<rparr>"
  "cur_fd (machine line args) 1 = null_fd\<lparr>fd_ops := Ops_stdout, flags := 1\<rparr>"
  "2 \<le> g \<Longrightarrow> g < 8 \<Longrightarrow> cur_fd (machine line args) g = null_fd"
proof -
  note c = cur_fd_def [of "machine line args", unfolded machine_fields(4) option.sel machine_pcbs(3)]
  show "cur_fd (machine line args) 0 = null_fd\<lparr>fd_ops := Ops_stdin, flags := 1\<rparr>"
    "cur_fd (machine line args) 1 = null_fd\<lparr>fd_ops := Ops_stdout, flags := 1\<rparr>"
    by (simp_all add: c)
  assume "2 \<le> g" "g < 8"
  then have "g \<in> {2, 3, 4, 5, 6, 7}" by auto
  then show "cur_fd (machine line args) g = null_fd" by (auto simp: c)
qed

lemma machine_procs: "procs (machine line args) = procs proc_state1"
proof -
  have "map (\<lambda>p. (program_id p, parent_id p)) (pcbs (machine line args)) = map (\<lambda>p. (program_id p, parent_id p)) (pcbs proc_state1)"
  proof (rule nth_equalityI)
    show "length (map (\<lambda>p. (program_id p, parent_id p)) (pcbs (machine line args)))
        = length (map (\<lambda>p. (program_id p, parent_id p)) (pcbs proc_state1))"
      using fs_state0_pcbs(3) by (simp add: machine_pcbs proc_state1_def sys_state1_def)
    fix i assume "i < length (map (\<lambda>p. (program_id p, parent_id p)) (pcbs (machine line args)))"
    then show "map (\<lambda>p. (program_id p, parent_id p)) (pcbs (machine line args)) ! i
        = map (\<lambda>p. (program_id p, parent_id p)) (pcbs proc_state1) ! i"
      using machine_pcbs(1,3) [of line args] machine_pcbs(2) [of i line args] fs_state0_pcbs(3) by (cases "i = 1") (simp_all add: proc_state1_def sys_state1_def)
  qed
  then show ?thesis by (simp add: procs_def machine_fields) (simp add: machine_def proc_state1_def sys_state1_def)
qed

lemma machine_runs: "runs (machine line args) [[1], [], []]"
  using runs_cong [OF machine_procs] proc_state1_runs by simp

lemma machine_fds: "fds_ok (machine line args)"
proof -
  have "table_ok (file_array (pcbs (machine line args) ! i))" if "i < 7" for i
  proof (cases "i = 1")
    case True
    have "slot_ok fd (file_array (pcbs (machine line args) ! 1) ! fd)" if "fd < 8" for fd
    proof -
      have "fd \<in> {0, 1, 2, 3, 4, 5, 6, 7}" using that by auto
      then show ?thesis unfolding machine_pcbs(3) by (auto simp: slot_ok_def null_fd_def)
    qed
    then show ?thesis unfolding True table_ok_def using machine_pcbs(3) [of line args] by simp
  next
    case False
    then show ?thesis
      using machine_pcbs(2) [OF False, of line args] proc_states_fds(1) that by (simp add: fds_ok_def proc_state1_def sys_state1_def)
  qed
  then show ?thesis by (simp add: fds_ok_def machine_fields machine_pcbs)
qed

lemma machine_free: "find_free_pcb (machine line args) = of_nat 2"
  by (simp add: find_free_pcb_def machine_def) (simp add: fs_state0_def pcb0_def)

lemma machine_user_ok: "user_ok (machine line args)"
proof -
  have "files_ok (machine line args)" by (rule files_ok_runs [OF machine_runs machine_fds]) (simp add: machine_fields)
  moreover have "term_ok (machine line args)"
    by (simp add: term_ok_def term_base_def machine_fields)
       (simp add: machine_def proc_state1_def sys_state1_def sys_state0_def page_state.defs sys_state.defs page_state0_def fs_state.defs,
        simp add: fs_state0_def)
  ultimately show ?thesis using machine_fd(2) [of line args] by (simp add: user_ok_def)
qed

lemma machine_input:
  assumes "0 \<notin> set line" and "10 \<notin> set line" and "length line < 128"
  shows "input_line (tbuf (machine line args)) = line"
proof -
  have "tbuf (machine line args) = line @ 10 # replicate (127 - length line) 0"
    unfolding machine_fields(5) using assms(3) by (simp add: machine_def take_Cons')
  moreover have "\<forall>c \<in> set line. c \<noteq> 0 \<and> c \<noteq> 10" using assms(1,2) by blast
  ultimately show ?thesis unfolding input_line_def by (simp add: takeWhile_append2)
qed

text \<open>Memory: the image, the arguments and the literals.\<close>

lemma machine_mem: "mem (machine line args) = store_bytes (store_bytes image1 0x4502B9 (args @ [0])) 0x8200000 (blob machine_literals)"
  by (simp add: machine_def)

lemma machine_agree:
  assumes "A \<inter> (span 0x4502B9 128 \<union> span 0x8200000 512) = {}" and "length args < 128"
  shows "agree A (mem (machine line args)) image1"
proof -
  have s: "span 0x4502B9 (length (args @ [0])) \<subseteq> span 0x4502B9 128" "span 0x8200000 (length (blob machine_literals)) \<subseteq> span 0x8200000 512"
    using assms(2) blob_length by (simp_all add: span_mono)
  have "agree A (store_bytes image1 0x4502B9 (args @ [0])) image1"
    by (rule agree_store) (use s(1) assms in auto)
  moreover have "agree A (mem (machine line args)) (store_bytes image1 0x4502B9 (args @ [0]))"
    unfolding machine_mem by (rule agree_store) (use s(2) assms(1) blob_length in auto)
  ultimately show ?thesis using agree_trans by blast
qed

lemma machine_literal:
  assumes "str \<in> set machine_literals" and "span 0x8200000 512 \<inter> B = {}"
  shows "literal machine_lit B (machine line args) str"
  unfolding machine_lit_def
proof (rule placed_literal [OF _ assms(1) machine_plain [OF assms(1)]])
  show "load_bytes (mem (machine line args)) 0x8200000 (length (blob machine_literals)) = blob machine_literals"
    unfolding machine_mem using blob_length by (intro load_store_bytes) simp
  have "span 0x8200000 (length (blob machine_literals)) \<subseteq> span 0x8200000 512" using blob_length by (rule span_mono)
  moreover have "screen_span \<inter> span 0x8200000 512 = {}" by (rule span_below) (simp_all add: VIDEO_MEM_def)
  ultimately show "span 0x8200000 (length (blob machine_literals)) \<inter> (screen_span \<union> B) = {}" using assms(2) by blast
qed (use blob_length in simp_all)

lemma machine_args:
  assumes "0 \<notin> set args" and "length args < 128"
  shows "cstring (mem (machine line args)) 0x4502B9 args"
proof -
  let ?m = "store_bytes image1 0x4502B9 (args @ [0])"
  have "load_bytes ?m 0x4502B9 (Suc (length args)) = args @ [0]" using load_store_bytes [of "args @ [0]" image1 "0x4502B9"] assms(2) by simp
  then have c: "cstring ?m 0x4502B9 args" using assms by (simp add: cstring_def load_bytes_def)
  have "span 0x4502B9 (Suc (length args)) \<subseteq> span 0x4502B9 128" using assms(2) by (intro span_mono) simp
  moreover have "span 0x4502B9 128 \<inter> span 0x8200000 512 = ({} :: u32 set)" by (rule span_below) simp_all
  moreover have "span 0x8200000 (length (blob machine_literals)) \<subseteq> span 0x8200000 512" using blob_length by (rule span_mono)
  ultimately have "agree (span 0x4502B9 (Suc (length args))) (mem (machine line args)) ?m"
    unfolding machine_mem using blob_length by (intro agree_store) auto
  then show ?thesis by (rule cstring_agree [OF c])
qed

text \<open>The file system of the image: the directory itself and the program f of 60 bytes.\<close>

lemma machine_disk:
  "same_fs (machine line args) proc_state1"
  "length args < 128 \<Longrightarrow> agree (span 0x500000 4096 \<union> span 0x502000 4096 \<union> span 0x503000 4096) (mem (machine line args)) (mem proc_state1)"
proof -
  show "same_fs (machine line args) proc_state1" by (simp add: same_fs_def machine_fields) (simp add: proc_state1_def sys_state1_def)
  have m: "mem proc_state1 = image1" by (simp add: proc_state1_def sys_state1_def)
  have "span a 4096 \<inter> span 0x8200000 512 = {}" "span 0x4502B9 128 \<inter> span a 4096 = {}" if "a \<in> {0x500000, 0x502000, 0x503000}" for a :: u32
    using that by (auto intro!: span_below)
  then have "(span 0x500000 4096 \<union> span 0x502000 4096 \<union> span 0x503000 4096) \<inter> (span 0x4502B9 128 \<union> span 0x8200000 512) = ({} :: u32 set)"
    by blast
  then show "length args < 128 \<Longrightarrow> agree (span 0x500000 4096 \<union> span 0x502000 4096 \<union> span 0x503000 4096) (mem (machine line args)) (mem proc_state1)"
    unfolding m by (rule machine_agree)
qed

lemma machine_program:
  assumes "length args < 128"
  shows "runnable (machine line args) [102] 1 60" "elf_entry (machine line args) 1 = 0x8048000"
    "disk (machine line args) 1 60 = disk proc_state1 1 60" "layout_ok (machine line args) 2 1 60"
    "map (file_byte (machine line args) 1) [0..<60] = map (file_byte proc_state1 1) [0..<60]"
proof -
  have "agree (disk proc_state1 1 60) (mem (machine line args)) (mem proc_state1)"
    by (rule agree_sub [OF machine_disk(2) [OF assms] proc_state1_file(3)])
  note f = runnable_agree [OF proc_state1_file(1) machine_disk(1) this]
  show "runnable (machine line args) [102] 1 60" "disk (machine line args) 1 60 = disk proc_state1 1 60"
    "elf_entry (machine line args) 1 = 0x8048000" "map (file_byte (machine line args) 1) [0..<60] = map (file_byte proc_state1 1) [0..<60]"
    using f proc_state1_file(2) by simp_all
  show "layout_ok (machine line args) 2 1 60"
    using proc_state1_layout f(3) by (simp add: layout_ok_def exec_writes_def machine_fields proc_state1_places)
qed

lemma machine_names:
  "cstring image1 0x500040 [46]" "cstring image1 0x500080 [102]" "strn image1 0x500040 32 = [46]" "strn image1 0x500080 32 = [102]" "load32 image1 0x500000 = 2"
  "ftype (load_dentry image1 0x500040) = FILE_TYPE_DIR" "ftype (load_dentry image1 0x500080) = FILE_TYPE_REG"
  "inode (load_dentry image1 0x500080) = 1"
proof -
  show c: "cstring image1 0x500040 [46]" "cstring image1 0x500080 [102]"
    by (simp_all add: cstring_Cons cstring_Nil) (simp_all add: image1_def image0_def)
  show "strn image1 0x500040 32 = [46]" "strn image1 0x500080 32 = [102]" using strn_cstring [OF c(1)] strn_cstring [OF c(2)] by simp_all
  show "load32 image1 0x500000 = 2" "ftype (load_dentry image1 0x500040) = FILE_TYPE_DIR"
    "ftype (load_dentry image1 0x500080) = FILE_TYPE_REG" "inode (load_dentry image1 0x500080) = 1"
    by (simp_all add: load_dentry_def load32_def FILE_TYPE_DIR_def FILE_TYPE_REG_def image1_def image0_def)
qed

lemma machine_find:
  assumes "length args < 128"
  shows "find_name (machine line args) name = (if take 32 name = [102] then Some (load_dentry image1 0x500080)
      else if take 32 name = [46] then Some (load_dentry image1 0x500040) else None)"
    "unat (num_dir_entries (machine line args)) = 2"
proof -
  have p: "bootblock proc_state1 = 0x500000" "mem proc_state1 = image1" by (simp_all add: proc_state1_def sys_state1_def)
  have a: "agree (span (bootblock proc_state1) 4096) (mem (machine line args)) (mem proc_state1)"
    unfolding p(1) by (rule agree_sub [OF machine_disk(2) [OF assms]]) blast
  have n: "num_dir_entries proc_state1 = 2" by (simp add: num_dir_entries_def p machine_names)
  have "[0..<2] = [0, 1 :: nat]" by (simp add: upt_rec)
  then have "find_name proc_state1 name = (if take 32 name = [102] then Some (load_dentry image1 0x500080)
      else if take 32 name = [46] then Some (load_dentry image1 0x500040) else None)"
    by (auto simp: find_name_def n dir_entry_def p machine_names Let_def)
  then show "find_name (machine line args) name = (if take 32 name = [102] then Some (load_dentry image1 0x500080)
      else if take 32 name = [46] then Some (load_dentry image1 0x500040) else None)"
    using find_name_agree [OF machine_disk(1) a] n by simp
  show "unat (num_dir_entries (machine line args)) = 2" using num_dir_entries_agree [OF machine_disk(1) a] n by simp
qed

lemma machine_directory:
  assumes "length args < 128"
  shows "directory (machine line args) [[46], [102]]"
proof -
  have p: "mem proc_state1 = image1" by (simp add: proc_state1_def sys_state1_def)
  have a: "agree (span 0x500000 4096) (mem (machine line args)) image1"
    using agree_sub [OF machine_disk(2) [OF assms], of "span 0x500000 4096"] unfolding p by blast
  note c = machine_names(1,2)
  have "span (0x500000 + of_nat 64) 2 \<subseteq> span 0x500000 4096" "span (0x500000 + of_nat 128) 2 \<subseteq> (span 0x500000 4096 :: u32 set)"
    by (rule span_sub; simp)+
  then have "cstring (mem (machine line args)) 0x500040 [46]" "cstring (mem (machine line args)) 0x500080 [102]"
    using cstring_agree [OF c(1)] cstring_agree [OF c(2)] agree_sub [OF a] by (simp_all add: numeral_2_eq_2)
  then show ?thesis using machine_find(2) [OF assms]
    by (auto simp: directory_def dir_entry_def machine_fields less_Suc_eq nth_Cons')
qed

lemma machine_file:
  assumes "length args < 128"
  shows "file_ok (machine line args) 1 60"
proof -
  have l: "60 = unat (inode_length (machine line args) 1 (mem (machine line args)))"
    using machine_program(1) [OF assms] by (simp add: runnable_def)
  have "contiguous (machine line args) 1 60" by (rule contiguous_one) simp
  then show ?thesis using l by (simp add: file_ok_def machine_fields inode_at_def)
qed

text \<open>A local array at 0x8100000.\<close>

lemma machine_buffer:
  assumes "n \<le> 4096"
  shows "span 0x8100000 n \<inter> screen_span = {}" "span 0x8200000 512 \<inter> span 0x8100000 n = {}"
    "b \<in> {0x500000, 0x502000, 0x503000} \<Longrightarrow> span b 4096 \<inter> (screen_span \<union> span 0x8100000 n) = {}"
    "b \<in> {0x7F6000, 0x7E0000, 0x7D0000, 0x4503D9} \<Longrightarrow> k \<le> 618 \<Longrightarrow> span b k \<inter> (screen_span \<union> span 0x8100000 n) = {}"
proof -
  show 1: "span 0x8100000 n \<inter> screen_span = {}"
    using span_below [of VIDEO_MEM 4000 "0x8100000" n] assms by (simp add: VIDEO_MEM_def Int_commute)
  show "span 0x8200000 512 \<inter> span 0x8100000 n = {}" using span_below [of "0x8100000" n "0x8200000" 512] assms by (simp add: Int_commute)
  have low: "span b k \<inter> (screen_span \<union> span 0x8100000 n) = {}" if "0xB9000 \<le> unat b" "unat b + k \<le> 0x8100000" for b :: u32 and k
    using span_below [of VIDEO_MEM 4000 b k] span_below [of b k "0x8100000" n] that assms
    by (simp add: VIDEO_MEM_def Int_Un_distrib Int_commute)
  show "b \<in> {0x500000, 0x502000, 0x503000} \<Longrightarrow> span b 4096 \<inter> (screen_span \<union> span 0x8100000 n) = {}"
    by (rule low) auto
  show "b \<in> {0x7F6000, 0x7E0000, 0x7D0000, 0x4503D9} \<Longrightarrow> k \<le> 618 \<Longrightarrow> span b k \<inter> (screen_span \<union> span 0x8100000 n) = {}"
    by (rule low) auto
qed

lemma machine_apart:
  assumes "length args < 128" and "n \<le> 4096"
  shows "apart_from (span 0x8100000 n) (machine line args) 1 60"
    "span (bootblock (machine line args)) 4096 \<inter> (screen_span \<union> span 0x8100000 n) = {}"
proof -
  note b = machine_buffer(1,3) [OF assms(2)]
  have "disk (machine line args) 1 60 \<subseteq> span 0x500000 4096 \<union> span 0x502000 4096 \<union> span 0x503000 4096"
    unfolding machine_program(3) [OF assms(1)] by (rule proc_state1_file(3))
  then show "apart_from (span 0x8100000 n) (machine line args) 1 60"
    unfolding apart_from_def using b(1) b(2) [of "0x500000"] b(2) [of "0x502000"] b(2) [of "0x503000"] by blast
  show "span (bootblock (machine line args)) 4096 \<inter> (screen_span \<union> span 0x8100000 n) = {}"
    unfolding machine_fields by (rule b(2)) simp
qed

section \<open>The error tests\<close>

text \<open>
  C7: the kernel passes the error tests that come with it. When the program syserr is told to
  run all its tests, each of the eight prints that it passed, in their order, and so does the
  summary, and the program returns 0: descriptors out of range, closed descriptors, a full
  descriptor table, names that are not in the directory, null and kernel pointers, the wrong
  direction on the standard streams and unknown call numbers are all refused with -1.
\<close>

theorem syserr_suite_passes:
  assumes "suite_ok lit B s" and "flags (cur_fd s 0) \<noteq> 0" and "enter_flag s \<noteq> 0" and "input_line (tbuf s) = [48]"
    and "loc ''main'' \<noteq> 0" and "span (loc ''main'') 129 \<subseteq> B" and "B \<inter> screen_span = {}"
  shows "\<exists>s'. syserr_answer q lit loc s = Returns 0 s'
    \<and> prints B s ([10] @ concat (map bytes pass_lines) @ bytes ([CHR 0x0A] @ ''Overall Tests: PASS'' @ [CHR 0x0A])) s'"
  by (rule syserr_passes [where loc = loc, OF assms])

lemma machine_suite: "length args < 128 \<Longrightarrow> n \<le> 4096 \<Longrightarrow> suite_ok machine_lit (span 0x8100000 n) (machine line args)"
proof -
  assume a: "length args < 128" and n: "n \<le> 4096"
  have "literal machine_lit (span 0x8100000 n) (machine line args) str" if "str \<in> set suite_lits" for str
    using that machine_literal [of str "span 0x8100000 n" line args] machine_buffer(2) [OF n] by (simp add: machine_literals_def)
  moreover have "fresh (machine line args)" by (simp add: fresh_def machine_fd null_fd_def)
  moreover have "find_name (machine line args) (bytes ''.'') = Some (load_dentry image1 0x500040)"
    "\<forall>nm \<in> {''helloo'', ''shel'', ''''}. find_name (machine line args) (bytes nm) = None"
    by (simp_all add: machine_find [OF a] bytes_def)
  ultimately show ?thesis
    using machine_user_ok machine_apart(2) [OF a n] machine_find(2) [OF a] machine_names(6) by (simp add: suite_ok_def machine_fields)
qed

theorem syserr_suite_passes_witness:
  "\<exists>s'. syserr_answer 0 machine_lit (\<lambda>_. 0x8100000) (machine [48] []) = Returns 0 s'
    \<and> display s' = display (show_text ([10] @ concat (map bytes pass_lines) @ bytes ([CHR 0x0A] @ ''Overall Tests: PASS'' @ [CHR 0x0A]))
        (machine [48] []))"
proof -
  have "input_line (tbuf (machine [48] [])) = [48]" by (rule machine_input) simp_all
  moreover have "span 0x8100000 129 \<inter> screen_span = {}" by (rule machine_buffer) simp
  ultimately show ?thesis
    using syserr_suite_passes [OF machine_suite [of "[]" 129 "[48]"], of "\<lambda>_. 0x8100000" 0]
    by (auto simp: machine_fd machine_fields dest!: printsD(4))
qed

section \<open>The shell\<close>

text \<open>
  The shell runs what is typed. On a line that names a program in the directory, a round
  of the shell's loop ends in the entry point of that program: a new process is on top of the
  terminal's stack, the program page holds the whole file, and the rest of the line, without
  the spaces before it, is where the program's getargs finds it. The newline that ended the
  line is not part of the command.
\<close>

theorem shell_runs_typed_program:
  assumes "user_ok s" "flags (cur_fd s 0) \<noteq> 0" "enter_flag s \<noteq> 0" "input_line (tbuf s) = name @ replicate k 32 @ args"
    and "buf \<noteq> 0" "span buf 130 \<inter> screen_span = {}" "literal lit (span buf 130) s ''exit''"
    and "runs s st" "fds_ok s" "length (concat st) < 6" and "find_free_pcb s = of_nat i" "1 \<le> i" "i < 7"
    and "name \<noteq> []" "32 \<notin> set name" "args = [] \<or> 0 < k \<and> hd args \<noteq> 32" "name @ replicate k 32 @ args \<noteq> bytes ''exit''"
    and "length name < 128" "length args < 128"
    and "span buf 130 \<inter> exec_writes s i l = {}" "apart_from (span buf 130) s ino l"
    and "runnable s name ino l" "layout_ok s i ino l"
  shows "\<exists>s'. shell_command q lit buf s = Next (Enters (elf_entry s ino) s') \<and> runs s' (push (curr_terminal s) i st) \<and> fds_ok s'
    \<and> load_bytes (mem s') IMAGE_START l = map (file_byte s ino) [0..<l] \<and> cstring (mem s') (cmd_args s i) args"
  by (rule shell_enters [OF assms])

lemma machine_exec_writes:
  "exec_writes (machine line args) 2 60 = span 0x7F6000 618 \<union> span 0x4503D9 256 \<union> span 0x7E0000 52 \<union> span 0x7D0000 60"
  by (simp add: exec_writes_def machine_fields proc_state1_places)

theorem shell_runs_typed_program_witness:
  "\<exists>s'. shell_command 0 machine_lit 0x8100000 (machine [102, 32, 97] []) = Next (Enters 0x8048000 s') \<and> runs s' [[2, 1], [], []]
     \<and> cstring (mem s') 0x450459 [97]"
proof -
  let ?s = "machine [102, 32, 97] []"
  have line: "input_line (tbuf ?s) = [102] @ replicate 1 32 @ [97]" using machine_input [of "[102, 32, 97]" "[]"] by simp
  have ex: "literal machine_lit (span 0x8100000 130) ?s ''exit''"
    by (rule machine_literal [OF _ machine_buffer(2)]) (simp_all add: machine_literals_def)
  note b = machine_buffer(4) [of 130]
  have w: "span 0x8100000 130 \<inter> exec_writes ?s 2 60 = {}" unfolding machine_exec_writes
    using b [of "0x7F6000" 618] b [of "0x4503D9" 256] b [of "0x7E0000" 52] b [of "0x7D0000" 60] by auto
  have ne: "[102] @ replicate 1 32 @ [97] \<noteq> bytes ''exit''" by (simp add: bytes_def)
  have fl: "flags (cur_fd ?s 0) \<noteq> 0" "enter_flag ?s \<noteq> 0" "(0x8100000 :: u32) \<noteq> 0" by (simp_all add: machine_fd machine_fields)
  have p: "length ([] :: u8 list) < 128" "(130 :: nat) \<le> 4096" by simp_all
  note run = shell_runs_typed_program [where q = 0, OF machine_user_ok fl(1,2) line fl(3) machine_buffer(1) [OF p(2)] ex machine_runs machine_fds _
      machine_free _ _ _ _ _ ne _ _ w machine_apart(1) [OF p] machine_program(1,4) [OF p(1)]]
  show ?thesis using run by (auto simp: machine_program(2) machine_fields push_def)
qed



section \<open>Files and directories\<close>


lemma machine_lowest: "lowest_free (machine line args) 2"
  by (simp add: lowest_free_def machine_fd null_fd_def)

lemma machine_cat_args: "span (cmd_args (machine line args) (cur (machine line args))) 1024 \<inter> span 0x8100000 1024 = {}"
  by (simp add: machine_fields [simplified]) (rule span_below, simp_all)


text \<open>
  A name that is not in the directory makes cat print "file not found" and return 2;
  nothing is opened.
\<close>

theorem cat_reports_missing:
  assumes "user_ok s" and "cstring (mem s) (cmd_args s (cur s)) name" and "length name \<le> 1024" and "buf \<noteq> 0"
    and "span (cmd_args s (cur s)) 1024 \<inter> span buf 1024 = {}" and "span buf 1025 \<inter> screen_span = {}"
    and "find_name s name = None" and "unat (num_dir_entries s) \<le> 63" and "span (bootblock s) 4096 \<inter> (screen_span \<union> span buf 1025) = {}"
    and "literal lit (span buf 1025) s (''file not found'' @ [CHR 0x0A])"
  shows "\<exists>s'. cat_main q lit buf s = Some (Returns 2 s') \<and> prints (span buf 1025) s (bytes (''file not found'' @ [CHR 0x0A])) s'"
  by (rule cat_misses [OF assms])

theorem cat_reports_missing_witness:
  "\<exists>s'. cat_main 0 machine_lit 0x8100000 (machine [] [103]) = Some (Returns 2 s')
     \<and> display s' = display (show_text (bytes (''file not found'' @ [CHR 0x0A])) (machine [] [103]))"
proof -
  let ?s = "machine [] [103]"
  have a: "length [103 :: u8] < 128" and n: "(1025 :: nat) \<le> 4096" by simp_all
  have c: "cstring (mem ?s) (cmd_args ?s (cur ?s)) [103]" using machine_args [of "[103]"] by (simp add: machine_fields [simplified])
  have e: "find_name ?s [103] = None" "unat (num_dir_entries ?s) \<le> 63" by (simp_all add: machine_find [OF a])
  have l: "literal machine_lit (span 0x8100000 1025) ?s (''file not found'' @ [CHR 0x0A])"
    by (rule machine_literal [OF _ machine_buffer(2) [OF n]]) (simp add: machine_literals_def)
  note run = cat_reports_missing [where q = 0, OF machine_user_ok c _ _ machine_cat_args machine_buffer(1) [OF n] e machine_apart(2) [OF a n] l]
  show ?thesis using run by (auto dest!: printsD(4))
qed

text \<open>
  C17: ls prints the directory, one name per line in the order of the entries, and returns 0.
  A name is what the kernel's strlen makes of the entry; a buffer of 34 bytes is written for
  the names of 32 characters, one more than the array has.
\<close>

theorem ls_lists_directory:
  assumes "user_ok s" and "directory s names" and "buf \<noteq> 0"
    and "span buf 34 \<inter> (span (bootblock s) 4096 \<union> screen_span) = {}" and "span (bootblock s) 4096 \<inter> screen_span = {}"
    and "cstring (mem s) (lit ''.'') (bytes ''.'')" and "find_name s (bytes ''.'') = Some e" and "ftype e = FILE_TYPE_DIR"
    and "lowest_free s fd"
  shows "\<exists>s'. ls_main q lit buf s = Some (Returns 0 s') \<and> prints (span buf 34) s (concat (map (\<lambda>nm. nm @ [10]) names)) s'"
  by (rule ls_lists [where lit = lit, OF assms])

theorem ls_lists_directory_witness:
  "\<exists>s'. ls_main 0 machine_lit 0x8100000 (machine [] []) = Some (Returns 0 s')
     \<and> display s' = display (show_text [46, 10, 102, 10] (machine [] []))"
proof -
  let ?s = "machine [] []"
  have a: "length ([] :: u8 list) < 128" and n: "(34 :: nat) \<le> 4096" by simp_all
  have "literal machine_lit (span 0x8100000 34) ?s ''.''"
    by (rule machine_literal [OF _ machine_buffer(2) [OF n]]) (simp add: machine_literals_def suite_lits_def)
  then have l: "cstring (mem ?s) (machine_lit ''.'') (bytes ''.'')" by (simp add: literal_def)
  have e: "find_name ?s (bytes ''.'') = Some (load_dentry image1 0x500040)" by (simp add: machine_find [OF a] bytes_def)
  have b: "span 0x8100000 34 \<inter> (span (bootblock ?s) 4096 \<union> screen_span) = {}" "span (bootblock ?s) 4096 \<inter> screen_span = {}"
    using machine_apart(2) [OF a n, of "[]"] machine_buffer(1) [OF n] by blast+
  note run = ls_lists_directory [where q = 0 and lit = machine_lit, OF machine_user_ok machine_directory [OF a] _ b l e machine_names(6) machine_lowest]
  show ?thesis using run by (auto dest!: printsD(4))
qed

section \<open>Programs that ask a question\<close>

text \<open>
  hello answers with the line that was typed. When the name has been entered, hello prints
  "Hello, " and the line with its newline, and returns 0.
\<close>

theorem hello_greets:
  assumes "user_ok s" and "flags (cur_fd s 0) \<noteq> 0" and "enter_flag s \<noteq> 0" and "line = input_line (tbuf s)"
    and "buf \<noteq> 0" and "span buf 130 \<inter> screen_span = {}" and "literal lit (span buf 130) s ''Hello, ''"
  shows "\<exists>s'. hello_answer q lit buf s = Returns 0 s'
    \<and> prints (span buf 130) s ([10] @ bytes ''Hello, '' @ line @ [10]) s'"
  by (rule hello_prints [OF assms])

theorem hello_greets_witness:
  "\<exists>s'. hello_answer 0 machine_lit 0x8100000 (machine (bytes ''Ada'') []) = Returns 0 s'
     \<and> display s' = display (show_text ([10] @ bytes ''Hello, '' @ bytes ''Ada'' @ [10]) (machine (bytes ''Ada'') []))"
proof -
  let ?s = "machine (bytes ''Ada'') []"
  have n: "(130 :: nat) \<le> 4096" by simp
  have line: "bytes ''Ada'' = input_line (tbuf ?s)" by (rule machine_input [symmetric]) (simp_all add: bytes_def)
  have l: "literal machine_lit (span 0x8100000 130) ?s ''Hello, ''"
    by (rule machine_literal [OF _ machine_buffer(2) [OF n]]) (simp add: machine_literals_def)
  have fl: "flags (cur_fd ?s 0) \<noteq> 0" "enter_flag ?s \<noteq> 0" "(0x8100000 :: u32) \<noteq> 0" by (simp_all add: machine_fd machine_fields)
  show ?thesis
    using hello_greets [where q = 0, OF machine_user_ok fl(1,2) line fl(3) machine_buffer(1) [OF n] l] by (auto dest!: printsD(4))
qed

text \<open>
  The counter never counts. Whatever line is typed, a correct choice included, the counter
  prints "Wrong Choice!": the read delivers the newline with the line, so the string it checks
  is longer than one character or is the newline itself.
\<close>

theorem counter_never_counts:
  assumes "user_ok s" and "flags (cur_fd s 0) \<noteq> 0" and "enter_flag s \<noteq> 0"
    and "buf \<noteq> 0" and "span buf 130 \<inter> screen_span = {}" and "literal lit (span buf 130) s (''Wrong Choice!'' @ [CHR 0x0A])"
  shows "\<exists>s'. counter_answer q lit buf s = Returns 0 s'
    \<and> prints (span buf 130) s ([10] @ bytes (''Wrong Choice!'' @ [CHR 0x0A])) s'"
  by (rule counter_refuses [OF assms])

theorem counter_never_counts_witness:
  "\<exists>s'. counter_answer 0 machine_lit 0x8100000 (machine [48] []) = Returns 0 s'
     \<and> display s' = display (show_text ([10] @ bytes (''Wrong Choice!'' @ [CHR 0x0A])) (machine [48] []))"
proof -
  let ?s = "machine [48] []"
  have n: "(130 :: nat) \<le> 4096" by simp
  have l: "literal machine_lit (span 0x8100000 130) ?s (''Wrong Choice!'' @ [CHR 0x0A])"
    by (rule machine_literal [OF _ machine_buffer(2) [OF n]]) (simp add: machine_literals_def)
  have fl: "flags (cur_fd ?s 0) \<noteq> 0" "enter_flag ?s \<noteq> 0" "(0x8100000 :: u32) \<noteq> 0" by (simp_all add: machine_fd machine_fields)
  show ?thesis
    using counter_never_counts [where q = 0, OF machine_user_ok fl machine_buffer(1) [OF n] l] by (auto dest!: printsD(4))
qed

text \<open>
  The counter's loop, for any limit it is given: the decimal numerals from i + 1 to i + n,
  without leading zeros, one per line.
\<close>

theorem counter_loop_counts:
  assumes "user_ok s" and "buf \<noteq> 0" and "span buf 33 \<inter> screen_span = {}" and "literal lit (span buf 33) s [CHR 0x0A]"
    and "i + n < 4294967296"
  shows "\<exists>s'. counter_loop q lit buf n (of_nat i) s = Returns 0 s'
    \<and> prints (span buf 33) s (concat (map (\<lambda>v. decimal v @ [10]) [Suc i..<Suc (i + n)])) s'"
  by (rule counter_counts [OF assms])

theorem counter_loop_counts_witness:
  "\<exists>s'. counter_loop 0 machine_lit 0x8100000 2 8 (machine [] []) = Returns 0 s'
     \<and> display s' = display (show_text [57, 10, 49, 48, 10] (machine [] []))"
proof -
  let ?s = "machine [] []"
  have n: "(33 :: nat) \<le> 4096" by simp
  have l: "literal machine_lit (span 0x8100000 33) ?s [CHR 0x0A]"
    by (rule machine_literal [OF _ machine_buffer(2) [OF n]]) (simp add: machine_literals_def)
  have d: "concat (map (\<lambda>v. decimal v @ [10]) [Suc 8..<Suc (8 + 2)]) = [57, 10, 49, 48, 10]" by code_simp
  show ?thesis
    using counter_loop_counts [where q = 0 and i = 8 and n = 2, OF machine_user_ok _ machine_buffer(1) [OF n] l] unfolding d
    by (auto dest!: printsD(4))
qed

end
