(* ===== verification/Kud_Session.thy ===== *)
theory Kud_Session
  imports Kud_Userland Kud_Keyboard
begin

unbundle bit_operations_syntax

text \<open>
  A session at the keyboard: the interrupts of the keys, the driver of the terminal, the shell
  and the kernel's execute in one run. Typing disturbs nothing but the screen and the line
  editor, so what the shell needs before the line is typed it has when it reads the line.
\<close>

section \<open>Typing disturbs nothing\<close>

definition undisturbed :: "'a sys_state_scheme \<Rightarrow> 'a sys_state_scheme \<Rightarrow> bool" where
  "undisturbed s s' \<longleftrightarrow> ground s' = ground s \<and> agree (- screen_span) (mem s') (mem s)"

lemma undisturbed_refl: "undisturbed s s"
  by (simp add: undisturbed_def agree_def)

lemma undisturbed_trans [trans]: "undisturbed s t \<Longrightarrow> undisturbed t u \<Longrightarrow> undisturbed s u"
  by (simp add: undisturbed_def agree_def)

lemma ground_print_buffer_loop [simp]: "ground (print_buffer_loop i s) = ground s"
  by (induction i s rule: print_buffer_loop.induct) (subst print_buffer_loop.simps, simp)

lemma ground_typing [simp]:
  "ground (print_buffer s) = ground s" "ground (add_to_buffer c s) = ground s" "ground (send_eoi k s) = ground s"
  "ground (scanned sc s) = ground s"
  by (simp_all add: print_buffer_def add_to_buffer_def Let_def)
     (simp_all add: ground_def places_def kern_def send_eoi_def outb_def scanned_def cli_def Let_def)

lemma add_to_buffer_mem [simp]: "mem (add_to_buffer c s) = mem s"
  by (simp add: add_to_buffer_def Let_def)

lemma key_press_undisturbed:
  assumes "typing s cs" and "plain_key sc" and "key_press sc s = Returns r s'"
  shows "undisturbed s s'"
proof -
  let ?a = "add_to_buffer (keys ! unat sc) (scanned sc s)"
  have e: "s' = sti (send_eoi 1 (print_buffer ?a))" using key_press_plain_eq [OF assms(1,2)] assms(3) by simp
  have "term_ok (scanned sc s)" using assms(1) term_view_cong(1) [of "scanned sc s" s] by (simp add: typing_def)
  then have "leaves ?a (print_buffer ?a)" by (intro print_buffer_leaves add_to_buffer_ok)
  then have "agree (- screen_span) (mem (print_buffer ?a)) (mem ?a)" by (rule leaves_agree) blast
  moreover have "mem s' = mem (print_buffer ?a)" unfolding e by (rule term_view_cong(5)) simp
  moreover have "mem ?a = mem s" using term_view_cong(5) [of "scanned sc s" s] by simp
  ultimately show ?thesis unfolding undisturbed_def by (simp add: e)
qed

lemma key_presses_undisturbed:
  assumes "typing s cs" and "list_all plain_key scs" and "length cs + length scs \<le> 128"
  shows "\<exists>s'. key_presses scs s = Returns 0 s' \<and> typing s' (cs @ map (\<lambda>sc. keys ! unat sc) scs) \<and> undisturbed s s'"
  using assms
proof (induction scs arbitrary: s cs)
  case Nil
  then show ?case using undisturbed_refl by auto
next
  case (Cons sc scs)
  obtain s1 where s1: "key_press sc s = Returns 0 s1" "typing s1 (cs @ [keys ! unat sc])"
    using key_press_plain [of s cs sc] Cons.prems by auto
  have u: "undisturbed s s1" using key_press_undisturbed [OF Cons.prems(1) _ s1(1)] Cons.prems(2) by simp
  obtain s' where "key_presses scs s1 = Returns 0 s'" "typing s' (cs @ [keys ! unat sc] @ map (\<lambda>sc. keys ! unat sc) scs)" "undisturbed s1 s'"
    using Cons.IH [OF s1(2)] Cons.prems(2,3) by auto
  then show ?case using s1(1) undisturbed_trans [OF u] by (intro exI [of _ s']) simp
qed

text \<open>A whole line: what the shell's read finds.\<close>

lemma line_typed:
  assumes "typing s []" and "list_all plain_key scs" and "length scs \<le> 127"
  obtains s' where "key_presses (scs @ [0x1C]) s = Returns 0 s'" "undisturbed s s'" "term_ok s'" "enter_flag s' = 1"
    "input_line (tbuf s') = map (\<lambda>sc. keys ! unat sc) scs"
proof -
  obtain s1 where s1: "key_presses scs s = Returns 0 s1" "typing s1 (map (\<lambda>sc. keys ! unat sc) scs)" "undisturbed s s1"
    using key_presses_undisturbed [OF assms(1,2)] assms(3) by auto
  obtain s' where s': "key_press 0x1C s1 = Returns 0 s'" "term_ok s'" "typed s' (map (\<lambda>sc. keys ! unat sc) scs @ [10])" "enter_flag s' = 1"
    using key_press_enter [OF s1(2)] assms(3) by auto
  let ?a = "(add_to_buffer 10 (scanned 0x1C s1))\<lparr>enter_flag := 1\<rparr>"
  have e: "s' = sti (send_eoi 1 ?a)" using key_press_enter_eq [of s1] s'(1) by simp
  have "mem s' = mem ?a" unfolding e by (rule term_view_cong(5)) simp
  moreover have "mem ?a = mem s1" using term_view_cong(5) [of "scanned 0x1C s1" s1] by simp
  ultimately have "undisturbed s1 s'" unfolding undisturbed_def by (simp add: e agree_def)
  then show thesis
    using s1 s' undisturbed_trans [OF s1(3)] typed_input_line [OF assms(2) s'(3)]
    by (intro that [of s']) (simp_all add: key_presses_append)
qed

section \<open>From the keys to the program\<close>

lemma literal_undisturbed: "literal lit B s str \<Longrightarrow> undisturbed s s' \<Longrightarrow> literal lit B s' str"
  using cstring_agree [of "mem s" "lit str" "bytes str" "mem s'"] agree_sub [of "- screen_span" "mem s'" "mem s"]
  by (auto simp: literal_def undisturbed_def)

text \<open>
  C3: a command typed on the keyboard is run. From a shell that waits at its prompt, the
  interrupts of the keys of a command line and of enter, followed by the return of the shell's
  read, lead to the entry point of the program that the line names, with its file in the
  program page and the rest of the line as its arguments: keyboard driver, line editor,
  terminal driver, system call dispatcher, support library, shell, command parser, loader,
  process table and paging work together.
\<close>

theorem typed_command_runs:
  assumes idle: "user_ok s" "flags (cur_fd s 0) \<noteq> 0" "typing s []"
    and typed: "list_all plain_key scs" "length scs \<le> 127" "map (\<lambda>sc. keys ! unat sc) scs = name @ replicate k 32 @ args"
    and mem: "buf \<noteq> 0" "span buf 130 \<inter> screen_span = {}" "literal lit (span buf 130) s ''exit''"
    and run: "runs s st" "fds_ok s" "length (concat st) < 6" and i: "find_free_pcb s = of_nat i" "1 \<le> i" "i < 7"
    and split: "name \<noteq> []" "32 \<notin> set name" "args = [] \<or> 0 < k \<and> hd args \<noteq> 32" "name @ replicate k 32 @ args \<noteq> bytes ''exit''"
    and apart: "span buf 130 \<inter> exec_writes s i l = {}" "apart_from (span buf 130) s ino l"
    and prog: "runnable s name ino l" "layout_ok s i ino l"
  shows "\<exists>s1 s2. key_presses (scs @ [0x1C]) s = Returns 0 s1 \<and> shell_command q lit buf s1 = Next (Enters (elf_entry s ino) s2)
    \<and> runs s2 (push (curr_terminal s) i st) \<and> fds_ok s2 \<and> load_bytes (mem s2) IMAGE_START l = map (file_byte s ino) [0..<l]
    \<and> cstring (mem s2) (cmd_args s i) args"
proof -
  obtain s1 where s1: "key_presses (scs @ [0x1C]) s = Returns 0 s1" "undisturbed s s1" "term_ok s1" "enter_flag s1 = 1"
      "input_line (tbuf s1) = name @ replicate k 32 @ args"
    using line_typed [OF idle(3) typed(1,2)] typed(3) by metis
  have g: "ground s1 = ground s" and m: "agree (- screen_span) (mem s1) (mem s)" using s1(2) by (simp_all add: undisturbed_def)
  note gd = groundD [OF g] and p = places_eqD [OF groundD(2) [OF g]]
  have r: "runs s1 st" "fds_ok s1" "find_free_pcb s1 = of_nat i" "curr_terminal s1 = curr_terminal s" "cur_fd s1 0 = cur_fd s 0"
    using run i(1) runs_kern [OF gd(1)] fds_ok_kern [OF gd(1)] kern_eqD [OF gd(1)] by (simp_all add: find_free_pcb_def cur_fd_def)
  have "agree (disk s ino l) (mem s1) (mem s)" by (rule agree_sub [OF m]) (use apart(2) in \<open>auto simp: apart_from_def\<close>)
  note f = runnable_agree [OF prog(1) p(6) this]
  have lay: "layout_ok s1 i ino l" by (rule layout_agree [OF prog(2) gd(2) f(3)])
  have ap: "span buf 130 \<inter> exec_writes s1 i l = {}" "apart_from (span buf 130) s1 ino l"
    using apart f(3) by (simp_all add: exec_writes_def p apart_from_def)
  have len: "length name < 128" "length args < 128" using arg_cong [OF typed(3), of length] typed(2) by simp_all
  have fl: "flags (cur_fd s1 0) \<noteq> 0" "enter_flag s1 \<noteq> 0" using idle(2) r(5) s1(4) by simp_all
  have "\<exists>s2. shell_command q lit buf s1 = Next (Enters (elf_entry s1 ino) s2) \<and> runs s2 (push (curr_terminal s1) i st) \<and> fds_ok s2
    \<and> load_bytes (mem s2) IMAGE_START l = map (file_byte s1 ino) [0..<l] \<and> cstring (mem s2) (cmd_args s1 i) args"
    by (rule shell_enters [OF user_ok_ground [OF idle(1) g s1(3)] fl s1(5) mem(1,2) literal_undisturbed [OF mem(3) s1(2)]
        r(1,2) run(3) r(3) i(2,3) split len ap f(1) lay])
  then show ?thesis using s1(1) unfolding f(2,4) r(4) p(5) by blast
qed

text \<open>The machine with an idle shell and the state of the keyboard driver.\<close>

definition idle_machine :: kbd_state where
  "idle_machine = sys_state.extend ((machine [] [])\<lparr>buffer_len := [0, 0, 0], enter_flag := 0\<rparr>) (kbd_state.fields (\<lambda>_. 0) (\<lambda>_. 0) 0 None)"

lemma idle_ground: "ground idle_machine = ground (machine [] [])" "mem idle_machine = mem (machine [] [])"
  by (simp_all add: idle_machine_def ground_def kern_def places_def sys_state.defs kbd_state.defs)

lemma idle_typing: "typing idle_machine []"
proof -
  have "term_view idle_machine = term_view ((machine [] [])\<lparr>buffer_len := [0, 0, 0], enter_flag := 0\<rparr>)"
    by (simp add: idle_machine_def term_view_def kflags_def sys_state.defs kbd_state.defs)
  moreover have "term_ok (machine [] [])" using machine_user_ok by (simp add: user_ok_def)
  then have "term_ok ((machine [] [])\<lparr>buffer_len := [0, 0, 0], enter_flag := 0\<rparr>)" by (simp add: term_ok_def term_base_def)
  moreover have "typed ((machine [] [])\<lparr>buffer_len := [0, 0, 0], enter_flag := 0\<rparr>) []" by (simp add: typed_def machine_fields)
  moreover have "ctrl_flag (machine [] []) = 0" "cap_flag (machine [] []) = 0"
    by (simp_all add: machine_def proc_state1_def sys_state1_def sys_state0_def page_state.defs sys_state.defs page_state0_def fs_state.defs)
       (simp_all add: fs_state0_def)
  ultimately show ?thesis
    using typing_cong [of idle_machine "(machine [] [])\<lparr>buffer_len := [0, 0, 0], enter_flag := 0\<rparr>" "[]"] by (simp add: typing_def)
qed

theorem typed_command_runs_witness:
  "\<exists>s1 s2. key_presses [0x21, 0x39, 0x1E, 0x1C] idle_machine = Returns 0 s1
     \<and> shell_command 0 machine_lit 0x8100000 s1 = Next (Enters 0x8048000 s2) \<and> runs s2 [[2, 1], [], []] \<and> cstring (mem s2) 0x450459 [97]"
proof -
  let ?s = "machine [] []"
  note g = groundD [OF idle_ground(1)]
  note p = places_eqD [OF g(2)]
  have t: "length ([] :: u8 list) < 128" "(130 :: nat) \<le> 4096" by simp_all
  have u: "user_ok idle_machine" by (rule user_ok_ground [OF machine_user_ok idle_ground(1)]) (use idle_typing in \<open>simp add: typing_def\<close>)
  have c: "cur_fd idle_machine 0 = cur_fd ?s 0" "find_free_pcb idle_machine = of_nat 2" "curr_terminal idle_machine = 0"
    using kern_eqD [OF g(1)] machine_free by (simp_all add: cur_fd_def find_free_pcb_def machine_fields)
  have k: "keys ! 0x21 = 102" "keys ! 0x39 = 32" "keys ! 0x1E = 97" by code_simp+
  have scs: "list_all plain_key [0x21, 0x39, 0x1E]" "map (\<lambda>sc. keys ! unat sc) [0x21, 0x39, 0x1E :: u8] = [102] @ replicate 1 32 @ [97]"
    using k by (simp_all add: plain_key_def)
  have "agree A (mem idle_machine) (mem ?s)" for A by (simp add: agree_def idle_ground(2))
  note f = runnable_agree [OF machine_program(1) [OF t(1)] p(6) this]
  have ex: "literal machine_lit (span 0x8100000 130) ?s ''exit''"
    by (rule machine_literal [OF _ machine_buffer(2)]) (simp_all add: machine_literals_def)
  then have ex: "literal machine_lit (span 0x8100000 130) idle_machine ''exit''" by (simp add: literal_def idle_ground(2))
  note b = machine_buffer(4) [of 130]
  have w: "span 0x8100000 130 \<inter> exec_writes idle_machine 2 60 = {}" unfolding exec_writes_def p machine_fields proc_state1_places
    using b [of "0x7F6000" 618] b [of "0x4503D9" 256] b [of "0x7E0000" 52] b [of "0x7D0000" 60] by auto
  have ap: "apart_from (span 0x8100000 130) idle_machine 1 60" using machine_apart(1) [OF t, of "[]"] f(3) by (simp add: apart_from_def)
  have lay: "layout_ok idle_machine 2 1 60"
    using machine_program(4) [OF t(1)] f(3) by (simp add: layout_ok_def exec_writes_def p)
  have ne: "[102] @ replicate 1 32 @ [97] \<noteq> bytes ''exit''" by (simp add: bytes_def)
  have r: "runs idle_machine [[1], [], []]" "fds_ok idle_machine"
    using machine_runs machine_fds runs_kern [OF g(1)] fds_ok_kern [OF g(1)] by simp_all
  have fl: "flags (cur_fd idle_machine 0) \<noteq> 0" "(0x8100000 :: u32) \<noteq> 0" by (simp_all add: c machine_fd)
  note run = typed_command_runs [where q = 0, OF u fl(1) idle_typing scs(1) _ scs(2) fl(2) machine_buffer(1) [OF t(2)] ex r _ c(2) _ _ _ _ _ ne w ap f(1) lay]
  show ?thesis using run by (auto simp: f(2) machine_program(2) [OF t(1)] c(3) p machine_fields push_def)
qed

end
