(* ===== verification/Kud_Grep.thy ===== *)
theory Kud_Grep
  imports Kud_Dir Kud_Syserr
begin

unbundle bit_operations_syntax

text \<open>
  The search program (\<^verbatim>\<open>src/syscalls/ece391grep.c\<close>): every file of the directory is read through
  a buffer of 1024 bytes in which an unfinished line is moved to the front before the next
  read; a line that contains the argument is printed behind the name of its file.
\<close>

section \<open>The program\<close>

text \<open>The search for the end of a line: the newline, or the end of what the buffer holds.\<close>

function find_end :: "mem \<Rightarrow> u32 \<Rightarrow> int \<Rightarrow> int \<Rightarrow> int" where
  "find_end m data lim line_end =
     (if line_end < lim \<and> m (data + of_int line_end) \<noteq> 10 then find_end m data lim (line_end + 1) else line_end)"
  by pat_completeness auto
termination by (relation "measure (\<lambda>(m, data, lim, line_end). nat (lim - line_end))") auto

declare find_end.simps [simp del]

lemma find_end_ge: "line_end \<le> find_end m data lim line_end"
proof (induction m data lim line_end rule: find_end.induct)
  case (1 m data lim line_end)
  then show ?case by (subst find_end.simps) auto
qed

text \<open>Whether the loop over \<^verbatim>\<open>check\<close> finds the string in the line, which is terminated in place.\<close>

function line_matches :: "mem \<Rightarrow> u32 \<Rightarrow> u32 \<Rightarrow> u32 \<Rightarrow> int \<Rightarrow> int \<Rightarrow> bool" where
  "line_matches m data str s_len check line_end =
     (if check < line_end
      then (m str = m (data + of_int check) \<and> ece391_strncmp m (data + of_int check) str s_len = 0)
           \<or> line_matches m data str s_len (check + 1) line_end
      else False)"
  by pat_completeness auto
termination by (relation "measure (\<lambda>(m, data, str, s_len, check, line_end). nat (line_end - check))") auto

declare line_matches.simps [simp del]

definition grep_report :: "nat \<Rightarrow> (string \<Rightarrow> u32) \<Rightarrow> u32 \<Rightarrow> u32 \<Rightarrow> 'a sys_state_scheme \<Rightarrow> 'a sys_state_scheme outcome" where
  "grep_report q lit filename line s =
     and_then (ece391_fdputs q 1 filename s) (\<lambda>_ s.
     and_then (ece391_fdputs q 1 (lit '':'') s) (\<lambda>_ s.
     and_then (ece391_fdputs q 1 line s) (\<lambda>_ s. ece391_fdputs q 1 (lit [CHR 0x0A]) s)))"

text \<open>The loop over the lines in the buffer. Its value is the new value of \<^verbatim>\<open>last\<close>.\<close>

function grep_lines :: "nat \<Rightarrow> (string \<Rightarrow> u32) \<Rightarrow> u32 \<Rightarrow> u32 \<Rightarrow> u32 \<Rightarrow> u32 \<Rightarrow> int \<Rightarrow> int \<Rightarrow> int
    \<Rightarrow> 'a sys_state_scheme \<Rightarrow> 'a sys_state_scheme outcome" where
  "grep_lines q lit filename str s_len data cnt lim line_start s =
     (let line_end = find_end (mem s) data lim line_start in
      if mem s (data + of_int line_end) \<noteq> 10 \<and> 0 \<noteq> cnt \<and> line_start \<noteq> 0
      then (case ece391_strcpy ((mem s)(data + of_int line_end := 0)) data (data + of_int line_start) of
              None \<Rightarrow> Faults
            | Some m \<Rightarrow> Returns (of_int (lim - line_start)) (s\<lparr>mem := m\<rparr>))
      else let s = s\<lparr>mem := (mem s)(data + of_int line_end := 0)\<rparr> in
           and_then (if line_matches (mem s) data str s_len line_start line_end
                     then grep_report q lit filename (data + of_int line_start) s else Returns 0 s) (\<lambda>_ s.
             if line_end + 1 \<ge> lim then Returns 0 s
             else grep_lines q lit filename str s_len data cnt lim (line_end + 1) s))"
  by pat_completeness auto
termination
proof (relation "measure (\<lambda>(q, lit, filename, str, s_len, data, cnt, lim, line_start, s). nat (lim - line_start))", goal_cases)
  case (2 q lit filename str s_len data cnt lim line_start s x xa xb xc)
  then show ?case using find_end_ge [of line_start "mem s" data lim] by auto
qed simp

declare grep_lines.simps [simp del]

partial_function (option) grep_file_loop :: "nat \<Rightarrow> (string \<Rightarrow> u32) \<Rightarrow> u32 \<Rightarrow> u32 \<Rightarrow> u32 \<Rightarrow> u32 \<Rightarrow> u32 \<Rightarrow> int
    \<Rightarrow> 'a sys_state_scheme \<Rightarrow> 'a sys_state_scheme outcome option" where
  "grep_file_loop q lit filename str s_len data fd lim s =
     (case ece391_read q fd (data + of_int lim) (1024 - of_int lim) s of
        Returns cnt s \<Rightarrow>
          if minus_one = cnt
          then Some (and_then (ece391_fdputs q 1 (lit (''file read failed'' @ [CHR 0x0A])) s) (\<lambda>_ s. Returns minus_one s))
          else (case grep_lines q lit filename str s_len data (sint cnt) (lim + sint cnt) 0 s of
                  Returns r s \<Rightarrow> if 0 = cnt then Some (Returns 0 s) else grep_file_loop q lit filename str s_len data fd (sint r) s
                | out \<Rightarrow> Some out)
      | out \<Rightarrow> Some out)"

definition do_one_file :: "nat \<Rightarrow> (string \<Rightarrow> u32) \<Rightarrow> u32 \<Rightarrow> u32 \<Rightarrow> u32 \<Rightarrow> 'a sys_state_scheme \<Rightarrow> 'a sys_state_scheme outcome option" where
  "do_one_file q lit data str filename s =
     (case ece391_strlen (mem s) str of
        None \<Rightarrow> Some Faults
      | Some s_len \<Rightarrow>
          (case ece391_open q filename s of
             Returns fd s \<Rightarrow>
               if minus_one = fd
               then Some (and_then (ece391_fdputs q 1 (lit (''file open failed'' @ [CHR 0x0A])) s) (\<lambda>_ s. Returns minus_one s))
               else (case grep_file_loop q lit filename str s_len data fd 0 s of
                       Some (Returns r s) \<Rightarrow>
                         if r = minus_one then Some (Returns minus_one s)
                         else Some (and_then (ece391_close q fd s) (\<lambda>c s.
                                if minus_one = c
                                then and_then (ece391_fdputs q 1 (lit (''file close failed'' @ [CHR 0x0A])) s) (\<lambda>_ s. Returns minus_one s)
                                else Returns 0 s))
                     | out \<Rightarrow> out)
           | out \<Rightarrow> Some out))"

partial_function (option) grep_loop :: "nat \<Rightarrow> (string \<Rightarrow> u32) \<Rightarrow> u32 \<Rightarrow> u32 \<Rightarrow> u32 \<Rightarrow> u32 \<Rightarrow> 'a sys_state_scheme
    \<Rightarrow> 'a sys_state_scheme outcome option" where
  "grep_loop q lit data search buf fd s =
     (case ece391_read q fd buf 32 s of
        Returns cnt s \<Rightarrow>
          if cnt = 0 then Some (Returns 0 s)
          else if cnt = minus_one
          then Some (and_then (ece391_fdputs q 1 (lit (''directory entry read failed'' @ [CHR 0x0A])) s) (\<lambda>_ s. Returns 3 s))
          else if 46 = mem s buf then grep_loop q lit data search buf fd s
          else (case do_one_file q lit data search buf (s\<lparr>mem := (mem s)(buf + cnt := 0)\<rparr>) of
                  None \<Rightarrow> None
                | Some out \<Rightarrow>
                    (case out of Returns r s \<Rightarrow> if 0 \<noteq> r then Some (Returns 3 s) else grep_loop q lit data search buf fd s
                     | out \<Rightarrow> Some out))
      | out \<Rightarrow> Some out)"

definition grep_main :: "nat \<Rightarrow> (string \<Rightarrow> u32) \<Rightarrow> u32 \<Rightarrow> u32 \<Rightarrow> u32 \<Rightarrow> 'a sys_state_scheme \<Rightarrow> 'a sys_state_scheme outcome option" where
  "grep_main q lit data search buf s =
     (case ece391_getargs q search 1024 s of
        Returns r s \<Rightarrow>
          if 0 \<noteq> r
          then Some (and_then (ece391_fdputs q 1 (lit (''could not read argument'' @ [CHR 0x0A])) s) (\<lambda>_ s. Returns 3 s))
          else (case ece391_open q (lit ''.'') s of
                  Returns fd s \<Rightarrow>
                    if minus_one = fd
                    then Some (and_then (ece391_fdputs q 1 (lit (''directory open failed'' @ [CHR 0x0A])) s) (\<lambda>_ s. Returns 2 s))
                    else grep_loop q lit data search buf fd s
                | out \<Rightarrow> Some out)
      | out \<Rightarrow> Some out)"

section \<open>What grep prints\<close>

text \<open>The lines of a text, the last one with or without its newline.\<close>

function text_lines :: "u8 list \<Rightarrow> u8 list list" where
  "text_lines bs =
     (if bs = [] then []
      else let line = takeWhile (\<lambda>c. c \<noteq> 10) bs in line # text_lines (drop (Suc (length line)) bs))"
  by pat_completeness auto
termination by (relation "measure length") auto

declare text_lines.simps [simp del]

lemma text_lines_Nil [simp]: "text_lines [] = []"
  by (subst text_lines.simps) simp

lemma text_lines_line: "10 \<notin> set line \<Longrightarrow> text_lines (line @ 10 # rest) = line # text_lines rest"
proof -
  assume "10 \<notin> set line"
  then have "takeWhile (\<lambda>c. c \<noteq> 10) (line @ 10 # rest) = line" by (subst takeWhile_append2) auto
  then show ?thesis by (subst text_lines.simps) simp
qed

lemma text_lines_last: "10 \<notin> set line \<Longrightarrow> line \<noteq> [] \<Longrightarrow> text_lines line = [line]"
proof -
  assume l: "10 \<notin> set line" "line \<noteq> []"
  then have t: "takeWhile (\<lambda>c. c \<noteq> 10) line = line" by (auto simp: takeWhile_eq_all_conv)
  show ?thesis unfolding text_lines.simps [of line] Let_def t using l(2) by simp
qed

lemma text_lines_long:
  assumes "10 \<notin> set xs" and "xs \<noteq> []"
  shows "\<exists>line \<in> set (text_lines (xs @ rest)). length xs \<le> length line"
proof -
  have "takeWhile (\<lambda>c. c \<noteq> 10) (xs @ rest) = xs @ takeWhile (\<lambda>c. c \<noteq> 10) rest" using assms(1) by (subst takeWhile_append2) auto
  then show ?thesis using assms(2) by (subst text_lines.simps) (auto simp: Let_def)
qed

definition occurs :: "u8 list \<Rightarrow> u8 list \<Rightarrow> bool" where
  "occurs pat line \<longleftrightarrow> pat \<noteq> [] \<and> (\<exists>k < length line. take (length pat) (drop k line) = pat)"

lemma occurs_code [code]:
  "occurs pat line \<longleftrightarrow> pat \<noteq> [] \<and> list_ex (\<lambda>k. take (length pat) (drop k line) = pat) [0..<length line]"
  by (auto simp: occurs_def list_ex_iff)

definition report :: "u8 list \<Rightarrow> u8 list \<Rightarrow> u8 list \<Rightarrow> u8 list" where
  "report name pat line = (if occurs pat line then name @ [58] @ line @ [10] else [])"

section \<open>The search in the buffer\<close>

definition buffered :: "mem \<Rightarrow> u32 \<Rightarrow> nat \<Rightarrow> u8 list \<Rightarrow> bool" where
  "buffered m data ls bs \<longleftrightarrow> (\<forall>i < length bs. m (data + of_nat (ls + i)) = bs ! i)"

lemma buffered_Cons: "buffered m data ls (c # bs) \<longleftrightarrow> m (data + of_nat ls) = c \<and> buffered m data (Suc ls) bs"
proof -
  have "(\<forall>i < Suc (length bs). m (data + of_nat (ls + i)) = (c # bs) ! i)
      \<longleftrightarrow> m (data + of_nat ls) = c \<and> (\<forall>i < length bs. m (data + of_nat (Suc ls + i)) = bs ! i)"
    by (subst All_less_Suc2) simp
  then show ?thesis by (simp add: buffered_def)
qed

lemma buffered_append: "buffered m data ls (xs @ ys) \<longleftrightarrow> buffered m data ls xs \<and> buffered m data (ls + length xs) ys"
  by (induction xs arbitrary: ls) (simp_all add: buffered_Cons, simp add: buffered_def)

lemma buffered_cong:
  "(\<And>i. ls \<le> i \<Longrightarrow> i < ls + length bs \<Longrightarrow> m' (data + of_nat i) = m (data + of_nat i)) \<Longrightarrow> buffered m' data ls bs = buffered m data ls bs"
  unfolding buffered_def by (intro all_cong) (simp del: of_nat_add)

lemma find_end_line:
  assumes "buffered m data ls bs"
  shows "find_end m data (int (ls + length bs)) (int ls) = int (ls + length (takeWhile (\<lambda>c. c \<noteq> 10) bs))"
  using assms
proof (induction bs arbitrary: ls)
  case Nil
  then show ?case by (subst find_end.simps) simp
next
  case (Cons c bs)
  then have c: "m (data + of_nat ls) = c" "buffered m data (Suc ls) bs" by (simp_all add: buffered_Cons)
  show ?case
  proof (cases "c = 10")
    case True
    then show ?thesis using c(1) by (subst find_end.simps) simp
  next
    case False
    have "find_end m data (int (ls + length (c # bs))) (int ls) = find_end m data (int (Suc ls + length bs)) (int (Suc ls))"
      using False c(1) by (subst find_end.simps) (simp add: add.commute)
    then show ?thesis using Cons.IH [OF c(2)] False by simp
  qed
qed

lemma buffered_cstring:
  assumes "buffered m data ls line" and "m (data + of_nat (ls + length line)) = 0" and "0 \<notin> set line" and "length line < 4294967296"
  shows "cstring m (data + of_nat ls) line"
  using assms by (intro cstringI) (simp_all add: buffered_def add.assoc)

lemma cstring_drop: "cstring m a xs \<Longrightarrow> k \<le> length xs \<Longrightarrow> cstring m (a + of_nat k) (drop k xs)"
proof (induction xs arbitrary: a k)
  case (Cons x xs)
  then show ?case using Cons.IH [of "a + 1" "k - 1"] by (cases k) (simp_all add: cstring_Cons add.assoc)
qed simp

lemma strncmp_pattern:
  assumes "cstring m a line" and "cstring m str pat" and "pat \<noteq> []"
  shows "ece391_strncmp m a str (of_nat (length pat)) = 0 \<longleftrightarrow> take (length pat) line = pat"
proof -
  have u: "unat (of_nat (length pat) :: u32) = length pat" using assms(2) by (intro unat_of_nat32) (simp add: cstring_def)
  moreover have "0 < length pat" using assms(3) by simp
  ultimately have "(of_nat (length pat) :: u32) \<noteq> 0" by (metis less_irrefl unat_0)
  then show ?thesis using strncmp_loop_decides [of "length pat" m a str] assms(3)
    by (simp add: ece391_strncmp_def u strn_cstring [OF assms(1)] strn_cstring [OF assms(2)])
qed

lemma line_matches_occurs:
  assumes "cstring m (data + of_nat ls) line" and "cstring m str pat"
  shows "line_matches m data str (of_nat (length pat)) (int ls) (int (ls + length line)) = occurs pat line"
proof -
  have go: "line_matches m data str (of_nat (length pat)) (int (ls + k)) (int (ls + length line))
      \<longleftrightarrow> pat \<noteq> [] \<and> (\<exists>j < length line. k \<le> j \<and> take (length pat) (drop j line) = pat)" if "k \<le> length line" for k
    using that
  proof (induction "length line - k" arbitrary: k)
    case 0
    then show ?case by (subst line_matches.simps) auto
  next
    case (Suc n)
    then have k: "k < length line" "n = length line - Suc k" "Suc k \<le> length line" by simp_all
    have c: "cstring m (data + of_nat (ls + k)) (drop k line)" using cstring_drop [OF assms(1), of k] k(1) by (simp add: add.assoc)
    then have ch: "m (data + of_nat (ls + k)) = line ! k" "line ! k \<noteq> 0"
      using k(1) Cons_nth_drop_Suc [OF k(1)] by (metis cstring_Cons)+
    have "(m str = m (data + of_nat (ls + k)) \<and> ece391_strncmp m (data + of_nat (ls + k)) str (of_nat (length pat)) = 0)
        \<longleftrightarrow> pat \<noteq> [] \<and> take (length pat) (drop k line) = pat"
    proof (cases pat)
      case Nil
      then show ?thesis using assms(2) ch by (simp add: cstring_Nil)
    next
      case (Cons x xs)
      then have "m str = x" using assms(2) by (simp add: cstring_Cons)
      then show ?thesis
        using strncmp_pattern [OF c assms(2)] Cons ch(1) Cons_nth_drop_Suc [OF k(1)] by (metis list.inject list.size(4) take_Suc_Cons add.right_neutral add_Suc_right list.distinct(1))
    qed
    then have "line_matches m data str (of_nat (length pat)) (int (ls + k)) (int (ls + length line))
        \<longleftrightarrow> (pat \<noteq> [] \<and> take (length pat) (drop k line) = pat)
          \<or> line_matches m data str (of_nat (length pat)) (int (ls + Suc k)) (int (ls + length line))"
      using k(1) by (subst line_matches.simps) (simp add: add.commute)
    also have "\<dots> \<longleftrightarrow> pat \<noteq> [] \<and> (\<exists>j < length line. k \<le> j \<and> take (length pat) (drop j line) = pat)"
      using Suc.hyps(1) [OF k(2,3)] k(1) by (metis Suc_leD le_neq_implies_less order_refl Suc_leI)
    finally show ?case .
  qed
  show ?thesis using go [of 0] by (simp add: occurs_def)
qed

section \<open>The lines of the buffer\<close>

text \<open>The strings of the search are in memory, apart from the buffer and the screen.\<close>

definition grep_ok :: "(string \<Rightarrow> u32) \<Rightarrow> u32 \<Rightarrow> u8 list \<Rightarrow> u32 \<Rightarrow> u8 list \<Rightarrow> u32 \<Rightarrow> 'a sys_state_scheme \<Rightarrow> bool" where
  "grep_ok lit filename name str pat data s \<longleftrightarrow> user_ok s \<and> filename \<noteq> 0 \<and> cstring (mem s) filename name \<and> length name < 2147483648
     \<and> span filename (Suc (length name)) \<inter> (screen_span \<union> span data 1025) = {}
     \<and> cstring (mem s) str pat \<and> span str (Suc (length pat)) \<inter> (screen_span \<union> span data 1025) = {}
     \<and> literal lit (span data 1025) s '':'' \<and> literal lit (span data 1025) s [CHR 0x0A]
     \<and> span data 1025 \<inter> screen_span = {} \<and> data \<noteq> 0 \<and> unat data + 1025 \<le> 4294967296"

lemma grep_ok_prints:
  assumes "grep_ok lit filename name str pat data s" and "prints (span data 1025) s cs s'"
  shows "grep_ok lit filename name str pat data s'"
  using assms(1) printsD(1) [OF assms(2)] cstring_prints [OF _ assms(2)] literal_prints [OF _ assms(2)] unfolding grep_ok_def by blast

lemma grep_okD:
  assumes "grep_ok lit filename name str pat data s"
  shows "literal lit (span data 1025) s '':''" "literal lit (span data 1025) s [CHR 0x0A]" "user_ok s"
    "span data 1025 \<inter> screen_span = {}" "cstring (mem s) str pat" "data \<noteq> 0" "unat data + 1025 \<le> 4294967296"
  using assms by (simp_all add: grep_ok_def)

lemma data_nonzero:
  assumes "data \<noteq> 0" and "unat data + 1025 \<le> 4294967296" and "k \<le> 1024"
  shows "data + of_nat k \<noteq> (0 :: u32)"
proof -
  have "unat (data + of_nat k) = unat data + k" using assms(2,3) by (simp add: unat_add32 unat_of_nat32)
  moreover have "0 < unat data" using assms(1) by (simp add: unat_gt_0)
  ultimately show ?thesis by (metis add_gr_0 less_irrefl unat_0)
qed

lemma report_printed:
  assumes "grep_ok lit filename name str pat data s" and "cstring (mem s) (data + of_nat ls) line" and "ls + length line \<le> 1024"
  obtains s' where "grep_report q lit filename (data + of_nat ls) s = Returns 0 s'" "ground s' = ground s"
    "prints {} s (name @ [58] @ line @ [10]) s'"
proof -
  let ?D = "span data 1025" and ?a = "data + of_nat ls"
  have ok: "user_ok s" "filename \<noteq> 0" "cstring (mem s) filename name" "length name < 2147483648"
      "span filename (Suc (length name)) \<inter> (screen_span \<union> ?D) = {}" "?D \<inter> screen_span = {}"
    using assms(1) by (simp_all add: grep_ok_def)
  have nz: "?a \<noteq> 0" using assms(1,3) by (intro data_nonzero) (simp_all add: grep_ok_def)
  have sub: "span ?a (Suc (length line)) \<subseteq> ?D" "span ?a (length line) \<subseteq> ?D" "span filename (length name) \<subseteq> span filename (Suc (length name))"
    using assms(3) by (simp_all add: span_sub span_mono)
  obtain s1 where s1: "ece391_fdputs q 1 filename s = Returns 0 s1" "ground s1 = ground s" "prints {} s name s1"
    by (rule fdputs_stdout [OF ok(1-4)]) (use ok(5) sub(3) in blast)
  have p1: "prints ?D s name s1" by (rule prints_mono [OF s1(3)]) simp
  note k1 = grep_ok_prints [OF assms(1) p1]
  obtain s2 where s2: "ece391_fdputs q 1 (lit '':'') s1 = Returns 0 s2" "ground s2 = ground s1" "prints {} s1 (bytes '':'') s2"
    by (rule fdputs_literal [OF printsD(1) [OF s1(3)] grep_okD(1) [OF k1]])
  have p2: "prints ?D s1 (bytes '':'') s2" by (rule prints_mono [OF s2(3)]) simp
  have "cstring (mem s1) ?a line" by (rule cstring_prints [OF assms(2) s1(3)]) (use sub(1) ok(6) in blast)
  then have c2: "cstring (mem s2) ?a line" by (rule cstring_prints [OF _ s2(3)]) (use sub(1) ok(6) in blast)
  obtain s3 where s3: "ece391_fdputs q 1 ?a s2 = Returns 0 s3" "ground s3 = ground s2" "prints {} s2 line s3"
    by (rule fdputs_stdout [OF printsD(1) [OF s2(3)] nz c2]) (use assms(3) sub(2) ok(6) in auto)
  have p3: "prints ?D s2 line s3" by (rule prints_mono [OF s3(3)]) simp
  obtain s4 where s4: "ece391_fdputs q 1 (lit [CHR 0x0A]) s3 = Returns 0 s4" "ground s4 = ground s3" "prints {} s3 (bytes [CHR 0x0A]) s4"
    by (rule fdputs_literal [OF printsD(1) [OF s3(3)] grep_okD(2) [OF grep_ok_prints [OF grep_ok_prints [OF k1 p2] p3]]])
  have "prints {} s (name @ bytes '':'' @ line @ bytes [CHR 0x0A]) s4"
    by (rule prints_trans [OF ok(1) s1(3) prints_join [OF printsD(1) [OF s1(3)] s2(3) s3(3) s4(3)]])
  then show thesis using s1 s2 s3 s4 by (intro that [of s4]) (simp_all add: grep_report_def bytes_def)
qed

text \<open>One line: terminated in the buffer, searched, and reported when it matches.\<close>

lemma line_searched:
  assumes "grep_ok lit filename name str pat data s" and "buffered (mem s) data ls line" and "0 \<notin> set line" and "ls + length line \<le> 1024"
  obtains s2 where "(let s = s\<lparr>mem := (mem s)(data + of_nat (ls + length line) := 0)\<rparr> in
      (if line_matches (mem s) data str (of_nat (length pat)) (int ls) (int (ls + length line))
       then grep_report q lit filename (data + of_nat ls) s else Returns 0 s)) = Returns 0 s2"
    "ground s2 = ground s" "prints (span data 1025) s (report name pat line) s2"
    "agree (- screen_span) (mem s2) ((mem s)(data + of_nat (ls + length line) := 0))"
proof -
  let ?D = "span data 1025" and ?s = "s\<lparr>mem := (mem s)(data + of_nat (ls + length line) := 0)\<rparr>"
  have u: "user_ok s" "?D \<inter> screen_span = {}" using assms(1) by (simp_all add: grep_ok_def)
  have p: "prints ?D s [] ?s" by (rule prints_mem [OF u(1) agree_poke [OF span_add] u(2)]) (use assms(4) in auto)
  note k = grep_ok_prints [OF assms(1) p]
  have "buffered (mem ?s) data ls line" using assms(2,4) of_nat32_inj by (fastforce simp: buffered_def)
  then have c: "cstring (mem ?s) (data + of_nat ls) line" using assms(3,4) by (intro buffered_cstring) simp_all
  have m: "line_matches (mem ?s) data str (of_nat (length pat)) (int ls) (int (ls + length line)) = occurs pat line"
    by (rule line_matches_occurs [OF c grep_okD(5) [OF k]])
  show thesis
  proof (cases "occurs pat line")
    case True
    obtain s2 where s2: "grep_report q lit filename (data + of_nat ls) ?s = Returns 0 s2" "ground s2 = ground ?s"
        "prints {} ?s (name @ [58] @ line @ [10]) s2"
      by (rule report_printed [OF k c assms(4)])
    have "prints ?D s ([] @ name @ [58] @ line @ [10]) s2" by (rule prints_trans [OF u(1) p prints_mono [OF s2(3)]]) simp
    moreover have "agree (- screen_span) (mem s2) (mem ?s)" by (rule printsD(5) [OF s2(3)]) blast
    ultimately show thesis using True m s2 by (intro that [of s2]) (simp_all add: report_def)
  next
    case False
    then show thesis using m p by (intro that [of ?s]) (simp_all add: report_def agree_def)
  qed
qed

text \<open>
  What is left in the buffer: the unfinished line \<open>tail\<close>, behind the \<open>finished\<close> lines; or
  nothing, when the last piece was searched although no newline ends it. That happens at the
  end of the file, for a piece that fills the buffer, and when the byte behind the data
  happens to be a newline.
\<close>

definition consumed :: "int \<Rightarrow> nat \<Rightarrow> bool \<Rightarrow> u8 list \<Rightarrow> u8 list \<Rightarrow> u8 list list \<Rightarrow> bool" where
  "consumed cnt ls stale bs tail finished \<longleftrightarrow> set tail \<subseteq> set bs \<and> length tail \<le> length bs \<and> 10 \<notin> set tail \<and> (cnt = 0 \<longrightarrow> tail = [])
     \<and> ((\<forall>rest. text_lines (bs @ rest) = finished @ text_lines (tail @ rest))
        \<or> tail = [] \<and> finished = text_lines bs \<and> bs \<noteq> [] \<and> (cnt = 0 \<or> ls = 0 \<and> 10 \<notin> set bs \<or> stale))"

lemma consumed_step:
  assumes "10 \<notin> set line" and "consumed cnt (Suc ls) stale bs tail finished"
  shows "consumed cnt ls' stale (line @ 10 # bs) tail (line # finished)"
  using assms(2) unfolding consumed_def by (auto simp: text_lines_line [OF assms(1)])

text \<open>The move of an unfinished line to the front of the buffer.\<close>

lemma moved_down:
  assumes "buffered m data ls bs" and "0 \<notin> set bs" and "ls + length bs \<le> 1024" and "0 < ls"
  obtains m' where "ece391_strcpy (m(data + of_nat (ls + length bs) := 0)) data (data + of_nat ls) = Some m'"
    "buffered m' data 0 bs" "agree (- span data 1025) m' m" "m' (data + 1024) = m (data + 1024) \<or> m' (data + 1024) = 0"
proof -
  let ?m = "m(data + of_nat (ls + length bs) := 0)" and ?n = "Suc (length bs)"
  let ?c = "copied ?m data (data + of_nat ls) ?n"
  have "buffered ?m data ls bs" using assms(1,3) of_nat32_inj by (fastforce simp: buffered_def)
  then have c: "cstring ?m (data + of_nat ls) bs" using assms(2,3) by (intro buffered_cstring) simp_all
  have "(- of_nat ls :: u32) = of_nat (4294967296 - ls)" using assms(3) by (simp add: of_nat_diff)
  moreover have "unat (of_nat (4294967296 - ls) :: u32) = 4294967296 - ls" using assms(4) by (intro unat_of_nat32) simp
  ultimately have "unat (- of_nat ls :: u32) = 4294967296 - ls" by (simp only:)
  moreover have "?n \<le> 4294967296 - ls" using assms(3) by linarith
  ultimately have fw: "forward_ok data (data + of_nat ls) ?n" by (simp add: forward_ok_def)
  have s: "ece391_strcpy ?m data (data + of_nat ls) = Some ?c"
    using strcpy_loop_copied [of ?m "data + of_nat ls" 0 bs data] c fw assms(3) strcpy_eq [of ?m data 0 "data + of_nat ls"] by simp
  have at: "?c (data + of_nat i) = ?m (data + of_nat (ls + i))" if "i < ?n" for i
    using that assms(3) by (simp add: copied_def unat_of_nat32 add.assoc)
  have "buffered ?c data 0 bs"
    unfolding buffered_def using at \<open>buffered ?m data ls bs\<close> by (simp add: buffered_def)
  moreover have "agree (- span data 1025) ?c m"
    unfolding agree_def using assms(3) span_add [of "ls + length bs" 1025 data] by (auto simp: copied_def span_def)
  moreover have "?c (data + 1024) = ?m (data + 1024)" using assms(3,4) by (simp add: copied_def)
  then have "?c (data + 1024) = m (data + 1024) \<or> ?c (data + 1024) = 0" by simp
  ultimately show thesis using s by (intro that)
qed

lemma grep_lines_step:
  assumes "buffered (mem s) data ls bs"
  shows "grep_lines q lit filename str s_len data cnt (int (ls + length bs)) (int ls) s =
     (let line = takeWhile (\<lambda>c. c \<noteq> 10) bs; e = ls + length line in
      if mem s (data + of_nat e) \<noteq> 10 \<and> cnt \<noteq> 0 \<and> ls \<noteq> 0
      then (case ece391_strcpy ((mem s)(data + of_nat e := 0)) data (data + of_nat ls) of
              None \<Rightarrow> Faults
            | Some m \<Rightarrow> Returns (of_nat (length bs)) (s\<lparr>mem := m\<rparr>))
      else and_then (let s = s\<lparr>mem := (mem s)(data + of_nat e := 0)\<rparr> in
                     (if line_matches (mem s) data str s_len (int ls) (int e)
                      then grep_report q lit filename (data + of_nat ls) s else Returns 0 s)) (\<lambda>_ s.
             if e + 1 \<ge> ls + length bs then Returns 0 s
             else grep_lines q lit filename str s_len data cnt (int (ls + length bs)) (int (e + 1)) s))"
proof -
  have f: "find_end (mem s) data (int (ls + length bs)) (int ls) = int (ls + length (takeWhile (\<lambda>c. c \<noteq> 10) bs))"
    by (rule find_end_line [OF assms])
  have i: "(int a + 1 \<ge> int b) = (a + 1 \<ge> b)" "int a + 1 = int (a + 1)" "int (a + b) - int a = int b" for a b :: nat by auto
  show ?thesis
    unfolding grep_lines.simps [of q lit filename str s_len data cnt "int (ls + length bs)" "int ls" s] f Let_def i
    by (simp only: of_int_of_nat_eq of_nat_0_eq_iff split: if_split) auto
qed

text \<open>The lines of the buffer: what is printed, and what is left.\<close>

definition lines_done :: "u8 list \<Rightarrow> u8 list \<Rightarrow> u32 \<Rightarrow> int \<Rightarrow> nat \<Rightarrow> bool \<Rightarrow> u8 list \<Rightarrow> 'a sys_state_scheme
    \<Rightarrow> 'a sys_state_scheme outcome \<Rightarrow> bool" where
  "lines_done name pat data cnt ls stale bs s out \<longleftrightarrow>
     (\<exists>s' tail finished. out = Returns (of_nat (length tail)) s' \<and> ground s' = ground s
       \<and> prints (span data 1025) s (concat (map (report name pat) finished)) s'
       \<and> (mem s' (data + 1024) = mem s (data + 1024) \<or> mem s' (data + 1024) = 0)
       \<and> buffered (mem s') data 0 tail \<and> consumed cnt ls stale bs tail finished)"

lemma lines_doneI:
  assumes "out = Returns (of_nat (length tail)) s'" and "ground s' = ground s"
    and "prints (span data 1025) s (concat (map (report name pat) finished)) s'"
    and "mem s' (data + 1024) = mem s (data + 1024) \<or> mem s' (data + 1024) = 0"
    and "buffered (mem s') data 0 tail" and "consumed cnt ls stale bs tail finished"
  shows "lines_done name pat data cnt ls stale bs s out"
  using assms unfolding lines_done_def by blast

lemma lines_done_step:
  assumes "lines_done name pat data cnt (Suc ls') stale bs s2 out" and "10 \<notin> set line" and "user_ok s" and "ground s2 = ground s"
    and "prints (span data 1025) s (report name pat line) s2" and "mem s2 (data + 1024) = mem s (data + 1024) \<or> mem s2 (data + 1024) = 0"
  shows "lines_done name pat data cnt ls stale (line @ 10 # bs) s out"
proof -
  obtain s' tail finished where r: "out = Returns (of_nat (length tail)) s'" "ground s' = ground s2"
      "prints (span data 1025) s2 (concat (map (report name pat) finished)) s'"
      "mem s' (data + 1024) = mem s2 (data + 1024) \<or> mem s' (data + 1024) = 0"
      "buffered (mem s') data 0 tail" "consumed cnt (Suc ls') stale bs tail finished"
    using assms(1) unfolding lines_done_def by blast
  have "prints (span data 1025) s (concat (map (report name pat) (line # finished))) s'"
    using prints_trans [OF assms(3,5) r(3)] by simp
  then show ?thesis using r assms(4,6) consumed_step [OF assms(2) r(6)]
    by (intro lines_doneI [of out tail s' s data name pat "line # finished"]) auto
qed

lemma lines_moved:
  assumes "grep_ok lit filename name str pat data s" and "buffered (mem s) data ls bs" and "0 \<notin> set bs" and "10 \<notin> set bs"
    and "ls + length bs \<le> 1024" and "0 < ls" and "cnt \<noteq> 0"
  shows "lines_done name pat data cnt ls stale bs s
     (case ece391_strcpy ((mem s)(data + of_nat (ls + length bs) := 0)) data (data + of_nat ls) of
        None \<Rightarrow> Faults | Some m \<Rightarrow> Returns (of_nat (length bs)) (s\<lparr>mem := m\<rparr>))"
proof -
  obtain m where m: "ece391_strcpy ((mem s)(data + of_nat (ls + length bs) := 0)) data (data + of_nat ls) = Some m"
      "buffered m data 0 bs" "agree (- span data 1025) m (mem s)" "m (data + 1024) = mem s (data + 1024) \<or> m (data + 1024) = 0"
    by (rule moved_down [OF assms(2,3,5,6)])
  have "prints (span data 1025) s [] (s\<lparr>mem := m\<rparr>)" by (rule prints_mem [OF grep_okD(3) [OF assms(1)] m(3) grep_okD(4) [OF assms(1)]])
  then show ?thesis using m assms(4,7)
    by (intro lines_doneI [where tail = bs and finished = "[]" and s' = "s\<lparr>mem := m\<rparr>"]) (auto simp: consumed_def)
qed

lemma line_end_cases:
  fixes bs :: "u8 list"
  assumes "line = takeWhile (\<lambda>c. c \<noteq> 10) bs"
  obtains (unfinished) "line = bs" "10 \<notin> set bs" | (newline) rest where "bs = line @ 10 # rest" "10 \<notin> set line"
proof (cases "10 \<in> set bs")
  case True
  then obtain ys zs where "bs = ys @ 10 # zs" "10 \<notin> set ys" by (meson split_list_first)
  moreover from this have "takeWhile (\<lambda>c. c \<noteq> 10) bs = ys" by (subst calculation(1), subst takeWhile_append2) auto
  ultimately show thesis using newline assms by simp
next
  case False
  moreover from this have "takeWhile (\<lambda>c. c \<noteq> 10) bs = bs" by (auto simp: takeWhile_eq_all_conv)
  ultimately show thesis using unfinished assms by simp
qed

lemma grep_lines_run:
  assumes "grep_ok lit filename name str pat data s" and "buffered (mem s) data ls bs" and "0 \<notin> set bs" and "ls + length bs \<le> 1024"
  shows "lines_done name pat data cnt ls (mem s (data + of_nat (ls + length bs)) = 10) bs s
     (grep_lines q lit filename str (of_nat (length pat)) data cnt (int (ls + length bs)) (int ls) s)"
  using assms
proof (induction "length bs" arbitrary: ls bs s rule: less_induct)
  case less
  define line where "line = takeWhile (\<lambda>c. c \<noteq> 10) bs"
  let ?D = "span data 1025"
  let ?e = "ls + length line"
  let ?m = "(mem s)(data + of_nat ?e := 0)"
  have len: "ls + length line \<le> 1024" using less.prems(4) length_takeWhile_le [of "\<lambda>c. c \<noteq> 10" bs] unfolding line_def by linarith
  have b: "buffered (mem s) data ls line" using less.prems(2) buffered_append [of "mem s" data ls line "dropWhile (\<lambda>c. c \<noteq> 10) bs"] by (simp add: line_def)
  have z: "0 \<notin> set line" using less.prems(3) set_takeWhileD [of 0 "\<lambda>c. c \<noteq> 10" bs] unfolding line_def by blast
  obtain s2 where s2: "(let s = s\<lparr>mem := (mem s)(data + of_nat ?e := 0)\<rparr> in
      (if line_matches (mem s) data str (of_nat (length pat)) (int ls) (int ?e)
       then grep_report q lit filename (data + of_nat ls) s else Returns 0 s)) = Returns 0 s2"
      "ground s2 = ground s" "prints ?D s (report name pat line) s2" "agree (- screen_span) (mem s2) ?m"
    by (rule line_searched [OF less.prems(1) b z len])
  have at: "mem s2 (data + of_nat i) = ?m (data + of_nat i)" if "i \<le> 1024" for i
  proof -
    have "data + of_nat i \<in> - screen_span" using grep_okD(4) [OF less.prems(1)] span_add [of i 1025 data] that by auto
    then show ?thesis using s2(4) unfolding agree_def by (rule bspec [rotated])
  qed
  have last: "mem s2 (data + 1024) = mem s (data + 1024) \<or> mem s2 (data + 1024) = 0" using at [of 1024] by simp
  show ?case
    using line_def
  proof (cases rule: line_end_cases)
    case unfinished
    show ?thesis
    proof (cases "mem s (data + of_nat ?e) \<noteq> 10 \<and> cnt \<noteq> 0 \<and> ls \<noteq> 0")
      case True
      then show ?thesis using lines_moved [OF less.prems(1-3) unfinished(2) less.prems(4), of cnt]
        unfolding grep_lines_step [OF less.prems(2), folded line_def] by (simp add: Let_def unfinished(1))
    next
      case False
      then have g: "grep_lines q lit filename str (of_nat (length pat)) data cnt (int (ls + length bs)) (int ls) s = Returns 0 s2"
        using s2(1) unfolding grep_lines_step [OF less.prems(2), folded line_def] Let_def unfinished(1) if_not_P [OF False [unfolded unfinished(1)]] by simp
      have t: "text_lines bs = (if bs = [] then [] else [bs])" using text_lines_last [OF unfinished(2)] by simp
      have "report name pat [] = []" by (simp add: report_def occurs_def)
      then have p: "prints ?D s (concat (map (report name pat) (text_lines bs))) s2" using s2(3) unfolding unfinished(1) by (cases "bs = []") (simp_all add: t)
      have c: "consumed cnt ls (mem s (data + of_nat (ls + length bs)) = 10) bs [] (text_lines bs)"
        using False unfinished(2) by (cases "bs = []") (auto simp: consumed_def unfinished(1))
      show ?thesis unfolding g
        by (rule lines_doneI [OF _ s2(2) p last _ c]) (simp_all add: buffered_def)
    qed
  next
    case (newline rest)
    have n10: "mem s (data + of_nat ?e) = 10"
      using less.prems(2) newline(1) buffered_append [of "mem s" data ls line "10 # rest"] by (simp add: buffered_Cons)
    have lb: "ls + length bs = Suc ?e + length rest" unfolding newline(1) by simp
    have br: "buffered (mem s) data (Suc ?e) rest"
      using less.prems(2) newline(1) buffered_append [of "mem s" data ls line "10 # rest"] by (simp add: buffered_Cons)
    have at': "mem s2 (data + of_nat i) = mem s (data + of_nat i)" if "?e < i" "i \<le> 1024" for i
      using at [OF that(2)] that of_nat32_inj [of i ?e] by auto
    have done_rest: "lines_done name pat data cnt (Suc ?e) (mem s (data + of_nat (ls + length bs)) = 10) rest s2
       (if Suc ?e \<ge> ls + length bs then Returns 0 s2
        else grep_lines q lit filename str (of_nat (length pat)) data cnt (int (ls + length bs)) (int (Suc ?e)) s2)"
    proof (cases "rest = []")
      case True
      then show ?thesis using lb printsD(1) [OF s2(3)] prints_refl
        by (intro lines_doneI [where tail = "[]" and finished = "[]" and s' = s2]) (auto simp: buffered_def consumed_def)
    next
      case False
      have "buffered (mem s2) data (Suc ?e) rest"
        by (subst buffered_cong [where m = "mem s"]) (use br at' less.prems(4) lb in auto)
      moreover have "length rest < length bs" "Suc ?e + length rest \<le> 1024" using lb less.prems(4) by linarith+
      moreover have "0 \<notin> set rest" using less.prems(3) newline(1) by auto
      ultimately have "lines_done name pat data cnt (Suc ?e) (mem s2 (data + of_nat (ls + length bs)) = 10) rest s2
          (grep_lines q lit filename str (of_nat (length pat)) data cnt (int (ls + length bs)) (int (Suc ?e)) s2)"
        unfolding lb by (intro less.hyps grep_ok_prints [OF less.prems(1) s2(3)])
      moreover have "mem s2 (data + of_nat (ls + length bs)) = mem s (data + of_nat (ls + length bs))"
        by (rule at') (use lb less.prems(4) in linarith)+
      moreover have "\<not> Suc ?e \<ge> ls + length bs" using False lb by simp
      ultimately show ?thesis by (simp only: if_False)
    qed
    have "grep_lines q lit filename str (of_nat (length pat)) data cnt (int (ls + length bs)) (int ls) s
        = (if Suc ?e \<ge> ls + length bs then Returns 0 s2
           else grep_lines q lit filename str (of_nat (length pat)) data cnt (int (ls + length bs)) (int (Suc ?e)) s2)"
      using s2(1) n10 unfolding grep_lines_step [OF less.prems(2), folded line_def] by (simp add: Let_def)
    then show ?thesis
      using lines_done_step [OF done_rest newline(2) grep_okD(3) [OF less.prems(1)] s2(2,3) last, of ls] newline(1) by simp
  qed
qed

section \<open>A file\<close>

text \<open>
  The state of the search between two reads: \<open>tail\<close> is in the buffer, the descriptor stands
  behind it in the file, and the byte behind the buffer is not a newline.
\<close>

definition searching :: "(string \<Rightarrow> u32) \<Rightarrow> u32 \<Rightarrow> u8 list \<Rightarrow> u32 \<Rightarrow> u8 list \<Rightarrow> u32 \<Rightarrow> nat \<Rightarrow> u32 \<Rightarrow> nat \<Rightarrow> u8 list \<Rightarrow> nat
    \<Rightarrow> 'a sys_state_scheme \<Rightarrow> bool" where
  "searching lit filename name str pat data fd k l tail p s \<longleftrightarrow> grep_ok lit filename name str pat data s \<and> file_ok s k l
     \<and> apart_from (span data 1025) s k l \<and> at_pos s fd k p \<and> p \<le> l \<and> buffered (mem s) data 0 tail \<and> length tail \<le> 1024
     \<and> mem s (data + 1024) \<noteq> 10"

text \<open>Every descriptor but one.\<close>

definition others_kept :: "nat \<Rightarrow> 'a sys_state_scheme \<Rightarrow> 'a sys_state_scheme \<Rightarrow> bool" where
  "others_kept fd s s' \<longleftrightarrow> (\<forall>g. g \<noteq> fd \<longrightarrow> cur_fd s' g = cur_fd s g)"

lemma others_kept_trans: "others_kept fd s s1 \<Longrightarrow> others_kept fd s1 s2 \<Longrightarrow> others_kept fd s s2"
  by (simp add: others_kept_def)

lemma others_kept_ground: "ground s' = ground s \<Longrightarrow> others_kept fd s s'"
  by (drule groundD(1), frule kern_eqD(1), drule kern_eqD(2)) (simp add: others_kept_def cur_fd_def)

lemma buffered_filled:
  assumes "buffered m data 0 tail" and "length tail + n \<le> 1024"
  shows "buffered (filled m (data + of_nat (length tail)) n f) data 0 (tail @ map f [0..<n])"
proof -
  let ?t = "length tail" and ?m = "filled m (data + of_nat (length tail)) n f"
  have "?m (data + of_nat i) = m (data + of_nat i)" if "i < ?t" for i
  proof -
    have "(of_nat i - of_nat ?t :: u32) = of_nat (4294967296 + i - ?t)" using that assms(2) by (simp add: of_nat_diff)
    moreover have "unat (of_nat (4294967296 + i - ?t) :: u32) = 4294967296 + i - ?t" using that by (intro unat_of_nat32) simp
    moreover have "n \<le> 4294967296 + i - ?t" using assms(2) by linarith
    ultimately show ?thesis by (simp add: filled_def)
  qed
  then have "buffered ?m data 0 tail" using assms(1) by (simp add: buffered_def)
  moreover have "?m (data + of_nat (?t + i)) = f i" if "i < n" for i using that assms(2) by (simp add: filled_def unat_of_nat32)
  then have "buffered ?m data ?t (map f [0..<n])" by (simp add: buffered_def)
  ultimately show ?thesis by (simp add: buffered_append)
qed

lemma piece_read:
  assumes "searching lit filename name str pat data fd k l tail p s" and "cnt = min (1024 - length tail) (l - p)"
  obtains s1 where "ece391_read q (of_nat fd) (data + of_nat (length tail)) (1024 - of_nat (length tail)) s = Returns (of_nat cnt) s1"
    "searching lit filename name str pat data fd k l (tail @ map (file_byte s k) [p..<p + cnt]) (p + cnt) s1"
    "prints (span data 1025) s [] s1" "others_kept fd s s1" "map (file_byte s1 k) [0..<l] = map (file_byte s k) [0..<l]"
proof -
  let ?t = "length tail" and ?D = "span data 1025" and ?a = "data + of_nat (length tail)"
  let ?s1 = "s\<lparr>mem := filled (mem s) ?a cnt (\<lambda>i. file_byte s k (p + i)), pcbs := advanced fd cnt s\<rparr>"
  have g: "grep_ok lit filename name str pat data s" "file_ok s k l" "apart_from ?D s k l" "at_pos s fd k p" "p \<le> l"
      "buffered (mem s) data 0 tail" "?t \<le> 1024" "mem s (data + 1024) \<noteq> 10"
    using assms(1) by (simp_all add: searching_def)
  have u: "user_ok s" by (rule grep_okD(3) [OF g(1)])
  have sub: "span ?a (1024 - ?t) \<subseteq> ?D" using g(7) by (intro span_sub) simp_all
  have ap: "span ?a (1024 - ?t) \<inter> (disk s k l \<union> screen_span) = {}" using g(3) sub by (auto simp: apart_from_def)
  then have dj: "span ?a (1024 - ?t) \<inter> disk s k l = {}" by blast
  have nz: "?a \<noteq> 0" by (rule data_nonzero [OF grep_okD(6,7) [OF g(1)] g(7)])
  have "(1024 - of_nat ?t :: u32) = of_nat (1024 - ?t)" using g(7) by (simp add: of_nat_diff)
  then have rd: "ece391_read q (of_nat fd) ?a (1024 - of_nat ?t) s = Returns (of_nat cnt) ?s1"
    using read_regular [OF u g(2,4) nz _ assms(2) dj, of q] by simp
  have c: "cnt \<le> l - p" "cnt \<le> 1024 - ?t" using assms(2) by simp_all
  note a = after_read [OF u g(2,4) c(1) ap c(2)]
  have p1: "prints ?D s [] ?s1" by (rule prints_mono [OF a(1) sub])
  have "buffered (mem ?s1) data 0 (tail @ map (\<lambda>i. file_byte s k (p + i)) [0..<cnt])"
    using buffered_filled [OF g(6), of cnt] c(2) g(7) by simp
  then have b: "buffered (mem ?s1) data 0 (tail @ map (file_byte s k) [p..<p + cnt])" unfolding map_upt_shift .
  have "filled (mem s) ?a cnt f (data + 1024) = mem s (data + 1024)" for f
  proof (rule filled_outside)
    have "(1024 - of_nat ?t :: u32) = of_nat (1024 - ?t)" using g(7) by (simp add: of_nat_diff)
    then have "unat (1024 - of_nat ?t :: u32) = 1024 - ?t" by (simp only: unat_of_nat32)
    then show "cnt \<le> unat (data + 1024 - ?a)" using c(2) by simp
  qed
  moreover have "p + cnt \<le> l" "?t + cnt \<le> 1024" using c g(5,7) by linarith+
  ultimately have "searching lit filename name str pat data fd k l (tail @ map (file_byte s k) [p..<p + cnt]) (p + cnt) ?s1"
    using grep_ok_prints [OF g(1) p1] a(2,4) file_ok_prints(4) [OF p1 g(3,2)] g(5,7,8) b c by (simp add: searching_def)
  moreover have "others_kept fd s ?s1"
    using cur_fd_set_other [of _ fd "(cur_fd s fd)\<lparr>file_position := file_position (cur_fd s fd) + of_nat cnt\<rparr>" s]
    by (simp add: others_kept_def advanced_def set_cur_fd_def upd_pcb_def cur_fd_def)
  ultimately show thesis using rd p1 file_ok_prints(3) [OF p1 g(3,2)] by (intro that)
qed

text \<open>The lines in the buffer after a read.\<close>

lemma piece_searched:
  assumes "searching lit filename name str pat data fd k l bs p s" and "0 \<notin> set bs"
  obtains tail finished s2 where
    "grep_lines q lit filename str (of_nat (length pat)) data cnt (int (length bs)) 0 s = Returns (of_nat (length tail)) s2"
    "prints (span data 1025) s (concat (map (report name pat) finished)) s2" "length tail \<le> length bs"
    "searching lit filename name str pat data fd k l tail p s2" "others_kept fd s s2"
    "map (file_byte s2 k) [0..<l] = map (file_byte s k) [0..<l]"
    "consumed cnt 0 (mem s (data + of_nat (length bs)) = 10) bs tail finished"
proof -
  let ?D = "span data 1025"
  have g: "grep_ok lit filename name str pat data s" "file_ok s k l" "apart_from ?D s k l" "at_pos s fd k p" "p \<le> l"
      "buffered (mem s) data 0 bs" "length bs \<le> 1024" "mem s (data + 1024) \<noteq> 10"
    using assms(1) by (simp_all add: searching_def)
  have "lines_done name pat data cnt 0 (mem s (data + of_nat (0 + length bs)) = 10) bs s
     (grep_lines q lit filename str (of_nat (length pat)) data cnt (int (0 + length bs)) (int 0) s)"
    by (rule grep_lines_run [OF g(1,6) assms(2)]) (use g(7) in simp)
  then obtain s2 tail finished where r:
      "grep_lines q lit filename str (of_nat (length pat)) data cnt (int (length bs)) 0 s = Returns (of_nat (length tail)) s2"
      "ground s2 = ground s" "prints ?D s (concat (map (report name pat) finished)) s2"
      "mem s2 (data + 1024) = mem s (data + 1024) \<or> mem s2 (data + 1024) = 0" "buffered (mem s2) data 0 tail"
      "consumed cnt 0 (mem s (data + of_nat (length bs)) = 10) bs tail finished"
    unfolding lines_done_def by auto
  have len: "length tail \<le> length bs" using r(6) by (simp add: consumed_def)
  note f = file_ok_prints [OF r(3) g(3,2)]
  have "at_pos s2 fd k p" by (rule at_pos_same [OF g(4) groundD(1) [OF r(2)] places_eqD(6) [OF groundD(2) [OF r(2)]]])
  then have "searching lit filename name str pat data fd k l tail p s2"
    using grep_ok_prints [OF g(1) r(3)] f(1,4) g r(4,5) len by (auto simp: searching_def)
  then show thesis using r len f(3) others_kept_ground [OF r(2)] by (intro that)
qed

lemma consumed_rest:
  assumes "consumed cnt 0 stale bs tail finished"
    and "rest = [] \<or> cnt \<noteq> 0 \<and> \<not> stale \<and> length bs = 1024 \<and> (\<forall>line \<in> set (text_lines (bs @ rest)). length line \<le> 1023)"
  shows "text_lines (bs @ rest) = finished @ text_lines (tail @ rest)"
proof (cases "\<forall>rest. text_lines (bs @ rest) = finished @ text_lines (tail @ rest)")
  case False
  then have c: "tail = []" "finished = text_lines bs" "bs \<noteq> []" "cnt = 0 \<or> 10 \<notin> set bs \<or> stale"
    using assms(1) by (auto simp: consumed_def)
  have "rest = []" using assms(2) c(4) text_lines_long [OF _ c(3), of rest] by fastforce
  then show ?thesis using c by simp
qed blast

lemma grep_file_loop_prints:
  assumes "searching lit filename name str pat data fd k l tail p s" and "length tail < 1024"
    and "contents = tail @ map (file_byte s k) [p..<l]" and "0 \<notin> set contents" and "\<forall>line \<in> set (text_lines contents). length line \<le> 1023"
  shows "\<exists>s'. grep_file_loop q lit filename str (of_nat (length pat)) data (of_nat fd) (int (length tail)) s = Some (Returns 0 s')
    \<and> prints (span data 1025) s (concat (map (report name pat) (text_lines contents))) s' \<and> others_kept fd s s'
    \<and> flags (cur_fd s' fd) \<noteq> 0 \<and> mem s' (data + 1024) \<noteq> 10"
  using assms
proof (induction "l - p" arbitrary: s p tail contents rule: less_induct)
  case less
  let ?D = "span data 1025" and ?file = "\<lambda>a b. map (file_byte s k) [a..<b]"
  define cnt where "cnt = min (1024 - length tail) (l - p)"
  define bs where "bs = tail @ ?file p (p + cnt)"
  obtain s1 where s1: "ece391_read q (of_nat fd) (data + of_nat (length tail)) (1024 - of_nat (length tail)) s = Returns (of_nat cnt) s1"
      "searching lit filename name str pat data fd k l bs (p + cnt) s1"
      "prints ?D s [] s1" "others_kept fd s s1" "map (file_byte s1 k) [0..<l] = map (file_byte s k) [0..<l]"
    using piece_read [OF less.prems(1) cnt_def, of q] unfolding bs_def by metis
  have c: "cnt \<le> l - p" "cnt < 2147483648" "length bs = length tail + cnt" using less.prems(2) by (auto simp: cnt_def bs_def)
  have "[p..<l] = [p..<p + cnt] @ [p + cnt..<l]" using c(1) upt_add_eq_append [of p "p + cnt" "l - p - cnt"] by (cases "p \<le> l") auto
  then have contents: "contents = bs @ ?file (p + cnt) l" using less.prems(3) by (simp add: bs_def)
  then have "0 \<notin> set bs" using less.prems(4) by simp
  then obtain tail' finished s2 where s2:
      "grep_lines q lit filename str (of_nat (length pat)) data (int cnt) (int (length bs)) 0 s1 = Returns (of_nat (length tail')) s2"
      "prints ?D s1 (concat (map (report name pat) finished)) s2" "length tail' \<le> length bs"
      "searching lit filename name str pat data fd k l tail' (p + cnt) s2" "others_kept fd s1 s2"
      "map (file_byte s2 k) [0..<l] = map (file_byte s1 k) [0..<l]"
      "consumed (int cnt) 0 (mem s1 (data + of_nat (length bs)) = 10) bs tail' finished"
    by (rule piece_searched [OF s1(2)])
  have fb: "map (file_byte s2 k) [a..<l] = ?file a l" for a
    using arg_cong [OF trans [OF s2(6) s1(5)], of "drop a"] by (simp add: drop_map)
  have g: "mem s1 (data + 1024) \<noteq> 10" "mem s2 (data + 1024) \<noteq> 10" "flags (cur_fd s2 fd) \<noteq> 0"
    using s1(2) s2(4) by (simp_all add: searching_def at_pos_def)
  have "?file (p + cnt) l = [] \<or> int cnt \<noteq> 0 \<and> \<not> mem s1 (data + of_nat (length bs)) = 10 \<and> length bs = 1024"
    using less.prems(2) g(1) c(3) by (cases "1024 - length tail \<le> l - p") (auto simp: cnt_def)
  then have lines: "text_lines contents = finished @ text_lines (tail' @ ?file (p + cnt) l)"
    using consumed_rest [OF s2(7), of "?file (p + cnt) l"] less.prems(5) unfolding contents by blast
  have u: "user_ok s" using less.prems(1) by (simp add: searching_def grep_ok_def)
  have p2: "prints ?D s ([] @ concat (map (report name pat) finished)) s2"
    by (rule prints_trans [OF u s1(3) s2(2)])
  have ot: "others_kept fd s s2" by (rule others_kept_trans [OF s1(4) s2(5)])
  have sc: "sint (of_nat cnt :: u32) = int cnt" by (rule sint_of_nat32 [OF c(2)])
  show ?case
  proof (cases "cnt = 0")
    case True
    then have "l \<le> p" "tail' = []" using less.prems(2) s2(7) by (auto simp: cnt_def consumed_def)
    then have "text_lines contents = finished" using lines True by simp
    moreover have "grep_file_loop q lit filename str (of_nat (length pat)) data (of_nat fd) (int (length tail)) s = Some (Returns 0 s2)"
      using s1(1) s2(1) c(3) True by (subst grep_file_loop.simps) simp
    ultimately show ?thesis using p2 ot g by auto
  next
    case False
    have t: "10 \<notin> set tail'" "set tail' \<subseteq> set bs" using s2(7) by (simp_all add: consumed_def)
    have le: "\<forall>line \<in> set (text_lines (tail' @ ?file (p + cnt) l)). length line \<le> 1023" using less.prems(5) unfolding lines by simp
    have len: "length tail' < 1024"
    proof (cases "tail' = []")
      case False
      then obtain line where "line \<in> set (text_lines (tail' @ ?file (p + cnt) l))" "length tail' \<le> length line"
        using text_lines_long [OF t(1)] by blast
      then show ?thesis using le by force
    qed simp
    have "l - (p + cnt) < l - p" "0 \<notin> set (tail' @ ?file (p + cnt) l)"
      using False c(1) t(2) less.prems(4) unfolding contents by auto
    then obtain s' where s': "grep_file_loop q lit filename str (of_nat (length pat)) data (of_nat fd) (int (length tail')) s2 = Some (Returns 0 s')"
        "prints ?D s2 (concat (map (report name pat) (text_lines (tail' @ ?file (p + cnt) l)))) s'" "others_kept fd s2 s'"
        "flags (cur_fd s' fd) \<noteq> 0" "mem s' (data + 1024) \<noteq> 10"
      using less.hyps [OF _ s2(4) len refl, unfolded fb] le by blast
    have "sint (of_nat (length tail') :: u32) = int (length tail')" using len by (intro sint_of_nat32) simp
    then have "grep_file_loop q lit filename str (of_nat (length pat)) data (of_nat fd) (int (length tail)) s = Some (Returns 0 s')"
      using s1(1) s2(1) c(3) sc s'(1) small_result [OF c(2)] False by (subst grep_file_loop.simps) simp
    moreover have "prints ?D s (concat (map (report name pat) (text_lines contents))) s'"
      using prints_trans [OF u p2 s'(2)] unfolding lines by simp
    ultimately show ?thesis using others_kept_trans [OF ot s'(3)] s'(4,5) by blast
  qed
qed

text \<open>
  A whole file, which is opened, searched to its end and closed again. The descriptor is the
  lowest free one before and after.
\<close>

definition matches :: "u8 list \<Rightarrow> u8 list \<Rightarrow> u8 list \<Rightarrow> u8 list" where
  "matches name pat contents = concat (map (report name pat) (text_lines contents))"

definition text_file :: "'a fs_state_scheme \<Rightarrow> u32 set \<Rightarrow> u8 list \<Rightarrow> u8 list \<Rightarrow> bool" where
  "text_file s B name contents \<longleftrightarrow> (\<exists>e l. find_name s name = Some e \<and> ftype e = FILE_TYPE_REG \<and> file_ok s (inode e) l
     \<and> apart_from B s (inode e) l \<and> contents = map (file_byte s (inode e)) [0..<l] \<and> 0 \<notin> set contents
     \<and> (\<forall>line \<in> set (text_lines contents). length line \<le> 1023))"

lemma lowest_free_closed:
  assumes "user_ok s'" and "lowest_free s fd" and "flags (cur_fd s' fd) = 0" and "others_kept fd s s'"
  shows "lowest_free s' fd"
proof -
  have "files_ok s'" "fd < 8" "2 \<le> fd" using assms(1,2) by (simp_all add: user_ok_def lowest_free_def)
  then have "fd_ops (cur_fd s' fd) = Ops_null" using slot_ok_cur [of s' fd] assms(3) by (auto simp: slot_ok_def)
  then show ?thesis using assms(2,4) by (simp add: lowest_free_def others_kept_def)
qed

lemma do_one_file_prints:
  assumes "grep_ok lit filename name str pat data s" and "mem s (data + 1024) \<noteq> 10" and "unat (num_dir_entries s) \<le> 63"
    and "text_file s (span data 1025) name contents" and "lowest_free s fd"
  obtains s' where "do_one_file q lit data str filename s = Some (Returns 0 s')" "prints (span data 1025) s (matches name pat contents) s'"
    "others_kept fd s s'" "lowest_free s' fd" "mem s' (data + 1024) \<noteq> 10"
proof -
  let ?D = "span data 1025"
  obtain e l where e: "find_name s name = Some e" "ftype e = FILE_TYPE_REG" "file_ok s (inode e) l" "apart_from ?D s (inode e) l"
      "contents = map (file_byte s (inode e)) [0..<l]" "0 \<notin> set contents" "\<forall>line \<in> set (text_lines contents). length line \<le> 1023"
    using assms(4) by (auto simp: text_file_def)
  let ?k = "inode e"
  have g: "user_ok s" "cstring (mem s) filename name" "cstring (mem s) str pat" using assms(1) by (simp_all add: grep_ok_def)
  have fd: "2 \<le> fd" "fd < 8" using assms(5) by (simp_all add: lowest_free_def)
  obtain s1 where s1: "ece391_open q filename s = Returns (of_nat fd) s1" "prints {} s [] s1" "mem s1 = mem s" "fd_ready s1 fd"
      "cur_fd s1 fd = \<lparr>fd_ops = Ops_file, inode_ptr = inode_at s ?k, file_position = 0, flags = 1\<rparr>" "others_kept fd s s1"
    using open_stage [OF g(1,2) e(1) assms(5), of "inode_at s ?k" q] e(2) unfolding others_kept_def by blast
  have p1: "prints ?D s [] s1" by (rule prints_mono [OF s1(2)]) simp
  note f = file_ok_prints [OF p1 e(4,3)]
  have "at_pos s1 fd ?k 0" using fd s1(4,5) f(5) by (simp add: at_pos_def)
  then have "searching lit filename name str pat data fd ?k l [] 0 s1"
    using grep_ok_prints [OF assms(1) p1] f(1,4) assms(2) s1(3) by (simp add: searching_def buffered_def)
  then obtain s2 where s2: "grep_file_loop q lit filename str (of_nat (length pat)) data (of_nat fd) 0 s1 = Some (Returns 0 s2)"
      "prints ?D s1 (matches name pat contents) s2" "others_kept fd s1 s2" "flags (cur_fd s2 fd) \<noteq> 0" "mem s2 (data + 1024) \<noteq> 10"
    using grep_file_loop_prints [of lit filename name str pat data fd ?k l "[]" 0 s1 contents q] e(5-7) f(3) unfolding matches_def by auto
  obtain r s3 where s3: "ece391_close q (of_nat fd) s2 = Returns r s3" "prints {} s2 [] s3" "mem s3 = mem s2"
      "flags (cur_fd s3 fd) = 0" "\<forall>g. g \<noteq> fd \<longrightarrow> cur_fd s3 g = cur_fd s2 g" "flags (cur_fd s2 fd) \<noteq> 0 \<longrightarrow> r = 0"
    by (rule close_stage [OF printsD(1) [OF s2(2)] fd])
  have p3: "prints ?D s2 [] s3" by (rule prints_mono [OF s3(2)]) simp
  have p: "prints ?D s (matches name pat contents) s3" using prints_join [OF g(1) p1 s2(2) p3] by simp
  have ot: "others_kept fd s s3" using s1(6) s2(3) s3(5) by (simp add: others_kept_def)
  have "(of_nat fd :: u32) \<noteq> minus_one" using small_result [of fd] fd by simp
  then have "do_one_file q lit data str filename s = Some (Returns 0 s3)"
    using s1(1) s2(1,4) s3(1,6) strlen_cstring [OF g(3)] by (simp add: do_one_file_def strlen_eq)
  then show thesis using p ot lowest_free_closed [OF printsD(1) [OF p] assms(5) s3(4) ot] s2(5) s3(3) by (intro that [of s3]) simp_all
qed

section \<open>The directory\<close>

lemma text_file_prints:
  assumes "text_file s B name contents" and "prints B s cs s'" and "unat (num_dir_entries s) \<le> 63"
  shows "text_file s' B name contents"
proof -
  obtain e l where e: "find_name s name = Some e" "ftype e = FILE_TYPE_REG" "file_ok s (inode e) l" "apart_from B s (inode e) l"
      "contents = map (file_byte s (inode e)) [0..<l]" "0 \<notin> set contents" "\<forall>line \<in> set (text_lines contents). length line \<le> 1023"
    using assms(1) by (auto simp: text_file_def)
  note f = file_ok_prints [OF assms(2) e(4,3)]
  have "agree (disk s (inode e) l) (mem s') (mem s)" by (rule printsD(5) [OF assms(2)]) (use e(4) in \<open>auto simp: apart_from_def\<close>)
  from find_name_agree [OF places_eqD(6) [OF printsD(3) [OF assms(2)]] agree_sub [OF this disk_boot] assms(3)]
  show ?thesis using e f by (auto simp: text_file_def)
qed

lemma text_file_mono: "text_file s B name contents \<Longrightarrow> B' \<subseteq> B \<Longrightarrow> text_file s B' name contents"
  unfolding text_file_def apart_from_def by blast

lemma literal_mono: "literal lit B s str \<Longrightarrow> B' \<subseteq> B \<Longrightarrow> literal lit B' s str"
  unfolding literal_def by blast

text \<open>What the search of the directory needs: \<open>contents\<close> gives the text of every file that is searched.\<close>

definition grep_dir :: "(string \<Rightarrow> u32) \<Rightarrow> u32 \<Rightarrow> u8 list \<Rightarrow> u32 \<Rightarrow> u32 \<Rightarrow> u8 list list \<Rightarrow> (u8 list \<Rightarrow> u8 list) \<Rightarrow> nat
    \<Rightarrow> 'a sys_state_scheme \<Rightarrow> bool" where
  "grep_dir lit str pat data buf names contents fd s \<longleftrightarrow> user_ok s \<and> directory s names
     \<and> (\<forall>nm \<in> set names. hd nm = 46 \<or> length nm \<le> 32 \<and> text_file s (span data 1025 \<union> span buf 34) nm (contents nm))
     \<and> lowest_free s fd \<and> cstring (mem s) str pat \<and> span str (Suc (length pat)) \<inter> (screen_span \<union> (span data 1025 \<union> span buf 34)) = {}
     \<and> literal lit (span data 1025 \<union> span buf 34) s '':'' \<and> literal lit (span data 1025 \<union> span buf 34) s [CHR 0x0A]
     \<and> span data 1025 \<inter> screen_span = {} \<and> span buf 34 \<inter> (screen_span \<union> span data 1025) = {}
     \<and> span (bootblock s) 4096 \<inter> (screen_span \<union> (span data 1025 \<union> span buf 34)) = {}
     \<and> data \<noteq> 0 \<and> unat data + 1025 \<le> 4294967296 \<and> buf \<noteq> 0 \<and> mem s (data + 1024) \<noteq> 10"

definition found :: "u8 list \<Rightarrow> (u8 list \<Rightarrow> u8 list) \<Rightarrow> u8 list \<Rightarrow> u8 list" where
  "found pat contents nm = (if hd nm = 46 then [] else matches nm pat (contents nm))"

lemma grep_dir_prints:
  assumes "grep_dir lit str pat data buf names contents fd s" and "prints (span data 1025 \<union> span buf 34) s cs s'"
    and "lowest_free s' fd" and "mem s' (data + 1024) \<noteq> 10"
  shows "grep_dir lit str pat data buf names contents fd s'"
proof -
  let ?B = "span data 1025 \<union> span buf 34"
  have g: "directory s names" "span (bootblock s) 4096 \<inter> (screen_span \<union> ?B) = {}" "unat (num_dir_entries s) \<le> 63"
    using assms(1) by (simp_all add: grep_dir_def directory_def)
  have "\<forall>nm \<in> set names. hd nm = 46 \<or> length nm \<le> 32 \<and> text_file s' ?B nm (contents nm)"
    using assms(1) text_file_prints [OF _ assms(2) g(3)] unfolding grep_dir_def by blast
  then show ?thesis
    using assms(1,3,4) directory_prints [OF g(1) assms(2) g(2)] printsD(1) [OF assms(2)]
      cstring_prints [OF _ assms(2)] literal_prints [OF _ assms(2)]
    unfolding grep_dir_def by simp
qed

text \<open>The name of the entry, terminated behind its last character.\<close>

lemma name_terminated:
  assumes "load_bytes m a (length nm) = nm" and "0 \<notin> set nm" and "length nm < 4294967296"
  shows "cstring (m(a + of_nat (length nm) := 0)) a nm"
proof (rule cstringI)
  fix i
  assume i: "i < length nm"
  then have "m (a + of_nat i) = nm ! i" using nth_load_bytes [OF i, of m a] assms(1) by simp
  then show "(m(a + of_nat (length nm) := 0)) (a + of_nat i) = nm ! i" using i assms(3) of_nat32_inj [of i "length nm"] by auto
qed (use assms in simp_all)

lemma entry_searched:
  assumes "grep_dir lit str pat data buf names contents fd s" and "nm \<in> set names" and "hd nm \<noteq> 46"
    and "load_bytes (mem s) buf (length nm) = nm"
  obtains s' where "do_one_file q lit data str buf (s\<lparr>mem := (mem s)(buf + of_nat (length nm) := 0)\<rparr>) = Some (Returns 0 s')"
    "prints (span data 1025 \<union> span buf 34) s (matches nm pat (contents nm)) s'" "others_kept fd s s'"
    "grep_dir lit str pat data buf names contents fd s'"
proof -
  let ?D = "span data 1025" and ?F = "span buf 34"
  let ?B = "?D \<union> ?F" and ?s = "s\<lparr>mem := (mem s)(buf + of_nat (length nm) := 0)\<rparr>"
  have d: "user_ok s" "directory s names" "?B \<inter> screen_span = {}" "lowest_free s fd" "?F \<inter> (screen_span \<union> ?D) = {}" "buf \<noteq> 0"
    using assms(1) by (auto simp: grep_dir_def)
  have tf: "length nm \<le> 32" "text_file s ?B nm (contents nm)" using assms(1-3) by (auto simp: grep_dir_def)
  have z: "0 \<notin> set nm" using d(2) assms(2) by (auto simp: directory_def cstring_def in_set_conv_nth)
  have at: "buf + of_nat (length nm) \<in> ?F" using tf(1) by (intro span_add) simp_all
  have p: "prints ?B s [] ?s" by (rule prints_mem [OF d(1) agree_poke d(3)]) (use at in blast)
  have "data + 1024 \<in> ?D" using span_add [of 1024 1025 data] by simp
  moreover have "data + 1024 \<notin> ?D" if "data + 1024 = buf + of_nat (length nm)" using at d(5) unfolding that by auto
  ultimately have "data + 1024 \<noteq> buf + of_nat (length nm)" by metis
  then have m: "mem ?s (data + 1024) \<noteq> 10" using assms(1) by (simp add: grep_dir_def)
  have lf: "lowest_free ?s fd" using d(4) lowest_free_ground [of ?s s fd] by simp
  note g = grep_dir_prints [OF assms(1) p lf m]
  have c: "cstring (mem ?s) buf nm" using name_terminated [OF assms(4) z] tf(1) by simp
  have sub: "span buf (Suc (length nm)) \<subseteq> ?F" using tf(1) by (intro span_mono) simp
  have "literal lit ?D ?s '':''" "literal lit ?D ?s [CHR 0x0A]" using g literal_mono [of lit ?B ?s _ ?D] by (simp_all add: grep_dir_def)
  then have ok: "grep_ok lit buf nm str pat data ?s"
    using g c sub tf(1) unfolding grep_ok_def grep_dir_def by auto
  have n: "unat (num_dir_entries ?s) \<le> 63" using g by (simp add: grep_dir_def directory_def)
  have t: "text_file ?s ?D nm (contents nm)"
    by (rule text_file_mono [OF text_file_prints [OF tf(2) p]]) (use d(2) in \<open>auto simp: directory_def\<close>)
  obtain s' where s': "do_one_file q lit data str buf ?s = Some (Returns 0 s')" "prints ?D ?s (matches nm pat (contents nm)) s'"
      "others_kept fd ?s s'" "lowest_free s' fd" "mem s' (data + 1024) \<noteq> 10"
    by (rule do_one_file_prints [OF ok m n t lf])
  have p': "prints ?B ?s (matches nm pat (contents nm)) s'" by (rule prints_mono [OF s'(2)]) blast
  have "prints ?B s ([] @ matches nm pat (contents nm)) s'" by (rule prints_trans [OF d(1) p p'])
  moreover have "others_kept fd s s'" using s'(3) others_kept_ground [of ?s s fd] by (auto simp: others_kept_def)
  ultimately show thesis using s'(1) grep_dir_prints [OF g p' s'(4,5)] by (intro that) simp_all
qed

lemma grep_dirD:
  assumes "grep_dir lit str pat data buf names contents fd s"
  shows "user_ok s" "directory s names" "buf \<noteq> 0" "span buf 34 \<inter> (span (bootblock s) 4096 \<union> screen_span) = {}" "lowest_free s fd"
    "data + 1024 \<notin> screen_span \<union> span buf 34" "mem s (data + 1024) \<noteq> 10"
proof -
  have "data + 1024 \<in> span data 1025" using span_add [of 1024 1025 data] by simp
  then show "data + 1024 \<notin> screen_span \<union> span buf 34" using assms by (auto simp: grep_dir_def)
qed (use assms in \<open>auto simp: grep_dir_def\<close>)

lemma dir_pos_others:
  assumes "dir_pos s dfd p" and "others_kept fd s s'" and "dfd \<noteq> fd" and "user_ok s'"
  shows "dir_pos s' dfd p"
proof -
  have "files_ok s'" using assms(4) by (simp add: user_ok_def)
  then obtain c where "current_pcb s' = Some c" "c < 7" "length (pcbs s') = 7" "length (file_array (pcbs s' ! c)) = 8" by (rule files_okD)
  then show ?thesis using assms(1-3) by (simp add: dir_pos_def others_kept_def fd_ready_def)
qed

lemma entry_read:
  assumes "grep_dir lit str pat data buf names contents fd s" and "dir_pos s dfd p" and "p < length names"
  obtains s' where "ece391_read q (of_nat dfd) buf 32 s = Returns (of_nat (length (names ! p))) s'"
    "prints (span data 1025 \<union> span buf 34) s [] s'" "load_bytes (mem s') buf (length (names ! p)) = names ! p"
    "dir_pos s' dfd (Suc p)" "grep_dir lit str pat data buf names contents fd s'"
proof -
  note d = grep_dirD [OF assms(1)]
  obtain s1 where s1: "ece391_read q (of_nat dfd) buf 32 s = Returns (of_nat (length (names ! p))) s1"
      "prints (span buf 34) s [] s1" "load_bytes (mem s1) buf (length (names ! p)) = names ! p" "dir_pos s1 dfd (Suc p)"
      "\<forall>g. g \<noteq> dfd \<longrightarrow> cur_fd s1 g = cur_fd s g"
    by (rule read_directory [OF d(1,2) assms(2,3) d(3,4)])
  have p: "prints (span data 1025 \<union> span buf 34) s [] s1" by (rule prints_mono [OF s1(2)]) blast
  have ne: "fd_ops (cur_fd s1 dfd) \<noteq> Ops_null" "fd_ops (cur_fd s dfd) \<noteq> Ops_null"
    using s1(4) assms(2) by (simp_all add: dir_pos_def)
  then have same: "fd_ops (cur_fd s1 g) = Ops_null \<longleftrightarrow> fd_ops (cur_fd s g) = Ops_null" for g using s1(5) by (cases "g = dfd") simp_all
  then have lf: "lowest_free s1 fd" using d(5) by (simp add: lowest_free_def)
  have "agree {data + 1024} (mem s1) (mem s)" by (rule printsD(5) [OF s1(2)]) (use d(6) in blast)
  then have "mem s1 (data + 1024) \<noteq> 10" using d(7) by (simp add: agree_def)
  then show thesis using s1 p grep_dir_prints [OF assms(1) p lf] by (intro that)
qed

lemma grep_loop_prints:
  assumes "grep_dir lit str pat data buf names contents fd s" and "dir_pos s dfd p" and "p \<le> length names"
  shows "\<exists>s'. grep_loop q lit data str buf (of_nat dfd) s = Some (Returns 0 s')
    \<and> prints (span data 1025 \<union> span buf 34) s (concat (map (found pat contents) (drop p names))) s'"
  using assms
proof (induction "length names - p" arbitrary: s p)
  case 0
  note d = grep_dirD [OF 0(2)]
  have p: "p = length names" using 0 by simp
  have "grep_loop q lit data str buf (of_nat dfd) s = Some (Returns 0 s)"
    using read_directory_end [OF d(1,2) 0(3) [unfolded p] d(3), of q] by (subst grep_loop.simps) simp
  then show ?case using prints_refl [OF d(1)] p by auto
next
  case (Suc k)
  let ?B = "span data 1025 \<union> span buf 34" and ?nm = "names ! p"
  have p: "p < length names" "k = length names - Suc p" "Suc p \<le> length names" using Suc.hyps(2) by simp_all
  note d = grep_dirD [OF Suc.prems(1)]
  obtain s1 where s1: "ece391_read q (of_nat dfd) buf 32 s = Returns (of_nat (length ?nm)) s1" "prints ?B s [] s1"
      "load_bytes (mem s1) buf (length ?nm) = ?nm" "dir_pos s1 dfd (Suc p)" "grep_dir lit str pat data buf names contents fd s1"
    by (rule entry_read [OF Suc.prems(1,2) p(1)])
  have n: "?nm \<noteq> []" "length ?nm \<le> 33" "?nm \<in> set names" using d(2) p(1) by (simp_all add: directory_def)
  have c: "(of_nat (length ?nm) :: u32) \<noteq> 0" "(of_nat (length ?nm) :: u32) \<noteq> minus_one" using small_result [of "length ?nm"] n by auto
  have hd: "mem s1 buf = hd ?nm" using nth_load_bytes [of 0 "length ?nm" "mem s1" buf] s1(3) n(1) by (simp add: hd_conv_nth)
  have dr: "concat (map (found pat contents) (drop p names)) = found pat contents ?nm @ concat (map (found pat contents) (drop (Suc p) names))"
    using Cons_nth_drop_Suc [OF p(1)] by (metis concat.simps(2) list.simps(9))
  obtain s2 where s2: "prints ?B s1 (found pat contents ?nm) s2" "dir_pos s2 dfd (Suc p)" "grep_dir lit str pat data buf names contents fd s2"
      "grep_loop q lit data str buf (of_nat dfd) s = grep_loop q lit data str buf (of_nat dfd) s2"
  proof (cases "hd ?nm = 46")
    case True
    show thesis using True s1 c hd prints_refl [OF grep_dirD(1) [OF s1(5)]]
      by (intro that [of s1]) (simp_all add: found_def, subst grep_loop.simps, simp)
  next
    case False
    obtain s2 where s2: "do_one_file q lit data str buf (s1\<lparr>mem := (mem s1)(buf + of_nat (length ?nm) := 0)\<rparr>) = Some (Returns 0 s2)"
        "prints ?B s1 (matches ?nm pat (contents ?nm)) s2" "others_kept fd s1 s2" "grep_dir lit str pat data buf names contents fd s2"
      by (rule entry_searched [OF s1(5) n(3) False s1(3)])
    have "dfd \<noteq> fd" using s1(4) grep_dirD(5) [OF s1(5)] by (auto simp: dir_pos_def lowest_free_def)
    then have "dir_pos s2 dfd (Suc p)" using dir_pos_others [OF s1(4) s2(3)] printsD(1) [OF s2(2)] by simp
    moreover have "grep_loop q lit data str buf (of_nat dfd) s = grep_loop q lit data str buf (of_nat dfd) s2"
      using s1(1) s2(1) c hd False by (subst grep_loop.simps) simp
    ultimately show thesis using that s2 False by (simp add: found_def)
  qed
  obtain s' where s': "grep_loop q lit data str buf (of_nat dfd) s2 = Some (Returns 0 s')"
      "prints ?B s2 (concat (map (found pat contents) (drop (Suc p) names))) s'"
    using Suc.hyps(1) [OF p(2) s2(3,2) p(3)] by blast
  show ?case using prints_join [OF d(1) s1(2) s2(1) s'(2)] s'(1) s2(4) unfolding dr by auto
qed

section \<open>The whole program\<close>

text \<open>
  What the program finds when it starts: no file is open, the argument is \<open>pat\<close>, its three
  buffers are apart from each other, from the screen, from the literals and from the disk, every
  entry whose name does not start with a dot is a text file, and the byte behind the buffer
  for the data is not a newline.
\<close>

definition grep_ready :: "(string \<Rightarrow> u32) \<Rightarrow> u32 \<Rightarrow> u32 \<Rightarrow> u32 \<Rightarrow> u8 list \<Rightarrow> u8 list list \<Rightarrow> (u8 list \<Rightarrow> u8 list)
    \<Rightarrow> 'a sys_state_scheme \<Rightarrow> bool" where
  "grep_ready lit data search buf pat names contents s \<longleftrightarrow>
     (let B = span data 1025 \<union> span buf 34 \<union> span search 1025 in
      user_ok s \<and> fresh s \<and> directory s names
      \<and> (\<exists>e. find_name s (bytes ''.'') = Some e \<and> ftype e = FILE_TYPE_DIR)
      \<and> (\<forall>nm \<in> set names. hd nm = 46 \<or> length nm \<le> 32 \<and> text_file s B nm (contents nm))
      \<and> cstring (mem s) (cmd_args s (cur s)) pat \<and> length pat \<le> 1024
      \<and> span (cmd_args s (cur s)) 1024 \<inter> span search 1024 = {}
      \<and> literal lit B s '':'' \<and> literal lit B s [CHR 0x0A] \<and> literal lit B s ''.''
      \<and> B \<inter> screen_span = {} \<and> span buf 34 \<inter> span data 1025 = {} \<and> span search 1025 \<inter> (span data 1025 \<union> span buf 34) = {}
      \<and> span (bootblock s) 4096 \<inter> (screen_span \<union> B) = {}
      \<and> data \<noteq> 0 \<and> unat data + 1025 \<le> 4294967296 \<and> buf \<noteq> 0 \<and> search \<noteq> 0 \<and> mem s (data + 1024) \<noteq> 10)"

lemma fresh_lowest: "user_ok s \<Longrightarrow> fresh s \<Longrightarrow> lowest_free s 2"
  using slot_ok_cur [of s 2] by (auto simp: user_ok_def fresh_def lowest_free_def slot_ok_def)

lemma argument_fetched:
  assumes "grep_ready lit data search buf pat names contents s"
  obtains s' where "ece391_getargs q search 1024 s = Returns 0 s'" "prints (span search 1025) s [] s'" "fresh s'"
    "cstring (mem s') search pat" "mem s' (data + 1024) \<noteq> 10"
proof -
  have g: "user_ok s" "cstring (mem s) (cmd_args s (cur s)) pat" "length pat \<le> 1024" "search \<noteq> 0"
      "span (cmd_args s (cur s)) 1024 \<inter> span search 1024 = {}" "span search (Suc 1024) \<inter> screen_span = {}"
      "span search 1025 \<inter> span data 1025 = {}" "span data 1025 \<inter> screen_span = {}" "fresh s" "mem s (data + 1024) \<noteq> 10"
    using assms by (auto simp: grep_ready_def Let_def)
  obtain s1 where s1: "ece391_getargs q search 1024 s = Returns 0 s1" "ground s1 = ground s" "cstring (mem s1) search pat"
      "prints (span search 1025) s [] s1"
    using getargs_stage [OF g(1-3) _ g(4-6), of q] by auto
  have "agree (span data 1025) (mem s1) (mem s)" by (rule printsD(5) [OF s1(4)]) (use g(7,8) in blast)
  then have "mem s1 (data + 1024) = mem s (data + 1024)" using span_add [of 1024 1025 data] by (simp add: agree_def)
  then show thesis using s1 g fresh_ground [OF s1(2)] by (intro that [of s1]) simp_all
qed

lemma directory_opened:
  assumes "user_ok s" and "fresh s" and "cstring (mem s) nm (bytes ''.'')" and "find_name s (bytes ''.'') = Some e" and "ftype e = FILE_TYPE_DIR"
  obtains s' where "ece391_open q nm s = Returns 2 s'" "prints {} s [] s'" "mem s' = mem s" "dir_pos s' 2 0" "lowest_free s' 3"
proof -
  obtain s1 where s1: "ece391_open q nm s = Returns (of_nat 2) s1" "prints {} s [] s1" "mem s1 = mem s" "fd_ready s1 2"
      "cur_fd s1 2 = \<lparr>fd_ops = Ops_file, inode_ptr = 0, file_position = 0, flags = 1\<rparr>" "\<forall>g. g \<noteq> 2 \<longrightarrow> cur_fd s1 g = cur_fd s g"
    using open_stage [OF assms(1,3,4) fresh_lowest [OF assms(1,2)], of 0 q] assms(5) by blast
  have "fd_ops (cur_fd s 3) = Ops_null" using slot_ok_cur [of s 3] assms(1,2) by (auto simp: user_ok_def fresh_def slot_ok_def)
  then have "lowest_free s1 3" using s1(5,6) by (auto simp: lowest_free_def less_Suc_eq numeral_eq_Suc)
  then show thesis using s1 by (intro that [of s1]) (simp_all add: dir_pos_def)
qed

lemma grep_prints:
  assumes "grep_ready lit data search buf pat names contents s"
  shows "\<exists>s'. grep_main q lit data search buf s = Some (Returns 0 s')
    \<and> prints (span data 1025 \<union> span buf 34 \<union> span search 1025) s (concat (map (found pat contents) names)) s'"
proof -
  let ?W = "span data 1025 \<union> span buf 34"
  let ?B = "?W \<union> span search 1025"
  obtain s1 where s1: "ece391_getargs q search 1024 s = Returns 0 s1" "prints (span search 1025) s [] s1" "fresh s1"
      "cstring (mem s1) search pat" "mem s1 (data + 1024) \<noteq> 10"
    by (rule argument_fetched [OF assms])
  have p1: "prints ?B s [] s1" by (rule prints_mono [OF s1(2)]) blast
  obtain e where e: "find_name s (bytes ''.'') = Some e" "ftype e = FILE_TYPE_DIR" using assms by (auto simp: grep_ready_def Let_def)
  have g: "user_ok s" "directory s names" "span (bootblock s) 4096 \<inter> (screen_span \<union> ?B) = {}" "unat (num_dir_entries s) \<le> 63"
    using assms by (simp_all add: grep_ready_def Let_def directory_def)
  have fe: "find_name s1 (bytes ''.'') = Some e"
    using find_name_agree [OF places_eqD(6) [OF printsD(3) [OF p1]] printsD(5) [OF p1 g(3)] g(4)] e(1) by simp
  have "literal lit ?B s1 ''.''" using assms literal_prints [OF _ p1] by (simp add: grep_ready_def Let_def)
  then obtain s2 where s2: "ece391_open q (lit ''.'') s1 = Returns 2 s2" "prints {} s1 [] s2" "mem s2 = mem s1" "dir_pos s2 2 0" "lowest_free s2 3"
    using directory_opened [OF printsD(1) [OF p1] s1(3) _ fe e(2)] by (auto simp: literal_def)
  have p2: "prints ?B s1 [] s2" by (rule prints_mono [OF s2(2)]) blast
  have p: "prints ?B s [] s2" using prints_trans [OF g(1) p1 p2] by simp
  have tf: "\<forall>nm \<in> set names. hd nm = 46 \<or> length nm \<le> 32 \<and> text_file s2 ?W nm (contents nm)"
    using assms text_file_mono [OF text_file_prints [OF _ p g(4)], of _ _ ?W] unfolding grep_ready_def Let_def by blast
  have "span search (Suc (length pat)) \<subseteq> span search 1025" using assms by (intro span_mono) (simp add: grep_ready_def Let_def)
  then have "span search (Suc (length pat)) \<inter> (screen_span \<union> ?W) = {}" using assms by (auto simp: grep_ready_def Let_def)
  moreover have "literal lit ?W s2 str" if "literal lit ?B s str" for str using literal_mono [OF literal_prints [OF that p]] by blast
  ultimately have "grep_dir lit search pat data buf names contents 3 s2"
    using assms tf directory_prints [OF g(2) p g(3)] s2(5) s1(4,5) printsD(1) [OF p] unfolding s2(3) [symmetric] grep_dir_def grep_ready_def Let_def by auto
  then obtain s' where s': "grep_loop q lit data search buf (of_nat 2) s2 = Some (Returns 0 s')"
      "prints ?W s2 (concat (map (found pat contents) (drop 0 names))) s'"
    using grep_loop_prints [OF _ s2(4)] by blast
  have "prints ?B s2 (concat (map (found pat contents) names)) s'" using prints_mono [OF s'(2), of ?B] by simp
  then have "prints ?B s ([] @ concat (map (found pat contents) names)) s'" by (rule prints_trans [OF g(1) p])
  moreover have "grep_main q lit data search buf s = Some (Returns 0 s')"
    using s1(1) s2(1) s'(1) by (simp add: grep_main_def)
  ultimately show ?thesis by auto
qed

end
