(* ===== verification/Kud_Notes.thy ===== *)
theory Kud_Notes
  imports Kud_Userland Kud_Grep
begin

text \<open>
  The search program on a machine whose file holds text: what grep prints over the whole
  directory.
\<close>

section \<open>A machine with a text\<close>

definition jotting :: "u8 list" where
  "jotting = bytes (''the cat sat'' @ [CHR 0x0A] @ ''a dog ran by'' @ [CHR 0x0A] @ ''the dog saw a cat'' @ [CHR 0x0A] @ ''they slept a lot!'')"

definition notes_machine :: "u8 list \<Rightarrow> sys_state" where
  "notes_machine args = (machine [] args)\<lparr>mem := store_bytes (mem (machine [] args)) 0x503000 jotting\<rparr>"

lemma notes_length: "length jotting = 60"
  by (simp add: jotting_def)

lemma notes_lines:
  "0 \<notin> set jotting" "\<forall>line \<in> set (text_lines jotting). length line \<le> 1023"
  "matches [102] (bytes ''cat'') jotting = bytes (''f:the cat sat'' @ [CHR 0x0A] @ ''f:the dog saw a cat'' @ [CHR 0x0A])"
proof -
  show "matches [102] (bytes ''cat'') jotting = bytes (''f:the cat sat'' @ [CHR 0x0A] @ ''f:the dog saw a cat'' @ [CHR 0x0A])" by code_simp
  have "list_all (\<lambda>line. length line \<le> 1023) (text_lines jotting)" by code_simp
  then show "\<forall>line \<in> set (text_lines jotting). length line \<le> 1023" by (simp only: list_all_iff)
  show "0 \<notin> set jotting" by code_simp
qed

lemma notes_prints: "prints (span 0x503000 60) (machine [] args) [] (notes_machine args)"
  unfolding notes_machine_def
  by (rule prints_mem [OF machine_user_ok]) (rule agree_store, simp_all add: notes_length, use machine_buffer(3) [of 0 "0x503000"] span_mono [of 60 4096 "0x503000"] in auto)

text \<open>Its file, directory and memory. The three buffers of the program lie in one page at 0x8100000.\<close>

lemma notes_agree:
  assumes "A \<inter> span 0x503000 60 = {}"
  shows "agree A (mem (notes_machine args)) (mem (machine [] args))"
  unfolding notes_machine_def using assms by (simp add: agree_store notes_length)

lemma notes_fields:
  "same_fs (notes_machine args) (machine [] args)" "ground (notes_machine args) = ground (machine [] args)"
  "bootblock (notes_machine args) = 0x500000" "cmd_args (notes_machine args) (cur (notes_machine args)) = 0x4502B9"
proof -
  have "cmd_args (notes_machine args) 1 = cmd_args (machine [] args) 1" by (simp add: notes_machine_def cmd_args_def pcb_at_def)
  then show "cmd_args (notes_machine args) (cur (notes_machine args)) = 0x4502B9"
    using machine_fields(4,7) [of "[]" args] by (simp add: notes_machine_def)
qed (simp_all add: notes_machine_def same_fs_def machine_fields)

lemma notes_file:
  assumes "length args < 128"
  shows "file_ok (notes_machine args) 1 60" "map (file_byte (notes_machine args) 1) [0..<60] = jotting"
    "disk (notes_machine args) 1 60 \<subseteq> span 0x500000 4096 \<union> span 0x502000 4096 \<union> span 0x503000 4096"
proof -
  let ?m = "machine [] args" and ?n = "notes_machine args"
  have at: "inode_at ?m 1 = 0x502000" by (simp add: inode_at_def machine_fields)
  have "span 0x502000 4096 \<inter> span 0x503000 60 = ({} :: u32 set)" by (rule span_below) simp_all
  then have "agree (span (inode_at ?m 1) 4096) (mem ?n) (mem ?m)" unfolding at by (rule notes_agree)
  note i = inode_agree [OF notes_fields(1) this]
  have l: "unat (inode_length ?n 1 (mem ?n)) = 60" using i(2) machine_file [OF assms] by (simp add: file_ok_def)
  have "contiguous ?n 1 60" by (rule contiguous_one) simp
  then show "file_ok ?n 1 60" using l i(1) at by (simp add: file_ok_def notes_machine_def machine_fields)
  have s: "same_fs proc_state1 sys_state1" by (simp add: proc_state1_def same_fs_def)
  have f: "file_addr ?n 1 j = 0x503000 + of_nat j" if "j < 60" for j
  proof -
    have "agree (span (inode_at proc_state1 1) 4096) (mem ?m) (mem proc_state1)"
      by (rule agree_sub [OF machine_disk(2) [OF assms]]) (auto simp: inode_at_def proc_state1_def sys_state1_def)
    then have "file_addr ?m 1 j = file_addr proc_state1 1 j" using inode_agree(4) [OF machine_disk(1)] that by simp
    moreover have "file_addr proc_state1 1 j = file_addr sys_state1 1 j"
      using inode_agree(4) [OF s, of 1 j] that by (simp add: proc_state1_def agree_def)
    ultimately show ?thesis using sys_state1_file(4) [of j] i(4) [of j] that by simp
  qed
  have "load_bytes (mem ?n) 0x503000 60 = jotting"
    using load_store_bytes [of jotting "mem ?m" "0x503000"] by (simp add: notes_machine_def notes_length)
  moreover have "map (file_byte ?n 1) [0..<60] = load_bytes (mem ?n) 0x503000 60"
    unfolding load_bytes_def file_byte_def by (intro map_cong refl) (simp add: f)
  ultimately show "map (file_byte ?n 1) [0..<60] = jotting" by simp
  have "file_addr ?n 1 ` {..<60} \<subseteq> span 0x503000 4096" using f span_add [of _ 4096 "0x503000"] by auto
  then show "disk ?n 1 60 \<subseteq> span 0x500000 4096 \<union> span 0x502000 4096 \<union> span 0x503000 4096"
    using i(1) at notes_fields(3) by (auto simp: disk_def)
qed

lemma notes_buffers:
  "span 0x8100000 1025 \<union> span 0x8100500 34 \<union> span 0x8100600 1025 \<subseteq> (span 0x8100000 4096 :: u32 set)"
  "span 0x8100500 34 \<inter> span 0x8100000 1025 = ({} :: u32 set)"
  "span 0x8100600 1025 \<inter> (span 0x8100000 1025 \<union> span 0x8100500 34) = ({} :: u32 set)"
proof -
  show "span 0x8100000 1025 \<union> span 0x8100500 34 \<union> span 0x8100600 1025 \<subseteq> (span 0x8100000 4096 :: u32 set)"
    using span_sub [of 0 1025 4096 "0x8100000"] span_sub [of "0x500" 34 4096 "0x8100000"] span_sub [of "0x600" 1025 4096 "0x8100000"] by simp
  have "span 0x8100000 1025 \<inter> span 0x8100500 34 = ({} :: u32 set)" "span 0x8100000 1025 \<inter> span 0x8100600 1025 = ({} :: u32 set)"
    "span 0x8100500 34 \<inter> span 0x8100600 1025 = ({} :: u32 set)" by (rule span_below; simp)+
  then show "span 0x8100500 34 \<inter> span 0x8100000 1025 = ({} :: u32 set)"
    "span 0x8100600 1025 \<inter> (span 0x8100000 1025 \<union> span 0x8100500 34) = ({} :: u32 set)" by blast+
qed

lemma notes_clear:
  assumes "length args < 128" and "B \<subseteq> span 0x8100000 4096"
  shows "B \<inter> screen_span = {}" "apart_from B (notes_machine args) 1 60" "span (bootblock (notes_machine args)) 4096 \<inter> (screen_span \<union> B) = {}"
    "str \<in> set machine_literals \<Longrightarrow> literal machine_lit B (notes_machine args) str"
proof -
  note b = machine_buffer(1-3) [of 4096, OF order_refl]
  show "B \<inter> screen_span = {}" using b(1) assms(2) by blast
  show "span (bootblock (notes_machine args)) 4096 \<inter> (screen_span \<union> B) = {}" unfolding notes_fields using b(3) [of "0x500000"] assms(2) by blast
  show "apart_from B (notes_machine args) 1 60"
    unfolding apart_from_def using notes_file(3) [OF assms(1)] assms(2) b(1) b(3) [of "0x500000"] b(3) [of "0x502000"] b(3) [of "0x503000"] by blast
  have "span 0x503000 60 \<inter> span 0x8200000 512 = ({} :: u32 set)" by (rule span_below) simp_all
  then have "span 0x8200000 512 \<inter> (B \<union> span 0x503000 60) = {}" using b(2) assms(2) by blast
  then have l: "literal machine_lit (B \<union> span 0x503000 60) (machine [] args) str" if "str \<in> set machine_literals" by (rule machine_literal [OF that])
  have "prints (B \<union> span 0x503000 60) (machine [] args) [] (notes_machine args)" by (rule prints_mono [OF notes_prints]) blast
  then show "str \<in> set machine_literals \<Longrightarrow> literal machine_lit B (notes_machine args) str"
    using literal_mono [OF literal_prints [OF l]] by blast
qed

lemma notes_names:
  assumes "length args < 128"
  shows "directory (notes_machine args) [[46], [102]]" "find_name (notes_machine args) name = find_name (machine [] args) name"
proof -
  have "span 0x500000 4096 \<inter> span 0x503000 60 = ({} :: u32 set)" by (rule span_below) simp_all
  then have c: "span (bootblock (machine [] args)) 4096 \<inter> (screen_span \<union> span 0x503000 60) = {}"
    using machine_buffer(3) [of 0 "0x500000"] by (auto simp: machine_fields)
  show "directory (notes_machine args) [[46], [102]]" by (rule directory_prints(1) [OF machine_directory [OF assms] notes_prints c])
  show "find_name (notes_machine args) name = find_name (machine [] args) name"
    using find_name_agree [OF notes_fields(1) printsD(5) [OF notes_prints c]] machine_find(2) [OF assms] by simp
qed

section \<open>The search\<close>


lemma notes_ready:
  assumes "0 \<notin> set pat" and "length pat < 128"
  shows "grep_ready machine_lit 0x8100000 0x8100600 0x8100500 pat [[46], [102]] (\<lambda>_. jotting) (notes_machine pat)"
proof -
  let ?s = "notes_machine pat" and ?B = "span 0x8100000 1025 \<union> span 0x8100500 34 \<union> span 0x8100600 1025 :: u32 set"
  have u: "user_ok ?s" by (rule printsD(1) [OF notes_prints])
  have "fresh (machine [] pat)" by (simp add: fresh_def machine_fd null_fd_def)
  then have fr: "fresh ?s" using fresh_ground [OF notes_fields(2) [of pat]] by simp
  note c = notes_clear [OF assms(2) notes_buffers(1)]
  have dot: "find_name ?s (bytes ''.'') = Some (load_dentry image1 0x500040)" and f: "find_name ?s [102] = Some (load_dentry image1 0x500080)"
    by (simp_all add: notes_names(2) [OF assms(2)] machine_find [OF assms(2)] bytes_def)
  have tf: "text_file ?s ?B [102] jotting"
    unfolding text_file_def using f machine_names(7,8) notes_file(1,2) [OF assms(2)] c(2) notes_lines(1,2)
    by (intro exI [of _ "load_dentry image1 0x500080"] exI [of _ 60]) simp
  have lits: "'':'' \<in> set machine_literals" "[CHR 0x0A] \<in> set machine_literals" "''.'' \<in> set machine_literals"
    by (simp_all add: machine_literals_def suite_lits_def)
  have low: "span 0x4502B9 n \<inter> span 0x503000 60 = ({} :: u32 set)" if "n \<le> 1024" for n using that by (intro span_below) simp_all
  have "cstring (mem ?s) 0x4502B9 pat"
    by (rule cstring_agree [OF machine_args [OF assms] notes_agree]) (use low [of "Suc (length pat)"] assms(2) in simp)
  moreover have "span 0x4502B9 1024 \<inter> span 0x8100600 1024 = ({} :: u32 set)"
    by (rule span_below) simp_all
  moreover have "mem ?s (0x8100000 + 1024) \<noteq> 10"
  proof -
    have "{0x8100400} \<inter> (span 0x4502B9 128 \<union> span 0x8200000 512) = ({} :: u32 set)" "{0x8100400} \<inter> span 0x503000 60 = ({} :: u32 set)"
      by (simp_all add: span_def)
    then have "mem ?s 0x8100400 = image1 0x8100400" using notes_agree machine_agree [OF _ assms(2)] unfolding agree_def by (metis singletonI)
    then show ?thesis by (simp add: image1_def image0_def)
  qed
  ultimately show ?thesis
    using u fr notes_names(1) [OF assms(2)] dot machine_names(6) tf assms(2) c(1,3) c(4) [OF lits(1)] c(4) [OF lits(2)] c(4) [OF lits(3)] notes_buffers(2,3)
    unfolding grep_ready_def Let_def notes_fields(4) by simp
qed


end
