(* ===== verification/Kud_Pingpong.thy ===== *)
theory Kud_Pingpong
  imports Kud_User
begin

unbundle bit_operations_syntax

text \<open>
  The animation \<^verbatim>\<open>src/syscalls/ece391pingpong.c\<close>: a letter moves between two walls, one
  column with every interrupt of the clock, whose rate the program sets to 32 Hz. The program
  never ends; the model runs it for a number of rounds, each across the screen and back.
\<close>

section \<open>The program\<close>

function pingpong_clear :: "mem \<Rightarrow> u32 \<Rightarrow> int \<Rightarrow> int \<Rightarrow> mem" where
  "pingpong_clear m buf i lim = (if i < lim then pingpong_clear (m(buf + of_int i := 32)) buf (i + 1) lim else m)"
  by pat_completeness auto
termination by (relation "measure (\<lambda>(m, buf, i, lim). nat (lim - i))") auto

declare pingpong_clear.simps [simp del]

text \<open>One picture: the letter in column \<open>j\<close>, and the wait for the clock.\<close>

definition pingpong_frame :: "nat \<Rightarrow> u32 \<Rightarrow> u32 \<Rightarrow> u32 \<Rightarrow> u8 \<Rightarrow> int \<Rightarrow> 'a sys_state_scheme \<Rightarrow> 'a sys_state_scheme outcome" where
  "pingpong_frame q buf rtc_fd garbage curchar j s =
     (let m = pingpong_clear (mem s) buf 2 78;
          s = s\<lparr>mem := m(buf + of_int j := curchar)\<rparr>
      in and_then (ece391_fdputs q 1 buf s) (\<lambda>_ s. ece391_read q rtc_fd garbage 4 s))"

function pingpong_out :: "nat \<Rightarrow> u32 \<Rightarrow> u32 \<Rightarrow> u32 \<Rightarrow> u8 \<Rightarrow> int \<Rightarrow> 'a sys_state_scheme \<Rightarrow> 'a sys_state_scheme outcome" where
  "pingpong_out q buf rtc_fd garbage curchar j s =
     (if j < 78 then and_then (pingpong_frame q buf rtc_fd garbage curchar j s) (\<lambda>_ s. pingpong_out q buf rtc_fd garbage curchar (j + 1) s)
      else Returns 0 s)"
  by pat_completeness auto
termination by (relation "measure (\<lambda>(q, buf, rtc_fd, garbage, curchar, j, s). nat (78 - j))") auto

function pingpong_back :: "nat \<Rightarrow> u32 \<Rightarrow> u32 \<Rightarrow> u32 \<Rightarrow> u8 \<Rightarrow> int \<Rightarrow> 'a sys_state_scheme \<Rightarrow> 'a sys_state_scheme outcome" where
  "pingpong_back q buf rtc_fd garbage curchar j s =
     (if j \<ge> 2 then and_then (pingpong_frame q buf rtc_fd garbage curchar j s) (\<lambda>_ s. pingpong_back q buf rtc_fd garbage curchar (j - 1) s)
      else Returns 0 s)"
  by pat_completeness auto
termination by (relation "measure (\<lambda>(q, buf, rtc_fd, garbage, curchar, j, s). nat (j - 1))") auto

declare pingpong_out.simps [simp del] pingpong_back.simps [simp del]

definition next_char :: "u8 \<Rightarrow> u8" where
  "next_char curchar = (if curchar = 90 then 65 else curchar + 1)"

fun pingpong_rounds :: "nat \<Rightarrow> nat \<Rightarrow> u32 \<Rightarrow> u32 \<Rightarrow> u32 \<Rightarrow> u8 \<Rightarrow> 'a sys_state_scheme \<Rightarrow> 'a sys_state_scheme outcome" where
  "pingpong_rounds q 0 buf rtc_fd garbage curchar s = Returns 0 s"
| "pingpong_rounds q (Suc n) buf rtc_fd garbage curchar s =
     and_then (pingpong_out q buf rtc_fd garbage curchar 2 s) (\<lambda>_ s.
     and_then (pingpong_back q buf rtc_fd garbage curchar 77 s) (\<lambda>_ s.
     pingpong_rounds q n buf rtc_fd garbage (next_char curchar) s))"

definition pingpong_walls :: "mem \<Rightarrow> u32 \<Rightarrow> mem" where
  "pingpong_walls m buf =
     (let m = pingpong_clear m buf 0 81
      in m(buf + 80 := 0, buf + 79 := 10, buf + 78 := 124, buf + 1 := 124))"

definition pingpong_main :: "nat \<Rightarrow> nat \<Rightarrow> (string \<Rightarrow> u32) \<Rightarrow> u32 \<Rightarrow> u32 \<Rightarrow> u32 \<Rightarrow> 'a sys_state_scheme \<Rightarrow> 'a sys_state_scheme outcome" where
  "pingpong_main q n lit buf ret_val garbage s =
     (let s = s\<lparr>mem := pingpong_walls (mem s) buf\<rparr> in
      and_then (ece391_open q (lit ''rtc'') s) (\<lambda>rtc_fd s.
      let s = s\<lparr>mem := store32 (mem s) ret_val 32\<rparr> in
      and_then (ece391_write q rtc_fd ret_val 4 s) (\<lambda>r s.
      let s = s\<lparr>mem := store32 (mem s) ret_val r\<rparr> in
      pingpong_rounds q n buf rtc_fd garbage 65 s)))"

section \<open>The clock as a file\<close>

definition clock_fd :: "'a pcb_state_scheme \<Rightarrow> nat \<Rightarrow> bool" where
  "clock_fd s fd \<longleftrightarrow> 2 \<le> fd \<and> fd < 8 \<and> flags (cur_fd s fd) \<noteq> 0 \<and> fd_ops (cur_fd s fd) = Ops_rtc"

text \<open>The driver touches its two flags and the ports, and nothing a program can see.\<close>

definition unseen :: "'a sys_state_scheme \<Rightarrow> 'a sys_state_scheme \<Rightarrow> bool" where
  "unseen s s' \<longleftrightarrow> (\<exists>l sm a b. s' = s\<lparr>iolog := l, slave_mask := sm, rtc_sync_flag := a, rtc_read_flag := b\<rparr>)"

lemma unseen_refl: "unseen s s"
  unfolding unseen_def by (intro exI [of _ "iolog s"] exI [of _ "slave_mask s"] exI [of _ "rtc_sync_flag s"] exI [of _ "rtc_read_flag s"]) simp

lemma unseen_trans: "unseen s s1 \<Longrightarrow> unseen s1 s2 \<Longrightarrow> unseen s s2"
  unfolding unseen_def by (elim exE) (simp, blast)

lemma unseen_handler: "unseen s (rtc_handler s)"
  unfolding unseen_def rtc_handler_def send_eoi_def outb_def inb_def Let_def
  by (intro exI [of _ "iolog (rtc_handler s)"] exI [of _ "slave_mask s"] exI [of _ "rtc_sync_flag (rtc_handler s)"] exI [of _ "rtc_read_flag s"])
    (simp add: rtc_handler_def send_eoi_def outb_def inb_def Let_def)

lemma unseen_wait: "rtc_wait n s = Some s' \<Longrightarrow> unseen s s'"
proof (induction n arbitrary: s)
  case 0
  then show ?case by (simp add: unseen_refl split: if_splits)
next
  case (Suc n)
  then show ?case using unseen_trans [OF unseen_handler] by (auto simp: unseen_refl split: if_splits)
qed

lemma unseen_read:
  assumes "rtc_read n fd buf k s = Some (r, s')"
  shows "unseen s s'"
proof -
  obtain t where t: "rtc_wait n (s\<lparr>rtc_read_flag := 1\<rparr>) = Some t" "s' = t\<lparr>rtc_sync_flag := 0, rtc_read_flag := 0\<rparr>"
    using assms by (auto simp: rtc_read_def split: option.splits)
  from unseen_wait [OF t(1)] show ?thesis unfolding unseen_def t(2) by (elim exE) (simp, blast)
qed

lemma unseen_write:
  assumes "rtc_write m fd buf k s = (r, s')"
  shows "unseen s s'"
proof -
  have "unseen s (enable_irq 8 (rtc_set_rate v (disable_irq 8 s)))" for v
    unfolding unseen_def
    by (rule exI [of _ "iolog (enable_irq 8 (rtc_set_rate v (disable_irq 8 s)))"], rule exI [of _ "slave_mask (enable_irq 8 (rtc_set_rate v (disable_irq 8 s)))"],
        rule exI [of _ "rtc_sync_flag s"], rule exI [of _ "rtc_read_flag s"])
      (simp add: enable_irq_def disable_irq_def rtc_set_rate_def inb_def outb_def Let_def)
  then show ?thesis using assms by (auto simp: rtc_write_def Let_def unseen_refl split: if_splits)
qed

lemma unseen_prints:
  assumes "unseen s s'" and "user_ok s"
  shows "prints {} s [] s'" "ground s' = ground s" "mem s' = mem s"
proof -
  obtain l sm a b where e: "s' = s\<lparr>iolog := l, slave_mask := sm, rtc_sync_flag := a, rtc_read_flag := b\<rparr>" using assms(1) by (auto simp: unseen_def)
  show g: "ground s' = ground s" and m: "mem s' = mem s" unfolding e by (simp_all add: ground_def kern_def places_def)
  have "term_ok s'" "display s' = display s" using assms(2) unfolding e by (simp_all add: user_ok_def term_ok_def term_base_def display_def cells_def)
  then show "prints {} s [] s'"
    using user_ok_ground [OF assms(2) g] groundD(2) [OF g] kern_procs [OF groundD(1) [OF g]] m by (simp add: prints_def agree_def)
qed

lemma clock_read:
  assumes "user_ok s" and "clock_fd s fd" and "buf \<noteq> 0"
  obtains s' where "ece391_read (Suc q) (of_nat fd) buf n s = Returns 0 s'" "ground s' = ground s" "mem s' = mem s" "prints {} s [] s'"
proof -
  have f: "2 \<le> fd" "fd < 8" "flags (cur_fd s fd) \<noteq> 0" "fd_ops (cur_fd s fd) = Ops_rtc" using assms(2) by (simp_all add: clock_fd_def)
  have sf: "sint (of_nat fd :: u32) = int fd" using f(2) by (intro sint_of_nat32) simp
  obtain t where "rtc_wait (Suc q) (s\<lparr>rtc_read_flag := 1\<rparr>) = Some t" using rtc_wait_Suc_returns [of "s\<lparr>rtc_read_flag := 1\<rparr>" q] by auto
  then obtain s' where s': "rtc_read (Suc q) (of_nat fd) buf (sint n) s = Some (0, s')" by (simp add: rtc_read_def)
  have "ops_ready s" using assms(1) by (simp add: user_ok_def files_ok_def)
  then have "ece391_read (Suc q) (of_nat fd) buf n s = Returns 0 s'"
    using f assms(3) s' by (simp add: ece391_read_def syscall_handler_def sf sys_read_def fd_flags_def FD_MAX_IDX_def call_read_def ops_ready_def)
  then show thesis using unseen_prints [OF unseen_read [OF s'] assms(1)] by (intro that)
qed

lemma clock_write:
  assumes "user_ok s" and "clock_fd s fd" and "buf \<noteq> 0"
  obtains r s' where "ece391_write q (of_nat fd) buf n s = Returns r s'" "ground s' = ground s" "mem s' = mem s" "prints {} s [] s'"
    "rtc_write (mem s) (of_nat fd) buf (sint n) s = (r, s')"
proof -
  have f: "2 \<le> fd" "fd < 8" "flags (cur_fd s fd) \<noteq> 0" "fd_ops (cur_fd s fd) = Ops_rtc" using assms(2) by (simp_all add: clock_fd_def)
  have sf: "sint (of_nat fd :: u32) = int fd" using f(2) by (intro sint_of_nat32) simp
  have "files_ok s" using assms(1) by (simp add: user_ok_def)
  then obtain c where c: "current_pcb s = Some c" "c < 7" "ops_ready s" "program_id (pcbs s ! c) = of_nat c" by (rule files_okD)
  have cf: "cur_fd s fd = file_array (pcbs s ! c) ! fd" using c(1) by (simp add: cur_fd_def)
  obtain r s' where s': "rtc_write (mem s) (of_nat fd) buf (sint n) s = (r, s')" by fastforce
  then have "ece391_write q (of_nat fd) buf n s = Returns r s'"
    using f assms(3) c by (simp add: ece391_write_def syscall_handler_def sf sys_write_def fd_flags_def cf unat_of_nat32
        MAX_PROCESSES_def FD_MAX_IDX_def call_write_def ops_ready_def)
  then show thesis using s' unseen_prints [OF unseen_write [OF s'] assms(1)] by (intro that)
qed

lemma clock_fd_ground: "ground s' = ground s \<Longrightarrow> clock_fd s' fd = clock_fd s fd"
proof -
  assume "ground s' = ground s"
  from kern_eqD(1,2) [OF groundD(1) [OF this]] show ?thesis by (simp add: clock_fd_def cur_fd_def)
qed

section \<open>The pictures\<close>

definition frame_text :: "u8 \<Rightarrow> nat \<Rightarrow> u8 list" where
  "frame_text c j = [32, 124] @ (replicate 76 32)[j - 2 := c] @ [124, 10]"

definition round_text :: "u8 \<Rightarrow> u8 list" where
  "round_text c = concat (map (frame_text c) ([2..<78] @ rev [2..<78]))"

text \<open>The frame of the field, which the program leaves alone while it moves the letter.\<close>

definition field :: "mem \<Rightarrow> u32 \<Rightarrow> bool" where
  "field m buf \<longleftrightarrow> m buf = 32 \<and> m (buf + 1) = 124 \<and> m (buf + 78) = 124 \<and> m (buf + 79) = 10 \<and> m (buf + 80) = 0"

lemma pingpong_clear_filled:
  assumes "i \<le> lim" and "lim \<le> 81"
  shows "pingpong_clear m buf (int i) (int lim) = filled m (buf + of_nat i) (lim - i) (\<lambda>_. 32)"
  using assms(1)
proof (induction "lim - i" arbitrary: i m)
  case 0
  then show ?case by (subst pingpong_clear.simps) (simp add: filled_def)
next
  case (Suc n)
  then have i: "i < lim" "n = lim - Suc i" by simp_all
  have "pingpong_clear m buf (int i) (int lim) = pingpong_clear (m(buf + of_nat i := 32)) buf (int (Suc i)) (int lim)"
    using i(1) by (subst pingpong_clear.simps) (simp add: add.commute)
  also have "\<dots> = filled (m(buf + of_nat i := 32)) (buf + of_nat (Suc i)) (lim - Suc i) (\<lambda>_. 32)"
    using Suc.hyps(1) [OF i(2)] i(1) by simp
  also have "\<dots> = filled m (buf + of_nat i) (lim - i) (\<lambda>_. 32)"
  proof
    fix a
    have z: "unat (a - (buf + of_nat i)) = 0 \<longleftrightarrow> a = buf + of_nat i" by (auto simp: unat_eq_0)
    moreover have "unat (a - (buf + of_nat i)) = Suc (unat (a - (buf + of_nat (Suc i))))" if "a \<noteq> buf + of_nat i"
    proof -
      have "unat (a - (buf + of_nat i)) \<noteq> 0" using z that by simp
      moreover have "unat (a - (buf + of_nat (Suc i))) = unat (a - (buf + of_nat i)) - 1"
        using unat_minus_one [of "a - (buf + of_nat i)"] that by (simp add: algebra_simps)
      ultimately show ?thesis by linarith
    qed
    ultimately show "filled (m(buf + of_nat i := 32)) (buf + of_nat (Suc i)) (lim - Suc i) (\<lambda>_. 32) a = filled m (buf + of_nat i) (lim - i) (\<lambda>_. 32) a"
      using i(1) by (auto simp: filled_def)
  qed
  finally show ?case .
qed

lemma filled_within:
  assumes "k \<le> 81" and "i \<le> lim" and "lim \<le> 81"
  shows "filled m (buf + of_nat i) (lim - i) f (buf + of_nat k) = (if i \<le> k \<and> k < lim then f (k - i) else m (buf + of_nat k))"
proof (cases "i \<le> k")
  case True
  then have "unat (buf + of_nat k - (buf + of_nat i)) = k - i"
    using assms unat_of_nat32 [of "k - i"] by (simp add: of_nat_diff)
  then show ?thesis using True by (auto simp: filled_def)
next
  case False
  have "unat (of_nat (4294967296 + k - i) :: u32) = 4294967296 + k - i" using False by (intro unat_of_nat32) simp
  moreover have "(of_nat (4294967296 + k - i) :: u32) = buf + of_nat k - (buf + of_nat i)" using assms by (simp add: of_nat_diff)
  ultimately have u: "unat (buf + of_nat k - (buf + of_nat i)) = 4294967296 + k - i" by simp
  have "lim - i \<le> 4294967296 + k - i" using assms(3) by linarith
  then show ?thesis using False unfolding filled_def u by simp
qed

definition pictured :: "mem \<Rightarrow> u32 \<Rightarrow> u8 \<Rightarrow> nat \<Rightarrow> mem" where
  "pictured m buf c j = (pingpong_clear m buf 2 78)(buf + of_nat j := c)"

lemma pictured_at:
  assumes "2 \<le> j" and "j < 78" and "k \<le> 81"
  shows "pictured m buf c j (buf + of_nat k) = (if k = j then c else if 2 \<le> k \<and> k < 78 then 32 else m (buf + of_nat k))"
proof -
  have "(of_nat k :: u32) = of_nat j \<longleftrightarrow> k = j" using of_nat32_inj [of k j] assms by auto
  then show ?thesis using filled_within [OF assms(3), of 2 78 m buf "\<lambda>_. 32"] pingpong_clear_filled [of 2 78 m buf]
    by (simp add: pictured_def)
qed

lemma nth_frame_text:
  assumes "2 \<le> j" and "j < 78" and "k < 80"
  shows "frame_text c j ! k = (if k = j then c else if k = 0 then 32 else if k = 1 then 124 else if k < 78 then 32 else if k = 78 then 124 else 10)"
proof -
  consider "k < 2" | "2 \<le> k" "k < 78" | "78 \<le> k" by linarith
  then show ?thesis
  proof cases
    case 1
    then have "k = 0 \<or> k = 1" by auto
    then show ?thesis using assms by (auto simp: frame_text_def)
  next
    case 2
    then have i: "k = (k - 2) + 2" "k - 2 < 76" by simp_all
    define i where "i = k - 2"
    have "k = Suc (Suc i)" "i < 76" "j - 2 = i \<longleftrightarrow> k = j" using i assms(1) by (auto simp: i_def)
    then show ?thesis using assms by (auto simp: frame_text_def nth_append nth_list_update)
  next
    case 3
    then have "k = 78 \<or> k = 79" using assms(3) by auto
    then show ?thesis using assms by (auto simp: frame_text_def nth_append)
  qed
qed

lemma length_frame_text: "length (frame_text c j) = 80"
  by (simp add: frame_text_def)

lemma pictured_string:
  assumes "field m buf" and "2 \<le> j" and "j < 78" and "c \<noteq> 0"
  shows "cstring (pictured m buf c j) buf (frame_text c j)" "field (pictured m buf c j) buf"
    "agree (- span buf 81) (pictured m buf c j) m"
proof -
  note p = pictured_at [OF assms(2,3), where m = m and buf = buf and c = c]
  show "field (pictured m buf c j) buf"
    using p [of 0] p [of 1] p [of 78] p [of 79] p [of 80] assms by (simp add: field_def)
  show "cstring (pictured m buf c j) buf (frame_text c j)"
  proof (rule cstringI)
    fix k
    assume k: "k < length (frame_text c j)"
    then have "m (buf + of_nat k) = (if k = 0 then 32 else if k = 1 then 124 else if k = 78 then 124 else 10)" if "\<not> (2 \<le> k \<and> k < 78)"
    proof -
      have "k = 0 \<or> k = 1 \<or> k = 78 \<or> k = 79" using k that unfolding length_frame_text by linarith
      then show ?thesis using assms(1) by (auto simp: field_def)
    qed
    then show "pictured m buf c j (buf + of_nat k) = frame_text c j ! k"
      using k p [of k] nth_frame_text [OF assms(2,3), of k c] unfolding length_frame_text by auto
  next
    show "pictured m buf c j (buf + of_nat (length (frame_text c j))) = 0" using p [of 80] assms unfolding length_frame_text by (simp add: field_def)
    show "0 \<notin> set (frame_text c j)" using assms(4) set_update_subset_insert [of "replicate 76 32" "j - 2" c] by (auto simp: frame_text_def)
  qed (simp add: length_frame_text)
  have "span (buf + of_nat 2) 76 \<subseteq> span buf 81" "buf + of_nat j \<in> span buf 81" using span_sub [of 2 76 81 buf] span_add [of j 81 buf] assms(3) by simp_all
  then show "agree (- span buf 81) (pictured m buf c j) m"
    using agree_filled [of "- span buf 81" "buf + of_nat 2" 76 m "\<lambda>_. 32"] pingpong_clear_filled [of 2 78 m buf]
    by (auto simp: pictured_def agree_def)
qed

lemma field_agree: "agree (span buf 81) m' m \<Longrightarrow> field m' buf = field m buf"
  using span_add [of 0 81 buf] span_add [of 1 81 buf] span_add [of 78 81 buf] span_add [of 79 81 buf] span_add [of 80 81 buf]
  by (simp add: field_def agree_def)

definition animating :: "u32 \<Rightarrow> nat \<Rightarrow> 'a sys_state_scheme \<Rightarrow> bool" where
  "animating buf fd s \<longleftrightarrow> user_ok s \<and> field (mem s) buf \<and> clock_fd s fd \<and> buf \<noteq> 0 \<and> span buf 81 \<inter> screen_span = {}"

text \<open>A piece of the animation: it shows \<open>cs\<close> and leaves the program ready for the next picture.\<close>

definition shows_next :: "u32 \<Rightarrow> nat \<Rightarrow> 'a sys_state_scheme \<Rightarrow> u8 list \<Rightarrow> 'a sys_state_scheme outcome \<Rightarrow> bool" where
  "shows_next buf fd s cs out \<longleftrightarrow> (\<exists>s'. out = Returns 0 s' \<and> prints (span buf 81) s cs s' \<and> animating buf fd s')"

lemma shows_next_done: "animating buf fd s \<Longrightarrow> shows_next buf fd s [] (Returns 0 s)"
  using prints_refl by (auto simp: shows_next_def animating_def)

lemma shows_next_then:
  assumes "shows_next buf fd s cs out" and "user_ok s" and "\<And>s'. animating buf fd s' \<Longrightarrow> shows_next buf fd s' ds (k 0 s')"
  shows "shows_next buf fd s (cs @ ds) (and_then out k)"
proof -
  obtain s' where s': "out = Returns 0 s'" "prints (span buf 81) s cs s'" "animating buf fd s'" using assms(1) by (auto simp: shows_next_def)
  show ?thesis using assms(3) [OF s'(3)] s'(1) prints_trans [OF assms(2) s'(2)] by (auto simp: shows_next_def)
qed

lemma frame_shown:
  assumes "animating buf fd s" and "garbage \<noteq> 0" and "2 \<le> j" and "j < 78" and "c \<noteq> 0"
  shows "shows_next buf fd s (frame_text c j) (pingpong_frame (Suc q) buf (of_nat fd) garbage c (int j) s)"
proof -
  have a: "user_ok s" "field (mem s) buf" "clock_fd s fd" "buf \<noteq> 0" "span buf 81 \<inter> screen_span = {}" using assms(1) by (simp_all add: animating_def)
  let ?m = "pictured (mem s) buf c j"
  let ?s = "s\<lparr>mem := ?m\<rparr>"
  note t = pictured_string [OF a(2) assms(3-5)]
  have p: "prints (span buf 81) s [] ?s" by (rule prints_mem [OF a(1) t(3) a(5)])
  have c: "cstring (mem ?s) buf (frame_text c j)" using t(1) by simp
  have off: "span buf (length (frame_text c j)) \<inter> screen_span = {}" using a(5) span_mono [of 80 81 buf] by (auto simp: length_frame_text)
  obtain s1 where s1: "ece391_fdputs (Suc q) 1 buf ?s = Returns 0 s1" "ground s1 = ground ?s" "prints {} ?s (frame_text c j) s1"
    by (rule fdputs_stdout [OF printsD(1) [OF p] a(4) c _ off]) (simp add: length_frame_text)
  have cf: "clock_fd s1 fd" using a(3) clock_fd_ground [OF s1(2)] clock_fd_ground [of ?s s] by simp
  obtain s2 where s2: "ece391_read (Suc q) (of_nat fd) garbage 4 s1 = Returns 0 s2" "ground s2 = ground s1" "mem s2 = mem s1" "prints {} s1 [] s2"
    by (rule clock_read [OF printsD(1) [OF s1(3)] cf assms(2)])
  have m1: "agree (span buf 81) (mem s1) ?m" using printsD(5) [OF s1(3), of "span buf 81"] a(5) by simp
  then have "field (mem s2) buf" using t(2) s2(3) field_agree [OF m1] by simp
  then have "animating buf fd s2" using printsD(1) [OF s2(4)] cf clock_fd_ground [OF s2(2)] a by (simp add: animating_def)
  moreover have "prints (span buf 81) s ([] @ frame_text c j @ []) s2"
    by (rule prints_join [OF a(1) p prints_mono [OF s1(3)] prints_mono [OF s2(4)]]) simp_all
  ultimately show ?thesis using s1(1) s2(1) by (auto simp: shows_next_def pingpong_frame_def pictured_def)
qed

lemma out_shown:
  assumes "animating buf fd s" and "garbage \<noteq> 0" and "2 \<le> j" and "j \<le> 78" and "c \<noteq> 0"
  shows "shows_next buf fd s (concat (map (frame_text c) [j..<78])) (pingpong_out (Suc q) buf (of_nat fd) garbage c (int j) s)"
  using assms
proof (induction "78 - j" arbitrary: j s)
  case 0
  then show ?case using shows_next_done [OF 0(2)] by (subst pingpong_out.simps) simp
next
  case (Suc n)
  then have j: "j < 78" "n = 78 - Suc j" by simp_all
  have u: "user_ok s" using Suc.prems(1) by (simp add: animating_def)
  have "pingpong_out (Suc q) buf (of_nat fd) garbage c (int j) s
      = and_then (pingpong_frame (Suc q) buf (of_nat fd) garbage c (int j) s) (\<lambda>_ s. pingpong_out (Suc q) buf (of_nat fd) garbage c (int (Suc j)) s)"
    using j(1) by (subst pingpong_out.simps) (simp add: add.commute)
  moreover have "[j..<78] = j # [Suc j..<78]" using j(1) by (simp add: upt_conv_Cons)
  moreover have "shows_next buf fd s (frame_text c j @ concat (map (frame_text c) [Suc j..<78]))
      (and_then (pingpong_frame (Suc q) buf (of_nat fd) garbage c (int j) s) (\<lambda>_ s. pingpong_out (Suc q) buf (of_nat fd) garbage c (int (Suc j)) s))"
    by (rule shows_next_then [OF frame_shown [OF Suc.prems(1-3) j(1) Suc.prems(5)] u], rule Suc.hyps(1) [OF j(2)])
      (use Suc.prems j(1) in simp_all)
  ultimately show ?case by simp
qed

lemma back_shown:
  assumes "animating buf fd s" and "garbage \<noteq> 0" and "j < 78" and "c \<noteq> 0" and "1 \<le> j"
  shows "shows_next buf fd s (concat (map (frame_text c) (rev [2..<Suc j]))) (pingpong_back (Suc q) buf (of_nat fd) garbage c (int j) s)"
  using assms
proof (induction "j - 1" arbitrary: j s)
  case 0
  then show ?case using shows_next_done [OF 0(2)] by (subst pingpong_back.simps) simp
next
  case (Suc n)
  then have j: "2 \<le> j" "n = j - 1 - 1" "1 \<le> j - 1" "int j - 1 = int (j - 1)" "Suc (j - 1) = j" by simp_all
  have u: "user_ok s" using Suc.prems(1) by (simp add: animating_def)
  have "pingpong_back (Suc q) buf (of_nat fd) garbage c (int j) s
      = and_then (pingpong_frame (Suc q) buf (of_nat fd) garbage c (int j) s) (\<lambda>_ s. pingpong_back (Suc q) buf (of_nat fd) garbage c (int (j - 1)) s)"
    using j(1) unfolding pingpong_back.simps [of "Suc q" buf "of_nat fd" garbage c "int j" s] j(4) by simp
  moreover have "rev [2..<Suc j] = j # rev [2..<j]" using j(1) by simp
  moreover have "shows_next buf fd s (frame_text c j @ concat (map (frame_text c) (rev [2..<j])))
      (and_then (pingpong_frame (Suc q) buf (of_nat fd) garbage c (int j) s) (\<lambda>_ s. pingpong_back (Suc q) buf (of_nat fd) garbage c (int (j - 1)) s))"
    by (rule shows_next_then [OF frame_shown [OF Suc.prems(1,2) j(1) Suc.prems(3,4)] u], rule Suc.hyps(1) [OF j(2), unfolded j(5)])
      (use Suc.prems j in simp_all)
  ultimately show ?case by simp
qed

text \<open>The letter of a round, from A to Z and again from A.\<close>

definition letter :: "nat \<Rightarrow> u8" where
  "letter k = 65 + of_nat (k mod 26)"

lemma letter_unat: "unat (letter k) = 65 + k mod 26"
proof -
  have "letter k = of_nat (65 + k mod 26)" by (simp add: letter_def)
  moreover have "k mod 26 < 26" by simp
  ultimately show ?thesis by (simp add: unsigned_of_nat take_bit_nat_eq_self del: of_nat_add)
qed

lemma letter_facts: "letter k \<noteq> 0" "next_char (letter k) = letter (Suc k)"
proof -
  show "letter k \<noteq> 0" using letter_unat [of k] by auto
  have z: "letter k = 90 \<longleftrightarrow> k mod 26 = 25" using letter_unat [of k] by (simp add: word_unat_eq_iff)
  show "next_char (letter k) = letter (Suc k)"
  proof (cases "k mod 26 = 25")
    case True
    then have "Suc k mod 26 = 0" by (simp add: mod_Suc)
    then have "letter (Suc k) = 65" by (simp only: letter_def) simp
    then show ?thesis using True z by (simp add: next_char_def)
  next
    case False
    then have m: "Suc k mod 26 = Suc (k mod 26)" by (simp add: mod_Suc)
    have "letter (Suc k) = letter k + 1" unfolding letter_def m by simp
    then show ?thesis using False z by (simp add: next_char_def)
  qed
qed

lemma rounds_shown:
  fixes s :: "'a sys_state_scheme"
  assumes "animating buf fd s" and "garbage \<noteq> 0"
  shows "shows_next buf fd s (concat (map (\<lambda>k. round_text (letter k)) [k..<k + n])) (pingpong_rounds (Suc q) n buf (of_nat fd) garbage (letter k) s)"
  using assms
proof (induction n arbitrary: k s)
  case 0
  then show ?case using shows_next_done [OF 0(1)] by simp
next
  case (Suc n)
  let ?c = "letter k" and ?b = "\<lambda>_ s. pingpong_rounds (Suc q) n buf (of_nat fd) garbage (letter (Suc k)) s"
  let ?out = "concat (map (frame_text ?c) [2..<78])" and ?home = "concat (map (frame_text ?c) (rev [2..<78]))"
  have next_round: "shows_next buf fd s' (concat (map (\<lambda>k. round_text (letter k)) [Suc k..<k + Suc n])) (?b 0 s')" if "animating buf fd s'" for s' :: "'a sys_state_scheme"
    using Suc.IH [OF that Suc.prems(2), of "Suc k"] by simp
  have returning: "shows_next buf fd s' (?home @ concat (map (\<lambda>k. round_text (letter k)) [Suc k..<k + Suc n]))
      (and_then (pingpong_back (Suc q) buf (of_nat fd) garbage ?c 77 s') ?b)" if "animating buf fd s'" for s' :: "'a sys_state_scheme"
  proof (rule shows_next_then)
    show "shows_next buf fd s' ?home (pingpong_back (Suc q) buf (of_nat fd) garbage ?c 77 s')"
      using back_shown [OF that Suc.prems(2), of 77 ?c q] letter_facts(1) [of k] by simp
  qed (use that in \<open>simp add: animating_def\<close>, rule next_round)
  have "shows_next buf fd s (?out @ ?home @ concat (map (\<lambda>k. round_text (letter k)) [Suc k..<k + Suc n]))
      (and_then (pingpong_out (Suc q) buf (of_nat fd) garbage ?c 2 s) (\<lambda>_ s. and_then (pingpong_back (Suc q) buf (of_nat fd) garbage ?c 77 s) ?b))"
  proof (rule shows_next_then)
    show "shows_next buf fd s ?out (pingpong_out (Suc q) buf (of_nat fd) garbage ?c 2 s)"
      using out_shown [OF Suc.prems(1,2), of 2 ?c q] letter_facts(1) [of k] by simp
  qed (use Suc.prems(1) in \<open>simp add: animating_def\<close>, rule returning)
  moreover have "[k..<k + Suc n] = k # [Suc k..<k + Suc n]" by (simp add: upt_conv_Cons)
  ultimately show ?case by (simp add: letter_facts(2) round_text_def)
qed

lemma walls_field:
  shows "field (pingpong_walls m buf) buf" "agree (- span buf 81) (pingpong_walls m buf) m"
proof -
  let ?m = "filled m buf 81 (\<lambda>_. 32)"
  have w: "pingpong_walls m buf = ?m(buf + 80 := 0, buf + 79 := 10, buf + 78 := 124, buf + 1 := 124)"
    using pingpong_clear_filled [of 0 81 m buf] by (simp add: pingpong_walls_def)
  show "field (pingpong_walls m buf) buf" unfolding field_def w by (simp add: filled_def)
  have "agree (- span buf 81) ?m m" by (rule agree_filled) blast
  moreover have "buf + 80 \<in> span buf 81" "buf + 79 \<in> span buf 81" "buf + 78 \<in> span buf 81" "buf + 1 \<in> span buf 81" by (simp_all add: span_def)
  ultimately show "agree (- span buf 81) (pingpong_walls m buf) m" unfolding w by (auto simp: agree_def)
qed

lemma clock_opened:
  assumes "user_ok s" and "cstring (mem s) nm name" and "find_name s name = Some e" and "ftype e = FILE_TYPE_RTC" and "lowest_free s fd"
  obtains s' where "ece391_open q nm s = Returns (of_nat fd) s'" "prints {} s [] s'" "mem s' = mem s" "clock_fd s' fd"
proof -
  obtain s' where s': "ece391_open q nm s = Returns (of_nat fd) s'" "prints {} s [] s'" "mem s' = mem s"
      "cur_fd s' fd = \<lparr>fd_ops = Ops_rtc, inode_ptr = 0, file_position = 0, flags = 1\<rparr>"
    using open_entry [OF assms(1-3,5), where q = q] assms(4) by blast
  then show thesis using assms(5) by (intro that [of s']) (simp_all add: clock_fd_def lowest_free_def)
qed

text \<open>
  What the program finds when it starts. The picture, the rate it writes and the byte it
  reads into are apart from the screen and from each other.
\<close>

definition pingpong_ready :: "(string \<Rightarrow> u32) \<Rightarrow> u32 \<Rightarrow> u32 \<Rightarrow> u32 \<Rightarrow> nat \<Rightarrow> 'a sys_state_scheme \<Rightarrow> bool" where
  "pingpong_ready lit buf ret_val garbage fd s \<longleftrightarrow>
     (let B = span buf 81 \<union> span ret_val 4 in
      user_ok s \<and> lowest_free s fd \<and> unat (num_dir_entries s) \<le> 63 \<and> span (bootblock s) 4096 \<inter> (screen_span \<union> B) = {}
      \<and> (\<exists>e. find_name s (bytes ''rtc'') = Some e \<and> ftype e = FILE_TYPE_RTC) \<and> literal lit B s ''rtc''
      \<and> B \<inter> screen_span = {} \<and> span buf 81 \<inter> span ret_val 4 = {} \<and> buf \<noteq> 0 \<and> ret_val \<noteq> 0 \<and> garbage \<noteq> 0)"

lemma prints_silent: "user_ok s \<Longrightarrow> prints B s [] s1 \<Longrightarrow> prints B s1 cs s2 \<Longrightarrow> prints B s cs s2"
  using prints_trans [of s B "[]" s1 cs s2] by simp

lemma pingpong_shows:
  assumes "pingpong_ready lit buf ret_val garbage fd s"
  shows "\<exists>s'. pingpong_main (Suc q) n lit buf ret_val garbage s = Returns 0 s'
    \<and> prints (span buf 81 \<union> span ret_val 4) s (concat (map (\<lambda>k. round_text (letter k)) [0..<n])) s'"
proof -
  let ?B = "span buf 81 \<union> span ret_val 4"
  obtain e where e: "find_name s (bytes ''rtc'') = Some e" "ftype e = FILE_TYPE_RTC" using assms by (auto simp: pingpong_ready_def Let_def)
  have g: "user_ok s" "lowest_free s fd" "unat (num_dir_entries s) \<le> 63" "span (bootblock s) 4096 \<inter> (screen_span \<union> ?B) = {}"
      "literal lit ?B s ''rtc''" "?B \<inter> screen_span = {}" "span buf 81 \<inter> span ret_val 4 = {}" "buf \<noteq> 0" "ret_val \<noteq> 0" "garbage \<noteq> 0"
    using assms by (simp_all add: pingpong_ready_def Let_def)
  let ?s1 = "s\<lparr>mem := pingpong_walls (mem s) buf\<rparr>"
  have p1: "prints ?B s [] ?s1"
    by (rule prints_mem [OF g(1) agree_sub [OF walls_field(2)] g(6)]) blast
  have l1: "cstring (mem ?s1) (lit ''rtc'') (bytes ''rtc'')" using literal_prints [OF g(5) p1] by (simp add: literal_def)
  have f1: "find_name ?s1 (bytes ''rtc'') = Some e"
    using find_name_agree [OF places_eqD(6) [OF printsD(3) [OF p1]] printsD(5) [OF p1 g(4)] g(3)] e(1) by simp
  have lf: "lowest_free ?s1 fd" using g(2) lowest_free_ground [of ?s1 s fd] by simp
  obtain s2 where s2: "ece391_open (Suc q) (lit ''rtc'') ?s1 = Returns (of_nat fd) s2" "prints {} ?s1 [] s2" "mem s2 = mem ?s1" "clock_fd s2 fd"
    by (rule clock_opened [OF printsD(1) [OF p1] l1 f1 e(2) lf])
  let ?s3 = "s2\<lparr>mem := store32 (mem s2) ret_val 32\<rparr>"
  have p3: "prints ?B s2 [] ?s3" by (rule prints_mem [OF printsD(1) [OF s2(2)] agree_sub [OF store32_agree] g(6)]) blast
  have c3: "clock_fd ?s3 fd" using s2(4) clock_fd_ground [of ?s3 s2 fd] by simp
  obtain r s4 where s4: "ece391_write (Suc q) (of_nat fd) ret_val 4 ?s3 = Returns r s4" "ground s4 = ground ?s3" "mem s4 = mem ?s3" "prints {} ?s3 [] s4"
    by (rule clock_write [OF printsD(1) [OF p3] c3 g(9)])
  let ?s5 = "s4\<lparr>mem := store32 (mem s4) ret_val r\<rparr>"
  have p5: "prints ?B s4 [] ?s5" by (rule prints_mem [OF printsD(1) [OF s4(4)] agree_sub [OF store32_agree] g(6)]) blast
  have "agree (span buf 81) (mem ?s5) (mem ?s1)"
    using store32_agree [of ret_val "mem s4" r] store32_agree [of ret_val "mem s2" 32] g(7) s4(3) s2(3) by (auto simp: agree_def)
  then have fl: "field (mem ?s5) buf" using field_agree walls_field(1) [of "mem s" buf] by simp
  have "clock_fd ?s5 fd" using c3 clock_fd_ground [OF s4(2)] clock_fd_ground [of ?s5 s4 fd] by simp
  then have "animating buf fd ?s5" using fl printsD(1) [OF p5] g(6,8) by (auto simp: animating_def)
  from rounds_shown [OF this g(10), of 0 n q] obtain s' where s':
      "pingpong_rounds (Suc q) n buf (of_nat fd) garbage 65 ?s5 = Returns 0 s'"
      "prints (span buf 81) ?s5 (concat (map (\<lambda>k. round_text (letter k)) [0..<n])) s'"
    by (auto simp: shows_next_def letter_def)
  have "prints ?B ?s5 (concat (map (\<lambda>k. round_text (letter k)) [0..<n])) s'" by (rule prints_mono [OF s'(2)]) blast
  then have "prints ?B ?s3 (concat (map (\<lambda>k. round_text (letter k)) [0..<n])) s'"
    by (intro prints_silent [OF printsD(1) [OF p3] prints_mono [OF s4(4)] prints_silent [OF printsD(1) [OF s4(4)] p5]]) simp
  then have "prints ?B ?s1 (concat (map (\<lambda>k. round_text (letter k)) [0..<n])) s'"
    by (intro prints_silent [OF printsD(1) [OF p1] prints_mono [OF s2(2)] prints_silent [OF printsD(1) [OF s2(2)] p3]]) simp
  then have "prints ?B s (concat (map (\<lambda>k. round_text (letter k)) [0..<n])) s'" by (rule prints_silent [OF g(1) p1])
  then show ?thesis using s2(1) s4(1) s'(1) by (auto simp: pingpong_main_def Let_def)
qed

end
