(* ===== verification/Kud_Clock.thy ===== *)
theory Kud_Clock
  imports Kud_Userland Kud_Pingpong
begin

text \<open>
  The animation on a machine whose directory has the clock as a file.
\<close>

section \<open>A machine with a clock\<close>

definition clock_image :: "mem \<Rightarrow> mem" where
  "clock_image m = m(0x500080 := 114, 0x500081 := 116, 0x500082 := 99, 0x500083 := 0, 0x5000A0 := 0)"

definition clock_machine :: sys_state where
  "clock_machine = (machine [] [])\<lparr>mem := clock_image (mem (machine [] []))\<rparr>"

lemma clock_agree: "agree (- span 0x500000 4096) (clock_image m) m"
  by (auto simp: agree_def clock_image_def span_def)

lemma clock_prints: "prints (span 0x500000 4096) (machine [] []) [] clock_machine"
  unfolding clock_machine_def by (rule prints_mem [OF machine_user_ok clock_agree]) (use machine_buffer(3) [of 0 "0x500000"] in auto)

lemma clock_boot: "agree (span 0x500000 4096) (mem clock_machine) (clock_image image1)"
proof -
  have "span 0x500000 4096 \<inter> (span 0x4502B9 128 \<union> span 0x8200000 512) = ({} :: u32 set)"
    using span_below [of "0x4502B9" 128 "0x500000" 4096] span_below [of "0x500000" 4096 "0x8200000" 512] by auto
  from machine_agree [OF this, of "[]" "[]"] have "agree (span 0x500000 4096) (mem (machine [] [])) image1" by simp
  then show ?thesis by (simp add: clock_machine_def agree_def clock_image_def)
qed

lemma clock_names:
  "strn (mem clock_machine) 0x500080 32 = bytes ''rtc''" "strn (mem clock_machine) 0x500040 32 = [46]"
  "ftype (load_dentry (mem clock_machine) 0x500080) = FILE_TYPE_RTC" "num_dir_entries clock_machine = 2"
proof -
  have c: "cstring (clock_image image1) 0x500080 (bytes ''rtc'')" "cstring (clock_image image1) 0x500040 [46]"
    by (simp_all add: bytes_def cstring_Cons cstring_Nil) (simp_all add: clock_image_def image1_def image0_def)
  have sub: "span (0x500000 + of_nat 128) 4 \<subseteq> span 0x500000 4096" "span (0x500000 + of_nat 64) 2 \<subseteq> (span 0x500000 4096 :: u32 set)"
    by (rule span_sub; simp)+
  have "cstring (mem clock_machine) 0x500080 (bytes ''rtc'')" "cstring (mem clock_machine) 0x500040 [46]"
    using cstring_agree [OF c(1) agree_sub [OF clock_boot]] cstring_agree [OF c(2) agree_sub [OF clock_boot]] sub by (simp_all add: numeral_eq_Suc)
  from strn_cstring [OF this(1)] strn_cstring [OF this(2)]
  show "strn (mem clock_machine) 0x500080 32 = bytes ''rtc''" "strn (mem clock_machine) 0x500040 32 = [46]" by simp_all
  have at: "mem clock_machine (0x500000 + of_nat k) = clock_image image1 (0x500000 + of_nat k)" if "k < 4096" for k
    using clock_boot span_add [of k 4096 "0x500000"] that by (auto simp: agree_def)
  have "clock_image image1 0x5000A0 = 0" "clock_image image1 0x5000A1 = 0" "clock_image image1 0x5000A2 = 0" "clock_image image1 0x5000A3 = 0"
    by (simp_all add: clock_image_def image1_def image0_def)
  then have "load32 (mem clock_machine) 0x5000A0 = 0" using at [of 160] at [of 161] at [of 162] at [of 163] by (simp add: load32_def)
  moreover have "ftype (load_dentry m 0x500080) = load32 m 0x5000A0" for m by (simp add: load_dentry_def)
  ultimately show "ftype (load_dentry (mem clock_machine) 0x500080) = FILE_TYPE_RTC" by (simp add: FILE_TYPE_RTC_def)
  have "clock_image image1 0x500000 = 2" "clock_image image1 0x500001 = 0" "clock_image image1 0x500002 = 0" "clock_image image1 0x500003 = 0"
    by (simp_all add: clock_image_def image1_def image0_def)
  then have "load32 (mem clock_machine) 0x500000 = 2" using at [of 0] at [of 1] at [of 2] at [of 3] by (simp add: load32_def)
  then show "num_dir_entries clock_machine = 2" by (simp add: num_dir_entries_def clock_machine_def machine_fields)
qed

lemma clock_find: "find_name clock_machine (bytes ''rtc'') = Some (load_dentry (mem clock_machine) 0x500080)"
proof -
  have "bootblock clock_machine = 0x500000" by (simp add: clock_machine_def machine_fields)
  moreover have "[0..<2] = [0, 1 :: nat]" by (simp add: upt_rec)
  ultimately show ?thesis by (simp add: find_name_def clock_names dir_entry_def Let_def)
qed

lemma clock_ready: "pingpong_ready machine_lit 0x8100000 0x8100100 0x8100200 2 clock_machine"
proof -
  let ?B = "span 0x8100000 81 \<union> span 0x8100100 4 :: u32 set"
  have sub: "?B \<subseteq> span 0x8100000 4096" using span_sub [of 0 81 4096 "0x8100000"] span_sub [of "0x100" 4 4096 "0x8100000"] by simp
  note b = machine_buffer(1-3) [of 4096, OF order_refl]
  have dj: "span 0x8100000 81 \<inter> span 0x8100100 4 = ({} :: u32 set)" "span 0x500000 4096 \<inter> span 0x8200000 512 = ({} :: u32 set)"
    by (rule span_below; simp)+
  have bb: "bootblock clock_machine = 0x500000" by (simp add: clock_machine_def machine_fields)
  have "span 0x8200000 512 \<inter> (?B \<union> span 0x500000 4096) = {}" using b(2) dj(2) sub by blast
  then have "literal machine_lit (?B \<union> span 0x500000 4096) (machine [] []) ''rtc''"
    by (intro machine_literal) (simp_all add: machine_literals_def)
  from literal_prints [OF this prints_mono [OF clock_prints]] have l: "literal machine_lit ?B clock_machine ''rtc''" by (auto simp: literal_def)
  have "lowest_free clock_machine 2" using machine_lowest lowest_free_ground [of clock_machine "machine [] []" 2] by (simp add: clock_machine_def)
  then show ?thesis
    using printsD(1) [OF clock_prints] clock_find clock_names(3,4) l dj(1) sub b(1) b(3) [of "0x500000"] unfolding pingpong_ready_def Let_def bb by auto
qed

section \<open>The animation\<close>



end
