(* ===== verification/Kud_Sigtest.thy ===== *)
theory Kud_Sigtest
  imports Kud_Programs
begin

unbundle bit_operations_syntax

text \<open>
  The signal test \<^verbatim>\<open>src/syscalls/ece391sigtest.c\<close>. It installs handlers, writes through a null
  pointer and expects that a handler redirects the write to \<^verbatim>\<open>charbuf\<close>. The kernel has no
  signals; what the program does then depends on the system call table and on the page
  tables, with which this theory composes it.
\<close>

section \<open>The program\<close>

definition ece391_set_handler :: "nat \<Rightarrow> u32 \<Rightarrow> u32 \<Rightarrow> 'a sys_state_scheme \<Rightarrow> 'a sys_state_scheme outcome" where
  "ece391_set_handler q signum hdl s = syscall_handler q 9 signum hdl 0 s"

text \<open>
  A store by user code, through the page tables: without a mapping that is open to user code
  the processor raises a page fault instead.
\<close>

definition user_store :: "u32 \<Rightarrow> u8 \<Rightarrow> 'a sys_state_scheme \<Rightarrow> 'a sys_state_scheme outcome" where
  "user_store a v s =
     (case translate s (cr3 s) a of Some (p, True) \<Rightarrow> Returns 0 (s\<lparr>mem := (mem s)(a := v)\<rparr>) | _ \<Rightarrow> Faults)"

text \<open>The variables \<^verbatim>\<open>badbuf\<close> and \<^verbatim>\<open>charbuf\<close> are at the addresses \<open>badbuf\<close> and \<open>charbuf\<close>.\<close>

definition sigtest_verdict :: "nat \<Rightarrow> (string \<Rightarrow> u32) \<Rightarrow> u32 \<Rightarrow> u32 \<Rightarrow> 'a sys_state_scheme \<Rightarrow> 'a sys_state_scheme outcome" where
  "sigtest_verdict q lit buf charbuf s =
     and_then (ece391_fdputs q 1 (lit ''Hello, '') s) (\<lambda>_ s.
     and_then (ece391_fdputs q 1 buf s) (\<lambda>_ s.
     and_then (if mem s charbuf = 1 then ece391_fdputs q 1 (lit (''success'' @ [CHR 0x0A])) s
               else ece391_fdputs q 1 (lit (''failure'' @ [CHR 0x0A])) s) (\<lambda>_ s. Returns 0 s)))"

definition sigtest_answer :: "nat \<Rightarrow> (string \<Rightarrow> u32) \<Rightarrow> u32 \<Rightarrow> u32 \<Rightarrow> u32 \<Rightarrow> 'a sys_state_scheme \<Rightarrow> 'a sys_state_scheme outcome" where
  "sigtest_answer q lit buf badbuf charbuf s =
     and_then (ece391_read q 0 buf 1023 s) (\<lambda>cnt s.
       if minus_one = cnt
       then and_then (ece391_fdputs q 1 (lit (''Can'' @ [CHR 0x27] @ ''t read name from keyboard.'' @ [CHR 0x0A])) s) (\<lambda>_ s. Returns 3 s)
       else and_then (user_store (load32 (mem s) badbuf) 1 s) (\<lambda>_ s.
            sigtest_verdict q lit buf charbuf (s\<lparr>mem := (mem s)(buf + cnt := 0)\<rparr>)))"

definition sigtest_install :: "nat \<Rightarrow> (string \<Rightarrow> u32) \<Rightarrow> u32 \<Rightarrow> u32 \<Rightarrow> u32 \<Rightarrow> 'a sys_state_scheme \<Rightarrow> 'a sys_state_scheme outcome" where
  "sigtest_install q lit buf segfault_handler alarm_handler s =
     (if mem s buf = 49
      then and_then (ece391_fdputs q 1 (lit (''Installing signal handlers'' @ [CHR 0x0A])) s) (\<lambda>_ s.
           and_then (ece391_set_handler q 1 segfault_handler s) (\<lambda>_ s. ece391_set_handler q 3 alarm_handler s))
      else Returns 0 s)"

definition sigtest_main :: "nat \<Rightarrow> (string \<Rightarrow> u32) \<Rightarrow> u32 \<Rightarrow> u32 \<Rightarrow> u32 \<Rightarrow> u32 \<Rightarrow> u32 \<Rightarrow> 'a sys_state_scheme \<Rightarrow> 'a sys_state_scheme outcome" where
  "sigtest_main q lit buf badbuf charbuf segfault_handler alarm_handler s =
     and_then (ece391_getargs q buf 1024 s) (\<lambda>r s.
       if 0 \<noteq> r
       then and_then (ece391_fdputs q 1 (lit (''could not read argument'' @ [CHR 0x0A])) s) (\<lambda>_ s. Returns 3 s)
       else and_then (sigtest_install q lit buf segfault_handler alarm_handler s) (\<lambda>_ s.
            and_then (ece391_fdputs q 1 (lit (''Hi, what'' @ [CHR 0x27] @ ''s your name? '')) s) (\<lambda>_ s.
            sigtest_answer q lit buf badbuf charbuf s)))"

text \<open>The handlers, which this kernel never calls. The frame of the first gives the address of \<^verbatim>\<open>signum\<close>.\<close>

definition signum_text :: "u32 \<Rightarrow> string" where
  "signum_text signum =
     (if signum = 0 then ''0'' @ [CHR 0x0A] else if signum = 1 then ''1'' @ [CHR 0x0A]
      else if signum = 2 then ''2'' @ [CHR 0x0A] else if signum = 3 then ''3'' @ [CHR 0x0A] else ''invalid'' @ [CHR 0x0A])"

definition segfault_sighandler :: "nat \<Rightarrow> (string \<Rightarrow> u32) \<Rightarrow> u32 \<Rightarrow> u32 \<Rightarrow> u32 \<Rightarrow> u32 \<Rightarrow> u32 \<Rightarrow> 'a sys_state_scheme
    \<Rightarrow> 'a sys_state_scheme outcome" where
  "segfault_sighandler q lit buf badbuf charbuf signum_at signum s =
     and_then (ece391_fdputs q 1 (lit ''Segfault signal handler called, signum: '') s) (\<lambda>_ s.
     and_then (ece391_fdputs q 1 (lit (signum_text signum)) s) (\<lambda>_ s.
     and_then (ece391_fdputs q 1 (lit (''Press enter to continue...'' @ [CHR 0x0A])) s) (\<lambda>_ s.
     and_then (ece391_read q 0 buf 1 s) (\<lambda>_ s.
     let s = s\<lparr>mem := store32 (mem s) badbuf charbuf\<rparr>;
         s = s\<lparr>mem := store32 (mem s) (signum_at + 28) charbuf\<rparr> in
     ece391_fdputs q 1 (lit (''Signal handler returning'' @ [CHR 0x0A])) s))))"

definition alarm_sighandler :: "nat \<Rightarrow> (string \<Rightarrow> u32) \<Rightarrow> u32 \<Rightarrow> 'a sys_state_scheme \<Rightarrow> 'a sys_state_scheme outcome" where
  "alarm_sighandler q lit signum s =
     and_then (ece391_fdputs q 1 (lit ''Alarm signal handler called, signum: '') s) (\<lambda>_ s.
     ece391_fdputs q 1 (lit (signum_text signum)) s)"

section \<open>What happens\<close>

text \<open>
  The number of set\_handler passes the range check of the kernel, whose table has no entry
  for it.
\<close>

lemma set_handler_faults: "ece391_set_handler q signum hdl s = Faults"
  by (simp add: ece391_set_handler_def syscall_handler_def)

lemma install_faults:
  assumes "user_ok s" and "cstring (mem s) (cmd_args s (cur s)) args" and "length args \<le> 1024" and "buf \<noteq> 0"
    and "span (cmd_args s (cur s)) 1024 \<inter> span buf 1024 = {}" and "span buf 1025 \<inter> screen_span = {}"
    and "literal lit (span buf 1025) s (''Installing signal handlers'' @ [CHR 0x0A])" and "args \<noteq> []" and "hd args = 49"
  shows "sigtest_main q lit buf badbuf charbuf segfault_handler alarm_handler s = Faults"
proof -
  have sc: "span buf (Suc 1024) \<inter> screen_span = {}" using assms(6) by simp
  obtain s1 where s1: "ece391_getargs q buf 1024 s = Returns 0 s1" "cstring (mem s1) buf args" "prints (span buf 1025) s [] s1"
    using getargs_stage [OF assms(1-3) _ assms(4,5) sc, of q] by auto
  have "mem s1 buf = 49" using s1(2) assms(8,9) by (cases args) (simp_all add: cstring_Cons)
  moreover obtain s2 where "ece391_fdputs q 1 (lit (''Installing signal handlers'' @ [CHR 0x0A])) s1 = Returns 0 s2"
    by (rule fdputs_literal [OF printsD(1) [OF s1(3)] literal_prints [OF assms(7) s1(3)]])
  ultimately show ?thesis using s1(1) by (simp add: sigtest_main_def sigtest_install_def set_handler_faults)
qed

text \<open>The store through the null pointer succeeds: the kernel maps the first page for user code.\<close>

lemma null_store:
  assumes "tables_ok s" and "task_mapped s (cr3 s)" and "ground s' = ground s"
  shows "user_store 0 v s' = Returns 0 (s'\<lparr>mem := (mem s')(0 := v)\<rparr>)"
proof -
  have "translate s (cr3 s) 0 = Some (0, True)" by (rule translate_low [OF assms(1,2)]) simp
  then show ?thesis using groundD(4,5) [OF assms(3)] by (simp add: user_store_def)
qed

lemma verdict_failure:
  assumes "user_ok s" and "literal lit B s ''Hello, ''" and "literal lit B s (''failure'' @ [CHR 0x0A])" and "buf \<noteq> 0"
    and "cstring (mem s) buf cs" and "length cs < 2147483648" and "span buf (Suc (length cs)) \<inter> screen_span = {}"
    and "mem s charbuf \<noteq> 1" and "charbuf \<notin> screen_span"
  obtains s' where "sigtest_verdict q lit buf charbuf s = Returns 0 s'" "prints {} s (bytes ''Hello, '' @ cs @ bytes (''failure'' @ [CHR 0x0A])) s'"
proof -
  obtain s1 s2 where s2: "ece391_fdputs q 1 (lit ''Hello, '') s = Returns 0 s1" "ece391_fdputs q 1 buf s1 = Returns 0 s2"
      "prints {} s (bytes ''Hello, '' @ cs) s2"
    by (rule greeting_printed [OF assms(1,2,4-7)])
  have "literal lit B s2 (''failure'' @ [CHR 0x0A])"
    using literal_prints [of lit B s _ "bytes ''Hello, '' @ cs" s2] assms(3) prints_mono [OF s2(3)] by blast
  then obtain s3 where s3: "ece391_fdputs q 1 (lit (''failure'' @ [CHR 0x0A])) s2 = Returns 0 s3" "prints {} s2 (bytes (''failure'' @ [CHR 0x0A])) s3"
    using fdputs_literal [OF printsD(1) [OF s2(3)]] by blast
  have "agree {charbuf} (mem s2) (mem s)" by (rule printsD(5) [OF s2(3)]) (use assms(9) in blast)
  then have "mem s2 charbuf \<noteq> 1" using assms(8) by (simp add: agree_def)
  then have "sigtest_verdict q lit buf charbuf s = Returns 0 s3" using s2(1,2) s3(1) by (simp add: sigtest_verdict_def)
  moreover have "prints {} s (bytes ''Hello, '' @ cs @ bytes (''failure'' @ [CHR 0x0A])) s3" using prints_trans [OF assms(1) s2(3) s3(2)] by simp
  ultimately show thesis by (rule that)
qed

definition sigtest_ready :: "(string \<Rightarrow> u32) \<Rightarrow> u32 \<Rightarrow> u32 \<Rightarrow> u32 \<Rightarrow> u8 list \<Rightarrow> 'a sys_state_scheme \<Rightarrow> bool" where
  "sigtest_ready lit buf badbuf charbuf line s \<longleftrightarrow> user_ok s \<and> flags (cur_fd s 0) \<noteq> 0 \<and> enter_flag s \<noteq> 0 \<and> line = input_line (tbuf s)
     \<and> tables_ok s \<and> task_mapped s (cr3 s) \<and> load32 (mem s) badbuf = 0 \<and> mem s charbuf = 0
     \<and> literal lit (span buf 130 \<union> {0}) s ''Hello, '' \<and> literal lit (span buf 130 \<union> {0}) s (''failure'' @ [CHR 0x0A])
     \<and> buf \<noteq> 0 \<and> (span buf 130 \<union> {0}) \<inter> screen_span = {} \<and> 0 \<notin> span buf 130
     \<and> span badbuf 4 \<inter> (screen_span \<union> span buf 130) = {} \<and> charbuf \<notin> screen_span \<union> span buf 130 \<union> {0}"

lemma sigtest_prints:
  assumes "sigtest_ready lit buf badbuf charbuf line s"
  shows "\<exists>s'. sigtest_answer q lit buf badbuf charbuf s = Returns 0 s' \<and> mem s' 0 = 1
    \<and> prints (span buf 130 \<union> {0}) s ([10] @ bytes ''Hello, '' @ line @ [10] @ bytes (''failure'' @ [CHR 0x0A])) s'"
proof -
  let ?B = "span buf 130 \<union> {0}"
  have r: "user_ok s" "flags (cur_fd s 0) \<noteq> 0" "enter_flag s \<noteq> 0" "line = input_line (tbuf s)" "tables_ok s" "task_mapped s (cr3 s)"
      "load32 (mem s) badbuf = 0" "mem s charbuf = 0" "literal lit ?B s ''Hello, ''" "literal lit ?B s (''failure'' @ [CHR 0x0A])" "buf \<noteq> 0"
      "?B \<inter> screen_span = {}" "0 \<notin> span buf 130" "span badbuf 4 \<inter> (screen_span \<union> span buf 130) = {}"
      "charbuf \<notin> screen_span \<union> span buf 130 \<union> {0}" "span buf 130 \<inter> screen_span = {}"
    using assms unfolding sigtest_ready_def by blast+
  obtain s1 where s1: "ece391_read q 0 buf 1023 s = Returns (of_nat (length line + 1)) s1" "ground s1 = ground s"
      "load_bytes (mem s1) buf (length line + 1) = line @ [10]" "prints (span buf 130) s [10] s1" "length line \<le> 128" "0 \<notin> set line"
    by (rule answer_read [OF r(1-4,11,16)])
  have "agree (span badbuf 4) (mem s1) (mem s)" by (rule printsD(5) [OF s1(4) r(14)])
  then have "load32 (mem s1) badbuf = load32 (mem s) badbuf" by (intro load32_agree) (use span_add [of _ 4 badbuf] in \<open>auto simp: agree_def\<close>)
  then have b: "load32 (mem s1) badbuf = 0" using r(7) by simp
  let ?t = "s1\<lparr>mem := (mem s1)(0 := 1)\<rparr>"
  have p1: "prints ?B s [10] s1" by (rule prints_mono [OF s1(4)]) blast
  have pt: "prints ?B s1 [] ?t" by (rule prints_mem [OF printsD(1) [OF p1] agree_poke r(12)]) blast
  have "mem ?t (buf + of_nat i) = mem s1 (buf + of_nat i)" if "i < length line + 1" for i
    using r(13) span_add [of i 130 buf] s1(5) that by (cases "buf + of_nat i = 0") auto
  then have "load_bytes (mem ?t) buf (length line + 1) = load_bytes (mem s1) buf (length line + 1)" by (rule load_bytes_cong)
  then have ld: "load_bytes (mem ?t) buf (length line + 1) = line @ [10]" using s1(3) by simp
  let ?u = "?t\<lparr>mem := (mem ?t)(buf + of_nat (length line + 1) := 0)\<rparr>"
  have u: "cstring (mem ?u) buf (take (length line + 1) (line @ [10]))" "prints (span buf 130) ?t [] ?u"
    by (rule line_terminated [OF printsD(1) [OF pt] ld s1(6,5) r(16)]; simp)+
  have pu: "prints ?B ?t [] ?u" by (rule prints_mono [OF u(2)]) blast
  have p: "prints ?B s ([10] @ [] @ []) ?u" by (rule prints_join [OF r(1) p1 pt pu])
  note l = literal_prints [OF r(9) p] literal_prints [OF r(10) p]
  have "agree {charbuf} (mem ?u) (mem s)" by (rule printsD(5) [OF p]) (use r(15) in blast)
  then have ch: "mem ?u charbuf \<noteq> 1" "charbuf \<notin> screen_span" using r(8,15) by (simp_all add: agree_def)
  have cs: "cstring (mem ?u) buf (line @ [10])" "length (line @ [10]) < 2147483648" "span buf (Suc (length (line @ [10]))) \<inter> screen_span = {}"
    using u(1) s1(5) r(16) span_mono [of "Suc (length (line @ [10]))" 130 buf] by auto
  obtain s' where s': "sigtest_verdict q lit buf charbuf ?u = Returns 0 s'"
      "prints {} ?u (bytes ''Hello, '' @ (line @ [10]) @ bytes (''failure'' @ [CHR 0x0A])) s'"
    by (rule verdict_failure [OF printsD(1) [OF pu] l r(11) cs ch])
  have "sigtest_answer q lit buf badbuf charbuf s = Returns 0 s'"
    using s1(1,5) b null_store [OF r(5,6) s1(2)] s'(1) small_result [of "length line + 1"] by (simp add: sigtest_answer_def)
  moreover have "prints ?B s (([10] @ [] @ []) @ bytes ''Hello, '' @ (line @ [10]) @ bytes (''failure'' @ [CHR 0x0A])) s'"
    by (rule prints_trans [OF r(1) p prints_mono [OF s'(2)]]) simp
  moreover have "buf + of_nat (length line + 1) \<in> span buf 130" using s1(5) by (intro span_add) simp_all
  then have "mem ?u 0 = 1" using r(13) by (cases "buf + of_nat (length line + 1) = 0") auto
  then have "mem s' 0 = 1" using printsD(5) [OF s'(2), of "{0}"] r(12) by (simp add: agree_def)
  ultimately show ?thesis by auto
qed

end
