(* ===== verification/Kud_Signals.thy ===== *)
theory Kud_Signals
  imports Kud_Userland Kud_Sigtest
begin

text \<open>
  The signal test on the machine of \<open>Kud_Userland\<close>, whose page tables are those of the first
  task.
\<close>

lemma machine_tables: "tables_ok (machine line args)" "task_mapped (machine line args) (cr3 (machine line args))"
proof -
  have e: "page_directories (machine line args) = page_directories page_state0" "page_table (machine line args) = page_table page_state0"
      "page_table_vidmap (machine line args) = page_table_vidmap page_state0" "page_table_at (machine line args) = page_table_at page_state0"
      "page_table_vidmap_at (machine line args) = page_table_vidmap_at page_state0" "cr3 (machine line args) = cr3 page_state0"
    by (simp_all add: machine_def proc_state1_def sys_state1_def sys_state0_def page_state.defs)
  show "tables_ok (machine line args)" using page_state0_ok unfolding tables_ok_def e .
  have "task_mapped page_state0 0"
    unfolding task_mapped_def Let_def by (simp add: page_state0_def fs_state.defs page_state.defs nth_list_update)
  then show "task_mapped (machine line args) (cr3 (machine line args))" unfolding task_mapped_def e by simp
qed

section \<open>The signal test\<close>



text \<open>
  C20: the signal handlers cannot be installed. With an argument that starts with the digit 1
  the program asks for set\_handler, whose number passes the range check of the kernel although
  the table of the calls ends before it: the kernel calls what lies behind the table.
\<close>

theorem sigtest_install_faults:
  assumes "user_ok s" and "cstring (mem s) (cmd_args s (cur s)) args" and "length args \<le> 1024" and "buf \<noteq> 0"
    and "span (cmd_args s (cur s)) 1024 \<inter> span buf 1024 = {}" and "span buf 1025 \<inter> screen_span = {}"
    and "literal lit (span buf 1025) s (''Installing signal handlers'' @ [CHR 0x0A])" and "args \<noteq> []" and "hd args = 49"
  shows "sigtest_main q lit buf badbuf charbuf segfault_handler alarm_handler s = Faults"
  by (rule install_faults [OF assms])

theorem sigtest_install_faults_witness:
  "sigtest_main 0 machine_lit 0x8100000 0x8101000 0x8101100 0 0 (machine [] [49]) = Faults"
proof -
  have n: "(1025 :: nat) \<le> 4096" by simp
  have c: "cstring (mem (machine [] [49])) (cmd_args (machine [] [49]) (cur (machine [] [49]))) [49]"
    using machine_args [of "[49]"] by (simp add: machine_fields [simplified])
  have l: "literal machine_lit (span 0x8100000 1025) (machine [] [49]) (''Installing signal handlers'' @ [CHR 0x0A])"
    by (rule machine_literal [OF _ machine_buffer(2) [OF n]]) (simp add: machine_literals_def)
  show ?thesis
    by (rule sigtest_install_faults [OF machine_user_ok c _ _ machine_cat_args machine_buffer(1) [OF n] l]) simp_all
qed

end
