(* ===== verification/Kud_Blink.thy ===== *)
theory Kud_Blink
  imports Kud_Exec
begin

unbundle bit_operations_syntax

text \<open>
  The blinking characters of the fish program, \<^verbatim>\<open>src/fish/blink.S\<close> and the allocator of
  \<^verbatim>\<open>src/fish/fish.c\<close>: a linked list of structures in an array of 2000 slots, walked once per
  tick of the clock. The code works on bytes and pointers; \<open>blinking\<close> relates them to a list of
  blinkers and a picture, and every operation is proved to refine its counterpart on those.
\<close>

section \<open>Structures and the allocator\<close>

text \<open>
  The structure \<^verbatim>\<open>mp1_blink_struct\<close> of \<^verbatim>\<open>blink.h\<close>, packed in 16 bytes. Its last member, the
  pointer to the next structure, is read by \<open>next_of\<close>.
\<close>

record mp1_blink_struct =
  location :: u16
  on_char :: u8
  off_char :: u8
  on_length :: u16
  off_length :: u16
  countdown :: u16
  status :: u16

definition struct_at :: "mem \<Rightarrow> u32 \<Rightarrow> mp1_blink_struct" where
  "struct_at m p = \<lparr>location = load16 m p, on_char = m (p + 2), off_char = m (p + 3), on_length = load16 m (p + 4),
     off_length = load16 m (p + 6), countdown = load16 m (p + 8), status = load16 m (p + 10)\<rparr>"

definition next_of :: "mem \<Rightarrow> u32 \<Rightarrow> u32" where
  "next_of m p = load32 m (p + 12)"

text \<open>
  Where the linker and the compiler put the variables, the frame of a call, and the byte of
  memory that a user address shows: \<open>None\<close> is a page fault, after which nothing returns.
\<close>

record blink_env =
  blink_array :: u32
  mp1_list_head :: u32
  vmem_base_addr :: u32
  stack_frame :: u32
  page_view :: "u32 \<Rightarrow> u32 option"

function ece391_memset_loop :: "mem \<Rightarrow> u32 \<Rightarrow> u8 \<Rightarrow> int \<Rightarrow> int \<Rightarrow> mem" where
  "ece391_memset_loop m p c i n = (if i < n then ece391_memset_loop (m(p + of_int i := c)) p c (i + 1) n else m)"
  by pat_completeness auto
termination by (relation "measure (\<lambda>(m, p, c, i, n). nat (n - i))") auto

definition ece391_memset :: "mem \<Rightarrow> u32 \<Rightarrow> u8 \<Rightarrow> int \<Rightarrow> mem" where
  "ece391_memset m p c n = ece391_memset_loop m p c 0 n"

function ece391_memcpy_loop :: "mem \<Rightarrow> u32 \<Rightarrow> u32 \<Rightarrow> int \<Rightarrow> int \<Rightarrow> mem" where
  "ece391_memcpy_loop m d s i n =
     (if i < n then ece391_memcpy_loop (m(d + of_int i := m (s + of_int i))) d s (i + 1) n else m)"
  by pat_completeness auto
termination by (relation "measure (\<lambda>(m, d, s, i, n). nat (n - i))") auto

definition ece391_memcpy :: "mem \<Rightarrow> u32 \<Rightarrow> u32 \<Rightarrow> int \<Rightarrow> u32 \<times> mem" where
  "ece391_memcpy m d s n = (0, ece391_memcpy_loop m d s 0 n)"

function mp1_malloc_loop :: "blink_env \<Rightarrow> mem \<Rightarrow> int \<Rightarrow> u32" where
  "mp1_malloc_loop E m i =
     (if i < 80 * 25
      then if load16 m (blink_array E + of_int (16 * i)) = 0 then blink_array E + of_int (16 * i) else mp1_malloc_loop E m (i + 1)
      else NULL32)"
  by pat_completeness auto
termination by (relation "measure (\<lambda>(E, m, i). nat (80 * 25 - i))") auto

declare ece391_memset_loop.simps [simp del] ece391_memcpy_loop.simps [simp del] mp1_malloc_loop.simps [simp del]

definition mp1_malloc :: "blink_env \<Rightarrow> mem \<Rightarrow> u32" where
  "mp1_malloc E m = mp1_malloc_loop E m 0"

definition mp1_free :: "mem \<Rightarrow> u32 \<Rightarrow> mem" where
  "mp1_free m p = ece391_memset m p 0 16"

section \<open>The operations\<close>

definition mp1_poke :: "blink_env \<Rightarrow> u8 \<Rightarrow> u32 \<Rightarrow> mem \<Rightarrow> mem option" where
  "mp1_poke E cl eax m = map_option (\<lambda>a. m(a := cl)) (page_view E (load32 m (vmem_base_addr E) + eax))"

definition screen_offset :: "mem \<Rightarrow> u32 \<Rightarrow> u32" where
  "screen_offset m p = push_bit 1 (ucast (load16 m p))"

text \<open>The comparison after the decrement is signed.\<close>

definition tasklet_step :: "blink_env \<Rightarrow> u32 \<Rightarrow> mem \<Rightarrow> mem option" where
  "tasklet_step E p m =
     (let m = store16 m (p + 8) (load16 m (p + 8) - 1) in
      if 0 < sint (load16 m (p + 8)) then Some m
      else map_option
        (\<lambda>(dx, m). let m = store16 m (p + 8) dx in store16 m (p + 10) (load16 m (p + 10) XOR 1))
        (if load16 m (p + 10) AND 1 \<noteq> 0
         then map_option (\<lambda>m. (load16 m (p + 6), m)) (mp1_poke E (m (p + 3)) (screen_offset m p) m)
         else map_option (\<lambda>m. (load16 m (p + 4), m)) (mp1_poke E (m (p + 2)) (screen_offset m p) m)))"

partial_function (option) tasklet_loop :: "blink_env \<Rightarrow> u32 \<Rightarrow> mem \<Rightarrow> mem option" where
  "tasklet_loop E p m =
     (if p = 0 then Some m else Option.bind (tasklet_step E p m) (\<lambda>m. tasklet_loop E (next_of m p) m))"

definition mp1_rtc_tasklet :: "blink_env \<Rightarrow> mem \<Rightarrow> mem option" where
  "mp1_rtc_tasklet E m = tasklet_loop E (load32 m (mp1_list_head E)) m"

partial_function (option) find_loop :: "mem \<Rightarrow> u16 \<Rightarrow> u32 \<Rightarrow> u32 option" where
  "find_loop m ax p =
     (if p = 0 then Some 0 else if load16 m p = ax then Some p else find_loop m ax (next_of m p))"

definition mp1_find_helper :: "blink_env \<Rightarrow> mem \<Rightarrow> u32 \<Rightarrow> u32 option" where
  "mp1_find_helper E m loc = find_loop m (ucast loc) (load32 m (mp1_list_head E))"

definition mp1_ioctl_add :: "blink_env \<Rightarrow> u32 \<Rightarrow> mem \<Rightarrow> (u32 \<times> mem) option" where
  "mp1_ioctl_add E arg m =
     (let t = stack_frame E; (r, m) = ece391_memcpy m t arg 16 in
      if r \<noteq> 0 then Some (minus_one, m)
      else if 80 * 25 \<le> load16 m t then Some (minus_one, m)
      else let m = store16 m (t + 10) 1;
               m = store16 m (t + 8) (load16 m (t + 4));
               p = mp1_malloc E m
           in if p = 0 then Some (minus_one, m)
              else let (_, m) = ece391_memcpy m p t 16;
                       m = store32 m (p + 12) (load32 m (mp1_list_head E));
                       m = store32 m (mp1_list_head E) p
                   in map_option (Pair 0) (mp1_poke E (m (p + 2)) (screen_offset m p) m))"

partial_function (option) find_prev :: "mem \<Rightarrow> u32 \<Rightarrow> u32 \<Rightarrow> u32 option" where
  "find_prev m p edx = (if load32 m edx = p then Some edx else find_prev m p (load32 m edx + 12))"

definition mp1_ioctl_remove :: "blink_env \<Rightarrow> u32 \<Rightarrow> mem \<Rightarrow> (u32 \<times> mem) option" where
  "mp1_ioctl_remove E arg m =
     Option.bind (mp1_find_helper E m arg) (\<lambda>p.
       if p = 0 then Some (minus_one, m)
       else map_option (\<lambda>edx. (0, mp1_free (store32 m edx (next_of m p)) p)) (find_prev m p (mp1_list_head E)))"

text \<open>
  The last test of sync: \<^verbatim>\<open>testb\<close> clears the overflow flag and sets the sign flag to the top
  bit of its result, and \<^verbatim>\<open>cmovl\<close> moves when the two differ.
\<close>

definition sync_copy :: "u32 \<Rightarrow> u32 \<Rightarrow> mem \<Rightarrow> mem" where
  "sync_copy si di m =
     (let m = store16 m (di + 4) (load16 m (si + 4));
          m = store16 m (di + 6) (load16 m (si + 6));
          m = store16 m (di + 8) (load16 m (si + 8))
      in store16 m (di + 10) (load16 m (si + 10)))"

definition sync_char :: "mem \<Rightarrow> u32 \<Rightarrow> u8" where
  "sync_char m di = (if bit (m (di + 10) AND 1) 7 then m (di + 2) else m (di + 3))"

definition mp1_ioctl_sync :: "blink_env \<Rightarrow> u32 \<Rightarrow> mem \<Rightarrow> (u32 \<times> mem) option" where
  "mp1_ioctl_sync E arg m =
     Option.bind (mp1_find_helper E m (drop_bit 16 arg)) (\<lambda>si.
       if si = 0 then Some (minus_one, m)
       else Option.bind (mp1_find_helper E m (arg AND 0xFFFF)) (\<lambda>di.
         if di = 0 then Some (minus_one, m)
         else let m = sync_copy si di m
              in map_option (Pair 0) (mp1_poke E (sync_char m di) (screen_offset m di) m)))"

definition mp1_ioctl_find :: "blink_env \<Rightarrow> u32 \<Rightarrow> mem \<Rightarrow> (u32 \<times> mem) option" where
  "mp1_ioctl_find E arg m =
     (let t = stack_frame E + 14; (r, m) = ece391_memcpy m t arg 2 in
      if r \<noteq> 0 then Some (minus_one, m)
      else map_option
        (\<lambda>p. if p = 0 then (minus_one, m)
              else let (r, m) = ece391_memcpy m arg p 16 in if r = 0 then (0, m) else (minus_one, m))
        (mp1_find_helper E m (ucast (load16 m t))))"

text \<open>The call table has four entries; a larger number jumps to what lies behind it.\<close>

definition mp1_ioctl :: "blink_env \<Rightarrow> u32 \<Rightarrow> u32 \<Rightarrow> mem \<Rightarrow> (u32 \<times> mem) option" where
  "mp1_ioctl E arg cmd m =
     (if cmd = 0 then mp1_ioctl_add E arg m
      else if cmd = 1 then mp1_ioctl_remove E arg m
      else if cmd = 2 then mp1_ioctl_find E arg m
      else if cmd = 3 then mp1_ioctl_sync E arg m
      else None)"

section \<open>Block routines\<close>

lemma ece391_memset_filled:
  assumes "n < 4294967296"
  shows "ece391_memset m p c (int n) = filled m p n (\<lambda>_. c)"
proof -
  have "ece391_memset_loop m p c (int i) (int (i + k)) = filled m (p + of_nat i) k (\<lambda>_. c)" if "i + k < 4294967296" for i k m
    using that
  proof (induction k arbitrary: i m)
    case 0
    then show ?case by (subst ece391_memset_loop.simps) simp
  next
    case (Suc k)
    define m1 where "m1 = m(p + of_nat i := c)"
    have "ece391_memset_loop m p c (int i) (int (i + Suc k)) = ece391_memset_loop m1 p c (int (Suc i)) (int (Suc i + k))"
      by (subst ece391_memset_loop.simps) (simp add: m1_def add.commute)
    moreover have "filled m1 (p + of_nat i + 1) k (\<lambda>_. c) = filled m (p + of_nat i) (Suc k) (\<lambda>_. c)"
      unfolding m1_def by (rule filled_Suc) (use Suc.prems in simp)
    ultimately show ?case using Suc.IH [of "Suc i" m1] Suc.prems by (simp add: add_ac)
  qed
  from this [of 0 n] show ?thesis using assms by (simp add: ece391_memset_def)
qed

lemma ece391_memcpy_copied:
  assumes "forward_ok d s n" and "n < 4294967296"
  shows "ece391_memcpy m d s (int n) = (0, copied m d s n)"
proof -
  have "ece391_memcpy_loop m d s (int i) (int (i + k)) = copied m (d + of_nat i) (s + of_nat i) k"
    if "i + k < 4294967296" "forward_ok d s k" for i k m
    using that
  proof (induction k arbitrary: i m)
    case 0
    then show ?case by (subst ece391_memcpy_loop.simps) simp
  next
    case (Suc k)
    define m1 where "m1 = m(d + of_nat i := m (s + of_nat i))"
    have "ece391_memcpy_loop m d s (int i) (int (i + Suc k)) = ece391_memcpy_loop m1 d s (int (Suc i)) (int (Suc i + k))"
      by (subst ece391_memcpy_loop.simps) (simp add: m1_def add.commute)
    moreover have "copied m1 (d + of_nat i + 1) (s + of_nat i + 1) k = copied m (d + of_nat i) (s + of_nat i) (Suc k)"
      unfolding m1_def by (rule copied_Suc) (use Suc.prems in simp_all)
    ultimately show ?case using Suc.IH [of "Suc i" m1] forward_ok_mono [OF Suc.prems(2), of k] Suc.prems(1) by (simp add: add_ac)
  qed
  from this [of 0 n] show ?thesis using assms by (simp add: ece391_memcpy_def)
qed

text \<open>The loads look at the bytes of their region only.\<close>

lemma struct_agree:
  assumes "agree (span p 16) m' m"
  shows "struct_at m' p = struct_at m p" "next_of m' p = next_of m p" "load16 m' p = load16 m p"
proof -
  have b: "m' (p + of_nat i) = m (p + of_nat i)" if "i < 16" for i
    by (rule agreeD [OF assms]) (use that in auto)
  note b = b [of 0] b [of 1] b [of 2] b [of 3] b [of 4] b [of 5] b [of 6] b [of 7] b [of 8] b [of 9] b [of 10] b [of 11]
    b [of 12] b [of 13] b [of 14] b [of 15]
  show "struct_at m' p = struct_at m p" using b by (simp add: struct_at_def load16_def add.assoc)
  show "next_of m' p = next_of m p" using b by (simp add: next_of_def load32_def add.assoc)
  show "load16 m' p = load16 m p" using b by (simp add: load16_def)
qed

lemma struct_copied:
  assumes "n = 16"
  shows "struct_at (copied m p t n) p = struct_at m t"
  by (simp add: assms struct_at_def load16_def copied_def add.assoc)

lemma struct_next: "struct_at (store32 m (p + 12) v) p = struct_at m p" "next_of (store32 m (p + 12) v) p = v"
  by (simp_all add: struct_at_def next_of_def load_store32) (simp_all add: load16_def store32_def add.assoc)

section \<open>Slots\<close>

definition slots :: "blink_env \<Rightarrow> u32 set" where
  "slots E = (\<lambda>i. blink_array E + of_nat (16 * i)) ` {..<2000}"

definition used :: "blink_env \<Rightarrow> mem \<Rightarrow> u32 set" where
  "used E m = {p \<in> slots E. load16 m p \<noteq> 0}"

lemma slotE:
  assumes "p \<in> slots E"
  obtains i where "i < 2000" "p = blink_array E + of_nat (16 * i)"
  using assms by (auto simp: slots_def)

lemma slot_within: "p \<in> slots E \<Longrightarrow> span p 16 \<subseteq> span (blink_array E) 32000"
  by (elim slotE) (simp only:, rule span_sub, simp_all)

lemma slots_apart:
  assumes "p \<in> slots E" and "q \<in> slots E" and "p \<noteq> q"
  shows "span p 16 \<inter> span q 16 = {}"
proof -
  obtain i j where i: "i < 2000" "p = blink_array E + of_nat (16 * i)" and j: "j < 2000" "q = blink_array E + of_nat (16 * j)"
    using assms(1,2) by (metis slotE)
  have less: "span (blink_array E + of_nat (16 * a)) 16 \<inter> span (blink_array E + of_nat (16 * b)) 16 = {}" if "a < b" "b < 2000" for a b
  proof -
    have "blink_array E + of_nat (16 * b) = blink_array E + of_nat (16 * a) + (of_nat (16 * (b - a)) :: u32)"
      using that by (simp add: algebra_simps of_nat_diff)
    then show ?thesis using span_apart [of 16 "16 * (b - a)" 16 "blink_array E + of_nat (16 * a)"] that by simp
  qed
  have "i \<noteq> j" using assms(3) i j by auto
  then show ?thesis using less [of i j] less [of j i] i j by (cases "i < j") (auto simp: Int_commute)
qed

lemma card_slots: "card (slots E) = 2000"
proof -
  have "inj_on (\<lambda>i. blink_array E + of_nat (16 * i)) {..<2000}"
  proof (rule inj_onI)
    fix x y :: nat
    assume "x \<in> {..<2000}" "y \<in> {..<2000}" "blink_array E + of_nat (16 * x) = blink_array E + of_nat (16 * y)"
    then show "x = y" using of_nat32_inj [of "16 * x" "16 * y"] by (simp only: add_left_cancel) simp
  qed
  then show ?thesis by (simp add: slots_def card_image)
qed

text \<open>The allocator delivers a slot that counts as free, or NULL when there is none.\<close>

lemma mp1_malloc_free:
  assumes "used E m \<noteq> slots E"
  shows "mp1_malloc E m \<in> slots E - used E m"
proof -
  have "mp1_malloc_loop E m (int i) \<in> slots E - used E m"
    if "i \<le> 2000" "\<exists>j. i \<le> j \<and> j < 2000 \<and> load16 m (blink_array E + of_nat (16 * j)) = 0" for i
    using that
  proof (induction "2000 - i" arbitrary: i)
    case 0
    then show ?case by auto
  next
    case (Suc n)
    show ?case
    proof (cases "load16 m (blink_array E + of_nat (16 * i)) = 0")
      case True
      then show ?thesis using Suc.hyps(2) by (subst mp1_malloc_loop.simps) (auto simp: slots_def used_def)
    next
      case False
      then have "\<exists>j. Suc i \<le> j \<and> j < 2000 \<and> load16 m (blink_array E + of_nat (16 * j)) = 0"
        using Suc.prems(2) by (metis Suc_leI le_neq_implies_less)
      moreover have "i < 2000" using Suc.hyps(2) by simp
      ultimately show ?thesis using Suc.hyps(1) [of "Suc i"] Suc.hyps(2) False by (subst mp1_malloc_loop.simps) (simp add: add.commute)
    qed
  qed
  from this [of 0] show ?thesis using assms by (auto simp: used_def slots_def mp1_malloc_def)
qed

lemma mp1_malloc_full:
  assumes "used E m = slots E"
  shows "mp1_malloc E m = 0"
proof -
  have "mp1_malloc_loop E m (int i) = 0" if "i \<le> 2000" for i
    using that
  proof (induction "2000 - i" arbitrary: i)
    case 0
    then show ?case by (subst mp1_malloc_loop.simps) simp
  next
    case (Suc n)
    have "blink_array E + of_nat (16 * i) \<in> slots E" using Suc.hyps(2) by (auto simp: slots_def)
    then have "load16 m (blink_array E + of_nat (16 * i)) \<noteq> 0" using assms by (auto simp: used_def)
    then show ?case using Suc.hyps(1) [of "Suc i"] Suc.hyps(2) by (subst mp1_malloc_loop.simps) (simp add: add.commute)
  qed
  from this [of 0] show ?thesis by (simp add: mp1_malloc_def)
qed

section \<open>Blinkers and their picture\<close>

text \<open>
  What the device promises, without memory: blinkers in a list, the newest first, and the
  characters of the picture by location.
\<close>

definition due :: "mp1_blink_struct \<Rightarrow> bool" where
  "due b \<longleftrightarrow> sint (countdown b - 1) \<le> 0"

definition shining :: "mp1_blink_struct \<Rightarrow> bool" where
  "shining b \<longleftrightarrow> status b AND 1 \<noteq> 0"

definition ticked :: "mp1_blink_struct \<Rightarrow> mp1_blink_struct" where
  "ticked b = (if due b then b\<lparr>countdown := if shining b then off_length b else on_length b, status := status b XOR 1\<rparr>
             else b\<lparr>countdown := countdown b - 1\<rparr>)"

definition paint :: "mp1_blink_struct \<Rightarrow> u8 \<Rightarrow> (nat \<Rightarrow> u8) \<Rightarrow> nat \<Rightarrow> u8" where
  "paint b c pic = pic(unat (location b) := c)"

definition tick_paint :: "mp1_blink_struct \<Rightarrow> (nat \<Rightarrow> u8) \<Rightarrow> nat \<Rightarrow> u8" where
  "tick_paint b pic = (if due b then paint b (if shining b then off_char b else on_char b) pic else pic)"

text \<open>The list in memory.\<close>

fun chain :: "mem \<Rightarrow> u32 \<Rightarrow> u32 list \<Rightarrow> bool" where
  "chain m p [] \<longleftrightarrow> p = 0"
| "chain m p (q # qs) \<longleftrightarrow> p = q \<and> q \<noteq> 0 \<and> chain m (next_of m q) qs"

lemma chain_cong: "(\<And>q. q \<in> set qs \<Longrightarrow> next_of m' q = next_of m q) \<Longrightarrow> chain m' p qs = chain m p qs"
  by (induction qs arbitrary: p) auto

text \<open>The screen: the characters are its even bytes.\<close>

definition chars :: "u32 \<Rightarrow> u32 set" where
  "chars scr = (\<lambda>l. scr + of_nat (2 * l)) ` {..<2000}"

definition picture :: "u32 \<Rightarrow> mem \<Rightarrow> nat \<Rightarrow> u8" where
  "picture scr m = (\<lambda>l. if l < 2000 then m (scr + of_nat (2 * l)) else 0)"

lemma chars_within: "chars scr \<subseteq> span scr 4000"
  by (auto simp: chars_def intro!: span_add simp del: of_nat_mult)

lemma picture_agree: "agree (chars scr) m' m \<Longrightarrow> picture scr m' = picture scr m"
  by (auto simp: picture_def agree_def chars_def)

text \<open>The places do not overlap, and the variable \<^verbatim>\<open>vmem_base_addr\<close> leads to the screen.\<close>

definition placed :: "blink_env \<Rightarrow> u32 \<Rightarrow> bool" where
  "placed E scr \<longleftrightarrow> 0 \<notin> span (blink_array E) 32000
     \<and> span (blink_array E) 32000 \<inter> (span (mp1_list_head E) 4 \<union> span (vmem_base_addr E) 4 \<union> span (stack_frame E) 16 \<union> span scr 4000) = {}
     \<and> span (mp1_list_head E) 4 \<inter> (span (vmem_base_addr E) 4 \<union> span (stack_frame E) 16 \<union> span scr 4000) = {}
     \<and> span (vmem_base_addr E) 4 \<inter> (span (stack_frame E) 16 \<union> span scr 4000) = {}
     \<and> span (stack_frame E) 16 \<inter> span scr 4000 = {}"

definition window :: "blink_env \<Rightarrow> u32 \<Rightarrow> mem \<Rightarrow> bool" where
  "window E scr m \<longleftrightarrow> (\<forall>k < 4000. page_view E (load32 m (vmem_base_addr E) + of_nat k) = Some (scr + of_nat k))"

lemma window_agree: "agree (span (vmem_base_addr E) 4) m' m \<Longrightarrow> window E scr m' = window E scr m"
  using load32_agree_span by (simp add: window_def)

lemma mp1_poke_paints:
  assumes "window E scr m" and "location (struct_at m p) < 2000"
  obtains m' where "mp1_poke E c (screen_offset m p) m = Some m'" "agree (- chars scr) m' m"
    "picture scr m' = paint (struct_at m p) c (picture scr m)"
proof -
  let ?l = "unat (load16 m p)"
  have l: "?l < 2000" using assms(2) by (simp add: struct_at_def word_less_nat_alt)
  have o: "screen_offset m p = of_nat (2 * ?l)"
    by (simp add: screen_offset_def push_bit_eq_mult unsigned_ucast_eq of_nat_unat)
  have v: "page_view E (load32 m (vmem_base_addr E) + of_nat (2 * ?l)) = Some (scr + of_nat (2 * ?l))"
    using assms(1) [unfolded window_def, rule_format, of "2 * ?l"] l by simp
  define m' where "m' = m(scr + of_nat (2 * ?l) := c)"
  show thesis
  proof (rule that [of m'])
    show "mp1_poke E c (screen_offset m p) m = Some m'" by (simp only: mp1_poke_def o v m'_def option.map)
    have "scr + of_nat (2 * ?l) \<in> chars scr" unfolding chars_def using l by blast
    then show "agree (- chars scr) m' m" by (auto simp: agree_def m'_def)
    have "(of_nat (2 * k) :: u32) = of_nat (2 * ?l) \<longleftrightarrow> k = ?l" if "k < 2000" for k
      using of_nat32_inj [of "2 * k" "2 * ?l"] that l by simp
    then show "picture scr m' = paint (struct_at m p) c (picture scr m)"
      using l by (intro ext) (simp add: picture_def paint_def m'_def struct_at_def del: of_nat_mult)
  qed
qed

lemma placedD:
  assumes "placed E scr" and "p \<in> slots E"
  shows "p \<noteq> 0" "span p 16 \<inter> chars scr = {}" "span p 16 \<inter> span (mp1_list_head E) 4 = {}" "span p 16 \<inter> span (vmem_base_addr E) 4 = {}"
    "span p 16 \<inter> span (stack_frame E) 16 = {}"
proof -
  have "p \<in> span p 16" by (simp add: span_def)
  then show "p \<noteq> 0" using assms slot_within [OF assms(2)] by (auto simp: placed_def)
qed (use assms slot_within [OF assms(2)] chars_within [of scr] in \<open>auto simp: placed_def\<close>)

lemma placed_vars:
  assumes "placed E scr"
  shows "span (mp1_list_head E) 4 \<inter> chars scr = {}" "span (vmem_base_addr E) 4 \<inter> chars scr = {}" "span (stack_frame E) 16 \<inter> chars scr = {}"
    "span (mp1_list_head E) 4 \<inter> span (vmem_base_addr E) 4 = {}" "span (mp1_list_head E) 4 \<inter> span (stack_frame E) 16 = {}"
    "span (vmem_base_addr E) 4 \<inter> span (stack_frame E) 16 = {}"
  using assms chars_within [of scr] by (auto simp: placed_def)

section \<open>The tasklet\<close>

lemma field_span: "k + n \<le> 16 \<Longrightarrow> span (p + of_nat k) n \<subseteq> span p 16"
  by (rule span_sub) simp_all

lemma struct_stores:
  "struct_at (store16 m (p + 8) v) p = (struct_at m p)\<lparr>countdown := v\<rparr>" "next_of (store16 m (p + 8) v) p = next_of m p"
  "struct_at (store16 m (p + 10) v) p = (struct_at m p)\<lparr>status := v\<rparr>" "next_of (store16 m (p + 10) v) p = next_of m p"
  "struct_at (store16 m (p + 4) v) p = (struct_at m p)\<lparr>on_length := v\<rparr>" "next_of (store16 m (p + 4) v) p = next_of m p"
  "struct_at (store16 m (p + 6) v) p = (struct_at m p)\<lparr>off_length := v\<rparr>" "next_of (store16 m (p + 6) v) p = next_of m p"
  by (simp_all add: struct_at_def next_of_def mem_simps) (simp_all add: load16_def load32_def store16_def add.assoc)

lemma struct_store_agree:
  "agree (- span p 16) (store16 m (p + 8) v) m" "agree (- span p 16) (store16 m (p + 10) v) m"
  "agree (- span p 16) (store16 m (p + 4) v) m" "agree (- span p 16) (store16 m (p + 6) v) m" "agree (- span p 16) (store32 m (p + 12) w) m"
  by (auto simp: agree_def store16_def store32_def span_def)

lemma struct_fields:
  "load16 m p = location (struct_at m p)" "m (p + 2) = on_char (struct_at m p)" "m (p + 3) = off_char (struct_at m p)"
  "load16 m (p + 4) = on_length (struct_at m p)" "load16 m (p + 6) = off_length (struct_at m p)"
  "load16 m (p + 8) = countdown (struct_at m p)" "load16 m (p + 10) = status (struct_at m p)"
  by (simp_all add: struct_at_def)

lemma tasklet_step_ticks:
  assumes "placed E scr" and "window E scr m" and "p \<in> slots E" and "location (struct_at m p) < 2000"
  obtains m' where "tasklet_step E p m = Some m'" "struct_at m' p = ticked (struct_at m p)" "next_of m' p = next_of m p"
    "agree (- (span p 16 \<union> chars scr)) m' m" "picture scr m' = tick_paint (struct_at m p) (picture scr m)"
proof -
  let ?b = "struct_at m p"
  define m1 where "m1 = store16 m (p + 8) (countdown ?b - 1)"
  have b1: "struct_at m1 p = ?b\<lparr>countdown := countdown ?b - 1\<rparr>" "next_of m1 p = next_of m p" "agree (- span p 16) m1 m"
    by (simp_all add: m1_def struct_stores struct_store_agree)
  have c: "picture scr m1 = picture scr m" by (rule picture_agree, rule agree_sub [OF b1(3)]) (use placedD(2) [OF assms(1,3)] in auto)
  have w: "window E scr m1" using window_agree [OF agree_sub [OF b1(3)], of E] placedD(4) [OF assms(1,3)] assms(2) by auto
  define cl dx where "cl = (if shining ?b then off_char ?b else on_char ?b)" and "dx = (if shining ?b then off_length ?b else on_length ?b)"
  obtain m2 where m2: "mp1_poke E cl (screen_offset m1 p) m1 = Some m2" "agree (- chars scr) m2 m1" "picture scr m2 = paint (struct_at m1 p) cl (picture scr m1)"
    by (rule mp1_poke_paints [OF w, of p cl]) (simp_all add: b1(1) assms(4))
  have s2: "struct_at m2 p = struct_at m1 p" "next_of m2 p = next_of m1 p"
    using struct_agree [OF agree_sub [OF m2(2)], of p] placedD(2) [OF assms(1,3)] by auto
  define m3 where "m3 = store16 (store16 m2 (p + 8) dx) (p + 10) (status ?b XOR 1)"
  have s3: "struct_at m3 p = ?b\<lparr>countdown := dx, status := status ?b XOR 1\<rparr>" "next_of m3 p = next_of m p"
    by (simp_all add: m3_def struct_stores s2 b1)
  have a3: "agree (- span p 16) m3 m2"
    unfolding m3_def by (rule agree_trans [OF struct_store_agree(2) struct_store_agree(1)])
  have st: "tasklet_step E p m = Some (if due ?b then m3 else m1)"
    using m2(1)
    by (cases "shining ?b") (simp_all add: tasklet_step_def Let_def struct_fields(2-) m1_def [symmetric] b1(1) s2 due_def shining_def cl_def dx_def m3_def struct_stores)
  show thesis
  proof (rule that [OF st])
    have "agree (- (span p 16 \<union> chars scr)) m3 m"
      using a3 m2(2) b1(3) by (auto simp: agree_def)
    then show "agree (- (span p 16 \<union> chars scr)) (if due ?b then m3 else m1) m" using b1(3) by (auto simp: agree_def)
    have "picture scr m3 = picture scr m2" by (rule picture_agree, rule agree_sub [OF a3]) (use placedD(2) [OF assms(1,3)] in auto)
    then show "picture scr (if due ?b then m3 else m1) = tick_paint ?b (picture scr m)"
      using m2(3) c b1(1) by (simp add: tick_paint_def paint_def cl_def)
  qed (simp_all add: s3 b1 ticked_def dx_def)
qed

abbreviation slot_bytes :: "u32 list \<Rightarrow> u32 set" where
  "slot_bytes ps \<equiv> (\<Union>p \<in> set ps. span p 16)"

lemma tasklet_loop_ticks:
  assumes "placed E scr" and "window E scr m" and "set ps \<subseteq> slots E" and "distinct ps" and "chain m p ps"
    and "\<forall>q \<in> set ps. location (struct_at m q) < 2000"
  shows "\<exists>m'. tasklet_loop E p m = Some m' \<and> map (struct_at m') ps = map (ticked \<circ> struct_at m) ps \<and> chain m' p ps
    \<and> agree (- (slot_bytes ps \<union> chars scr)) m' m \<and> picture scr m' = fold tick_paint (map (struct_at m) ps) (picture scr m)"
  using assms(2-)
proof (induction ps arbitrary: p m)
  case Nil
  then show ?case by (simp add: tasklet_loop.simps agree_def)
next
  case (Cons q qs)
  have p: "p = q" "q \<noteq> 0" "chain m (next_of m q) qs" "q \<in> slots E" "q \<notin> set qs" using Cons.prems by auto
  obtain m1 where m1: "tasklet_step E q m = Some m1" "struct_at m1 q = ticked (struct_at m q)" "next_of m1 q = next_of m q"
      "agree (- (span q 16 \<union> chars scr)) m1 m" "picture scr m1 = tick_paint (struct_at m q) (picture scr m)"
    by (rule tasklet_step_ticks [OF assms(1) Cons.prems(1) p(4)]) (use Cons.prems(5) in auto)
  have far: "span r 16 \<inter> span q 16 = {}" "span r 16 \<inter> chars scr = {}" if "r \<in> set qs" for r
    using that Cons.prems(2) p(4,5) slots_apart [of r E q] placedD(2) [OF assms(1), of r] by auto
  have same: "struct_at m1 r = struct_at m r" "next_of m1 r = next_of m r" if "r \<in> set qs" for r
    using struct_agree [OF agree_sub [OF m1(4)], of r] far [OF that] by auto
  have w: "window E scr m1"
    using window_agree [OF agree_sub [OF m1(4)], of E scr] placedD(4) [OF assms(1) p(4)] placed_vars(2) [OF assms(1)] Cons.prems(1) by auto
  have "chain m1 (next_of m1 q) qs" using p(3) m1(3) chain_cong [of qs m1 m] same(2) by simp
  then obtain m2 where m2: "tasklet_loop E (next_of m1 q) m1 = Some m2" "map (struct_at m2) qs = map (ticked \<circ> struct_at m1) qs"
      "chain m2 (next_of m1 q) qs" "agree (- (slot_bytes qs \<union> chars scr)) m2 m1"
      "picture scr m2 = fold tick_paint (map (struct_at m1) qs) (picture scr m1)"
    using Cons.IH [OF w, of "next_of m1 q"] Cons.prems(2,3,5) same(1) by auto
  have "span q 16 \<subseteq> - (slot_bytes qs \<union> chars scr)" using far(1) placedD(2) [OF assms(1) p(4)] by blast
  note keep = struct_agree(1,2) [OF agree_sub [OF m2(4) this]]
  have mp: "map (struct_at m1) qs = map (struct_at m) qs" using same(1) by simp
  have "tasklet_loop E p m = Some m2" using p(1,2) m1(1) m2(1) by (simp add: tasklet_loop.simps [of E q m])
  moreover have "map (struct_at m2) (q # qs) = map (ticked \<circ> struct_at m) (q # qs)"
    using keep(1) m1(2) m2(2) same(1) by simp
  moreover have "chain m2 p (q # qs)" using p(1,2) m2(3) keep(2) by simp
  moreover have "agree (- (slot_bytes (q # qs) \<union> chars scr)) m2 m" using m1(4) m2(4) by (auto simp: agree_def)
  moreover have "picture scr m2 = fold tick_paint (map (struct_at m) (q # qs)) (picture scr m)" using m2(5) m1(5) mp by simp
  ultimately show ?case by blast
qed

section \<open>The representation\<close>

text \<open>The slots in use are exactly those of the list, which holds the blinkers \<open>bs\<close>.\<close>

definition held :: "blink_env \<Rightarrow> mem \<Rightarrow> u32 list \<Rightarrow> mp1_blink_struct list \<Rightarrow> bool" where
  "held E m ps bs \<longleftrightarrow> chain m (load32 m (mp1_list_head E)) ps \<and> distinct ps \<and> set ps = used E m \<and> map (struct_at m) ps = bs
     \<and> (\<forall>b \<in> set bs. location b < 2000)"

definition blinking :: "blink_env \<Rightarrow> u32 \<Rightarrow> mem \<Rightarrow> mp1_blink_struct list \<Rightarrow> (nat \<Rightarrow> u8) \<Rightarrow> bool" where
  "blinking E scr m bs pic \<longleftrightarrow> placed E scr \<and> window E scr m \<and> picture scr m = pic \<and> (\<exists>ps. held E m ps bs)"

text \<open>The memory the device may write.\<close>

definition owned :: "blink_env \<Rightarrow> u32 \<Rightarrow> u32 set" where
  "owned E scr = span (blink_array E) 32000 \<union> span (mp1_list_head E) 4 \<union> span (stack_frame E) 16 \<union> chars scr"

lemma blinkingE:
  assumes "blinking E scr m bs pic"
  obtains ps where "placed E scr" "window E scr m" "picture scr m = pic" "chain m (load32 m (mp1_list_head E)) ps" "distinct ps"
    "set ps = used E m" "set ps \<subseteq> slots E" "map (struct_at m) ps = bs" "\<forall>b \<in> set bs. location b < 2000"
  using assms by (auto simp: blinking_def held_def used_def)

lemma slot_bytes_owned: "set ps \<subseteq> slots E \<Longrightarrow> slot_bytes ps \<subseteq> owned E scr"
  using slot_within by (fastforce simp: owned_def)

lemma owned_vmem: "placed E scr \<Longrightarrow> span (vmem_base_addr E) 4 \<inter> owned E scr = {}"
  using chars_within [of scr] by (auto simp: owned_def placed_def)

lemma owned_window: "placed E scr \<Longrightarrow> agree (- owned E scr) m' m \<Longrightarrow> window E scr m' = window E scr m"
  by (rule window_agree, rule agree_sub) (use owned_vmem in blast)+

lemma used_cong: "(\<And>p. p \<in> slots E \<Longrightarrow> load16 m' p = load16 m p) \<Longrightarrow> used E m' = used E m"
  by (auto simp: used_def)

lemma located: "load16 m p = location (struct_at m p)"
  by (simp add: struct_at_def)

lemma location_ticked [simp]: "location (ticked b) = location b"
  by (simp add: ticked_def)

lemma tasklet_refines:
  assumes "blinking E scr m bs pic"
  obtains m' where "mp1_rtc_tasklet E m = Some m'" "blinking E scr m' (map ticked bs) (fold tick_paint bs pic)" "agree (- owned E scr) m' m"
proof -
  obtain ps where ps: "placed E scr" "window E scr m" "picture scr m = pic" "chain m (load32 m (mp1_list_head E)) ps" "distinct ps"
      "set ps = used E m" "set ps \<subseteq> slots E" "map (struct_at m) ps = bs" "\<forall>b \<in> set bs. location b < 2000"
    by (rule blinkingE [OF assms])
  have "\<forall>q \<in> set ps. location (struct_at m q) < 2000" using ps(8,9) by auto
  then obtain m' where m': "tasklet_loop E (load32 m (mp1_list_head E)) m = Some m'" "map (struct_at m') ps = map (ticked \<circ> struct_at m) ps"
      "chain m' (load32 m (mp1_list_head E)) ps" "agree (- (slot_bytes ps \<union> chars scr)) m' m"
      "picture scr m' = fold tick_paint (map (struct_at m) ps) (picture scr m)"
    using tasklet_loop_ticks [OF ps(1,2,7,5,4)] by blast
  have "span (mp1_list_head E) 4 \<inter> (slot_bytes ps \<union> chars scr) = {}"
    using ps(7) placedD(3) [OF ps(1)] placed_vars(1) [OF ps(1)] by blast
  then have h: "load32 m' (mp1_list_head E) = load32 m (mp1_list_head E)" using agree_sub [OF m'(4)] by (intro load32_agree_span) blast
  have a: "agree (- owned E scr) m' m"
    by (rule agree_sub [OF m'(4)]) (use slot_bytes_owned [OF ps(7), of scr] in \<open>auto simp: owned_def\<close>)
  have "used E m' = used E m"
  proof (rule used_cong)
    fix p assume p: "p \<in> slots E"
    show "load16 m' p = load16 m p"
    proof (cases "p \<in> set ps")
      case True
      then show ?thesis using m'(2) by (simp add: located)
    next
      case False
      then have "span p 16 \<inter> (slot_bytes ps \<union> chars scr) = {}"
        using p ps(7) slots_apart [of p E] placedD(2) [OF ps(1) p] by fast
      then show ?thesis using agree_sub [OF m'(4)] by (intro struct_agree(3)) blast
    qed
  qed
  then have "held E m' ps (map ticked bs)" using m'(2,3) h ps by (auto simp: held_def)
  then have "blinking E scr m' (map ticked bs) (fold tick_paint bs pic)"
    using ps(1-3,8) m'(5) owned_window [OF ps(1) a] by (auto simp: blinking_def)
  then show thesis using m'(1) a that by (simp add: mp1_rtc_tasklet_def)
qed

section \<open>Finding a blinker\<close>

lemma find_loop_finds:
  assumes "chain m p ps"
  shows "find_loop m ax p = Some (case find (\<lambda>q. load16 m q = ax) ps of None \<Rightarrow> 0 | Some q \<Rightarrow> q)"
  using assms
proof (induction ps arbitrary: p)
  case Nil
  then show ?case by (simp add: find_loop.simps)
next
  case (Cons q qs)
  then show ?case by (simp add: find_loop.simps [of m ax q])
qed

lemma find_split:
  "find P xs = Some q \<Longrightarrow> \<exists>ys zs. xs = ys @ q # zs \<and> P q \<and> (\<forall>y \<in> set ys. \<not> P y)"
proof (induction xs)
  case (Cons x xs)
  show ?case
  proof (cases "P x")
    case True
    then have "x # xs = [] @ q # xs" "P q" using Cons.prems by auto
    then show ?thesis by (intro exI [of _ "[]"] exI [of _ xs]) simp
  next
    case False
    then obtain ys zs where "xs = ys @ q # zs" "P q" "\<forall>y \<in> set ys. \<not> P y" using Cons by auto
    then show ?thesis using False by (intro exI [of _ "x # ys"] exI [of _ zs]) simp
  qed
qed simp

text \<open>A search either fails or stops at the first blinker with the location.\<close>

definition at_location :: "u16 \<Rightarrow> mp1_blink_struct list \<Rightarrow> bool" where
  "at_location l bs \<longleftrightarrow> l \<in> location ` set bs"

lemma find_helper_cases:
  assumes "chain m (load32 m (mp1_list_head E)) ps" and "0 \<notin> set ps"
  obtains (missing) "mp1_find_helper E m loc = Some 0" "\<not> at_location (ucast loc) (map (struct_at m) ps)"
  | (found) q xs ys where "mp1_find_helper E m loc = Some q" "ps = xs @ q # ys" "q \<noteq> 0" "location (struct_at m q) = ucast loc"
      "\<not> at_location (ucast loc) (map (struct_at m) xs)" "at_location (ucast loc) (map (struct_at m) ps)"
proof (cases "find (\<lambda>q. load16 m q = ucast loc) ps")
  case None
  then have "mp1_find_helper E m loc = Some 0" by (simp add: mp1_find_helper_def find_loop_finds [OF assms(1)])
  moreover have "\<not> at_location (ucast loc) (map (struct_at m) ps)" using None by (auto simp: find_None_iff at_location_def located)
  ultimately show thesis by (rule missing)
next
  case (Some q)
  then obtain xs ys where x: "ps = xs @ q # ys" "load16 m q = ucast loc" "\<forall>y \<in> set xs. load16 m y \<noteq> ucast loc"
    using find_split [OF Some] by blast
  have f: "mp1_find_helper E m loc = Some q" using Some by (simp add: mp1_find_helper_def find_loop_finds [OF assms(1)])
  show thesis
    by (rule found [OF f x(1)]) (use x assms(2) in \<open>auto simp: at_location_def located\<close>)
qed

text \<open>The place that points to a member of the list.\<close>

definition link_to :: "blink_env \<Rightarrow> u32 list \<Rightarrow> u32" where
  "link_to E xs = (if xs = [] then mp1_list_head E else last xs + 12)"

lemma find_prev_finds:
  assumes "chain m (load32 m e) (xs @ q # ys)" and "q \<notin> set xs"
  shows "find_prev m q e = Some (if xs = [] then e else last xs + 12)"
  using assms
proof (induction xs arbitrary: e)
  case Nil
  then show ?case by (simp add: find_prev.simps)
next
  case (Cons x xs)
  then have "load32 m e = x" "x \<noteq> q" "chain m (load32 m (x + 12)) (xs @ q # ys)" by (auto simp: next_of_def)
  then show ?case using Cons.IH [of "x + 12"] Cons.prems(2) by (simp add: find_prev.simps [of m q e])
qed

section \<open>Adding a blinker\<close>

definition fresh_blinker :: "mp1_blink_struct \<Rightarrow> mp1_blink_struct" where
  "fresh_blinker b = b\<lparr>status := 1, countdown := on_length b\<rparr>"

definition added :: "mp1_blink_struct \<Rightarrow> mp1_blink_struct list \<Rightarrow> (nat \<Rightarrow> u8) \<Rightarrow> u32 \<times> mp1_blink_struct list \<times> (nat \<Rightarrow> u8)" where
  "added b bs pic = (if 2000 \<le> location b \<or> length bs = 2000 then (minus_one, bs, pic)
     else (0, fresh_blinker b # bs, paint b (on_char b) pic))"

lemma held_agree:
  assumes "held E m ps bs" and "agree (span (blink_array E) 32000 \<union> span (mp1_list_head E) 4) m' m"
  shows "held E m' ps bs"
proof -
  have s: "struct_at m' p = struct_at m p" "next_of m' p = next_of m p" "load16 m' p = load16 m p" if "p \<in> slots E" for p
    using struct_agree [OF agree_sub [OF assms(2)], of p] slot_within [OF that] by auto
  have sub: "set ps \<subseteq> slots E" "set ps = used E m" using assms(1) by (auto simp: held_def used_def)
  have "chain m' (load32 m (mp1_list_head E)) ps = chain m (load32 m (mp1_list_head E)) ps"
    by (rule chain_cong) (use s(2) sub(1) in blast)
  moreover have "load32 m' (mp1_list_head E) = load32 m (mp1_list_head E)"
    by (rule load32_agree_span, rule agree_sub [OF assms(2)]) simp
  moreover have "map (struct_at m) ps = bs" using assms(1) by (simp add: held_def)
  then have "map (struct_at m') ps = bs" by (rule trans [rotated]) (use s(1) sub(1) in \<open>auto intro!: map_cong\<close>)
  ultimately show ?thesis using assms(1) used_cong [of E m' m] s(3) by (simp add: held_def)
qed

lemma held_push:
  assumes "held E m ps bs" and "p \<in> slots E - used E m" and "p \<noteq> 0" and "struct_at m' p = b" and "next_of m' p = load32 m (mp1_list_head E)"
    and "load32 m' (mp1_list_head E) = p" and "\<And>r. r \<in> slots E \<Longrightarrow> r \<noteq> p \<Longrightarrow> agree (span r 16) m' m"
    and "location b \<noteq> 0" and "location b < 2000"
  shows "held E m' (p # ps) (b # bs)"
proof -
  have sub: "set ps \<subseteq> slots E" "set ps = used E m" "p \<notin> set ps" using assms(1,2) by (auto simp: held_def used_def)
  have "agree (span r 16) m' m" if "r \<in> set ps" for r using that sub assms(7) by blast
  note s = struct_agree [OF this]
  have "chain m' (load32 m (mp1_list_head E)) ps = chain m (load32 m (mp1_list_head E)) ps" by (rule chain_cong) (rule s(2))
  then have "chain m' p (p # ps)" using assms(1,3,5) by (simp add: held_def)
  moreover have "r \<in> used E m' \<longleftrightarrow> r \<in> insert p (used E m)" for r
    using assms(2,4,8) struct_agree(3) [OF assms(7), of r] by (cases "r = p") (auto simp: used_def located)
  moreover have "map (struct_at m') ps = bs" using assms(1) s(1) by (auto simp: held_def)
  ultimately show ?thesis using assms(1,4,6,9) sub by (auto simp: held_def)
qed

lemma held_length: "held E m ps bs \<Longrightarrow> used E m = slots E \<longleftrightarrow> length bs = 2000"
proof -
  assume h: "held E m ps bs"
  then have "length bs = card (used E m)" by (metis distinct_card held_def length_map)
  moreover have "used E m \<subseteq> slots E" "finite (slots E)" by (auto simp: used_def slots_def)
  ultimately show "used E m = slots E \<longleftrightarrow> length bs = 2000" by (metis card_slots card_subset_eq)
qed

lemma forward_apart:
  assumes "span d 16 \<inter> span s 16 = {}"
  shows "forward_ok d s 16"
proof -
  have "d \<in> span d 16" by (simp add: span_def)
  then have "d \<notin> span s 16" using assms by blast
  then show ?thesis by (simp add: forward_ok_def span_def)
qed

lemma copied_agree: "agree (- span d n) (copied m d s n) m"
  by (simp add: agree_def copied_def span_def)

lemma frame_kept:
  assumes "blinking E scr m bs pic" and "agree (- span (stack_frame E) 16) m' m"
  shows "blinking E scr m' bs pic" "agree (- owned E scr) m' m"
proof -
  obtain ps where ps: "held E m ps bs" and ok: "placed E scr" "window E scr m" "picture scr m = pic"
    using assms(1) by (auto simp: blinking_def)
  show a: "agree (- owned E scr) m' m" by (rule agree_sub [OF assms(2)]) (auto simp: owned_def)
  have "held E m' ps bs" by (rule held_agree [OF ps], rule agree_sub [OF assms(2)]) (use ok(1) in \<open>auto simp: placed_def\<close>)
  moreover have "picture scr m' = pic"
    using ok(3) picture_agree [OF agree_sub [OF assms(2)], of scr] placed_vars(3) [OF ok(1)] by auto
  ultimately show "blinking E scr m' bs pic" using ok(1,2) owned_window [OF ok(1) a] by (auto simp: blinking_def)
qed

text \<open>The structure is prepared in the frame of the call.\<close>

lemma request_prepared:
  fixes m :: mem
  assumes "span (stack_frame E) 16 \<inter> span arg 16 = {}"
  defines "m1 \<equiv> copied m (stack_frame E) arg 16"
  defines "m2 \<equiv> store16 (store16 m1 (stack_frame E + 10) 1) (stack_frame E + 8) (on_length (struct_at m arg))"
  shows "ece391_memcpy m (stack_frame E) arg 16 = (0, m1)" "struct_at m1 (stack_frame E) = struct_at m arg" "agree (- span (stack_frame E) 16) m1 m"
    "struct_at m2 (stack_frame E) = fresh_blinker (struct_at m arg)" "agree (- span (stack_frame E) 16) m2 m"
proof -
  show "ece391_memcpy m (stack_frame E) arg 16 = (0, m1)"
    using ece391_memcpy_copied [OF forward_apart [OF assms(1)], of m] by (simp add: m1_def)
  show s: "struct_at m1 (stack_frame E) = struct_at m arg" and a: "agree (- span (stack_frame E) 16) m1 m"
    by (simp_all add: m1_def struct_copied copied_agree)
  show "struct_at m2 (stack_frame E) = fresh_blinker (struct_at m arg)" by (simp add: m2_def struct_stores s fresh_blinker_def)
  show "agree (- span (stack_frame E) 16) m2 m"
    unfolding m2_def by (rule agree_trans [OF struct_store_agree(1) agree_trans [OF struct_store_agree(2) a]])
qed

text \<open>It is copied to a free slot, which becomes the head of the list.\<close>

lemma slot_linked:
  assumes "placed E scr" and "p \<in> slots E" and "struct_at m (stack_frame E) = b"
  defines "m1 \<equiv> store32 (copied m p (stack_frame E) 16) (p + 12) (load32 m (mp1_list_head E))"
  defines "m2 \<equiv> store32 m1 (mp1_list_head E) p"
  shows "ece391_memcpy m p (stack_frame E) 16 = (0, copied m p (stack_frame E) 16)"
    "load32 (copied m p (stack_frame E) 16) (mp1_list_head E) = load32 m (mp1_list_head E)"
    "struct_at m2 p = b" "next_of m2 p = load32 m (mp1_list_head E)" "agree (- (span p 16 \<union> span (mp1_list_head E) 4)) m2 m"
proof -
  let ?c = "copied m p (stack_frame E) 16"
  note d = placedD [OF assms(1,2)]
  show "ece391_memcpy m p (stack_frame E) 16 = (0, ?c)" using ece391_memcpy_copied [OF forward_apart [OF d(5)], of m] by simp
  have c: "agree (- span p 16) ?c m" by (rule copied_agree)
  show h: "load32 ?c (mp1_list_head E) = load32 m (mp1_list_head E)"
    by (rule load32_agree_span, rule agree_sub [OF c]) (use d(3) in blast)
  have m1: "struct_at m1 p = b" "next_of m1 p = load32 m (mp1_list_head E)" "agree (- span p 16) m1 m"
    unfolding m1_def struct_next using assms(3) by (simp_all add: struct_copied agree_trans [OF struct_store_agree(5) c])
  have m2: "agree (- span (mp1_list_head E) 4) m2 m1" unfolding m2_def by (rule store32_agree)
  have "agree (span p 16) m2 m1" by (rule agree_sub [OF m2]) (use d(3) in blast)
  note s = struct_agree [OF this]
  show "struct_at m2 p = b" "next_of m2 p = load32 m (mp1_list_head E)" using s m1 by simp_all
  show "agree (- (span p 16 \<union> span (mp1_list_head E) 4)) m2 m" using m1(3) m2 by (auto simp: agree_def)
qed

lemma mp1_malloc_cong:
  assumes "\<And>p. p \<in> slots E \<Longrightarrow> load16 m' p = load16 m p"
  shows "mp1_malloc E m' = mp1_malloc E m"
proof -
  have "mp1_malloc_loop E m' (int i) = mp1_malloc_loop E m (int i)" if "i \<le> 2000" for i
    using that
  proof (induction "2000 - i" arbitrary: i)
    case 0
    then show ?case by (simp add: mp1_malloc_loop.simps)
  next
    case (Suc n)
    then have "load16 m' (blink_array E + of_nat (16 * i)) = load16 m (blink_array E + of_nat (16 * i))"
      by (intro assms) (auto simp: slots_def)
    then show ?case using Suc.hyps(1) [of "Suc i"] Suc.hyps(2)
      by (simp add: mp1_malloc_loop.simps [of E m "int i"] mp1_malloc_loop.simps [of E m' "int i"] add.commute)
  qed
  from this [of 0] show ?thesis by (simp add: mp1_malloc_def)
qed

text \<open>What add does to memory, whatever is in the list.\<close>

lemma add_links:
  assumes "placed E scr" and "window E scr m" and "span arg 16 \<inter> owned E scr = {}" and "struct_at m arg = b" and "location b < 2000"
    and "mp1_malloc E m = p" and "p \<in> slots E"
  obtains m' where "mp1_ioctl E arg 0 m = Some (0, m')" "struct_at m' p = fresh_blinker b" "next_of m' p = load32 m (mp1_list_head E)"
    "load32 m' (mp1_list_head E) = p" "agree (- (span (stack_frame E) 16 \<union> span p 16 \<union> span (mp1_list_head E) 4 \<union> chars scr)) m' m"
    "picture scr m' = paint b (on_char b) (picture scr m)" "window E scr m'"
proof -
  let ?t = "stack_frame E" and ?h = "mp1_list_head E"
  have "span ?t 16 \<inter> span arg 16 = {}" using assms(3) by (auto simp: owned_def)
  note pre = request_prepared [OF this, of m]
  define m1 m2 where "m1 = copied m ?t arg 16" and "m2 = store16 (store16 m1 (?t + 10) 1) (?t + 8) (on_length b)"
  note pre = pre [unfolded assms(4), folded m1_def, folded m2_def]
  note v = placed_vars [OF assms(1)] and d = placedD [OF assms(1,7)]
  have "load16 m2 q = load16 m q" if "q \<in> slots E" for q
    by (rule struct_agree(3), rule agree_sub [OF pre(5)]) (use placedD(5) [OF assms(1) that] in blast)
  then have mal: "mp1_malloc E m2 = p" using mp1_malloc_cong [of E m2 m] assms(6) by simp
  have h2: "load32 m2 ?h = load32 m ?h" by (rule load32_agree_span, rule agree_sub [OF pre(5)]) (use v(5) in blast)
  define m3 where "m3 = store32 (store32 (copied m2 p ?t 16) (p + 12) (load32 m2 ?h)) ?h p"
  note ln = slot_linked [OF assms(1,7) pre(4), folded m3_def]
  have a3: "agree (- (span ?t 16 \<union> span p 16 \<union> span ?h 4)) m3 m" using ln(5) pre(5) by (auto simp: agree_def)
  have "span (vmem_base_addr E) 4 \<subseteq> - (span ?t 16 \<union> span p 16 \<union> span ?h 4)" "chars scr \<subseteq> - (span ?t 16 \<union> span p 16 \<union> span ?h 4)"
    using v d by auto
  then have w: "window E scr m3" "picture scr m3 = picture scr m"
    using assms(2) window_agree [OF agree_sub [OF a3], of E scr] picture_agree [OF agree_sub [OF a3], of scr] by simp_all
  obtain m4 where m4: "mp1_poke E (on_char b) (screen_offset m3 p) m3 = Some m4" "agree (- chars scr) m4 m3"
      "picture scr m4 = paint (struct_at m3 p) (on_char b) (picture scr m3)"
    by (rule mp1_poke_paints [OF w(1), of p "on_char b"]) (use assms(5) in \<open>simp_all add: ln(3) fresh_blinker_def\<close>)
  have far: "span p 16 \<subseteq> - chars scr" "span ?h 4 \<subseteq> - chars scr" "span (vmem_base_addr E) 4 \<subseteq> - chars scr" using v d by blast+
  note s4 = struct_agree [OF agree_sub [OF m4(2) far(1)]]
  have "p \<noteq> 0" "m3 (p + 2) = on_char b" using d(1) ln(3) by (simp_all add: struct_fields(2) fresh_blinker_def)
  moreover have "load16 (store16 m1 (?t + 10) 1) (?t + 4) = on_length b" by (simp add: struct_fields(4) struct_stores pre(2))
  moreover have "\<not> 2000 \<le> location b" using assms(5) by (simp add: not_le)
  ultimately have "mp1_ioctl E arg 0 m = Some (0, m4)"
    using pre(1,2) ln(1,2) m4(1) mal
    by (simp add: mp1_ioctl_def mp1_ioctl_add_def located Let_def m2_def [symmetric] m3_def [symmetric])
  moreover have "agree (- (span ?t 16 \<union> span p 16 \<union> span ?h 4 \<union> chars scr)) m4 m" using m4(2) a3 by (auto simp: agree_def)
  moreover have "load32 m4 ?h = p" using load32_agree_span [OF agree_sub [OF m4(2) far(2)]] by (simp add: m3_def load_store32)
  moreover have "window E scr m4" using w(1) window_agree [OF agree_sub [OF m4(2) far(3)]] by simp
  moreover have "picture scr m4 = paint b (on_char b) (picture scr m)" using m4(3) w(2) ln(3) by (simp add: paint_def fresh_blinker_def)
  ultimately show thesis using that [of m4] s4 ln(3,4) h2 by simp
qed

lemma add_inserts:
  assumes "blinking E scr m bs pic" and "span arg 16 \<inter> owned E scr = {}" and "struct_at m arg = b" and "location b \<noteq> 0"
    and "location b < 2000" and "length bs \<noteq> 2000"
  obtains m' where "mp1_ioctl E arg 0 m = Some (0, m')" "agree (- owned E scr) m' m"
    "blinking E scr m' (fresh_blinker b # bs) (paint b (on_char b) pic)"
proof -
  obtain ps where ps: "held E m ps bs" and ok: "placed E scr" "window E scr m" "picture scr m = pic" using assms(1) by (auto simp: blinking_def)
  define p where "p = mp1_malloc E m"
  have p: "p \<in> slots E - used E m" unfolding p_def by (rule mp1_malloc_free) (use held_length [OF ps] assms(6) in simp)
  obtain m' where m': "mp1_ioctl E arg 0 m = Some (0, m')" "struct_at m' p = fresh_blinker b" "next_of m' p = load32 m (mp1_list_head E)"
      "load32 m' (mp1_list_head E) = p" "agree (- (span (stack_frame E) 16 \<union> span p 16 \<union> span (mp1_list_head E) 4 \<union> chars scr)) m' m"
      "picture scr m' = paint b (on_char b) (picture scr m)" "window E scr m'"
    by (rule add_links [OF ok(1,2) assms(2,3,5)]) (use p in \<open>auto simp: p_def\<close>)
  have "agree (span r 16) m' m" if "r \<in> slots E" "r \<noteq> p" for r
    by (rule agree_sub [OF m'(5)]) (use placedD(2,3,5) [OF ok(1) that(1)] slots_apart [OF that(1) _ that(2)] p in auto)
  then have "held E m' (p # ps) (fresh_blinker b # bs)"
    using held_push [OF ps p _ m'(2,3,4)] placedD(1) [OF ok(1)] p assms(4,5) by (simp add: fresh_blinker_def)
  then have "blinking E scr m' (fresh_blinker b # bs) (paint b (on_char b) pic)" using ok m'(6,7) by (auto simp: blinking_def)
  moreover have "agree (- owned E scr) m' m" by (rule agree_sub [OF m'(5)]) (use slot_within [of p E] p in \<open>auto simp: owned_def\<close>)
  ultimately show thesis using m'(1) that by blast
qed

lemma add_refines:
  assumes "blinking E scr m bs pic" and "span arg 16 \<inter> owned E scr = {}" and "location (struct_at m arg) \<noteq> 0"
    and "added (struct_at m arg) bs pic = (r, bs', pic')"
  obtains m' where "mp1_ioctl E arg 0 m = Some (r, m')" "blinking E scr m' bs' pic'" "agree (- owned E scr) m' m"
proof (cases "2000 \<le> location (struct_at m arg) \<or> length bs = 2000")
  case False
  obtain m' where "mp1_ioctl E arg 0 m = Some (0, m')" "agree (- owned E scr) m' m"
      "blinking E scr m' (fresh_blinker (struct_at m arg) # bs) (paint (struct_at m arg) (on_char (struct_at m arg)) pic)"
    by (rule add_inserts [OF assms(1,2) refl assms(3)]) (use False in auto)
  then show thesis using that assms(4) False by (auto simp: added_def)
next
  case True
  then have r: "r = minus_one" "bs' = bs" "pic' = pic" using assms(4) by (auto simp: added_def)
  have "span (stack_frame E) 16 \<inter> span arg 16 = {}" using assms(2) by (auto simp: owned_def)
  note pre = request_prepared [OF this, of m]
  show thesis
  proof (cases "2000 \<le> location (struct_at m arg)")
    case True
    have "mp1_ioctl E arg 0 m = Some (r, copied m (stack_frame E) arg 16)"
      using True pre(1,2) by (simp add: mp1_ioctl_def mp1_ioctl_add_def located r)
    then show thesis using that frame_kept [OF assms(1) pre(3)] r by blast
  next
    case ok: False
    let ?m1 = "copied m (stack_frame E) arg 16"
    let ?m2 = "store16 (store16 ?m1 (stack_frame E + 10) 1) (stack_frame E + 8) (on_length (struct_at m arg))"
    have l: "load16 (store16 ?m1 (stack_frame E + 10) 1) (stack_frame E + 4) = on_length (struct_at m arg)"
      by (simp add: struct_fields(4) struct_stores pre(2))
    obtain ps where "held E ?m2 ps bs" using frame_kept(1) [OF assms(1) pre(5)] by (auto simp: blinking_def)
    then have "mp1_malloc E ?m2 = 0" using held_length True ok by (intro mp1_malloc_full) blast
    then have "mp1_ioctl E arg 0 m = Some (r, ?m2)"
      using ok pre(1,2) l by (simp add: mp1_ioctl_def mp1_ioctl_add_def located r Let_def)
    then show thesis using that frame_kept [OF assms(1) pre(5)] r by blast
  qed
qed

section \<open>Removing a blinker\<close>

fun drop_first :: "u16 \<Rightarrow> mp1_blink_struct list \<Rightarrow> mp1_blink_struct list" where
  "drop_first l [] = []"
| "drop_first l (b # bs) = (if location b = l then bs else b # drop_first l bs)"

lemma drop_first_at: "\<not> at_location l xs \<Longrightarrow> location b = l \<Longrightarrow> drop_first l (xs @ b # ys) = xs @ ys"
  by (induction xs) (auto simp: at_location_def)

lemma chain_unlink:
  assumes "chain m p (xs @ q # ys)" and "distinct (xs @ q # ys)"
    and "\<And>r. r \<in> set (xs @ ys) \<Longrightarrow> next_of m' r = (if xs \<noteq> [] \<and> r = last xs then next_of m q else next_of m r)"
  shows "chain m' (if xs = [] then next_of m q else p) (xs @ ys)"
  using assms
proof (induction xs arbitrary: p)
  case Nil
  then show ?case using chain_cong [of ys m' m "next_of m q"] by auto
next
  case (Cons x xs)
  have x: "p = x" "x \<noteq> 0" "chain m (next_of m x) (xs @ q # ys)" using Cons.prems(1) by auto
  have "chain m' (if xs = [] then next_of m q else next_of m x) (xs @ ys)"
    by (rule Cons.IH [OF x(3)]) (use Cons.prems(2,3) in \<open>auto split: if_splits\<close>)
  moreover have "next_of m' x = (if xs = [] then next_of m q else next_of m x)"
    using Cons.prems(2) Cons.prems(3) [of x] by auto
  ultimately show ?case using x by simp
qed

lemma link_stored:
  fixes m :: mem and v :: u32
  assumes "placed E scr" and "set xs \<subseteq> slots E"
  defines "m' \<equiv> store32 m (link_to E xs) v"
  shows "r \<in> slots E \<Longrightarrow> struct_at m' r = struct_at m r"
    "r \<in> slots E \<Longrightarrow> next_of m' r = (if xs \<noteq> [] \<and> r = last xs then v else next_of m r)"
    "load32 m' (mp1_list_head E) = (if xs = [] then v else load32 m (mp1_list_head E))"
    "agree (- (slot_bytes xs \<union> span (mp1_list_head E) 4)) m' m"
proof -
  let ?x = "last xs"
  have x: "?x \<in> slots E" if "xs \<noteq> []" using that assms(2) by auto
  have a: "agree (- (if xs = [] then span (mp1_list_head E) 4 else span ?x 16)) m' m"
    by (simp add: m'_def link_to_def store32_agree struct_store_agree(5))
  then show "agree (- (slot_bytes xs \<union> span (mp1_list_head E) 4)) m' m" by (rule agree_sub) auto
  have same: "agree (span r 16) m' m" if "r \<in> slots E" "xs = [] \<or> r \<noteq> ?x" for r
    by (rule agree_sub [OF a]) (use that slots_apart [of r E ?x] x placedD(3) [OF assms(1) that(1)] in auto)
  show "struct_at m' r = struct_at m r" if "r \<in> slots E" for r
    using struct_agree(1) [OF same [OF that]] struct_next(1) by (cases "xs = [] \<or> r \<noteq> ?x") (auto simp: m'_def link_to_def)
  show "next_of m' r = (if xs \<noteq> [] \<and> r = ?x then v else next_of m r)" if "r \<in> slots E" for r
    using struct_agree(2) [OF same [OF that]] struct_next(2) by (cases "xs = [] \<or> r \<noteq> ?x") (auto simp: m'_def link_to_def)
  show "load32 m' (mp1_list_head E) = (if xs = [] then v else load32 m (mp1_list_head E))"
  proof (cases "xs = []")
    case True
    then show ?thesis by (simp add: m'_def link_to_def load_store32)
  next
    case False
    then have "agree (span (mp1_list_head E) 4) m' m"
      using placedD(3) [OF assms(1) x] by (intro agree_sub [OF a]) auto
    then show ?thesis using False by (simp add: load32_agree_span)
  qed
qed

lemma held_unlink:
  assumes "placed E scr" and "held E m (xs @ q # ys) bs"
  defines "m' \<equiv> mp1_free (store32 m (link_to E xs) (next_of m q)) q"
  shows "held E m' (xs @ ys) (map (struct_at m) (xs @ ys))" "agree (- (slot_bytes (xs @ q # ys) \<union> span (mp1_list_head E) 4)) m' m"
proof -
  have h: "chain m (load32 m (mp1_list_head E)) (xs @ q # ys)" "distinct (xs @ q # ys)" "set (xs @ q # ys) = used E m"
      "\<forall>b \<in> set (map (struct_at m) (xs @ q # ys)). location b < 2000" "set (xs @ q # ys) \<subseteq> slots E"
    using assms(2) by (auto simp: held_def used_def)
  have xs: "set xs \<subseteq> slots E" "q \<in> slots E" using h(5) by auto
  define m1 where "m1 = store32 m (link_to E xs) (next_of m q)"
  note l = link_stored [OF assms(1) xs(1), where m = m and v = "next_of m q", folded m1_def]
  have m': "m' = filled m1 q 16 (\<lambda>_. 0)" using ece391_memset_filled [of 16 m1 q 0] by (simp add: m'_def m1_def mp1_free_def)
  have a: "agree (- span q 16) m' m1" unfolding m' by (rule agree_filled) blast
  show "agree (- (slot_bytes (xs @ q # ys) \<union> span (mp1_list_head E) 4)) m' m" using a l(4) by (auto simp: agree_def)
  have zero: "load16 m' q = 0" by (simp add: m' load16_def filled_def)
  have same: "agree (span r 16) m' m1" if "r \<in> slots E" "r \<noteq> q" for r
    by (rule agree_sub [OF a]) (use slots_apart [OF that(1) xs(2) that(2)] in blast)
  have s: "struct_at m' r = struct_at m r" "next_of m' r = (if xs \<noteq> [] \<and> r = last xs then next_of m q else next_of m r)"
    if "r \<in> slots E" "r \<noteq> q" for r
    using struct_agree(1,2) [OF same [OF that]] l(1,2) [OF that(1)] by simp_all
  have "span (mp1_list_head E) 4 \<subseteq> - span q 16" using placedD(3) [OF assms(1) xs(2)] by blast
  then have hd: "load32 m' (mp1_list_head E) = (if xs = [] then next_of m q else load32 m (mp1_list_head E))"
    using l(3) load32_agree_span [OF agree_sub [OF a], of "mp1_list_head E"] by simp
  have rest: "r \<in> slots E" "r \<noteq> q" if "r \<in> set (xs @ ys)" for r using that h(2,5) by auto
  have "chain m' (load32 m' (mp1_list_head E)) (xs @ ys)"
    unfolding hd by (rule chain_unlink [OF h(1,2)]) (rule s(2) [OF rest])
  moreover have "r \<in> used E m' \<longleftrightarrow> r \<in> used E m - {q}" for r
    using zero s(1) [of r] xs(2) by (cases "r = q") (auto simp: used_def located)
  then have "set (xs @ ys) = used E m'" using h(2,3) by auto
  moreover have "map (struct_at m') (xs @ ys) = map (struct_at m) (xs @ ys)" by (rule map_cong [OF refl]) (rule s(1) [OF rest])
  ultimately show "held E m' (xs @ ys) (map (struct_at m) (xs @ ys))" using h(2,4) by (auto simp: held_def)
qed

definition removed :: "u16 \<Rightarrow> mp1_blink_struct list \<Rightarrow> u32 \<times> mp1_blink_struct list" where
  "removed l bs = (if at_location l bs then (0, drop_first l bs) else (minus_one, bs))"

lemma remove_refines:
  assumes "blinking E scr m bs pic" and "removed (ucast arg) bs = (r, bs')"
  obtains m' where "mp1_ioctl E arg 1 m = Some (r, m')" "blinking E scr m' bs' pic" "agree (- owned E scr) m' m"
proof -
  obtain ps where ps: "placed E scr" "window E scr m" "picture scr m = pic" "chain m (load32 m (mp1_list_head E)) ps" "distinct ps"
      "set ps = used E m" "set ps \<subseteq> slots E" "map (struct_at m) ps = bs" "\<forall>b \<in> set bs. location b < 2000"
    by (rule blinkingE [OF assms(1)])
  have z: "0 \<notin> set ps" using ps(7) placedD(1) [OF ps(1)] by blast
  from ps(4) z show thesis
  proof (cases rule: find_helper_cases [where loc = arg])
    case missing
    then have "mp1_ioctl E arg 1 m = Some (r, m)" "bs' = bs" using assms(2) ps(8) by (auto simp: mp1_ioctl_def mp1_ioctl_remove_def removed_def)
    then show thesis using that assms(1) by (simp add: agree_def)
  next
    case (found q xs ys)
    have h: "held E m (xs @ q # ys) bs" using ps found(2) by (simp add: held_def)
    have d: "q \<notin> set xs" using ps(5) found(2) by simp
    let ?m = "mp1_free (store32 m (link_to E xs) (next_of m q)) q"
    note u = held_unlink [OF ps(1) h]
    have r: "r = 0" "bs' = map (struct_at m) (xs @ ys)"
      using assms(2) found(2,4-6) ps(8) drop_first_at [OF found(5), of "struct_at m q" "map (struct_at m) ys"] by (auto simp: removed_def)
    have p: "find_prev m q (mp1_list_head E) = Some (link_to E xs)"
      using find_prev_finds [of m "mp1_list_head E" xs q ys] ps(4) found(2) d by (simp add: link_to_def)
    have a: "agree (- owned E scr) ?m m"
      by (rule agree_sub [OF u(2)]) (use slot_bytes_owned [OF ps(7), of scr] found(2) in \<open>auto simp: owned_def\<close>)
    have "picture scr ?m = pic"
      using ps(3,7) found(2) placedD(2) [OF ps(1)] placed_vars(1) [OF ps(1)] by (intro trans [OF picture_agree [OF agree_sub [OF u(2)]]]) auto
    then have "blinking E scr ?m bs' pic" using u(1) ps(1,2) owned_window [OF ps(1) a] r(2) by (auto simp: blinking_def)
    moreover have "mp1_ioctl E arg 1 m = Some (r, ?m)" using found(1,3) p r(1) by (simp add: mp1_ioctl_def mp1_ioctl_remove_def)
    ultimately show thesis using that a by blast
  qed
qed

section \<open>Synchronising two blinkers\<close>

fun change_first :: "u16 \<Rightarrow> (mp1_blink_struct \<Rightarrow> mp1_blink_struct) \<Rightarrow> mp1_blink_struct list \<Rightarrow> mp1_blink_struct list" where
  "change_first l f [] = []"
| "change_first l f (b # bs) = (if location b = l then f b # bs else b # change_first l f bs)"

lemma change_first_at: "\<not> at_location l xs \<Longrightarrow> location b = l \<Longrightarrow> change_first l f (xs @ b # ys) = xs @ f b # ys"
  by (induction xs) (auto simp: at_location_def)

definition in_step :: "mp1_blink_struct \<Rightarrow> mp1_blink_struct \<Rightarrow> mp1_blink_struct" where
  "in_step a b = b\<lparr>on_length := on_length a, off_length := off_length a, countdown := countdown a, status := status a\<rparr>"

definition first_at :: "u16 \<Rightarrow> mp1_blink_struct list \<Rightarrow> mp1_blink_struct" where
  "first_at l bs = hd (filter (\<lambda>b. location b = l) bs)"

lemma first_at_split: "\<not> at_location l xs \<Longrightarrow> location b = l \<Longrightarrow> first_at l (xs @ b # ys) = b"
  by (induction xs) (auto simp: first_at_def at_location_def)

definition synced :: "u16 \<Rightarrow> u16 \<Rightarrow> mp1_blink_struct list \<Rightarrow> (nat \<Rightarrow> u8) \<Rightarrow> u32 \<times> mp1_blink_struct list \<times> (nat \<Rightarrow> u8)" where
  "synced a l bs pic = (if at_location a bs \<and> at_location l bs
     then (0, change_first l (in_step (first_at a bs)) bs, paint (first_at l bs) (off_char (first_at l bs)) pic)
     else (minus_one, bs, pic))"

lemma sync_char_off: "sync_char m p = off_char (struct_at m p)"
proof -
  have "\<not> bit (m (p + 10) AND 1) 7" by (simp add: bit_and_iff bit_1_iff)
  then show ?thesis by (simp add: sync_char_def struct_at_def)
qed

lemma sync_copied:
  assumes "si = di \<or> span si 16 \<inter> span di 16 = {}"
  shows "struct_at (sync_copy si di m) di = in_step (struct_at m si) (struct_at m di)" "next_of (sync_copy si di m) di = next_of m di"
    "agree (- span di 16) (sync_copy si di m) m"
proof -
  define m1 where "m1 = store16 m (di + 4) (load16 m (si + 4))"
  define m2 where "m2 = store16 m1 (di + 6) (load16 m1 (si + 6))"
  define m3 where "m3 = store16 m2 (di + 8) (load16 m2 (si + 8))"
  have c: "sync_copy si di m = store16 m3 (di + 10) (load16 m3 (si + 10))" by (simp add: sync_copy_def m1_def m2_def m3_def Let_def)
  have a: "agree (- span di 16) m1 m" "agree (- span di 16) m2 m" "agree (- span di 16) m3 m"
    using struct_store_agree [of di] unfolding m3_def m2_def m1_def by (meson agree_trans)+
  show "agree (- span di 16) (sync_copy si di m) m" unfolding c by (rule agree_trans [OF struct_store_agree(2) a(3)])
  show "next_of (sync_copy si di m) di = next_of m di" by (simp add: c m3_def m2_def m1_def struct_stores)
  show "struct_at (sync_copy si di m) di = in_step (struct_at m si) (struct_at m di)"
  proof (cases "si = di")
    case True
    then show ?thesis unfolding c by (simp add: m3_def m2_def m1_def struct_stores struct_fields(4-7) in_step_def)
  next
    case False
    then have "span si 16 \<subseteq> - span di 16" using assms by blast
    then have "struct_at m1 si = struct_at m si" "struct_at m2 si = struct_at m si" "struct_at m3 si = struct_at m si"
      using struct_agree(1) [OF agree_sub [OF a(1)]] struct_agree(1) [OF agree_sub [OF a(2)]] struct_agree(1) [OF agree_sub [OF a(3)]] by auto
    then show ?thesis by (simp add: c m3_def m2_def m1_def struct_stores struct_fields(4-7) in_step_def)
  qed
qed

lemma held_change:
  assumes "held E m (xs @ q # ys) bs" and "struct_at m' q = b" and "next_of m' q = next_of m q" and "location b = location (struct_at m q)"
    and "load32 m' (mp1_list_head E) = load32 m (mp1_list_head E)" and "\<And>r. r \<in> slots E \<Longrightarrow> r \<noteq> q \<Longrightarrow> agree (span r 16) m' m"
  shows "held E m' (xs @ q # ys) (map (struct_at m) xs @ b # map (struct_at m) ys)"
proof -
  let ?ps = "xs @ q # ys"
  have h: "chain m (load32 m (mp1_list_head E)) ?ps" "distinct ?ps" "set ?ps = used E m" "set ?ps \<subseteq> slots E"
      "\<forall>b \<in> set (map (struct_at m) ?ps). location b < 2000"
    using assms(1) by (auto simp: held_def used_def)
  note s = struct_agree [OF assms(6)]
  have "chain m' (load32 m (mp1_list_head E)) ?ps = chain m (load32 m (mp1_list_head E)) ?ps"
    by (rule chain_cong) (use s(2) assms(3) h(4) in blast)
  moreover have "used E m' = used E m"
    by (rule used_cong) (use s(3) assms(2,4) in \<open>metis located\<close>)
  moreover have "map (struct_at m') xs = map (struct_at m) xs" "map (struct_at m') ys = map (struct_at m) ys"
    using s(1) h(2,4) by (auto intro!: map_cong)
  ultimately show ?thesis using h assms(2,4,5) by (auto simp: held_def)
qed

lemma sync_changes:
  assumes "blinking E scr m bs pic" and "si \<in> slots E" and "held E m (xs @ q # ys) bs"
  obtains m' where "mp1_poke E (sync_char (sync_copy si q m) q) (screen_offset (sync_copy si q m) q) (sync_copy si q m) = Some m'"
    "agree (- owned E scr) m' m"
    "blinking E scr m' (map (struct_at m) xs @ in_step (struct_at m si) (struct_at m q) # map (struct_at m) ys)
       (paint (struct_at m q) (off_char (struct_at m q)) pic)"
proof -
  let ?m = "sync_copy si q m" and ?b = "in_step (struct_at m si) (struct_at m q)"
  have ok: "placed E scr" "window E scr m" "picture scr m = pic" using assms(1) by (auto simp: blinking_def)
  have q: "q \<in> slots E" "location (struct_at m q) < 2000" using assms(3) by (auto simp: held_def used_def)
  have "si = q \<or> span si 16 \<inter> span q 16 = {}" using slots_apart [OF assms(2) q(1)] by blast
  note c = sync_copied [OF this, of m]
  note d = placedD [OF ok(1) q(1)]
  have l: "location ?b = location (struct_at m q)" "off_char ?b = off_char (struct_at m q)" by (simp_all add: in_step_def)
  have far: "span (mp1_list_head E) 4 \<subseteq> - span q 16" "span (vmem_base_addr E) 4 \<subseteq> - span q 16" "chars scr \<subseteq> - span q 16"
    using d(2-4) by blast+
  have w: "window E scr ?m" "picture scr ?m = pic"
    using ok(2,3) window_agree [OF agree_sub [OF c(3) far(2)]] picture_agree [OF agree_sub [OF c(3) far(3)]] by simp_all
  have "agree (span r 16) ?m m" if "r \<in> slots E" "r \<noteq> q" for r
    by (rule agree_sub [OF c(3)]) (use slots_apart [OF that(1) q(1) that(2)] in blast)
  then have h: "held E ?m (xs @ q # ys) (map (struct_at m) xs @ ?b # map (struct_at m) ys)"
    using held_change [OF assms(3) c(1,2) l(1)] load32_agree_span [OF agree_sub [OF c(3) far(1)]] by blast
  obtain m' where m': "mp1_poke E (off_char ?b) (screen_offset ?m q) ?m = Some m'" "agree (- chars scr) m' ?m"
      "picture scr m' = paint (struct_at ?m q) (off_char ?b) (picture scr ?m)"
    by (rule mp1_poke_paints [OF w(1), of q "off_char ?b"]) (simp_all add: c(1) l q(2))
  have "held E m' (xs @ q # ys) (map (struct_at m) xs @ ?b # map (struct_at m) ys)"
    by (rule held_agree [OF h], rule agree_sub [OF m'(2)]) (use ok(1) chars_within [of scr] in \<open>auto simp: placed_def\<close>)
  moreover have "window E scr m'" using w(1) window_agree [OF agree_sub [OF m'(2)], of E scr] placed_vars(2) [OF ok(1)] by auto
  moreover have "picture scr m' = paint (struct_at m q) (off_char (struct_at m q)) pic" using m'(3) w(2) c(1) l by (simp add: paint_def)
  ultimately have "blinking E scr m' (map (struct_at m) xs @ ?b # map (struct_at m) ys) (paint (struct_at m q) (off_char (struct_at m q)) pic)"
    using ok(1) by (auto simp: blinking_def)
  moreover have "agree (- owned E scr) m' m"
    using m'(2) c(3) slot_within [OF q(1)] by (auto simp: agree_def owned_def)
  moreover have "mp1_poke E (sync_char ?m q) (screen_offset ?m q) ?m = Some m'" using m'(1) by (simp add: sync_char_off c(1))
  ultimately show thesis by (intro that)
qed

lemma sync_refines:
  assumes "blinking E scr m bs pic" and "synced (ucast (drop_bit 16 arg)) (ucast arg) bs pic = (r, bs', pic')"
  obtains m' where "mp1_ioctl E arg 3 m = Some (r, m')" "blinking E scr m' bs' pic'" "agree (- owned E scr) m' m"
proof -
  obtain ps where ps: "placed E scr" "window E scr m" "picture scr m = pic" "chain m (load32 m (mp1_list_head E)) ps" "distinct ps"
      "set ps = used E m" "set ps \<subseteq> slots E" "map (struct_at m) ps = bs" "\<forall>b \<in> set bs. location b < 2000"
    by (rule blinkingE [OF assms(1)])
  have z: "0 \<notin> set ps" using ps(7) placedD(1) [OF ps(1)] by blast
  have low: "ucast (arg AND 0xFFFF) = (ucast arg :: u16)"
  proof -
    have m: "(0xFFFF :: u32) = mask 16" by (simp add: mask_eq_exp_minus_1)
    show ?thesis unfolding m by (rule bit_word_eqI) (simp add: bit_ucast_iff bit_and_iff bit_mask_iff)
  qed
  note finish = that
  have fail: thesis if "mp1_ioctl E arg 3 m = Some (minus_one, m)" "\<not> (at_location (ucast (drop_bit 16 arg)) bs \<and> at_location (ucast arg) bs)"
  proof -
    have "(r, bs', pic') = (minus_one, bs, pic)" using assms(2) that(2) by (simp add: synced_def split: if_splits)
    then show thesis using assms(1) that(1) finish [of m] by (simp add: agree_def)
  qed
  show thesis
    using ps(4) z
  proof (cases rule: find_helper_cases [where loc = "drop_bit 16 arg"])
    case missing
    then show thesis using ps(8) by (intro fail) (simp_all add: mp1_ioctl_def mp1_ioctl_sync_def)
  next
    case (found si us vs)
    note src = found
    show thesis
      using ps(4) z
    proof (cases rule: find_helper_cases [where loc = "arg AND 0xFFFF"])
      case missing
      then show thesis using src(1,3) ps(8) low by (intro fail) (simp_all add: mp1_ioctl_def mp1_ioctl_sync_def)
    next
      case (found q xs ys)
      have "si \<in> slots E" using ps(7) src(2) by auto
      moreover have "held E m (xs @ q # ys) bs" using ps found(2) by (simp add: held_def)
      ultimately obtain m' where m': "mp1_poke E (sync_char (sync_copy si q m) q) (screen_offset (sync_copy si q m) q) (sync_copy si q m) = Some m'"
          "agree (- owned E scr) m' m"
          "blinking E scr m' (map (struct_at m) xs @ in_step (struct_at m si) (struct_at m q) # map (struct_at m) ys)
             (paint (struct_at m q) (off_char (struct_at m q)) pic)"
        using sync_changes [OF assms(1)] by blast
      have "bs = map (struct_at m) us @ struct_at m si # map (struct_at m) vs" using ps(8) src(2) by simp
      then have f1: "first_at (ucast (drop_bit 16 arg)) bs = struct_at m si" using first_at_split src(4,5) by simp
      have bs: "bs = map (struct_at m) xs @ struct_at m q # map (struct_at m) ys" using ps(8) found(2) by simp
      then have f2: "first_at (ucast arg) bs = struct_at m q" "\<And>f. change_first (ucast arg) f bs = map (struct_at m) xs @ f (struct_at m q) # map (struct_at m) ys"
        using first_at_split change_first_at found(4,5) low by simp_all
      have e: "r = 0" "bs' = map (struct_at m) xs @ in_step (struct_at m si) (struct_at m q) # map (struct_at m) ys"
          "pic' = paint (struct_at m q) (off_char (struct_at m q)) pic"
        using assms(2) src(6) found(6) ps(8) low f1 f2 by (auto simp: synced_def)
      have "mp1_ioctl E arg 3 m = Some (r, m')"
        using src(1,3) found(1,3) m'(1) e(1) by (simp add: mp1_ioctl_def mp1_ioctl_sync_def Let_def)
      then show thesis using that m'(2,3) e(2,3) by blast
    qed
  qed
qed

section \<open>Looking a blinker up\<close>

lemma apart_kept:
  assumes "blinking E scr m bs pic" and "agree (- A) m' m" and "A \<inter> owned E scr = {}" and "A \<inter> span (vmem_base_addr E) 4 = {}"
  shows "blinking E scr m' bs pic"
proof -
  obtain ps where ps: "held E m ps bs" and ok: "placed E scr" "window E scr m" "picture scr m = pic"
    using assms(1) by (auto simp: blinking_def)
  have "held E m' ps bs" by (rule held_agree [OF ps], rule agree_sub [OF assms(2)]) (use assms(3) in \<open>auto simp: owned_def\<close>)
  moreover have "window E scr m'" using ok(2) window_agree [OF agree_sub [OF assms(2)], of E scr] assms(4) by blast
  moreover have "picture scr m' = picture scr m"
    by (rule picture_agree, rule agree_sub [OF assms(2)]) (use assms(3) in \<open>auto simp: owned_def\<close>)
  ultimately show ?thesis using ok by (auto simp: blinking_def)
qed

text \<open>Find stores the first structure with the location over the request, or fails.\<close>

lemma find_reports:
  assumes "blinking E scr m bs pic" and "span arg 16 \<inter> owned E scr = {}" and "span arg 16 \<inter> span (vmem_base_addr E) 4 = {}"
  obtains m' where "mp1_ioctl E arg 2 m = Some (if at_location (load16 m arg) bs then 0 else minus_one, m')" "blinking E scr m' bs pic"
    "agree (- (owned E scr \<union> span arg 16)) m' m" "at_location (load16 m arg) bs \<Longrightarrow> struct_at m' arg = first_at (load16 m arg) bs"
proof -
  let ?t = "stack_frame E + 14"
  define m1 where "m1 = copied m ?t arg 2"
  have t: "span ?t 2 \<subseteq> span (stack_frame E) 16" using field_span [of 14 2 "stack_frame E"] by simp
  have "?t \<in> span ?t 2" by (simp add: span_def)
  then have "?t \<in> owned E scr" using t by (auto simp: owned_def)
  then have "?t \<notin> span arg 16" using assms(2) by blast
  then have "forward_ok ?t arg 2" by (simp add: forward_ok_def span_def)
  then have c: "ece391_memcpy m ?t arg 2 = (0, m1)" using ece391_memcpy_copied [of ?t arg 2 m] by (simp add: m1_def)
  have "agree (- span ?t 2) m1 m" unfolding m1_def by (rule copied_agree)
  then have "agree (- span (stack_frame E) 16) m1 m" by (rule agree_sub) (use t in blast)
  note k = frame_kept [OF assms(1) this]
  have l: "load16 m1 ?t = load16 m arg" by (simp add: m1_def load16_def copied_def)
  obtain ps where ps: "placed E scr" "chain m1 (load32 m1 (mp1_list_head E)) ps" "set ps \<subseteq> slots E" "map (struct_at m1) ps = bs"
    by (rule blinkingE [OF k(1)]) blast
  have z: "0 \<notin> set ps" using ps(3) placedD(1) [OF ps(1)] by blast
  have u: "ucast (ucast (load16 m arg) :: u32) = load16 m arg" by (rule bit_word_eqI) (simp add: bit_ucast_iff)
  note finish = that
  show thesis
    using ps(2) z
  proof (cases rule: find_helper_cases [where loc = "ucast (load16 m arg)"])
    case missing
    show thesis
    proof (rule finish [OF _ k(1)])
      show "mp1_ioctl E arg 2 m = Some (if at_location (load16 m arg) bs then 0 else minus_one, m1)"
        using missing c l u ps(4) by (simp add: mp1_ioctl_def mp1_ioctl_find_def)
      show "agree (- (owned E scr \<union> span arg 16)) m1 m" by (rule agree_sub [OF k(2)]) blast
      show "struct_at m1 arg = first_at (load16 m arg) bs" if "at_location (load16 m arg) bs"
        using that missing(2) u ps(4) by simp
    qed
  next
    case (found q xs ys)
    have q: "q \<in> slots E" using ps(3) found(2) by auto
    have "span arg 16 \<inter> span q 16 = {}" using assms(2) slot_within [OF q] by (auto simp: owned_def)
    then have cq: "ece391_memcpy m1 arg q 16 = (0, copied m1 arg q 16)" using ece391_memcpy_copied [OF forward_apart, of arg q m1] by simp
    show thesis
    proof (rule finish)
      show "mp1_ioctl E arg 2 m = Some (if at_location (load16 m arg) bs then 0 else minus_one, copied m1 arg q 16)"
        using found c cq l u ps(4) by (simp add: mp1_ioctl_def mp1_ioctl_find_def)
      show "blinking E scr (copied m1 arg q 16) bs pic" by (rule apart_kept [OF k(1) copied_agree assms(2,3)])
      show "agree (- (owned E scr \<union> span arg 16)) (copied m1 arg q 16) m"
        using copied_agree [of arg 16 m1 q] k(2) by (auto simp: agree_def)
      have "bs = map (struct_at m1) xs @ struct_at m1 q # map (struct_at m1) ys" using ps(4) found(2) by simp
      then show "struct_at (copied m1 arg q 16) arg = first_at (load16 m arg) bs"
        using first_at_split found(4,5) u by (simp add: struct_copied)
    qed
  qed
qed

end
