(* ===== verification/Kud_Blinkers.thy ===== *)
theory Kud_Blinkers
  imports Kud_Blink
begin

unbundle bit_operations_syntax

text \<open>
  The blinking characters as a device: sequences of calls, what is seen on the screen while
  time passes, and two flaws of the code.
\<close>

section \<open>Sequences of calls\<close>

text \<open>A request is a pointer to a structure, as it is for the code.\<close>

datatype blink_call = Tick | Add u32 | Remove u32 | Sync u32

fun perform :: "blink_env \<Rightarrow> blink_call \<Rightarrow> mem \<Rightarrow> (u32 \<times> mem) option" where
  "perform E Tick m = map_option (Pair 0) (mp1_rtc_tasklet E m)"
| "perform E (Add arg) m = mp1_ioctl E arg 0 m"
| "perform E (Remove arg) m = mp1_ioctl E arg 1 m"
| "perform E (Sync arg) m = mp1_ioctl E arg 3 m"

text \<open>What a call promises, given the structures behind the pointers.\<close>

fun promised :: "(u32 \<Rightarrow> mp1_blink_struct) \<Rightarrow> blink_call \<Rightarrow> mp1_blink_struct list \<times> (nat \<Rightarrow> u8) \<Rightarrow> u32 \<times> mp1_blink_struct list \<times> (nat \<Rightarrow> u8)" where
  "promised req Tick (bs, pic) = (0, map ticked bs, fold tick_paint bs pic)"
| "promised req (Add arg) (bs, pic) = added (req arg) bs pic"
| "promised req (Remove arg) (bs, pic) = (let (r, bs') = removed (ucast arg) bs in (r, bs', pic))"
| "promised req (Sync arg) (bs, pic) = synced (ucast (drop_bit 16 arg)) (ucast arg) bs pic"

text \<open>
  A caller keeps its structures out of the memory of the device and does not ask for a blinker
  at location 0.
\<close>

fun admissible :: "(u32 \<Rightarrow> bool) \<Rightarrow> (u32 \<Rightarrow> mp1_blink_struct) \<Rightarrow> blink_call \<Rightarrow> bool" where
  "admissible own req (Add arg) \<longleftrightarrow> own arg \<and> location (req arg) \<noteq> 0"
| "admissible own req _ \<longleftrightarrow> True"

fun perform_all :: "(blink_call \<Rightarrow> 'm \<Rightarrow> (u32 \<times> 'm) option) \<Rightarrow> blink_call list \<Rightarrow> 'm \<Rightarrow> (u32 list \<times> 'm) option" where
  "perform_all f [] m = Some ([], m)"
| "perform_all f (c # cs) m =
     Option.bind (f c m) (\<lambda>(r, m). map_option (\<lambda>(us, m). (r # us, m)) (perform_all f cs m))"

fun promised_all :: "(u32 \<Rightarrow> mp1_blink_struct) \<Rightarrow> blink_call list \<Rightarrow> mp1_blink_struct list \<times> (nat \<Rightarrow> u8)
    \<Rightarrow> u32 list \<times> mp1_blink_struct list \<times> (nat \<Rightarrow> u8)" where
  "promised_all req [] a = ([], a)"
| "promised_all req (c # cs) a = (let (r, a) = promised req c a; (us, a) = promised_all req cs a in (r # us, a))"

text \<open>
  The contract of the device: a representation of blinkers and picture, and calls that keep
  their promises and leave the structures of the caller alone. What a sequence of calls does
  follows from it.
\<close>

locale blink_device =
  fixes rep :: "'m \<Rightarrow> mp1_blink_struct list \<Rightarrow> (nat \<Rightarrow> u8) \<Rightarrow> bool"
    and call :: "blink_call \<Rightarrow> 'm \<Rightarrow> (u32 \<times> 'm) option"
    and req :: "'m \<Rightarrow> u32 \<Rightarrow> mp1_blink_struct"
    and own :: "u32 \<Rightarrow> bool"
  assumes keeps_promise: "rep m bs pic \<Longrightarrow> admissible own (req m) c \<Longrightarrow> promised (req m) c (bs, pic) = (r, bs', pic')
      \<Longrightarrow> \<exists>m'. call c m = Some (r, m') \<and> rep m' bs' pic' \<and> (\<forall>p. own p \<longrightarrow> req m' p = req m p)"
begin

lemma promised_own:
  assumes "\<forall>p. own p \<longrightarrow> req m' p = req m p" and "admissible own (req m) c"
  shows "promised (req m') c a = promised (req m) c a" "admissible own (req m') c"
  using assms by (cases c; cases a; simp)+

lemma sequence_refines:
  assumes "rep m bs pic" and "\<forall>c \<in> set cs. admissible own (req m) c" and "promised_all (req m) cs (bs, pic) = (us, bs', pic')"
  shows "\<exists>m'. perform_all call cs m = Some (us, m') \<and> rep m' bs' pic' \<and> (\<forall>p. own p \<longrightarrow> req m' p = req m p)"
  using assms
proof (induction cs arbitrary: m bs pic us)
  case Nil
  then show ?case by auto
next
  case (Cons c cs)
  obtain r bs1 pic1 us1 where p: "promised (req m) c (bs, pic) = (r, bs1, pic1)" "promised_all (req m) cs (bs1, pic1) = (us1, bs', pic')" "us = r # us1"
    using Cons.prems(3) by (auto simp: Let_def split: prod.splits)
  obtain m1 where m1: "call c m = Some (r, m1)" "rep m1 bs1 pic1" "\<forall>p. own p \<longrightarrow> req m1 p = req m p"
    using keeps_promise [OF Cons.prems(1) _ p(1)] Cons.prems(2) by auto
  have adm: "\<forall>c \<in> set cs. admissible own (req m1) c" using promised_own(2) [OF m1(3)] Cons.prems(2) by simp
  have "promised_all (req m1) cs a = promised_all (req m) cs a" for a
    using Cons.prems(2) by (induction cs arbitrary: a) (auto simp: promised_own(1) [OF m1(3)])
  then obtain m2 where "perform_all call cs m1 = Some (us1, m2)" "rep m2 bs' pic'" "\<forall>p. own p \<longrightarrow> req m2 p = req m1 p"
    using Cons.IH [OF m1(2) adm] p(2) by auto
  then show ?case using m1 p(3) by auto
qed

end

lemma requests_kept: "agree (- owned E scr) m' m \<Longrightarrow> span p 16 \<inter> owned E scr = {} \<Longrightarrow> struct_at m' p = struct_at m p"
  by (rule struct_agree(1), erule agree_sub) blast

interpretation blink: blink_device "blinking E scr" "perform E" struct_at "\<lambda>p. span p 16 \<inter> owned E scr = {}" for E scr
proof (unfold_locales, goal_cases)
  case (1 m bs pic c r bs' pic')
  have "\<exists>m'. perform E c m = Some (r, m') \<and> blinking E scr m' bs' pic' \<and> agree (- owned E scr) m' m"
  proof (cases c)
    case Tick
    then show ?thesis using tasklet_refines [OF 1(1)] 1(3) by (metis option.simps(9) perform.simps(1) promised.simps(1) prod.inject)
  next
    case (Add arg)
    then show ?thesis using add_refines [OF 1(1), of arg r bs' pic'] 1(2,3) by auto
  next
    case (Remove arg)
    then show ?thesis using remove_refines [OF 1(1), of arg r bs'] 1(3) by (auto split: prod.splits)
  next
    case (Sync arg)
    then show ?thesis using sync_refines [OF 1(1), of arg r bs' pic'] 1(3) by auto
  qed
  then show ?case using requests_kept by blast
qed

section \<open>Blinking\<close>

text \<open>The state of a blinker \<open>k\<close> ticks after it was added, and the character it shows.\<close>

definition period :: "mp1_blink_struct \<Rightarrow> nat" where
  "period b = unat (on_length b) + unat (off_length b)"

definition after_ticks :: "nat \<Rightarrow> mp1_blink_struct \<Rightarrow> mp1_blink_struct" where
  "after_ticks k b = (let r = k mod period b in
     if r < unat (on_length b) then b\<lparr>countdown := of_nat (unat (on_length b) - r), status := 1\<rparr>
     else b\<lparr>countdown := of_nat (period b - r), status := 0\<rparr>)"

definition phase_char :: "nat \<Rightarrow> mp1_blink_struct \<Rightarrow> u8" where
  "phase_char k b = (if k mod period b < unat (on_length b) then on_char b else off_char b)"

text \<open>Lengths that are positive as signed numbers.\<close>

definition steady :: "mp1_blink_struct \<Rightarrow> bool" where
  "steady b \<longleftrightarrow> 0 < unat (on_length b) \<and> unat (on_length b) < 32768 \<and> 0 < unat (off_length b) \<and> unat (off_length b) < 32768"

lemma sint_small16: "n < 32768 \<Longrightarrow> sint (of_nat n :: u16) = int n"
  by (simp add: signed_of_nat signed_take_bit_int_eq_self)

lemma due_count:
  assumes "countdown b = of_nat n" and "0 < n" and "n < 32768"
  shows "due b \<longleftrightarrow> n = 1" "countdown b - 1 = of_nat (n - 1)"
proof -
  show c: "countdown b - 1 = of_nat (n - 1)" using assms(1,2) by (simp add: of_nat_diff)
  show "due b \<longleftrightarrow> n = 1" unfolding due_def c using sint_small16 [of "n - 1"] assms(2,3) by auto
qed

lemma ticked_after:
  assumes "steady b"
  shows "ticked (after_ticks k b) = after_ticks (Suc k) b"
    and "due (after_ticks k b) \<Longrightarrow> (if shining (after_ticks k b) then off_char b else on_char b) = phase_char (Suc k) b"
    and "\<not> due (after_ticks k b) \<Longrightarrow> phase_char (Suc k) b = phase_char k b"
proof -
  let ?a = "after_ticks k b" and ?r = "k mod period b" and ?n = "unat (on_length b)" and ?f = "unat (off_length b)"
  have P: "period b = ?n + ?f" "0 < ?n" "?n < 32768" "0 < ?f" "?f < 32768" using assms by (simp_all add: period_def steady_def)
  have r: "?r < period b" using P by simp
  have S: "Suc k mod period b = (if Suc ?r = period b then 0 else Suc ?r)" by (simp add: mod_Suc)
  have x: "(1 :: u16) XOR 1 = 0" "(0 :: u16) XOR 1 = 1" "(1 :: u16) AND 1 = 1" by simp_all
  have "ticked ?a = after_ticks (Suc k) b \<and> (due ?a \<longrightarrow> (if shining ?a then off_char b else on_char b) = phase_char (Suc k) b)
    \<and> (\<not> due ?a \<longrightarrow> phase_char (Suc k) b = phase_char k b)"
  proof (cases "?r < ?n")
    case True
    then have a: "?a = b\<lparr>countdown := of_nat (?n - ?r), status := 1\<rparr>" by (simp add: after_ticks_def)
    then have c: "due ?a \<longleftrightarrow> ?n - ?r = 1" "countdown ?a - 1 = of_nat (?n - Suc ?r)" "shining ?a"
      using due_count [of ?a "?n - ?r"] True P by (simp_all add: shining_def)
    show ?thesis
    proof (cases "?n - ?r = 1")
      case d: True
      then have "Suc ?r = ?n" using True by simp
      then show ?thesis using c d a S P by (simp add: ticked_def after_ticks_def phase_char_def x)
    next
      case d: False
      then have "Suc ?r < ?n" using True by simp
      then show ?thesis using c d a S P True by (simp add: ticked_def after_ticks_def phase_char_def)
    qed
  next
    case False
    then have a: "?a = b\<lparr>countdown := of_nat (period b - ?r), status := 0\<rparr>" by (simp add: after_ticks_def)
    have "0 < period b - ?r" "period b - ?r < 32768" using r False P by linarith+
    then have c: "due ?a \<longleftrightarrow> period b - ?r = 1" "countdown ?a - 1 = of_nat (period b - Suc ?r)" "\<not> shining ?a"
      using due_count [of ?a "period b - ?r"] a by (simp_all add: shining_def)
    show ?thesis
    proof (cases "period b - ?r = 1")
      case d: True
      then have "Suc ?r = period b" using r by simp
      then show ?thesis using c d a S P by (simp add: ticked_def after_ticks_def phase_char_def x)
    next
      case d: False
      then have "Suc ?r < period b" using r by simp
      then show ?thesis using c d a S P False by (simp add: ticked_def after_ticks_def phase_char_def)
    qed
  qed
  then show "ticked ?a = after_ticks (Suc k) b" "due ?a \<Longrightarrow> (if shining ?a then off_char b else on_char b) = phase_char (Suc k) b"
    "\<not> due ?a \<Longrightarrow> phase_char (Suc k) b = phase_char k b" by blast+
qed

lemma after_ticks_fields [simp]:
  "location (after_ticks k b) = location b" "on_char (after_ticks k b) = on_char b" "off_char (after_ticks k b) = off_char b"
  by (simp_all add: after_ticks_def Let_def)

lemma after_0: "steady b \<Longrightarrow> after_ticks 0 b = fresh_blinker b"
  by (simp add: after_ticks_def fresh_blinker_def steady_def)

lemma tick_paint_phase:
  assumes "steady b" and "pic (unat (location b)) = phase_char k b"
  shows "tick_paint (after_ticks k b) pic (unat (location b)) = phase_char (Suc k) b"
  using ticked_after(2,3) [OF assms(1), of k] assms(2) by (cases "due (after_ticks k b)") (simp_all add: tick_paint_def paint_def split: if_splits)

lemma tick_paint_other: "l \<noteq> unat (location b) \<Longrightarrow> tick_paint b pic l = pic l"
  by (simp add: tick_paint_def paint_def)

lemma tick_paint_local: "pic l = pic' l \<Longrightarrow> tick_paint b pic l = tick_paint b pic' l"
  by (simp add: tick_paint_def paint_def)

lemma fold_tick_other: "l \<notin> (unat \<circ> location) ` set bs \<Longrightarrow> fold tick_paint bs pic l = pic l"
  by (induction bs arbitrary: pic) (auto simp: tick_paint_other)

lemma fold_tick_paint:
  assumes "distinct (map location bs)" and "b \<in> set bs"
  shows "fold tick_paint bs pic (unat (location b)) = tick_paint b pic (unat (location b))"
  using assms
proof (induction bs arbitrary: pic)
  case (Cons a bs)
  show ?case
  proof (cases "b = a")
    case True
    have "unat (location a) \<notin> (unat \<circ> location) ` set bs" using Cons.prems(1) by (auto simp: word_unat_eq_iff)
    then show ?thesis using fold_tick_other True by simp
  next
    case False
    then have b: "b \<in> set bs" using Cons.prems(2) by simp
    then have "location b \<noteq> location a" using Cons.prems(1) by (auto simp: image_iff)
    then have "unat (location b) \<noteq> unat (location a)" by (simp add: word_unat_eq_iff)
    then have "tick_paint b (tick_paint a pic) (unat (location b)) = tick_paint b pic (unat (location b))"
      by (intro tick_paint_local tick_paint_other)
    then show ?thesis using Cons.IH [OF _ b] Cons.prems(1) by simp
  qed
qed simp

text \<open>Ticks alone: every blinker shows the character of its phase, nothing else changes.\<close>

lemma ticks_promised:
  assumes "distinct (map location bs)" and "\<forall>b \<in> set bs. steady b" and "\<forall>b \<in> set bs. pic (unat (location b)) = phase_char j b"
  shows "\<exists>pic'. promised_all req (replicate k Tick) (map (after_ticks j) bs, pic) = (replicate k 0, map (after_ticks (j + k)) bs, pic')
    \<and> (\<forall>b \<in> set bs. pic' (unat (location b)) = phase_char (j + k) b) \<and> (\<forall>l. l \<notin> (unat \<circ> location) ` set bs \<longrightarrow> pic' l = pic l)"
  using assms(3)
proof (induction k arbitrary: j pic)
  case 0
  then show ?case by auto
next
  case (Suc k)
  let ?bs = "map (after_ticks j) bs"
  let ?pic = "fold tick_paint ?bs pic"
  have d: "distinct (map location ?bs)" using assms(1) by (simp add: comp_def)
  have step: "map ticked ?bs = map (after_ticks (Suc j)) bs" using assms(2) ticked_after(1) by simp
  have "\<forall>b \<in> set bs. ?pic (unat (location b)) = phase_char (Suc j) b"
    using fold_tick_paint [OF d, of "after_ticks j b" pic for b] tick_paint_phase assms(2) Suc.prems by simp
  then obtain pic' where p: "promised_all req (replicate k Tick) (map (after_ticks (Suc j)) bs, ?pic) = (replicate k 0, map (after_ticks (Suc j + k)) bs, pic')"
      "\<forall>b \<in> set bs. pic' (unat (location b)) = phase_char (Suc j + k) b" "\<forall>l. l \<notin> (unat \<circ> location) ` set bs \<longrightarrow> pic' l = ?pic l"
    using Suc.IH [of ?pic "Suc j"] by blast
  have "?pic l = pic l" if "l \<notin> (unat \<circ> location) ` set bs" for l
    by (rule fold_tick_other) (use that in auto)
  moreover have "promised_all req (replicate (Suc k) Tick) (?bs, pic) = (replicate (Suc k) 0, map (after_ticks (j + Suc k)) bs, pic')"
    using p(1) by (simp del: map_map add: step)
  ultimately show ?case using p(2,3) by (intro exI [of _ pic']) simp
qed

lemma ticks_show:
  assumes "blinking E scr m (map fresh_blinker bs) pic" and "distinct (map location bs)" and "\<forall>b \<in> set bs. steady b"
    and "\<forall>b \<in> set bs. pic (unat (location b)) = on_char b"
  shows "\<exists>m' pic'. perform_all (perform E) (replicate k Tick) m = Some (replicate k 0, m')
    \<and> blinking E scr m' (map (after_ticks k) bs) pic' \<and> (\<forall>b \<in> set bs. pic' (unat (location b)) = phase_char k b)
    \<and> (\<forall>l. l \<notin> (unat \<circ> location) ` set bs \<longrightarrow> pic' l = pic l)"
proof -
  have "\<forall>b \<in> set bs. pic (unat (location b)) = phase_char 0 b" using assms(3,4) by (simp add: phase_char_def steady_def)
  then obtain pic' where p: "promised_all (struct_at m) (replicate k Tick) (map (after_ticks 0) bs, pic) = (replicate k 0, map (after_ticks k) bs, pic')"
      "\<forall>b \<in> set bs. pic' (unat (location b)) = phase_char k b" "\<forall>l. l \<notin> (unat \<circ> location) ` set bs \<longrightarrow> pic' l = pic l"
    using ticks_promised [OF assms(2,3), of pic 0 "struct_at m" k] by auto
  have "map (after_ticks 0) bs = map fresh_blinker bs" using assms(3) after_0 by simp
  note p(1) [unfolded this]
  moreover have "\<forall>c \<in> set (replicate k Tick). admissible (\<lambda>p. span p 16 \<inter> owned E scr = {}) (struct_at m) c" by simp
  ultimately obtain m' where "perform_all (perform E) (replicate k Tick) m = Some (replicate k 0, m')" "blinking E scr m' (map (after_ticks k) bs) pic'"
    using blink.sequence_refines [OF assms(1)] by blast
  then show ?thesis using p(2,3) by blast
qed

section \<open>A list that bites its tail\<close>

text \<open>
  The allocator takes a slot whose location is 0 for a free one. A blinker that was added at
  location 0 is in such a slot, so the next one is stored over it and linked to itself.
\<close>

lemma tasklet_loop_caught:
  assumes "placed E scr" and "window E scr m" and "p \<in> slots E" and "location (struct_at m p) < 2000" and "next_of m p = p"
  shows "tasklet_loop E p m = None"
proof -
  have "\<not> (placed E scr \<and> window E scr m \<and> p \<in> slots E \<and> location (struct_at m p) < 2000 \<and> next_of m p = p)"
    if "tasklet_loop E p m = Some y" for y
  proof (rule tasklet_loop.raw_induct [where P = "\<lambda>E p m y. \<not> (placed E scr \<and> window E scr m \<and> p \<in> slots E
        \<and> location (struct_at m p) < 2000 \<and> next_of m p = p)", OF _ that], rule notI, goal_cases)
    case (1 loop E p m y)
    obtain m' where m': "tasklet_step E p m = Some m'" "struct_at m' p = ticked (struct_at m p)" "next_of m' p = next_of m p"
        "agree (- (span p 16 \<union> chars scr)) m' m"
      using tasklet_step_ticks 1(3) by metis
    have "span (vmem_base_addr E) 4 \<subseteq> - (span p 16 \<union> chars scr)" using 1(3) placedD(4) placed_vars(2) by blast
    then have w: "window E scr m'" using 1(3) window_agree [OF agree_sub [OF m'(4)], of E scr] by simp
    have "p \<noteq> 0" using 1(3) placedD(1) by blast
    then have "loop E (next_of m' p) m' = Some y" using 1(2) m'(1) by simp
    from 1(1) [OF this] show False using w 1(3) m'(2,3) by simp
  qed
  then show ?thesis using assms by (cases "tasklet_loop E p m") auto
qed

lemma slot_reused:
  assumes "placed E scr" and "p \<in> slots E" and "p = mp1_malloc E m" and "load16 m p = 0" and "location (struct_at m' p) = 0"
    and "agree (- (span (stack_frame E) 16 \<union> span p 16 \<union> span (mp1_list_head E) 4 \<union> chars scr)) m' m"
  shows "mp1_malloc E m' = p"
  unfolding assms(3)
proof (rule mp1_malloc_cong)
  fix q assume q: "q \<in> slots E"
  show "load16 m' q = load16 m q"
  proof (cases "q = p")
    case True
    then show ?thesis using assms(4,5) by (simp add: located)
  next
    case False
    then have "agree (span q 16) m' m"
      using placedD(2,3,5) [OF assms(1) q] slots_apart [OF q assms(2)] by (intro agree_sub [OF assms(6)]) auto
    then show ?thesis by (rule struct_agree(3))
  qed
qed

lemma zero_location_caught:
  assumes "blinking E scr m bs pic" and "length bs < 2000" and "span a 16 \<inter> owned E scr = {}" and "span b 16 \<inter> owned E scr = {}"
    and "location (struct_at m a) = 0" and "location (struct_at m b) < 2000"
  obtains m1 m2 where "mp1_ioctl E a 0 m = Some (0, m1)" "mp1_ioctl E b 0 m1 = Some (0, m2)" "mp1_rtc_tasklet E m2 = None"
proof -
  obtain ps where ps: "held E m ps bs" and ok: "placed E scr" "window E scr m" using assms(1) by (auto simp: blinking_def)
  define p where "p = mp1_malloc E m"
  have p: "p \<in> slots E" "load16 m p = 0" using mp1_malloc_free [of E m] held_length [OF ps] assms(2) by (auto simp: p_def used_def)
  obtain m1 where m1: "mp1_ioctl E a 0 m = Some (0, m1)" "struct_at m1 p = fresh_blinker (struct_at m a)" "load32 m1 (mp1_list_head E) = p"
      "agree (- (span (stack_frame E) 16 \<union> span p 16 \<union> span (mp1_list_head E) 4 \<union> chars scr)) m1 m" "window E scr m1"
    by (rule add_links [OF ok assms(3) refl _ p_def [symmetric] p(1)]) (use assms(5) in auto)
  have again: "mp1_malloc E m1 = p" by (rule slot_reused [OF ok(1) p(1) p_def p(2) _ m1(4)]) (simp add: m1(2) fresh_blinker_def assms(5))
  have "agree (- owned E scr) m1 m" by (rule agree_sub [OF m1(4)]) (use slot_within [OF p(1)] in \<open>auto simp: owned_def\<close>)
  then have rb: "struct_at m1 b = struct_at m b" using requests_kept assms(4) by blast
  obtain m2 where m2: "mp1_ioctl E b 0 m1 = Some (0, m2)" "struct_at m2 p = fresh_blinker (struct_at m b)" "next_of m2 p = load32 m1 (mp1_list_head E)"
      "load32 m2 (mp1_list_head E) = p" "window E scr m2"
    by (rule add_links [OF ok(1) m1(5) assms(4) rb assms(6) again p(1)]) auto
  have "tasklet_loop E p m2 = None"
    by (rule tasklet_loop_caught [OF ok(1) m2(5) p(1)]) (use m2(2,3) m1(3) assms(6) in \<open>simp_all add: fresh_blinker_def\<close>)
  then show thesis using that m1(1) m2(1,4) by (simp add: mp1_rtc_tasklet_def)
qed

section \<open>Start\<close>

lemma blinking_start:
  assumes "placed E scr" and "window E scr m" and "load32 m (mp1_list_head E) = 0" and "agree (span (blink_array E) 32000) m (\<lambda>_. 0)"
  shows "blinking E scr m [] (picture scr m)"
proof -
  have "load16 m p = 0" if "p \<in> slots E" for p
  proof -
    have "load16 m p = load16 (\<lambda>_. 0) p" by (rule struct_agree(3), rule agree_sub [OF assms(4) slot_within [OF that]])
    then show ?thesis by (simp add: load16_def)
  qed
  then have "held E m [] []" using assms(3) by (simp add: held_def used_def)
  then show ?thesis using assms(1,2) by (auto simp: blinking_def)
qed

lemma first_at_changed:
  assumes "at_location l bs" and "\<And>b. location (f b) = location b"
  shows "first_at l (change_first l f bs) = f (first_at l bs)" "location (first_at l bs) = l"
  using assms(1) by (induction bs) (auto simp: first_at_def at_location_def assms(2))

section \<open>Properties\<close>

text \<open>
  A concrete device: its variables in the memory of a program, two requests behind them, and
  the screen at its usual address.
\<close>

definition demo_env :: blink_env where
  "demo_env = \<lparr>blink_array = 0x8110000, mp1_list_head = 0x8120000, vmem_base_addr = 0x8120010, stack_frame = 0x8130000,
     page_view = (\<lambda>a. if unat (a - 0x84B8000) < 4096 then Some (0xB8000 + (a - 0x84B8000)) else None)\<rparr>"

definition demo_request :: "u8 \<Rightarrow> u8 list" where
  "demo_request l = [l, 0, 65, 66, 2, 0, 1, 0, 0, 0, 0, 0, 0, 0, 0, 0]"

definition demo_mem :: mem where
  "demo_mem = store_bytes (store_bytes (store32 (\<lambda>_. 0) 0x8120010 0x84B8000) 0x8140000 (demo_request 70)) 0x8140010 (demo_request 0)"

lemma length_demo_request [simp]: "length (demo_request l) = 16"
  by (simp add: demo_request_def)

abbreviation demo_screen :: u32 where
  "demo_screen \<equiv> 0xB8000"

lemma demo_placed: "placed demo_env demo_screen"
proof -
  have "span 0xB8000 4000 \<inter> span 0x8110000 32000 = ({} :: u32 set)" "span 0xB8000 4000 \<inter> span 0x8120000 4 = ({} :: u32 set)"
    "span 0xB8000 4000 \<inter> span 0x8120010 4 = ({} :: u32 set)" "span 0xB8000 4000 \<inter> span 0x8130000 16 = ({} :: u32 set)"
    "span 0x8110000 32000 \<inter> span 0x8120000 4 = ({} :: u32 set)" "span 0x8110000 32000 \<inter> span 0x8120010 4 = ({} :: u32 set)"
    "span 0x8110000 32000 \<inter> span 0x8130000 16 = ({} :: u32 set)" "span 0x8120000 4 \<inter> span 0x8120010 4 = ({} :: u32 set)"
    "span 0x8120000 4 \<inter> span 0x8130000 16 = ({} :: u32 set)" "span 0x8120010 4 \<inter> span 0x8130000 16 = ({} :: u32 set)"
    by (rule span_below; simp)+
  moreover have "(0 :: u32) \<notin> span 0x8110000 32000" by (simp add: span_def)
  ultimately show ?thesis by (simp add: placed_def demo_env_def Int_Un_distrib Int_commute)
qed

lemma demo_apart: "span 0x8140000 16 \<inter> owned demo_env demo_screen = {}" "span 0x8140010 16 \<inter> owned demo_env demo_screen = {}"
proof -
  have "span 0x8140000 32 \<inter> owned demo_env demo_screen = {}"
  proof -
    have "span 0xB8000 4000 \<inter> span 0x8140000 32 = ({} :: u32 set)" "span 0x8110000 32000 \<inter> span 0x8140000 32 = ({} :: u32 set)"
      "span 0x8120000 4 \<inter> span 0x8140000 32 = ({} :: u32 set)" "span 0x8130000 16 \<inter> span 0x8140000 32 = ({} :: u32 set)"
      by (rule span_below; simp)+
    then show ?thesis using chars_within [of demo_screen] by (auto simp: owned_def demo_env_def)
  qed
  moreover have "span 0x8140000 16 \<subseteq> span (0x8140000 :: u32) 32" "span 0x8140010 16 \<subseteq> span (0x8140000 :: u32) 32"
    using span_sub [of 0 16 32 "0x8140000"] span_sub [of 16 16 32 "0x8140000"] by simp_all
  ultimately show "span 0x8140000 16 \<inter> owned demo_env demo_screen = {}" "span 0x8140010 16 \<inter> owned demo_env demo_screen = {}" by blast+
qed

lemma demo_zero: "x \<notin> span 0x8120010 4 \<Longrightarrow> x \<notin> span 0x8140000 16 \<Longrightarrow> x \<notin> span 0x8140010 16 \<Longrightarrow> demo_mem x = 0"
  using store32_agree [of "0x8120010" "\<lambda>_. 0" "0x84B8000"] by (simp add: demo_mem_def store_outside_span agree_def)

lemma demo_vmem: "load32 demo_mem 0x8120010 = 0x84B8000"
proof -
  have "span 0x8120010 4 \<inter> span 0x8140000 16 = ({} :: u32 set)" "span 0x8120010 4 \<inter> span 0x8140010 16 = ({} :: u32 set)"
    by (rule span_below; simp)+
  then have "agree (span 0x8120010 4) demo_mem (store32 (\<lambda>_. 0) 0x8120010 0x84B8000)"
    unfolding demo_mem_def by (intro agree_trans [OF agree_store agree_store]) simp_all
  then show ?thesis by (simp add: load32_agree_span load_store32)
qed

lemma demo_blinking: "blinking demo_env demo_screen demo_mem [] (\<lambda>_. 0)"
proof -
  have w: "window demo_env demo_screen demo_mem" unfolding window_def
  proof (intro allI impI)
    fix k :: nat assume "k < 4000"
    then show "page_view demo_env (load32 demo_mem (vmem_base_addr demo_env) + of_nat k) = Some (demo_screen + of_nat k)"
      using demo_vmem by (simp add: demo_env_def unat_of_nat32)
  qed
  have z: "agree (owned demo_env demo_screen) demo_mem (\<lambda>_. 0)"
    unfolding agree_def using demo_zero demo_apart owned_vmem [OF demo_placed] by (auto simp: demo_env_def)
  have "agree (span (mp1_list_head demo_env) 4) demo_mem (\<lambda>_. 0)" by (rule agree_sub [OF z]) (auto simp: owned_def)
  then have h: "load32 demo_mem (mp1_list_head demo_env) = 0" using load32_agree_span by (fastforce simp: load32_def)
  have "agree (span (blink_array demo_env) 32000) demo_mem (\<lambda>_. 0)" by (rule agree_sub [OF z]) (auto simp: owned_def)
  note b = blinking_start [OF demo_placed w h this]
  have "picture demo_screen demo_mem = picture demo_screen (\<lambda>_. 0)" by (rule picture_agree, rule agree_sub [OF z]) (auto simp: owned_def)
  then show ?thesis using b by (simp add: picture_def)
qed

lemma demo_request_at:
  "load_bytes m p 16 = demo_request l \<Longrightarrow> struct_at m p = \<lparr>location = ucast l, on_char = 65, off_char = 66, on_length = 2, off_length = 1, countdown = 0, status = 0\<rparr>"
proof -
  assume "load_bytes m p 16 = demo_request l"
  then have b: "m (p + of_nat i) = demo_request l ! i" if "i < 16" for i using nth_load_bytes [OF that, of m p] by simp
  note b = b [of 0] b [of 1] b [of 2] b [of 3] b [of 4] b [of 5] b [of 6] b [of 7] b [of 8] b [of 9] b [of 10] b [of 11]
  show "struct_at m p = \<lparr>location = ucast l, on_char = 65, off_char = 66, on_length = 2, off_length = 1, countdown = 0, status = 0\<rparr>"
    using b by (simp add: struct_at_def load16_def add.assoc demo_request_def)
qed

lemma demo_requests:
  "struct_at demo_mem 0x8140000 = \<lparr>location = 70, on_char = 65, off_char = 66, on_length = 2, off_length = 1, countdown = 0, status = 0\<rparr>"
  "struct_at demo_mem 0x8140010 = \<lparr>location = 0, on_char = 65, off_char = 66, on_length = 2, off_length = 1, countdown = 0, status = 0\<rparr>"
proof -
  have "span 0x8140000 16 \<inter> span 0x8140010 16 = ({} :: u32 set)" by (rule span_below; simp)
  then have a: "agree (span 0x8140000 16) demo_mem (store_bytes (store32 (\<lambda>_. 0) 0x8120010 0x84B8000) 0x8140000 (demo_request 70))"
    unfolding demo_mem_def by (intro agree_store) simp_all
  have "load_bytes (store_bytes m p (demo_request l)) p 16 = demo_request l" for m p l
    using load_store_bytes [of "demo_request l" m p] by simp
  note r = demo_request_at [OF this]
  show "struct_at demo_mem 0x8140010 = \<lparr>location = 0, on_char = 65, off_char = 66, on_length = 2, off_length = 1, countdown = 0, status = 0\<rparr>"
    unfolding demo_mem_def r by simp
  show "struct_at demo_mem 0x8140000 = \<lparr>location = 70, on_char = 65, off_char = 66, on_length = 2, off_length = 1, countdown = 0, status = 0\<rparr>"
    unfolding struct_agree(1) [OF a] r by simp
qed

text \<open>
  C11: the blinking characters refine their specification. For every sequence of ticks and
  requests to add, remove and synchronise, the code on pointers and bytes returns, answers what
  the specification on lists answers, and leaves the specified list and picture in memory.
\<close>

theorem blink_calls_refine:
  assumes "blinking E scr m bs pic" and "\<forall>c \<in> set cs. admissible (\<lambda>p. span p 16 \<inter> owned E scr = {}) (struct_at m) c"
    and "promised_all (struct_at m) cs (bs, pic) = (us, bs', pic')"
  shows "\<exists>m'. perform_all (perform E) cs m = Some (us, m') \<and> blinking E scr m' bs' pic'"
  using blink.sequence_refines [OF assms] by blast

theorem blink_calls_refine_witness:
  "\<exists>m'. perform_all (perform demo_env) [Add 0x8140000, Tick, Tick, Remove 70] demo_mem = Some ([0, 0, 0, 0], m')
     \<and> blinking demo_env demo_screen m' [] ((\<lambda>_. 0)(70 := 66))"
proof (rule blink_calls_refine [OF demo_blinking])
  show "\<forall>c \<in> set [Add 0x8140000, Tick, Tick, Remove 70]. admissible (\<lambda>p. span p 16 \<inter> owned demo_env demo_screen = {}) (struct_at demo_mem) c"
    by (simp add: demo_requests demo_apart)
  show "promised_all (struct_at demo_mem) [Add 0x8140000, Tick, Tick, Remove 70] ([], \<lambda>_. 0) = ([0, 0, 0, 0], [], (\<lambda>_. 0)(70 := 66))"
    by (simp add: demo_requests added_def fresh_blinker_def paint_def ticked_def tick_paint_def due_def shining_def removed_def at_location_def)
qed

text \<open>
  C12: the characters blink. When blinkers at different locations have just been added, then
  after any number of ticks each of them shows its first character during the first part of its
  period and its second one during the rest, and every other character of the screen is
  unchanged.
\<close>

theorem blinkers_blink:
  assumes "blinking E scr m (map fresh_blinker bs) pic" and "distinct (map location bs)" and "\<forall>b \<in> set bs. steady b"
    and "\<forall>b \<in> set bs. pic (unat (location b)) = on_char b"
  shows "\<exists>m'. perform_all (perform E) (replicate k Tick) m = Some (replicate k 0, m')
    \<and> (\<forall>b \<in> set bs. picture scr m' (unat (location b)) = (if k mod period b < unat (on_length b) then on_char b else off_char b))
    \<and> (\<forall>l. l \<notin> (unat \<circ> location) ` set bs \<longrightarrow> picture scr m' l = pic l)"
  using ticks_show [OF assms, of k] by (auto simp: blinking_def phase_char_def)

theorem blinkers_blink_witness:
  "\<exists>m m'. mp1_ioctl demo_env 0x8140000 0 demo_mem = Some (0, m) \<and> perform_all (perform demo_env) (replicate 5 Tick) m = Some (replicate 5 0, m')
     \<and> picture demo_screen m' 70 = 66 \<and> picture demo_screen m' 71 = 0"
proof -
  let ?b = "struct_at demo_mem 0x8140000"
  have l: "location ?b \<noteq> 0" "location ?b < 2000" by (simp_all add: demo_requests)
  obtain m where m: "mp1_ioctl demo_env 0x8140000 0 demo_mem = Some (0, m)"
      "blinking demo_env demo_screen m [fresh_blinker ?b] (paint ?b (on_char ?b) (\<lambda>_. 0))"
    using add_inserts [OF demo_blinking demo_apart(1) refl l] by auto
  have "blinking demo_env demo_screen m (map fresh_blinker [?b]) (paint ?b (on_char ?b) (\<lambda>_. 0))" using m(2) by simp
  from blinkers_blink [OF this, of 5] have "\<exists>m'. perform_all (perform demo_env) (replicate 5 Tick) m = Some (replicate 5 0, m')
      \<and> picture demo_screen m' 70 = 66 \<and> picture demo_screen m' 71 = 0"
    by (auto simp: demo_requests steady_def paint_def period_def)
  then show ?thesis using m(1) by blast
qed

text \<open>
  C37: a blinker at location 0 makes the program hang. The allocator takes its slot for a free
  one, so the next blinker is linked to itself, and the tasklet never returns from the next
  tick.
\<close>

theorem blink_location_zero_hangs:
  assumes "blinking E scr m bs pic" and "length bs < 2000" and "span a 16 \<inter> owned E scr = {}" and "span b 16 \<inter> owned E scr = {}"
    and "location (struct_at m a) = 0" and "location (struct_at m b) < 2000"
  shows "\<exists>m1 m2. mp1_ioctl E a 0 m = Some (0, m1) \<and> mp1_ioctl E b 0 m1 = Some (0, m2) \<and> mp1_rtc_tasklet E m2 = None"
  using zero_location_caught [OF assms] by metis

theorem blink_location_zero_hangs_witness:
  "\<exists>m1 m2. mp1_ioctl demo_env 0x8140010 0 demo_mem = Some (0, m1) \<and> mp1_ioctl demo_env 0x8140000 0 m1 = Some (0, m2)
     \<and> mp1_rtc_tasklet demo_env m2 = None"
  by (rule blink_location_zero_hangs [OF demo_blinking _ demo_apart(2,1)]) (simp_all add: demo_requests)

text \<open>
  C38: sync shows the wrong character. When the blinker that sets the pace is in its first
  phase, the other one is put into its first phase too, but the screen shows the character of
  its second phase: the condition of the move looks at the sign of a byte that is 0 or 1.
\<close>

theorem sync_shows_dark:
  assumes "blinking E scr m bs pic" and "at_location (ucast (drop_bit 16 arg)) bs" and "at_location (ucast arg) bs"
    and "shining (first_at (ucast (drop_bit 16 arg)) bs)"
  shows "\<exists>m' bs' pic'. mp1_ioctl E arg 3 m = Some (0, m') \<and> blinking E scr m' bs' pic' \<and> shining (first_at (ucast arg) bs')
    \<and> pic' (unat (ucast arg :: u16)) = off_char (first_at (ucast arg) bs')"
proof -
  let ?a = "ucast (drop_bit 16 arg) :: u16" and ?l = "ucast arg :: u16"
  let ?bs = "change_first ?l (in_step (first_at ?a bs)) bs" and ?pic = "paint (first_at ?l bs) (off_char (first_at ?l bs)) pic"
  have "synced ?a ?l bs pic = (0, ?bs, ?pic)" using assms(2,3) by (simp add: synced_def)
  then obtain m' where m': "mp1_ioctl E arg 3 m = Some (0, m')" "blinking E scr m' ?bs ?pic" by (rule sync_refines [OF assms(1)])
  have f: "first_at ?l ?bs = in_step (first_at ?a bs) (first_at ?l bs)" "location (first_at ?l bs) = ?l"
    using assms(3) by (simp_all add: first_at_changed in_step_def)
  have "shining (first_at ?l ?bs)" "?pic (unat ?l) = off_char (first_at ?l ?bs)"
    using assms(4) f by (simp_all add: shining_def in_step_def paint_def)
  then show ?thesis using m' by blast
qed

theorem sync_shows_dark_witness:
  "\<exists>m1 m' bs' pic'. mp1_ioctl demo_env 0x8140000 0 demo_mem = Some (0, m1) \<and> mp1_ioctl demo_env (70 * 0x10000 + 70) 3 m1 = Some (0, m')
     \<and> blinking demo_env demo_screen m' bs' pic' \<and> shining (first_at 70 bs') \<and> pic' 70 = off_char (first_at 70 bs')"
proof -
  let ?b = "struct_at demo_mem 0x8140000"
  have l: "location ?b \<noteq> 0" "location ?b < 2000" by (simp_all add: demo_requests)
  obtain m1 where m: "mp1_ioctl demo_env 0x8140000 0 demo_mem = Some (0, m1)"
      "blinking demo_env demo_screen m1 [fresh_blinker ?b] (paint ?b (on_char ?b) (\<lambda>_. 0))"
    using add_inserts [OF demo_blinking demo_apart(1) refl l] by auto
  have u: "ucast (drop_bit 16 (70 * 0x10000 + 70 :: u32)) = (70 :: u16)" "ucast (70 * 0x10000 + 70 :: u32) = (70 :: u16)" "unat (70 :: u16) = 70"
    by (simp_all add: drop_bit_eq_div)
  have "at_location 70 [fresh_blinker ?b]" "shining (first_at 70 [fresh_blinker ?b])"
    by (simp_all add: at_location_def fresh_blinker_def demo_requests first_at_def shining_def)
  then show ?thesis using sync_shows_dark [OF m(2), of "70 * 0x10000 + 70", unfolded u] m(1) by blast
qed

end
