(* ===== verification/Kud_Fish.thy ===== *)
theory Kud_Fish
  imports Kud_Blinkers Kud_Pingpong Kud_Grep
begin

unbundle bit_operations_syntax

text \<open>
  The fish program \<^verbatim>\<open>src/fish/fish.c\<close>: it maps the screen, reads two pictures from files
  character by character, adds a blinker for every place where one of them has a character,
  and lets the clock drive the blinkers.
\<close>

section \<open>The program\<close>

text \<open>
  What user code sees at an address. A page that is open to it shows the physical byte; the
  page of the program itself is in the memory of the model at its own address.
\<close>

definition user_view :: "'a sys_state_scheme \<Rightarrow> u32 \<Rightarrow> u32 option" where
  "user_view s a =
     (case translate s (cr3 s) a of
        Some (p, True) \<Rightarrow> Some (if unat (drop_bit 22 a) = 32 then a else p)
      | _ \<Rightarrow> None)"

abbreviation seen :: "blink_env \<Rightarrow> 'a sys_state_scheme \<Rightarrow> blink_env" where
  "seen E s \<equiv> E\<lparr>page_view := user_view s\<rparr>"

text \<open>A call that does not return has no continuation.\<close>

definition fish_ioctl :: "blink_env \<Rightarrow> u32 \<Rightarrow> u32 \<Rightarrow> 'a sys_state_scheme \<Rightarrow> 'a sys_state_scheme outcome" where
  "fish_ioctl E arg cmd s =
     (case mp1_ioctl (seen E s) arg cmd (mem s) of None \<Rightarrow> Faults | Some (r, m) \<Rightarrow> Returns r (s\<lparr>mem := m\<rparr>))"

definition fish_tasklet :: "blink_env \<Rightarrow> 'a sys_state_scheme \<Rightarrow> 'a sys_state_scheme outcome" where
  "fish_tasklet E s = (case mp1_rtc_tasklet (seen E s) (mem s) of None \<Rightarrow> Faults | Some m \<Rightarrow> Returns 0 (s\<lparr>mem := m\<rparr>))"

definition mp1_set_video_mode :: "nat \<Rightarrow> blink_env \<Rightarrow> 'a sys_state_scheme \<Rightarrow> 'a sys_state_scheme outcome" where
  "mp1_set_video_mode q E s =
     and_then (ece391_vidmap q (vmem_base_addr E) s) (\<lambda>r s.
       if r = minus_one then Returns NULL32 s else Returns (load32 (mem s) (vmem_base_addr E)) s)"

text \<open>
  The next character of a picture, in the variable at \<open>c\<close>. The result is the new value of the
  flag that says that the file has ended.
\<close>

definition frame_char :: "nat \<Rightarrow> u32 \<Rightarrow> u32 \<Rightarrow> u32 \<Rightarrow> 'a sys_state_scheme \<Rightarrow> 'a sys_state_scheme outcome" where
  "frame_char q fd c eof s =
     (if mem s c \<noteq> 10
      then and_then (ece391_read q fd c 1 s) (\<lambda>num_bytes s.
             if num_bytes = 0 then Returns 1 (s\<lparr>mem := (mem s)(c := 10)\<rparr>) else Returns eof s)
      else Returns eof s)"

definition frame_add :: "blink_env \<Rightarrow> u32 \<Rightarrow> u32 \<Rightarrow> u32 \<Rightarrow> int \<Rightarrow> int \<Rightarrow> 'a sys_state_scheme \<Rightarrow> 'a sys_state_scheme outcome" where
  "frame_add E blink_struct c0 c1 row col s =
     (if mem s c0 \<noteq> 32 \<and> mem s c0 \<noteq> 10 \<or> mem s c1 \<noteq> 32 \<and> mem s c1 \<noteq> 10
      then let m = (mem s)(blink_struct + 2 := if mem s c0 = 10 then 32 else mem s c0);
               m = m(blink_struct + 3 := if m c1 = 10 then 32 else m c1);
               m = store16 m blink_struct (of_int (row * 80 + col + 40))
           in fish_ioctl E blink_struct 0 (s\<lparr>mem := m\<rparr>)
      else Returns 0 s)"

partial_function (option) frames_cols :: "nat \<Rightarrow> blink_env \<Rightarrow> u32 \<Rightarrow> u32 \<Rightarrow> u32 \<Rightarrow> u32 \<Rightarrow> u32 \<Rightarrow> int \<Rightarrow> int \<Rightarrow> u32 \<Rightarrow> u32
    \<Rightarrow> 'a sys_state_scheme \<Rightarrow> ((u32 \<times> u32 \<times> 'a sys_state_scheme) + 'a sys_state_scheme outcome) option" where
  "frames_cols q E blink_struct c0 c1 fd0 fd1 row col eof0 eof1 s =
     (case frame_char q fd0 c0 eof0 s of
        Returns eof0 s \<Rightarrow>
          (case frame_char q fd1 c1 eof1 s of
             Returns eof1 s \<Rightarrow>
               if mem s c0 = 10 \<and> mem s c1 = 10 then Some (Inl (eof0, eof1, s))
               else (case frame_add E blink_struct c0 c1 row col s of
                       Returns r s \<Rightarrow> frames_cols q E blink_struct c0 c1 fd0 fd1 row (col + 1) eof0 eof1 s
                     | out \<Rightarrow> Some (Inr out))
           | out \<Rightarrow> Some (Inr out))
      | out \<Rightarrow> Some (Inr out))"

definition frames_next :: "nat \<Rightarrow> u32 \<Rightarrow> u32 \<Rightarrow> u32 \<Rightarrow> 'a sys_state_scheme \<Rightarrow> 'a sys_state_scheme outcome" where
  "frames_next q fd c eof s =
     (if eof \<noteq> 0 then ece391_close q fd (s\<lparr>mem := (mem s)(c := 10)\<rparr>) else Returns 0 (s\<lparr>mem := (mem s)(c := 48)\<rparr>))"

partial_function (option) frames_rows :: "nat \<Rightarrow> blink_env \<Rightarrow> u32 \<Rightarrow> u32 \<Rightarrow> u32 \<Rightarrow> u32 \<Rightarrow> u32 \<Rightarrow> int \<Rightarrow> u32 \<Rightarrow> u32
    \<Rightarrow> 'a sys_state_scheme \<Rightarrow> 'a sys_state_scheme outcome option" where
  "frames_rows q E blink_struct c0 c1 fd0 fd1 row eof0 eof1 s =
     (if eof0 = 0 \<or> eof1 = 0
      then Option.bind (frames_cols q E blink_struct c0 c1 fd0 fd1 row 0 eof0 eof1 s) (\<lambda>x.
             case x of
               Inl (eof0, eof1, s) \<Rightarrow>
                 (case and_then (frames_next q fd0 c0 eof0 s) (\<lambda>_ s. frames_next q fd1 c1 eof1 s) of
                    Returns r s \<Rightarrow> frames_rows q E blink_struct c0 c1 fd0 fd1 (row + 1) eof0 eof1 s
                  | out \<Rightarrow> Some out)
             | Inr out \<Rightarrow> Some out)
      else Some (Returns 0 s))"

text \<open>A missing file ends the program.\<close>

definition frame_open :: "nat \<Rightarrow> u32 \<Rightarrow> 'a sys_state_scheme \<Rightarrow> 'a sys_state_scheme outcome" where
  "frame_open q f s =
     and_then (ece391_open q f s) (\<lambda>fd s.
       if sint fd < 0 then and_then (ece391_halt q minus_one s) (\<lambda>_ s. Returns fd s) else Returns fd s)"

definition add_frames :: "nat \<Rightarrow> blink_env \<Rightarrow> u32 \<Rightarrow> u32 \<Rightarrow> u32 \<Rightarrow> u32 \<Rightarrow> u32 \<Rightarrow> 'a sys_state_scheme
    \<Rightarrow> 'a sys_state_scheme outcome option" where
  "add_frames q E blink_struct c0 c1 f0 f1 s =
     (let m = (mem s)(c0 := 48, c1 := 48);
          m = store16 (store16 m (blink_struct + 4) 15) (blink_struct + 6) 15
      in case frame_open q f0 (s\<lparr>mem := m\<rparr>) of
           Returns fd0 s \<Rightarrow>
             (case frame_open q f1 s of
                Returns fd1 s \<Rightarrow> frames_rows q E blink_struct c0 c1 fd0 fd1 0 0 0 s
              | out \<Rightarrow> Some out)
         | out \<Rightarrow> Some out)"

text \<open>The waiting loops: one tick of the clock, one run of the tasklet.\<close>

fun fish_wait :: "nat \<Rightarrow> blink_env \<Rightarrow> u32 \<Rightarrow> u32 \<Rightarrow> nat \<Rightarrow> 'a sys_state_scheme \<Rightarrow> 'a sys_state_scheme outcome" where
  "fish_wait q E rtc_fd garbage 0 s = Returns 0 s"
| "fish_wait q E rtc_fd garbage (Suc n) s =
     and_then (ece391_read q rtc_fd garbage 4 s) (\<lambda>_ s.
     and_then (fish_tasklet E s) (\<lambda>_ s. fish_wait q E rtc_fd garbage n s))"

definition fish_extra :: "mem \<Rightarrow> u32 \<Rightarrow> mem" where
  "fish_extra m blink_struct =
     (let m = m(blink_struct + 2 := 73);
          m = m(blink_struct + 3 := 77);
          m = store16 m (blink_struct + 4) 7;
          m = store16 m (blink_struct + 6) 6
      in store16 m blink_struct (6 * 80 + 60))"

definition fish_show :: "nat \<Rightarrow> blink_env \<Rightarrow> u32 \<Rightarrow> u32 \<Rightarrow> u32 \<Rightarrow> u32 \<Rightarrow> 'a sys_state_scheme \<Rightarrow> 'a sys_state_scheme outcome" where
  "fish_show q E blink_struct ret_val garbage rtc_fd s =
     (let s = s\<lparr>mem := store32 (mem s) ret_val 32\<rparr> in
      and_then (ece391_write q rtc_fd ret_val 4 s) (\<lambda>r s.
      let s = s\<lparr>mem := store32 (mem s) ret_val r\<rparr> in
      and_then (fish_wait q E rtc_fd garbage 200 s) (\<lambda>_ s.
      let s = s\<lparr>mem := fish_extra (mem s) blink_struct\<rparr> in
      and_then (fish_ioctl E blink_struct 0 s) (\<lambda>_ s.
      and_then (fish_wait q E rtc_fd garbage 200 s) (\<lambda>_ s.
      and_then (fish_ioctl E (push_bit 16 40 OR (6 * 80 + 60)) 3 s) (\<lambda>_ s.
      and_then (fish_wait q E rtc_fd garbage 200 s) (\<lambda>_ s.
      let s = s\<lparr>mem := store16 (mem s) blink_struct 60\<rparr> in
      and_then (fish_ioctl E 200 1 s) (\<lambda>_ s.
      and_then (fish_wait q E rtc_fd garbage 2000 s) (\<lambda>_ s.
      and_then (ece391_close q rtc_fd s) (\<lambda>_ s. Returns 0 s))))))))))"

text \<open>
  The addresses are those of the local variables of main, \<open>blink_struct\<close>, \<open>ret_val\<close> and
  \<open>garbage\<close>, of those of add\_frames, \<open>frame_struct\<close>, \<open>c0\<close> and \<open>c1\<close>, and of the names of the files.
\<close>

record fish_vars =
  blink_struct_at :: u32
  ret_val_at :: u32
  garbage_at :: u32
  frame_struct_at :: u32
  c0_at :: u32
  c1_at :: u32
  file0_at :: u32
  file1_at :: u32

definition fish_main :: "nat \<Rightarrow> (string \<Rightarrow> u32) \<Rightarrow> blink_env \<Rightarrow> fish_vars \<Rightarrow> 'a sys_state_scheme \<Rightarrow> 'a sys_state_scheme outcome option" where
  "fish_main q lit E v s =
     (let s = s\<lparr>mem := ece391_memset (mem s) (blink_array E) 0 (16 * 80 * 25)\<rparr> in
      case mp1_set_video_mode q E s of
        Returns base s \<Rightarrow>
          if base = NULL32 then Some (Returns minus_one s)
          else (case ece391_open q (lit ''rtc'') s of
                  Returns rtc_fd s \<Rightarrow>
                    Option.bind (add_frames q E (frame_struct_at v) (c0_at v) (c1_at v) (file0_at v) (file1_at v) s) (\<lambda>out.
                      Some (and_then out (\<lambda>_ s. fish_show q E (blink_struct_at v) (ret_val_at v) (garbage_at v) rtc_fd s)))
                | out \<Rightarrow> Some out)
      | out \<Rightarrow> Some out)"

section \<open>What a piece of the program leaves alone\<close>

definition maps :: "'a page_state_scheme \<Rightarrow> _" where
  "maps s = (cr3 s, page_directories s, page_table s, page_table_vidmap s, page_table_at s, page_table_vidmap_at s)"

lemma user_view_maps: "maps s' = maps s \<Longrightarrow> user_view s' = user_view s"
proof -
  assume m: "maps s' = maps s"
  then have "page_table_of s' = page_table_of s" by (intro ext) (simp add: maps_def page_table_of_def)
  then have "translate s' i a = translate s i a" for i a using m by (simp add: maps_def translate_def Let_def)
  then show ?thesis using m by (intro ext) (simp add: user_view_def maps_def)
qed

text \<open>The processes, the file system and the page tables stay, memory changes in \<open>W\<close>, descriptors in \<open>F\<close>.\<close>

definition kept :: "u32 set \<Rightarrow> nat set \<Rightarrow> 'a sys_state_scheme \<Rightarrow> 'a sys_state_scheme \<Rightarrow> bool" where
  "kept W F s s' \<longleftrightarrow> user_ok s' \<and> procs s' = procs s \<and> places s' = places s \<and> maps s' = maps s
     \<and> (\<forall>g. g \<notin> F \<longrightarrow> cur_fd s' g = cur_fd s g) \<and> agree (- W) (mem s') (mem s)"

lemma keptD:
  assumes "kept W F s s'"
  shows "user_ok s'" "procs s' = procs s" "places s' = places s" "maps s' = maps s" "g \<notin> F \<Longrightarrow> cur_fd s' g = cur_fd s g"
    "A \<inter> W = {} \<Longrightarrow> agree A (mem s') (mem s)" "x \<notin> W \<Longrightarrow> mem s' x = mem s x"
  using assms by (auto simp: kept_def agree_def)

lemma kept_trans: "kept W F s s1 \<Longrightarrow> kept W F s1 s2 \<Longrightarrow> kept W F s s2"
  by (auto simp: kept_def agree_def)

lemma kept_mono: "kept V G s s' \<Longrightarrow> V \<subseteq> W \<Longrightarrow> G \<subseteq> F \<Longrightarrow> kept W F s s'"
  by (auto simp: kept_def agree_def)

lemma kept_mem: "user_ok s \<Longrightarrow> agree (- W) m (mem s) \<Longrightarrow> kept W {} s (s\<lparr>mem := m\<rparr>)"
  using user_ok_mem [of s m] by (simp add: kept_def maps_def procs_def places_def cur_fd_def)

lemma kept_refl: "user_ok s \<Longrightarrow> kept {} {} s s"
  by (simp add: kept_def agree_def)

lemma kept_prints:
  assumes "prints {} s [] s'" and "mem s' = mem s" and "maps s' = maps s" and "\<forall>g. g \<notin> F \<longrightarrow> cur_fd s' g = cur_fd s g"
  shows "kept {} F s s'"
  using assms by (simp add: kept_def prints_def agree_def)

lemma maps_ground: "ground s' = ground s \<Longrightarrow> maps s' = maps s"
  by (simp add: ground_def maps_def)

lemma cur_fd_ground: "ground s' = ground s \<Longrightarrow> cur_fd s' g = cur_fd s g" for s s' :: "'a sys_state_scheme"
  using others_kept_ground [of s' s "Suc g"] by (simp add: others_kept_def)

lemma maps_pcbs: "maps (s\<lparr>pcbs := x\<rparr>) = maps s" "maps (s\<lparr>dentry := e\<rparr>) = maps s" "maps (set_cur_fd fd d s) = maps s"
  by (simp_all add: maps_def set_cur_fd_def upd_pcb_def)

lemma open_maps:
  assumes "ece391_open q nm s = Returns r s'"
  shows "maps s' = maps s"
proof -
  have "maps (snd (open_file nm s)) = maps s" by (auto simp: open_file_def Let_def maps_pcbs split: prod.splits option.splits)
  moreover have "s' = s \<or> s' = snd (open_file nm s)"
    using assms by (auto simp: ece391_open_def syscall_handler_def sys_open_def split: if_splits prod.splits option.splits)
  ultimately show ?thesis by auto
qed

lemma close_kept:
  assumes "user_ok s" and "2 \<le> fd" and "fd < 8"
  obtains r s' where "ece391_close q (of_nat fd) s = Returns r s'" "kept {} {fd} s s'"
proof -
  have u: "files_ok s" using assms(1) by (simp add: user_ok_def)
  obtain r s' where s': "ece391_close q (of_nat fd) s = Returns r s'" "prints {} s [] s'" "mem s' = mem s"
      "\<forall>g. g \<noteq> fd \<longrightarrow> cur_fd s' g = cur_fd s g"
    by (rule close_stage [OF assms])
  have "sint (of_nat fd :: u32) = int fd" using assms(3) by (intro sint_of_nat32) simp
  then have "sys_close (int fd) s = Returns r s'" using s'(1) by (simp add: ece391_close_def syscall_handler_def)
  moreover obtain r' s'' where "sys_close (int fd) s = Returns r' s''" "s'' = s\<lparr>pcbs := pcbs s''\<rparr>"
    by (rule sys_close_result [OF u assms(3)])
  ultimately have "maps s' = maps s" by (metis maps_pcbs(1) outcome.inject(1))
  then show thesis using s' by (intro that [OF s'(1)] kept_prints) auto
qed

section \<open>Reading the pictures\<close>

text \<open>The descriptor \<open>fd\<close> is at position \<open>p\<close> of a file with the text \<open>t\<close>, which the program does not write to.\<close>

definition reading :: "u32 set \<Rightarrow> 'a sys_state_scheme \<Rightarrow> nat \<Rightarrow> u32 \<Rightarrow> u8 list \<Rightarrow> nat \<Rightarrow> bool" where
  "reading W s fd k t p \<longleftrightarrow> file_ok s k (length t) \<and> at_pos s fd k p \<and> (\<forall>j < length t. file_byte s k j = t ! j)
     \<and> W \<inter> disk s k (length t) = {}"

lemma ready_fd: "user_ok s \<Longrightarrow> fd < 8 \<Longrightarrow> fd_ready s fd"
  unfolding user_ok_def fd_ready_def by (elim conjE files_okD) auto

lemma reading_kept:
  assumes "reading W s fd k t p" and "kept V F s s'" and "V \<subseteq> W" and "fd \<notin> F"
  shows "reading W s' fd k t p"
proof -
  have r: "file_ok s k (length t)" "at_pos s fd k p" "\<forall>j < length t. file_byte s k j = t ! j" "W \<inter> disk s k (length t) = {}"
    using assms(1) by (simp_all add: reading_def)
  have fs: "same_fs s' s" by (rule places_eqD(6) [OF keptD(3) [OF assms(2)]])
  have "agree (disk s k (length t)) (mem s') (mem s)" by (rule keptD(6) [OF assms(2)]) (use r(4) assms(3) in blast)
  note f = file_ok_agree [OF r(1) fs this]
  have "cur_fd s' fd = cur_fd s fd" by (rule keptD(5) [OF assms(2,4)])
  then have "at_pos s' fd k p" using r(2) ready_fd [OF keptD(1) [OF assms(2)]] fs by (simp add: at_pos_def inode_at_def same_fs_def)
  then show ?thesis using f r(3,4) by (simp add: reading_def)
qed

lemma span_1: "span a 1 = {a}"
  by (auto simp: span_def unat_eq_0 less_Suc_eq)

lemma char_read:
  assumes "user_ok s" and "reading W s fd k t p" and "p \<le> length t" and "c \<noteq> 0" and "c \<in> W" and "c \<notin> screen_span"
  defines "n \<equiv> if p < length t then 1 else 0"
  obtains s' where "ece391_read q (of_nat fd) c 1 s = Returns (of_nat n) s'" "kept {c} {fd} s s'" "reading W s' fd k t (p + n)"
    "mem s' c = (if p < length t then t ! p else mem s c)"
proof -
  have r: "file_ok s k (length t)" "at_pos s fd k p" "\<forall>j < length t. file_byte s k j = t ! j" "W \<inter> disk s k (length t) = {}"
    using assms(2) by (simp_all add: reading_def)
  let ?s = "s\<lparr>mem := filled (mem s) c n (\<lambda>i. file_byte s k (p + i)), pcbs := advanced fd n s\<rparr>"
  have n: "n = min 1 (length t - p)" "n \<le> 1" "n \<le> length t - p" using assms(3) by (auto simp: n_def)
  have dj: "span c 1 \<inter> disk s k (length t) = {}" "span c 1 \<inter> (disk s k (length t) \<union> screen_span) = {}"
    unfolding span_1 using r(4) assms(5,6) by auto
  have rd: "ece391_read q (of_nat fd) c 1 s = Returns (of_nat n) ?s"
    using read_regular [OF assms(1) r(1,2) assms(4) _ n(1) dj(1), of q] by simp
  note a = after_read [OF assms(1) r(1,2) n(3) dj(2) n(2)]
  have m: "mem ?s = (if n = 0 then mem s else (mem s)(c := file_byte s k p))"
    using filled_1 [of "mem s" c] n(2) by (cases "n = 0") (auto simp: le_Suc_eq)
  have "kept {c} {fd} s ?s"
    using a(1) m cur_fd_set_other [of _ fd "(cur_fd s fd)\<lparr>file_position := file_position (cur_fd s fd) + of_nat n\<rparr>" s]
    by (auto simp: kept_def prints_def agree_def maps_def advanced_def set_cur_fd_def upd_pcb_def cur_fd_def)
  moreover have "reading W ?s fd k t (p + n)" using a(2-5) r(3,4) by (simp add: reading_def)
  moreover have "mem ?s c = (if p < length t then t ! p else mem s c)" using m r(3) by (auto simp: n_def)
  ultimately show thesis using rd by (intro that)
qed

text \<open>
  A picture during a row: \<open>line\<close> is what is left of the row, and \<open>p'\<close> and \<open>eof'\<close> are where it
  ends. A file that has ended may be closed.
\<close>

definition scan :: "u32 set \<Rightarrow> 'a sys_state_scheme \<Rightarrow> u32 \<Rightarrow> nat \<Rightarrow> u32 \<Rightarrow> u8 list \<Rightarrow> nat \<Rightarrow> u32 \<Rightarrow> u8 list \<Rightarrow> nat \<Rightarrow> u32 \<Rightarrow> bool" where
  "scan W s c fd k t p eof line p' eof' \<longleftrightarrow> p \<le> length t \<and> (eof = 0 \<and> reading W s fd k t p \<or> eof = 1 \<and> p = length t)
     \<and> (if mem s c = 10 then line = [] \<and> p' = p \<and> eof' = eof
        else eof = 0 \<and> line = takeWhile (\<lambda>x. x \<noteq> 10) (drop p t)
          \<and> (if p + length line < length t then p' = Suc (p + length line) \<and> eof' = 0 else p' = length t \<and> eof' = 1))"

lemma scan_kept:
  assumes "scan W s c fd k t p eof line p' eof'" and "kept V F s s'" and "V \<subseteq> W" and "fd \<notin> F" and "c \<notin> V"
  shows "scan W s' c fd k t p eof line p' eof'"
  using assms(1) reading_kept [OF _ assms(2-4)] keptD(7) [OF assms(2,5)] unfolding scan_def by auto

lemma frame_char_scans:
  assumes "user_ok s" and "scan W s c fd k t p eof line p' eof'" and "c \<noteq> 0" and "c \<in> W" and "c \<notin> screen_span"
  obtains s' p1 eof1 where "frame_char q (of_nat fd) c eof s = Returns eof1 s'" "kept {c} {fd} s s'"
    "scan W s' c fd k t p1 eof1 (tl line) p' eof'" "mem s' c = (if line = [] then 10 else hd line)"
proof (cases "mem s c = 10")
  case True
  then have "line = []" "frame_char q (of_nat fd) c eof s = Returns eof s" using assms(2) by (simp_all add: scan_def frame_char_def)
  then show thesis using that [of eof s p] kept_mono [OF kept_refl [OF assms(1)]] assms(2) True by simp
next
  case False
  then have r: "p \<le> length t" "reading W s fd k t p" "eof = 0" and l: "line = takeWhile (\<lambda>x. x \<noteq> 10) (drop p t)"
      and e: "if p + length line < length t then p' = Suc (p + length line) \<and> eof' = 0 else p' = length t \<and> eof' = 1"
    using assms(2) unfolding scan_def by auto
  obtain s' where s': "ece391_read q (of_nat fd) c 1 s = Returns (of_nat (if p < length t then 1 else 0)) s'" "kept {c} {fd} s s'"
      "reading W s' fd k t (p + (if p < length t then 1 else 0))" "mem s' c = (if p < length t then t ! p else mem s c)"
    by (rule char_read [OF assms(1) r(2,1) assms(3-5)])
  show thesis
  proof (cases "p < length t")
    case p: True
    have d: "drop p t = t ! p # drop (Suc p) t" using p by (rule Cons_nth_drop_Suc [symmetric])
    have l1: "line = (if t ! p = 10 then [] else t ! p # takeWhile (\<lambda>x. x \<noteq> 10) (drop (Suc p) t))" unfolding l d by simp
    have f: "frame_char q (of_nat fd) c eof s = Returns 0 s'" using False s'(1) p r(3) by (simp add: frame_char_def)
    show thesis
    proof (rule that [OF f s'(2)])
      show "mem s' c = (if line = [] then 10 else hd line)" using s'(4) p l1 by simp
      show "scan W s' c fd k t (Suc p) 0 (tl line) p' eof'"
        using s'(3,4) p l1 e by (cases "t ! p = 10") (simp_all add: scan_def)
    qed
  next
    case p: False
    let ?s = "s'\<lparr>mem := (mem s')(c := 10)\<rparr>"
    have f: "frame_char q (of_nat fd) c eof s = Returns 1 ?s" using False s'(1) p by (simp add: frame_char_def)
    have "kept {c} {} s' ?s" by (rule kept_mem [OF keptD(1) [OF s'(2)] agree_poke]) simp
    then have "kept {c} {fd} s ?s" by (rule kept_trans [OF s'(2) kept_mono]) auto
    moreover have "line = []" "p = length t" using l p r(1) by simp_all
    ultimately show thesis using that [OF f] e by (simp add: scan_def)
  qed
qed

section \<open>Adding the blinkers of a picture\<close>

text \<open>The blinkers and the picture in the memory of the running program.\<close>

definition device :: "blink_env \<Rightarrow> 'a sys_state_scheme \<Rightarrow> mp1_blink_struct list \<times> (nat \<Rightarrow> u8) \<Rightarrow> bool" where
  "device E s st \<longleftrightarrow> blinking (seen E s) VIDEO_MEM (mem s) (fst st) (snd st)"

lemma owned_seen [simp]: "owned (E\<lparr>page_view := f\<rparr>) scr = owned E scr"
  by (simp add: owned_def)

lemma device_kept:
  assumes "device E s st" and "kept V F s s'" and "V \<inter> owned E VIDEO_MEM = {}" and "V \<inter> span (vmem_base_addr E) 4 = {}"
  shows "device E s' st"
proof -
  have "agree (- V) (mem s') (mem s)" using assms(2) by (simp add: kept_def)
  from apart_kept [OF assms(1) [unfolded device_def] this] show ?thesis
    using assms(3,4) user_view_maps [OF keptD(4) [OF assms(2)]] by (simp add: device_def)
qed

definition after_add :: "mp1_blink_struct \<Rightarrow> mp1_blink_struct list \<times> (nat \<Rightarrow> u8) \<Rightarrow> mp1_blink_struct list \<times> (nat \<Rightarrow> u8)" where
  "after_add b st = snd (added b (fst st) (snd st))"

lemma after_add_fresh: "after_add (fresh_blinker b) st = after_add b st"
  by (simp add: after_add_def added_def fresh_blinker_def paint_def)

lemma fish_ioctl_add:
  assumes "user_ok s" and "device E s st" and "span arg 16 \<inter> owned E VIDEO_MEM = {}" and "location (struct_at (mem s) arg) \<noteq> 0"
  obtains r s' where "fish_ioctl E arg 0 s = Returns r s'" "kept (owned E VIDEO_MEM) {} s s'" "device E s' (after_add (struct_at (mem s) arg) st)"
proof -
  obtain r bs pic where a: "added (struct_at (mem s) arg) (fst st) (snd st) = (r, bs, pic)" by (metis prod_cases3)
  obtain m where m: "mp1_ioctl (seen E s) arg 0 (mem s) = Some (r, m)" "blinking (seen E s) VIDEO_MEM m bs pic" "agree (- owned E VIDEO_MEM) m (mem s)"
    using add_refines [OF assms(2) [unfolded device_def] _ assms(4) a] assms(3) by auto
  have "user_view (s\<lparr>mem := m\<rparr>) = user_view s" by (rule user_view_maps) (simp add: maps_def)
  then have "device E (s\<lparr>mem := m\<rparr>) (after_add (struct_at (mem s) arg) st)" using m(2) a by (simp add: device_def after_add_def)
  then show thesis using m(1) kept_mem [OF assms(1) m(3)] by (intro that [of r "s\<lparr>mem := m\<rparr>"]) (simp_all add: fish_ioctl_def)
qed

text \<open>The request for one place of the two pictures: nothing where both are blank.\<close>

definition visible :: "u8 \<Rightarrow> u8" where
  "visible x = (if x = 10 then 32 else x)"

definition cell_request :: "nat \<Rightarrow> nat \<Rightarrow> u8 \<Rightarrow> u8 \<Rightarrow> mp1_blink_struct list" where
  "cell_request row col x y = (if visible x = 32 \<and> visible y = 32 then []
     else [\<lparr>location = of_nat (row * 80 + col + 40), on_char = visible x, off_char = visible y, on_length = 15, off_length = 15,
            countdown = 15, status = 1\<rparr>])"

definition frame_lengths :: "mem \<Rightarrow> u32 \<Rightarrow> bool" where
  "frame_lengths m p \<longleftrightarrow> on_length (struct_at m p) = 15 \<and> off_length (struct_at m p) = 15"

lemma frame_request_stored:
  fixes m :: mem and x y :: u8
  assumes "frame_lengths m p" and "row * 80 + col + 40 < 65536"
  defines "m' \<equiv> store16 (m(p + 2 := x, p + 3 := y)) p (of_int (int row * 80 + int col + 40))"
  shows "fresh_blinker (struct_at m' p) = \<lparr>location = of_nat (row * 80 + col + 40), on_char = x, off_char = y, on_length = 15, off_length = 15,
      countdown = 15, status = 1\<rparr>"
    "location (struct_at m' p) \<noteq> 0" "frame_lengths m' p" "agree (- span p 16) m' m"
proof -
  let ?l = "of_nat (row * 80 + col + 40) :: u16"
  have i: "(of_int (int row * 80 + int col + 40) :: u16) = ?l" by simp
  have m': "m' = store16 (m(p + 2 := x, p + 3 := y)) p ?l" unfolding m'_def i ..
  have s: "struct_at m' p = (struct_at m p)\<lparr>location := ?l, on_char := x, off_char := y\<rparr>"
    unfolding m' struct_at_def by (simp add: mem_simps) (simp add: load16_def store16_def add.assoc)
  show "frame_lengths m' p" using assms(1) unfolding frame_lengths_def s by simp
  show "fresh_blinker (struct_at m' p) = \<lparr>location = ?l, on_char = x, off_char = y, on_length = 15, off_length = 15, countdown = 15, status = 1\<rparr>"
    using assms(1) unfolding s fresh_blinker_def frame_lengths_def by simp
  have "unat ?l = row * 80 + col + 40" using assms(2) by (simp add: unat_of_nat take_bit_nat_eq_self del: of_nat_add of_nat_mult)
  then have "?l \<noteq> 0" by (metis add_is_0 unat_0 zero_neq_numeral)
  then show "location (struct_at m' p) \<noteq> 0" unfolding s by simp
  show "agree (- span p 16) m' m" unfolding m' by (auto simp: agree_def store16_def span_def)
qed

lemma frame_lengths_agree: "agree (span p 16) m' m \<Longrightarrow> frame_lengths m' p = frame_lengths m p"
  using struct_agree(1) by (simp add: frame_lengths_def)

text \<open>Where the variables of add\_frames are.\<close>

definition frame_vars_ok :: "blink_env \<Rightarrow> u32 \<Rightarrow> u32 \<Rightarrow> u32 \<Rightarrow> bool" where
  "frame_vars_ok E p a b \<longleftrightarrow> (span p 16 \<union> {a, b}) \<inter> (owned E VIDEO_MEM \<union> span (vmem_base_addr E) 4 \<union> screen_span) = {}
     \<and> a \<noteq> b \<and> a \<notin> span p 16 \<and> b \<notin> span p 16 \<and> a \<noteq> 0 \<and> b \<noteq> 0"

lemma frame_add_adds:
  assumes "user_ok s" and "device E s st" and "frame_vars_ok E p a b" and "frame_lengths (mem s) p" and "row * 80 + col + 40 < 65536"
  obtains r s' where "frame_add E p a b (int row) (int col) s = Returns r s'" "kept (owned E VIDEO_MEM \<union> span p 16) {} s s'"
    "device E s' (fold after_add (cell_request row col (mem s a) (mem s b)) st)" "frame_lengths (mem s') p"
proof (cases "visible (mem s a) = 32 \<and> visible (mem s b) = 32")
  case True
  then have "frame_add E p a b (int row) (int col) s = Returns 0 s" by (auto simp: frame_add_def visible_def split: if_splits)
  then show thesis using that kept_mono [OF kept_refl [OF assms(1)]] assms(2,4) True by (simp add: cell_request_def)
next
  case False
  let ?x = "visible (mem s a)" and ?y = "visible (mem s b)"
  have v: "span p 16 \<inter> owned E VIDEO_MEM = {}" "span p 16 \<inter> span (vmem_base_addr E) 4 = {}" "a \<notin> span p 16" "b \<notin> span p 16"
    using assms(3) by (auto simp: frame_vars_ok_def)
  define m where "m = store16 ((mem s)(p + 2 := ?x, p + 3 := ?y)) p (of_int (int row * 80 + int col + 40))"
  note m = frame_request_stored [OF assms(4,5), where x = ?x and y = ?y, folded m_def]
  let ?s = "s\<lparr>mem := m\<rparr>"
  have k: "kept (span p 16) {} s ?s" by (rule kept_mem [OF assms(1) m(4)])
  have d: "device E ?s st" by (rule device_kept [OF assms(2) k v(1,2)])
  obtain r s' where s': "fish_ioctl E p 0 ?s = Returns r s'" "kept (owned E VIDEO_MEM) {} ?s s'" "device E s' (after_add (struct_at m p) st)"
    using fish_ioctl_add [OF keptD(1) [OF k] d v(1)] m(2) by auto
  have "p + 2 \<in> span p 16" by (simp add: span_def)
  then have "b \<noteq> p + 2" using v(4) by blast
  then have f: "frame_add E p a b (int row) (int col) s = Returns r s'"
    using False s'(1) by (auto simp: frame_add_def visible_def m_def Let_def split: if_splits)
  have "kept (owned E VIDEO_MEM \<union> span p 16) {} s s'" using kept_trans [OF kept_mono [OF k] kept_mono [OF s'(2)]] by blast
  moreover have "fold after_add (cell_request row col (mem s a) (mem s b)) st = after_add (struct_at m p) st"
    using False m(1) after_add_fresh [of "struct_at m p" st] by (auto simp: cell_request_def)
  moreover have "frame_lengths (mem s') p" using m(3) frame_lengths_agree [OF keptD(6) [OF s'(2) v(1)]] by simp
  ultimately show thesis using that [OF f] s'(3) by simp
qed

section \<open>Rows\<close>

text \<open>The requests for one row of the two pictures, the shorter one filled up with blanks.\<close>

definition first_char :: "u8 list \<Rightarrow> u8" where
  "first_char l = (if l = [] then 10 else hd l)"

function row_requests :: "nat \<Rightarrow> nat \<Rightarrow> u8 list \<Rightarrow> u8 list \<Rightarrow> mp1_blink_struct list" where
  "row_requests row col l0 l1 =
     (if l0 = [] \<and> l1 = [] then []
      else cell_request row col (first_char l0) (first_char l1) @ row_requests row (Suc col) (tl l0) (tl l1))"
  by pat_completeness auto
termination
proof (relation "measure (\<lambda>(row, col, l0, l1). length l0 + length l1)", goal_cases)
  case (2 row col l0 l1)
  then show ?case by (cases l0; cases l1) auto
qed simp

declare row_requests.simps [simp del]

text \<open>The memory add\_frames writes.\<close>

definition frame_writes :: "blink_env \<Rightarrow> u32 \<Rightarrow> u32 \<Rightarrow> u32 \<Rightarrow> u32 set" where
  "frame_writes E p a b = owned E VIDEO_MEM \<union> span p 16 \<union> {a, b}"

lemma frame_varsD:
  assumes "frame_vars_ok E p a b"
  shows "a \<noteq> 0" "b \<noteq> 0" "a \<noteq> b" "a \<notin> screen_span" "b \<notin> screen_span" "a \<in> frame_writes E p a b" "b \<in> frame_writes E p a b"
    "a \<notin> owned E VIDEO_MEM \<union> span p 16" "b \<notin> owned E VIDEO_MEM \<union> span p 16" "{a, b} \<inter> owned E VIDEO_MEM = {}"
    "{a, b} \<inter> span (vmem_base_addr E) 4 = {}" "span p 16 \<inter> {a, b} = {}" "owned E VIDEO_MEM \<union> span p 16 \<subseteq> frame_writes E p a b" "{a, b} \<subseteq> frame_writes E p a b"
  using assms by (auto simp: frame_vars_ok_def frame_writes_def)

text \<open>Both pictures in a row, with the device.\<close>

definition scanning :: "blink_env \<Rightarrow> u32 \<Rightarrow> u32 \<Rightarrow> u32 \<Rightarrow> 'a sys_state_scheme \<Rightarrow> mp1_blink_struct list \<times> (nat \<Rightarrow> u8)
    \<Rightarrow> nat \<Rightarrow> u32 \<Rightarrow> u8 list \<Rightarrow> nat \<Rightarrow> u32 \<Rightarrow> u8 list \<Rightarrow> nat \<Rightarrow> u32
    \<Rightarrow> nat \<Rightarrow> u32 \<Rightarrow> u8 list \<Rightarrow> nat \<Rightarrow> u32 \<Rightarrow> u8 list \<Rightarrow> nat \<Rightarrow> u32 \<Rightarrow> bool" where
  "scanning E p a b s st fd0 k0 t0 p0 e0 l0 q0 f0 fd1 k1 t1 p1 e1 l1 q1 f1 \<longleftrightarrow>
     user_ok s \<and> device E s st \<and> frame_lengths (mem s) p
     \<and> scan (frame_writes E p a b) s a fd0 k0 t0 p0 e0 l0 q0 f0 \<and> scan (frame_writes E p a b) s b fd1 k1 t1 p1 e1 l1 q1 f1"

lemma columns_step:
  assumes "scanning E p a b s st fd0 k0 t0 p0 e0 l0 q0 f0 fd1 k1 t1 p1 e1 l1 q1 f1" and "frame_vars_ok E p a b" and "fd0 \<noteq> fd1"
  obtains s' p0' e0' p1' e1' s1 where "frame_char q (of_nat fd0) a e0 s = Returns e0' s1" "frame_char q (of_nat fd1) b e1 s1 = Returns e1' s'"
    "kept (frame_writes E p a b) {fd0, fd1} s s'" "mem s' a = first_char l0" "mem s' b = first_char l1"
    "scanning E p a b s' st fd0 k0 t0 p0' e0' (tl l0) q0 f0 fd1 k1 t1 p1' e1' (tl l1) q1 f1"
proof -
  let ?W = "frame_writes E p a b"
  have g: "user_ok s" "device E s st" "frame_lengths (mem s) p" "scan ?W s a fd0 k0 t0 p0 e0 l0 q0 f0" "scan ?W s b fd1 k1 t1 p1 e1 l1 q1 f1"
    using assms(1) by (simp_all add: scanning_def)
  note v = frame_varsD [OF assms(2)]
  obtain s1 p0' e0' where s1: "frame_char q (of_nat fd0) a e0 s = Returns e0' s1" "kept {a} {fd0} s s1"
      "scan ?W s1 a fd0 k0 t0 p0' e0' (tl l0) q0 f0" "mem s1 a = (if l0 = [] then 10 else hd l0)"
    by (rule frame_char_scans [OF g(1,4) v(1,6,4)])
  have b1: "scan ?W s1 b fd1 k1 t1 p1 e1 l1 q1 f1" by (rule scan_kept [OF g(5) s1(2)]) (use v assms(3) in auto)
  obtain s' p1' e1' where s': "frame_char q (of_nat fd1) b e1 s1 = Returns e1' s'" "kept {b} {fd1} s1 s'"
      "scan ?W s' b fd1 k1 t1 p1' e1' (tl l1) q1 f1" "mem s' b = (if l1 = [] then 10 else hd l1)"
    by (rule frame_char_scans [OF keptD(1) [OF s1(2)] b1 v(2,7,5)])
  have a': "scan ?W s' a fd0 k0 t0 p0' e0' (tl l0) q0 f0" by (rule scan_kept [OF s1(3) s'(2)]) (use v assms(3) in auto)
  have k: "kept {a, b} {fd0, fd1} s s'" by (rule kept_trans [OF kept_mono [OF s1(2)] kept_mono [OF s'(2)]]) auto
  have "device E s' st" by (rule device_kept [OF g(2) k v(10,11)])
  moreover have "frame_lengths (mem s') p" using g(3) frame_lengths_agree [OF keptD(6) [OF k v(12)]] by simp
  moreover have "mem s' a = first_char l0" using keptD(7) [OF s'(2), of a] v(3) s1(4) by (simp add: first_char_def)
  ultimately show thesis
    using that [OF s1(1) s'(1) kept_mono [OF k v(14)]] s'(3,4) a' keptD(1) [OF k] by (simp add: scanning_def first_char_def)
qed

lemma frames_cols_add:
  assumes "scanning E p a b s st fd0 k0 t0 p0 e0 l0 q0 f0 fd1 k1 t1 p1 e1 l1 q1 f1" and "frame_vars_ok E p a b" and "fd0 \<noteq> fd1"
    and "row * 80 + col + max (length l0) (length l1) + 40 \<le> 65536" and "10 \<notin> set l0" and "10 \<notin> set l1"
  shows "\<exists>s'. frames_cols q E p a b (of_nat fd0) (of_nat fd1) (int row) (int col) e0 e1 s = Some (Inl (f0, f1, s'))
    \<and> kept (frame_writes E p a b) {fd0, fd1} s s' \<and> mem s' a = 10 \<and> mem s' b = 10
    \<and> scanning E p a b s' (fold after_add (row_requests row col l0 l1) st) fd0 k0 t0 q0 f0 [] q0 f0 fd1 k1 t1 q1 f1 [] q1 f1"
  using assms
proof (induction "length l0 + length l1" arbitrary: s st col l0 l1 p0 e0 p1 e1 rule: less_induct)
  case less
  let ?W = "frame_writes E p a b"
  note v = frame_varsD [OF less.prems(2)]
  obtain s1 s2 p0' e0' p1' e1' where s2: "frame_char q (of_nat fd0) a e0 s = Returns e0' s1" "frame_char q (of_nat fd1) b e1 s1 = Returns e1' s2"
      "kept ?W {fd0, fd1} s s2" "mem s2 a = first_char l0" "mem s2 b = first_char l1"
      "scanning E p a b s2 st fd0 k0 t0 p0' e0' (tl l0) q0 f0 fd1 k1 t1 p1' e1' (tl l1) q1 f1"
    by (rule columns_step [OF less.prems(1-3)])
  have nl: "first_char l0 = 10 \<longleftrightarrow> l0 = []" "first_char l1 = 10 \<longleftrightarrow> l1 = []"
    using less.prems(5,6) by (auto simp: first_char_def) (metis hd_in_set)+
  show ?case
  proof (cases "l0 = [] \<and> l1 = []")
    case True
    then have "frames_cols q E p a b (of_nat fd0) (of_nat fd1) (int row) (int col) e0 e1 s = Some (Inl (e0', e1', s2))"
      using s2(1,2,4,5) nl by (subst frames_cols.simps) simp
    moreover have "p0' = q0 \<and> e0' = f0 \<and> p1' = q1 \<and> e1' = f1" using s2(4-6) True nl by (simp add: scanning_def scan_def)
    ultimately show ?thesis using s2(3-6) True nl by (simp add: row_requests.simps)
  next
    case False
    have g: "user_ok s2" "device E s2 st" "frame_lengths (mem s2) p" using s2(6) by (simp_all add: scanning_def)
    have w: "row * 80 + col + 40 < 65536" using less.prems(4) False by (cases l0; cases l1) auto
    obtain r s3 where s3: "frame_add E p a b (int row) (int col) s2 = Returns r s3" "kept (owned E VIDEO_MEM \<union> span p 16) {} s2 s3"
        "device E s3 (fold after_add (cell_request row col (mem s2 a) (mem s2 b)) st)" "frame_lengths (mem s3) p"
      by (rule frame_add_adds [OF g(1,2) less.prems(2) g(3) w])
    let ?st = "fold after_add (cell_request row col (first_char l0) (first_char l1)) st"
    have "scanning E p a b s3 ?st fd0 k0 t0 p0' e0' (tl l0) q0 f0 fd1 k1 t1 p1' e1' (tl l1) q1 f1"
      using s2(4-6) s3(3,4) keptD(1) [OF s3(2)] scan_kept [OF _ s3(2) v(13)] v(8,9) by (simp add: scanning_def)
    moreover have "length (tl l0) + length (tl l1) < length l0 + length l1" using False by (cases l0; cases l1) auto
    moreover have "row * 80 + Suc col + max (length (tl l0)) (length (tl l1)) + 40 \<le> 65536"
      using less.prems(4) False by (cases l0; cases l1) auto
    moreover have "10 \<notin> set (tl l0)" "10 \<notin> set (tl l1)" using less.prems(5,6) by (metis list.set_sel(2) tl_Nil)+
    ultimately obtain s' where s': "frames_cols q E p a b (of_nat fd0) (of_nat fd1) (int row) (int (Suc col)) e0' e1' s3 = Some (Inl (f0, f1, s'))"
        "kept ?W {fd0, fd1} s3 s'" "mem s' a = 10" "mem s' b = 10"
        "scanning E p a b s' (fold after_add (row_requests row (Suc col) (tl l0) (tl l1)) ?st) fd0 k0 t0 q0 f0 [] q0 f0 fd1 k1 t1 q1 f1 [] q1 f1"
      using less.hyps [OF _ _ less.prems(2,3), of "tl l0" "tl l1" s3 ?st p0' e0' p1' e1' "Suc col"] by blast
    have "frames_cols q E p a b (of_nat fd0) (of_nat fd1) (int row) (int col) e0 e1 s = Some (Inl (f0, f1, s'))"
      using s2(1,2,4,5) nl False s3(1) s'(1) by (subst frames_cols.simps) (auto simp: add.commute)
    moreover have "kept ?W {fd0, fd1} s s'"
      by (rule kept_trans [OF s2(3) kept_trans [OF kept_mono [OF s3(2) v(13)] s'(2)]]) simp
    ultimately show ?thesis using s'(3-5) False by (auto simp: row_requests.simps [of row col l0 l1])
  qed
qed

section \<open>The two pictures\<close>

text \<open>The row that starts at position \<open>p\<close> of a text, and where it ends.\<close>

definition row_line :: "u8 list \<Rightarrow> nat \<Rightarrow> u8 list" where
  "row_line t p = takeWhile (\<lambda>x. x \<noteq> 10) (drop p t)"

definition row_end :: "u8 list \<Rightarrow> nat \<Rightarrow> nat" where
  "row_end t p = (if p + length (row_line t p) < length t then Suc (p + length (row_line t p)) else length t)"

definition row_eof :: "u8 list \<Rightarrow> nat \<Rightarrow> u32" where
  "row_eof t p = (if p + length (row_line t p) < length t then 0 else 1)"

lemma row_line_plain: "10 \<notin> set (row_line t p)"
  by (auto simp: row_line_def dest: set_takeWhileD)

lemma row_lines:
  "row_line t p = (if text_lines (drop p t) = [] then [] else hd (text_lines (drop p t)))"
  "text_lines (drop (row_end t p) t) = tl (text_lines (drop p t))"
  "row_eof t p \<noteq> 1 \<Longrightarrow> drop p t \<noteq> [] \<and> text_lines (drop p t) \<noteq> []"
proof -
  let ?l = "row_line t p"
  have tl: "text_lines (drop p t) = (if drop p t = [] then [] else ?l # text_lines (drop (Suc (p + length ?l)) t))"
    by (subst text_lines.simps) (simp add: row_line_def Let_def add.commute)
  show "?l = (if text_lines (drop p t) = [] then [] else hd (text_lines (drop p t)))"
    unfolding tl by (simp add: row_line_def)
  have "drop (row_end t p) t = drop (Suc (p + length ?l)) t" by (simp add: row_end_def)
  moreover have "row_end t p = length t" if "drop p t = []" using that by (simp add: row_end_def)
  ultimately show "text_lines (drop (row_end t p) t) = tl (text_lines (drop p t))" unfolding tl by simp
  show "drop p t \<noteq> [] \<and> text_lines (drop p t) \<noteq> []" if "row_eof t p \<noteq> 1"
  proof -
    have "drop p t \<noteq> []" using that by (auto simp: row_eof_def split: if_splits)
    then show ?thesis unfolding tl by simp
  qed
qed

lemma row_progress: "p \<le> length t \<Longrightarrow> row_end t p \<le> length t" "p \<le> length t \<Longrightarrow> p \<le> row_end t p"
  "row_eof t p = 1 \<Longrightarrow> row_end t p = length t" "row_eof t p \<noteq> 1 \<Longrightarrow> p < row_end t p" "row_eof t p = 0 \<or> row_eof t p = 1"
  by (auto simp: row_end_def row_eof_def)

abbreviation at_row :: "u32 set \<Rightarrow> 'a sys_state_scheme \<Rightarrow> u32 \<Rightarrow> nat \<Rightarrow> u32 \<Rightarrow> u8 list \<Rightarrow> nat \<Rightarrow> u32 \<Rightarrow> bool" where
  "at_row W s c fd k t p eof \<equiv> scan W s c fd k t p eof (row_line t p) (row_end t p) (row_eof t p)"

lemma next_row:
  assumes "user_ok s" and "scan W s c fd k t p eof [] p eof" and "c \<in> W" and "2 \<le> fd" and "fd < 8"
  obtains r s' where "frames_next q (of_nat fd) c eof s = Returns r s'" "kept {c} {fd} s s'" "at_row W s' c fd k t p eof" "mem s' c = 10 \<longleftrightarrow> eof = 1"
proof -
  have r: "p \<le> length t" "eof = 0 \<and> reading W s fd k t p \<or> eof = 1 \<and> p = length t" using assms(2) by (simp_all add: scan_def)
  have k: "kept {c} {} s (s\<lparr>mem := (mem s)(c := x)\<rparr>)" for x by (rule kept_mem [OF assms(1) agree_poke]) simp
  show thesis
  proof (cases "eof = 1")
    case True
    let ?s = "s\<lparr>mem := (mem s)(c := 10)\<rparr>"
    obtain r s' where s': "ece391_close q (of_nat fd) ?s = Returns r s'" "kept {} {fd} ?s s'" by (rule close_kept [OF keptD(1) [OF k] assms(4,5)])
    have "kept {c} {fd} s s'" by (rule kept_trans [OF kept_mono [OF k] kept_mono [OF s'(2)]]) auto
    moreover have "mem s' c = 10" using keptD(7) [OF s'(2), of c] by simp
    moreover have "p = length t" using r(2) True by simp
    ultimately show thesis using that [of r s'] s'(1) True by (simp add: frames_next_def scan_def row_line_def row_end_def row_eof_def)
  next
    case False
    then have e: "eof = 0" "reading W s fd k t p" using r(2) by simp_all
    let ?s = "s\<lparr>mem := (mem s)(c := 48)\<rparr>"
    have "reading W ?s fd k t p" by (rule reading_kept [OF e(2) k]) (use assms(3) in auto)
    then have "at_row W ?s c fd k t p eof" using e(1) r(1) by (simp add: scan_def row_line_def row_end_def row_eof_def)
    then show thesis using that [of 0 ?s] kept_mono [OF k] e(1) by (simp add: frames_next_def)
  qed
qed

function frame_requests :: "nat \<Rightarrow> u8 list list \<Rightarrow> u8 list list \<Rightarrow> mp1_blink_struct list" where
  "frame_requests row ls0 ls1 =
     (if ls0 = [] \<and> ls1 = [] then []
      else row_requests row 0 (if ls0 = [] then [] else hd ls0) (if ls1 = [] then [] else hd ls1)
        @ frame_requests (Suc row) (tl ls0) (tl ls1))"
  by pat_completeness auto
termination
proof (relation "measure (\<lambda>(row, ls0, ls1). length ls0 + length ls1)", goal_cases)
  case (2 row ls0 ls1)
  then show ?case by (cases ls0; cases ls1) auto
qed simp

declare frame_requests.simps [simp del]

lemma frame_requests_row:
  "frame_requests row (text_lines (drop p0 t0)) (text_lines (drop p1 t1)) =
     row_requests row 0 (row_line t0 p0) (row_line t1 p1)
       @ frame_requests (Suc row) (text_lines (drop (row_end t0 p0) t0)) (text_lines (drop (row_end t1 p1) t1))"
  unfolding row_lines(1,2) by (subst frame_requests.simps) (auto simp: row_requests.simps [of row 0 "[]" "[]"] frame_requests.simps [of _ "[]" "[]"])

text \<open>Pictures whose rows are short enough for the screen and not too many.\<close>

definition small_picture :: "nat \<Rightarrow> u8 list list \<Rightarrow> bool" where
  "small_picture n ls \<longleftrightarrow> length ls \<le> n \<and> (\<forall>l \<in> set ls. length l \<le> 80)"

lemma small_row:
  assumes "small_picture n (text_lines (drop p t))"
  shows "length (row_line t p) \<le> 80" "small_picture (n - 1) (text_lines (drop (row_end t p) t))"
    "n = 0 \<Longrightarrow> row_eof t p = 1"
proof -
  have s: "length (text_lines (drop p t)) \<le> n" "\<forall>l \<in> set (text_lines (drop p t)). length l \<le> 80" using assms by (simp_all add: small_picture_def)
  show "length (row_line t p) \<le> 80" using s(2) by (simp add: row_lines(1))
  have "\<forall>l \<in> set (tl (text_lines (drop p t))). length l \<le> 80" using s(2) by (metis list.set_sel(2) tl_Nil)
  then show "small_picture (n - 1) (text_lines (drop (row_end t p) t))" using s(1) by (simp add: row_lines(2) small_picture_def)
  show "row_eof t p = 1" if "n = 0" using row_lines(3) [of t p] s(1) that by auto
qed

lemma row_stepped:
  assumes "scanning E p a b s st fd0 k0 t0 p0 e0 (row_line t0 p0) (row_end t0 p0) (row_eof t0 p0) fd1 k1 t1 p1 e1 (row_line t1 p1) (row_end t1 p1) (row_eof t1 p1)"
    and "frame_vars_ok E p a b" and "fd0 \<noteq> fd1" and "row \<le> 800" and "length (row_line t0 p0) \<le> 80" and "length (row_line t1 p1) \<le> 80"
    and "fd0 \<in> {2..<8}" and "fd1 \<in> {2..<8}"
  obtains s1 r s2 where "frames_cols q E p a b (of_nat fd0) (of_nat fd1) (int row) 0 e0 e1 s = Some (Inl (row_eof t0 p0, row_eof t1 p1, s1))"
    "and_then (frames_next q (of_nat fd0) a (row_eof t0 p0) s1) (\<lambda>_ s. frames_next q (of_nat fd1) b (row_eof t1 p1) s) = Returns r s2"
    "kept (frame_writes E p a b) {fd0, fd1} s s2" "user_ok s2" "frame_lengths (mem s2) p"
    "device E s2 (fold after_add (row_requests row 0 (row_line t0 p0) (row_line t1 p1)) st)"
    "at_row (frame_writes E p a b) s2 a fd0 k0 t0 (row_end t0 p0) (row_eof t0 p0)"
    "at_row (frame_writes E p a b) s2 b fd1 k1 t1 (row_end t1 p1) (row_eof t1 p1)"
proof -
  let ?W = "frame_writes E p a b" and ?st = "fold after_add (row_requests row 0 (row_line t0 p0) (row_line t1 p1)) st"
  note v = frame_varsD [OF assms(2)]
  have w: "row * 80 + 0 + max (length (row_line t0 p0)) (length (row_line t1 p1)) + 40 \<le> 65536" using assms(4-6) by simp
  obtain s1 where s1: "frames_cols q E p a b (of_nat fd0) (of_nat fd1) (int row) 0 e0 e1 s = Some (Inl (row_eof t0 p0, row_eof t1 p1, s1))"
      "kept ?W {fd0, fd1} s s1" and sc: "scanning E p a b s1 ?st fd0 k0 t0 (row_end t0 p0) (row_eof t0 p0) [] (row_end t0 p0) (row_eof t0 p0)
        fd1 k1 t1 (row_end t1 p1) (row_eof t1 p1) [] (row_end t1 p1) (row_eof t1 p1)"
    using frames_cols_add [OF assms(1-3) w row_line_plain row_line_plain, of q] by auto
  have g: "user_ok s1" "device E s1 ?st" "frame_lengths (mem s1) p" "scan ?W s1 a fd0 k0 t0 (row_end t0 p0) (row_eof t0 p0) [] (row_end t0 p0) (row_eof t0 p0)"
      "scan ?W s1 b fd1 k1 t1 (row_end t1 p1) (row_eof t1 p1) [] (row_end t1 p1) (row_eof t1 p1)"
    using sc by (simp_all add: scanning_def)
  obtain r0 u where u: "frames_next q (of_nat fd0) a (row_eof t0 p0) s1 = Returns r0 u" "kept {a} {fd0} s1 u" "at_row ?W u a fd0 k0 t0 (row_end t0 p0) (row_eof t0 p0)"
    by (rule next_row [OF g(1,4) v(6)]) (use assms(7) in auto)
  have b: "scan ?W u b fd1 k1 t1 (row_end t1 p1) (row_eof t1 p1) [] (row_end t1 p1) (row_eof t1 p1)"
    by (rule scan_kept [OF g(5) u(2)]) (use v assms(3) in auto)
  obtain r s2 where s2: "frames_next q (of_nat fd1) b (row_eof t1 p1) u = Returns r s2" "kept {b} {fd1} u s2" "at_row ?W s2 b fd1 k1 t1 (row_end t1 p1) (row_eof t1 p1)"
    by (rule next_row [OF keptD(1) [OF u(2)] b v(7)]) (use assms(8) in auto)
  have a: "at_row ?W s2 a fd0 k0 t0 (row_end t0 p0) (row_eof t0 p0)" by (rule scan_kept [OF u(3) s2(2)]) (use v assms(3) in auto)
  have k: "kept {a, b} {fd0, fd1} s1 s2" by (rule kept_trans [OF kept_mono [OF u(2)] kept_mono [OF s2(2)]]) auto
  have "device E s2 ?st" by (rule device_kept [OF g(2) k v(10,11)])
  moreover have "frame_lengths (mem s2) p" using g(3) frame_lengths_agree [OF keptD(6) [OF k v(12)]] by simp
  moreover have "kept ?W {fd0, fd1} s s2" by (rule kept_trans [OF s1(2) kept_mono [OF k v(14)]]) simp
  ultimately show thesis using that [OF s1(1)] u(1) s2(1,3) a keptD(1) [OF k] by simp
qed

lemma frames_rows_add:
  assumes "user_ok s" and "device E s st" and "frame_lengths (mem s) p" and "at_row (frame_writes E p a b) s a fd0 k0 t0 p0 e0"
    and "at_row (frame_writes E p a b) s b fd1 k1 t1 p1 e1" and "frame_vars_ok E p a b" and "fd0 \<noteq> fd1"
    and "fd0 \<in> {2..<8}" and "fd1 \<in> {2..<8}" and "small_picture n (text_lines (drop p0 t0))" and "small_picture n (text_lines (drop p1 t1))"
    and "row + n + (if e0 = 0 \<or> e1 = 0 then 1 else 0) \<le> 801"
  shows "\<exists>s'. frames_rows q E p a b (of_nat fd0) (of_nat fd1) (int row) e0 e1 s = Some (Returns 0 s')
    \<and> kept (frame_writes E p a b) {fd0, fd1} s s'
    \<and> device E s' (fold after_add (frame_requests row (text_lines (drop p0 t0)) (text_lines (drop p1 t1))) st)"
  using assms(1-5,10-12)
proof (induction "n + (if e0 = 0 \<or> e1 = 0 then 1 else 0)" arbitrary: n s st p0 e0 p1 e1 row rule: less_induct)
  case less
  let ?W = "frame_writes E p a b"
  show ?case
  proof (cases "e0 = 0 \<or> e1 = 0")
    case False
    then have "drop p0 t0 = []" "drop p1 t1 = []" using less.prems(4,5) by (auto simp: scan_def)
    moreover have "frames_rows q E p a b (of_nat fd0) (of_nat fd1) (int row) e0 e1 s = Some (Returns 0 s)"
      using False by (subst frames_rows.simps) simp
    moreover have "kept ?W {fd0, fd1} s s" by (rule kept_mono [OF kept_refl [OF less.prems(1)]]) simp_all
    ultimately show ?thesis using less.prems(2) by (simp add: frame_requests.simps)
  next
    case True
    note s0 = small_row [OF less.prems(6)] and s1 = small_row [OF less.prems(7)]
    have sc: "scanning E p a b s st fd0 k0 t0 p0 e0 (row_line t0 p0) (row_end t0 p0) (row_eof t0 p0) fd1 k1 t1 p1 e1 (row_line t1 p1) (row_end t1 p1) (row_eof t1 p1)"
      using less.prems(1-5) by (simp add: scanning_def)
    have row: "row \<le> 800" using less.prems(8) True by auto
    obtain u r u' where u: "frames_cols q E p a b (of_nat fd0) (of_nat fd1) (int row) 0 e0 e1 s = Some (Inl (row_eof t0 p0, row_eof t1 p1, u))"
        "and_then (frames_next q (of_nat fd0) a (row_eof t0 p0) u) (\<lambda>_ s. frames_next q (of_nat fd1) b (row_eof t1 p1) s) = Returns r u'"
        "kept ?W {fd0, fd1} s u'" "user_ok u'" "frame_lengths (mem u') p"
        "device E u' (fold after_add (row_requests row 0 (row_line t0 p0) (row_line t1 p1)) st)"
        "at_row ?W u' a fd0 k0 t0 (row_end t0 p0) (row_eof t0 p0)" "at_row ?W u' b fd1 k1 t1 (row_end t1 p1) (row_eof t1 p1)"
      by (rule row_stepped [OF sc assms(6,7) row s0(1) s1(1) assms(8,9)])
    let ?flag = "if row_eof t0 p0 = 0 \<or> row_eof t1 p1 = 0 then 1 else 0 :: nat"
    have m: "n - 1 + ?flag \<le> n" using s0(3) s1(3) by (cases "n = 0") auto
    have "n - 1 + ?flag < n + (if e0 = 0 \<or> e1 = 0 then 1 else 0)" "Suc row + (n - 1) + ?flag \<le> 801" using m True less.prems(8) by simp_all
    from less.hyps [OF this(1) u(4,6,5,7,8) s0(2) s1(2) this(2)] obtain s' where s':
        "frames_rows q E p a b (of_nat fd0) (of_nat fd1) (int (Suc row)) (row_eof t0 p0) (row_eof t1 p1) u' = Some (Returns 0 s')" "kept ?W {fd0, fd1} u' s'"
        "device E s' (fold after_add (frame_requests (Suc row) (text_lines (drop (row_end t0 p0) t0)) (text_lines (drop (row_end t1 p1) t1)))
           (fold after_add (row_requests row 0 (row_line t0 p0) (row_line t1 p1)) st))"
      by blast
    have "frames_rows q E p a b (of_nat fd0) (of_nat fd1) (int row) e0 e1 s = Some (Returns 0 s')"
      using True u(1,2) s'(1) by (subst frames_rows.simps) (simp add: add.commute)
    then show ?thesis using kept_trans [OF u(3) s'(2)] s'(3) by (simp add: frame_requests_row [of row p0 t0 p1 t1])
  qed
qed

section \<open>Opening the pictures\<close>

definition picture_file :: "u32 set \<Rightarrow> 'a sys_state_scheme \<Rightarrow> u32 \<Rightarrow> u32 \<Rightarrow> u8 list \<Rightarrow> bool" where
  "picture_file W s f k t \<longleftrightarrow>
     (\<exists>name e. cstring (mem s) f name \<and> span f (Suc (length name)) \<inter> W = {} \<and> find_name s name = Some e \<and> ftype e = FILE_TYPE_REG \<and> inode e = k)
     \<and> file_ok s k (length t) \<and> (\<forall>j < length t. file_byte s k j = t ! j) \<and> W \<inter> disk s k (length t) = {} \<and> unat (num_dir_entries s) \<le> 63"

lemma picture_file_same:
  assumes "picture_file W s f k t" and "places s' = places s" and "agree (- V) (mem s') (mem s)" and "V \<subseteq> W"
  shows "picture_file W s' f k t"
proof -
  obtain name e where n: "cstring (mem s) f name" "span f (Suc (length name)) \<inter> W = {}" "find_name s name = Some e" "ftype e = FILE_TYPE_REG" "inode e = k"
    using assms(1) by (auto simp: picture_file_def)
  have r: "file_ok s k (length t)" "\<forall>j < length t. file_byte s k j = t ! j" "W \<inter> disk s k (length t) = {}" "unat (num_dir_entries s) \<le> 63"
    using assms(1) by (simp_all add: picture_file_def)
  have fs: "same_fs s' s" by (rule places_eqD(6) [OF assms(2)])
  have d: "agree (disk s k (length t)) (mem s') (mem s)" by (rule agree_sub [OF assms(3)]) (use r(3) assms(4) in blast)
  note f = file_ok_agree [OF r(1) fs d]
  have boot: "agree (span (bootblock s) 4096) (mem s') (mem s)" by (rule agree_sub [OF d disk_boot])
  have "find_name s' name = Some e" using find_name_agree [OF fs boot r(4)] n(3) by simp
  moreover have "cstring (mem s') f name" by (rule cstring_agree [OF n(1) agree_sub [OF assms(3)]]) (use n(2) assms(4) in blast)
  moreover have "num_dir_entries s' = num_dir_entries s" by (rule num_dir_entries_agree [OF fs boot])
  ultimately show ?thesis using n f r by (auto simp: picture_file_def)
qed

lemma picture_file_kept: "picture_file W s f k t \<Longrightarrow> kept V F s s' \<Longrightarrow> V \<subseteq> W \<Longrightarrow> picture_file W s' f k t"
  by (rule picture_file_same) (auto simp: kept_def)

lemma picture_file_mono: "picture_file W s f k t \<Longrightarrow> V \<subseteq> W \<Longrightarrow> picture_file V s f k t"
  unfolding picture_file_def by blast

text \<open>The descriptors from \<open>fd\<close> on are free, those before it are not.\<close>

definition free_from :: "'a pcb_state_scheme \<Rightarrow> nat \<Rightarrow> bool" where
  "free_from s fd \<longleftrightarrow> 2 \<le> fd \<and> (\<forall>g. 2 \<le> g \<and> g < 8 \<longrightarrow> (fd_ops (cur_fd s g) = Ops_null \<longleftrightarrow> fd \<le> g))"

lemma free_from_lowest: "free_from s fd \<Longrightarrow> fd < 8 \<Longrightarrow> lowest_free s fd"
  by (auto simp: free_from_def lowest_free_def)

lemma free_from_next:
  assumes "free_from s fd" and "kept W {fd} s s'" and "fd_ops (cur_fd s' fd) \<noteq> Ops_null"
  shows "free_from s' (Suc fd)"
  using assms(1,3) keptD(5) [OF assms(2)] unfolding free_from_def by (metis Suc_leD Suc_leI le_SucI le_antisym not_less_eq_eq singletonD)

lemma frame_opened:
  assumes "user_ok s" and "picture_file W s f k t" and "free_from s fd" and "fd < 8"
  obtains s' where "frame_open q f s = Returns (of_nat fd) s'" "kept {} {fd} s s'" "reading W s' fd k t 0" "free_from s' (Suc fd)"
proof -
  obtain name e where n: "cstring (mem s) f name" "find_name s name = Some e" "ftype e = FILE_TYPE_REG" "inode e = k"
    using assms(2) by (auto simp: picture_file_def)
  obtain s' where s': "ece391_open q f s = Returns (of_nat fd) s'" "prints {} s [] s'" "mem s' = mem s"
      "cur_fd s' fd = \<lparr>fd_ops = Ops_file, inode_ptr = inode_at s k, file_position = 0, flags = 1\<rparr>" "\<forall>g. g \<noteq> fd \<longrightarrow> cur_fd s' g = cur_fd s g"
    using open_stage [OF assms(1) n(1,2) free_from_lowest [OF assms(3,4)], of "inode_at s k" q] n(3,4) by auto
  have k: "kept {} {fd} s s'" by (rule kept_prints [OF s'(2,3) open_maps [OF s'(1)]]) (use s'(5) in simp)
  have "sint (of_nat fd :: u32) = int fd" using assms(4) by (intro sint_of_nat32) simp
  then have "frame_open q f s = Returns (of_nat fd) s'" using s'(1) by (simp add: frame_open_def)
  moreover have "picture_file W s' f k t" by (rule picture_file_kept [OF assms(2) k]) simp
  then have "reading W s' fd k t 0"
    using s'(4) ready_fd [OF keptD(1) [OF k] assms(4)] places_eqD(6) [OF keptD(3) [OF k]] assms(3,4)
    by (simp add: picture_file_def reading_def at_pos_def free_from_def inode_at_def same_fs_def)
  moreover have "free_from s' (Suc fd)" by (rule free_from_next [OF assms(3) k]) (simp add: s'(4))
  ultimately show thesis using k by (intro that)
qed

lemma add_frames_adds:
  assumes "user_ok s" and "device E s st" and "frame_vars_ok E p a b" and "picture_file (frame_writes E p a b) s f0 k0 t0"
    and "picture_file (frame_writes E p a b) s f1 k1 t1" and "small_picture 800 (text_lines t0)" and "small_picture 800 (text_lines t1)"
    and "free_from s fd" and "Suc fd < 8"
  shows "\<exists>s'. add_frames q E p a b f0 f1 s = Some (Returns 0 s') \<and> kept (frame_writes E p a b) {fd, Suc fd} s s'
    \<and> device E s' (fold after_add (frame_requests 0 (text_lines t0) (text_lines t1)) st)"
proof -
  let ?W = "frame_writes E p a b"
  note v = frame_varsD [OF assms(3)]
  define m where "m = store16 (store16 ((mem s)(a := 48, b := 48)) (p + 4) 15) (p + 6) 15"
  let ?s = "s\<lparr>mem := m\<rparr>"
  have ag: "agree (- (span p 16)) m ((mem s)(a := 48, b := 48))"
    unfolding m_def by (rule agree_trans [OF struct_store_agree(4) struct_store_agree(3)])
  then have "agree (- (span p 16 \<union> {a, b})) m (mem s)" by (auto simp: agree_def)
  then have k: "kept (span p 16 \<union> {a, b}) {} s ?s" by (rule kept_mem [OF assms(1)])
  have V: "span p 16 \<union> {a, b} \<subseteq> ?W" by (auto simp: frame_writes_def)
  have d: "device E ?s st" by (rule device_kept [OF assms(2) k]) (use assms(3) in \<open>auto simp: frame_vars_ok_def\<close>)
  have len: "frame_lengths (mem ?s) p" by (simp add: m_def frame_lengths_def struct_stores)
  have c: "m a = 48" "m b = 48" using agreeD [OF ag, of a] agreeD [OF ag, of b] v(3,12) by auto
  note f = picture_file_kept [OF assms(4) k V] picture_file_kept [OF assms(5) k V]
  have fr: "free_from ?s fd" using assms(8) by (simp add: free_from_def cur_fd_def)
  obtain s1 where s1: "frame_open q f0 ?s = Returns (of_nat fd) s1" "kept {} {fd} ?s s1" "reading ?W s1 fd k0 t0 0" "free_from s1 (Suc fd)"
    by (rule frame_opened [OF keptD(1) [OF k] f(1) fr]) (use assms(9) in auto)
  have f1: "picture_file ?W s1 f1 k1 t1" by (rule picture_file_kept [OF f(2) s1(2)]) simp
  obtain s2 where s2: "frame_open q f1 s1 = Returns (of_nat (Suc fd)) s2" "kept {} {Suc fd} s1 s2" "reading ?W s2 (Suc fd) k1 t1 0"
    by (rule frame_opened [OF keptD(1) [OF s1(2)] f1 s1(4) assms(9)])
  have k2: "kept {} {fd, Suc fd} ?s s2" by (rule kept_trans [OF kept_mono [OF s1(2)] kept_mono [OF s2(2)]]) auto
  have mm: "mem s2 x = m x" for x using keptD(7) [OF k2, of x] by simp
  have rd: "reading ?W s2 fd k0 t0 0" by (rule reading_kept [OF s1(3) s2(2)]) auto
  have rows: "at_row ?W s2 a fd k0 t0 0 0" "at_row ?W s2 b (Suc fd) k1 t1 0 0"
    using rd s2(3) mm [of a] mm [of b] c by (simp_all add: scan_def row_line_def row_end_def row_eof_def)
  have d2: "device E s2 st" by (rule device_kept [OF d k2]) auto
  have len2: "frame_lengths (mem s2) p" using len mm by (simp add: frame_lengths_def struct_at_def load16_def)
  have fd: "fd \<in> {2..<8}" "Suc fd \<in> {2..<8}" using assms(8,9) by (auto simp: free_from_def)
  obtain s' where s': "frames_rows q E p a b (of_nat fd) (of_nat (Suc fd)) (int 0) 0 0 s2 = Some (Returns 0 s')" "kept ?W {fd, Suc fd} s2 s'"
      "device E s' (fold after_add (frame_requests 0 (text_lines t0) (text_lines t1)) st)"
    using frames_rows_add [OF keptD(1) [OF k2] d2 len2 rows assms(3) _ fd, of 800 0 q] assms(6,7) by auto
  have "add_frames q E p a b f0 f1 s = Some (Returns 0 s')"
    using s1(1) s2(1) s'(1) by (simp add: add_frames_def m_def)
  moreover have "kept ?W {fd, Suc fd} s s'"
    by (rule kept_trans [OF kept_mono [OF k V] kept_trans [OF kept_mono [OF k2] s'(2)]]) auto
  ultimately show ?thesis using s'(3) by blast
qed

end
