(* ===== verification/Kud_Show.thy ===== *)
theory Kud_Show
  imports Kud_Fish
begin

unbundle bit_operations_syntax

text \<open>
  The main function of the fish program: what the clock, the requests and the two pictures make
  of the screen, from the call that maps the screen to the end of the program.
\<close>

section \<open>The show\<close>

definition after_tick :: "mp1_blink_struct list \<times> (nat \<Rightarrow> u8) \<Rightarrow> mp1_blink_struct list \<times> (nat \<Rightarrow> u8)" where
  "after_tick st = (map ticked (fst st), fold tick_paint (fst st) (snd st))"

definition after_sync :: "u16 \<Rightarrow> u16 \<Rightarrow> mp1_blink_struct list \<times> (nat \<Rightarrow> u8) \<Rightarrow> mp1_blink_struct list \<times> (nat \<Rightarrow> u8)" where
  "after_sync a l st = snd (synced a l (fst st) (snd st))"

definition after_remove :: "u16 \<Rightarrow> mp1_blink_struct list \<times> (nat \<Rightarrow> u8) \<Rightarrow> mp1_blink_struct list \<times> (nat \<Rightarrow> u8)" where
  "after_remove l st = (snd (removed l (fst st)), snd st)"

lemma device_mem:
  assumes "user_ok s" and "blinking (seen E s) VIDEO_MEM m (fst st) (snd st)" and "agree (- owned (seen E s) VIDEO_MEM) m (mem s)"
  shows "device E (s\<lparr>mem := m\<rparr>) st" "kept (owned E VIDEO_MEM) {} s (s\<lparr>mem := m\<rparr>)"
proof -
  have "user_view (s\<lparr>mem := m\<rparr>) = user_view s" by (rule user_view_maps) (simp add: maps_def)
  then show "device E (s\<lparr>mem := m\<rparr>) st" using assms(2) by (simp add: device_def)
  show "kept (owned E VIDEO_MEM) {} s (s\<lparr>mem := m\<rparr>)" using kept_mem [OF assms(1,3)] by simp
qed

lemma fish_tasklet_ticks:
  assumes "user_ok s" and "device E s st"
  obtains s' where "fish_tasklet E s = Returns 0 s'" "kept (owned E VIDEO_MEM) {} s s'" "device E s' (after_tick st)"
proof -
  obtain m where m: "mp1_rtc_tasklet (seen E s) (mem s) = Some m" "agree (- owned (seen E s) VIDEO_MEM) m (mem s)"
      "blinking (seen E s) VIDEO_MEM m (fst (after_tick st)) (snd (after_tick st))"
    using tasklet_refines [OF assms(2) [unfolded device_def]] by (auto simp: after_tick_def)
  then show thesis using device_mem [OF assms(1) m(3,2)] by (intro that [of "s\<lparr>mem := m\<rparr>"]) (simp_all add: fish_tasklet_def)
qed

lemma fish_ioctl_sync:
  assumes "user_ok s" and "device E s st"
  obtains r s' where "fish_ioctl E arg 3 s = Returns r s'" "kept (owned E VIDEO_MEM) {} s s'"
    "device E s' (after_sync (ucast (drop_bit 16 arg)) (ucast arg) st)"
proof -
  obtain r bs pic where a: "synced (ucast (drop_bit 16 arg)) (ucast arg) (fst st) (snd st) = (r, bs, pic)" by (metis prod_cases3)
  obtain m where m: "mp1_ioctl (seen E s) arg 3 (mem s) = Some (r, m)" "blinking (seen E s) VIDEO_MEM m (fst (bs, pic)) (snd (bs, pic))"
      "agree (- owned (seen E s) VIDEO_MEM) m (mem s)"
    using sync_refines [OF assms(2) [unfolded device_def] a] by auto
  then show thesis using device_mem [OF assms(1) m(2,3)] a by (intro that [of r "s\<lparr>mem := m\<rparr>"]) (simp_all add: fish_ioctl_def after_sync_def)
qed

lemma fish_ioctl_remove:
  assumes "user_ok s" and "device E s st"
  obtains r s' where "fish_ioctl E arg 1 s = Returns r s'" "kept (owned E VIDEO_MEM) {} s s'" "device E s' (after_remove (ucast arg) st)"
proof -
  obtain r bs where a: "removed (ucast arg) (fst st) = (r, bs)" by (metis prod.exhaust)
  obtain m where m: "mp1_ioctl (seen E s) arg 1 (mem s) = Some (r, m)" "blinking (seen E s) VIDEO_MEM m (fst (bs, snd st)) (snd (bs, snd st))"
      "agree (- owned (seen E s) VIDEO_MEM) m (mem s)"
    using remove_refines [OF assms(2) [unfolded device_def] a] by auto
  then show thesis using device_mem [OF assms(1) m(2,3)] a by (intro that [of r "s\<lparr>mem := m\<rparr>"]) (simp_all add: fish_ioctl_def after_remove_def)
qed

lemma clock_fd_kept: "clock_fd s fd \<Longrightarrow> kept W F s s' \<Longrightarrow> fd \<notin> F \<Longrightarrow> clock_fd s' fd"
  using keptD(5) by (fastforce simp: clock_fd_def)

lemma fish_wait_ticks:
  assumes "user_ok s" and "device E s st" and "clock_fd s fd" and "garbage \<noteq> 0"
  shows "\<exists>s'. fish_wait (Suc q) E (of_nat fd) garbage n s = Returns 0 s' \<and> kept (owned E VIDEO_MEM) {} s s' \<and> device E s' ((after_tick ^^ n) st)"
  using assms(1-3)
proof (induction n arbitrary: s st)
  case 0
  then show ?case using kept_mono [OF kept_refl [OF 0(1)]] by simp
next
  case (Suc n)
  obtain s1 where s1: "ece391_read (Suc q) (of_nat fd) garbage 4 s = Returns 0 s1" "ground s1 = ground s" "mem s1 = mem s" "prints {} s [] s1"
    by (rule clock_read [OF Suc.prems(1,3) assms(4)])
  have k1: "kept {} {} s s1" by (rule kept_prints [OF s1(4,3) maps_ground [OF s1(2)]]) (use cur_fd_ground [OF s1(2)] in simp)
  have d1: "device E s1 st" by (rule device_kept [OF Suc.prems(2) k1]) simp_all
  obtain s2 where s2: "fish_tasklet E s1 = Returns 0 s2" "kept (owned E VIDEO_MEM) {} s1 s2" "device E s2 (after_tick st)"
    by (rule fish_tasklet_ticks [OF keptD(1) [OF k1] d1])
  have k2: "kept (owned E VIDEO_MEM) {} s s2" by (rule kept_trans [OF kept_mono [OF k1] s2(2)]) simp_all
  obtain s' where s': "fish_wait (Suc q) E (of_nat fd) garbage n s2 = Returns 0 s'" "kept (owned E VIDEO_MEM) {} s2 s'"
      "device E s' ((after_tick ^^ n) (after_tick st))"
    using Suc.IH [OF keptD(1) [OF k2] s2(3) clock_fd_kept [OF Suc.prems(3) k2]] by auto
  then show ?case using s1(1) s2(1) kept_trans [OF k2 s'(2)] by (auto simp: funpow_swap1)
qed

definition extra_blinker :: mp1_blink_struct where
  "extra_blinker = \<lparr>location = 540, on_char = 73, off_char = 77, on_length = 7, off_length = 6, countdown = 7, status = 1\<rparr>"

lemma fish_extra_stored:
  "fresh_blinker (struct_at (fish_extra m p) p) = extra_blinker" "location (struct_at (fish_extra m p) p) \<noteq> 0" "agree (- span p 16) (fish_extra m p) m"
proof -
  have s: "struct_at (fish_extra m p) p = (struct_at m p)\<lparr>location := 540, on_char := 73, off_char := 77, on_length := 7, off_length := 6\<rparr>"
    unfolding fish_extra_def Let_def struct_at_def by (simp add: mem_simps) (simp add: load16_def store16_def add.assoc)
  show "fresh_blinker (struct_at (fish_extra m p) p) = extra_blinker" "location (struct_at (fish_extra m p) p) \<noteq> 0"
    unfolding s by (simp_all add: fresh_blinker_def extra_blinker_def)
  show "agree (- span p 16) (fish_extra m p) m" by (auto simp: agree_def fish_extra_def Let_def store16_def span_def)
qed
text \<open>How far the show is: what it has left alone since it started, the blinkers and the clock.\<close>

definition showing :: "blink_env \<Rightarrow> u32 set \<Rightarrow> nat \<Rightarrow> 'a sys_state_scheme \<Rightarrow> 'a sys_state_scheme \<Rightarrow> mp1_blink_struct list \<times> (nat \<Rightarrow> u8) \<Rightarrow> bool" where
  "showing E W fd s0 s st \<longleftrightarrow> kept W {} s0 s \<and> device E s st \<and> clock_fd s fd \<and> owned E VIDEO_MEM \<subseteq> W"

lemma showing_next:
  assumes "showing E W fd s0 s st" and "kept (owned E VIDEO_MEM) {} s s'" and "device E s' st'"
  shows "showing E W fd s0 s' st'"
  using assms kept_trans [of W "{}" s0 s s'] kept_mono [of "owned E VIDEO_MEM" "{}" s s' W "{}"] clock_fd_kept [of s fd "owned E VIDEO_MEM" "{}" s']
  by (auto simp: showing_def)

lemma showing_store:
  assumes "showing E W fd s0 s st" and "agree (- V) m (mem s)" and "V \<subseteq> W" and "V \<inter> owned E VIDEO_MEM = {}" and "V \<inter> span (vmem_base_addr E) 4 = {}"
  shows "showing E W fd s0 (s\<lparr>mem := m\<rparr>) st"
proof -
  have s: "kept W {} s0 s" "device E s st" "clock_fd s fd" "owned E VIDEO_MEM \<subseteq> W" using assms(1) by (simp_all add: showing_def)
  have k: "kept V {} s (s\<lparr>mem := m\<rparr>)" by (rule kept_mem [OF keptD(1) [OF s(1)] assms(2)])
  have "kept W {} s0 (s\<lparr>mem := m\<rparr>)" by (rule kept_trans [OF s(1) kept_mono [OF k assms(3)]]) simp
  then show ?thesis using device_kept [OF s(2) k assms(4,5)] clock_fd_kept [OF s(3) k] s(4) by (simp add: showing_def)
qed

lemma showingD:
  assumes "showing E W fd s0 s st"
  shows "user_ok s" "device E s st" "clock_fd s fd" "kept W {} s0 s"
  using assms keptD(1) [of W "{}" s0 s] by (simp_all add: showing_def)

lemma showing_wait:
  assumes "showing E W fd s0 s st" and "garbage \<noteq> 0"
  obtains s' where "fish_wait (Suc q) E (of_nat fd) garbage n s = Returns 0 s'" "showing E W fd s0 s' ((after_tick ^^ n) st)"
  using fish_wait_ticks [OF showingD(1-3) [OF assms(1)] assms(2), of q n] showing_next [OF assms(1)] by blast

lemma showing_write:
  assumes "showing E W fd s0 s st" and "buf \<noteq> 0"
  obtains r s' where "ece391_write q (of_nat fd) buf n s = Returns r s'" "showing E W fd s0 s' st"
proof -
  obtain r s' where s': "ece391_write q (of_nat fd) buf n s = Returns r s'" "ground s' = ground s" "mem s' = mem s" "prints {} s [] s'"
    by (rule clock_write [OF showingD(1,3) [OF assms(1)] assms(2)])
  have k: "kept {} {} s s'" by (rule kept_prints [OF s'(4,3) maps_ground [OF s'(2)]]) (use cur_fd_ground [OF s'(2)] in simp)
  have "device E s' st" by (rule device_kept [OF showingD(2) [OF assms(1)] k]) simp_all
  from that [OF s'(1) showing_next [OF assms(1) kept_mono [OF k] this]] show thesis by simp
qed

lemma showing_add:
  assumes "showing E W fd s0 s st" and "span p 16 \<inter> owned E VIDEO_MEM = {}" and "location (struct_at (mem s) p) \<noteq> 0"
  obtains r s' where "fish_ioctl E p 0 s = Returns r s'" "showing E W fd s0 s' (after_add (struct_at (mem s) p) st)"
  by (rule fish_ioctl_add [OF showingD(1,2) [OF assms(1)] assms(2,3)]) (use showing_next [OF assms(1)] in blast)

lemma showing_sync:
  assumes "showing E W fd s0 s st"
  obtains r s' where "fish_ioctl E arg 3 s = Returns r s'" "showing E W fd s0 s' (after_sync (ucast (drop_bit 16 arg)) (ucast arg) st)"
  by (rule fish_ioctl_sync [OF showingD(1,2) [OF assms(1)], of arg]) (use showing_next [OF assms(1)] in blast)

lemma showing_remove:
  assumes "showing E W fd s0 s st"
  obtains r s' where "fish_ioctl E arg 1 s = Returns r s'" "showing E W fd s0 s' (after_remove (ucast arg) st)"
  by (rule fish_ioctl_remove [OF showingD(1,2) [OF assms(1)], of arg]) (use showing_next [OF assms(1)] in blast)

definition show_vars_ok :: "blink_env \<Rightarrow> u32 \<Rightarrow> u32 \<Rightarrow> u32 \<Rightarrow> bool" where
  "show_vars_ok E p r g \<longleftrightarrow> (span p 16 \<union> span r 4) \<inter> (owned E VIDEO_MEM \<union> span (vmem_base_addr E) 4) = {} \<and> r \<noteq> 0 \<and> g \<noteq> 0"

text \<open>
  The animation as the clock drives it: the pictures, then one more blinker, then the request
  to put it in step with the one at place 40, then the removal of the one at place 200.
\<close>

definition show_story :: "mp1_blink_struct list \<times> (nat \<Rightarrow> u8) \<Rightarrow> mp1_blink_struct list \<times> (nat \<Rightarrow> u8)" where
  "show_story st =
     (after_tick ^^ 2000) (after_remove 200 ((after_tick ^^ 200) (after_sync 40 540 ((after_tick ^^ 200)
       (after_add extra_blinker ((after_tick ^^ 200) st))))))"

lemma fish_show_runs:
  assumes "user_ok s" and "device E s st" and "clock_fd s fd" and "show_vars_ok E p r g"
  shows "\<exists>s'. fish_show (Suc q) E p r g (of_nat fd) s = Returns 0 s' \<and> device E s' (show_story st)
    \<and> kept (owned E VIDEO_MEM \<union> span p 16 \<union> span r 4) {fd} s s'"
proof -
  let ?W = "owned E VIDEO_MEM \<union> span p 16 \<union> span r 4"
  have v: "span p 16 \<inter> owned E VIDEO_MEM = {}" "span p 16 \<inter> span (vmem_base_addr E) 4 = {}" "span r 4 \<inter> owned E VIDEO_MEM = {}"
      "span r 4 \<inter> span (vmem_base_addr E) 4 = {}" "r \<noteq> 0" "g \<noteq> 0"
    using assms(4) by (auto simp: show_vars_ok_def)
  have sub: "span p 16 \<subseteq> ?W" "span r 4 \<subseteq> ?W" by auto
  note put = showing_store [OF _ store32_agree sub(2) v(3,4)]
  have "showing E ?W fd s s st" using assms(1-3) kept_mono [OF kept_refl [OF assms(1)]] by (auto simp: showing_def)
  from showing_write [OF put [OF this, of 32] v(5)]
  obtain x s1 where s1: "ece391_write (Suc q) (of_nat fd) r 4 (s\<lparr>mem := store32 (mem s) r 32\<rparr>) = Returns x s1" "showing E ?W fd s s1 st" by metis
  from showing_wait [OF put [OF s1(2), of x] v(6)]
  obtain s2 where s2: "fish_wait (Suc q) E (of_nat fd) g 200 (s1\<lparr>mem := store32 (mem s1) r x\<rparr>) = Returns 0 s2"
      "showing E ?W fd s s2 ((after_tick ^^ 200) st)" by metis
  let ?s = "s2\<lparr>mem := fish_extra (mem s2) p\<rparr>"
  have sh: "showing E ?W fd s ?s ((after_tick ^^ 200) st)" by (rule showing_store [OF s2(2) fish_extra_stored(3) sub(1) v(1,2)])
  from showing_add [OF sh v(1)] fish_extra_stored(1,2) [of "mem s2" p]
  obtain x3 s3 where s3: "fish_ioctl E p 0 ?s = Returns x3 s3" "showing E ?W fd s s3 (after_add extra_blinker ((after_tick ^^ 200) st))"
    by (auto simp: after_add_fresh [of "struct_at (fish_extra (mem s2) p) p", symmetric])
  obtain s4 where s4: "fish_wait (Suc q) E (of_nat fd) g 200 s3 = Returns 0 s4"
      "showing E ?W fd s s4 ((after_tick ^^ 200) (after_add extra_blinker ((after_tick ^^ 200) st)))"
    by (rule showing_wait [OF s3(2) v(6)])
  let ?arg = "push_bit 16 40 OR (6 * 80 + 60) :: u32"
  have arg: "(ucast (drop_bit 16 ?arg) :: u16) = 40" "(ucast ?arg :: u16) = 540" "(ucast (200 :: u32) :: u16) = 200" by simp_all
  obtain x5 s5 where s5: "fish_ioctl E ?arg 3 s4 = Returns x5 s5"
      "showing E ?W fd s s5 (after_sync 40 540 ((after_tick ^^ 200) (after_add extra_blinker ((after_tick ^^ 200) st))))"
    using showing_sync [OF s4(2), of ?arg] unfolding arg by metis
  obtain s6 where s6: "fish_wait (Suc q) E (of_nat fd) g 200 s5 = Returns 0 s6"
      "showing E ?W fd s s6 ((after_tick ^^ 200) (after_sync 40 540 ((after_tick ^^ 200) (after_add extra_blinker ((after_tick ^^ 200) st)))))"
    by (rule showing_wait [OF s5(2) v(6)])
  let ?t = "s6\<lparr>mem := store16 (mem s6) p 60\<rparr>"
  have "agree (- span p 16) (store16 (mem s6) p 60) (mem s6)" by (auto simp: agree_def store16_def span_def)
  from showing_remove [OF showing_store [OF s6(2) this sub(1) v(1,2)], of 200]
  obtain x7 s7 where s7: "fish_ioctl E 200 1 ?t = Returns x7 s7" "showing E ?W fd s s7 (after_remove 200 ((after_tick ^^ 200)
      (after_sync 40 540 ((after_tick ^^ 200) (after_add extra_blinker ((after_tick ^^ 200) st))))))"
    unfolding arg by metis
  obtain s8 where s8: "fish_wait (Suc q) E (of_nat fd) g 2000 s7 = Returns 0 s8" "showing E ?W fd s s8 (show_story st)"
    using showing_wait [OF s7(2) v(6)] unfolding show_story_def by metis
  note d = showingD [OF s8(2)]
  have fd: "2 \<le> fd" "fd < 8" using assms(3) by (simp_all add: clock_fd_def)
  obtain x9 s9 where s9: "ece391_close (Suc q) (of_nat fd) s8 = Returns x9 s9" "kept {} {fd} s8 s9" by (rule close_kept [OF d(1) fd])
  have "device E s9 (show_story st)" by (rule device_kept [OF d(2) s9(2)]) simp_all
  moreover have "kept ?W {fd} s s9" by (rule kept_trans [OF kept_mono [OF d(4)] kept_mono [OF s9(2)]]) simp_all
  ultimately show ?thesis
    using s1(1) s2(1) s3(1) s4(1) s5(1) s6(1) s7(1) s8(1) s9(1) unfolding fish_show_def Let_def by (auto simp del: fish_wait.simps)
qed
section \<open>The start\<close>

lemma create_vidmap_changes:
  assumes "create_vidmap s = Some (r, s')"
  obtains t d where "s' = s\<lparr>page_table_vidmap := t, page_directories := d\<rparr>"
  using assms by (auto simp: create_vidmap_def Let_def upd_pd_def split: if_splits)

lemma user_ok_pages: "user_ok (s\<lparr>page_table_vidmap := t, page_directories := d\<rparr>) = user_ok s"
  by (simp add: user_ok_def files_ok_def ops_ready_def term_ok_def term_base_def cur_fd_def)

lemma screen_page:
  assumes "k < 4000"
  shows "unat (VIDMAP + of_nat k) div 0x400000 = 0x21" "unat (drop_bit 12 (VIDMAP + of_nat k) AND mask 10) = 0xB8"
    "VIDEO_MEM OR ((VIDMAP + of_nat k) AND mask 12) = VIDEO_MEM + of_nat k" "unat (drop_bit 22 (VIDMAP + of_nat k)) = 0x21"
proof -
  have u: "unat (VIDMAP + of_nat k) = 0x84B8000 + k" using assms by (simp add: VIDMAP_def unat_add32 unat_of_nat32)
  then show "unat (VIDMAP + of_nat k) div 0x400000 = 0x21" using assms by simp
  then show "unat (drop_bit 22 (VIDMAP + of_nat k)) = 0x21" by (simp add: unat_page_index)
  have "unat (drop_bit 12 (VIDMAP + of_nat k) AND mask 10) = (0x84B8000 + k) div 4096 mod 1024"
    by (simp only: take_bit_eq_mask [symmetric] unsigned_take_bit_eq unat_drop_bit_eq u drop_bit_eq_div take_bit_eq_mod) (simp add: unat_div unat_mod u)
  moreover have "(0x84B8000 + k) div 4096 = 33976" by (rule div_nat_eqI) (use assms in simp_all)
  ultimately show "unat (drop_bit 12 (VIDMAP + of_nat k) AND mask 10) = 0xB8" by simp
  have m: "(VIDMAP + of_nat k) AND mask 12 = of_nat k"
    using assms by (simp add: word_unat_eq_iff u unat_mod mod_add_left_eq [of "0x84B8000" 4096 k, symmetric] unsigned_take_bit_eq take_bit_eq_mod unat_of_nat32 flip: take_bit_eq_mask)
  have e: "VIDEO_MEM = push_bit 12 0xB8" by (simp add: VIDEO_MEM_def)
  have "push_bit 12 y AND (a AND mask 12) = (0 :: u32)" for a y
    by (rule bit_word_eqI) (auto simp: bit_push_bit_iff bit_and_iff bit_mask_iff)
  from this [of "0xB8" "VIDMAP + of_nat k", folded e] have "VIDEO_MEM AND of_nat k = 0" unfolding m .
  then show "VIDEO_MEM OR ((VIDMAP + of_nat k) AND mask 12) = VIDEO_MEM + of_nat k" by (simp add: m disjunctive_add_eq_or)
qed

text \<open>The call that maps the screen leaves the address of the mapping in the variable of the program.\<close>

definition own_page :: "u32 \<Rightarrow> bool" where
  "own_page a \<longleftrightarrow> PAGE_VIRT_ADDR \<le> a \<and> a \<le> PAGE_VIRT_ADDR + PAGE_SIZE_4MB"

definition own_tables :: "'a page_state_scheme \<Rightarrow> bool" where
  "own_tables s \<longleftrightarrow> tables_ok s \<and> cr3 s < 6 \<and> program_id (pcbs s ! the (current_pcb s)) = of_nat (cr3 s + 1)"

lemma fish_maps_screen:
  assumes "user_ok s" and "own_tables s" and "own_page (vmem_base_addr E)"
  obtains s' where "mp1_set_video_mode q E s = Returns VIDMAP s'" "user_ok s'" "places s' = places s" "\<forall>g. cur_fd s' g = cur_fd s g"
    "mem s' = store32 (mem s) (vmem_base_addr E) VIDMAP" "window (seen E s') VIDEO_MEM (mem s')"
proof -
  let ?v = "vmem_base_addr E"
  have o: "tables_ok s" "cr3 s < 6" "program_id (pcbs s ! the (current_pcb s)) = of_nat (cr3 s + 1)" using assms(2) by (simp_all add: own_tables_def)
  obtain s1 where s1: "create_vidmap s = Some (0, s1)" "\<forall>a. unat a div 0x400000 = 0x21 \<longrightarrow> translate s1 (cr3 s) a =
      (if unat (drop_bit 12 a AND mask 10) = 0xB8 then Some (VIDEO_MEM OR (a AND mask 12), True) else None)"
    using vidmap_maps_screen [OF o(1,3,2)] by blast
  obtain t d where td: "s1 = s\<lparr>page_table_vidmap := t, page_directories := d\<rparr>" by (rule create_vidmap_changes [OF s1(1)])
  let ?s = "s1\<lparr>mem := store32 (mem s1) ?v VIDMAP\<rparr>"
  have "user_ok s1" using assms(1) unfolding td user_ok_pages .
  then have u: "user_ok ?s" by (rule user_ok_mem)
  have l: "load32 (mem ?s) ?v = VIDMAP" by (simp add: load_store32)
  have "?v \<noteq> 0" "\<not> ?v < PAGE_VIRT_ADDR" "\<not> PAGE_VIRT_ADDR + PAGE_SIZE_4MB < ?v" using assms(3) by (auto simp: own_page_def PAGE_VIRT_ADDR_def not_le)
  then have v: "vidmap ?v s = Returns 0 ?s" using s1(1) by (simp add: vidmap_def)
  then have "mp1_set_video_mode q E s = Returns VIDMAP ?s"
    using l by (simp add: mp1_set_video_mode_def ece391_vidmap_def syscall_handler_def)
  moreover have "user_view ?s (VIDMAP + of_nat k) = Some (VIDEO_MEM + of_nat k)" if k: "k < 4000" for k
  proof -
    have "user_view ?s = user_view s1" by (rule user_view_maps) (simp add: maps_def)
    moreover have "cr3 s1 = cr3 s" by (simp add: td)
    ultimately show ?thesis using s1(2) screen_page [OF k] by (simp add: user_view_def)
  qed
  then have "window (seen E ?s) VIDEO_MEM (mem ?s)" using l by (simp add: window_def)
  moreover have "places ?s = places s" "\<forall>g. cur_fd ?s g = cur_fd s g" "mem ?s = store32 (mem s) ?v VIDMAP" by (simp_all add: td places_def cur_fd_def)
  ultimately show thesis using u by (intro that)
qed
section \<open>The whole program\<close>

text \<open>What the program writes before the show.\<close>

definition fish_writes :: "blink_env \<Rightarrow> fish_vars \<Rightarrow> u32 set" where
  "fish_writes E v = frame_writes E (frame_struct_at v) (c0_at v) (c1_at v) \<union> span (vmem_base_addr E) 4"

definition clock_file :: "u32 set \<Rightarrow> 'a sys_state_scheme \<Rightarrow> u32 \<Rightarrow> bool" where
  "clock_file W s nm \<longleftrightarrow> cstring (mem s) nm (bytes ''rtc'') \<and> span nm 4 \<inter> W = {} \<and> span (bootblock s) 4096 \<inter> W = {}
     \<and> unat (num_dir_entries s) \<le> 63 \<and> (\<exists>e. find_name s (bytes ''rtc'') = Some e \<and> ftype e = FILE_TYPE_RTC)"

text \<open>
  The process runs in its own address space, its variables lie apart in its page, the list of
  blinkers is empty, the three files are there, and three descriptors are free.
\<close>

definition fish_ready :: "(string \<Rightarrow> u32) \<Rightarrow> blink_env \<Rightarrow> fish_vars \<Rightarrow> nat \<Rightarrow> u32 \<Rightarrow> u8 list \<Rightarrow> u32 \<Rightarrow> u8 list \<Rightarrow> 'a sys_state_scheme \<Rightarrow> bool" where
  "fish_ready lit E v fd k0 t0 k1 t1 s \<longleftrightarrow>
     user_ok s \<and> own_tables s \<and> own_page (vmem_base_addr E) \<and> placed E VIDEO_MEM \<and> load32 (mem s) (mp1_list_head E) = 0
     \<and> frame_vars_ok E (frame_struct_at v) (c0_at v) (c1_at v) \<and> show_vars_ok E (blink_struct_at v) (ret_val_at v) (garbage_at v)
     \<and> free_from s fd \<and> fd < 6 \<and> clock_file (fish_writes E v) s (lit ''rtc'')
     \<and> cstring (mem s) (file0_at v) (bytes ''frame0.txt'') \<and> picture_file (fish_writes E v) s (file0_at v) k0 t0
     \<and> cstring (mem s) (file1_at v) (bytes ''frame1.txt'') \<and> picture_file (fish_writes E v) s (file1_at v) k1 t1
     \<and> small_picture 800 (text_lines t0) \<and> small_picture 800 (text_lines t1)"

lemma placed_seen [simp]: "placed (E\<lparr>page_view := f\<rparr>) scr = placed E scr"
  by (simp add: placed_def)

lemma clock_file_opened:
  assumes "user_ok s" and "places s = places s0" and "agree (- V) (mem s) (mem s0)" and "V \<subseteq> W" and "clock_file W s0 nm" and "free_from s fd" and "fd < 8"
  obtains s' where "ece391_open q nm s = Returns (of_nat fd) s'" "kept {} {fd} s s'" "clock_fd s' fd" "free_from s' (Suc fd)"
proof -
  have c: "cstring (mem s0) nm (bytes ''rtc'')" "span nm 4 \<inter> W = {}" "span (bootblock s0) 4096 \<inter> W = {}" "unat (num_dir_entries s0) \<le> 63"
    using assms(5) by (simp_all add: clock_file_def)
  obtain e where e: "find_name s0 (bytes ''rtc'') = Some e" "ftype e = FILE_TYPE_RTC" using assms(5) by (auto simp: clock_file_def)
  have "span nm (Suc (length (bytes ''rtc''))) = span nm 4" by (simp add: numeral_eq_Suc)
  then have n: "cstring (mem s) nm (bytes ''rtc'')" by (intro cstring_agree [OF c(1) agree_sub [OF assms(3)]]) (use c(2) assms(4) in auto)
  have "agree (span (bootblock s0) 4096) (mem s) (mem s0)" by (rule agree_sub [OF assms(3)]) (use c(3) assms(4) in auto)
  from find_name_agree [OF places_eqD(6) [OF assms(2)] this c(4)] have f: "find_name s (bytes ''rtc'') = Some e" using e(1) by simp
  obtain s' where s': "ece391_open q nm s = Returns (of_nat fd) s'" "prints {} s [] s'" "mem s' = mem s"
      "cur_fd s' fd = \<lparr>fd_ops = Ops_rtc, inode_ptr = 0, file_position = 0, flags = 1\<rparr>" "\<forall>g. g \<noteq> fd \<longrightarrow> cur_fd s' g = cur_fd s g"
    using open_entry [OF assms(1) n f free_from_lowest [OF assms(6,7)], where q = q] e(2) by blast
  have k: "kept {} {fd} s s'" by (rule kept_prints [OF s'(2,3) open_maps [OF s'(1)]]) (use s'(5) in simp)
  have "free_from s' (Suc fd)" by (rule free_from_next [OF assms(6) k]) (simp add: s'(4))
  moreover have "clock_fd s' fd" using s'(4) assms(6,7) by (simp add: clock_fd_def free_from_def)
  ultimately show thesis using s'(1) k by (intro that)
qed

lemma fish_starts:
  assumes "user_ok s" and "own_tables s" and "own_page (vmem_base_addr E)" and "placed E VIDEO_MEM" and "load32 (mem s) (mp1_list_head E) = 0"
  obtains s' where "mp1_set_video_mode q E (s\<lparr>mem := ece391_memset (mem s) (blink_array E) 0 (16 * 80 * 25)\<rparr>) = Returns VIDMAP s'" "user_ok s'"
    "places s' = places s" "\<forall>g. cur_fd s' g = cur_fd s g" "agree (- (span (blink_array E) 32000 \<union> span (vmem_base_addr E) 4)) (mem s') (mem s)"
    "device E s' ([], picture VIDEO_MEM (mem s))"
proof -
  let ?B = "span (blink_array E) 32000" and ?V = "span (vmem_base_addr E) 4"
  define m where "m = filled (mem s) (blink_array E) 32000 (\<lambda>_. 0)"
  have m: "ece391_memset (mem s) (blink_array E) 0 (16 * 80 * 25) = m" using ece391_memset_filled [of 32000 "mem s" "blink_array E" 0] by (simp add: m_def)
  have ag: "agree (- ?B) m (mem s)" unfolding m_def by (rule agree_filled) blast
  have z: "agree ?B m (\<lambda>_. 0)" by (auto simp: m_def agree_def filled_def span_def)
  have o: "own_tables (s\<lparr>mem := m\<rparr>)" using assms(2) by (simp add: own_tables_def tables_ok_def)
  obtain s' where s': "mp1_set_video_mode q E (s\<lparr>mem := m\<rparr>) = Returns VIDMAP s'" "user_ok s'" "places s' = places (s\<lparr>mem := m\<rparr>)"
      "\<forall>g. cur_fd s' g = cur_fd (s\<lparr>mem := m\<rparr>) g" "mem s' = store32 m (vmem_base_addr E) VIDMAP" "window (seen E s') VIDEO_MEM (mem s')"
    by (rule fish_maps_screen [OF user_ok_mem [OF assms(1)] o assms(3), of q]) simp
  have st: "agree (- ?V) (mem s') m" unfolding s'(5) by (rule store32_agree)
  have b: "agree ?B (mem s') (\<lambda>_. 0)" by (rule agree_trans [OF agree_sub [OF st] z]) (use assms(4) in \<open>auto simp: placed_def\<close>)
  have "agree (- (?B \<union> ?V)) (mem s') m" by (rule agree_sub [OF st]) blast
  then have all: "agree (- (?B \<union> ?V)) (mem s') (mem s)" by (rule agree_trans [OF _ agree_sub [OF ag]]) blast
  have "agree (span (mp1_list_head E) 4) (mem s') (mem s)" by (rule agree_sub [OF all]) (use assms(4) in \<open>auto simp: placed_def\<close>)
  then have h: "load32 (mem s') (mp1_list_head (seen E s')) = 0" using assms(5) load32_agree_span by simp
  have "agree (chars VIDEO_MEM) (mem s') (mem s)" by (rule agree_sub [OF all]) (use assms(4) chars_within [of VIDEO_MEM] in \<open>auto simp: placed_def\<close>)
  then have "picture VIDEO_MEM (mem s') = picture VIDEO_MEM (mem s)" by (rule picture_agree)
  then have "device E s' ([], picture VIDEO_MEM (mem s))"
    using blinking_start [OF _ s'(6) h] assms(4) b by (simp add: device_def)
  then show thesis using s'(1-4) all by (intro that) (simp_all add: m [simplified] places_def cur_fd_def)
qed

lemma fish_opens:
  assumes "fish_ready lit E v fd k0 t0 k1 t1 s"
  obtains s1 s2 where "mp1_set_video_mode q E (s\<lparr>mem := ece391_memset (mem s) (blink_array E) 0 (16 * 80 * 25)\<rparr>) = Returns VIDMAP s1"
    "ece391_open q (lit ''rtc'') s1 = Returns (of_nat fd) s2" "user_ok s2" "device E s2 ([], picture VIDEO_MEM (mem s))" "clock_fd s2 fd" "free_from s2 (Suc fd)"
    "picture_file (frame_writes E (frame_struct_at v) (c0_at v) (c1_at v)) s2 (file0_at v) k0 t0"
    "picture_file (frame_writes E (frame_struct_at v) (c0_at v) (c1_at v)) s2 (file1_at v) k1 t1"
proof -
  let ?W = "fish_writes E v" and ?F = "frame_writes E (frame_struct_at v) (c0_at v) (c1_at v)"
  have r: "user_ok s" "own_tables s" "own_page (vmem_base_addr E)" "placed E VIDEO_MEM" "load32 (mem s) (mp1_list_head E) = 0"
      "free_from s fd" "fd < 6" "clock_file ?W s (lit ''rtc'')" "picture_file ?W s (file0_at v) k0 t0" "picture_file ?W s (file1_at v) k1 t1"
    using assms by (simp_all add: fish_ready_def)
  let ?V = "span (blink_array E) 32000 \<union> span (vmem_base_addr E) 4"
  have V: "?V \<subseteq> ?W" "?F \<subseteq> ?W" by (auto simp: fish_writes_def frame_writes_def owned_def)
  obtain s1 where s1: "mp1_set_video_mode q E (s\<lparr>mem := ece391_memset (mem s) (blink_array E) 0 (16 * 80 * 25)\<rparr>) = Returns VIDMAP s1" "user_ok s1"
      "places s1 = places s" "\<forall>g. cur_fd s1 g = cur_fd s g" "agree (- ?V) (mem s1) (mem s)" "device E s1 ([], picture VIDEO_MEM (mem s))"
    by (rule fish_starts [OF r(1-5)])
  have f1: "free_from s1 fd" using r(6) s1(4) by (simp add: free_from_def)
  obtain s2 where s2: "ece391_open q (lit ''rtc'') s1 = Returns (of_nat fd) s2" "kept {} {fd} s1 s2" "clock_fd s2 fd" "free_from s2 (Suc fd)"
    by (rule clock_file_opened [OF s1(2,3,5) V(1) r(8) f1]) (use r(7) in auto)
  have "picture_file ?F s2 (file0_at v) k0 t0" "picture_file ?F s2 (file1_at v) k1 t1"
    using picture_file_same [OF r(9) s1(3,5) V(1)] picture_file_same [OF r(10) s1(3,5) V(1)]
    by (auto intro: picture_file_mono [OF picture_file_kept [OF _ s2(2)] V(2)])
  moreover have "device E s2 ([], picture VIDEO_MEM (mem s))" by (rule device_kept [OF s1(6) s2(2)]) simp_all
  ultimately show thesis using that [OF s1(1) s2(1) keptD(1) [OF s2(2)]] s2(3,4) by blast
qed

definition fish_story :: "u8 list \<Rightarrow> u8 list \<Rightarrow> (nat \<Rightarrow> u8) \<Rightarrow> mp1_blink_struct list \<times> (nat \<Rightarrow> u8)" where
  "fish_story t0 t1 pic = show_story (fold after_add (frame_requests 0 (text_lines t0) (text_lines t1)) ([], pic))"

lemma fish_main_shows:
  assumes "fish_ready lit E v fd k0 t0 k1 t1 s"
  shows "\<exists>s'. fish_main (Suc q) lit E v s = Some (Returns 0 s') \<and> device E s' (fish_story t0 t1 (picture VIDEO_MEM (mem s)))"
proof -
  let ?F = "frame_writes E (frame_struct_at v) (c0_at v) (c1_at v)"
  let ?fr = "fold after_add (frame_requests 0 (text_lines t0) (text_lines t1)) ([], picture VIDEO_MEM (mem s))"
  have r: "frame_vars_ok E (frame_struct_at v) (c0_at v) (c1_at v)" "show_vars_ok E (blink_struct_at v) (ret_val_at v) (garbage_at v)" "fd < 6"
      "small_picture 800 (text_lines t0)" "small_picture 800 (text_lines t1)"
    using assms by (simp_all add: fish_ready_def)
  obtain s1 s2 where s2: "mp1_set_video_mode (Suc q) E (s\<lparr>mem := ece391_memset (mem s) (blink_array E) 0 (16 * 80 * 25)\<rparr>) = Returns VIDMAP s1"
      "ece391_open (Suc q) (lit ''rtc'') s1 = Returns (of_nat fd) s2" "user_ok s2" "device E s2 ([], picture VIDEO_MEM (mem s))" "clock_fd s2 fd" "free_from s2 (Suc fd)"
      "picture_file ?F s2 (file0_at v) k0 t0" "picture_file ?F s2 (file1_at v) k1 t1"
    by (rule fish_opens [OF assms])
  obtain s3 where s3: "add_frames (Suc q) E (frame_struct_at v) (c0_at v) (c1_at v) (file0_at v) (file1_at v) s2 = Some (Returns 0 s3)"
      "kept ?F {Suc fd, Suc (Suc fd)} s2 s3" "device E s3 ?fr"
    using add_frames_adds [OF s2(3,4) r(1) s2(7,8) r(4,5) s2(6), of "Suc q"] r(3) by auto
  have c3: "clock_fd s3 fd" by (rule clock_fd_kept [OF s2(5) s3(2)]) simp
  obtain s4 where s4: "fish_show (Suc q) E (blink_struct_at v) (ret_val_at v) (garbage_at v) (of_nat fd) s3 = Returns 0 s4" "device E s4 (show_story ?fr)"
    using fish_show_runs [OF keptD(1) [OF s3(2)] s3(3) c3 r(2)] by blast
  have "fish_main (Suc q) lit E v s = Some (Returns 0 s4)"
    using s2(1,2) s3(1) s4(1) by (simp add: fish_main_def Let_def VIDMAP_def)
  then show ?thesis using s4(2) by (auto simp: fish_story_def)
qed

section \<open>Two pictures that alternate\<close>

text \<open>The character of a picture at a place; a picture is blank beyond the ends of its lines.\<close>

definition cell :: "u8 list list \<Rightarrow> nat \<Rightarrow> nat \<Rightarrow> u8" where
  "cell ls row col = (if row < length ls \<and> col < length (ls ! row) then visible (ls ! row ! col) else 32)"

definition line_at :: "u8 list list \<Rightarrow> nat \<Rightarrow> u8 list" where
  "line_at ls row = (if row < length ls then ls ! row else [])"

definition char_at :: "u8 list \<Rightarrow> nat \<Rightarrow> u8" where
  "char_at l col = (if col < length l then l ! col else 10)"

lemma char_at_simps: "char_at l 0 = first_char l" "char_at (tl l) i = char_at l (Suc i)" "char_at [] i = 10"
  by (cases l; auto simp: char_at_def first_char_def hd_conv_nth)+

lemma line_at_simps: "line_at ls 0 = (if ls = [] then [] else hd ls)" "line_at (tl ls) i = line_at ls (Suc i)"
  by (cases ls; auto simp: line_at_def)+

lemma cell_visible: "visible (char_at (line_at ls row) col) = cell ls row col"
  by (simp add: cell_def char_at_def line_at_def visible_def)

lemma row_requests_cells:
  "length l0 \<le> n \<Longrightarrow> length l1 \<le> n \<Longrightarrow>
    row_requests row col l0 l1 = concat (map (\<lambda>i. cell_request row (col + i) (char_at l0 i) (char_at l1 i)) [0..<n])"
proof (induction n arbitrary: col l0 l1)
  case 0
  then show ?case by (subst row_requests.simps) simp
next
  case (Suc n)
  have IH: "row_requests row (Suc col) (tl l0) (tl l1)
      = concat (map (\<lambda>i. cell_request row (col + Suc i) (char_at l0 (Suc i)) (char_at l1 (Suc i))) [0..<n])"
    using Suc.IH [of "tl l0" "tl l1" "Suc col"] Suc.prems by (simp add: char_at_simps)
  have nil: "row_requests row c [] [] = []" "cell_request row c 10 10 = []" for c
    by (subst row_requests.simps) (simp_all add: cell_request_def visible_def)
  show ?case
  proof (cases "l0 = [] \<and> l1 = []")
    case True
    then show ?thesis using nil by (simp add: char_at_simps)
  next
    case False
    then show ?thesis unfolding row_requests.simps [of row col l0 l1] map_upt_Suc IH by (auto simp: char_at_simps)
  qed
qed

lemma frame_requests_rows:
  "length ls0 \<le> n \<Longrightarrow> length ls1 \<le> n \<Longrightarrow>
    frame_requests row ls0 ls1 = concat (map (\<lambda>i. row_requests (row + i) 0 (line_at ls0 i) (line_at ls1 i)) [0..<n])"
proof (induction n arbitrary: row ls0 ls1)
  case 0
  then show ?case by (subst frame_requests.simps) simp
next
  case (Suc n)
  have IH: "frame_requests (Suc row) (tl ls0) (tl ls1)
      = concat (map (\<lambda>i. row_requests (row + Suc i) 0 (line_at ls0 (Suc i)) (line_at ls1 (Suc i))) [0..<n])"
    using Suc.IH [of "tl ls0" "tl ls1" "Suc row"] Suc.prems by (simp add: line_at_simps)
  have nil: "frame_requests r [] [] = []" "row_requests r 0 [] [] = []" for r
    by (subst frame_requests.simps row_requests.simps, simp)+
  show ?case
  proof (cases "ls0 = [] \<and> ls1 = []")
    case True
    then show ?thesis using nil by (simp add: line_at_def)
  next
    case False
    then show ?thesis unfolding frame_requests.simps [of row ls0 ls1] map_upt_Suc IH by (auto simp: line_at_simps)
  qed
qed

lemma upt_grid: "concat (map (\<lambda>r. map (\<lambda>c. r * n + c) [0..<n]) [0..<m]) = [0..<m * n]" for m n :: nat
proof (induction m)
  case (Suc m)
  have "map (\<lambda>c. m * n + c) [0..<n] = [m * n..<m * n + n]" by (rule nth_equalityI) simp_all
  then show ?case using Suc upt_add_eq_append [of 0 "m * n" n] by (simp add: add.commute)
qed simp

text \<open>The requests of two small pictures are those of their places, one for each that is not blank in both.\<close>

definition blinker_at :: "u8 list list \<Rightarrow> u8 list list \<Rightarrow> nat \<Rightarrow> mp1_blink_struct" where
  "blinker_at ls0 ls1 k = \<lparr>location = of_nat (k + 40), on_char = cell ls0 (k div 80) (k mod 80), off_char = cell ls1 (k div 80) (k mod 80),
     on_length = 15, off_length = 15, countdown = 15, status = 1\<rparr>"

definition drawn :: "u8 list list \<Rightarrow> u8 list list \<Rightarrow> nat \<Rightarrow> bool" where
  "drawn ls0 ls1 k \<longleftrightarrow> cell ls0 (k div 80) (k mod 80) \<noteq> 32 \<or> cell ls1 (k div 80) (k mod 80) \<noteq> 32"

lemma cell_request_at:
  "c < 80 \<Longrightarrow> cell_request r c (char_at (line_at ls0 r) c) (char_at (line_at ls1 r) c)
    = map (blinker_at ls0 ls1) (filter (drawn ls0 ls1) [r * 80 + c])"
  by (simp add: cell_request_def cell_visible drawn_def blinker_at_def)

lemma concat_filter: "concat (map (\<lambda>x. map f (filter P (g x))) xs) = map f (filter P (concat (map g xs)))"
  by (induction xs) simp_all

lemma frame_requests_at:
  assumes "small_picture n ls0" and "small_picture n ls1"
  shows "frame_requests 0 ls0 ls1 = map (blinker_at ls0 ls1) (filter (drawn ls0 ls1) [0..<n * 80])"
proof -
  have row: "row_requests r 0 (line_at ls0 r) (line_at ls1 r) = map (blinker_at ls0 ls1) (filter (drawn ls0 ls1) (map (\<lambda>c. r * 80 + c) [0..<80]))" for r
  proof -
    have "length (line_at ls0 r) \<le> 80" "length (line_at ls1 r) \<le> 80" using assms by (auto simp: small_picture_def line_at_def)
    then have "row_requests r 0 (line_at ls0 r) (line_at ls1 r)
        = concat (map (\<lambda>c. cell_request r (0 + c) (char_at (line_at ls0 r) c) (char_at (line_at ls1 r) c)) [0..<80])" by (rule row_requests_cells)
    also have "\<dots> = concat (map (\<lambda>c. map (blinker_at ls0 ls1) (filter (drawn ls0 ls1) [r * 80 + c])) [0..<80])"
      by (intro arg_cong [where f = concat] map_cong refl) (simp only: add_0 cell_request_at atLeastLessThan_iff set_upt)
    also have "\<dots> = map (blinker_at ls0 ls1) (filter (drawn ls0 ls1) (concat (map (\<lambda>c. [r * 80 + c]) [0..<80])))" by (rule concat_filter)
    finally show ?thesis by (simp only: concat_map_singleton)
  qed
  have "length ls0 \<le> n" "length ls1 \<le> n" using assms by (simp_all add: small_picture_def)
  then have "frame_requests 0 ls0 ls1 = concat (map (\<lambda>r. row_requests (0 + r) 0 (line_at ls0 r) (line_at ls1 r)) [0..<n])" by (rule frame_requests_rows)
  then show ?thesis by (simp only: add_0 row concat_filter upt_grid)
qed

text \<open>Adding all of them draws the first picture.\<close>

lemma fold_add:
  assumes "length bs + length acc \<le> 2000" and "\<forall>b \<in> set bs. location b < 2000"
  shows "fold after_add bs (acc, pic) = (rev (map fresh_blinker bs) @ acc, fold (\<lambda>b. paint b (on_char b)) bs pic)"
  using assms
proof (induction bs arbitrary: acc pic)
  case (Cons b bs)
  then show ?case by (simp add: after_add_def added_def not_le)
qed simp

lemma paint_self: "paint b c pic (unat (location b)) = c"
  by (simp add: paint_def)

lemma paint_other: "l \<notin> (unat \<circ> location) ` set bs \<Longrightarrow> fold (\<lambda>b. paint b (on_char b)) bs pic l = pic l"
  by (induction bs arbitrary: pic) (auto simp: paint_def)

lemma paint_all:
  assumes "distinct (map location bs)" and "b \<in> set bs"
  shows "fold (\<lambda>b. paint b (on_char b)) bs pic (unat (location b)) = on_char b"
  using assms
proof (induction bs arbitrary: pic)
  case (Cons a bs)
  show ?case
  proof (cases "b \<in> set bs")
    case True
    then show ?thesis using Cons by simp
  next
    case False
    then have "b = a" "unat (location a) \<notin> (unat \<circ> location) ` set bs" using Cons.prems by (auto simp: word_unat_eq_iff)
    then show ?thesis using paint_other [of "unat (location a)" bs] by (simp add: paint_self)
  qed
qed simp

lemma ticks_after: "promised_all req (replicate n Tick) st = (replicate n 0, (after_tick ^^ n) st)"
  by (induction n arbitrary: st) (auto simp: after_tick_def funpow_swap1 split: prod.splits)

lemma ticks_alternate:
  assumes "distinct (map location bs)" and "\<forall>b \<in> set bs. steady b \<and> location b < 2000" and "length bs \<le> 2000"
  shows "b \<in> set bs \<Longrightarrow> snd ((after_tick ^^ n) (fold after_add bs ([], pic))) (unat (location b)) = phase_char n b"
    "l \<notin> (unat \<circ> location) ` set bs \<Longrightarrow> snd ((after_tick ^^ n) (fold after_add bs ([], pic))) l = pic l"
proof -
  let ?pic = "fold (\<lambda>b. paint b (on_char b)) bs pic"
  have a: "fold after_add bs ([], pic) = (map fresh_blinker (rev bs), ?pic)" using fold_add [of bs "[]" pic] assms(2,3) by (simp add: rev_map)
  have f: "map (after_ticks 0) (rev bs) = map fresh_blinker (rev bs)" using assms(2) after_0 by simp
  have "\<forall>b \<in> set (rev bs). ?pic (unat (location b)) = phase_char 0 b" using paint_all [OF assms(1)] assms(2) by (simp add: phase_char_def steady_def)
  with ticks_promised [of "rev bs" ?pic 0 struct_at_none n for struct_at_none] assms(1,2)
  obtain pic' where p: "(after_tick ^^ n) (map fresh_blinker (rev bs), ?pic) = (map (after_ticks n) (rev bs), pic')"
      "\<forall>b \<in> set bs. pic' (unat (location b)) = phase_char n b" "\<forall>l. l \<notin> (unat \<circ> location) ` set bs \<longrightarrow> pic' l = ?pic l"
    unfolding f ticks_after by (auto simp: rev_map [symmetric])
  show "b \<in> set bs \<Longrightarrow> snd ((after_tick ^^ n) (fold after_add bs ([], pic))) (unat (location b)) = phase_char n b"
    using p(1,2) a by simp
  show "l \<notin> (unat \<circ> location) ` set bs \<Longrightarrow> snd ((after_tick ^^ n) (fold after_add bs ([], pic))) l = pic l"
    using p(1,3) a paint_other [of l bs pic] by simp
qed

definition two_pictures :: "nat \<Rightarrow> u8 list list \<Rightarrow> u8 list list \<Rightarrow> (nat \<Rightarrow> u8) \<Rightarrow> nat \<Rightarrow> nat \<Rightarrow> u8" where
  "two_pictures n ls0 ls1 pic row col =
     (if cell ls0 row col = 32 \<and> cell ls1 row col = 32 then pic (row * 80 + col + 40)
      else if n mod 30 < 15 then cell ls0 row col else cell ls1 row col)"

lemma pictures_alternate:
  assumes "small_picture 24 ls0" and "small_picture 24 ls1" and "row < 24" and "col < 80"
  shows "snd ((after_tick ^^ n) (fold after_add (frame_requests 0 ls0 ls1) ([], pic))) (row * 80 + col + 40) = two_pictures n ls0 ls1 pic row col"
proof -
  define N :: nat where "N = 24 * 80"
  let ?k = "row * 80 + col" and ?ks = "filter (drawn ls0 ls1) [0..<N]" and ?f = "blinker_at ls0 ls1"
  let ?bs = "map ?f ?ks"
  have r: "frame_requests 0 ls0 ls1 = ?bs" unfolding N_def by (rule frame_requests_at [OF assms(1,2)])
  have N: "N = 1920" by (simp add: N_def)
  have u: "unat (location (?f k)) = k + 40" if "k < N" for k
    using that N by (simp add: blinker_at_def unat_of_nat take_bit_nat_eq_self del: of_nat_add)
  have "inj_on (location \<circ> ?f) (set ?ks)"
  proof (rule inj_onI)
    fix i j assume ij: "i \<in> set ?ks" "j \<in> set ?ks" and e: "(location \<circ> ?f) i = (location \<circ> ?f) j"
    have "unat (location (?f i)) = i + 40" "unat (location (?f j)) = j + 40" using ij by (simp_all add: u)
    moreover have "unat (location (?f i)) = unat (location (?f j))" using e by (simp only: comp_apply)
    ultimately show "i = j" by linarith
  qed
  then have d: "distinct (map location ?bs)" by (simp add: distinct_map)
  have s: "\<forall>b \<in> set ?bs. steady b \<and> location b < 2000"
    using u N by (auto simp: steady_def word_less_nat_alt) (simp_all add: blinker_at_def)
  have l: "length ?bs \<le> 2000" using length_filter_le [of "drawn ls0 ls1" "[0..<N]"] N by simp
  have k: "?k < N" "?k div 80 = row" "?k mod 80 = col" using assms(3,4) N by simp_all
  show ?thesis
  proof (cases "drawn ls0 ls1 ?k")
    case True
    then have "?f ?k \<in> set ?bs" using k(1) by simp
    from ticks_alternate(1) [OF d s l this, of n pic] show ?thesis
      using True k u [OF k(1)] unfolding r by (auto simp: two_pictures_def drawn_def phase_char_def period_def blinker_at_def)
  next
    case False
    then have "?k + 40 \<notin> (unat \<circ> location) ` set ?bs" using u by auto
    from ticks_alternate(2) [OF d s l this, of n pic] show ?thesis
      using False k unfolding r by (simp add: two_pictures_def drawn_def)
  qed
qed

lemma small_picture_mono: "small_picture m ls \<Longrightarrow> m \<le> n \<Longrightarrow> small_picture n ls"
  by (simp add: small_picture_def)

lemma device_picture: "device E s st \<Longrightarrow> picture VIDEO_MEM (mem s) = snd st"
  by (simp add: device_def blinking_def)

text \<open>The two pictures have been found in their files; nothing blinks yet, and the clock is open.\<close>

definition frames_ready :: "blink_env \<Rightarrow> u32 \<Rightarrow> u32 \<Rightarrow> u32 \<Rightarrow> u32 \<Rightarrow> u32 \<Rightarrow> u8 list \<Rightarrow> u8 list \<Rightarrow> nat \<Rightarrow> (nat \<Rightarrow> u8) \<Rightarrow> 'a sys_state_scheme \<Rightarrow> bool" where
  "frames_ready E p a b f0 f1 t0 t1 c pic s \<longleftrightarrow>
     user_ok s \<and> device E s ([], pic) \<and> frame_vars_ok E p a b \<and> clock_fd s c \<and> free_from s (Suc c) \<and> c < 6
     \<and> (\<exists>k. picture_file (frame_writes E p a b) s f0 k t0) \<and> (\<exists>k. picture_file (frame_writes E p a b) s f1 k t1)
     \<and> small_picture 24 (text_lines t0) \<and> small_picture 24 (text_lines t1)"

lemma frames_shown:
  assumes "frames_ready E p a b f0 f1 t0 t1 c pic s" and "g \<noteq> 0"
  shows "\<exists>s1 s2. add_frames (Suc q) E p a b f0 f1 s = Some (Returns 0 s1) \<and> fish_wait (Suc q) E (of_nat c) g n s1 = Returns 0 s2
    \<and> (\<forall>row < 24. \<forall>col < 80. picture VIDEO_MEM (mem s2) (row * 80 + col + 40) = two_pictures n (text_lines t0) (text_lines t1) pic row col)"
proof -
  let ?st = "fold after_add (frame_requests 0 (text_lines t0) (text_lines t1)) ([], pic)"
  have r: "user_ok s" "device E s ([], pic)" "frame_vars_ok E p a b" "clock_fd s c" "free_from s (Suc c)" "Suc (Suc c) < 8"
      "small_picture 24 (text_lines t0)" "small_picture 24 (text_lines t1)" using assms(1) by (simp_all add: frames_ready_def)
  obtain k0 k1 where k: "picture_file (frame_writes E p a b) s f0 k0 t0" "picture_file (frame_writes E p a b) s f1 k1 t1"
    using assms(1) by (auto simp: frames_ready_def)
  have "small_picture 800 (text_lines t0)" "small_picture 800 (text_lines t1)" by (rule small_picture_mono [OF r(7)], simp, rule small_picture_mono [OF r(8)], simp)
  from add_frames_adds [OF r(1-3) k this r(5,6), of "Suc q"]
  obtain s1 where s1: "add_frames (Suc q) E p a b f0 f1 s = Some (Returns 0 s1)" "kept (frame_writes E p a b) {Suc c, Suc (Suc c)} s s1" "device E s1 ?st" by blast
  have "clock_fd s1 c" by (rule clock_fd_kept [OF r(4) s1(2)]) simp
  from fish_wait_ticks [OF keptD(1) [OF s1(2)] s1(3) this assms(2), of q n]
  obtain s2 where s2: "fish_wait (Suc q) E (of_nat c) g n s1 = Returns 0 s2" "device E s2 ((after_tick ^^ n) ?st)" by blast
  show ?thesis using s1(1) s2(1) device_picture [OF s2(2)] pictures_alternate [OF r(7,8)] by auto
qed

end
