(* ===== verification/Kud_Aquarium.thy ===== *)
theory Kud_Aquarium
  imports Kud_Userland Kud_Show
begin

text \<open>
  The fish program on a machine whose directory holds the clock and two small pictures.
\<close>

section \<open>A machine with two pictures\<close>

definition tank0 :: "u8 list" where
  "tank0 = bytes (''><>'' @ [CHR 0x0A] @ '' o'')"

definition tank1 :: "u8 list" where
  "tank1 = bytes '' ><>''"

text \<open>The directory, the two inodes, the two blocks of data and the names in the program.\<close>

definition tank_mem :: mem where
  "tank_mem = fold (\<lambda>(a, bs) m. store_bytes m a bs)
     [(0x500000, [3]), (0x500040, bytes ''rtc''), (0x500080, bytes ''frame0.txt''), (0x5000A0, [2]), (0x5000C0, bytes ''frame1.txt''),
      (0x5000E0, [2]), (0x5000E4, [1]), (0x501000, [6]), (0x502000, [4]), (0x502004, [1]), (0x503000, tank0), (0x504000, tank1),
      (0x8140050, bytes ''frame0.txt''), (0x8140060, bytes ''frame1.txt''), (0x8140070, bytes ''rtc'')] (\<lambda>_. 0)"

definition tank_vars :: fish_vars where
  "tank_vars = \<lparr>blink_struct_at = 0x8140020, ret_val_at = 0x8140030, garbage_at = 0x8140040, frame_struct_at = 0x8140000, c0_at = 0x8140010,
     c1_at = 0x8140011, file0_at = 0x8140050, file1_at = 0x8140060\<rparr>"

abbreviation tank_lit :: "string \<Rightarrow> u32" where
  "tank_lit \<equiv> \<lambda>_. 0x8140070"

definition tank :: sys_state where
  "tank = (machine [] [])\<lparr>mem := tank_mem\<rparr>"

lemmas tank_cells = tank_mem_def [unfolded tank0_def tank1_def bytes_def, simplified]

lemma tank_strings:
  "cstring tank_mem 0x500040 (bytes ''rtc'')" "cstring tank_mem 0x500080 (bytes ''frame0.txt'')" "cstring tank_mem 0x5000C0 (bytes ''frame1.txt'')"
  "cstring tank_mem 0x8140070 (bytes ''rtc'')" "cstring tank_mem 0x8140050 (bytes ''frame0.txt'')" "cstring tank_mem 0x8140060 (bytes ''frame1.txt'')"
  by (simp_all add: bytes_def cstring_Cons cstring_Nil) (simp_all add: tank_cells)

lemma tank_numbers:
  "load32 tank_mem 0x500000 = 3" "load32 tank_mem 0x500060 = 0" "load32 tank_mem 0x5000A0 = 2" "load32 tank_mem 0x5000A4 = 0"
  "load32 tank_mem 0x5000E0 = 2" "load32 tank_mem 0x5000E4 = 1" "load32 tank_mem 0x501000 = 6" "load32 tank_mem 0x501004 = 0"
  "load32 tank_mem 0x502000 = 4" "load32 tank_mem 0x502004 = 1" "load32 tank_mem 0x8120000 = 0"
  by (simp_all add: load32_def) (simp_all add: tank_cells)

lemma tank_data: "load_bytes tank_mem 0x503000 6 = tank0" "load_bytes tank_mem 0x504000 4 = tank1"
  by (simp_all add: tank0_def tank1_def bytes_def load_bytes_def upt_rec) (simp_all add: tank_cells)

lemma tank_fields:
  "mem tank = tank_mem" "bootblock tank = 0x500000" "inodes_array tank = 0x501000" "data_array tank = 0x503000" "user_ok tank"
  by (simp_all add: tank_def machine_fields user_ok_mem machine_user_ok)

lemma tank_find:
  "\<exists>e. find_name tank (bytes ''rtc'') = Some e \<and> ftype e = FILE_TYPE_RTC"
  "\<exists>e. find_name tank (bytes ''frame0.txt'') = Some e \<and> ftype e = FILE_TYPE_REG \<and> inode e = 0"
  "\<exists>e. find_name tank (bytes ''frame1.txt'') = Some e \<and> ftype e = FILE_TYPE_REG \<and> inode e = 1"
proof -
  note n = strn_cstring [OF tank_strings(1), of 32] strn_cstring [OF tank_strings(2), of 32] strn_cstring [OF tank_strings(3), of 32]
  have "[0..<3] = [0, 1, 2 :: nat]" by (simp add: upt_rec)
  then show "\<exists>e. find_name tank (bytes ''rtc'') = Some e \<and> ftype e = FILE_TYPE_RTC"
    "\<exists>e. find_name tank (bytes ''frame0.txt'') = Some e \<and> ftype e = FILE_TYPE_REG \<and> inode e = 0"
    "\<exists>e. find_name tank (bytes ''frame1.txt'') = Some e \<and> ftype e = FILE_TYPE_REG \<and> inode e = 1"
    by (simp_all add: find_name_def num_dir_entries_def dir_entry_def tank_fields tank_numbers n bytes_def)
       (simp_all add: load_dentry_def tank_numbers FILE_TYPE_RTC_def FILE_TYPE_REG_def)
qed
text \<open>Where everything lies: the image, the screen, and the variables and names of the program.\<close>

lemma tank_regions:
  fixes W :: "u32 set"
  defines "W \<equiv> span 0x8110000 0x30020 \<union> screen_span"
  shows "fish_writes demo_env tank_vars \<subseteq> W" "span 0x500000 0x5000 \<inter> W = {}" "span 0x8140050 48 \<inter> W = {}"
    "span 0x8140000 80 \<inter> (owned demo_env VIDEO_MEM \<union> span 0x8120010 4 \<union> screen_span) = {}"
proof -
  have d: "span 0xB8000 4000 \<inter> span 0x500000 0x5000 = ({} :: u32 set)" "span 0x500000 0x5000 \<inter> span 0x8110000 0x30020 = ({} :: u32 set)"
    "span 0xB8000 4000 \<inter> span 0x8140050 48 = ({} :: u32 set)" "span 0x8110000 0x30020 \<inter> span 0x8140050 48 = ({} :: u32 set)"
    "span 0xB8000 4000 \<inter> span 0x8140000 80 = ({} :: u32 set)" "span 0x8110000 0x30000 \<inter> span 0x8140000 80 = ({} :: u32 set)"
    by (rule span_below; simp)+
  have s: "span 0x8110000 32000 \<subseteq> (span 0x8110000 0x30000 :: u32 set)" "span 0x8120000 4 \<subseteq> (span 0x8110000 0x30000 :: u32 set)"
    "span 0x8120010 4 \<subseteq> (span 0x8110000 0x30000 :: u32 set)" "span 0x8130000 16 \<subseteq> (span 0x8110000 0x30000 :: u32 set)"
    using span_sub [of 0 32000 "0x30000" "0x8110000"] span_sub [of "0x10000" 4 "0x30000" "0x8110000"] span_sub [of "0x10010" 4 "0x30000" "0x8110000"]
      span_sub [of "0x20000" 16 "0x30000" "0x8110000"] by simp_all
  have o: "owned demo_env VIDEO_MEM \<subseteq> span 0x8110000 0x30000 \<union> screen_span"
    using s chars_within [of VIDEO_MEM] by (auto simp: owned_def demo_env_def)
  have m: "span 0x8110000 0x30000 \<subseteq> (span 0x8110000 0x30020 :: u32 set)" by (rule span_mono) simp
  have "span 0x8140000 16 \<subseteq> (span 0x8110000 0x30020 :: u32 set)" "(0x8140010 :: u32) \<in> span 0x8110000 0x30020" "(0x8140011 :: u32) \<in> span 0x8110000 0x30020"
    using span_sub [of "0x30000" 16 "0x30020" "0x8110000"] by (simp_all add: span_def)
  then show "fish_writes demo_env tank_vars \<subseteq> W"
    using o m s(3) by (auto simp: W_def fish_writes_def frame_writes_def tank_vars_def) (auto simp: demo_env_def)
  show "span 0x500000 0x5000 \<inter> W = {}" "span 0x8140050 48 \<inter> W = {}" using d(1-4) by (auto simp: W_def VIDEO_MEM_def)
  show "span 0x8140000 80 \<inter> (owned demo_env VIDEO_MEM \<union> span 0x8120010 4 \<union> screen_span) = {}"
    using o s(3) d(5,6) by (auto simp: VIDEO_MEM_def)
qed

lemma tank_vars_ok:
  "frame_vars_ok demo_env (frame_struct_at tank_vars) (c0_at tank_vars) (c1_at tank_vars)"
  "show_vars_ok demo_env (blink_struct_at tank_vars) (ret_val_at tank_vars) (garbage_at tank_vars)"
proof -
  have "span 0x8140000 16 \<subseteq> (span 0x8140000 80 :: u32 set)" "(0x8140010 :: u32) \<in> span 0x8140000 80" "(0x8140011 :: u32) \<in> span 0x8140000 80"
    "span 0x8140020 16 \<subseteq> (span 0x8140000 80 :: u32 set)" "span 0x8140030 4 \<subseteq> (span 0x8140000 80 :: u32 set)"
    using span_sub [of 0 16 80 "0x8140000"] span_sub [of 32 16 80 "0x8140000"] span_sub [of 48 4 80 "0x8140000"] by (simp_all add: span_def)
  moreover have "(0x8140010 :: u32) \<notin> span 0x8140000 16" "(0x8140011 :: u32) \<notin> span 0x8140000 16" by (simp_all add: span_def)
  moreover have "vmem_base_addr demo_env = 0x8120010" by (simp add: demo_env_def)
  ultimately show "frame_vars_ok demo_env (frame_struct_at tank_vars) (c0_at tank_vars) (c1_at tank_vars)"
    "show_vars_ok demo_env (blink_struct_at tank_vars) (ret_val_at tank_vars) (garbage_at tank_vars)"
    using tank_regions(4) unfolding frame_vars_ok_def show_vars_ok_def tank_vars_def by auto
qed

lemma tank_file:
  assumes "k \<in> {0, 1}" and "load32 tank_mem (0x501000 + 4096 * k) = of_nat (length t)" and "load32 tank_mem (0x501000 + 4096 * k + 4) = k"
    and "load_bytes tank_mem (0x503000 + 4096 * k) (length t) = t" and "length t \<le> 4096"
  shows "file_ok tank k (length t)" "\<forall>j < length t. file_byte tank k j = t ! j" "disk tank k (length t) \<subseteq> span 0x500000 0x5000"
proof -
  have f: "file_addr tank k j = 0x503000 + 4096 * k + of_nat j" if "j < length t" for j
    using that assms(3,5) by (simp add: file_addr_def data_block_def inode_block_def inode_at_def tank_fields)
  have "contiguous tank k (length t)" by (rule contiguous_one [OF assms(5)])
  moreover have "inode_at tank k \<noteq> 0" "unat k < 1048575" using assms(1) by (auto simp: inode_at_def tank_fields)
  ultimately show "file_ok tank k (length t)"
    using assms(2,5) by (simp add: file_ok_def inode_length_def inode_at_def tank_fields unat_of_nat32)
  show "\<forall>j < length t. file_byte tank k j = t ! j"
    using f nth_load_bytes [of _ "length t" tank_mem "0x503000 + 4096 * k"] by (simp add: file_byte_def tank_fields assms(4))
  have s: "span 0x500000 4096 \<subseteq> (span 0x500000 0x5000 :: u32 set)" by (rule span_mono) simp
  have i: "span (0x501000 + 4096 * k) 4096 \<subseteq> span 0x500000 0x5000" "span (0x503000 + 4096 * k) 4096 \<subseteq> span 0x500000 0x5000"
    using assms(1) span_sub [of "0x1000" 4096 "0x5000" "0x500000"] span_sub [of "0x2000" 4096 "0x5000" "0x500000"]
      span_sub [of "0x3000" 4096 "0x5000" "0x500000"] span_sub [of "0x4000" 4096 "0x5000" "0x500000"] by auto
  have "file_addr tank k j \<in> span (0x503000 + 4096 * k) 4096" if "j < length t" for j
    using f [OF that] that assms(5) span_add [of j 4096 "0x503000 + 4096 * k"] by simp
  then show "disk tank k (length t) \<subseteq> span 0x500000 0x5000"
    using s i by (auto simp: disk_def tank_fields inode_at_def)
qed

lemma tank_pictures:
  "picture_file (fish_writes demo_env tank_vars) tank 0x8140050 0 tank0" "picture_file (fish_writes demo_env tank_vars) tank 0x8140060 1 tank1"
proof -
  let ?W = "fish_writes demo_env tank_vars"
  have l: "length tank0 = 6" "length tank1 = 4" by (simp_all add: tank0_def tank1_def)
  note f0 = tank_file [of 0 tank0, simplified l] and f1 = tank_file [of 1 tank1, simplified l]
  have f0: "file_ok tank 0 6" "\<forall>j < 6. file_byte tank 0 j = tank0 ! j" "disk tank 0 6 \<subseteq> span 0x500000 0x5000"
    using f0 tank_numbers tank_data by simp_all
  have f1: "file_ok tank 1 4" "\<forall>j < 4. file_byte tank 1 j = tank1 ! j" "disk tank 1 4 \<subseteq> span 0x500000 0x5000"
    using f1 tank_numbers tank_data by simp_all
  have w: "?W \<inter> span 0x500000 0x5000 = {}" "?W \<inter> span 0x8140050 48 = {}" using tank_regions(1-3) by blast+
  have len: "Suc (length (bytes ''frame0.txt'')) = 11" "Suc (length (bytes ''frame1.txt'')) = 11" by simp_all
  have "span 0x8140050 11 \<subseteq> (span 0x8140050 48 :: u32 set)" "span 0x8140060 11 \<subseteq> (span 0x8140050 48 :: u32 set)"
    using span_sub [of 0 11 48 "0x8140050"] span_sub [of 16 11 48 "0x8140050"] by simp_all
  then have n: "span 0x8140050 (Suc (length (bytes ''frame0.txt''))) \<inter> ?W = {}" "span 0x8140060 (Suc (length (bytes ''frame1.txt''))) \<inter> ?W = {}"
    using w(2) unfolding len by blast+
  have d: "unat (num_dir_entries tank) \<le> 63" by (simp add: num_dir_entries_def tank_fields tank_numbers)
  note c = tank_strings(5,6) [folded tank_fields(1)]
  have a: "?W \<inter> disk tank 0 6 = {}" "?W \<inter> disk tank 1 4 = {}" using w(1) f0(3) f1(3) by blast+
  show "picture_file ?W tank 0x8140050 0 tank0" unfolding picture_file_def l using f0(1,2) c(1) n(1) a(1) d tank_find(2) by blast
  show "picture_file ?W tank 0x8140060 1 tank1" unfolding picture_file_def l using f1(1,2) c(2) n(2) a(2) d tank_find(3) by blast
qed

lemma tank_tables: "own_tables tank"
proof -
  have "page_directories tank = page_directories page_state0" "page_table_vidmap tank = page_table_vidmap page_state0" "page_table tank = page_table page_state0"
    "page_table_at tank = page_table_at page_state0" "page_table_vidmap_at tank = page_table_vidmap_at page_state0" "cr3 tank = 0"
    by (simp_all add: tank_def machine_def proc_state1_def sys_state1_def sys_state0_def page_state.defs sys_state.defs page_state0_def fs_state.defs)
  moreover have "program_id (pcbs tank ! the (current_pcb tank)) = 1"
    using machine_pcbs(3) [of "[]" "[]"] by (simp add: tank_def machine_fields) (simp add: fs_state0_def pcb0_def)
  ultimately show ?thesis using page_state0_ok by (simp add: own_tables_def tables_ok_def)
qed

lemma tank_lines: "text_lines tank0 = [bytes ''><>'', bytes '' o'']" "text_lines tank1 = [bytes '' ><>'']"
  by code_simp+

lemma tank_small:
  "small_picture 800 (text_lines tank0)" "small_picture 800 (text_lines tank1)" "small_picture 24 (text_lines tank0)" "small_picture 24 (text_lines tank1)"
  by (simp_all add: tank_lines small_picture_def)

lemma tank_ready: "fish_ready tank_lit demo_env tank_vars 2 0 tank0 1 tank1 tank"
proof -
  let ?W = "fish_writes demo_env tank_vars"
  have v: "file0_at tank_vars = 0x8140050" "file1_at tank_vars = 0x8140060" by (simp_all add: tank_vars_def)
  have e: "vmem_base_addr demo_env = 0x8120010" "mp1_list_head demo_env = 0x8120000" by (simp_all add: demo_env_def)
  have p: "own_page 0x8120010" by (simp add: own_page_def PAGE_VIRT_ADDR_def PAGE_SIZE_4MB_def)
  have pl: "Kud_Blink.placed demo_env VIDEO_MEM" using demo_placed by (simp add: VIDEO_MEM_def)
  have f: "free_from tank 2" using machine_fd(3) [of _ "[]" "[]"] by (simp add: free_from_def tank_def cur_fd_def null_fd_def)
  have "span 0x8140070 4 \<subseteq> (span 0x8140050 48 :: u32 set)" "span 0x500000 4096 \<subseteq> (span 0x500000 0x5000 :: u32 set)"
    using span_sub [of 32 4 48 "0x8140050"] span_mono [of 4096 "0x5000" "0x500000"] by simp_all
  then have "span 0x8140070 4 \<inter> ?W = {}" "span 0x500000 4096 \<inter> ?W = {}" using tank_regions(1-3) by blast+
  then have c: "clock_file ?W tank 0x8140070"
    using tank_strings(4) tank_find(1) by (simp add: clock_file_def tank_fields num_dir_entries_def tank_numbers)
  show ?thesis
    unfolding fish_ready_def v e tank_fields(1) using tank_fields(5) tank_tables p pl tank_numbers(11) tank_vars_ok f c tank_strings(5,6) tank_pictures tank_small by simp
qed

section \<open>Properties\<close>

text \<open>
  C13: the two pictures alternate. After add\_frames has read two pictures of at most 24 lines of
  80 characters, every place where one of them is not blank shows the first picture for 15 ticks
  of the clock, then the second one for 15 ticks, and so on; the lines are 80 places apart and
  start at place 40 of the screen. Every place that is blank in both stays as it was.
\<close>

theorem frames_alternate:
  assumes "frames_ready E p a b f0 f1 t0 t1 c pic s" and "garbage \<noteq> 0"
  shows "\<exists>s1 s2. add_frames (Suc q) E p a b f0 f1 s = Some (Returns 0 s1) \<and> fish_wait (Suc q) E (of_nat c) garbage n s1 = Returns 0 s2
    \<and> (\<forall>row < 24. \<forall>col < 80. picture VIDEO_MEM (mem s2) (row * 80 + col + 40) =
         (let x = cell (text_lines t0) row col; y = cell (text_lines t1) row col
          in if x = 32 \<and> y = 32 then pic (row * 80 + col + 40) else if n mod 30 < 15 then x else y))"
  using frames_shown [OF assms, of q n] by (simp add: two_pictures_def Let_def)

theorem frames_alternate_witness:
  "\<exists>(s :: sys_state) s1 s2. add_frames 1 demo_env 0x8140000 0x8140010 0x8140011 0x8140050 0x8140060 s = Some (Returns 0 s1)
     \<and> fish_wait 1 demo_env 2 0x8140040 50 s1 = Returns 0 s2
     \<and> picture VIDEO_MEM (mem s2) 40 = 32 \<and> picture VIDEO_MEM (mem s2) 41 = 62 \<and> picture VIDEO_MEM (mem s2) 44 = 0"
proof -
  have v: "frame_struct_at tank_vars = 0x8140000" "c0_at tank_vars = 0x8140010" "c1_at tank_vars = 0x8140011" "file0_at tank_vars = 0x8140050" "file1_at tank_vars = 0x8140060"
    by (simp_all add: tank_vars_def)
  obtain s :: sys_state where s: "user_ok s" "device demo_env s ([], picture VIDEO_MEM (mem tank))" "clock_fd s 2" "free_from s (Suc 2)"
      "picture_file (frame_writes demo_env 0x8140000 0x8140010 0x8140011) s 0x8140050 0 tank0"
      "picture_file (frame_writes demo_env 0x8140000 0x8140010 0x8140011) s 0x8140060 1 tank1"
    by (rule fish_opens [OF tank_ready, where q = 1, unfolded v]) blast
  have "frames_ready demo_env 0x8140000 0x8140010 0x8140011 0x8140050 0x8140060 tank0 tank1 2 (picture VIDEO_MEM (mem tank)) s"
    using s tank_vars_ok(1) tank_small(3,4) unfolding frames_ready_def v by auto
  from frames_alternate [OF this, of "0x8140040" 0 50] obtain s1 s2 where
    r: "add_frames 1 demo_env 0x8140000 0x8140010 0x8140011 0x8140050 0x8140060 s = Some (Returns 0 s1)" "fish_wait 1 demo_env 2 0x8140040 50 s1 = Returns 0 s2"
      "\<forall>row < 24. \<forall>col < 80. picture VIDEO_MEM (mem s2) (row * 80 + col + 40) =
         (let x = cell (text_lines tank0) row col; y = cell (text_lines tank1) row col
          in if x = 32 \<and> y = 32 then picture VIDEO_MEM (mem tank) (row * 80 + col + 40) else if 50 mod 30 < (15 :: nat) then x else y)" by auto
  have z: "picture VIDEO_MEM (mem tank) 44 = 0" by (simp add: picture_def tank_fields VIDEO_MEM_def) (simp add: tank_cells)
  have "picture VIDEO_MEM (mem s2) 40 = 32" using r(3) [rule_format, of 0 0] by (simp add: tank_lines cell_def visible_def bytes_def)
  moreover have "picture VIDEO_MEM (mem s2) 41 = 62" using r(3) [rule_format, of 0 1] by (simp add: tank_lines cell_def visible_def bytes_def)
  moreover have "picture VIDEO_MEM (mem s2) 44 = 0" using r(3) [rule_format, of 0 4] z by (simp add: tank_lines cell_def visible_def bytes_def)
  ultimately show ?thesis using r(1,2) by blast
qed

text \<open>
  C14: the fish program runs to its end. When its three files are there and the clock keeps
  ticking, main maps the screen, shows the two pictures for 200 ticks, adds a blinker at place
  540 for another 200, asks for it to be put in step with the one at place 40, removes the one
  at place 200 after 200 more, ends after a last 2000 ticks and returns 0. The blinkers in
  memory and the characters on the screen are then those of that sequence of requests and
  ticks.
\<close>

theorem fish_runs:
  assumes "fish_ready lit E v fd k0 t0 k1 t1 s"
  shows "\<exists>s'. fish_main (Suc q) lit E v s = Some (Returns 0 s')
    \<and> blinking (seen E s') VIDEO_MEM (mem s') (fst (fish_story t0 t1 (picture VIDEO_MEM (mem s)))) (snd (fish_story t0 t1 (picture VIDEO_MEM (mem s))))"
  using fish_main_shows [OF assms, of q] by (simp only: device_def)

theorem fish_runs_witness:
  "\<exists>s'. fish_main 1 tank_lit demo_env tank_vars tank = Some (Returns 0 s')
     \<and> picture VIDEO_MEM (mem s') = snd (fish_story tank0 tank1 (picture VIDEO_MEM tank_mem))"
  using fish_runs [OF tank_ready, of 0] by (auto simp: blinking_def tank_fields)

end
