(* ===== verification/Kud_Emulate.thy ===== *)
theory Kud_Emulate
  imports Kud_Grep
begin

text \<open>
  The layer \<^verbatim>\<open>src/syscalls/ece391emulate.c\<close>, with which the programs run on a Linux host: each
  call of the programs is made of calls of the host. The host is a parameter.
\<close>

section \<open>The host\<close>

text \<open>
  How a child process ends for its parent: with an exit status, by a signal, or, when execv
  returned, not before its next statement. The field \<open>run_child\<close> stands for fork, execv and wait,
  and \<open>readdir\<close> delivers the address of the name in the entry. Registers a system call does not
  use are 0.
\<close>

datatype child_end = Exits u8 | Dies nat | Execv_returned

record 'h linux =
  int80 :: "u32 \<Rightarrow> u32 \<Rightarrow> u32 \<Rightarrow> u32 \<Rightarrow> mem \<times> 'h \<Rightarrow> u32 \<times> mem \<times> 'h"
  libc_open :: "u32 \<Rightarrow> u32 \<Rightarrow> mem \<times> 'h \<Rightarrow> u32 \<times> mem \<times> 'h"
  libc_close :: "u32 \<Rightarrow> mem \<times> 'h \<Rightarrow> u32 \<times> mem \<times> 'h"
  opendir :: "u32 \<Rightarrow> mem \<times> 'h \<Rightarrow> u32 \<times> mem \<times> 'h"
  readdir :: "u32 \<Rightarrow> mem \<times> 'h \<Rightarrow> u32 \<times> mem \<times> 'h"
  closedir :: "u32 \<Rightarrow> mem \<times> 'h \<Rightarrow> u32 \<times> mem \<times> 'h"
  mmap_low :: "u32 \<Rightarrow> mem \<times> 'h \<Rightarrow> u32 \<times> mem \<times> 'h"
  perror :: "u32 \<Rightarrow> mem \<times> 'h \<Rightarrow> u32 \<times> mem \<times> 'h"
  run_child :: "u32 \<Rightarrow> u32 list \<Rightarrow> mem \<times> 'h \<Rightarrow> child_end \<times> 'h"

record 'h emu_state =
  emem :: mem
  start_esp :: u32
  dir_fd :: u32
  dir :: u32
  mem_fd :: u32
  world :: 'h

definition on_host :: "(mem \<times> 'h \<Rightarrow> u32 \<times> mem \<times> 'h) \<Rightarrow> 'h emu_state \<Rightarrow> u32 \<times> 'h emu_state" where
  "on_host f s = (case f (emem s, world s) of (r, m, h) \<Rightarrow> (r, s\<lparr>emem := m, world := h\<rparr>))"

definition do_call :: "'h linux \<Rightarrow> u32 \<Rightarrow> u32 \<Rightarrow> u32 \<Rightarrow> u32 \<Rightarrow> 'h emu_state \<Rightarrow> u32 \<times> 'h emu_state" where
  "do_call L number ebx ecx edx s =
     (let (eax, s) = on_host (int80 L number ebx ecx edx) s in (if eax \<le> 0xFFFFC000 then eax else minus_one, s))"

text \<open>The entry of a program: main, then the halt with its value.\<close>

definition emu_start :: "'h linux \<Rightarrow> u32 \<Rightarrow> ('h emu_state \<Rightarrow> u32 \<times> 'h emu_state) \<Rightarrow> 'h emu_state \<Rightarrow> u32 \<times> 'h emu_state" where
  "emu_start L stack main s = (let (eax, s) = main (s\<lparr>start_esp := stack\<rparr>) in do_call L 1 eax 0 0 s)"

section \<open>execute\<close>

partial_function (option) emu_word :: "mem \<Rightarrow> u32 \<Rightarrow> u32 option" where
  "emu_word m scan = (if 0 \<noteq> m scan \<and> 32 \<noteq> m scan \<and> 10 \<noteq> m scan then emu_word m (scan + 1) else Some scan)"

partial_function (option) emu_spaces :: "mem \<Rightarrow> u32 \<Rightarrow> u32 option" where
  "emu_spaces m scan = (if 32 = m scan then emu_spaces m (scan + 1) else Some scan)"

partial_function (option) emu_words :: "mem \<Rightarrow> u32 \<Rightarrow> u32 list \<Rightarrow> (u32 list \<times> mem) option" where
  "emu_words m scan args =
     Option.bind (emu_spaces m scan) (\<lambda>scan.
       if 0 = m scan \<or> 10 = m scan then Some (args, m(scan := 0))
       else let args = args @ [scan] in
            Option.bind (emu_word m scan) (\<lambda>scan.
              if 0 \<noteq> m scan then emu_words (m(scan := 0)) (scan + 1) args else emu_words m scan args))"

text \<open>A child whose execv returns kills itself with signal 9.\<close>

fun emu_status :: "child_end \<Rightarrow> u32" where
  "emu_status (Exits c) = ucast c"
| "emu_status (Dies sig) = (if sig = 9 then minus_one else 256)"
| "emu_status Execv_returned = minus_one"

definition emu_execute :: "'h linux \<Rightarrow> u32 \<Rightarrow> u32 \<Rightarrow> 'h emu_state \<Rightarrow> (u32 \<times> 'h emu_state) option" where
  "emu_execute L buf command s =
     Option.bind (ece391_strlen (emem s) command) (\<lambda>len.
       if 1023 < len then Some (minus_one, s)
       else Option.bind (ece391_strcpy ((emem s)(buf := 46, buf + 1 := 47)) (buf + 2) command) (\<lambda>m.
            Option.bind (emu_word m (buf + 2)) (\<lambda>scan.
            Option.bind (if 0 \<noteq> m scan then emu_words (m(scan := 0)) (scan + 1) [buf] else Some ([buf], m)) (\<lambda>(args, m).
              let (status, h) = run_child L buf args (m, world s)
              in Some (emu_status status, s\<lparr>emem := m, world := h\<rparr>)))))"

section \<open>Files\<close>

definition emu_open :: "'h linux \<Rightarrow> (string \<Rightarrow> u32) \<Rightarrow> u32 \<Rightarrow> 'h emu_state \<Rightarrow> (u32 \<times> 'h emu_state) option" where
  "emu_open L lit filename s =
     Option.bind (ece391_strcmp (emem s) filename (lit ''.'')) (\<lambda>cmp.
       if cmp = 0
       then let (d, s) = on_host (opendir L (lit ''.'')) s;
                s = s\<lparr>dir := d\<rparr>;
                (fd, s) = on_host (libc_open L (lit ''/dev/null'') 0) s;
                s = s\<lparr>dir_fd := fd\<rparr>
            in Some (dir_fd s, s)
       else let (rval, s) = on_host (int80 L 5 filename 0 0) s
            in Some (if rval > 0xFFFFC000 then minus_one else rval, s))"

partial_function (option) emu_copy :: "mem \<Rightarrow> u32 \<Rightarrow> u32 \<Rightarrow> int \<Rightarrow> int \<Rightarrow> (((u32 \<times> int) + int) \<times> mem) option" where
  "emu_copy m dst src taken nbytes =
     (if 0 \<noteq> m src
      then let m = m(dst := m src); taken = taken + 1
           in if taken = nbytes then Some (Inr nbytes, m)
              else if 32 = taken then Some (Inr 32, m)
              else emu_copy m (dst + 1) (src + 1) taken nbytes
      else Some (Inl (dst, taken), m))"

function emu_pad :: "mem \<Rightarrow> u32 \<Rightarrow> int \<Rightarrow> int \<Rightarrow> int \<times> mem" where
  "emu_pad m dst taken nbytes =
     (if nbytes > taken \<and> 32 > taken then emu_pad (m(dst := 0)) (dst + 1) (taken + 1) nbytes else (taken, m))"
  by pat_completeness auto
termination by (relation "measure (\<lambda>(m, dst, taken, nbytes). nat (32 - taken))") auto

declare emu_pad.simps [simp del]

definition emu_read :: "'h linux \<Rightarrow> u32 \<Rightarrow> u32 \<Rightarrow> u32 \<Rightarrow> 'h emu_state \<Rightarrow> (u32 \<times> 'h emu_state) option" where
  "emu_read L fd buf nbytes s =
     (if dir s = NULL32 \<or> dir_fd s \<noteq> fd then Some (do_call L 3 fd buf nbytes s)
      else let (de, s) = on_host (readdir L (dir s)) s
           in if de = NULL32 then Some (0, s)
              else Option.bind (emu_copy (emem s) buf de 0 (sint nbytes)) (\<lambda>(out, m).
                     case out of
                       Inr r \<Rightarrow> Some (of_int r, s\<lparr>emem := m\<rparr>)
                     | Inl (dst, taken) \<Rightarrow>
                         let (taken, m) = emu_pad m dst taken (sint nbytes) in Some (of_int taken, s\<lparr>emem := m\<rparr>)))"

definition emu_write :: "'h linux \<Rightarrow> u32 \<Rightarrow> u32 \<Rightarrow> u32 \<Rightarrow> 'h emu_state \<Rightarrow> u32 \<times> 'h emu_state" where
  "emu_write L fd buf nbytes s =
     (if dir s = NULL32 \<or> dir_fd s \<noteq> fd then do_call L 4 fd buf nbytes s else (minus_one, s))"

definition emu_close :: "'h linux \<Rightarrow> u32 \<Rightarrow> 'h emu_state \<Rightarrow> u32 \<times> 'h emu_state" where
  "emu_close L fd s =
     (if dir s = NULL32 \<or> dir_fd s \<noteq> fd then do_call L 6 fd 0 0 s
      else let (_, s) = on_host (closedir L (dir s)) s;
               s = s\<lparr>dir := NULL32\<rparr>;
               (_, s) = on_host (libc_close L (dir_fd s)) s;
               s = s\<lparr>dir_fd := minus_one\<rparr>
           in (0, s))"

section \<open>getargs and vidmap\<close>

partial_function (option) emu_getargs_loop :: "mem \<Rightarrow> int \<Rightarrow> u32 \<Rightarrow> u32 \<Rightarrow> int \<Rightarrow> int \<Rightarrow> ((u32 \<times> int) option \<times> mem) option" where
  "emu_getargs_loop m argc argv buf nbytes idx =
     (if idx < argc
      then Option.bind (ece391_strlen m (load32 m (argv + 4 * of_int idx))) (\<lambda>len.
             let len = sint len in
             if len > nbytes then Some (None, m)
             else Option.bind (ece391_strcpy m buf (load32 m (argv + 4 * of_int idx))) (\<lambda>m.
                    let buf = buf + of_int len; nbytes = nbytes - len; idx = idx + 1
                    in if idx \<ge> argc then Some (Some (buf, nbytes), m)
                       else if nbytes < 1 then Some (None, m)
                       else emu_getargs_loop (m(buf := 32)) argc argv (buf + 1) (nbytes - 1) idx))
      else Some (Some (buf, nbytes), m))"

definition emu_getargs :: "u32 \<Rightarrow> u32 \<Rightarrow> 'h emu_state \<Rightarrow> (u32 \<times> 'h emu_state) option" where
  "emu_getargs buf nbytes s =
     Option.bind (emu_getargs_loop (emem s) (sint (load32 (emem s) (start_esp s))) (start_esp s + 4) buf (sint nbytes) 1) (\<lambda>(out, m).
       let s = s\<lparr>emem := m\<rparr>
       in case out of
            None \<Rightarrow> Some (minus_one, s)
          | Some (buf, nbytes) \<Rightarrow>
              if nbytes < 1 then Some (minus_one, s) else Some (0, s\<lparr>emem := (emem s)(buf := 0)\<rparr>))"

definition emu_vidmap :: "'h linux \<Rightarrow> (string \<Rightarrow> u32) \<Rightarrow> u32 \<Rightarrow> 'h emu_state \<Rightarrow> u32 \<times> 'h emu_state" where
  "emu_vidmap L lit screen_start s =
     (let s = (if mem_fd s = minus_one
               then let (fd, s) = on_host (libc_open L (lit ''/dev/mem'') 2) s in s\<lparr>mem_fd := fd\<rparr>
               else s);
          (mem_image, s) = on_host (mmap_low L (mem_fd s)) s
      in if mem_image = minus_one
         then let (_, s) = on_host (perror L (lit ''mmap low memory'')) s in (minus_one, s)
         else (0, s\<lparr>emem := store32 (emem s) screen_start (mem_image + 0xB8000)\<rparr>))"
section \<open>The words of a command\<close>

definition letter :: "u8 \<Rightarrow> bool" where
  "letter c \<longleftrightarrow> c \<noteq> 32 \<and> c \<noteq> 10"

text \<open>
  Words are separated by spaces. A newline right behind a word separates it from the next one,
  a newline behind a space ends the command.
\<close>

function tokens :: "u8 list \<Rightarrow> u8 list list" where
  "tokens bs =
     (let r = dropWhile (\<lambda>c. c = 32) bs; w = takeWhile letter r
      in if w = [] then [] else w # tokens (drop (Suc (length w)) r))"
  by pat_completeness auto
termination
proof (relation "measure length", goal_cases)
  case (2 bs r w)
  have "r \<noteq> []" using 2(2,3) by (metis takeWhile.simps(1))
  moreover have "length r \<le> length bs" unfolding 2(1) by (rule length_dropWhile_le)
  ultimately have "length r - Suc (length w) < length bs" by (cases r) auto
  then show ?case by simp
qed simp

declare tokens.simps [simp del]

lemma emu_word_found: "cstring m scan bs \<Longrightarrow> emu_word m scan = Some (scan + of_nat (length (takeWhile letter bs)))"
proof (induction bs arbitrary: scan)
  case Nil
  then show ?case by (subst emu_word.simps) (simp add: cstring_Nil)
next
  case (Cons c bs)
  then show ?case by (subst emu_word.simps) (auto simp: cstring_Cons add.assoc letter_def [of c])
qed

lemma emu_spaces_found: "cstring m scan bs \<Longrightarrow> emu_spaces m scan = Some (scan + of_nat (length (takeWhile (\<lambda>c. c = 32) bs)))"
proof (induction bs arbitrary: scan)
  case Nil
  then show ?case by (subst emu_spaces.simps) (simp add: cstring_Nil)
next
  case (Cons c bs)
  then show ?case by (subst emu_spaces.simps) (auto simp: cstring_Cons add.assoc)
qed

lemma cstring_split:
  assumes "cstring m a (xs @ ys)"
  shows "cstring m (a + of_nat (length xs)) ys" "cstring (m(a + of_nat (length xs) := 0)) a xs" "ys = [] \<Longrightarrow> cstring m a xs"
    "ys \<noteq> [] \<Longrightarrow> m (a + of_nat (length xs)) = hd ys" "ys \<noteq> [] \<Longrightarrow> hd ys \<noteq> 0" "length (xs @ ys) < 4294967296"
proof -
  show "cstring m (a + of_nat (length xs)) ys" by (rule cstring_suffix [OF assms])
  show "ys = [] \<Longrightarrow> cstring m a xs" using assms by simp
  show "ys \<noteq> [] \<Longrightarrow> m (a + of_nat (length xs)) = hd ys" "ys \<noteq> [] \<Longrightarrow> hd ys \<noteq> 0" "length (xs @ ys) < 4294967296"
    using cstring_at [OF assms] assms by (cases ys; auto simp: cstring_def)+
  show "cstring (m(a + of_nat (length xs) := 0)) a xs"
  proof (rule cstringI)
    have len: "length xs < 4294967296" "0 \<notin> set xs" using assms by (auto simp: cstring_def)
    then show "length xs < 4294967296" "0 \<notin> set xs" .
    fix i assume i: "i < length xs"
    then have "(of_nat i :: u32) \<noteq> of_nat (length xs)" using len by (simp add: word_unat_eq_iff unat_of_nat32)
    then show "(m(a + of_nat (length xs) := 0)) (a + of_nat i) = xs ! i"
      using cstring_nth [OF assms, of i] i by (simp add: nth_append)
  qed simp
qed

lemma agree_upd: "x \<notin> A \<Longrightarrow> agree A (m(x := v)) m"
  by (auto simp: agree_def)

lemma word_cut:
  assumes "cstring m a (w @ t)" and "t \<noteq> []" and "length (w @ t) < 4294967295"
  defines "b \<equiv> a + of_nat (length w)"
  shows "m b \<noteq> 0" "cstring (m(b := 0)) (b + 1) (tl t)" "length (tl t) < length (w @ t)"
    "agree (- span (b + 1) (Suc (length (tl t)))) m' (m(b := 0)) \<Longrightarrow> cstring m' a w \<and> agree (- span a (Suc (length (w @ t)))) m' m"
proof -
  note c = cstring_split [OF assms(1), folded b_def]
  obtain x r where t: "t = x # r" using assms(2) by (cases t) auto
  have e: "b + 1 = a + of_nat (Suc (length w))" by (simp add: b_def)
  have d: "span a (Suc (length w)) \<inter> span (b + 1) (Suc (length r)) = {}" unfolding e using assms(3) t by (intro span_apart) simp_all
  have b: "b \<in> span a (Suc (length w))" unfolding b_def using assms(3) by (intro span_add) simp_all
  show "m b \<noteq> 0" using c(4,5) assms(2) by simp
  have "cstring m (b + 1) r" using c(1) unfolding t by (simp add: cstring_Cons)
  moreover have "agree (span (b + 1) (Suc (length r))) (m(b := 0)) m" using b d by (intro agree_upd) blast
  ultimately show "cstring (m(b := 0)) (b + 1) (tl t)" using cstring_agree by (simp add: t)
  show "length (tl t) < length (w @ t)" by (simp add: t)
  assume m': "agree (- span (b + 1) (Suc (length (tl t)))) m' (m(b := 0))"
  have "cstring m' a w" by (rule cstring_agree [OF c(2)], rule agree_sub [OF m']) (use d t in auto)
  moreover have "span (b + 1) (Suc (length r)) \<subseteq> span a (Suc (length (w @ t)))" unfolding e using assms(3) by (intro span_sub) (simp_all add: t)
  moreover have "b \<in> span a (Suc (length (w @ t)))" using b span_mono [of "Suc (length w)" "Suc (length (w @ t))" a] by auto
  ultimately show "cstring m' a w \<and> agree (- span a (Suc (length (w @ t)))) m' m"
    using agree_trans [OF agree_sub [OF m'] agree_upd] t by auto
qed

lemma emu_words_found:
  assumes "cstring m scan bs" and "length bs < 4294967295"
  shows "\<exists>ps m'. emu_words m scan args = Some (args @ ps, m') \<and> list_all2 (cstring m') ps (tokens bs) \<and> agree (- span scan (Suc (length bs))) m' m"
  using assms
proof (induction bs arbitrary: m scan args rule: length_induct)
  case (1 bs)
  let ?sp = "takeWhile (\<lambda>c. c = 32) bs" and ?r = "dropWhile (\<lambda>c. c = 32) bs"
  let ?w = "takeWhile letter ?r" and ?t = "dropWhile letter ?r"
  let ?a = "scan + of_nat (length ?sp)" let ?b = "?a + of_nat (length ?w)"
  have l: "length ?sp + length ?r = length bs" "length ?w + length ?t = length ?r" by (metis length_append takeWhile_dropWhile_id)+
  have r: "cstring m ?a ?r" using cstring_split(1) [of m scan ?sp ?r] 1(2) by simp
  then have wt: "cstring m ?a (?w @ ?t)" by simp
  note sp = emu_spaces_found [OF 1(2)] and wd = emu_word_found [OF r] and c = cstring_split [OF wt]
  have start: "m ?a = 0 \<or> m ?a = 10 \<longleftrightarrow> ?w = []"
  proof (cases ?r)
    case Nil
    then show ?thesis using r unfolding Nil by (simp add: cstring_Nil)
  next
    case (Cons x xs)
    then have "x \<noteq> 32" using hd_dropWhile [of "\<lambda>c. c = 32" bs] by auto
    then show ?thesis using r Cons by (auto simp: cstring_Cons letter_def)
  qed
  have inside: "?a \<in> span scan (Suc (length bs))" by (rule span_add) (use l 1(3) in linarith)+
  show ?case
  proof (cases "?w = []")
    case True
    then have "emu_words m scan args = Some (args @ [], m(?a := 0))" using sp start by (subst emu_words.simps) auto
    moreover have "tokens bs = []" using True by (subst tokens.simps) simp
    moreover have "agree (- span scan (Suc (length bs))) (m(?a := 0)) m" using inside by (intro agree_upd) blast
    ultimately show ?thesis by fastforce
  next
    case False
    have tk: "tokens bs = ?w # tokens (tl ?t)"
    proof -
      have "drop (Suc (length ?w)) ?r = tl ?t" by (metis drop_Suc dropWhile_eq_drop tl_drop)
      then show ?thesis using False by (subst tokens.simps) (simp add: Let_def)
    qed
    show ?thesis
    proof (cases "?t = []")
      case t: True
      have z: "m ?b = 0" using c(1) unfolding t by (simp add: cstring_Nil)
      then have "emu_words m ?b (args @ [?a]) = Some (args @ [?a], m)"
        by (subst emu_words.simps, subst emu_spaces.simps) (simp add: fun_upd_idem)
      then have "emu_words m scan args = Some (args @ [?a], m)" using False start sp wd z by (subst emu_words.simps) auto
      moreover have "tokens bs = [?w]" unfolding tk t by (subst tokens.simps) simp
      ultimately show ?thesis using c(3) [OF t] by (intro exI [of _ "[?a]"] exI [of _ m]) (simp add: agree_def)
    next
      case t: False
      have "length (?w @ ?t) < 4294967295" using l 1(3) by simp
      note k = word_cut [OF wt t this]
      have "length (tl ?t) < length bs" using k(3) l by simp
      then obtain ps m' where p: "emu_words (m(?b := 0)) (?b + 1) (args @ [?a]) = Some ((args @ [?a]) @ ps, m')"
          "list_all2 (cstring m') ps (tokens (tl ?t))" "agree (- span (?b + 1) (Suc (length (tl ?t)))) m' (m(?b := 0))"
        using 1(1) [rule_format, of "tl ?t" "m(?b := 0)" "?b + 1" "args @ [?a]"] k(2) 1(3) less_trans by blast
      note cut = k(4) [OF p(3)]
      have "emu_words m scan args = Some (args @ ?a # ps, m')" using False start sp wd k(1) p(1) by (subst emu_words.simps) auto
      moreover have "span ?a (Suc (length (?w @ ?t))) \<subseteq> span scan (Suc (length bs))" by (rule span_sub) (use l 1(3) in simp_all)
      then have "agree (- span scan (Suc (length bs))) m' m" using agree_sub [OF conjunct2 [OF cut]] by blast
      ultimately show ?thesis using p(2) tk cut by (intro exI [of _ "?a # ps"] exI [of _ m']) simp
    qed
  qed
qed

text \<open>Copying a string.\<close>

lemma ece391_strcpy_stored:
  assumes "cstring m src xs" and "span dst (Suc (length xs)) \<inter> span src (Suc (length xs)) = {}" and "length xs < 4294967295"
  shows "ece391_strcpy m dst src = Some (store_bytes m dst (xs @ [0]))"
proof -
  have "dst \<in> span dst (Suc (length xs))" by (simp add: span_def)
  then have "dst \<notin> span src (Suc (length xs))" using assms(2) by blast
  then have ok: "forward_ok dst src (Suc (length xs))" by (simp add: forward_ok_def span_def)
  have "m (src + of_nat i) = (xs @ [0]) ! i" if "i < Suc (length xs)" for i
    using that cstring_nth [OF assms(1), of i] cstring_end [OF assms(1)] by (cases "i = length xs") (auto simp: nth_append)
  from this [of "unat (a - dst)" for a] have "m (src + (a - dst)) = (xs @ [0]) ! unat (a - dst)" if "unat (a - dst) < Suc (length xs)" for a using that by simp
  then have "copied m dst src (Suc (length xs)) = store_bytes m dst (xs @ [0])"
    using assms(3) by (subst store_bytes_filled) (auto simp: copied_filled filled_def intro!: ext)
  then show ?thesis using strcpy_loop_copied [of m src 0 xs dst] strcpy_eq [of m dst 0 src] assms(1,3) ok by simp
qed

text \<open>
  The command \<open>cmd\<close> becomes the path \<open>./name\<close> and the words behind the name, in a copy of the
  command.
\<close>

lemma emu_execute_passes:
  assumes "cstring (emem s) command cmd" and "length cmd \<le> 1023" and "span buf 1026 \<inter> span command (Suc (length cmd)) = {}"
  shows "\<exists>ps m. emu_execute L buf command s =
      (let (status, h) = run_child L buf (buf # ps) (m, world s) in Some (emu_status status, s\<lparr>emem := m, world := h\<rparr>))
    \<and> cstring m buf (bytes ''./'' @ takeWhile letter cmd)
    \<and> list_all2 (cstring m) ps (tokens (drop (Suc (length (takeWhile letter cmd))) cmd)) \<and> agree (- span buf 1026) m (emem s)"
proof -
  let ?w = "takeWhile letter cmd" and ?t = "dropWhile letter cmd" and ?b = "buf + 2 + of_nat (length (takeWhile letter cmd))"
  define n where "n = (emem s)(buf := 46, buf + 1 := 47)"
  define m where "m = store_bytes n (buf + 2) (cmd @ [0])"
  have len: "ece391_strlen (emem s) command = Some (of_nat (length cmd))" using strlen_cstring [OF assms(1)] strlen_eq by simp
  have small: "\<not> 1023 < (of_nat (length cmd) :: u32)" using assms(2) by (simp add: word_less_nat_alt unat_of_nat32)
  have in_buf: "buf \<in> span buf 1026" "buf + 1 \<in> span buf 1026" by (simp_all add: span_def)
  have "buf \<notin> span command (Suc (length cmd))" "buf + 1 \<notin> span command (Suc (length cmd))" using in_buf assms(3) by blast+
  then have "agree (span command (Suc (length cmd))) n (emem s)" unfolding n_def by (intro agree_trans [OF agree_upd agree_upd])
  then have src: "cstring n command cmd" by (rule cstring_agree [OF assms(1)])
  have sub: "span (buf + 2) (Suc (length cmd)) \<subseteq> span buf 1026" using span_sub [of 2 "Suc (length cmd)" 1026 buf] assms(2) by simp
  have cp: "ece391_strcpy n (buf + 2) command = Some m" unfolding m_def using ece391_strcpy_stored [OF src, of "buf + 2"] sub assms(2,3) by auto
  have cs: "cstring m (buf + 2) cmd" unfolding m_def using cstring_store [of cmd n "buf + 2"] assms(1,2) by (simp add: cstring_def)
  have outside: "agree (- span (buf + 2) (Suc (length cmd))) m n" unfolding m_def by (rule agree_store) (use assms(2) in auto)
  have all: "agree (- span buf 1026) m (emem s)"
    by (rule agree_trans [OF agree_sub [OF outside]], use sub in blast) (unfold n_def, intro agree_trans [OF agree_upd agree_upd], use in_buf in auto)
  have two: "buf \<notin> span (buf + 2) (Suc (length cmd))" "buf + 1 \<notin> span (buf + 2) (Suc (length cmd))"
    using span_apart [of 2 2 "Suc (length cmd)" buf] span_add [of 0 2 buf] span_add [of 1 2 buf] assms(2) by auto
  have path: "m buf = 46" "m (buf + 1) = 47" using two agreeD [OF outside, of buf] agreeD [OF outside, of "buf + 1"] by (simp_all add: n_def)
  have path_at: "cstring k buf (bytes ''./'' @ ?w)" if "k buf = 46" "k (buf + 1) = 47" "cstring k (buf + 2) ?w" for k
    using that assms(2) length_takeWhile_le [of letter cmd] by (simp add: bytes_def cstring_Cons add.assoc)
  have wd: "emu_word m (buf + 2) = Some ?b" by (rule emu_word_found [OF cs])
  show ?thesis
  proof (cases "?t = []")
    case True
    then have w: "?w = cmd" by (metis append_Nil2 takeWhile_dropWhile_id)
    have "m ?b = 0" using cstring_end [OF cs] unfolding w .
    then have "emu_execute L buf command s =
        (let (status, h) = run_child L buf [buf] (m, world s) in Some (emu_status status, s\<lparr>emem := m, world := h\<rparr>))"
      using len small cp wd by (simp add: emu_execute_def n_def)
    moreover have "tokens (drop (Suc (length cmd)) cmd) = []" by (subst tokens.simps) simp
    ultimately show ?thesis using path_at [OF path] cs all unfolding w by (intro exI [of _ "[]"] exI [of _ m]) simp
  next
    case False
    have wt: "cstring m (buf + 2) (?w @ ?t)" "length (?w @ ?t) < 4294967295" using cs assms(2) by simp_all
    note k = word_cut [OF wt(1) False wt(2)]
    obtain ps m' where p: "emu_words (m(?b := 0)) (?b + 1) [buf] = Some ([buf] @ ps, m')" "list_all2 (cstring m') ps (tokens (tl ?t))"
        "agree (- span (?b + 1) (Suc (length (tl ?t)))) m' (m(?b := 0))"
      using emu_words_found [OF k(2), of "[buf]"] k(3) assms(2) by auto
    note cut = k(4) [OF p(3)]
    have "emu_execute L buf command s =
        (let (status, h) = run_child L buf (buf # ps) (m', world s) in Some (emu_status status, s\<lparr>emem := m', world := h\<rparr>))"
      using len small cp wd k(1) p(1) by (simp add: emu_execute_def n_def)
    moreover have "m' buf = 46" "m' (buf + 1) = 47" using agreeD [OF conjunct2 [OF cut]] two path by simp_all
    then have "cstring m' buf (bytes ''./'' @ ?w)" using path_at cut by blast
    moreover have "drop (Suc (length ?w)) cmd = tl ?t" by (metis drop_Suc dropWhile_eq_drop tl_drop)
    moreover have "agree (- span buf 1026) m' (emem s)" by (rule agree_trans [OF agree_sub [OF conjunct2 [OF cut]] all]) (use sub in simp)
    ultimately show ?thesis using p(2) by (intro exI [of _ ps] exI [of _ m']) simp
  qed
qed

section \<open>Reading a directory\<close>

lemma emu_copy_found:
  assumes "cstring m src xs" and "k < 32" and "k < n" and "span dst (min n 32 - k) \<inter> span src (Suc (length xs)) = {}"
  shows "emu_copy m dst src (int k) (int n) =
    Some (if min n 32 - k \<le> length xs then Inr (int (min n 32)) else Inl (dst + of_nat (length xs), int (k + length xs)),
          store_bytes m dst (take (min n 32 - k) xs))"
  using assms
proof (induction xs arbitrary: m dst src k)
  case Nil
  then show ?case by (subst emu_copy.simps) (simp add: cstring_Nil)
next
  case (Cons x xs)
  let ?j = "min n 32 - k" and ?m = "m(dst := x)"
  have x: "m src = x" "x \<noteq> 0" "cstring m (src + 1) xs" "Suc (length xs) < 4294967296" using Cons.prems(1) by (simp_all add: cstring_Cons)
  have j: "?j = Suc (min n 32 - Suc k)" using Cons.prems(2,3) by simp
  show ?case
  proof (cases "Suc k < 32 \<and> Suc k < n")
    case False
    then have "?j = 1" "min n 32 = Suc k" using Cons.prems(2,3) by auto
    moreover have "int n = int k + 1 \<or> int k + 1 = 32" using False Cons.prems(2,3) by linarith
    ultimately show ?thesis using x by (subst emu_copy.simps) (auto simp: Let_def min_def split: if_splits)
  next
    case True
    have sub: "span (dst + 1) (min n 32 - Suc k) \<subseteq> span dst ?j" "span (src + 1) (Suc (length xs)) \<subseteq> span src (Suc (length (x # xs)))"
      using span_sub [of 1 "min n 32 - Suc k" ?j dst] span_sub [of 1 "Suc (length xs)" "Suc (length (x # xs))" src] j x(4) by simp_all
    have "dst \<in> span dst ?j" using j by (simp add: span_def)
    then have "agree (span (src + 1) (Suc (length xs))) ?m m" using Cons.prems(4) sub(2) by (intro agree_upd) blast
    then have c: "cstring ?m (src + 1) xs" by (rule cstring_agree [OF x(3)])
    have d: "span (dst + 1) (min n 32 - Suc k) \<inter> span (src + 1) (Suc (length xs)) = {}" using Cons.prems(4) sub by blast
    have IH: "emu_copy ?m (dst + 1) (src + 1) (int (Suc k)) (int n) =
        Some (if min n 32 - Suc k \<le> length xs then Inr (int (min n 32)) else Inl (dst + 1 + of_nat (length xs), int (Suc k + length xs)),
              store_bytes ?m (dst + 1) (take (min n 32 - Suc k) xs))"
      by (rule Cons.IH [OF c _ _ d]) (use True in auto)
    have "int k + 1 \<noteq> int n" "int k + 1 \<noteq> 32" using True by linarith+
    then show ?thesis using x(1,2) IH j by (subst emu_copy.simps) (simp add: Let_def add.assoc add.commute)
  qed
qed

lemma emu_pad_filled: "emu_pad m dst (int k) (int n) = (int (max k (min n 32)), store_bytes m dst (replicate (min n 32 - k) 0))"
proof (induction "min n 32 - k" arbitrary: m dst k)
  case 0
  then show ?case by (subst emu_pad.simps) auto
next
  case (Suc j)
  then have k: "k < n" "k < 32" "min n 32 - k = Suc (min n 32 - Suc k)" "j = min n 32 - Suc k" by auto
  then show ?case using Suc.hyps(1) [OF k(4), of "m(dst := 0)" "dst + 1"] by (subst emu_pad.simps) (simp add: add.commute)
qed

lemma emu_read_found:
  assumes "dir s \<noteq> 0" and "dir_fd s = fd" and "readdir L (dir s) (emem s, world s) = (de, m, h)" and "de \<noteq> 0" and "cstring m de xs"
    and "0 < sint nbytes" and "span buf (min (nat (sint nbytes)) 32) \<inter> span de (Suc (length xs)) = {}"
  shows "emu_read L fd buf nbytes s = Some (of_nat (min (nat (sint nbytes)) 32),
    s\<lparr>emem := store_bytes m buf (take (min (nat (sint nbytes)) 32) (xs @ replicate 32 0)), world := h\<rparr>)"
proof -
  define n where "n = nat (sint nbytes)"
  have n: "sint nbytes = int n" "0 < n" using assms(6) by (simp_all add: n_def)
  note c = emu_copy_found [OF assms(5), of 0 n buf]
  have c: "emu_copy m buf de 0 (int n) = Some (if min n 32 \<le> length xs then Inr (int (min n 32)) else Inl (buf + of_nat (length xs), int (length xs)),
      store_bytes m buf (take (min n 32) xs))" using c n(2) assms(7) by (simp add: n_def)
  show ?thesis
  proof (cases "min n 32 \<le> length xs")
    case True
    then show ?thesis using assms(1-4) c n(1) unfolding emu_read_def on_host_def n_def [symmetric] by simp
  next
    case False
    then have "store_bytes (store_bytes m buf (take (min n 32) xs)) (buf + of_nat (length xs)) (replicate (min n 32 - length xs) 0)
        = store_bytes m buf (take (min n 32) (xs @ replicate 32 0))"
      by (auto simp: store_bytes_append [symmetric] min_def)
    moreover have "max (length xs) (min n 32) = min n 32" using False by simp
    ultimately show ?thesis using False assms(1-4) c n(1) emu_pad_filled [of _ "buf + of_nat (length xs)" "length xs" n]
      unfolding emu_read_def on_host_def n_def [symmetric] by simp
  qed
qed

section \<open>The arguments of a program\<close>

fun joined :: "u8 list list \<Rightarrow> u8 list" where
  "joined [] = []"
| "joined [w] = w"
| "joined (w # v # ws) = w @ 32 # joined (v # ws)"

lemma load_bytes_put_last:
  assumes "n < 4294967296"
  shows "load_bytes (m(a + of_nat n := v)) a (Suc n) = load_bytes m a n @ [v]"
proof -
  have "(of_nat i :: u32) \<noteq> of_nat n" if "i < n" for i using that assms by (simp add: word_unat_eq_iff unat_of_nat32)
  then have "load_bytes (m(a + of_nat n := v)) a n = load_bytes m a n" by (intro load_bytes_cong) simp
  then show ?thesis using load_bytes_append [of "m(a + of_nat n := v)" a n 1] load_bytes_Suc [of _ "a + of_nat n" 0] by simp
qed

text \<open>The strings \<open>ws\<close> are those of the pointers from index \<open>i\<close> on, in the memory \<open>A\<close>.\<close>

definition args_at :: "u32 set \<Rightarrow> mem \<Rightarrow> u32 \<Rightarrow> nat \<Rightarrow> u8 list list \<Rightarrow> bool" where
  "args_at A m argv i ws \<longleftrightarrow> (\<forall>j < length ws. length (ws ! j) < 2147483648 \<and> span (argv + 4 * of_nat (i + j)) 4 \<subseteq> A
     \<and> cstring m (load32 m (argv + 4 * of_nat (i + j))) (ws ! j) \<and> span (load32 m (argv + 4 * of_nat (i + j))) (Suc (length (ws ! j))) \<subseteq> A)"

lemma args_at_agree:
  assumes "args_at A m argv i ws" and "agree A m' m"
  shows "args_at A m' argv i ws"
  unfolding args_at_def
proof (intro allI impI)
  fix j assume "j < length ws"
  note j = assms(1) [unfolded args_at_def, rule_format, OF this]
  have "load32 m' (argv + 4 * of_nat (i + j)) = load32 m (argv + 4 * of_nat (i + j))" by (rule load32_agree_span, rule agree_sub [OF assms(2)]) (use j in blast)
  moreover have "cstring m' (load32 m (argv + 4 * of_nat (i + j))) (ws ! j)"
    by (rule cstring_agree [of m]) (use j in blast, rule agree_sub [OF assms(2)], use j in blast)
  ultimately show "length (ws ! j) < 2147483648 \<and> span (argv + 4 * of_nat (i + j)) 4 \<subseteq> A \<and> cstring m' (load32 m' (argv + 4 * of_nat (i + j))) (ws ! j)
      \<and> span (load32 m' (argv + 4 * of_nat (i + j))) (Suc (length (ws ! j))) \<subseteq> A" using j by simp
qed

lemma args_at_Cons:
  assumes "args_at A m argv i (w # ws)"
  shows "args_at A m argv (Suc i) ws" "cstring m (load32 m (argv + 4 * of_nat i)) w" "span (load32 m (argv + 4 * of_nat i)) (Suc (length w)) \<subseteq> A" "length w < 2147483648"
proof -
  note a = assms [unfolded args_at_def, rule_format]
  show "cstring m (load32 m (argv + 4 * of_nat i)) w" "span (load32 m (argv + 4 * of_nat i)) (Suc (length w)) \<subseteq> A" "length w < 2147483648" using a [of 0] by simp_all
  show "args_at A m argv (Suc i) ws" unfolding args_at_def
  proof (intro allI impI)
    fix j assume "j < length ws"
    then show "length (ws ! j) < 2147483648 \<and> span (argv + 4 * of_nat (Suc i + j)) 4 \<subseteq> A \<and> cstring m (load32 m (argv + 4 * of_nat (Suc i + j))) (ws ! j)
      \<and> span (load32 m (argv + 4 * of_nat (Suc i + j))) (Suc (length (ws ! j))) \<subseteq> A" using a [of "Suc j"] by simp
  qed
qed

lemma getargs_step:
  assumes "args_at A m argv i (w # ws)" and "A \<inter> span buf (Suc n) = {}" and "n < 2147483648"
  shows "ece391_strlen m (load32 m (argv + 4 * of_nat i)) = Some (of_nat (length w))" "sint (of_nat (length w) :: u32) = int (length w)"
    "length w \<le> n \<Longrightarrow> ece391_strcpy m buf (load32 m (argv + 4 * of_nat i)) = Some (store_bytes m buf (w @ [0]))"
    "length w \<le> n \<Longrightarrow> load_bytes (store_bytes m buf (w @ [0])) buf (length w) = w"
    "length w \<le> n \<Longrightarrow> agree (- span buf (Suc n)) (store_bytes m buf (w @ [0])) m"
proof -
  note a = args_at_Cons [OF assms(1)]
  show "ece391_strlen m (load32 m (argv + 4 * of_nat i)) = Some (of_nat (length w))" using strlen_cstring [OF a(2)] strlen_eq by simp
  show "sint (of_nat (length w) :: u32) = int (length w)" using a(4) by (rule sint_of_nat32)
  assume "length w \<le> n"
  then have sub: "span buf (Suc (length w)) \<subseteq> span buf (Suc n)" by (intro span_mono) simp
  show "ece391_strcpy m buf (load32 m (argv + 4 * of_nat i)) = Some (store_bytes m buf (w @ [0]))"
    by (rule ece391_strcpy_stored [OF a(2)]) (use sub a(3,4) assms(2) in auto)
  have "cstring (store_bytes m buf (w @ [0])) buf w" using a(2,4) by (intro cstring_store) (simp_all add: cstring_def)
  then show "load_bytes (store_bytes m buf (w @ [0])) buf (length w) = w" by (simp add: cstring_def)
  show "agree (- span buf (Suc n)) (store_bytes m buf (w @ [0])) m" by (rule agree_store) (use sub a(4) in auto)
qed

lemma emu_getargs_loop_joins:
  assumes "args_at A m argv i ws" and "ws \<noteq> []" and "A \<inter> span buf (Suc n) = {}" and "n < 2147483648"
  shows "\<exists>m'. emu_getargs_loop m (int (i + length ws)) argv buf (int n) (int i)
      = Some (if length (joined ws) \<le> n then Some (buf + of_nat (length (joined ws)), int (n - length (joined ws))) else None, m')
    \<and> agree (- span buf (Suc n)) m' m \<and> (length (joined ws) \<le> n \<longrightarrow> load_bytes m' buf (length (joined ws)) = joined ws)"
  using assms
proof (induction ws arbitrary: m i buf n rule: joined.induct)
  case (2 w)
  note g = getargs_step [OF 2(1,3,4)]
  show ?case
  proof (cases "length w \<le> n")
    case True
    then show ?thesis using g by (intro exI [of _ "store_bytes m buf (w @ [0])"]) (subst emu_getargs_loop.simps, simp)
  next
    case False
    then show ?thesis using g(1,2) by (subst emu_getargs_loop.simps) (auto simp: agree_def)
  qed
next
  case (3 w v ws)
  note g = getargs_step [OF 3(2,4,5)]
  let ?m = "store_bytes m buf (w @ [0])" and ?b = "buf + of_nat (length w)" and ?r = "joined (v # ws)"
  consider "n < length w" | "length w = n" | "length w < n" by linarith
  then show ?case
  proof cases
    case 1
    then show ?thesis using g(1,2) by (subst emu_getargs_loop.simps) (auto simp: agree_def)
  next
    case 2
    then show ?thesis using g by (intro exI [of _ ?m]) (subst emu_getargs_loop.simps, simp)
  next
    case w: 3
    define k where "k = ?m(?b := 32)"
    obtain j where j: "n = Suc (length w + j)" using less_imp_Suc_add [OF w] by blast
    have b: "?b \<in> span buf (Suc n)" using w 3(5) by (intro span_add) simp_all
    have e: "?b + 1 = buf + of_nat (Suc (length w))" by simp
    have sub: "span (?b + 1) (Suc j) \<subseteq> span buf (Suc n)" unfolding e using j 3(5) by (intro span_sub) simp_all
    have ag: "agree (- span buf (Suc n)) k m" unfolding k_def using agree_trans [OF agree_upd g(5)] b w by simp
    have "agree A k m" by (rule agree_sub [OF ag]) (use 3(4) in blast)
    then have "args_at A k argv (Suc i) (v # ws)" by (rule args_at_agree [OF args_at_Cons(1) [OF 3(2)]])
    moreover have "A \<inter> span (?b + 1) (Suc j) = {}" "j < 2147483648" using 3(4,5) sub j by auto
    ultimately obtain m' where m': "emu_getargs_loop k (int (Suc i + length (v # ws))) argv (?b + 1) (int j) (int (Suc i))
          = Some (if length ?r \<le> j then Some (?b + 1 + of_nat (length ?r), int (j - length ?r)) else None, m')"
        "agree (- span (?b + 1) (Suc j)) m' k" "length ?r \<le> j \<longrightarrow> load_bytes m' (?b + 1) (length ?r) = ?r"
      using 3(1) [of k "Suc i" "?b + 1" j] by blast
    have "int i < int (i + length (w # v # ws))" "\<not> int n < int (length w)" "\<not> int (i + length (w # v # ws)) \<le> int i + 1"
        "\<not> int n - int (length w) < 1" "int n - int (length w) - 1 = int j" "int i + 1 = int (Suc i)" "int (i + length (w # v # ws)) = int (Suc i + length (v # ws))"
      using j by simp_all
    then have step: "emu_getargs_loop m (int (i + length (w # v # ws))) argv buf (int n) (int i)
        = emu_getargs_loop k (int (Suc i + length (v # ws))) argv (?b + 1) (int j) (int (Suc i))"
      using g(1,2) g(3) w unfolding emu_getargs_loop.simps [of m] by (simp add: k_def [symmetric] Let_def add.commute)
    have "load_bytes m' buf (Suc (length w)) = w @ [32]"
    proof -
      have "span buf (Suc (length w)) \<inter> span (?b + 1) (Suc j) = {}" unfolding e using 3(5) j by (intro span_apart) simp_all
      then have "m' (buf + of_nat a) = k (buf + of_nat a)" if "a < Suc (length w)" for a
        using that agreeD [OF m'(2), of "buf + of_nat a"] span_add [of a "Suc (length w)" buf] 3(5) j by auto
      then have "load_bytes m' buf (Suc (length w)) = load_bytes k buf (Suc (length w))" by (intro load_bytes_cong)
      then show ?thesis unfolding k_def using g(4) w load_bytes_put_last [of "length w" ?m buf 32] 3(5) j by simp
    qed
    then have "load_bytes m' buf (length (joined (w # v # ws))) = joined (w # v # ws)" if "length ?r \<le> j"
      using that m'(3) load_bytes_append [of m' buf "Suc (length w)" "length ?r"] by (simp add: e)
    moreover have "agree (- span buf (Suc n)) m' m" by (rule agree_trans [OF agree_sub [OF m'(2)] ag]) (use sub in blast)
    ultimately show ?thesis using m'(1) unfolding step by (intro exI [of _ m']) (auto simp: j add.assoc)
  qed
qed simp

lemma emu_getargs_joins:
  assumes "args_at A (emem s) (start_esp s + 4) 1 ws" and "load32 (emem s) (start_esp s) = of_nat (Suc (length ws))" and "length ws < 2147483647"
    and "A \<inter> span buf (Suc n) = {}" and "n < 2147483648"
  shows "\<exists>m. emu_getargs buf (of_nat n) s = Some (if length (joined ws) < n then 0 else minus_one, s\<lparr>emem := m\<rparr>)
    \<and> agree (- span buf (Suc n)) m (emem s) \<and> (length (joined ws) < n \<longrightarrow> load_bytes m buf (Suc (length (joined ws))) = joined ws @ [0])"
proof -
  let ?l = "length (joined ws)"
  have c: "sint (load32 (emem s) (start_esp s)) = int (1 + length ws)" "sint (of_nat n :: u32) = int n"
    using assms(2,3,5) sint_of_nat32 [of "Suc (length ws)"] sint_of_nat32 [of n] by simp_all
  obtain m where m: "emu_getargs_loop (emem s) (int (1 + length ws)) (start_esp s + 4) buf (int n) 1
      = Some (if ?l \<le> n then Some (buf + of_nat ?l, int (n - ?l)) else None, m)" "agree (- span buf (Suc n)) m (emem s)"
      "?l \<le> n \<longrightarrow> load_bytes m buf ?l = joined ws"
  proof (cases "ws = []")
    case True
    have "emu_getargs_loop (emem s) (int (1 + length ws)) (start_esp s + 4) buf (int n) 1 = Some (Some (buf, int n), emem s)"
      unfolding True by (subst emu_getargs_loop.simps) simp
    then show thesis using True by (intro that [of "emem s"]) (simp_all add: agree_def)
  next
    case False
    show thesis using emu_getargs_loop_joins [OF assms(1) False assms(4,5)] that by auto
  qed
  show ?thesis
  proof (cases "?l < n")
    case True
    let ?b = "buf + of_nat ?l"
    have "?b \<in> span buf (Suc n)" using True assms(5) by (intro span_add) simp_all
    then have "agree (- span buf (Suc n)) (m(?b := 0)) (emem s)" by (intro agree_trans [OF agree_upd m(2)]) simp
    moreover have "load_bytes (m(?b := 0)) buf (Suc ?l) = joined ws @ [0]"
      using m(3) True load_bytes_put_last [of ?l m buf 0] assms(5) by simp
    ultimately show ?thesis using m(1) True c by (intro exI [of _ "m(?b := 0)"]) (simp add: emu_getargs_def Let_def)
  next
    case False
    then show ?thesis using m(1,2) c by (intro exI [of _ m]) (auto simp: emu_getargs_def Let_def)
  qed
qed

lemma dropWhile_letter: "w \<noteq> [] \<Longrightarrow> \<forall>c \<in> set w. letter c \<Longrightarrow> dropWhile (\<lambda>c. c = 32) (w @ r) = w @ r"
  by (cases w) (auto simp: letter_def)

lemma tokens_joined:
  assumes "\<forall>w \<in> set ws. w \<noteq> [] \<and> (\<forall>c \<in> set w. letter c)"
  shows "tokens (joined ws) = ws"
  using assms
proof (induction ws rule: joined.induct)
  case 1
  then show ?case by (subst tokens.simps) simp
next
  case (2 w)
  then have "dropWhile (\<lambda>c. c = 32) w = w" "takeWhile letter w = w" using dropWhile_letter [of w "[]"] by simp_all
  moreover have "tokens [] = []" by (subst tokens.simps) simp
  ultimately show ?case using 2 by (subst tokens.simps) (simp add: Let_def del: takeWhile_eq_all_conv)
next
  case (3 w v ws)
  have "takeWhile letter (w @ 32 # r) = w" for r using 3(2) by (simp add: takeWhile_append2 letter_def [of 32])
  moreover have "dropWhile (\<lambda>c. c = 32) (w @ 32 # r) = w @ 32 # r" for r using 3(2) by (intro dropWhile_letter) simp_all
  ultimately show ?case using 3 by (subst tokens.simps) (simp add: Let_def)
qed

lemma set_joined: "set (joined ws) \<subseteq> insert 32 (\<Union> (set ` set ws))"
  by (induction ws rule: joined.induct) auto

lemma args_at_plain: "args_at A m argv i ws \<Longrightarrow> w \<in> set ws \<Longrightarrow> 0 \<notin> set w"
  unfolding args_at_def cstring_def by (metis in_set_conv_nth)

text \<open>An argument that fills the buffer to its last byte is copied with its terminator, behind the buffer.\<close>

lemma emu_getargs_overruns:
  assumes "args_at A (emem s) (start_esp s + 4) 1 [w]" and "load32 (emem s) (start_esp s) = 2" and "A \<inter> span buf (Suc (length w)) = {}"
  shows "\<exists>m. emu_getargs buf (of_nat (length w)) s = Some (minus_one, s\<lparr>emem := m\<rparr>) \<and> m (buf + of_nat (length w)) = 0"
proof -
  have l: "length w < 2147483648" by (rule args_at_Cons(4) [OF assms(1)])
  note g = getargs_step [OF assms(1,3) l]
  let ?m = "store_bytes (emem s) buf (w @ [0])"
  have "emu_getargs_loop (emem s) 2 (start_esp s + 4) buf (int (length w)) 1 = Some (Some (buf + of_nat (length w), 0), ?m)"
    using g(1-3) by (subst emu_getargs_loop.simps) simp
  then have "emu_getargs buf (of_nat (length w)) s = Some (minus_one, s\<lparr>emem := ?m\<rparr>)"
    using assms(2) sint_of_nat32 [OF l] by (simp add: emu_getargs_def)
  moreover have "?m (buf + of_nat (length w)) = 0" by (simp add: store_bytes_append)
  ultimately show ?thesis by blast
qed

text \<open>A host on which every program exits with status 7, a command, and the stack of a program.\<close>

definition demo_host :: "unit linux" where
  "demo_host = \<lparr>int80 = (\<lambda>_ _ _ _ (m, h). (0, m, h)), libc_open = (\<lambda>_ _ (m, h). (3, m, h)), libc_close = (\<lambda>_ (m, h). (0, m, h)),
     opendir = (\<lambda>_ (m, h). (0x5000, m, h)), readdir = (\<lambda>_ (m, h). (0, m, h)), closedir = (\<lambda>_ (m, h). (0, m, h)), mmap_low = (\<lambda>_ (m, h). (0x6000, m, h)),
     perror = (\<lambda>_ (m, h). (0, m, h)), run_child = (\<lambda>_ _ (m, h). (Exits 7, h))\<rparr>"

definition demo_program :: "unit emu_state" where
  "demo_program = \<lparr>emem = (\<lambda>_. 0)(0x1000 := 108, 0x1001 := 115, 0x1002 := 32, 0x1003 := 97, 0x1004 := 32, 0x1005 := 32, 0x1006 := 98,
       0x3000 := 3, 0x3009 := 0x31, 0x300D := 0x32, 0x3100 := 97, 0x3200 := 98, 0x3201 := 99),
     start_esp = 0x3000, dir_fd = minus_one, dir = 0, mem_fd = minus_one, world = ()\<rparr>"

section \<open>Properties\<close>

text \<open>
  C30: a command is handed to the host word by word. For a command of at most 1023 characters,
  execute runs the program ./name, where name is the first word, with the words behind it as
  further arguments, all of them terminated strings in a copy of the command; the value is the
  exit status of the program, or -1 when it could not be started.
\<close>

theorem emulated_execute:
  assumes "cstring (emem s) command cmd" and "length cmd \<le> 1023" and "span buf 1026 \<inter> span command (Suc (length cmd)) = {}"
  shows "\<exists>ps m. emu_execute L buf command s =
      Some (case fst (run_child L buf (buf # ps) (m, world s)) of Exits c \<Rightarrow> ucast c | Dies sig \<Rightarrow> if sig = 9 then minus_one else 256 | Execv_returned \<Rightarrow> minus_one,
        s\<lparr>emem := m, world := snd (run_child L buf (buf # ps) (m, world s))\<rparr>)
    \<and> cstring m buf (bytes ''./'' @ takeWhile letter cmd)
    \<and> list_all2 (cstring m) ps (tokens (drop (Suc (length (takeWhile letter cmd))) cmd)) \<and> agree (- span buf 1026) m (emem s)"
proof -
  have "emu_status e = (case e of Exits c \<Rightarrow> ucast c | Dies sig \<Rightarrow> if sig = 9 then minus_one else 256 | Execv_returned \<Rightarrow> minus_one)" for e
    by (cases e) simp_all
  then show ?thesis using emu_execute_passes [OF assms, of L] by (simp add: case_prod_beta Let_def)
qed

theorem emulated_execute_witness:
  "\<exists>ps m. emu_execute demo_host 0x2000 0x1000 demo_program = Some (7, demo_program\<lparr>emem := m\<rparr>)
     \<and> cstring m 0x2000 (bytes ''./ls'') \<and> list_all2 (cstring m) ps [bytes ''a'', bytes ''b'']"
proof -
  let ?cmd = "bytes ''ls a  b''"
  have c: "cstring (emem demo_program) 0x1000 ?cmd" by (simp add: demo_program_def bytes_def cstring_Cons cstring_Nil)
  have "span 0x1000 (Suc (length ?cmd)) \<inter> span 0x2000 1026 = {}" by (rule span_below) simp_all
  then have d: "span 0x2000 1026 \<inter> span 0x1000 (Suc (length ?cmd)) = {}" by blast
  have t: "takeWhile letter ?cmd = bytes ''ls''" "tokens (drop (Suc (length (takeWhile letter ?cmd))) ?cmd) = [bytes ''a'', bytes ''b'']" by code_simp+
  have l: "length ?cmd \<le> 1023" by simp
  have r: "run_child demo_host b args (m, world demo_program) = (Exits 7, ())" for b args m by (simp add: demo_host_def demo_program_def)
  have u: "demo_program\<lparr>emem := m, world := ()\<rparr> = demo_program\<lparr>emem := m\<rparr>" for m by (simp add: demo_program_def)
  have p: "bytes ''./'' @ bytes ''ls'' = bytes ''./ls''" by (simp add: bytes_def)
  from emulated_execute [OF c l d, of demo_host, unfolded t(2), unfolded t(1) r fst_conv snd_conv u p] show ?thesis by auto
qed

text \<open>
  C29: a program gets back the words of its command. When the buffer is long enough for the
  arguments of a program with a space between any two, getargs stores that line, which splits
  into exactly these arguments; otherwise it returns -1. Nothing but the buffer and the byte
  behind it is written.
\<close>

theorem emulated_getargs:
  assumes "args_at A (emem s) (start_esp s + 4) 1 ws" and "load32 (emem s) (start_esp s) = of_nat (Suc (length ws))" and "length ws < 2147483647"
    and "A \<inter> span buf (Suc n) = {}" and "n < 2147483648" and "\<forall>w \<in> set ws. w \<noteq> [] \<and> (\<forall>c \<in> set w. letter c)"
  shows "\<exists>r m. emu_getargs buf (of_nat n) s = Some (r, s\<lparr>emem := m\<rparr>) \<and> agree (- span buf (Suc n)) m (emem s)
    \<and> (if length (joined ws) < n then r = 0 \<and> cstring m buf (joined ws) \<and> tokens (joined ws) = ws else r = minus_one)"
proof -
  obtain m where m: "emu_getargs buf (of_nat n) s = Some (if length (joined ws) < n then 0 else minus_one, s\<lparr>emem := m\<rparr>)"
      "agree (- span buf (Suc n)) m (emem s)" "length (joined ws) < n \<longrightarrow> load_bytes m buf (Suc (length (joined ws))) = joined ws @ [0]"
    using emu_getargs_joins [OF assms(1-5)] by blast
  have "0 \<notin> set (joined ws)" using set_joined [of ws] args_at_plain [OF assms(1)] by auto
  then have "cstring m buf (joined ws)" if "length (joined ws) < n"
    using m(3) that assms(5) load_bytes_append [of m buf "length (joined ws)" 1] load_bytes_Suc [of m "buf + of_nat (length (joined ws))" 0]
    by (simp add: cstring_def)
  then show ?thesis using m(1,2) tokens_joined [OF assms(6)] by (auto split: if_splits)
qed

theorem emulated_getargs_witness:
  "\<exists>m. emu_getargs 0x4000 16 demo_program = Some (0, demo_program\<lparr>emem := m\<rparr>) \<and> cstring m 0x4000 (bytes ''a bc'')"
proof -
  let ?A = "span 0x3000 0x1000 :: u32 set" and ?ws = "[bytes ''a'', bytes ''bc'']"
  have p: "load32 (emem demo_program) 0x3008 = 0x3100" "load32 (emem demo_program) 0x300C = 0x3200" "load32 (emem demo_program) 0x3000 = 3"
    by (simp_all add: demo_program_def load32_def)
  have c: "cstring (emem demo_program) 0x3100 (bytes ''a'')" "cstring (emem demo_program) 0x3200 (bytes ''bc'')"
    by (simp_all add: demo_program_def bytes_def cstring_Cons cstring_Nil)
  have sub: "span 0x3008 4 \<subseteq> ?A" "span 0x300C 4 \<subseteq> ?A" "span 0x3100 2 \<subseteq> ?A" "span 0x3200 3 \<subseteq> ?A"
    using span_sub [of 8 4 "0x1000" "0x3000"] span_sub [of 12 4 "0x1000" "0x3000"] span_sub [of "0x100" 2 "0x1000" "0x3000"] span_sub [of "0x200" 3 "0x1000" "0x3000"]
    by simp_all
  have e: "start_esp demo_program = 0x3000" by (simp add: demo_program_def)
  have a: "args_at ?A (emem demo_program) (start_esp demo_program + 4) 1 ?ws"
    unfolding args_at_def
  proof (intro allI impI)
    fix j assume "j < length ?ws"
    then consider "j = 0" | "j = 1" by fastforce
    then show "length (?ws ! j) < 2147483648 \<and> span (start_esp demo_program + 4 + 4 * of_nat (1 + j)) 4 \<subseteq> ?A
        \<and> cstring (emem demo_program) (load32 (emem demo_program) (start_esp demo_program + 4 + 4 * of_nat (1 + j))) (?ws ! j)
        \<and> span (load32 (emem demo_program) (start_esp demo_program + 4 + 4 * of_nat (1 + j))) (Suc (length (?ws ! j))) \<subseteq> ?A"
      by cases (use p c sub in \<open>simp_all add: e numeral_2_eq_2 [symmetric] numeral_3_eq_3 [symmetric]\<close>)
  qed
  have d: "?A \<inter> span 0x4000 (Suc 16) = {}" by (rule span_below) simp_all
  have w: "\<forall>w \<in> set ?ws. w \<noteq> [] \<and> (\<forall>c \<in> set w. letter c)" by (simp add: bytes_def letter_def)
  have n: "load32 (emem demo_program) (start_esp demo_program) = of_nat (Suc (length ?ws))" "length ?ws < 2147483647" "(16 :: nat) < 2147483648"
    unfolding e p(3) by simp_all
  have j: "joined ?ws = bytes ''a bc''" "length (bytes ''a bc'') < 16" by (simp_all add: bytes_def)
  from emulated_getargs [OF a n(1,2) d n(3) w, unfolded j(1)] show ?thesis using j(2) by auto
qed

end
