(* ===== verification/Spec2Isabelle.thy ===== *)
theory Spec2Isabelle
  imports Kud_Boot Kud_Session Kud_Notes Kud_Clock Kud_Signals Kud_Aquarium Kud_Emulate
begin

text \<open>
  Verification of kudOS: the kernel, the C sources of \<^verbatim>\<open>src/student-distrib/\<close>, and the user
  programs of \<^verbatim>\<open>src/syscalls/\<close> and \<^verbatim>\<open>src/fish/\<close> that run on it.

  The program. kudOS is a small kernel for a single x86 processor. A boot loader enters
  \<^verbatim>\<open>entry\<close> (\<^verbatim>\<open>kernel.c\<close>), which initialises the interrupt controller, the real-time clock,
  the file system, paging, the keyboard, the terminals and the timer, and starts a shell. From
  then on the kernel runs only when it is entered: by a system call of a program
  (\<^verbatim>\<open>syscall_asm.S\<close>, \<^verbatim>\<open>syscall.c\<close>) or by an interrupt of the keyboard, the timer or the
  clock. Three terminals share one screen; each has a stack of processes, the newest of which
  runs while its parents wait. A program has one 4 MB page of its own at virtual address
  0x8000000 and sees files, directories, the clock and its terminal through eight descriptors.

  State. One record, extended theory by theory in the order of the components:
  \<open>io_state\<close> (port log and interrupt flag), \<open>pic_state\<close>,
  \<open>ops_state\<close>, \<open>rtc_state\<close>, \<open>term_state\<close> (from here on with the byte memory as the
  kernel sees it), \<open>pcb_state\<close>, \<open>fs_state\<close>, \<open>page_state\<close>,
  \<open>sys_state\<close>, \<open>kbd_state\<close>, \<open>idt_state\<close>, \<open>boot_state\<close>. Global variables that are only
  accessed by name are fields; arrays that are reached through pointers (strings, buffers,
  video memory, the file system image, program images) are in the byte memory \<open>mem\<close> at
  addresses that are parameters of the state where the linker or the compiler chooses them.
  Fixed-width integers are words and wrap; addresses are 32-bit words.

  Theories, and the sources they translate.
  \<^item> \<open>Kud_Prelude\<close>: the integer types, byte memory, reference block moves and fills, the
    locale \<open>invariant_system\<close> of step relations with an invariant.
  \<^item> \<open>Kud_Mem\<close>: memset, memset\_word, memset\_dword, memcpy, memmove of \<^verbatim>\<open>lib.c\<close>, proved equal
    to the reference functions; the locale \<open>block_move\<close> is their contract.
  \<^item> \<open>Kud_String\<close>: strlen, strrev, strncmp, strcpy, strncpy, itoa of \<^verbatim>\<open>lib.c\<close>.
  \<^item> \<open>Kud_Ports\<close>: \<^verbatim>\<open>lib.h\<close> and \<^verbatim>\<open>i8259.c\<close>; the locale \<open>irq_controller\<close> states what
    enabling and disabling a line do to all sixteen masks.
  \<^item> \<open>Kud_Ops\<close>: the driver tables of \<^verbatim>\<open>filesystem.h\<close>.
  \<^item> \<open>Kud_Rtc\<close>: \<^verbatim>\<open>rtc.c\<close>, with a step relation in which the interrupt handler runs between
    any two accesses of \<^verbatim>\<open>rtc_read\<close> to the shared flags.
  \<^item> \<open>Kud_Terminal\<close>: \<^verbatim>\<open>terminal.c\<close>; cursors and buffers stay in bounds, output reaches only
    the screen of its terminal.
  \<^item> \<open>Kud_Pcb\<close>: \<^verbatim>\<open>pcb.c\<close>.
  \<^item> \<open>Kud_FS\<close>: \<^verbatim>\<open>filesystem.c\<close>; lookup, open, sequential read and directory listing against
    the contents \<open>file_byte\<close> of a file in the image.
  \<^item> \<open>Kud_Paging\<close>: \<^verbatim>\<open>paging.c\<close>, \<^verbatim>\<open>pagingasm.S\<close>; translation through the tables, isolation
    of tasks, and the refinement of physical memory by the view the kernel has of it.
  \<^item> \<open>Kud_Printf\<close>: puts, printf, clear, putc of \<^verbatim>\<open>lib.c\<close>.
  \<^item> \<open>Kud_Syscall\<close>: the definitions of \<^verbatim>\<open>syscall.c\<close> and of the dispatcher.
  \<^item> \<open>Kud_Files\<close>: read, write, open, close: descriptor tables stay well formed. The contract of
    a driver is the locale \<open>file_call\<close>.
  \<^item> \<open>Kud_Command\<close>: check\_command, check\_executable, getargs.
  \<^item> \<open>Kud_Process\<close>: execute and halt refine push and pop on one stack of processes per terminal;
    \<open>runs\<close> is the simulation relation.
  \<^item> \<open>Kud_Exec\<close>: the stages of execute composed in one memory: from a command line to the
    program's bytes in its page and its arguments in its process block.
  \<^item> \<open>Kud_Keyboard\<close>: \<^verbatim>\<open>keyboard.c\<close>, switch\_terminal of \<^verbatim>\<open>terminal.c\<close>, \<^verbatim>\<open>scheduler.c\<close>.
  \<^item> \<open>Kud_Kernel\<close>: the kernel as a machine entered by calls and interrupts; the locale
    \<open>kernel_entry\<close> is what every entry keeps, and the invariant of all runs follows.
  \<^item> \<open>Kud_Idt\<close>: \<^verbatim>\<open>idt.c\<close> and the descriptor formats of \<^verbatim>\<open>x86_desc.h\<close>.
  \<^item> \<open>Kud_Boot\<close>: \<^verbatim>\<open>kernel.c\<close>; the start establishes every invariant the other theories assume.
  \<^item> \<open>Kud_Display\<close>: what a user sees, the cells of the screen and the state of the line editor,
    as a function of the text that was written.
  \<^item> \<open>Kud_Support\<close>: the support library \<^verbatim>\<open>ece391support.c\<close> of the programs, proved equal to
    the kernel's string functions.
  \<^item> \<open>Kud_User\<close>: the call stubs of \<^verbatim>\<open>ece391syscall.S\<close> and the contract \<open>prints\<close> of a piece of
    a program; one lemma per call says what the call does for the program that makes it.
  \<^item> \<open>Kud_Programs\<close>: \<^verbatim>\<open>ece391cat.c\<close>, \<^verbatim>\<open>ece391hello.c\<close>, \<^verbatim>\<open>ece391counter.c\<close>,
    \<^verbatim>\<open>ece391testprint.c\<close>.
  \<^item> \<open>Kud_Shell\<close>: \<^verbatim>\<open>ece391shell.c\<close>, from the typed line to the program the kernel enters.
  \<^item> \<open>Kud_Dir\<close>: \<^verbatim>\<open>ece391ls.c\<close>.
  \<^item> \<open>Kud_Syserr\<close>: \<^verbatim>\<open>ece391syserr.c\<close>; the contract \<open>passes\<close> of a test composes to the suite.
  \<^item> \<open>Kud_Userland\<close>: what the programs print, on every state that meets the conditions and on a
    concrete machine with the literals of the programs in its memory.
  \<^item> \<open>Kud_Grep\<close>, \<open>Kud_Notes\<close>: the search program \<^verbatim>\<open>ece391grep.c\<close>, its buffer of unfinished lines,
    its walk over the directory, and the lines it prints.
  \<^item> \<open>Kud_Pingpong\<close>, \<open>Kud_Clock\<close>: the animation \<^verbatim>\<open>ece391pingpong.c\<close>, which waits for the clock
    between its pictures.
  \<^item> \<open>Kud_Sigtest\<close>, \<open>Kud_Signals\<close>: the signal test \<^verbatim>\<open>ece391sigtest.c\<close> against the system call
    table and the page tables of the kernel.
  \<^item> \<open>Kud_Blink\<close>, \<open>Kud_Blinkers\<close>: the blinking characters of \<^verbatim>\<open>src/fish/\<close>, a linked list in
    an array of slots (\<^verbatim>\<open>blink.S\<close>, \<^verbatim>\<open>fish.c\<close>); the locale \<open>blink_device\<close> is their contract.
  \<^item> \<open>Kud_Fish\<close>, \<open>Kud_Show\<close>, \<open>Kud_Aquarium\<close>: the rest of \<^verbatim>\<open>fish.c\<close>: the two pictures it
    reads from files, the requests it makes of them, and its main function, from the call that
    maps the screen to its return.
  \<^item> \<open>Kud_Emulate\<close>: the layer \<^verbatim>\<open>ece391emulate.c\<close> with which the programs run on a Linux host.
  \<^item> \<open>Kud_Session\<close>: keyboard interrupts, terminal, shell and execute composed in one run.

  Control. A handler that does not simply return has an \<open>outcome\<close>: it returns a value, enters a
  program at an address, resumes the execute of a parent, waits for an interrupt, or has no
  defined continuation (\<open>Faults\<close>: an access outside an array or through a null table). Loops
  that end at a terminator in memory are \<^theory_text>\<open>partial_function (option)\<close>, and theorems that
  use them prove that they return. Waiting loops take the interrupts that arrive as an argument.
  There is no fuel; every other recursion is total. The one program that never ends, pingpong,
  takes the number of its rounds, and what it shows is proved for every number.

  Parameters. Devices answer port reads by a function \<open>dev\<close> of the history of port accesses.
  The Linux host under \<open>Kud_Emulate\<close> is a record of functions, on which nothing is assumed; fork
  is taken to succeed. What lies in memory behind arrays the code overruns is a field of the state, so that theorems
  hold whatever it is.

  Not modelled: the register saving in \<^verbatim>\<open>boot.S\<close>, \<^verbatim>\<open>x86_desc.S\<close>, \<^verbatim>\<open>keyboardWrapper.S\<close> and
  \<^verbatim>\<open>scheduler_asm.S\<close>; the debug macros; the round robin that is commented out in
  \<^verbatim>\<open>scheduler.c\<close>; nested interrupts other than in \<open>Kud_Rtc\<close> (every other handler runs to
  its end, although scroll enables interrupts while one runs). A program is a function on the
  state of the kernel: its instructions are not modelled, and that its registers survive a
  call is the business of the assembly wrappers.
\<close>

end
